(* ===== verification/Prelude.thy ===== *)
theory Prelude
  imports Main "HOL-Library.Monad_Syntax"
begin

text \<open>
  What every component shares.  A C++ run that ends in a failed \<open>assert\<close> or in
  \<open>Module::Error\<close> (which prints and calls \<open>exit(-1)\<close>, src/booksim2/src/module.cpp)
  has no result, so an operation that can end that way returns an \<open>option\<close> and
  \<open>None\<close> is "the simulator stops here".  \<open>assertion\<close> is the check itself, \<open>foldM\<close> a
  \<open>for\<close> loop whose body may stop, and the \<open>om_\<close> functions are \<open>std::map\<close> and
  \<open>std::set\<close> with integer keys: association lists kept in key order, so that a loop over
  one visits the keys in the order the C++ iterator does.
\<close>

named_theorems step_simps \<open>defining equations a component unfolds to run one step\<close>
named_theorems wf_intros \<open>introduction rules for well-formedness predicates\<close>

subsection \<open>Checks that stop the run\<close>

definition assertion :: "bool \<Rightarrow> unit option" where
  "assertion b = (if b then Some () else None)"

lemma assertion_simps [simp]:
  "assertion True = Some ()" "assertion False = None"
  by (simp_all add: assertion_def)

lemma assertion_eq_Some [simp]: "assertion b = Some u \<longleftrightarrow> b"
  by (simp add: assertion_def)

lemma assertion_eq_None [simp]: "assertion b = None \<longleftrightarrow> \<not> b"
  by (simp add: assertion_def)

lemma assertion_bind_Some [simp]:
  "(assertion b \<bind> f = Some y) \<longleftrightarrow> b \<and> f () = Some y"
  by (simp add: assertion_def)

lemma assertion_bind_None [simp]:
  "(assertion b \<bind> f = None) \<longleftrightarrow> (b \<longrightarrow> f () = None)"
  by (simp add: assertion_def)

subsection \<open>Loops whose body may stop the run\<close>

fun foldM :: "('a \<Rightarrow> 's \<Rightarrow> 's option) \<Rightarrow> 'a list \<Rightarrow> 's \<Rightarrow> 's option" where
  "foldM f [] s = Some s"
| "foldM f (x # xs) s = (case f x s of None \<Rightarrow> None | Some s' \<Rightarrow> foldM f xs s')"

lemma foldM_append:
  "foldM f (xs @ ys) s = (case foldM f xs s of None \<Rightarrow> None | Some s' \<Rightarrow> foldM f ys s')"
  by (induction xs arbitrary: s) (auto split: option.splits)

lemma foldM_map: "foldM f (map g xs) s = foldM (\<lambda>x. f (g x)) xs s"
  by (induction xs arbitrary: s) (auto split: option.splits)

lemma foldM_invariant:
  assumes "foldM f xs s = Some t" and "P s"
    and "\<And>x s s'. x \<in> set xs \<Longrightarrow> P s \<Longrightarrow> f x s = Some s' \<Longrightarrow> P s'"
  shows "P t"
  using assms
proof (induction xs arbitrary: s)
  case Nil
  then show ?case by simp
next
  case (Cons x xs)
  from Cons.prems(1) obtain u where u: "f x s = Some u" and rest: "foldM f xs u = Some t"
    by (auto split: option.splits)
  have "P u" using Cons.prems(2,3) u by auto
  then show ?case using Cons.IH [OF rest] Cons.prems(3) by auto
qed

lemma foldM_succeeds:
  assumes "P s"
    and "\<And>x s. x \<in> set xs \<Longrightarrow> P s \<Longrightarrow> \<exists>s'. f x s = Some s' \<and> P s'"
  shows "\<exists>t. foldM f xs s = Some t \<and> P t"
  using assms
proof (induction xs arbitrary: s)
  case Nil
  then show ?case by simp
next
  case (Cons x xs)
  from Cons.prems obtain u where "f x s = Some u" "P u" by force
  moreover from this obtain t where "foldM f xs u = Some t" "P t"
    using Cons.IH [of u] Cons.prems(2) by auto
  ultimately show ?case by simp
qed

lemma fold_invariant':
  assumes "P s" and "\<And>x s. x \<in> set xs \<Longrightarrow> P s \<Longrightarrow> P (f x s)"
  shows "P (fold f xs s)"
  using assms by (induction xs arbitrary: s) auto

lemma fold_filter_skip:
  "fold f (filter P xs) s = fold (\<lambda>x s. if P x then f x s else s) xs s"
  by (induction xs arbitrary: s) auto

subsection \<open>Ordered maps and sets with integer keys\<close>

type_synonym 'v omap = "(nat \<times> 'v) list"

text \<open>\<open>om_put k v\<close> is \<open>m[k] = v\<close>; \<open>om_insert\<close> is \<open>m.insert(make_pair(k, v))\<close>, which
  leaves an entry that is already there alone.\<close>

fun om_put :: "nat \<Rightarrow> 'v \<Rightarrow> 'v omap \<Rightarrow> 'v omap" where
  "om_put k v [] = [(k, v)]"
| "om_put k v ((j, w) # m) =
     (if k < j then (k, v) # (j, w) # m
      else if k = j then (k, v) # m
      else (j, w) # om_put k v m)"

definition om_count :: "nat \<Rightarrow> 'v omap \<Rightarrow> bool" where
  "om_count k m \<longleftrightarrow> map_of m k \<noteq> None"

definition om_insert :: "nat \<Rightarrow> 'v \<Rightarrow> 'v omap \<Rightarrow> 'v omap" where
  "om_insert k v m = (if om_count k m then m else om_put k v m)"

abbreviation om_sorted :: "'v omap \<Rightarrow> bool" where
  "om_sorted m \<equiv> sorted_wrt (<) (map fst m)"

lemma map_of_not_less: "om_sorted ((j, w) # m) \<Longrightarrow> k < j \<Longrightarrow> map_of m k = None"
  by (induction m) auto

lemma om_put_lookup:
  "om_sorted m \<Longrightarrow> map_of (om_put k v m) = (map_of m)(k \<mapsto> v)"
  by (induction k v m rule: om_put.induct) (auto simp: fun_eq_iff)

lemma om_put_keys: "fst ` set (om_put k v m) = insert k (fst ` set m)"
  by (induction k v m rule: om_put.induct) auto

lemma om_put_sorted: "om_sorted m \<Longrightarrow> om_sorted (om_put k v m)"
proof (induction k v m rule: om_put.induct)
  case (2 k v j w m)
  have "fst ` set (om_put k v m) = insert k (fst ` set m)" by (rule om_put_keys)
  with 2 show ?case by auto
qed auto

lemma om_put_not_Nil [simp]: "om_put k v m \<noteq> []"
  by (induction k v m rule: om_put.induct) auto

lemma om_insert_sorted: "om_sorted m \<Longrightarrow> om_sorted (om_insert k v m)"
  by (simp add: om_insert_def om_put_sorted)

lemma om_insert_lookup:
  "om_sorted m \<Longrightarrow>
     map_of (om_insert k v m) = (if om_count k m then map_of m else (map_of m)(k \<mapsto> v))"
  by (simp add: om_insert_def om_put_lookup)

lemma om_insert_not_Nil [simp]: "om_insert k v m \<noteq> []"
  by (auto simp: om_insert_def om_count_def)

text \<open>\<open>set<int>\<close>: a strictly increasing list.\<close>

fun os_insert :: "nat \<Rightarrow> nat list \<Rightarrow> nat list" where
  "os_insert k [] = [k]"
| "os_insert k (j # s) =
     (if k < j then k # j # s else if k = j then j # s else j # os_insert k s)"

lemma set_os_insert [simp]: "set (os_insert k s) = insert k (set s)"
  by (induction s) auto

lemma os_insert_sorted: "sorted_wrt (<) s \<Longrightarrow> sorted_wrt (<) (os_insert k s)"
  by (induction s) auto

subsection \<open>Lists read and written by index\<close>

text \<open>\<open>v.resize(n, x)\<close>.\<close>

definition resize :: "nat \<Rightarrow> 'a \<Rightarrow> 'a list \<Rightarrow> 'a list" where
  "resize n x xs = take n xs @ replicate (n - length xs) x"

lemma length_resize [simp]: "length (resize n x xs) = n"
  by (simp add: resize_def)

lemma resize_same [simp]: "length xs = n \<Longrightarrow> resize n x xs = xs"
  by (simp add: resize_def)

lemma resize_Nil [simp]: "resize n x [] = replicate n x"
  by (simp add: resize_def)

text \<open>\<open>v[i][j] = x\<close>.\<close>

definition put2 :: "nat \<Rightarrow> nat \<Rightarrow> 'a \<Rightarrow> 'a list list \<Rightarrow> 'a list list" where
  "put2 i j x xss = xss[i := (xss ! i)[j := x]]"

lemma length_put2 [simp]: "length (put2 i j x xss) = length xss"
  by (simp add: put2_def)

text \<open>Sums over a list of integers when one entry changes.\<close>

lemma sum_list_map_update:
  fixes g :: "'a \<Rightarrow> int"
  shows "i < length xs \<Longrightarrow>
    (\<Sum>x\<leftarrow>xs[i := y]. g x) = (\<Sum>x\<leftarrow>xs. g x) - g (xs ! i) + g y"
proof (induction xs arbitrary: i)
  case (Cons x xs)
  then show ?case by (cases i) auto
qed simp

lemma sum_list_update_int:
  "i < length xs \<Longrightarrow> sum_list (xs[i := (y::int)]) = sum_list xs - xs ! i + y"
  using sum_list_map_update [of i xs "\<lambda>x. x"] by simp

lemma nth_le_sum_list_int:
  assumes "\<forall>x \<in> set xs. 0 \<le> (x::int)" and "i < length xs"
  shows "xs ! i \<le> sum_list xs"
  using assms
proof (induction xs arbitrary: i)
  case (Cons x xs)
  then have "0 \<le> sum_list xs" by (simp add: sum_list_nonneg)
  with Cons show ?case by (cases i) fastforce+
qed simp

text \<open>The loop that several arbiters use to visit the entries of a list sorted by \<open>key\<close> round robin:
  from \<open>offset\<close> to the end, then wrapped around up to \<open>offset\<close>.  The entry it wraps to is visited
  without the test against \<open>offset\<close>.\<close>

definition scan_from :: "('a \<Rightarrow> nat) \<Rightarrow> nat \<Rightarrow> 'a list \<Rightarrow> 'a list" where
  "scan_from key offset xs =
     (let before = takeWhile (\<lambda>x. key x < offset) xs; after = dropWhile (\<lambda>x. key x < offset) xs
      in after @ (if before = [] then take 1 xs else before))"

lemma set_scan_from [simp]: "set (scan_from key offset xs) = set xs"
proof -
  have "set xs = set (takeWhile (\<lambda>x. key x < offset) xs) \<union> set (dropWhile (\<lambda>x. key x < offset) xs)"
    by (metis set_append takeWhile_dropWhile_id)
  then show ?thesis
    by (auto simp: scan_from_def Let_def dest: in_set_takeD)
qed

text \<open>The loop that visits the numbers below \<open>n\<close> round robin from \<open>offset\<close>.\<close>

lemma round_robin_rotate: "map (\<lambda>i. (i + offset) mod n) [0..<n] = rotate offset [0..<n]"
  by (rule nth_equalityI) (simp_all add: nth_rotate add.commute)

lemma distinct_round_robin: "distinct (map (\<lambda>i. (i + offset) mod n) [0..<n])"
  by (simp add: round_robin_rotate)

lemma set_round_robin: "set (map (\<lambda>i. (i + offset) mod n) [0..<n]) = {..<n}"
  unfolding round_robin_rotate by auto

lemma nth_list_update_lt:
  "j < length xs \<Longrightarrow> xs[i := v] ! j = (if j = i then v else xs ! j)"
  by auto

lemma upt_4: "[0..<4] = [0, 1, 2, 3::nat]"
  by (simp add: upt_rec)

lemma less_4_cases: "(i::nat) < 4 \<longleftrightarrow> i = 0 \<or> i = 1 \<or> i = 2 \<or> i = 3"
  by auto

lemma all_less_4: "(\<forall>i<4. P (i::nat)) \<longleftrightarrow> P 0 \<and> P 1 \<and> P 2 \<and> P 3"
  by (auto simp: less_4_cases)

lemma length_4_conv: "length xs = 4 \<longleftrightarrow> (\<exists>a b c d. xs = [a, b, c, d])"
  by (auto simp: length_Suc_conv numeral_eq_Suc)

end
