(* ===== verification/Output_Set.thy ===== *)
theory Output_Set
  imports Prelude
begin

text \<open>
  src/booksim2/src/outputset.cpp: the set of (port, VC range, priority) choices a routing
  function hands to a router.  The C++ \<open>std::set<sSetElement>\<close> is ordered by an
  \<open>operator<\<close> that looks at \<open>pri\<close> only, higher priorities first; the model is the list of
  its elements in iteration order, and insertion follows the library's rule that an element
  equivalent to one already present is not inserted.
\<close>

record set_element =
  vc_start :: int
  vc_end :: int
  se_pri :: int
  output_port :: int

type_synonym output_set = "set_element list"

definition se_less :: "set_element \<Rightarrow> set_element \<Rightarrow> bool" where
  "se_less s1 s2 \<longleftrightarrow> se_pri s1 > se_pri s2"

fun os_set_insert :: "set_element \<Rightarrow> output_set \<Rightarrow> output_set" where
  "os_set_insert s [] = [s]"
| "os_set_insert s (t # ts) =
     (if se_less s t then s # t # ts
      else if se_less t s then t # os_set_insert s ts
      else t # ts)"

definition Clear :: "output_set \<Rightarrow> output_set" where
  "Clear os = []"

definition AddRange :: "int \<Rightarrow> int \<Rightarrow> int \<Rightarrow> int \<Rightarrow> output_set \<Rightarrow> output_set" where
  "AddRange port vs ve pri os =
     os_set_insert \<lparr>vc_start = vs, vc_end = ve, se_pri = pri, output_port = port\<rparr> os"

definition Add :: "int \<Rightarrow> int \<Rightarrow> int \<Rightarrow> output_set \<Rightarrow> output_set" where
  "Add port vc pri os = AddRange port vc vc pri os"

fun NumVCs_from :: "int \<Rightarrow> int \<Rightarrow> output_set \<Rightarrow> int" where
  "NumVCs_from port tot [] = tot"
| "NumVCs_from port tot (i # os) =
     (if output_port i = port
      then NumVCs_from port (tot + (vc_end i - vc_start i + 1)) os
      else NumVCs_from port tot os)"

definition NumVCs :: "int \<Rightarrow> output_set \<Rightarrow> int" where
  "NumVCs port os = NumVCs_from port 0 os"

fun OutputEmpty :: "int \<Rightarrow> output_set \<Rightarrow> bool" where
  "OutputEmpty port [] = True"
| "OutputEmpty port (i # os) = (if output_port i = port then False else OutputEmpty port os)"

text \<open>\<open>GetVC\<close> returns the VC and writes the element's priority through \<open>pri\<close>; both are
  \<open>-1\<close> when the index is past the last VC of the port.\<close>

fun GetVC :: "int \<Rightarrow> int \<Rightarrow> output_set \<Rightarrow> int \<times> int" where
  "GetVC port remaining [] = (-1, -1)"
| "GetVC port remaining (i # os) =
     (if output_port i = port
      then let rng = vc_end i - vc_start i + 1 in
           (if remaining \<ge> rng then GetVC port (remaining - rng) os
            else (vc_start i + remaining, se_pri i))
      else GetVC port remaining os)"

text \<open>\<open>GetPortVC\<close>: the loop state is (\<open>single_output\<close>, \<open>*out_port\<close>, \<open>*out_vc\<close>), the two
  out-parameters being \<open>None\<close> while they have not been written.\<close>

fun GetPortVC_loop ::
  "int \<Rightarrow> bool \<times> (int \<times> int) option \<Rightarrow> output_set \<Rightarrow> bool \<times> (int \<times> int) option" where
  "GetPortVC_loop used st [] = st"
| "GetPortVC_loop used (single, out) (i # os) =
     (if vc_start i = vc_end i
      then (if used \<noteq> output_port i then (False, Some (output_port i, vc_start i))
            else GetPortVC_loop used (True, Some (output_port i, vc_start i)) os)
      else (single, out))"

definition GetPortVC :: "output_set \<Rightarrow> bool \<times> (int \<times> int) option" where
  "GetPortVC os =
     GetPortVC_loop (case os of [] \<Rightarrow> 0 | i # _ \<Rightarrow> output_port i) (False, None) os"

subsection \<open>The order of the set\<close>

definition os_wf :: "output_set \<Rightarrow> bool" where
  "os_wf os \<longleftrightarrow> sorted_wrt se_less os"

lemma os_set_insert_members: "set (os_set_insert s os) \<subseteq> insert s (set os)"
  by (induction s os rule: os_set_insert.induct) auto

lemma os_wf_set_insert: "os_wf os \<Longrightarrow> os_wf (os_set_insert s os)"
proof (induction s os rule: os_set_insert.induct)
  case (2 s t ts)
  have "set (os_set_insert s ts) \<subseteq> insert s (set ts)" by (rule os_set_insert_members)
  with 2 show ?case by (auto simp: os_wf_def se_less_def)
qed (simp add: os_wf_def)

lemma os_set_insert_present:
  "os_wf os \<Longrightarrow> \<exists>t \<in> set os. se_pri t = se_pri s \<Longrightarrow> os_set_insert s os = os"
  by (induction s os rule: os_set_insert.induct) (auto simp: os_wf_def se_less_def)

lemma os_set_insert_fresh:
  "\<forall>t \<in> set os. se_pri t \<noteq> se_pri s \<Longrightarrow> set (os_set_insert s os) = insert s (set os)"
  by (induction s os rule: os_set_insert.induct) (auto simp: se_less_def)

lemma Clear_simp [simp]: "Clear os = []"
  by (simp add: Clear_def)

lemma os_wf_Nil [simp]: "os_wf []"
  by (simp add: os_wf_def)

lemma AddRange_wf [wf_intros]: "os_wf os \<Longrightarrow> os_wf (AddRange p vs ve pri os)"
  by (simp add: AddRange_def os_wf_set_insert)

lemma AddRange_Nil [simp]:
  "AddRange p vs ve pri [] = [\<lparr>vc_start = vs, vc_end = ve, se_pri = pri, output_port = p\<rparr>]"
  by (simp add: AddRange_def)

subsection \<open>Enumerating the VCs of a port\<close>

definition ranges_ok :: "output_set \<Rightarrow> bool" where
  "ranges_ok os \<longleftrightarrow> (\<forall>i \<in> set os. vc_start i \<le> vc_end i)"

definition port_vcs :: "int \<Rightarrow> output_set \<Rightarrow> int list" where
  "port_vcs port os =
     concat (map (\<lambda>i. [vc_start i .. vc_end i]) (filter (\<lambda>i. output_port i = port) os))"

lemma NumVCs_from_add: "NumVCs_from port tot os = tot + NumVCs port os"
proof (induction os arbitrary: tot)
  case Nil
  then show ?case by (simp add: NumVCs_def)
next
  case (Cons i os)
  from Cons [of "tot + (vc_end i - vc_start i + 1)"] Cons [of tot]
    Cons [of "vc_end i - vc_start i + 1"]
  show ?case by (simp add: NumVCs_def)
qed

lemma NumVCs_simps [simp]:
  "NumVCs port [] = 0"
  "NumVCs port (i # os) =
     (if output_port i = port then vc_end i - vc_start i + 1 else 0) + NumVCs port os"
  by (simp_all add: NumVCs_def NumVCs_from_add [of _ "vc_end i - vc_start i + 1"])

lemma port_vcs_simps [simp]:
  "port_vcs port [] = []"
  "port_vcs port (i # os) =
     (if output_port i = port then [vc_start i .. vc_end i] else []) @ port_vcs port os"
  by (simp_all add: port_vcs_def)

lemma NumVCs_length: "ranges_ok os \<Longrightarrow> NumVCs port os = int (length (port_vcs port os))"
  by (induction os) (auto simp: ranges_ok_def)

lemma NumVCs_nonneg: "ranges_ok os \<Longrightarrow> 0 \<le> NumVCs port os"
  by (simp add: NumVCs_length)

lemma GetVC_nth:
  assumes "ranges_ok os" and "k < length (port_vcs port os)"
  shows "fst (GetVC port (int k) os) = port_vcs port os ! k"
  using assms
proof (induction os arbitrary: k)
  case Nil
  then show ?case by simp
next
  case (Cons i os)
  have ok: "ranges_ok os" and r: "vc_start i \<le> vc_end i"
    using Cons.prems(1) by (auto simp: ranges_ok_def)
  show ?case
  proof (cases "output_port i = port")
    case False
    with Cons.IH [OF ok] Cons.prems show ?thesis by simp
  next
    case True
    let ?n = "nat (vc_end i - vc_start i + 1)"
    show ?thesis
    proof (cases "k < ?n")
      case lt: True
      with True r show ?thesis by (auto simp: nth_append Let_def)
    next
      case ge: False
      have "k - ?n < length (port_vcs port os)"
        using Cons.prems(2) True ge r by auto
      moreover have "int k - (vc_end i - vc_start i + 1) = int (k - ?n)"
        using ge r by linarith
      ultimately show ?thesis
        using Cons.IH [OF ok, of "k - ?n"] True ge r by (auto simp: nth_append Let_def)
    qed
  qed
qed

lemma GetVC_past_end:
  "ranges_ok os \<Longrightarrow> NumVCs port os \<le> k \<Longrightarrow> GetVC port k os = (-1, -1)"
proof (induction os arbitrary: k)
  case (Cons i os)
  then have ok: "ranges_ok os" and r: "vc_start i \<le> vc_end i" by (auto simp: ranges_ok_def)
  moreover have "0 \<le> NumVCs port os" by (rule NumVCs_nonneg [OF ok])
  ultimately show ?case using Cons by (auto simp: Let_def)
qed simp

text \<open>Indexing the VCs a routing function offers at a port is right at every index: from 0 to
  \<open>NumVCs - 1\<close> \<open>GetVC\<close> runs through exactly the VCs of that port's ranges, in order of decreasing
  priority, and from \<open>NumVCs\<close> on it is \<open>-1\<close>.\<close>

theorem GetVC_enumerates:
  assumes "ranges_ok os"
  shows "map (\<lambda>k. fst (GetVC port (int k) os)) [0..<nat (NumVCs port os)] = port_vcs port os \<and>
    (\<forall>k \<ge> NumVCs port os. GetVC port k os = (-1, -1))"
proof
  show "map (\<lambda>k. fst (GetVC port (int k) os)) [0..<nat (NumVCs port os)] = port_vcs port os"
    using GetVC_nth [OF assms] by (intro nth_equalityI) (simp_all add: NumVCs_length [OF assms])
qed (simp add: GetVC_past_end [OF assms])

lemma GetVC_enumerates_witness:
  "map (\<lambda>k. fst (GetVC 2 (int k) (AddRange 2 4 5 1 (AddRange 2 0 1 3 [])))) [0..<4] = [0, 1, 4, 5]"
proof -
  let ?os = "AddRange 2 4 5 1 (AddRange 2 0 1 3 [])"
  have os: "?os = [\<lparr>vc_start = 0, vc_end = 1, se_pri = 3, output_port = 2\<rparr>,
      \<lparr>vc_start = 4, vc_end = 5, se_pri = 1, output_port = 2\<rparr>]"
    by (simp add: AddRange_def se_less_def)
  have "ranges_ok ?os" unfolding os by (simp add: ranges_ok_def)
  from GetVC_enumerates [OF this, of 2] have
    "map (\<lambda>k. fst (GetVC 2 (int k) ?os)) [0..<nat (NumVCs 2 ?os)] = port_vcs 2 ?os" by blast
  then show ?thesis unfolding os by (simp add: upto.simps)
qed

text \<open>The set of outputs is ordered by priority alone, so a range added with the priority of one
  that is already there is dropped, whatever its port and VCs; with a priority of its own it is
  kept, beside everything that was there.\<close>

theorem AddRange_keeps_first_of_priority:
  assumes "os_wf os"
  shows "set (AddRange port vs ve pri os) =
    (if \<exists>t \<in> set os. se_pri t = pri then set os
     else insert \<lparr>vc_start = vs, vc_end = ve, se_pri = pri, output_port = port\<rparr> (set os))"
  using os_set_insert_present [OF assms] os_set_insert_fresh [of os]
  by (auto simp: AddRange_def)

lemma AddRange_keeps_first_of_priority_witness:
  "set (AddRange 1 0 3 0 (AddRange 0 0 3 0 [])) =
     {\<lparr>vc_start = 0, vc_end = 3, se_pri = 0, output_port = 0\<rparr>}"
proof -
  have "os_wf (AddRange 0 0 3 0 [])" by (simp add: os_wf_def)
  from AddRange_keeps_first_of_priority [OF this, of 1 0 3 0] show ?thesis by simp
qed

end
