(* ===== verification/Flits.thy ===== *)
theory Flits
  imports Output_Set
begin

text \<open>
  The objects that travel between routers: flits (src/booksim2/src/flit.cpp, flit.hpp),
  credits (credit.cpp, credit.hpp) and power-gating handshakes (handshake.cpp,
  handshake.hpp), with the free-list allocator the three classes share.  Fields keep the
  source's names under a prefix and the source's \<open>-1\<close> sentinels; the two state fields of a
  handshake, which the code compares with \<open>-1\<close> and casts to \<open>ePowerState\<close>, are
  \<open>power_state option\<close> with \<open>None\<close> for \<open>-1\<close>.
\<close>

subsection \<open>Flits\<close>

datatype flit_type = READ_REQUEST | READ_REPLY | WRITE_REQUEST | WRITE_REPLY | ANY_TYPE

record flit =
  f_type :: flit_type
  f_vc :: int
  f_cl :: int
  f_head :: bool
  f_tail :: bool
  f_ctime :: int
  f_itime :: int
  f_atime :: int
  f_rtime :: int
  f_bypass_vc :: int
  f_id :: int
  f_pid :: int
  f_record :: bool
  f_src :: int
  f_dest :: int
  f_pri :: int
  f_flov_hops :: int
  f_misroute_hops :: int
  f_ring_dest :: int
  f_hops :: int
  f_watch :: bool
  f_subnetwork :: int
  f_intm :: int
  f_ph :: int
  f_la_route_set :: output_set

definition Flit_Reset :: "flit \<Rightarrow> flit" where
  "Flit_Reset f = f\<lparr>
     f_type := ANY_TYPE, f_vc := -1, f_cl := -1, f_head := False, f_tail := False,
     f_ctime := -1, f_itime := -1, f_atime := -1, f_id := -1, f_pid := -1, f_hops := 0,
     f_watch := False, f_record := False, f_src := -1, f_dest := -1, f_pri := 0,
     f_intm := -1, f_ph := -1, f_rtime := -1, f_bypass_vc := -1, f_flov_hops := 0,
     f_misroute_hops := 0, f_ring_dest := 0\<rparr>"

subsection \<open>Credits\<close>

record credit =
  c_vc :: "nat list"
  c_head :: bool
  c_tail :: bool
  c_id :: int

definition Credit_Reset :: "credit \<Rightarrow> credit" where
  "Credit_Reset c = c\<lparr>c_vc := [], c_head := False, c_tail := False, c_id := -1\<rparr>"

definition Credit_New :: credit where
  "Credit_New = \<lparr>c_vc = [], c_head = False, c_tail = False, c_id = -1\<rparr>"

lemma Credit_Reset_New [simp]: "Credit_Reset c = Credit_New"
  by (simp add: Credit_Reset_def Credit_New_def)

subsection \<open>Handshakes\<close>

text \<open>\<open>Router::ePowerState\<close> (src/booksim2/src/routers/router.hpp), in the enum's order.\<close>

datatype power_state = power_off | power_on | draining | wakeup

record handshake =
  new_state :: "power_state option"
  src_state :: "power_state option"
  drain_done :: bool
  hs_wakeup :: int
  hs_id :: int
  hid :: int
  logical_neighbor :: int

definition Handshake_Reset :: "handshake \<Rightarrow> handshake" where
  "Handshake_Reset h = h\<lparr>new_state := None, src_state := None, drain_done := False,
     hs_wakeup := -1, hs_id := -1, hid := -1, logical_neighbor := -1\<rparr>"

definition Handshake_New :: handshake where
  "Handshake_New = \<lparr>new_state = None, src_state = None, drain_done = False,
     hs_wakeup = -1, hs_id = -1, hid = -1, logical_neighbor = -1\<rparr>"

lemma Handshake_Reset_New [simp]: "Handshake_Reset h = Handshake_New"
  by (simp add: Handshake_Reset_def Handshake_New_def)

lemma Credit_New_simps [simp]:
  "c_vc Credit_New = []" "c_head Credit_New = False" "c_tail Credit_New = False"
  "c_id Credit_New = -1"
  by (simp_all add: Credit_New_def)

lemma Handshake_New_simps [simp]:
  "new_state Handshake_New = None" "src_state Handshake_New = None"
  "drain_done Handshake_New = False" "hs_wakeup Handshake_New = -1"
  "hs_id Handshake_New = -1" "hid Handshake_New = -1" "logical_neighbor Handshake_New = -1"
  by (simp_all add: Handshake_New_def)

subsection \<open>The free-list allocator\<close>

text \<open>
  \<open>New\<close>, \<open>Free\<close> and \<open>OutStanding\<close> are the same code in the three classes, over the static
  stacks \<open>_all\<close> and \<open>_free\<close>.  Addresses are numbers, the heap maps an address to its object,
  and \<open>new\<close> returns an address that is not allocated: here the number of objects made so far.
  \<open>reset\<close> is the class's \<open>Reset\<close>; \<open>mk\<close> is what its constructor builds.  \<open>Flit::Free\<close> resets
  the object it puts back, the other two do not.
\<close>

record 'o pool =
  p_all :: "nat list"
  p_free :: "nat list"
  p_heap :: "nat \<Rightarrow> 'o"

definition pool_New :: "('o \<Rightarrow> 'o) \<Rightarrow> 'o \<Rightarrow> 'o pool \<Rightarrow> nat \<times> 'o pool" where
  "pool_New reset mk p =
     (case p_free p of
        [] \<Rightarrow> let a = length (p_all p) in
               (a, p\<lparr>p_all := a # p_all p, p_heap := (p_heap p)(a := reset mk)\<rparr>)
      | a # fs \<Rightarrow>
          (a, p\<lparr>p_free := fs, p_heap := (p_heap p)(a := reset (p_heap p a))\<rparr>))"

definition pool_Free :: "nat \<Rightarrow> 'o pool \<Rightarrow> 'o pool" where
  "pool_Free a p = p\<lparr>p_free := a # p_free p\<rparr>"

definition pool_Reset_Free :: "('o \<Rightarrow> 'o) \<Rightarrow> nat \<Rightarrow> 'o pool \<Rightarrow> 'o pool" where
  "pool_Reset_Free reset a p =
     p\<lparr>p_free := a # p_free p, p_heap := (p_heap p)(a := reset (p_heap p a))\<rparr>"

definition pool_OutStanding :: "'o pool \<Rightarrow> int" where
  "pool_OutStanding p = int (length (p_all p)) - int (length (p_free p))"

definition pool_wf :: "'o pool \<Rightarrow> bool" where
  "pool_wf p \<longleftrightarrow> distinct (p_all p) \<and> distinct (p_free p) \<and>
     set (p_free p) \<subseteq> set (p_all p) \<and> (\<forall>a \<in> set (p_all p). a < length (p_all p))"

definition pool_live :: "'o pool \<Rightarrow> nat set" where
  "pool_live p = set (p_all p) - set (p_free p)"

lemma pool_New_wf:
  assumes "pool_wf p" and "pool_New reset mk p = (a, q)"
  shows "pool_wf q"
proof (cases "p_free p")
  case Nil
  with assms show ?thesis
    by (auto simp: pool_New_def pool_wf_def Let_def less_Suc_eq)
next
  case (Cons b fs)
  with assms show ?thesis by (auto simp: pool_New_def pool_wf_def)
qed

lemma pool_New_not_live:
  assumes "pool_wf p" and "pool_New reset mk p = (a, q)"
  shows "a \<notin> pool_live p"
  using assms
  by (auto simp: pool_New_def pool_wf_def pool_live_def Let_def split: list.splits)

lemma pool_New_live:
  assumes "pool_wf p" and "pool_New reset mk p = (a, q)"
  shows "pool_live q = insert a (pool_live p)"
proof (cases "p_free p")
  case Nil
  with assms show ?thesis by (auto simp: pool_New_def pool_live_def Let_def)
next
  case (Cons b fs)
  with assms show ?thesis by (auto simp: pool_New_def pool_wf_def pool_live_def)
qed

lemma pool_Free_live:
  "a \<in> pool_live p \<Longrightarrow> pool_live (pool_Free a p) = pool_live p - {a}"
  by (auto simp: pool_Free_def pool_live_def)

lemma pool_Free_wf: "pool_wf p \<Longrightarrow> a \<in> pool_live p \<Longrightarrow> pool_wf (pool_Free a p)"
  by (auto simp: pool_Free_def pool_wf_def pool_live_def)

lemma pool_OutStanding_live:
  assumes "pool_wf p"
  shows "pool_OutStanding p = int (card (pool_live p))"
proof -
  have sub: "set (p_free p) \<subseteq> set (p_all p)"
    and da: "card (set (p_all p)) = length (p_all p)"
    and df: "card (set (p_free p)) = length (p_free p)"
    using assms by (auto simp: pool_wf_def distinct_card)
  have "card (pool_live p) = length (p_all p) - length (p_free p)"
    using card_Diff_subset [of "set (p_free p)" "set (p_all p)"] sub
    by (simp add: pool_live_def da df)
  moreover have "length (p_free p) \<le> length (p_all p)"
    using card_mono [OF _ sub] by (simp add: da df)
  ultimately show ?thesis by (simp add: pool_OutStanding_def)
qed

subsection \<open>What a client may rely on\<close>

text \<open>A class whose \<open>Reset\<close> is idempotent gets reset objects from \<open>New\<close>; one whose \<open>Reset\<close>
  writes every field gets the same blank object each time.\<close>

locale object_pool =
  fixes reset :: "'o \<Rightarrow> 'o" and mk :: 'o
  assumes reset_idem: "reset (reset x) = reset x"
begin

lemma New_is_reset:
  assumes "pool_New reset mk p = (a, q)"
  shows "reset (p_heap q a) = p_heap q a"
  using assms by (auto simp: pool_New_def Let_def reset_idem split: list.splits)

lemma New_frame:
  assumes "pool_New reset mk p = (a, q)" and "b \<noteq> a"
  shows "p_heap q b = p_heap p b"
  using assms by (auto simp: pool_New_def Let_def split: list.splits)

lemma New_contract:
  assumes "pool_wf p" and "pool_New reset mk p = (a, q)"
  shows "pool_wf q \<and> a \<notin> pool_live p \<and> pool_live q = insert a (pool_live p) \<and>
    pool_OutStanding q = pool_OutStanding p + 1"
proof -
  have wf: "pool_wf q" and fresh: "a \<notin> pool_live p"
    and live: "pool_live q = insert a (pool_live p)"
    using pool_New_wf [OF assms] pool_New_not_live [OF assms] pool_New_live [OF assms] by auto
  have "finite (pool_live p)" by (simp add: pool_live_def)
  then show ?thesis
    using wf fresh live pool_OutStanding_live [OF assms(1)] pool_OutStanding_live [OF wf]
    by simp
qed

end

locale blank_pool = object_pool +
  assumes reset_const: "reset x = reset y"
begin

lemma New_is_blank:
  assumes "pool_New reset mk p = (a, q)"
  shows "p_heap q a = reset mk"
proof -
  have "p_heap q a = reset (p_heap q a)" using New_is_reset [OF assms] by simp
  also have "\<dots> = reset mk" by (rule reset_const)
  finally show ?thesis .
qed

end

interpretation credit_pool: blank_pool Credit_Reset Credit_New
  by unfold_locales simp_all

interpretation handshake_pool: blank_pool Handshake_Reset Handshake_New
  by unfold_locales simp_all

text \<open>A flit is not a \<open>blank_pool\<close>: its \<open>Reset\<close> leaves two fields alone.\<close>

interpretation flit_pool: object_pool Flit_Reset f for f
  by unfold_locales (simp add: Flit_Reset_def)

text \<open>A handshake taken from the pool is the blank one (all sentinels), it was not in
  use before, and it is the only object that becomes outstanding; the counter
  \<open>OutStanding()\<close> goes up by one.\<close>

theorem handshake_New_contract:
  assumes "pool_wf p" and "pool_New Handshake_Reset Handshake_New p = (a, q)"
  shows "p_heap q a = Handshake_New \<and> a \<notin> pool_live p \<and>
    pool_live q = insert a (pool_live p) \<and> pool_wf q \<and>
    pool_OutStanding q = pool_OutStanding p + 1"
  using handshake_pool.New_contract [OF assms] handshake_pool.New_is_blank [OF assms(2)]
  by simp

lemma handshake_New_contract_witness:
  "fst (pool_New Handshake_Reset Handshake_New
     \<lparr>p_all = [1, 0], p_free = [1], p_heap = (\<lambda>_. Handshake_New\<lparr>hid := 7\<rparr>)\<rparr>) = 1 \<and>
   p_heap (snd (pool_New Handshake_Reset Handshake_New
     \<lparr>p_all = [1, 0], p_free = [1], p_heap = (\<lambda>_. Handshake_New\<lparr>hid := 7\<rparr>)\<rparr>)) 1
     = Handshake_New"
proof -
  let ?p = "\<lparr>p_all = [1, 0], p_free = [1], p_heap = (\<lambda>_. Handshake_New\<lparr>hid := 7\<rparr>)\<rparr>"
  let ?q = "\<lparr>p_all = [1, 0], p_free = [],
    p_heap = (\<lambda>_. Handshake_New\<lparr>hid := 7\<rparr>)(1 := Handshake_New)\<rparr>"
  have wf: "pool_wf ?p" by (auto simp: pool_wf_def)
  have new: "pool_New Handshake_Reset Handshake_New ?p = (1, ?q)" by (simp add: pool_New_def)
  from handshake_New_contract [OF wf new] show ?thesis unfolding new by simp
qed

text \<open>\<open>Flit::Reset\<close> does not write \<open>subnetwork\<close> or \<open>la_route_set\<close>: a flit taken from the
  free list carries the subnetwork and the lookahead route set of the packet that used
  it before, while every other field is the constructor's.\<close>

theorem Flit_New_keeps_stale_route:
  assumes "p_free p = a # fs" and "pool_New Flit_Reset mk p = (b, q)"
  shows "b = a \<and> p_heap q a = (Flit_Reset mk)\<lparr>
    f_subnetwork := f_subnetwork (p_heap p a), f_la_route_set := f_la_route_set (p_heap p a)\<rparr>"
  using assms by (cases mk, cases "p_heap p a") (auto simp: pool_New_def Flit_Reset_def)

lemma Flit_New_keeps_stale_route_witness:
  "\<forall>f. f_la_route_set (p_heap (snd (pool_New Flit_Reset f
      \<lparr>p_all = [0], p_free = [0], p_heap = (\<lambda>_. f\<lparr>f_la_route_set := AddRange 2 0 3 1 []\<rparr>)\<rparr>)) 0) =
     AddRange 2 0 3 1 []"
proof
  fix f :: flit
  let ?p = "\<lparr>p_all = [0], p_free = [0], p_heap = (\<lambda>_. f\<lparr>f_la_route_set := AddRange 2 0 3 1 []\<rparr>)\<rparr>"
  obtain b q where new: "pool_New Flit_Reset f ?p = (b, q)" by fastforce
  have "p_free ?p = 0 # []" by simp
  from Flit_New_keeps_stale_route [OF this new]
  show "f_la_route_set (p_heap (snd (pool_New Flit_Reset f ?p)) 0) = AddRange 2 0 3 1 []"
    unfolding new by (simp add: Flit_Reset_def)
qed

end
