(* ===== verification/Channels.thy ===== *)
theory Channels
  imports Flits
begin

text \<open>
  Links: src/booksim2/src/channel.hpp (\<open>Channel<T>\<close>, used for flits, credits and
  handshakes) and flitchannel.cpp.  A channel is a delay line clocked by the simulator: in
  each cycle every module runs \<open>ReadInputs\<close>, then \<open>Evaluate\<close>, then \<open>WriteOutputs\<close>, and the
  simulation time is then advanced by one.  Pointers to data are the data; a null pointer
  is \<open>None\<close>.  Times are the simulator's non-negative cycle numbers.
\<close>

record 'd channel =
  delay :: nat
  ch_input :: "'d option"
  ch_output :: "'d option"
  wait_queue :: "(nat \<times> 'd) list"

definition Channel_init :: "'d channel" where
  "Channel_init = \<lparr>delay = 1, ch_input = None, ch_output = None, wait_queue = []\<rparr>"

definition SetLatency :: "int \<Rightarrow> ('d, 'm) channel_scheme \<Rightarrow> ('d, 'm) channel_scheme option" where
  "SetLatency cycles ch = (if cycles \<le> 0 then None else Some (ch\<lparr>delay := nat cycles\<rparr>))"

definition Send :: "'d option \<Rightarrow> ('d, 'm) channel_scheme \<Rightarrow> ('d, 'm) channel_scheme" where
  "Send data ch = ch\<lparr>ch_input := data\<rparr>"

definition Receive :: "('d, 'm) channel_scheme \<Rightarrow> 'd option" where
  "Receive ch = ch_output ch"

definition Channel_ReadInputs ::
  "nat \<Rightarrow> ('d, 'm) channel_scheme \<Rightarrow> ('d, 'm) channel_scheme" where
  "Channel_ReadInputs now ch =
     (case ch_input ch of
        None \<Rightarrow> ch
      | Some d \<Rightarrow> ch\<lparr>wait_queue := wait_queue ch @ [(now + delay ch - 1, d)], ch_input := None\<rparr>)"

definition Channel_WriteOutputs ::
  "nat \<Rightarrow> ('d, 'm) channel_scheme \<Rightarrow> ('d, 'm) channel_scheme option" where
  "Channel_WriteOutputs now ch =
     (case wait_queue ch of
        [] \<Rightarrow> Some (ch\<lparr>ch_output := None\<rparr>)
      | (time, d) # rest \<Rightarrow>
          if now < time then Some (ch\<lparr>ch_output := None\<rparr>)
          else if now \<noteq> time then None
          else Some (ch\<lparr>ch_output := Some d, wait_queue := rest\<rparr>))"

text \<open>One clock cycle as the network runs it, with what the sender put on the channel since the
  previous \<open>ReadInputs\<close> (\<open>None\<close>: nothing, or a null pointer).\<close>

definition Channel_cycle ::
  "nat \<Rightarrow> 'd option \<Rightarrow> ('d, 'm) channel_scheme \<Rightarrow> ('d, 'm) channel_scheme option" where
  "Channel_cycle now x ch = Channel_WriteOutputs now (Channel_ReadInputs now (Send x ch))"

text \<open>The first \<open>n\<close> cycles, the sender driving \<open>xs t\<close> into cycle \<open>t\<close>.\<close>

fun Channel_run ::
  "(nat \<Rightarrow> 'd option) \<Rightarrow> nat \<Rightarrow> ('d, 'm) channel_scheme \<Rightarrow> ('d, 'm) channel_scheme option" where
  "Channel_run xs 0 ch = Some ch"
| "Channel_run xs (Suc n) ch =
     (case Channel_run xs n ch of None \<Rightarrow> None | Some ch' \<Rightarrow> Channel_cycle n (xs n) ch')"

subsection \<open>The channel is a delay line\<close>

text \<open>What is in flight before cycle \<open>n\<close>: everything sent in the last \<open>delay - 1\<close> cycles.\<close>

definition in_flight :: "(nat \<Rightarrow> 'd option) \<Rightarrow> nat \<Rightarrow> nat \<Rightarrow> nat \<Rightarrow> (nat \<times> 'd) list" where
  "in_flight xs d lo hi =
     map (\<lambda>s. (s + d, the (xs s))) (filter (\<lambda>s. xs s \<noteq> None) [lo..<hi])"

lemma in_flight_snoc:
  "lo \<le> hi \<Longrightarrow> in_flight xs d lo (Suc hi) =
     in_flight xs d lo hi @ (case xs hi of None \<Rightarrow> [] | Some v \<Rightarrow> [(hi + d, v)])"
  by (simp add: in_flight_def split: option.splits)

lemma in_flight_first:
  "lo < hi \<Longrightarrow> in_flight xs d lo hi =
     (case xs lo of None \<Rightarrow> [] | Some v \<Rightarrow> [(lo + d, v)]) @ in_flight xs d (Suc lo) hi"
  by (simp add: in_flight_def upt_conv_Cons split: option.splits)

lemma in_flight_later: "(t, v) \<in> set (in_flight xs d lo hi) \<Longrightarrow> lo + d \<le> t"
  by (auto simp: in_flight_def)

definition delay_line :: "(nat \<Rightarrow> 'd option) \<Rightarrow> nat \<Rightarrow> nat \<Rightarrow> ('d, 'm) channel_scheme \<Rightarrow> bool" where
  "delay_line xs d n ch \<longleftrightarrow>
     delay ch = Suc d \<and> wait_queue ch = in_flight xs d (n - d) n"

lemma WriteOutputs_none_due:
  "(\<And>t v. (t, v) \<in> set (wait_queue ch) \<Longrightarrow> now < t) \<Longrightarrow>
     Channel_WriteOutputs now ch = Some (ch\<lparr>ch_output := None\<rparr>)"
  by (cases "wait_queue ch") (auto simp: Channel_WriteOutputs_def split: prod.splits)

lemma Channel_cycle_delay_line:
  assumes "delay_line xs d n ch"
  shows "\<exists>ch'. Channel_cycle n (xs n) ch = Some ch' \<and> delay_line xs d (Suc n) ch' \<and>
    ch_output ch' = (if d \<le> n then xs (n - d) else None)"
proof -
  let ?r = "Channel_ReadInputs n (Send (xs n) ch)"
  have q: "wait_queue ?r = in_flight xs d (n - d) (Suc n)" and dl: "delay ?r = Suc d"
    using assms
    by (auto simp: delay_line_def Channel_ReadInputs_def Send_def in_flight_snoc
        split: option.splits)
  show ?thesis
  proof (cases "d \<le> n")
    case False
    then have late: "n < t" if "(t, v) \<in> set (wait_queue ?r)" for t v
      using in_flight_later [of t v] that q by fastforce
    then have "Channel_WriteOutputs n ?r = Some (?r\<lparr>ch_output := None\<rparr>)"
      by (rule WriteOutputs_none_due)
    with False q dl show ?thesis
      by (auto simp: Channel_cycle_def delay_line_def)
  next
    case True
    then have split: "wait_queue ?r =
        (case xs (n - d) of None \<Rightarrow> [] | Some v \<Rightarrow> [(n, v)]) @
        in_flight xs d (Suc n - d) (Suc n)"
      by (simp add: q in_flight_first Suc_diff_le split: option.split)
    have late: "n < t" if "(t, v) \<in> set (in_flight xs d (Suc n - d) (Suc n))" for t v
      using in_flight_later [OF that] True by simp
    show ?thesis
    proof (cases "xs (n - d)")
      case None
      with split late have "Channel_WriteOutputs n ?r = Some (?r\<lparr>ch_output := None\<rparr>)"
        by (intro WriteOutputs_none_due) auto
      with True None split dl show ?thesis
        by (auto simp: Channel_cycle_def delay_line_def)
    next
      case (Some v)
      with split True dl show ?thesis
        by (auto simp: Channel_cycle_def delay_line_def Channel_WriteOutputs_def)
    qed
  qed
qed

lemma Channel_run_delay_line:
  assumes "delay ch = Suc d" and "wait_queue ch = []"
  shows "\<exists>ch'. Channel_run xs n ch = Some ch' \<and> delay_line xs d n ch'"
proof (induction n)
  case 0
  from assms show ?case by (simp add: delay_line_def in_flight_def)
next
  case (Suc n)
  then obtain ch' where "Channel_run xs n ch = Some ch'" and "delay_line xs d n ch'" by blast
  with Channel_cycle_delay_line [of xs d n ch'] show ?case by auto
qed

text \<open>A channel of latency \<open>d + 1\<close> that starts empty and is clocked every cycle never trips
  its assertion, and what it delivers in cycle \<open>n\<close> is exactly what was put on it \<open>d\<close>
  cycles before: nothing is lost, duplicated or reordered.\<close>

theorem Channel_is_delay_line:
  assumes "delay ch = Suc d" and "wait_queue ch = []"
  shows "\<exists>ch'. Channel_run xs (Suc n) ch = Some ch' \<and>
    Receive ch' = (if d \<le> n then xs (n - d) else None)"
proof -
  from Channel_run_delay_line [OF assms] obtain ch'
    where "Channel_run xs n ch = Some ch'" and "delay_line xs d n ch'" by blast
  with Channel_cycle_delay_line [of xs d n ch'] show ?thesis by (auto simp: Receive_def)
qed

lemma Channel_is_delay_line_witness:
  "\<exists>ch'. Channel_run (\<lambda>t. Some (t * t)) (Suc 5) (Channel_init\<lparr>delay := Suc 2\<rparr>) = Some ch' \<and>
     Receive ch' = Some (9::nat)"
proof -
  have "delay (Channel_init\<lparr>delay := Suc 2\<rparr>) = Suc 2"
    and "wait_queue (Channel_init\<lparr>delay := Suc 2\<rparr>) = []"
    by (simp_all add: Channel_init_def)
  from Channel_is_delay_line [OF this, of "\<lambda>t. Some (t * t)" 5] show ?thesis by simp
qed

subsection \<open>Flit channels and their activity counters\<close>

record flit_channel = "flit channel" +
  fc_active :: "nat list"
  fc_idle :: nat
  sink :: "(nat \<times> nat) option"
  source :: "(nat \<times> nat) option"

definition FlitChannel_init :: "nat \<Rightarrow> flit_channel" where
  "FlitChannel_init classes =
     \<lparr>delay = 1, ch_input = None, ch_output = None, wait_queue = [],
      fc_active = replicate classes 0, fc_idle = 0, sink = None, source = None\<rparr>"

definition SetSource :: "nat \<Rightarrow> nat \<Rightarrow> flit_channel \<Rightarrow> flit_channel" where
  "SetSource router port fc = fc\<lparr>source := Some (router, port)\<rparr>"

definition SetSink :: "nat \<Rightarrow> nat \<Rightarrow> flit_channel \<Rightarrow> flit_channel" where
  "SetSink router port fc = fc\<lparr>sink := Some (router, port)\<rparr>"

text \<open>\<open>_active[f->cl]\<close> has no defined value when the class is out of range; that is \<open>None\<close>.\<close>

definition FlitChannel_Send :: "flit option \<Rightarrow> flit_channel \<Rightarrow> flit_channel option" where
  "FlitChannel_Send x fc =
     (case x of
        None \<Rightarrow> Some (Send None (fc\<lparr>fc_idle := Suc (fc_idle fc)\<rparr>))
      | Some f \<Rightarrow>
          if 0 \<le> f_cl f \<and> nat (f_cl f) < length (fc_active fc)
          then Some (Send (Some f)
                 (fc\<lparr>fc_active := (fc_active fc)[nat (f_cl f) := Suc (fc_active fc ! nat (f_cl f))]\<rparr>))
          else None)"

lemma FlitChannel_Send_counts:
  assumes "FlitChannel_Send x fc = Some fc'"
  shows "sum_list (fc_active fc') + fc_idle fc' = Suc (sum_list (fc_active fc) + fc_idle fc) \<and>
    ch_input fc' = x \<and> length (fc_active fc') = length (fc_active fc)"
proof (cases x)
  case None
  with assms show ?thesis by (auto simp: FlitChannel_Send_def Send_def)
next
  case (Some f)
  let ?k = "nat (f_cl f)"
  from Some assms have k: "?k < length (fc_active fc)"
    and fc': "fc' = Send (Some f)
      (fc\<lparr>fc_active := (fc_active fc)[?k := Suc (fc_active fc ! ?k)]\<rparr>)"
    by (auto simp: FlitChannel_Send_def split: if_splits)
  have "fc_active fc ! ?k \<le> sum_list (fc_active fc)"
    by (rule elem_le_sum_list) (rule k)
  with k fc' Some show ?thesis by (simp add: Send_def sum_list_update)
qed

end
