(* ===== verification/Buffers.thy ===== *)
theory Buffers
  imports Channels
begin

text \<open>
  Input buffers: src/booksim2/src/vc.cpp, vc.hpp (one virtual channel) and buffer.cpp,
  buffer.hpp (the virtual channels of one input port with their shared occupancy count).
  \<open>now\<close> is \<open>GetSimTime()\<close>.  The \<open>_route_set\<close> pointer is \<open>None\<close> when it is null, which it is
  from construction until the first \<open>SetRouteSet\<close> under lookahead routing.  Printing for
  watched flits is left out.
\<close>

datatype vc_state = idle | routing | vc_alloc | active

datatype prio_type = local_age_based | queue_length_based | hop_count_based | no_prio | other_prio

record vc =
  v_buffer :: "flit list"
  v_state :: vc_state
  v_route_set :: "output_set option"
  v_out_port :: int
  v_out_vc :: int
  v_pri_type :: prio_type
  v_pri :: int
  v_priority_donation :: bool
  v_watched :: bool
  v_expected_pid :: int
  v_last_id :: int
  v_last_pid :: int
  v_lookahead_routing :: bool

definition parse_priority :: "string \<Rightarrow> prio_type" where
  "parse_priority s =
     (if s = ''local_age'' then local_age_based
      else if s = ''queue_length'' then queue_length_based
      else if s = ''hop_count'' then hop_count_based
      else if s = ''none'' then no_prio
      else other_prio)"

definition VC_init :: "int \<Rightarrow> string \<Rightarrow> int \<Rightarrow> vc" where
  "VC_init routing_delay priority vc_priority_donation =
     \<lparr>v_buffer = [], v_state = idle,
      v_route_set = (if routing_delay = 0 then None else Some []),
      v_out_port = -1, v_out_vc = -1, v_pri_type = parse_priority priority, v_pri = 0,
      v_priority_donation = (vc_priority_donation \<noteq> 0), v_watched = False,
      v_expected_pid = -1, v_last_id = -1, v_last_pid = -1,
      v_lookahead_routing = (routing_delay = 0)\<rparr>"

text \<open>The flit whose priority the front flit borrows: the first one of maximal priority.\<close>

definition donor :: "flit \<Rightarrow> flit list \<Rightarrow> flit" where
  "donor f bfs = fold (\<lambda>bf df. if f_pri bf > f_pri df then bf else df) bfs f"

definition UpdatePriority :: "vc \<Rightarrow> vc" where
  "UpdatePriority v =
     (case v_buffer v of
        [] \<Rightarrow> v
      | f # bfs \<Rightarrow>
          if v_pri_type v = queue_length_based then v\<lparr>v_pri := int (length (v_buffer v))\<rparr>
          else if v_pri_type v \<noteq> no_prio then
            (let g = (if v_pri_type v \<noteq> local_age_based \<and> v_priority_donation v
                      then donor f bfs else f)
             in v\<lparr>v_pri := f_pri g\<rparr>)
          else v)"

definition int_max :: int where
  "int_max = 2147483647"

text \<open>The priority a flit gets on entry; \<open>None\<close> is the failed \<open>assert(f->pri >= 0)\<close>.\<close>

definition entry_priority :: "int \<Rightarrow> vc \<Rightarrow> flit \<Rightarrow> flit option" where
  "entry_priority now v f =
     (if v_pri_type v = local_age_based
      then (if int_max - now \<ge> 0 then Some (f\<lparr>f_pri := int_max - now\<rparr>) else None)
      else if v_pri_type v = hop_count_based
      then (if f_hops f \<ge> 0 then Some (f\<lparr>f_pri := f_hops f\<rparr>) else None)
      else Some f)"

definition expected_after :: "int \<Rightarrow> flit \<Rightarrow> int option" where
  "expected_after expected f =
     (if expected \<ge> 0
      then (if f_pid f \<noteq> expected then None
            else if f_tail f then Some (-1) else Some expected)
      else if \<not> f_tail f then Some (f_pid f) else Some expected)"

definition VC_AddFlit :: "int \<Rightarrow> flit \<Rightarrow> vc \<Rightarrow> vc option" where
  "VC_AddFlit now f v = do {
     e \<leftarrow> expected_after (v_expected_pid v) f;
     g \<leftarrow> entry_priority now v f;
     Some (UpdatePriority (v\<lparr>v_expected_pid := e, v_buffer := v_buffer v @ [g]\<rparr>))
   }"

definition VC_FrontFlit :: "vc \<Rightarrow> flit option" where
  "VC_FrontFlit v = (case v_buffer v of [] \<Rightarrow> None | f # _ \<Rightarrow> Some f)"

definition VC_RemoveFlit :: "vc \<Rightarrow> (flit \<times> vc) option" where
  "VC_RemoveFlit v =
     (case v_buffer v of
        [] \<Rightarrow> None
      | f # fs \<Rightarrow>
          Some (f, UpdatePriority
            (v\<lparr>v_buffer := fs, v_last_id := f_id f, v_last_pid := f_pid f\<rparr>)))"

definition VC_SetState :: "vc_state \<Rightarrow> vc \<Rightarrow> vc" where
  "VC_SetState s v = v\<lparr>v_state := s\<rparr>"

definition VC_SetRouteSet :: "output_set option \<Rightarrow> vc \<Rightarrow> vc" where
  "VC_SetRouteSet os v = v\<lparr>v_route_set := os, v_out_port := -1, v_out_vc := -1\<rparr>"

definition VC_SetOutput :: "int \<Rightarrow> int \<Rightarrow> vc \<Rightarrow> vc" where
  "VC_SetOutput port ovc v = v\<lparr>v_out_port := port, v_out_vc := ovc\<rparr>"

text \<open>\<open>rf\<close> is the routing function applied to the router, the flit and the input channel; it
  rewrites the route set it is given.\<close>

definition VC_Route :: "(output_set \<Rightarrow> output_set) \<Rightarrow> vc \<Rightarrow> vc option" where
  "VC_Route rf v =
     (case v_route_set v of
        None \<Rightarrow> None
      | Some os \<Rightarrow> Some (v\<lparr>v_route_set := Some (rf os), v_out_port := -1, v_out_vc := -1\<rparr>))"

definition VC_SetWatch :: "bool \<Rightarrow> vc \<Rightarrow> vc" where
  "VC_SetWatch b v = v\<lparr>v_watched := b\<rparr>"

subsection \<open>The buffer of an input port\<close>

record buffer =
  b_occupancy :: int
  b_size :: int
  b_vc :: "vc list"

definition Buffer_init :: "nat \<Rightarrow> int \<Rightarrow> int \<Rightarrow> vc \<Rightarrow> buffer" where
  "Buffer_init num_vcs buf_size vc_buf_size v =
     \<lparr>b_occupancy = 0,
      b_size = (if buf_size < 0 then int num_vcs * vc_buf_size else buf_size),
      b_vc = replicate num_vcs v\<rparr>"

definition Buffer_AddFlit :: "int \<Rightarrow> nat \<Rightarrow> flit \<Rightarrow> buffer \<Rightarrow> buffer option" where
  "Buffer_AddFlit now vc f b = do {
     assertion (b_occupancy b < b_size b);
     assertion (vc < length (b_vc b));
     v \<leftarrow> VC_AddFlit now f (b_vc b ! vc);
     Some (b\<lparr>b_occupancy := b_occupancy b + 1, b_vc := (b_vc b)[vc := v]\<rparr>)
   }"

definition Buffer_RemoveFlit :: "nat \<Rightarrow> buffer \<Rightarrow> (flit \<times> buffer) option" where
  "Buffer_RemoveFlit vc b = do {
     assertion (vc < length (b_vc b));
     (f, v) \<leftarrow> VC_RemoveFlit (b_vc b ! vc);
     Some (f, b\<lparr>b_occupancy := b_occupancy b - 1, b_vc := (b_vc b)[vc := v]\<rparr>)
   }"

definition Buffer_FrontFlit :: "nat \<Rightarrow> buffer \<Rightarrow> flit option" where
  "Buffer_FrontFlit vc b = VC_FrontFlit (b_vc b ! vc)"

definition Buffer_Empty :: "nat \<Rightarrow> buffer \<Rightarrow> bool" where
  "Buffer_Empty vc b \<longleftrightarrow> v_buffer (b_vc b ! vc) = []"

definition Buffer_Full :: "buffer \<Rightarrow> bool" where
  "Buffer_Full b \<longleftrightarrow> b_occupancy b \<ge> b_size b"

definition GetState :: "nat \<Rightarrow> buffer \<Rightarrow> vc_state" where
  "GetState vc b = v_state (b_vc b ! vc)"

definition Buffer_SetState :: "nat \<Rightarrow> vc_state \<Rightarrow> buffer \<Rightarrow> buffer" where
  "Buffer_SetState vc s b = b\<lparr>b_vc := (b_vc b)[vc := VC_SetState s (b_vc b ! vc)]\<rparr>"

definition GetOutputPort :: "nat \<Rightarrow> buffer \<Rightarrow> int" where
  "GetOutputPort vc b = v_out_port (b_vc b ! vc)"

definition Buffer_SetRouteSet :: "nat \<Rightarrow> output_set option \<Rightarrow> buffer \<Rightarrow> buffer" where
  "Buffer_SetRouteSet vc os b = b\<lparr>b_vc := (b_vc b)[vc := VC_SetRouteSet os (b_vc b ! vc)]\<rparr>"

definition Buffer_SetOutput :: "nat \<Rightarrow> int \<Rightarrow> int \<Rightarrow> buffer \<Rightarrow> buffer" where
  "Buffer_SetOutput vc port ovc b =
     b\<lparr>b_vc := (b_vc b)[vc := VC_SetOutput port ovc (b_vc b ! vc)]\<rparr>"

definition GetOutputVC :: "nat \<Rightarrow> buffer \<Rightarrow> int" where
  "GetOutputVC vc b = v_out_vc (b_vc b ! vc)"

definition GetPriority :: "nat \<Rightarrow> buffer \<Rightarrow> int" where
  "GetPriority vc b = v_pri (b_vc b ! vc)"

definition GetRouteSet :: "nat \<Rightarrow> buffer \<Rightarrow> output_set option" where
  "GetRouteSet vc b = v_route_set (b_vc b ! vc)"

definition Buffer_Route :: "nat \<Rightarrow> (output_set \<Rightarrow> output_set) \<Rightarrow> buffer \<Rightarrow> buffer option" where
  "Buffer_Route vc rf b =
     map_option (\<lambda>v. b\<lparr>b_vc := (b_vc b)[vc := v]\<rparr>) (VC_Route rf (b_vc b ! vc))"

text \<open>\<open>_route_set->Clear()\<close>: a null pointer under lookahead routing before the first route.\<close>

definition ClearRouteSet :: "nat \<Rightarrow> buffer \<Rightarrow> buffer option" where
  "ClearRouteSet vc b =
     (case v_route_set (b_vc b ! vc) of
        None \<Rightarrow> None
      | Some os \<Rightarrow> Some (b\<lparr>b_vc := (b_vc b)[vc := (b_vc b ! vc)\<lparr>v_route_set := Some (Clear os)\<rparr>]\<rparr>))"

definition VC_GetOccupancy :: "nat \<Rightarrow> buffer \<Rightarrow> int" where
  "VC_GetOccupancy vc b = int (length (v_buffer (b_vc b ! vc)))"

text \<open>An assignment through the pointer \<open>FrontFlit(vc)\<close> returns.\<close>

definition write_front :: "nat \<Rightarrow> (flit \<Rightarrow> flit) \<Rightarrow> buffer \<Rightarrow> buffer" where
  "write_front vc g b =
     (case v_buffer (b_vc b ! vc) of
        [] \<Rightarrow> b
      | f # fs \<Rightarrow> b\<lparr>b_vc := (b_vc b)[vc := (b_vc b ! vc)\<lparr>v_buffer := g f # fs\<rparr>]\<rparr>)"

subsection \<open>Virtual channels are queues of whole packets\<close>

lemma UpdatePriority_frame [simp]:
  "v_buffer (UpdatePriority v) = v_buffer v"
  "v_state (UpdatePriority v) = v_state v"
  "v_expected_pid (UpdatePriority v) = v_expected_pid v"
  "v_out_port (UpdatePriority v) = v_out_port v"
  "v_out_vc (UpdatePriority v) = v_out_vc v"
  "v_route_set (UpdatePriority v) = v_route_set v"
  "v_pri_type (UpdatePriority v) = v_pri_type v"
  "v_priority_donation (UpdatePriority v) = v_priority_donation v"
  by (auto simp: UpdatePriority_def Let_def split: list.splits)

lemma entry_priority_only_pri:
  "entry_priority now v f = Some g \<Longrightarrow> \<exists>p. g = f\<lparr>f_pri := p\<rparr>"
  by (cases f) (auto simp: entry_priority_def split: if_splits)

lemma VC_AddFlit_queue:
  assumes "VC_AddFlit now f v = Some v'"
  shows "\<exists>p. v_buffer v' = v_buffer v @ [f\<lparr>f_pri := p\<rparr>]"
  using assms entry_priority_only_pri
  by (fastforce simp: VC_AddFlit_def split: Option.bind_splits)

lemma VC_RemoveFlit_queue:
  "VC_RemoveFlit v = Some (f, v') \<longleftrightarrow>
     v_buffer v \<noteq> [] \<and> f = hd (v_buffer v) \<and>
     v' = UpdatePriority (v\<lparr>v_buffer := tl (v_buffer v), v_last_id := f_id f, v_last_pid := f_pid f\<rparr>)"
  by (auto simp: VC_RemoveFlit_def split: list.splits)

fun VC_AddFlits :: "int \<Rightarrow> flit list \<Rightarrow> vc \<Rightarrow> vc option" where
  "VC_AddFlits now [] v = Some v"
| "VC_AddFlits now (f # fs) v = do { v' \<leftarrow> VC_AddFlit now f v; VC_AddFlits (now + 1) fs v' }"

text \<open>Every flit that is not a tail is followed by a flit of the same packet.\<close>

fun whole_packets :: "flit list \<Rightarrow> bool" where
  "whole_packets (f # g # fs) =
     ((f_tail f \<or> f_pid g = f_pid f) \<and> whole_packets (g # fs))"
| "whole_packets _ = True"

lemma VC_AddFlit_expected:
  "VC_AddFlit now f v = Some v' \<Longrightarrow> expected_after (v_expected_pid v) f = Some (v_expected_pid v')"
  by (auto simp: VC_AddFlit_def split: Option.bind_splits)

lemma VC_AddFlits_whole_packets:
  assumes "VC_AddFlits now fs v = Some v'" and "\<forall>f \<in> set fs. 0 \<le> f_pid f"
  shows "whole_packets fs \<and>
    (fs \<noteq> [] \<and> 0 \<le> v_expected_pid v \<longrightarrow> f_pid (hd fs) = v_expected_pid v)"
  using assms
proof (induction fs arbitrary: now v)
  case Nil
  then show ?case by simp
next
  case (Cons f fs)
  from Cons.prems(1) obtain u where u: "VC_AddFlit now f v = Some u"
    and rest: "VC_AddFlits (now + 1) fs u = Some v'"
    by (auto split: Option.bind_splits)
  have IH: "whole_packets fs"
    "fs \<noteq> [] \<and> 0 \<le> v_expected_pid u \<longrightarrow> f_pid (hd fs) = v_expected_pid u"
    using Cons.IH [OF rest] Cons.prems(2) by auto
  have e: "expected_after (v_expected_pid v) f = Some (v_expected_pid u)"
    by (rule VC_AddFlit_expected [OF u])
  have "\<not> f_tail f \<longrightarrow> v_expected_pid u = f_pid f"
    using e by (auto simp: expected_after_def split: if_splits)
  moreover have "0 \<le> v_expected_pid v \<longrightarrow> f_pid f = v_expected_pid v"
    using e by (auto simp: expected_after_def split: if_splits)
  ultimately show ?case
    using IH Cons.prems(2) by (cases fs) auto
qed

lemma VC_AddFlits_queue:
  assumes "VC_AddFlits now fs v = Some v'"
  shows "map f_id (v_buffer v') = map f_id (v_buffer v) @ map f_id fs"
  using assms
proof (induction fs arbitrary: now v)
  case Nil
  then show ?case by simp
next
  case (Cons f fs)
  from Cons.prems obtain u where u: "VC_AddFlit now f v = Some u"
    and rest: "VC_AddFlits (now + 1) fs u = Some v'"
    by (auto split: Option.bind_splits)
  from VC_AddFlit_queue [OF u] Cons.IH [OF rest] show ?case by auto
qed

text \<open>A virtual channel accepts flits in arrival order and refuses to mix packets: if a
  sequence of flits is accepted, starting from any state, it sits behind the flits already
  queued in the same order, and inside it every non-tail flit is followed by a flit of its
  own packet.\<close>

theorem VC_accepts_whole_packets:
  assumes "VC_AddFlits now fs v = Some v'" and "\<forall>f \<in> set fs. 0 \<le> f_pid f"
  shows "whole_packets fs \<and> map f_id (v_buffer v') = map f_id (v_buffer v) @ map f_id fs"
  using VC_AddFlits_whole_packets [OF assms] VC_AddFlits_queue [OF assms(1)] by simp

definition example_flit :: "int \<Rightarrow> int \<Rightarrow> bool \<Rightarrow> bool \<Rightarrow> flit" where
  "example_flit i p h t =
     \<lparr>f_type = ANY_TYPE, f_vc = 0, f_cl = 0, f_head = h, f_tail = t, f_ctime = 0, f_itime = 0,
      f_atime = 0, f_rtime = 0, f_bypass_vc = -1, f_id = i, f_pid = p, f_record = False,
      f_src = 0, f_dest = 0, f_pri = 0, f_flov_hops = 0, f_misroute_hops = 0,
      f_ring_dest = 0, f_hops = 0, f_watch = False, f_subnetwork = 0, f_intm = -1, f_ph = -1,
      f_la_route_set = []\<rparr>"

lemma VC_accepts_whole_packets_witness:
  "\<exists>v'. VC_AddFlits 5 [example_flit 1 7 True False, example_flit 2 7 False True]
      (VC_init 1 ''local_age'' 0) = Some v' \<and>
    map f_id (v_buffer v') = [1, 2]"
proof -
  let ?fs = "[example_flit 1 7 True False, example_flit 2 7 False True]"
  let ?v = "VC_init 1 ''local_age'' 0"
  have "VC_AddFlits 5 ?fs ?v \<noteq> None"
    by (simp add: VC_AddFlit_def expected_after_def entry_priority_def VC_init_def
        parse_priority_def int_max_def example_flit_def)
  then obtain v' where v': "VC_AddFlits 5 ?fs ?v = Some v'" by auto
  moreover have "\<forall>f \<in> set ?fs. 0 \<le> f_pid f" by (simp add: example_flit_def)
  ultimately have "map f_id (v_buffer v') = map f_id (v_buffer ?v) @ map f_id ?fs"
    using VC_accepts_whole_packets [of 5 ?fs ?v v'] by blast
  with v' show ?thesis by (auto simp: VC_init_def example_flit_def)
qed

subsection \<open>Priority donation\<close>

lemma donor_max:
  "f_pri (donor f bfs) = Max (f_pri ` set (f # bfs))"
proof (induction bfs arbitrary: f)
  case Nil
  then show ?case by (simp add: donor_def)
next
  case (Cons b bfs)
  have "donor f (b # bfs) = donor (if f_pri b > f_pri f then b else f) bfs"
    by (simp add: donor_def)
  with Cons show ?case by (cases "bfs = []") (auto simp: max_def donor_def)
qed

text \<open>With priority donation the VC competes with the highest priority of any flit queued
  in it (so a high-priority flit is never stuck behind a lower-priority front flit).\<close>

theorem donated_priority_is_max:
  assumes "v_buffer v \<noteq> []" and "v_priority_donation v"
    and "v_pri_type v = hop_count_based \<or> v_pri_type v = other_prio"
  shows "v_pri (UpdatePriority v) = Max (f_pri ` set (v_buffer v))"
  using assms donor_max [of "hd (v_buffer v)" "tl (v_buffer v)"]
  by (cases "v_buffer v") (auto simp: UpdatePriority_def)

lemma donated_priority_is_max_witness:
  "v_pri (UpdatePriority ((VC_init 1 ''class'' 1)\<lparr>v_buffer :=
     [(example_flit 1 7 True False)\<lparr>f_pri := 2\<rparr>, (example_flit 2 8 True True)\<lparr>f_pri := 5\<rparr>]\<rparr>)) = 5"
proof -
  let ?v = "(VC_init 1 ''class'' 1)\<lparr>v_buffer :=
     [(example_flit 1 7 True False)\<lparr>f_pri := 2\<rparr>, (example_flit 2 8 True True)\<lparr>f_pri := 5\<rparr>]\<rparr>"
  have "v_buffer ?v \<noteq> []" "v_priority_donation ?v"
    "v_pri_type ?v = hop_count_based \<or> v_pri_type ?v = other_prio"
    by (simp_all add: VC_init_def parse_priority_def)
  from donated_priority_is_max [OF this] show ?thesis by (simp add: VC_init_def)
qed

subsection \<open>The occupancy count\<close>

definition buffer_wf :: "buffer \<Rightarrow> bool" where
  "buffer_wf b \<longleftrightarrow>
     b_occupancy b = (\<Sum>v\<leftarrow>b_vc b. int (length (v_buffer v))) \<and>
     b_occupancy b \<le> b_size b"

lemma buffer_wf_occ_nonneg: "buffer_wf b \<Longrightarrow> 0 \<le> b_occupancy b"
  by (auto simp: buffer_wf_def intro!: sum_list_nonneg)

lemma Buffer_AddFlit_wf:
  assumes "buffer_wf b" and "Buffer_AddFlit now vc f b = Some b'"
  shows "buffer_wf b' \<and> b_size b' = b_size b \<and> length (b_vc b') = length (b_vc b)"
proof -
  from assms(2) obtain v where v: "VC_AddFlit now f (b_vc b ! vc) = Some v"
    and b': "b' = b\<lparr>b_occupancy := b_occupancy b + 1, b_vc := (b_vc b)[vc := v]\<rparr>"
    and lt: "b_occupancy b < b_size b" "vc < length (b_vc b)"
    by (auto simp: Buffer_AddFlit_def split: Option.bind_splits)
  have "length (v_buffer v) = Suc (length (v_buffer (b_vc b ! vc)))"
    using VC_AddFlit_queue [OF v] by auto
  with assms(1) b' lt show ?thesis by (simp add: buffer_wf_def sum_list_map_update)
qed

lemma Buffer_RemoveFlit_wf:
  assumes "buffer_wf b" and "Buffer_RemoveFlit vc b = Some (f, b')"
  shows "buffer_wf b' \<and> b_size b' = b_size b \<and> length (b_vc b') = length (b_vc b)"
proof -
  from assms(2) obtain v where v: "VC_RemoveFlit (b_vc b ! vc) = Some (f, v)"
    and b': "b' = b\<lparr>b_occupancy := b_occupancy b - 1, b_vc := (b_vc b)[vc := v]\<rparr>"
    and lt: "vc < length (b_vc b)"
    by (auto simp: Buffer_RemoveFlit_def split: Option.bind_splits)
  have "int (length (v_buffer v)) = int (length (v_buffer (b_vc b ! vc))) - 1"
    using v by (cases "v_buffer (b_vc b ! vc)") (auto simp: VC_RemoveFlit_queue)
  with assms(1) b' lt show ?thesis by (simp add: buffer_wf_def sum_list_map_update)
qed

datatype buffer_op = AddOp int nat flit | RemoveOp nat

fun buffer_step :: "buffer \<Rightarrow> buffer_op \<Rightarrow> buffer option" where
  "buffer_step b (AddOp now vc f) = Buffer_AddFlit now vc f b"
| "buffer_step b (RemoveOp vc) = map_option snd (Buffer_RemoveFlit vc b)"

lemma buffer_step_wf: "buffer_wf b \<Longrightarrow> buffer_step b p = Some b' \<Longrightarrow> buffer_wf b' \<and> b_size b' = b_size b"
  by (cases p) (auto dest: Buffer_AddFlit_wf Buffer_RemoveFlit_wf)

text \<open>C39: In every run of \<open>AddFlit\<close>/\<open>RemoveFlit\<close> calls that does not stop the simulator the
  port's occupancy counter is the number of flits in its virtual channels and never
  exceeds the port's size.\<close>

theorem buffer_never_overflows:
  assumes "buffer_wf b" and "foldM (\<lambda>p b. buffer_step b p) ps b = Some b'"
  shows "b_occupancy b' = (\<Sum>v\<leftarrow>b_vc b'. int (length (v_buffer v))) \<and>
    0 \<le> b_occupancy b' \<and> b_occupancy b' \<le> b_size b"
proof -
  have "buffer_wf b' \<and> b_size b' = b_size b"
    by (rule foldM_invariant [OF assms(2), where P = "\<lambda>s. buffer_wf s \<and> b_size s = b_size b"])
      (use assms(1) buffer_step_wf in auto)
  with buffer_wf_occ_nonneg show ?thesis by (auto simp: buffer_wf_def)
qed

lemma buffer_never_overflows_witness:
  "\<exists>b'. foldM (\<lambda>p b. buffer_step b p)
      [AddOp 0 1 (example_flit 1 7 True False), AddOp 1 1 (example_flit 2 7 False True), RemoveOp 1]
      (Buffer_init 2 (-1) 4 (VC_init 1 ''none'' 0)) = Some b' \<and> b_occupancy b' \<le> 8"
proof -
  let ?b = "Buffer_init 2 (-1) 4 (VC_init 1 ''none'' 0)"
  let ?ps = "[AddOp 0 1 (example_flit 1 7 True False),
    AddOp 1 1 (example_flit 2 7 False True), RemoveOp 1]"
  have wf: "buffer_wf ?b" by (simp add: buffer_wf_def Buffer_init_def VC_init_def numeral_2_eq_2)
  have "foldM (\<lambda>p b. buffer_step b p) ?ps ?b \<noteq> None"
    by (simp add: Buffer_AddFlit_def Buffer_RemoveFlit_def Buffer_init_def VC_AddFlit_def
        VC_RemoveFlit_def expected_after_def entry_priority_def VC_init_def
        parse_priority_def example_flit_def numeral_2_eq_2)
  then obtain b' where b': "foldM (\<lambda>p b. buffer_step b p) ?ps ?b = Some b'" by auto
  from buffer_never_overflows [OF wf b'] b' show ?thesis by (auto simp: Buffer_init_def)
qed

end
