(* ===== verification/Buffer_States.thy ===== *)
theory Buffer_States
  imports Buffers
begin

text \<open>
  What a router knows about the buffer at the other end of a link:
  src/booksim2/src/buffer_state.cpp and buffer_state.hpp.  \<open>BufferState\<close> counts the flits it
  has sent and not been credited for, and asks one of seven \<open>BufferPolicy\<close> classes how the
  downstream storage is shared between virtual channels.  The classes are constructors of
  \<open>policy\<close>; a class that extends another carries the base's record first, and an
  operation it overrides calls the base's model where the code names the base class.
  \<open>None\<close> is \<open>Error\<close> or a failed assertion; \<open>now\<close> is \<open>GetSimTime()\<close>; \<open>>> k\<close> and \<open><< k\<close> on
  \<open>int\<close> are division and multiplication by \<open>2 ^ k\<close>.
\<close>

subsection \<open>State\<close>

record private_policy =
  vc_buf_size :: int
  full_vc_buf_size :: int

record shared_policy =
  sh_buf_size :: int
  private_buf_vc_map :: "int list"
  private_buf_size :: "int list"
  private_buf_occupancy :: "int list"
  shared_buf_size :: int
  shared_buf_occupancy :: int
  reserved_slots :: "int list"

record limited_policy =
  lim_vcs :: int
  active_vcs :: int
  max_held_slots :: int

record feedback_policy =
  occupancy_limit :: "int list"
  round_trip_time :: "int list"
  flit_sent_time :: "int list list"
  min_latency :: int
  total_mapped_size :: int
  aging_scale :: nat
  fb_offset :: int

datatype policy =
  Private private_policy
| Shared shared_policy
| Limited shared_policy limited_policy
| Dynamic shared_policy limited_policy
| Shifting shared_policy limited_policy
| Feedback shared_policy feedback_policy
| SimpleFeedback shared_policy feedback_policy "int list"

record buffer_state =
  wait_for_tail_credit :: bool
  bs_size :: int
  bs_full_vc_buf_size :: int
  bs_occupancy :: int
  vc_occupancy :: "int list"
  bs_vcs :: nat
  bs_policy :: policy
  in_use_by :: "int list"
  tail_sent :: "bool list"
  last_id :: "int list"
  last_pid :: "int list"

definition OccupancyFor :: "nat \<Rightarrow> buffer_state \<Rightarrow> int" where
  "OccupancyFor vc bs = vc_occupancy bs ! vc"

definition IsEmptyFor :: "nat \<Rightarrow> buffer_state \<Rightarrow> bool" where
  "IsEmptyFor vc bs \<longleftrightarrow> vc_occupancy bs ! vc = 0"

definition IsAvailableFor :: "nat \<Rightarrow> buffer_state \<Rightarrow> bool" where
  "IsAvailableFor vc bs \<longleftrightarrow> in_use_by bs ! vc < 0"

definition UsedBy :: "nat \<Rightarrow> buffer_state \<Rightarrow> int" where
  "UsedBy vc bs = in_use_by bs ! vc"

definition BS_IsFull :: "buffer_state \<Rightarrow> bool option" where
  "BS_IsFull bs = (if bs_occupancy bs \<le> bs_size bs
     then Some (bs_occupancy bs = bs_size bs) else None)"

subsection \<open>Private buffers\<close>

definition Private_init :: "int \<Rightarrow> int \<Rightarrow> int \<Rightarrow> private_policy option" where
  "Private_init vcs buf_size vbs =
     (let n = (if buf_size \<le> 0 then vbs else buf_size div vcs)
      in if n > 0 then Some \<lparr>vc_buf_size = n, full_vc_buf_size = n\<rparr> else None)"

definition Private_SendingFlit ::
  "buffer_state \<Rightarrow> flit \<Rightarrow> private_policy \<Rightarrow> private_policy option" where
  "Private_SendingFlit bs f p =
     (if OccupancyFor (nat (f_vc f)) bs > vc_buf_size p then None else Some p)"

definition Private_IsFullFor :: "buffer_state \<Rightarrow> nat \<Rightarrow> private_policy \<Rightarrow> bool" where
  "Private_IsFullFor bs vc p \<longleftrightarrow> OccupancyFor vc bs \<ge> vc_buf_size p"

definition Private_AvailableFor :: "buffer_state \<Rightarrow> nat \<Rightarrow> private_policy \<Rightarrow> int" where
  "Private_AvailableFor bs vc p = vc_buf_size p - OccupancyFor vc bs"

definition Private_LimitFor :: "nat \<Rightarrow> private_policy \<Rightarrow> int" where
  "Private_LimitFor vc p = vc_buf_size p"

definition Private_SetVCBufferSize :: "int \<Rightarrow> private_policy \<Rightarrow> private_policy" where
  "Private_SetVCBufferSize n p = p\<lparr>vc_buf_size := n\<rparr>"

definition Private_ResetVCBufferSize :: "private_policy \<Rightarrow> private_policy" where
  "Private_ResetVCBufferSize p = p\<lparr>vc_buf_size := full_vc_buf_size p\<rparr>"

subsection \<open>Shared buffers\<close>

text \<open>The configuration values the constructor reads; an array is empty when the option is a
  single number.\<close>

record shared_config =
  cfg_num_vcs :: nat
  cfg_private_bufs :: int
  cfg_buf_size :: int
  cfg_vc_buf_size :: int
  cfg_private_buf_sizes :: "int list"
  cfg_private_buf_size :: int
  cfg_start_vcs :: "int list"
  cfg_start_vc :: int
  cfg_end_vcs :: "int list"
  cfg_end_vc :: int

text \<open>One turn of the loop that maps the VCs \<open>start..end\<close> of private buffer \<open>i\<close>.\<close>

definition map_private_vcs :: "int \<Rightarrow> int \<Rightarrow> int \<Rightarrow> int list \<Rightarrow> int list option" where
  "map_private_vcs i s e m =
     foldM (\<lambda>v m. if 0 \<le> v \<and> nat v < length m \<and> m ! nat v < 0
                  then Some (m[nat v := i]) else None) [s .. e] m"

definition Shared_init :: "shared_config \<Rightarrow> shared_policy option" where
  "Shared_init c =
     (let vcs = int (cfg_num_vcs c);
          n = nat (if cfg_private_bufs c < 0 then vcs
                   else if cfg_private_bufs c = 0 then 1 else cfg_private_bufs c);
          buf = (if cfg_buf_size c < 0 then vcs * cfg_vc_buf_size c else cfg_buf_size c);
          sizes0 = (if cfg_private_buf_sizes c = []
                    then [if cfg_private_buf_size c < 0 then buf div int n
                          else cfg_private_buf_size c]
                    else cfg_private_buf_sizes c);
          sizes = resize n (last sizes0) sizes0;
          starts = (if cfg_start_vcs c = []
                    then (if cfg_start_vc c < 0
                          then map (\<lambda>i. int i * vcs div int n) [0..<n]
                          else [cfg_start_vc c])
                    else cfg_start_vcs c);
          ends = (if cfg_end_vcs c = []
                  then (if cfg_end_vc c < 0
                        then map (\<lambda>i. (int i + 1) * vcs div int n - 1) [0..<n]
                        else [cfg_end_vc c])
                  else cfg_end_vcs c)
      in do {
        assertion (n \<le> length starts \<and> n \<le> length ends);
        m \<leftarrow> foldM (\<lambda>i m. if starts ! i \<le> ends ! i
                            then map_private_vcs (int i) (starts ! i) (ends ! i) m else None)
              [0..<n] (replicate (cfg_num_vcs c) (-1));
        assertion (buf - sum_list sizes \<ge> 0);
        Some \<lparr>sh_buf_size = buf, private_buf_vc_map = m, private_buf_size = sizes,
              private_buf_occupancy = replicate n 0, shared_buf_size = buf - sum_list sizes,
              shared_buf_occupancy = 0, reserved_slots = replicate (cfg_num_vcs c) 0\<rparr>
      })"

definition ProcessFreeSlot :: "nat \<Rightarrow> shared_policy \<Rightarrow> shared_policy option" where
  "ProcessFreeSlot vc p =
     (let i = nat (private_buf_vc_map p ! vc);
          occ = private_buf_occupancy p ! i - 1;
          q = p\<lparr>private_buf_occupancy := (private_buf_occupancy p)[i := occ]\<rparr>
      in if occ < 0 then None
         else if occ \<ge> private_buf_size p ! i
         then (if shared_buf_occupancy p - 1 < 0 then None
               else Some (q\<lparr>shared_buf_occupancy := shared_buf_occupancy p - 1\<rparr>))
         else Some q)"

text \<open>\<open>while(_reserved_slots[vc]) { --_reserved_slots[vc]; ProcessFreeSlot(vc); }\<close>: one turn per
  reserved slot.\<close>

fun release_reserved :: "nat \<Rightarrow> nat \<Rightarrow> shared_policy \<Rightarrow> shared_policy option" where
  "release_reserved 0 vc p = Some p"
| "release_reserved (Suc n) vc p = do {
     q \<leftarrow> ProcessFreeSlot vc
       (p\<lparr>reserved_slots := (reserved_slots p)[vc := reserved_slots p ! vc - 1]\<rparr>);
     release_reserved n vc q
   }"

definition Shared_SendingFlit :: "flit \<Rightarrow> shared_policy \<Rightarrow> shared_policy option" where
  "Shared_SendingFlit f p =
     (let vc = nat (f_vc f) in do {
        q \<leftarrow> (if reserved_slots p ! vc > 0
              then Some (p\<lparr>reserved_slots := (reserved_slots p)[vc := reserved_slots p ! vc - 1]\<rparr>)
              else
                let i = nat (private_buf_vc_map p ! vc);
                    occ = private_buf_occupancy p ! i + 1;
                    q = p\<lparr>private_buf_occupancy := (private_buf_occupancy p)[i := occ]\<rparr>
                in if occ > private_buf_size p ! i
                   then (if shared_buf_occupancy p + 1 > shared_buf_size p then None
                         else Some (q\<lparr>shared_buf_occupancy := shared_buf_occupancy p + 1\<rparr>))
                   else Some q);
        (if f_tail f then release_reserved (nat (reserved_slots q ! vc)) vc q else Some q)
      })"

definition Shared_FreeSlotFor :: "buffer_state \<Rightarrow> nat \<Rightarrow> shared_policy \<Rightarrow> shared_policy option" where
  "Shared_FreeSlotFor bs vc p =
     (if \<not> IsAvailableFor vc bs \<and> IsEmptyFor vc bs
      then Some (p\<lparr>reserved_slots := (reserved_slots p)[vc := reserved_slots p ! vc + 1]\<rparr>)
      else ProcessFreeSlot vc p)"

definition Shared_IsFullFor :: "nat \<Rightarrow> shared_policy \<Rightarrow> bool" where
  "Shared_IsFullFor vc p \<longleftrightarrow>
     (let i = nat (private_buf_vc_map p ! vc) in
      reserved_slots p ! vc = 0 \<and>
      private_buf_occupancy p ! i \<ge> private_buf_size p ! i \<and>
      shared_buf_occupancy p \<ge> shared_buf_size p)"

definition Shared_AvailableFor :: "nat \<Rightarrow> shared_policy \<Rightarrow> int" where
  "Shared_AvailableFor vc p =
     (let i = nat (private_buf_vc_map p ! vc) in
      reserved_slots p ! vc +
      max (private_buf_size p ! i - private_buf_occupancy p ! i) 0 +
      (shared_buf_size p - shared_buf_occupancy p))"

definition Shared_LimitFor :: "nat \<Rightarrow> shared_policy \<Rightarrow> int" where
  "Shared_LimitFor vc p =
     (let i = nat (private_buf_vc_map p ! vc) in private_buf_size p ! i + shared_buf_size p)"

subsection \<open>Limits on what one VC may hold\<close>

definition Limited_init :: "int \<Rightarrow> int \<Rightarrow> shared_policy \<Rightarrow> limited_policy" where
  "Limited_init num_vcs held p =
     \<lparr>lim_vcs = num_vcs, active_vcs = 0,
      max_held_slots = (if held < 0 then sh_buf_size p else held)\<rparr>"

definition Limited_TakeBuffer :: "limited_policy \<Rightarrow> limited_policy option" where
  "Limited_TakeBuffer l =
     (if active_vcs l + 1 > lim_vcs l then None else Some (l\<lparr>active_vcs := active_vcs l + 1\<rparr>))"

definition Limited_release :: "limited_policy \<Rightarrow> limited_policy option" where
  "Limited_release l =
     (if active_vcs l - 1 < 0 then None else Some (l\<lparr>active_vcs := active_vcs l - 1\<rparr>))"

definition Limited_SendingFlit ::
  "flit \<Rightarrow> shared_policy \<Rightarrow> limited_policy \<Rightarrow> (shared_policy \<times> limited_policy) option" where
  "Limited_SendingFlit f p l = do {
     q \<leftarrow> Shared_SendingFlit f p;
     l' \<leftarrow> (if f_tail f then Limited_release l else Some l);
     Some (q, l')
   }"

definition Limited_IsFullFor ::
  "buffer_state \<Rightarrow> nat \<Rightarrow> shared_policy \<Rightarrow> limited_policy \<Rightarrow> bool" where
  "Limited_IsFullFor bs vc p l \<longleftrightarrow>
     Shared_IsFullFor vc p \<or> OccupancyFor vc bs \<ge> max_held_slots l"

definition Limited_AvailableFor ::
  "buffer_state \<Rightarrow> nat \<Rightarrow> shared_policy \<Rightarrow> limited_policy \<Rightarrow> int" where
  "Limited_AvailableFor bs vc p l =
     min (Shared_AvailableFor vc p) (max_held_slots l - OccupancyFor vc bs)"

definition Limited_LimitFor :: "nat \<Rightarrow> shared_policy \<Rightarrow> limited_policy \<Rightarrow> int" where
  "Limited_LimitFor vc p l = min (Shared_LimitFor vc p) (max_held_slots l)"

definition Dynamic_held :: "shared_policy \<Rightarrow> limited_policy \<Rightarrow> limited_policy option" where
  "Dynamic_held p l = do {
     assertion (active_vcs l > 0);
     assertion (sh_buf_size p div active_vcs l > 0);
     Some (l\<lparr>max_held_slots := sh_buf_size p div active_vcs l\<rparr>)
   }"

definition Dynamic_TakeBuffer :: "shared_policy \<Rightarrow> limited_policy \<Rightarrow> limited_policy option" where
  "Dynamic_TakeBuffer p l = do { l' \<leftarrow> Limited_TakeBuffer l; Dynamic_held p l' }"

text \<open>The common end of \<open>SendingFlit\<close> and \<open>ReturnBuffer\<close>: the share is recomputed when a VC is
  still active, and must be positive.\<close>

definition Dynamic_rebalance :: "shared_policy \<Rightarrow> limited_policy \<Rightarrow> limited_policy option" where
  "Dynamic_rebalance p l =
     (let l' = (if active_vcs l \<noteq> 0
                then l\<lparr>max_held_slots := sh_buf_size p div active_vcs l\<rparr> else l)
      in if max_held_slots l' > 0 then Some l' else None)"

definition Dynamic_SendingFlit ::
  "flit \<Rightarrow> shared_policy \<Rightarrow> limited_policy \<Rightarrow> (shared_policy \<times> limited_policy) option" where
  "Dynamic_SendingFlit f p l = do {
     (q, l') \<leftarrow> Limited_SendingFlit f p l;
     l'' \<leftarrow> (if f_tail f then Dynamic_rebalance q l'
             else if max_held_slots l' > 0 then Some l' else None);
     Some (q, l'')
   }"

fun shift_slots :: "int \<Rightarrow> nat \<Rightarrow> int" where
  "shift_slots m i = (if i = 0 then m else shift_slots (m div 2) (i div 2))"

declare shift_slots.simps [simp del]

definition Shifting_TakeBuffer :: "shared_policy \<Rightarrow> limited_policy \<Rightarrow> limited_policy option" where
  "Shifting_TakeBuffer p l = do {
     l' \<leftarrow> Limited_TakeBuffer l;
     assertion (active_vcs l' \<noteq> 0);
     (let m = shift_slots (sh_buf_size p) (nat (active_vcs l' - 1))
      in if m > 0 then Some (l'\<lparr>max_held_slots := m\<rparr>) else None)
   }"

definition Shifting_rebalance :: "shared_policy \<Rightarrow> limited_policy \<Rightarrow> limited_policy option" where
  "Shifting_rebalance p l =
     (let l' = (if active_vcs l \<noteq> 0
                then l\<lparr>max_held_slots := shift_slots (sh_buf_size p) (nat (active_vcs l - 1))\<rparr>
                else l)
      in if max_held_slots l' > 0 then Some l' else None)"

definition Shifting_SendingFlit ::
  "flit \<Rightarrow> shared_policy \<Rightarrow> limited_policy \<Rightarrow> (shared_policy \<times> limited_policy) option" where
  "Shifting_SendingFlit f p l = do {
     (q, l') \<leftarrow> Limited_SendingFlit f p l;
     l'' \<leftarrow> (if f_tail f then Shifting_rebalance q l'
             else if max_held_slots l' > 0 then Some l' else None);
     Some (q, l'')
   }"

subsection \<open>Feedback policies\<close>

definition Feedback_init :: "nat \<Rightarrow> int \<Rightarrow> shared_policy \<Rightarrow> nat \<Rightarrow> feedback_policy" where
  "Feedback_init num_vcs off p scale =
     \<lparr>occupancy_limit = replicate num_vcs (sh_buf_size p),
      round_trip_time = replicate num_vcs (-1), flit_sent_time = replicate num_vcs [],
      min_latency = -1, total_mapped_size = sh_buf_size p * int num_vcs,
      aging_scale = scale, fb_offset = off\<rparr>"

definition Feedback_SetMinLatency :: "int \<Rightarrow> feedback_policy \<Rightarrow> feedback_policy" where
  "Feedback_SetMinLatency m b = b\<lparr>min_latency := m\<rparr>"

definition Feedback_SendingFlit ::
  "int \<Rightarrow> flit \<Rightarrow> shared_policy \<Rightarrow> feedback_policy \<Rightarrow> (shared_policy \<times> feedback_policy) option" where
  "Feedback_SendingFlit now f p b = do {
     q \<leftarrow> Shared_SendingFlit f p;
     Some (q, b\<lparr>flit_sent_time := (flit_sent_time b)
       [nat (f_vc f) := flit_sent_time b ! nat (f_vc f) @ [now]]\<rparr>)
   }"

definition ComputeRTT :: "nat \<Rightarrow> int \<Rightarrow> feedback_policy \<Rightarrow> int" where
  "ComputeRTT vc last_rtt b =
     (let rtt = round_trip_time b ! vc in
      if rtt < 0 then last_rtt
      else (rtt * 2 ^ aging_scale b + last_rtt - rtt) div 2 ^ aging_scale b)"

definition ComputeLimit :: "int \<Rightarrow> feedback_policy \<Rightarrow> int option" where
  "ComputeLimit rtt b =
     (if min_latency b \<ge> 0 then Some (max (min_latency b * 2 - rtt + fb_offset b) 1) else None)"

definition ComputeMaxSlots :: "int \<Rightarrow> nat \<Rightarrow> feedback_policy \<Rightarrow> int option" where
  "ComputeMaxSlots now vc b =
     (case flit_sent_time b ! vc of
        [] \<Rightarrow> Some (occupancy_limit b ! vc)
      | t # _ \<Rightarrow> map_option (min (occupancy_limit b ! vc))
                  (ComputeLimit (ComputeRTT vc (now - t) b) b))"

definition Feedback_FreeSlotFor ::
  "int \<Rightarrow> buffer_state \<Rightarrow> nat \<Rightarrow> shared_policy \<Rightarrow> feedback_policy
     \<Rightarrow> (shared_policy \<times> feedback_policy) option" where
  "Feedback_FreeSlotFor now bs vc p b = do {
     q \<leftarrow> Shared_FreeSlotFor bs vc p;
     assertion (flit_sent_time b ! vc \<noteq> []);
     (let rtt = ComputeRTT vc (now - hd (flit_sent_time b ! vc)) b in do {
        limit \<leftarrow> ComputeLimit rtt b;
        Some (q, b\<lparr>flit_sent_time := (flit_sent_time b)[vc := tl (flit_sent_time b ! vc)],
                   round_trip_time := (round_trip_time b)[vc := rtt],
                   total_mapped_size := total_mapped_size b + (limit - occupancy_limit b ! vc),
                   occupancy_limit := (occupancy_limit b)[vc := limit]\<rparr>)
      })
   }"

definition SimpleFeedback_SendingFlit ::
  "int \<Rightarrow> buffer_state \<Rightarrow> flit \<Rightarrow> shared_policy \<Rightarrow> feedback_policy \<Rightarrow> int list
     \<Rightarrow> (shared_policy \<times> feedback_policy \<times> int list) option" where
  "SimpleFeedback_SendingFlit now bs f p b pending =
     (let vc = nat (f_vc f) in
      if flit_sent_time b ! vc = [] then do {
        assertion (OccupancyFor vc bs > 0);
        (q, b') \<leftarrow> Feedback_SendingFlit now f p b;
        Some (q, b', pending[vc := OccupancyFor vc bs - 1])
      } else do {
        q \<leftarrow> Shared_SendingFlit f p;
        Some (q, b, pending)
      })"

definition SimpleFeedback_FreeSlotFor ::
  "int \<Rightarrow> buffer_state \<Rightarrow> nat \<Rightarrow> shared_policy \<Rightarrow> feedback_policy \<Rightarrow> int list
     \<Rightarrow> (shared_policy \<times> feedback_policy \<times> int list) option" where
  "SimpleFeedback_FreeSlotFor now bs vc p b pending =
     (if flit_sent_time b ! vc \<noteq> [] \<and> pending ! vc = 0 then do {
        (q, b') \<leftarrow> Feedback_FreeSlotFor now bs vc p b;
        Some (q, b', pending)
      } else do {
        assertion (pending ! vc > 0 \<longrightarrow> flit_sent_time b ! vc \<noteq> []);
        q \<leftarrow> Shared_FreeSlotFor bs vc p;
        Some (q, b, if pending ! vc > 0 then pending[vc := pending ! vc - 1] else pending)
      })"

subsection \<open>Virtual calls\<close>

definition policy_TakeBuffer :: "policy \<Rightarrow> policy option" where
  "policy_TakeBuffer pol =
     (case pol of
        Limited p l \<Rightarrow> map_option (Limited p) (Limited_TakeBuffer l)
      | Dynamic p l \<Rightarrow> map_option (Dynamic p) (Dynamic_TakeBuffer p l)
      | Shifting p l \<Rightarrow> map_option (Shifting p) (Shifting_TakeBuffer p l)
      | _ \<Rightarrow> Some pol)"

definition policy_SendingFlit :: "int \<Rightarrow> buffer_state \<Rightarrow> flit \<Rightarrow> policy \<Rightarrow> policy option" where
  "policy_SendingFlit now bs f pol =
     (case pol of
        Private p \<Rightarrow> map_option Private (Private_SendingFlit bs f p)
      | Shared p \<Rightarrow> map_option Shared (Shared_SendingFlit f p)
      | Limited p l \<Rightarrow> map_option (case_prod Limited) (Limited_SendingFlit f p l)
      | Dynamic p l \<Rightarrow> map_option (case_prod Dynamic) (Dynamic_SendingFlit f p l)
      | Shifting p l \<Rightarrow> map_option (case_prod Shifting) (Shifting_SendingFlit f p l)
      | Feedback p b \<Rightarrow> map_option (case_prod Feedback) (Feedback_SendingFlit now f p b)
      | SimpleFeedback p b pc \<Rightarrow>
          map_option (\<lambda>(p, b, pc). SimpleFeedback p b pc)
            (SimpleFeedback_SendingFlit now bs f p b pc))"

definition policy_FreeSlotFor :: "int \<Rightarrow> buffer_state \<Rightarrow> nat \<Rightarrow> policy \<Rightarrow> policy option" where
  "policy_FreeSlotFor now bs vc pol =
     (case pol of
        Private p \<Rightarrow> Some pol
      | Shared p \<Rightarrow> map_option Shared (Shared_FreeSlotFor bs vc p)
      | Limited p l \<Rightarrow> map_option (\<lambda>q. Limited q l) (Shared_FreeSlotFor bs vc p)
      | Dynamic p l \<Rightarrow> map_option (\<lambda>q. Dynamic q l) (Shared_FreeSlotFor bs vc p)
      | Shifting p l \<Rightarrow> map_option (\<lambda>q. Shifting q l) (Shared_FreeSlotFor bs vc p)
      | Feedback p b \<Rightarrow> map_option (case_prod Feedback) (Feedback_FreeSlotFor now bs vc p b)
      | SimpleFeedback p b pc \<Rightarrow>
          map_option (\<lambda>(p, b, pc). SimpleFeedback p b pc)
            (SimpleFeedback_FreeSlotFor now bs vc p b pc))"

definition policy_ReturnBuffer :: "policy \<Rightarrow> policy option" where
  "policy_ReturnBuffer pol =
     (case pol of
        Limited p l \<Rightarrow> map_option (Limited p) (Limited_release l)
      | Dynamic p l \<Rightarrow> do { l' \<leftarrow> Limited_release l; map_option (Dynamic p) (Dynamic_rebalance p l') }
      | Shifting p l \<Rightarrow> do { l' \<leftarrow> Limited_release l; map_option (Shifting p) (Shifting_rebalance p l') }
      | _ \<Rightarrow> Some pol)"

definition policy_SetVCBufferSize :: "int \<Rightarrow> policy \<Rightarrow> policy" where
  "policy_SetVCBufferSize n pol =
     (case pol of Private p \<Rightarrow> Private (Private_SetVCBufferSize n p) | _ \<Rightarrow> pol)"

definition policy_ResetVCBufferSize :: "policy \<Rightarrow> policy" where
  "policy_ResetVCBufferSize pol =
     (case pol of Private p \<Rightarrow> Private (Private_ResetVCBufferSize p) | _ \<Rightarrow> pol)"

definition IsFullFor :: "int \<Rightarrow> nat \<Rightarrow> buffer_state \<Rightarrow> bool option" where
  "IsFullFor now vc bs =
     (case bs_policy bs of
        Private p \<Rightarrow> Some (Private_IsFullFor bs vc p)
      | Shared p \<Rightarrow> Some (Shared_IsFullFor vc p)
      | Limited p l \<Rightarrow> Some (Limited_IsFullFor bs vc p l)
      | Dynamic p l \<Rightarrow> Some (Limited_IsFullFor bs vc p l)
      | Shifting p l \<Rightarrow> Some (Limited_IsFullFor bs vc p l)
      | Feedback p b \<Rightarrow>
          if Shared_IsFullFor vc p then Some True
          else map_option (\<lambda>m. OccupancyFor vc bs \<ge> m) (ComputeMaxSlots now vc b)
      | SimpleFeedback p b pc \<Rightarrow>
          if Shared_IsFullFor vc p then Some True
          else map_option (\<lambda>m. OccupancyFor vc bs \<ge> m) (ComputeMaxSlots now vc b))"

definition AvailableFor :: "int \<Rightarrow> nat \<Rightarrow> buffer_state \<Rightarrow> int option" where
  "AvailableFor now vc bs =
     (case bs_policy bs of
        Private p \<Rightarrow> Some (Private_AvailableFor bs vc p)
      | Shared p \<Rightarrow> Some (Shared_AvailableFor vc p)
      | Limited p l \<Rightarrow> Some (Limited_AvailableFor bs vc p l)
      | Dynamic p l \<Rightarrow> Some (Limited_AvailableFor bs vc p l)
      | Shifting p l \<Rightarrow> Some (Limited_AvailableFor bs vc p l)
      | Feedback p b \<Rightarrow> map_option (\<lambda>m. min (Shared_AvailableFor vc p) (m - OccupancyFor vc bs))
          (ComputeMaxSlots now vc b)
      | SimpleFeedback p b pc \<Rightarrow>
          map_option (\<lambda>m. min (Shared_AvailableFor vc p) (m - OccupancyFor vc bs))
            (ComputeMaxSlots now vc b))"

definition LimitFor :: "int \<Rightarrow> nat \<Rightarrow> buffer_state \<Rightarrow> int option" where
  "LimitFor now vc bs =
     (case bs_policy bs of
        Private p \<Rightarrow> Some (Private_LimitFor vc p)
      | Shared p \<Rightarrow> Some (Shared_LimitFor vc p)
      | Limited p l \<Rightarrow> Some (Limited_LimitFor vc p l)
      | Dynamic p l \<Rightarrow> Some (Limited_LimitFor vc p l)
      | Shifting p l \<Rightarrow> Some (Limited_LimitFor vc p l)
      | Feedback p b \<Rightarrow> map_option (min (Shared_LimitFor vc p)) (ComputeMaxSlots now vc b)
      | SimpleFeedback p b pc \<Rightarrow> map_option (min (Shared_LimitFor vc p)) (ComputeMaxSlots now vc b))"

subsection \<open>\<open>BufferState\<close>\<close>

definition BufferState_init :: "nat \<Rightarrow> int \<Rightarrow> int \<Rightarrow> int \<Rightarrow> policy \<Rightarrow> buffer_state" where
  "BufferState_init num_vcs buf_size vbs wait pol =
     \<lparr>wait_for_tail_credit = (wait \<noteq> 0),
      bs_size = (if buf_size < 0 then int num_vcs * vbs else buf_size),
      bs_full_vc_buf_size = vbs, bs_occupancy = 0, vc_occupancy = replicate num_vcs 0,
      bs_vcs = num_vcs, bs_policy = pol, in_use_by = replicate num_vcs (-1),
      tail_sent = replicate num_vcs False, last_id = replicate num_vcs (-1),
      last_pid = replicate num_vcs (-1)\<rparr>"

text \<open>One turn of the loop of \<open>ProcessCredit\<close> over the credit's VCs.\<close>

definition credit_vc :: "int \<Rightarrow> nat \<Rightarrow> buffer_state \<Rightarrow> buffer_state option" where
  "credit_vc now vc bs =
     (if \<not> vc < bs_vcs bs then None
      else if wait_for_tail_credit bs \<and> in_use_by bs ! vc < 0 then None
      else if bs_occupancy bs - 1 < 0 then None
      else if vc_occupancy bs ! vc - 1 < 0 then None
      else
        let bs1 = bs\<lparr>bs_occupancy := bs_occupancy bs - 1,
                     vc_occupancy := (vc_occupancy bs)[vc := vc_occupancy bs ! vc - 1]\<rparr>;
            release = (wait_for_tail_credit bs \<and> vc_occupancy bs1 ! vc = 0 \<and> tail_sent bs ! vc);
            bs2 = (if release then bs1\<lparr>in_use_by := (in_use_by bs1)[vc := -1]\<rparr> else bs1)
        in if release \<and> in_use_by bs1 ! vc < 0 then None
           else map_option (\<lambda>pol. bs2\<lparr>bs_policy := pol\<rparr>)
                  (policy_FreeSlotFor now bs2 vc (bs_policy bs2)))"

definition ProcessCredit :: "int \<Rightarrow> credit \<Rightarrow> buffer_state \<Rightarrow> buffer_state option" where
  "ProcessCredit now c bs = foldM (credit_vc now) (c_vc c) bs"

definition SendingFlit :: "int \<Rightarrow> flit \<Rightarrow> buffer_state \<Rightarrow> buffer_state option" where
  "SendingFlit now f bs =
     (let vc = nat (f_vc f) in
      if \<not> (0 \<le> f_vc f \<and> vc < bs_vcs bs) then None
      else if bs_occupancy bs + 1 > bs_size bs then None
      else
        let bs1 = bs\<lparr>bs_occupancy := bs_occupancy bs + 1,
                     vc_occupancy := (vc_occupancy bs)[vc := vc_occupancy bs ! vc + 1]\<rparr>
        in case policy_SendingFlit now bs1 f (bs_policy bs1) of
             None \<Rightarrow> None
           | Some pol \<Rightarrow>
               let bs2 = bs1\<lparr>bs_policy := pol, last_id := (last_id bs1)[vc := f_id f],
                             last_pid := (last_pid bs1)[vc := f_pid f]\<rparr>
               in if \<not> f_tail f then Some bs2
                  else if wait_for_tail_credit bs2
                  then Some (bs2\<lparr>tail_sent := (tail_sent bs2)[vc := True]\<rparr>)
                  else if in_use_by bs2 ! vc < 0 then None
                  else Some (bs2\<lparr>tail_sent := (tail_sent bs2)[vc := True],
                                 in_use_by := (in_use_by bs2)[vc := -1]\<rparr>))"

definition TakeBuffer :: "nat \<Rightarrow> int \<Rightarrow> buffer_state \<Rightarrow> buffer_state option" where
  "TakeBuffer vc tag bs =
     (if \<not> vc < bs_vcs bs then None
      else if in_use_by bs ! vc \<ge> 0 then None
      else map_option
        (\<lambda>pol. bs\<lparr>in_use_by := (in_use_by bs)[vc := tag],
                  tail_sent := (tail_sent bs)[vc := False], bs_policy := pol\<rparr>)
        (policy_TakeBuffer (bs_policy bs)))"

definition ReturnBuffer :: "nat \<Rightarrow> buffer_state \<Rightarrow> buffer_state option" where
  "ReturnBuffer vc bs =
     (if \<not> vc < bs_vcs bs then None
      else if in_use_by bs ! vc < 0 then None
      else map_option
        (\<lambda>pol. bs\<lparr>in_use_by := (in_use_by bs)[vc := -1],
                  tail_sent := (tail_sent bs)[vc := False], bs_policy := pol\<rparr>)
        (policy_ReturnBuffer (bs_policy bs)))"

text \<open>The power-gating operations: a router that learns that the next router has gone to sleep
  empties its credits (\<open>ClearCredits\<close>) and refills them when it is back (\<open>FullCredits\<close>).
  The loops over \<open>vc < _vcs\<close> write every entry of vectors of that length.\<close>

definition ClearCredits :: "buffer_state \<Rightarrow> buffer_state" where
  "ClearCredits bs = bs\<lparr>bs_occupancy := bs_occupancy bs + bs_size bs,
     vc_occupancy := map (\<lambda>n. n + bs_size bs div int (bs_vcs bs)) (vc_occupancy bs),
     in_use_by := replicate (bs_vcs bs) (int (bs_vcs bs) * 4),
     tail_sent := replicate (bs_vcs bs) True\<rparr>"

definition FullCredits :: "buffer_state \<Rightarrow> buffer_state" where
  "FullCredits bs = bs\<lparr>bs_occupancy := 0, vc_occupancy := replicate (bs_vcs bs) 0,
     in_use_by := replicate (bs_vcs bs) (-1), tail_sent := replicate (bs_vcs bs) False,
     bs_policy := policy_ResetVCBufferSize (bs_policy bs)\<rparr>"

definition FillCredits :: "buffer_state \<Rightarrow> buffer_state" where
  "FillCredits bs = bs\<lparr>bs_occupancy := 0, vc_occupancy := replicate (bs_vcs bs) 0,
     bs_policy := policy_ResetVCBufferSize (bs_policy bs)\<rparr>"

text \<open>The least latency of the link, which the feedback policies need before they can limit a VC.\<close>

definition SetMinLatency :: "int \<Rightarrow> buffer_state \<Rightarrow> buffer_state" where
  "SetMinLatency m bs = bs\<lparr>bs_policy :=
     (case bs_policy bs of
        Feedback p b \<Rightarrow> Feedback p (Feedback_SetMinLatency m b)
      | SimpleFeedback p b pc \<Rightarrow> SimpleFeedback p (Feedback_SetMinLatency m b) pc
      | pol \<Rightarrow> pol)\<rparr>"

definition ResetVCBufferSize :: "buffer_state \<Rightarrow> buffer_state" where
  "ResetVCBufferSize bs = bs\<lparr>bs_size := int (bs_vcs bs) * bs_full_vc_buf_size bs,
     bs_policy := policy_ResetVCBufferSize (bs_policy bs)\<rparr>"

definition SetVCBufferSize :: "int \<Rightarrow> buffer_state \<Rightarrow> buffer_state option" where
  "SetVCBufferSize n bs =
     (if bs_size bs \<noteq> int (bs_vcs bs) * bs_full_vc_buf_size bs
      then (if bs_size bs = int (bs_vcs bs) * n
            then Some (bs\<lparr>bs_policy := policy_SetVCBufferSize n (bs_policy bs)\<rparr>) else None)
      else Some (bs\<lparr>bs_size := int (bs_vcs bs) * n,
                    bs_policy := policy_SetVCBufferSize n (bs_policy bs)\<rparr>))"

end
