(* ===== verification/Credit_Flow.thy ===== *)
theory Credit_Flow
  imports Buffer_States
begin

text \<open>
  Correctness of the credit-based flow control of Buffer_States: the three questions a router
  asks a policy agree with each other for every policy class when its counters are consistent (which
  Policy_Invariant shows them to be); with private buffers the
  whole loop (send a flit, deliver it, drain it, return the credit) keeps the upstream
  count exact, so neither end can over- or underflow; the power-gating operations
  \<open>ClearCredits\<close> and \<open>FullCredits\<close> take away and give back exactly the downstream storage.
\<close>

subsection \<open>The contract of a buffer policy\<close>

text \<open>A router sends when \<open>IsFullFor\<close> is false, ranks outputs by \<open>AvailableFor\<close> and compares with
  \<open>LimitFor\<close>; it relies on the three telling the same story.\<close>

locale buffer_policy =
  fixes full :: "'s \<Rightarrow> nat \<Rightarrow> bool"
    and avail :: "'s \<Rightarrow> nat \<Rightarrow> int"
    and limit :: "'s \<Rightarrow> nat \<Rightarrow> int"
    and wf :: "'s \<Rightarrow> nat \<Rightarrow> bool"
  assumes full_iff: "wf s vc \<Longrightarrow> full s vc \<longleftrightarrow> avail s vc \<le> 0"
    and avail_limit: "wf s vc \<Longrightarrow> avail s vc \<le> limit s vc"
begin

lemma may_send: "wf s vc \<Longrightarrow> \<not> full s vc \<Longrightarrow> 0 < avail s vc \<and> 0 < limit s vc"
  using full_iff [of s vc] avail_limit [of s vc] by linarith

lemma zero_limit_full: "wf s vc \<Longrightarrow> limit s vc \<le> 0 \<Longrightarrow> full s vc"
  using full_iff [of s vc] avail_limit [of s vc] by linarith

end

text \<open>Capping a policy by a bound on the slots one VC may hold, as \<open>LimitedSharedBufferPolicy\<close> and
  the feedback policies do, keeps the contract.\<close>

locale capped_policy = buffer_policy full avail limit wf
  for full :: "'s \<Rightarrow> nat \<Rightarrow> bool" and avail limit wf +
  fixes occ :: "'s \<Rightarrow> nat \<Rightarrow> int" and cap :: "'s \<Rightarrow> nat \<Rightarrow> int"
  assumes occ_nonneg: "wf s vc \<Longrightarrow> 0 \<le> occ s vc"

sublocale capped_policy \<subseteq> capped: buffer_policy
  "\<lambda>s vc. full s vc \<or> occ s vc \<ge> cap s vc"
  "\<lambda>s vc. min (avail s vc) (cap s vc - occ s vc)"
  "\<lambda>s vc. min (limit s vc) (cap s vc)" wf
proof unfold_locales
  fix s vc
  assume wf: "wf s vc"
  show "(full s vc \<or> occ s vc \<ge> cap s vc) \<longleftrightarrow> min (avail s vc) (cap s vc - occ s vc) \<le> 0"
    using full_iff [OF wf] by (auto simp: min_def)
  show "min (avail s vc) (cap s vc - occ s vc) \<le> min (limit s vc) (cap s vc)"
    using avail_limit [OF wf] occ_nonneg [OF wf] by (auto simp: min_def)
qed

subsection \<open>Well-formed policies\<close>

definition occ_ok :: "buffer_state \<Rightarrow> nat \<Rightarrow> bool" where
  "occ_ok bs vc \<longleftrightarrow> 0 \<le> OccupancyFor vc bs"

text \<open>The counters of a shared policy a query about \<open>vc\<close> reads: the shared part is not
  over-committed, nothing is negative, and the slots reserved for the VC are occupied slots
  of its private buffer (see \<open>FreeSlotFor\<close>), whose excess over its size sits in the shared
  part.\<close>

definition shared_counts_ok :: "shared_policy \<Rightarrow> nat \<Rightarrow> bool" where
  "shared_counts_ok p vc \<longleftrightarrow>
     0 \<le> reserved_slots p ! vc \<and> 0 \<le> shared_buf_occupancy p \<and>
     shared_buf_occupancy p \<le> shared_buf_size p \<and>
     (let i = nat (private_buf_vc_map p ! vc) in
        reserved_slots p ! vc \<le> private_buf_occupancy p ! i \<and>
        private_buf_occupancy p ! i \<le> private_buf_size p ! i + shared_buf_occupancy p)"

interpretation private_bp: buffer_policy
  "\<lambda>(bs, p) vc. Private_IsFullFor bs vc p" "\<lambda>(bs, p) vc. Private_AvailableFor bs vc p"
  "\<lambda>(bs, p) vc. Private_LimitFor vc p" "\<lambda>(bs, p) vc. occ_ok bs vc"
  by unfold_locales
    (auto simp: Private_IsFullFor_def Private_AvailableFor_def Private_LimitFor_def occ_ok_def)

lemma Shared_full_iff:
  "shared_counts_ok p vc \<Longrightarrow> Shared_IsFullFor vc p \<longleftrightarrow> Shared_AvailableFor vc p \<le> 0"
  unfolding shared_counts_ok_def Shared_IsFullFor_def Shared_AvailableFor_def Let_def
  by linarith

lemma Shared_avail_limit:
  "shared_counts_ok p vc \<Longrightarrow> Shared_AvailableFor vc p \<le> Shared_LimitFor vc p"
  unfolding shared_counts_ok_def Shared_AvailableFor_def Shared_LimitFor_def Let_def
  by linarith

interpretation shared_bp: buffer_policy
  "\<lambda>(bs, p) vc. Shared_IsFullFor vc p" "\<lambda>(bs, p) vc. Shared_AvailableFor vc p"
  "\<lambda>(bs, p) vc. Shared_LimitFor vc p"
  "\<lambda>(bs, p) vc. occ_ok bs vc \<and> shared_counts_ok p vc"
  by unfold_locales (auto simp: Shared_avail_limit Shared_full_iff)

text \<open>The cap is \<open>_max_held_slots\<close> for the limited policies and \<open>_ComputeMaxSlots(vc)\<close> for the
  feedback ones.\<close>

interpretation capped_bp: capped_policy
  "\<lambda>(bs, p, m) vc. Shared_IsFullFor vc p" "\<lambda>(bs, p, m) vc. Shared_AvailableFor vc p"
  "\<lambda>(bs, p, m) vc. Shared_LimitFor vc p"
  "\<lambda>(bs, p, m) vc. occ_ok bs vc \<and> shared_counts_ok p vc"
  "\<lambda>(bs, p, m) vc. OccupancyFor vc bs" "\<lambda>(bs, p, m) vc. m"
  by unfold_locales (auto simp: Shared_avail_limit Shared_full_iff occ_ok_def)

fun policy_ok :: "policy \<Rightarrow> nat \<Rightarrow> bool" where
  "policy_ok (Private p) vc = True"
| "policy_ok (Shared p) vc = shared_counts_ok p vc"
| "policy_ok (Limited p l) vc = shared_counts_ok p vc"
| "policy_ok (Dynamic p l) vc = shared_counts_ok p vc"
| "policy_ok (Shifting p l) vc = shared_counts_ok p vc"
| "policy_ok (Feedback p b) vc = shared_counts_ok p vc"
| "policy_ok (SimpleFeedback p b pc) vc = shared_counts_ok p vc"

lemma capped_full_avail:
  assumes "occ_ok bs vc" and "shared_counts_ok p vc"
  shows "(Shared_IsFullFor vc p \<or> OccupancyFor vc bs \<ge> m) \<longleftrightarrow>
      min (Shared_AvailableFor vc p) (m - OccupancyFor vc bs) \<le> 0"
    and "min (Shared_AvailableFor vc p) (m - OccupancyFor vc bs) \<le> min (Shared_LimitFor vc p) m"
  using capped_bp.capped.full_iff [of "(bs, p, m)" vc]
    capped_bp.capped.avail_limit [of "(bs, p, m)" vc] assms
  by auto

text \<open>With such counters the three answers agree (that they stay such: Policy_Invariant).\<close>

lemma answers_agree:
  assumes "occ_ok bs vc" and "policy_ok (bs_policy bs) vc"
    and "AvailableFor now vc bs = Some a"
  shows "IsFullFor now vc bs = Some (a \<le> 0) \<and> (\<exists>l. LimitFor now vc bs = Some l \<and> a \<le> l)"
  using assms capped_full_avail [OF assms(1)]
    private_bp.full_iff [of "(bs, p)" vc for p] private_bp.avail_limit [of "(bs, p)" vc for p]
    shared_bp.full_iff [of "(bs, p)" vc for p] shared_bp.avail_limit [of "(bs, p)" vc for p]
  by (cases "bs_policy bs")
    (auto simp: IsFullFor_def AvailableFor_def LimitFor_def Limited_IsFullFor_def
      Limited_AvailableFor_def Limited_LimitFor_def)

definition example_shared :: shared_policy where
  "example_shared = \<lparr>sh_buf_size = 8, private_buf_vc_map = [0, 1], private_buf_size = [2, 2],
     private_buf_occupancy = [5, 0], shared_buf_size = 4, shared_buf_occupancy = 3,
     reserved_slots = [0, 0]\<rparr>"

subsection \<open>Private buffers: one \<open>BufferState\<close> at a time\<close>

text \<open>\<open>n\<close> is the number of slots per VC.\<close>

definition private_state :: "int \<Rightarrow> buffer_state \<Rightarrow> bool" where
  "private_state n bs \<longleftrightarrow>
     (\<exists>p. bs_policy bs = Private p \<and> vc_buf_size p = n) \<and>
     length (vc_occupancy bs) = bs_vcs bs \<and> length (in_use_by bs) = bs_vcs bs \<and>
     length (tail_sent bs) = bs_vcs bs \<and>
     bs_occupancy bs = sum_list (vc_occupancy bs) \<and>
     (\<forall>vc < bs_vcs bs. 0 \<le> vc_occupancy bs ! vc \<and> vc_occupancy bs ! vc \<le> n) \<and>
     int (bs_vcs bs) * n \<le> bs_size bs \<and>
     (wait_for_tail_credit bs \<longrightarrow>
        (\<forall>vc < bs_vcs bs. in_use_by bs ! vc < 0 \<longrightarrow> vc_occupancy bs ! vc = 0))"

lemma sum_list_less_bound:
  fixes xs :: "int list"
  assumes "\<forall>i < length xs. xs ! i \<le> n" and "k < length xs" and "xs ! k < n"
  shows "sum_list xs < int (length xs) * n"
  using assms
proof (induction xs arbitrary: k)
  case (Cons x xs)
  have le: "\<forall>i < length xs. xs ! i \<le> n" and x: "x \<le> n" using Cons.prems(1) by force+
  have all: "sum_list xs \<le> int (length xs) * n"
  proof -
    have "\<forall>y \<in> set xs. y \<le> n" using le by (auto simp: in_set_conv_nth)
    then show ?thesis by (induction xs) (auto simp: algebra_simps)
  qed
  show ?case
  proof (cases k)
    case 0
    with Cons.prems all show ?thesis by (simp add: algebra_simps)
  next
    case (Suc j)
    with Cons.IH [OF le, of j] Cons.prems x show ?thesis by (simp add: algebra_simps)
  qed
qed simp

lemma private_IsFullFor:
  assumes "private_state n bs"
  shows "IsFullFor now vc bs = Some (vc_occupancy bs ! vc \<ge> n)"
  using assms by (auto simp: private_state_def IsFullFor_def Private_IsFullFor_def OccupancyFor_def)

lemma private_SendingFlit:
  assumes st: "private_state n bs" and vc: "0 \<le> f_vc f" "nat (f_vc f) < bs_vcs bs"
    and use: "0 \<le> in_use_by bs ! nat (f_vc f)"
    and room: "IsFullFor now (nat (f_vc f)) bs = Some False"
  shows "\<exists>bs'. SendingFlit now f bs = Some bs' \<and> private_state n bs' \<and>
    vc_occupancy bs' = (vc_occupancy bs)[nat (f_vc f) := vc_occupancy bs ! nat (f_vc f) + 1] \<and>
    bs_vcs bs' = bs_vcs bs \<and> bs_size bs' = bs_size bs"
proof -
  let ?vc = "nat (f_vc f)"
  have lt: "vc_occupancy bs ! ?vc < n"
    using room private_IsFullFor [OF st] by auto
  have len: "length (vc_occupancy bs) = bs_vcs bs"
    and occ: "bs_occupancy bs = sum_list (vc_occupancy bs)"
    and le: "\<forall>i < length (vc_occupancy bs). vc_occupancy bs ! i \<le> n"
    using st by (auto simp: private_state_def)
  have "bs_occupancy bs < int (bs_vcs bs) * n"
    using sum_list_less_bound [OF le, of ?vc] vc lt len occ by simp
  then have "bs_occupancy bs + 1 \<le> bs_size bs" using st by (auto simp: private_state_def)
  with st vc use lt show ?thesis
    by (auto simp: SendingFlit_def Let_def private_state_def policy_SendingFlit_def
        Private_SendingFlit_def OccupancyFor_def sum_list_update_int nth_list_update)
qed

lemma private_credit_vc:
  assumes st: "private_state n bs" and vc: "vc < bs_vcs bs" and pos: "0 < vc_occupancy bs ! vc"
  shows "\<exists>bs'. credit_vc now vc bs = Some bs' \<and> private_state n bs' \<and>
    vc_occupancy bs' = (vc_occupancy bs)[vc := vc_occupancy bs ! vc - 1] \<and>
    bs_vcs bs' = bs_vcs bs \<and> bs_size bs' = bs_size bs"
proof -
  obtain p where pol: "bs_policy bs = Private p" "vc_buf_size p = n"
    using st by (auto simp: private_state_def)
  have len: "length (vc_occupancy bs) = bs_vcs bs" "length (in_use_by bs) = bs_vcs bs"
    and occ: "bs_occupancy bs = sum_list (vc_occupancy bs)"
    and nn: "\<forall>x \<in> set (vc_occupancy bs). 0 \<le> x"
    and use: "wait_for_tail_credit bs \<Longrightarrow> 0 \<le> in_use_by bs ! vc"
    using st vc pos by (auto simp: private_state_def in_set_conv_nth not_le)
  let ?rel = "wait_for_tail_credit bs \<and> vc_occupancy bs ! vc = 1 \<and> tail_sent bs ! vc"
  let ?use = "if ?rel then (in_use_by bs)[vc := -1] else in_use_by bs"
  let ?u = "bs\<lparr>bs_occupancy := bs_occupancy bs - 1,
    vc_occupancy := (vc_occupancy bs)[vc := vc_occupancy bs ! vc - 1],
    in_use_by := ?use, bs_policy := Private p\<rparr>"
  have "0 < bs_occupancy bs"
    using nth_le_sum_list_int [OF nn, of vc] vc len occ pos by simp
  then have run: "credit_vc now vc bs = Some ?u"
    using vc pos len use
    by (cases ?rel) (auto simp: credit_vc_def Let_def policy_FreeSlotFor_def pol)
  have sum: "sum_list ((vc_occupancy bs)[vc := vc_occupancy bs ! vc - 1]) = bs_occupancy bs - 1"
    using vc len occ by (simp add: sum_list_update_int)
  have use': "?use ! i < 0 \<Longrightarrow> wait_for_tail_credit bs \<Longrightarrow>
      (vc_occupancy bs)[vc := vc_occupancy bs ! vc - 1] ! i = 0" if "i < bs_vcs bs" for i
    using st that vc len use by (auto simp: private_state_def nth_list_update split: if_splits)
  have bound: "0 \<le> (vc_occupancy bs)[vc := vc_occupancy bs ! vc - 1] ! i \<and>
      (vc_occupancy bs)[vc := vc_occupancy bs ! vc - 1] ! i \<le> n" if "i < bs_vcs bs" for i
  proof -
    have "0 \<le> vc_occupancy bs ! i" "vc_occupancy bs ! i \<le> n"
      using st that by (auto simp: private_state_def)
    with pos vc len show ?thesis by (cases "vc = i") simp_all
  qed
  have "private_state n ?u"
    unfolding private_state_def using st sum use' bound len pol
    by (simp add: private_state_def)
  with run show ?thesis by auto
qed

lemma private_TakeBuffer:
  assumes "private_state n bs" and "vc < bs_vcs bs" and "in_use_by bs ! vc < 0" and "0 \<le> tag"
  shows "\<exists>bs'. TakeBuffer vc tag bs = Some bs' \<and> private_state n bs' \<and>
    vc_occupancy bs' = vc_occupancy bs \<and> bs_vcs bs' = bs_vcs bs \<and> bs_size bs' = bs_size bs \<and>
    in_use_by bs' = (in_use_by bs)[vc := tag]"
  using assms
  by (auto simp: TakeBuffer_def private_state_def policy_TakeBuffer_def nth_list_update)

lemma TakeBuffer_frame:
  assumes "private_state n bs" and "TakeBuffer vc tag bs = Some bs'" and "0 \<le> tag"
  shows "private_state n bs' \<and> vc_occupancy bs' = vc_occupancy bs \<and> bs_vcs bs' = bs_vcs bs"
proof -
  have "vc < bs_vcs bs \<and> in_use_by bs ! vc < 0"
    using assms(2) by (auto simp: TakeBuffer_def split: if_splits)
  with private_TakeBuffer [OF assms(1) _ _ assms(3), of vc] assms(2) show ?thesis by auto
qed

subsection \<open>The credit loop of one link\<close>

text \<open>A link: the upstream router's \<open>BufferState\<close>, the flits and the credits on the wires, and the
  downstream router's input buffer.  The steps are the calls the two routers make: a VC is
  taken, a flit is sent on a taken VC that is not full, flits and credits arrive in order,
  and each flit that leaves the downstream buffer sends one credit for its VC back.\<close>

record link =
  up :: buffer_state
  wire :: "flit list"
  down :: buffer
  returning :: "credit list"

definition credit_for :: "nat \<Rightarrow> credit" where
  "credit_for vc = Credit_New\<lparr>c_vc := [vc]\<rparr>"

inductive link_step :: "link \<Rightarrow> link \<Rightarrow> bool" where
  take: "TakeBuffer vc tag (up s) = Some u \<Longrightarrow> 0 \<le> tag \<Longrightarrow> link_step s (s\<lparr>up := u\<rparr>)"
| send: "0 \<le> f_vc f \<Longrightarrow> nat (f_vc f) < bs_vcs (up s) \<Longrightarrow>
     0 \<le> in_use_by (up s) ! nat (f_vc f) \<Longrightarrow>
     IsFullFor now (nat (f_vc f)) (up s) = Some False \<Longrightarrow>
     SendingFlit now f (up s) = Some u \<Longrightarrow>
     link_step s (s\<lparr>up := u, wire := wire s @ [f]\<rparr>)"
| deliver: "wire s = f # fs \<Longrightarrow> Buffer_AddFlit now (nat (f_vc f)) f (down s) = Some d \<Longrightarrow>
     link_step s (s\<lparr>wire := fs, down := d\<rparr>)"
| drain: "Buffer_RemoveFlit vc (down s) = Some (f, d) \<Longrightarrow>
     link_step s (s\<lparr>down := d, returning := returning s @ [credit_for vc]\<rparr>)"
| return: "returning s = c # cs \<Longrightarrow> ProcessCredit now c (up s) = Some u \<Longrightarrow>
     link_step s (s\<lparr>up := u, returning := cs\<rparr>)"

inductive link_reachable :: "link \<Rightarrow> link \<Rightarrow> bool" for s0 where
  start: "link_reachable s0 s0"
| next_step: "link_reachable s0 s \<Longrightarrow> link_step s t \<Longrightarrow> link_reachable s0 t"

inductive_cases link_stepE: "link_step s t"

definition wire_count :: "link \<Rightarrow> nat \<Rightarrow> int" where
  "wire_count s vc = int (length (filter (\<lambda>f. nat (f_vc f) = vc) (wire s)))"

definition down_count :: "link \<Rightarrow> nat \<Rightarrow> int" where
  "down_count s vc = int (length (v_buffer (b_vc (down s) ! vc)))"

definition back_count :: "link \<Rightarrow> nat \<Rightarrow> int" where
  "back_count s vc = int (length (filter (\<lambda>c. c = credit_for vc) (returning s)))"

text \<open>What the upstream counter stands for: every slot it holds is a flit on the wire, a flit in the
  downstream VC, or a credit on the way back.\<close>

definition link_inv :: "int \<Rightarrow> link \<Rightarrow> bool" where
  "link_inv n s \<longleftrightarrow>
     private_state n (up s) \<and> buffer_wf (down s) \<and>
     length (b_vc (down s)) = bs_vcs (up s) \<and>
     int (bs_vcs (up s)) * n \<le> b_size (down s) \<and>
     (\<forall>f \<in> set (wire s). 0 \<le> f_vc f \<and> nat (f_vc f) < bs_vcs (up s)) \<and>
     (\<forall>c \<in> set (returning s). \<exists>vc < bs_vcs (up s). c = credit_for vc) \<and>
     (\<forall>vc < bs_vcs (up s).
        vc_occupancy (up s) ! vc = wire_count s vc + down_count s vc + back_count s vc)"

lemma credit_for_inj [simp]: "credit_for a = credit_for b \<longleftrightarrow> a = b"
  by (simp add: credit_for_def Credit_New_def)

lemma ProcessCredit_single [simp]: "ProcessCredit now (credit_for vc) bs = credit_vc now vc bs"
  by (simp add: ProcessCredit_def credit_for_def split: option.split)

lemma link_inv_deliver:
  assumes inv: "link_inv n s" and w: "wire s = f # fs"
    and d: "Buffer_AddFlit now (nat (f_vc f)) f (down s) = Some d"
  shows "link_inv n (s\<lparr>wire := fs, down := d\<rparr>)"
proof -
  let ?vc = "nat (f_vc f)"
  from d obtain v where v: "VC_AddFlit now f (b_vc (down s) ! ?vc) = Some v"
    and d': "d = (down s)\<lparr>b_occupancy := b_occupancy (down s) + 1, b_vc := (b_vc (down s))[?vc := v]\<rparr>"
    and lt: "?vc < length (b_vc (down s))"
    by (auto simp: Buffer_AddFlit_def split: Option.bind_splits)
  have len: "length (v_buffer v) = Suc (length (v_buffer (b_vc (down s) ! ?vc)))"
    using VC_AddFlit_queue [OF v] by auto
  have "buffer_wf d \<and> b_size d = b_size (down s) \<and> length (b_vc d) = length (b_vc (down s))"
    using Buffer_AddFlit_wf [OF _ d] inv by (simp add: link_inv_def)
  with inv w d' lt len show ?thesis
    by (auto simp: link_inv_def wire_count_def down_count_def back_count_def nth_list_update)
qed

lemma link_inv_drain:
  assumes inv: "link_inv n s" and d: "Buffer_RemoveFlit vc (down s) = Some (f, d)"
  shows "link_inv n (s\<lparr>down := d, returning := returning s @ [credit_for vc]\<rparr>)"
proof -
  from d obtain v where v: "VC_RemoveFlit (b_vc (down s) ! vc) = Some (f, v)"
    and d': "d = (down s)\<lparr>b_occupancy := b_occupancy (down s) - 1, b_vc := (b_vc (down s))[vc := v]\<rparr>"
    and lt: "vc < length (b_vc (down s))"
    by (auto simp: Buffer_RemoveFlit_def split: Option.bind_splits)
  have len: "int (length (v_buffer v)) = int (length (v_buffer (b_vc (down s) ! vc))) - 1"
    using v by (cases "v_buffer (b_vc (down s) ! vc)") (auto simp: VC_RemoveFlit_queue)
  have "buffer_wf d \<and> b_size d = b_size (down s) \<and> length (b_vc d) = length (b_vc (down s))"
    using Buffer_RemoveFlit_wf [OF _ d] inv by (simp add: link_inv_def)
  with inv d' lt len show ?thesis
    by (auto simp: link_inv_def wire_count_def down_count_def back_count_def nth_list_update)
qed

lemma link_inv_return:
  assumes inv: "link_inv n s" and b: "returning s = c # cs"
  shows "\<exists>u. ProcessCredit now c (up s) = Some u \<and> link_inv n (s\<lparr>up := u, returning := cs\<rparr>)"
proof -
  from inv b obtain vc where vc: "vc < bs_vcs (up s)" and c: "c = credit_for vc"
    by (auto simp: link_inv_def)
  have "0 < back_count s vc" using b c by (simp add: back_count_def)
  then have "0 < vc_occupancy (up s) ! vc"
    using inv vc by (auto simp: link_inv_def wire_count_def down_count_def)
  with private_credit_vc [of n "up s" vc now] inv vc obtain u
    where u: "credit_vc now vc (up s) = Some u" "private_state n u"
      "vc_occupancy u = (vc_occupancy (up s))[vc := vc_occupancy (up s) ! vc - 1]"
      "bs_vcs u = bs_vcs (up s)"
    by (auto simp: link_inv_def)
  have len: "length (vc_occupancy (up s)) = bs_vcs (up s)"
    using inv by (simp add: link_inv_def private_state_def)
  from u inv b c vc len show ?thesis
    by (auto simp: link_inv_def wire_count_def down_count_def back_count_def nth_list_update)
qed

lemma link_inv_send:
  assumes inv: "link_inv n s"
    and f: "0 \<le> f_vc f" "nat (f_vc f) < bs_vcs (up s)" "0 \<le> in_use_by (up s) ! nat (f_vc f)"
    and room: "IsFullFor now (nat (f_vc f)) (up s) = Some False"
  shows "\<exists>u. SendingFlit now f (up s) = Some u \<and> link_inv n (s\<lparr>up := u, wire := wire s @ [f]\<rparr>)"
proof -
  have st: "private_state n (up s)" using inv by (simp add: link_inv_def)
  then have len: "length (vc_occupancy (up s)) = bs_vcs (up s)" by (simp add: private_state_def)
  from private_SendingFlit [OF st f room] obtain u
    where u: "SendingFlit now f (up s) = Some u" "private_state n u"
      "vc_occupancy u = (vc_occupancy (up s))[nat (f_vc f) := vc_occupancy (up s) ! nat (f_vc f) + 1]"
      "bs_vcs u = bs_vcs (up s)"
    by blast
  with inv f len show ?thesis
    by (auto simp: link_inv_def wire_count_def down_count_def back_count_def nth_list_update)
qed

lemma link_step_inv:
  assumes "link_step s t" and "link_inv n s"
  shows "link_inv n t"
  using assms
proof (induction rule: link_step.induct)
  case (take vc tag s u)
  have "private_state n u \<and> vc_occupancy u = vc_occupancy (up s) \<and> bs_vcs u = bs_vcs (up s)"
    using TakeBuffer_frame [OF _ take(1,2), of n] take(3) by (simp add: link_inv_def)
  with take(3) show ?case
    by (simp add: link_inv_def wire_count_def down_count_def back_count_def)
next
  case (send f s now u)
  then show ?case using link_inv_send [of n s f now] by auto
next
  case (deliver s f fs now d)
  then show ?case by (blast intro: link_inv_deliver)
next
  case (drain vc s f d)
  then show ?case by (blast intro: link_inv_drain)
next
  case (return s c cs now u)
  then show ?case using link_inv_return [of n s c cs now] by auto
qed

lemma link_reachable_inv: "link_reachable s0 s \<Longrightarrow> link_inv n s0 \<Longrightarrow> link_inv n s"
  by (induction rule: link_reachable.induct) (auto intro: link_step_inv)

definition link_init :: "nat \<Rightarrow> int \<Rightarrow> int \<Rightarrow> vc \<Rightarrow> link" where
  "link_init vcs n wait v =
     \<lparr>up = BufferState_init vcs (-1) n wait (Private \<lparr>vc_buf_size = n, full_vc_buf_size = n\<rparr>),
      wire = [], down = Buffer_init vcs (-1) n v, returning = []\<rparr>"

lemma link_init_inv: "0 < n \<Longrightarrow> v_buffer v = [] \<Longrightarrow> link_inv n (link_init vcs n wait v)"
  by (auto simp: link_inv_def link_init_def private_state_def BufferState_init_def
      buffer_wf_def Buffer_init_def wire_count_def down_count_def back_count_def
      sum_list_replicate)

lemma link_inv_room:
  assumes inv: "link_inv n s" and w: "wire s \<noteq> []"
  shows "b_occupancy (down s) < b_size (down s)"
proof -
  let ?k = "nat (f_vc (hd (wire s)))"
  let ?lens = "map (\<lambda>v. int (length (v_buffer v))) (b_vc (down s))"
  have k: "?k < bs_vcs (up s)" using inv w by (auto simp: link_inv_def)
  have "0 < wire_count s ?k" using w by (cases "wire s") (auto simp: wire_count_def)
  moreover have le: "down_count s vc + wire_count s vc \<le> n" if "vc < bs_vcs (up s)" for vc
  proof -
    have "vc_occupancy (up s) ! vc \<le> n"
      and "vc_occupancy (up s) ! vc = wire_count s vc + down_count s vc + back_count s vc"
      using inv that unfolding link_inv_def private_state_def by blast+
    then show ?thesis by (simp add: back_count_def)
  qed
  ultimately have k_lt: "down_count s ?k < n" using k by fastforce
  have all_le: "down_count s vc \<le> n" if "vc < bs_vcs (up s)" for vc
    using le [OF that] by (simp add: wire_count_def)
  have len: "length (b_vc (down s)) = bs_vcs (up s)" using inv by (simp add: link_inv_def)
  have "sum_list ?lens < int (length ?lens) * n"
    by (rule sum_list_less_bound [of ?lens n ?k])
      (use k k_lt all_le len in \<open>simp_all add: down_count_def\<close>)
  then show ?thesis using inv by (simp add: link_inv_def buffer_wf_def)
qed

text \<open>C22: Credit flow control over one link with private buffers: in every reachable state the
  downstream input buffer has a free slot for each flit on the wire (its overflow error
  cannot occur), a returning credit is always accepted (no counter falls below zero and
  the VC it is for is not idle), and a router holding a VC that \<open>IsFullFor\<close> reports not
  full can send a flit on it.\<close>

theorem credit_flow_safe:
  assumes "0 < n" and "v_buffer v = []" and "link_reachable (link_init vcs n wait v) s"
  shows "(wire s \<noteq> [] \<longrightarrow> b_occupancy (down s) < b_size (down s)) \<and>
    (\<forall>now c cs. returning s = c # cs \<longrightarrow> ProcessCredit now c (up s) \<noteq> None) \<and>
    (\<forall>now f. 0 \<le> f_vc f \<and> nat (f_vc f) < bs_vcs (up s) \<and>
       0 \<le> in_use_by (up s) ! nat (f_vc f) \<and>
       IsFullFor now (nat (f_vc f)) (up s) = Some False \<longrightarrow> SendingFlit now f (up s) \<noteq> None)"
proof -
  have inv: "link_inv n s"
    using link_reachable_inv [OF assms(3)] link_init_inv [OF assms(1,2)] by blast
  from link_inv_room [OF inv] link_inv_return [OF inv] link_inv_send [OF inv]
  show ?thesis by fastforce
qed

text \<open>A run for the witness: a VC is taken and a flit sent.\<close>

lemma credit_flow_safe_witness:
  "\<exists>s. link_reachable (link_init 2 4 0 (VC_init 1 ''none'' 0)) s \<and> wire s \<noteq> [] \<and>
     b_occupancy (down s) < b_size (down s)"
proof -
  let ?v = "VC_init 1 ''none'' 0"
  let ?s0 = "link_init 2 4 0 ?v"
  let ?f = "example_flit 1 7 True False"
  have v: "v_buffer ?v = []" by (simp add: VC_init_def)
  have inv0: "link_inv 4 ?s0" by (rule link_init_inv) (simp_all add: v)
  have "TakeBuffer 0 3 (up ?s0) \<noteq> None"
    by (simp add: TakeBuffer_def link_init_def BufferState_init_def policy_TakeBuffer_def)
  then obtain u where u: "TakeBuffer 0 3 (up ?s0) = Some u" by auto
  let ?s1 = "?s0\<lparr>up := u\<rparr>"
  have st1: "link_step ?s0 ?s1" by (rule link_step.take [OF u]) simp
  have r1: "link_reachable ?s0 ?s1"
    by (rule link_reachable.next_step [OF link_reachable.start st1])
  have inv1: "link_inv 4 ?s1" by (rule link_step_inv [OF st1 inv0])
  have u_facts: "bs_vcs u = 2" "in_use_by u ! 0 = 3" "vc_occupancy u ! 0 = 0"
    using u by (auto simp: TakeBuffer_def link_init_def BufferState_init_def
        policy_TakeBuffer_def numeral_2_eq_2)
  have full: "IsFullFor 0 (nat (f_vc ?f)) (up ?s1) = Some False"
    using private_IsFullFor [of 4 u 0 0] inv1 u_facts by (simp add: link_inv_def example_flit_def)
  have "\<exists>w. SendingFlit 0 ?f (up ?s1) = Some w \<and>
      link_inv 4 (?s1\<lparr>up := w, wire := wire ?s1 @ [?f]\<rparr>)"
    by (rule link_inv_send [OF inv1 _ _ _ full]) (use u_facts in \<open>simp_all add: example_flit_def\<close>)
  then obtain w where w: "SendingFlit 0 ?f (up ?s1) = Some w" by blast
  let ?s2 = "?s1\<lparr>up := w, wire := wire ?s1 @ [?f]\<rparr>"
  have "link_step ?s1 ?s2"
    by (rule link_step.send [OF _ _ _ full w]) (use u_facts in \<open>simp_all add: example_flit_def\<close>)
  then have r2: "link_reachable ?s0 ?s2" by (rule link_reachable.next_step [OF r1])
  have "wire ?s2 \<noteq> []" by simp
  with credit_flow_safe [of 4 ?v, OF _ v r2] r2 show ?thesis by (intro exI [of _ ?s2]) auto
qed

subsection \<open>Taking credits away and giving them back\<close>

lemma ClearCredits_occupancy:
  "vc < length (vc_occupancy bs) \<Longrightarrow>
     OccupancyFor vc (ClearCredits bs) = OccupancyFor vc bs + bs_size bs div int (bs_vcs bs)"
  by (simp add: OccupancyFor_def ClearCredits_def)

text \<open>When the next router falls asleep \<open>ClearCredits\<close> leaves no slot available on any VC: what
  can be sent on a VC drops by the VC's whole storage, so with exact counters every VC is
  full until that many credits have come back, and no VC can be allocated.\<close>

theorem ClearCredits_blocks:
  assumes "private_state n bs" and "bs_size bs = int (bs_vcs bs) * n" and "vc < bs_vcs bs"
    and "AvailableFor now vc bs = Some a"
  shows "AvailableFor now vc (ClearCredits bs) = Some (a - n) \<and>
    IsFullFor now vc (ClearCredits bs) = Some True \<and> \<not> IsAvailableFor vc (ClearCredits bs)"
proof -
  obtain p where p: "bs_policy bs = Private p" "vc_buf_size p = n"
    and occ: "0 \<le> vc_occupancy bs ! vc" "length (vc_occupancy bs) = bs_vcs bs"
    using assms(1,3) by (auto simp: private_state_def)
  have pc: "bs_policy (ClearCredits bs) = Private p" by (simp add: ClearCredits_def p)
  have d: "bs_size bs div int (bs_vcs bs) = n" using assms(2,3) by simp
  have "OccupancyFor vc (ClearCredits bs) = OccupancyFor vc bs + n"
    using ClearCredits_occupancy [of vc bs] occ assms(3) by (simp add: d)
  moreover have "in_use_by (ClearCredits bs) ! vc = int (bs_vcs bs) * 4"
    using assms(3) by (simp add: ClearCredits_def)
  ultimately show ?thesis
    using assms(4) p pc occ
    by (auto simp: AvailableFor_def IsFullFor_def Private_AvailableFor_def Private_IsFullFor_def
        IsAvailableFor_def OccupancyFor_def)
qed

definition example_private :: buffer_state where
  "example_private =
     BufferState_init 2 (-1) 4 1 (Private \<lparr>vc_buf_size = 4, full_vc_buf_size = 4\<rparr>)"

lemma example_private_state: "private_state 4 example_private"
  by (auto simp: private_state_def example_private_def BufferState_init_def numeral_2_eq_2
      less_Suc_eq)

lemma ClearCredits_blocks_witness:
  "AvailableFor 0 1 (ClearCredits example_private) = Some (4 - 4) \<and>
   \<not> IsAvailableFor 1 (ClearCredits example_private)"
proof -
  have "AvailableFor 0 1 example_private = Some 4" and "1 < bs_vcs example_private"
    and "bs_size example_private = int (bs_vcs example_private) * 4"
    by (simp_all add: AvailableFor_def example_private_def BufferState_init_def
        Private_AvailableFor_def OccupancyFor_def numeral_2_eq_2)
  from ClearCredits_blocks [OF example_private_state this(3,2,1)] show ?thesis by blast
qed

text \<open>What the upstream router sees while the sleeping router relays \<open>k\<close> credits for a VC.\<close>

definition relaying :: "buffer_state \<Rightarrow> int \<Rightarrow> nat \<Rightarrow> nat \<Rightarrow> buffer_state \<Rightarrow> bool" where
  "relaying bs n vc k bs' \<longleftrightarrow>
     bs_policy bs' = bs_policy bs \<and> bs_vcs bs' = bs_vcs bs \<and>
     wait_for_tail_credit bs' = wait_for_tail_credit bs \<and>
     length (vc_occupancy bs') = bs_vcs bs \<and> length (in_use_by bs') = bs_vcs bs \<and>
     vc_occupancy bs' ! vc = n - int k \<and>
     bs_occupancy bs' = bs_occupancy bs + bs_size bs - int k \<and>
     tail_sent bs' ! vc \<and>
     in_use_by bs' ! vc =
       (if wait_for_tail_credit bs \<and> int k = n then -1 else int (bs_vcs bs) * 4)"

lemma relaying_step:
  assumes "relaying bs n vc k bs'" and "int k < n" and "vc < bs_vcs bs"
    and "n \<le> bs_size bs" and "0 \<le> bs_occupancy bs" and "\<exists>p. bs_policy bs = Private p"
  shows "\<exists>bs''. credit_vc now vc bs' = Some bs'' \<and> relaying bs n vc (Suc k) bs''"
  using assms
  by (auto simp: relaying_def credit_vc_def Let_def policy_FreeSlotFor_def)

lemma relaying_run:
  assumes "private_state n bs" and "bs_size bs = int (bs_vcs bs) * n" and "vc < bs_vcs bs"
    and "vc_occupancy bs ! vc = 0" and "0 < n" and "int k \<le> n"
  shows "\<exists>bs'. foldM (credit_vc now) (replicate k vc) (ClearCredits bs) = Some bs' \<and>
    relaying bs n vc k bs'"
  using assms(6)
proof (induction k)
  case 0
  from assms show ?case
    by (auto simp: relaying_def ClearCredits_def private_state_def)
next
  case (Suc k)
  then obtain bs' where bs': "foldM (credit_vc now) (replicate k vc) (ClearCredits bs) = Some bs'"
    and rel: "relaying bs n vc k bs'" by auto
  have size: "n \<le> bs_size bs" using assms(2,3,5) by simp
  have occ: "0 \<le> bs_occupancy bs"
    using assms(1) by (auto simp: private_state_def in_set_conv_nth intro!: sum_list_nonneg)
  have pol: "\<exists>p. bs_policy bs = Private p" using assms(1) by (auto simp: private_state_def)
  have "foldM (credit_vc now) (replicate (Suc k) vc) (ClearCredits bs) = credit_vc now vc bs'"
    using bs' by (simp add: replicate_append_same [symmetric] foldM_append del: replicate_append_same
        split: option.split)
  with relaying_step [OF rel _ assms(3) size occ pol] Suc.prems show ?case by simp
qed

text \<open>While the neighbour sleeps, the credits it relays reopen the VC slot by slot: after
  \<open>ClearCredits\<close> on an idle VC and \<open>k\<close> relayed credits exactly \<open>k\<close> flits may be sent; but the
  VC can be allocated to a packet only once all \<open>n\<close> credits are in, and only when
  \<open>wait_for_tail_credit\<close> is set: without that option it stays marked in use.\<close>

theorem relayed_credits_reopen:
  assumes "private_state n bs" and "bs_size bs = int (bs_vcs bs) * n" and "vc < bs_vcs bs"
    and "vc_occupancy bs ! vc = 0" and "0 < n" and "int k \<le> n"
  shows "\<exists>bs'. foldM (credit_vc now) (replicate k vc) (ClearCredits bs) = Some bs' \<and>
    AvailableFor now vc bs' = Some (int k) \<and>
    (IsAvailableFor vc bs' \<longleftrightarrow> wait_for_tail_credit bs \<and> int k = n)"
proof -
  obtain p where p: "bs_policy bs = Private p" "vc_buf_size p = n"
    using assms(1) by (auto simp: private_state_def)
  from relaying_run [OF assms] obtain bs'
    where "foldM (credit_vc now) (replicate k vc) (ClearCredits bs) = Some bs'"
      and "relaying bs n vc k bs'" by blast
  with p show ?thesis
    by (auto simp: relaying_def AvailableFor_def Private_AvailableFor_def OccupancyFor_def
        IsAvailableFor_def)
qed

lemma relayed_credits_reopen_witness:
  "\<exists>bs'. foldM (credit_vc 9) (replicate 4 1) (ClearCredits example_private) = Some bs' \<and>
    AvailableFor 9 1 bs' = Some (int 4) \<and> IsAvailableFor 1 bs'"
proof -
  have "1 < bs_vcs example_private" and "vc_occupancy example_private ! 1 = 0"
    and "bs_size example_private = int (bs_vcs example_private) * 4"
    and w: "wait_for_tail_credit example_private"
    by (simp_all add: example_private_def BufferState_init_def numeral_2_eq_2)
  from relayed_credits_reopen [OF example_private_state this(3,1,2), of 4 9] w
  show ?thesis by simp
qed

text \<open>When the neighbour is back \<open>FullCredits\<close> restores the state of an empty downstream buffer
  whatever the counters were: every VC is free to allocate and its whole storage available.\<close>

theorem FullCredits_restores:
  assumes "bs_policy bs = Private p" and "vc < bs_vcs bs"
  shows "AvailableFor now vc (FullCredits bs) = Some (full_vc_buf_size p) \<and>
    IsAvailableFor vc (FullCredits bs) \<and>
    (int (bs_vcs bs) * full_vc_buf_size p \<le> bs_size bs \<and> 0 \<le> full_vc_buf_size p \<longrightarrow>
       private_state (full_vc_buf_size p) (FullCredits bs))"
  using assms
  by (auto simp: FullCredits_def AvailableFor_def Private_AvailableFor_def OccupancyFor_def
      IsAvailableFor_def policy_ResetVCBufferSize_def Private_ResetVCBufferSize_def
      private_state_def sum_list_replicate)

lemma FullCredits_restores_witness:
  "AvailableFor 0 1 (FullCredits (ClearCredits example_private)) = Some 4 \<and>
   private_state 4 (FullCredits (ClearCredits example_private))"
proof -
  have "bs_policy (ClearCredits example_private) = Private \<lparr>vc_buf_size = 4, full_vc_buf_size = 4\<rparr>"
    and "1 < bs_vcs (ClearCredits example_private)"
    and "bs_size (ClearCredits example_private) = 8"
    and "bs_vcs (ClearCredits example_private) = 2"
    by (simp_all add: example_private_def BufferState_init_def ClearCredits_def)
  with FullCredits_restores [OF this(1,2)] show ?thesis by simp
qed

text \<open>With shared buffers \<open>FullCredits\<close> does not give the storage back: the counters of
  \<open>SharedBufferPolicy\<close> are left as they were, so what is available does not change.\<close>

theorem FullCredits_keeps_shared_counts:
  assumes "bs_policy bs = Shared p"
  shows "AvailableFor now vc (FullCredits bs) = AvailableFor now vc bs \<and>
    IsFullFor now vc (FullCredits bs) = IsFullFor now vc bs"
  using assms
  by (simp add: AvailableFor_def IsFullFor_def FullCredits_def policy_ResetVCBufferSize_def)

lemma FullCredits_keeps_shared_counts_witness:
  "AvailableFor 0 0 (FullCredits (BufferState_init 2 8 4 0 (Shared example_shared))) = Some 1"
proof -
  have p: "bs_policy (BufferState_init 2 8 4 0 (Shared example_shared)) = Shared example_shared"
    by (simp add: BufferState_init_def)
  have "AvailableFor 0 0 (BufferState_init 2 8 4 0 (Shared example_shared)) = Some 1"
    by (simp add: AvailableFor_def BufferState_init_def Shared_AvailableFor_def example_shared_def)
  with FullCredits_keeps_shared_counts [OF p] show ?thesis by simp
qed

end
