(* ===== verification/Mesh.thy ===== *)
theory Mesh
  imports Prelude
begin

text \<open>
  Ports and positions of the two-dimensional mesh: the direction enum of
  src/booksim2/src/routefunc.hpp, the edge tests and the input/output pairing the FLOV router
  repeats inline (src/booksim2/src/routers/flov_router.cpp).  Router ids run row by row:
  router \<open>id\<close> sits in column \<open>id % gK\<close> and row \<open>id / gK\<close>.
\<close>

abbreviation (input) DIR_EAST :: nat where "DIR_EAST \<equiv> 0"
abbreviation (input) DIR_WEST :: nat where "DIR_WEST \<equiv> 1"
abbreviation (input) DIR_SOUTH :: nat where "DIR_SOUTH \<equiv> 2"
abbreviation (input) DIR_NORTH :: nat where "DIR_NORTH \<equiv> 3"
abbreviation (input) DIR_NI :: nat where "DIR_NI \<equiv> 4"

text \<open>There is no link in direction \<open>out\<close>.\<close>

definition at_edge :: "nat \<Rightarrow> nat \<Rightarrow> nat \<Rightarrow> bool" where
  "at_edge gK i out \<longleftrightarrow>
     (out = DIR_EAST \<and> i mod gK = gK - 1) \<or>
     (out = DIR_WEST \<and> i mod gK = 0) \<or>
     (out = DIR_SOUTH \<and> i div gK = gK - 1) \<or>
     (out = DIR_NORTH \<and> i div gK = 0)"

text \<open>The router is at the edge opposite to direction \<open>d\<close>: nothing can be relayed from there.\<close>

definition at_far_edge :: "nat \<Rightarrow> nat \<Rightarrow> nat \<Rightarrow> bool" where
  "at_far_edge gK i d \<longleftrightarrow>
     (d = DIR_EAST \<and> i mod gK = 0) \<or>
     (d = DIR_WEST \<and> i mod gK = gK - 1) \<or>
     (d = DIR_SOUTH \<and> i div gK = 0) \<or>
     (d = DIR_NORTH \<and> i div gK = gK - 1)"

text \<open>\<open>if (p % 2) --p; else ++p;\<close>: east and west, south and north change places.\<close>

definition opp :: "nat \<Rightarrow> nat" where
  "opp p = (if p mod 2 = 1 then p - 1 else p + 1)"

lemma opp_simps [simp]: "opp 0 = 1" "opp 1 = 0" "opp (Suc 0) = 0" "opp 2 = 3" "opp 3 = 2"
  by (simp_all add: opp_def)

lemma opp_less_4 [simp]: "opp p < 4 \<longleftrightarrow> p < 4"
  unfolding opp_def by presburger

lemma opp_opp [simp]: "opp (opp p) = p"
  unfolding opp_def by presburger

lemma opp_neq [simp]: "opp p \<noteq> p" "p \<noteq> opp p"
  unfolding opp_def by presburger+

lemma opp_eq_iff [simp]: "opp p = opp q \<longleftrightarrow> p = q"
  by (metis opp_opp)

lemma at_far_edge_opp: "d < 4 \<Longrightarrow> at_far_edge gK i d \<longleftrightarrow> at_edge gK i (opp d)"
  by (auto simp: at_far_edge_def at_edge_def less_4_cases)

text \<open>The router at the other end of link \<open>out\<close>.\<close>

definition neighbor :: "nat \<Rightarrow> nat \<Rightarrow> nat \<Rightarrow> nat" where
  "neighbor gK i out =
     (if out = DIR_EAST then i + 1 else if out = DIR_WEST then i - 1
      else if out = DIR_SOUTH then i + gK else i - gK)"

lemma neighbor_in_mesh:
  assumes "i < gK * gK" and "out < 4" and "\<not> at_edge gK i out"
  shows "neighbor gK i out < gK * gK"
proof -
  have k: "0 < gK" using assms(1) by (cases gK) auto
  have r: "i div gK < gK" using assms(1) by (simp add: less_mult_imp_div_less)
  from assms(2) consider "out = 0" | "out = 1" | "out = 2" | "out = 3" by (auto simp: less_4_cases)
  then show ?thesis
  proof cases
    case 1
    with assms have "i mod gK + 1 < gK"
      using mod_less_divisor [OF k, of i] by (auto simp: at_edge_def simp del: mod_less_divisor)
    then have "i + 1 < (i div gK + 1) * gK"
      using div_mult_mod_eq [of i gK] unfolding add_mult_distrib by linarith
    also have "\<dots> \<le> gK * gK" using r by (intro mult_right_mono) auto
    finally show ?thesis using 1 by (simp add: neighbor_def)
  next
    case 2
    then show ?thesis using assms(1) by (simp add: neighbor_def)
  next
    case 3
    with assms r have "i div gK + 1 < gK" by (auto simp: at_edge_def)
    then have "(i div gK + 1 + 1) * gK \<le> gK * gK" by (intro mult_right_mono) auto
    moreover have "i < (i div gK + 1) * gK" 
      using div_mult_mod_eq [of i gK] mod_less_divisor [OF k, of i]
      unfolding add_mult_distrib by linarith
    ultimately show ?thesis using 3 by (simp add: neighbor_def algebra_simps)
  next
    case 4
    then show ?thesis using assms(1) by (simp add: neighbor_def)
  qed
qed

end
