(* ===== verification/Routers.thy ===== *)
theory Routers
  imports Mesh Buffer_States
begin

text \<open>
  The state of a router, in the layers of the class hierarchy: \<open>Router\<close>
  (src/booksim2/src/routers/router.cpp, router.hpp), \<open>IQRouter\<close> (iq_router.hpp) and
  \<open>FLOVRouter\<close> (flov_router.cpp, flov_router.hpp); each record extends the one before as the
  class does.  Counters of type \<open>double\<close> that are only incremented are integers.  The
  global \<open>gK\<close> (routers per row) is an argument of the definitions that read it.
\<close>

datatype flov_policy = gflov | rflov | noflov

record router =
  rid :: nat
  inputs :: nat
  outputs :: nat
  power_state :: power_state
  power_off_cycles :: nat
  total_power_off_cycles :: nat
  idle_threshold :: int
  drain_threshold :: int
  bet_threshold :: int
  wakeup_threshold :: int
  idle_timer :: int
  drain_timer :: int
  off_timer :: int
  wakeup_timer :: int
  wakeup_signal :: bool
  off_counter :: int
  drain_counter :: int
  drain_timeout_counter :: int
  drain_time_q :: "int list"
  max_drain_time :: int
  min_drain_time :: int
  neighbor_states :: "power_state list"
  downstream_states :: "power_state list"
  logical_neighbors :: "int list"
  outstanding_requests :: int
  drain_done_sent :: "bool list"
  drain_tags :: "bool list"
  router_state :: bool
  req_hids :: "int list"
  resp_hids :: "int list"

record iq_router = router +
  vcs :: nat
  output_speedup :: nat
  in_queue_flits :: "flit omap"
  proc_credits :: "(int \<times> credit \<times> nat) list"
  route_vcs :: "(int \<times> nat \<times> nat) list"
  vc_alloc_vcs :: "(int \<times> (nat \<times> nat) \<times> int) list"
  sw_hold_vcs :: "(int \<times> (nat \<times> nat) \<times> int) list"
  sw_alloc_vcs :: "(int \<times> (nat \<times> nat) \<times> int) list"
  crossbar_flits :: "(int \<times> flit \<times> nat \<times> nat) list"
  out_queue_credits :: "credit omap"
  buf :: "buffer list"
  next_buf :: "buffer_state list"
  output_buffer :: "flit list list"
  credit_buffer :: "credit list list"
  r_active :: bool
  classes :: nat
  crossbar_delay :: int
  credit_delay :: int
  input_speedup :: nat
  vc_busy_when_full :: bool
  vc_prioritize_empty :: bool
  vc_shuffle_requests :: bool
  speculative :: bool
  spec_check_elig :: bool
  spec_check_cred :: bool
  spec_mask_by_reqs :: bool
  routing_delay :: int
  vc_alloc_delay :: int
  sw_alloc_delay :: int
  vc_rr_offset :: "int list"
  sw_rr_offset :: "int list"
  output_buffer_size :: int
  hold_switch_for_packet :: bool
  switch_hold_in :: "int list"
  switch_hold_out :: "int list"
  switch_hold_vc :: "int list"
  noq :: bool
  noq_next_output_port :: "int list list"
  noq_next_vc_start :: "int list list"
  noq_next_vc_end :: "int list list"

record flov_router = iq_router +
  proc_handshakes :: "(nat \<times> handshake) list"
  out_queue_handshakes :: "handshake omap"
  credit_counter :: "int list list"
  handshake_buffer :: "handshake list list"
  flov_policy :: flov_policy

subsection \<open>Construction\<close>

text \<open>The per-port vectors of \<open>Router::Router\<close>: a port at the edge of the mesh is recorded as a
  neighbour that is switched off.\<close>

definition init_states :: "nat \<Rightarrow> nat \<Rightarrow> power_state list" where
  "init_states gK i = map (\<lambda>out. if at_edge gK i out then power_off else power_on) [0..<4]"

definition init_logical_neighbors :: "nat \<Rightarrow> nat \<Rightarrow> int list" where
  "init_logical_neighbors gK i =
     map (\<lambda>out. if at_edge gK i out then -1
                else [int i + 1, int i - 1, int i + int gK, int i - int gK] ! out) [0..<4]"

text \<open>A router whose pipeline options have the defaults of booksim_config.cpp; the other values of
  those options are set by \<open>configure\<close> (theory Pipeline).\<close>

definition FLOVRouter_init ::
  "nat \<Rightarrow> nat \<Rightarrow> nat \<Rightarrow> nat \<Rightarrow> int \<times> int \<times> int \<times> int \<Rightarrow> nat \<Rightarrow> nat
     \<Rightarrow> buffer \<Rightarrow> buffer_state \<Rightarrow> flov_router" where
  "FLOVRouter_init gK i ins outs th num_vcs ospeed b bs =
     (case th of (idle_th, drain_th, bet_th, wakeup_th) \<Rightarrow>
     \<lparr>rid = i, inputs = ins, outputs = outs, power_state = power_on,
      power_off_cycles = 0, total_power_off_cycles = 0,
      idle_threshold = idle_th, drain_threshold = drain_th,
      bet_threshold = bet_th, wakeup_threshold = wakeup_th,
      idle_timer = 0, drain_timer = 0, off_timer = 0, wakeup_timer = 0,
      wakeup_signal = False, off_counter = 0, drain_counter = 0, drain_timeout_counter = 0,
      drain_time_q = [], max_drain_time = 0, min_drain_time = -1,
      neighbor_states = init_states gK i, downstream_states = init_states gK i,
      logical_neighbors = init_logical_neighbors gK i, outstanding_requests = 0,
      drain_done_sent = replicate 4 False, drain_tags = replicate 4 False,
      router_state = True, req_hids = replicate 4 (-1), resp_hids = replicate 4 (-1),
      vcs = num_vcs, output_speedup = ospeed, in_queue_flits = [], proc_credits = [],
      route_vcs = [], vc_alloc_vcs = [], sw_hold_vcs = [], sw_alloc_vcs = [],
      crossbar_flits = [], out_queue_credits = [], buf = replicate ins b,
      next_buf = replicate outs bs, output_buffer = replicate outs [],
      credit_buffer = replicate ins [], r_active = False,
      classes = 1, crossbar_delay = 1, credit_delay = 0, input_speedup = 1,
      vc_busy_when_full = False, vc_prioritize_empty = False, vc_shuffle_requests = False,
      speculative = False, spec_check_elig = True, spec_check_cred = True,
      spec_mask_by_reqs = False, routing_delay = 1, vc_alloc_delay = 1, sw_alloc_delay = 1,
      vc_rr_offset = [], sw_rr_offset = replicate ins 0, output_buffer_size = -1,
      hold_switch_for_packet = False, switch_hold_in = replicate ins (-1),
      switch_hold_out = replicate (outs * ospeed) (-1), switch_hold_vc = replicate ins (-1),
      noq = False, noq_next_output_port = replicate ins (replicate num_vcs (-1)),
      noq_next_vc_start = replicate ins (replicate num_vcs (-1)),
      noq_next_vc_end = replicate ins (replicate num_vcs (-1)),
      proc_handshakes = [], out_queue_handshakes = [],
      credit_counter = replicate outs (replicate num_vcs 0),
      handshake_buffer = replicate 4 [], flov_policy = gflov\<rparr>)"

definition IdleDetected :: "'a router_scheme \<Rightarrow> 'a router_scheme" where
  "IdleDetected r =
     (case power_state r of
        power_on \<Rightarrow> r\<lparr>idle_timer := idle_timer r + 1\<rparr>
      | draining \<Rightarrow> r\<lparr>drain_timer := drain_timer r + 1\<rparr>
      | wakeup \<Rightarrow> r\<lparr>drain_timer := drain_timer r + 1\<rparr>
      | power_off \<Rightarrow> r\<lparr>off_timer := off_timer r + 1\<rparr>)"

definition WakeUp :: "'a router_scheme \<Rightarrow> 'a router_scheme" where
  "WakeUp r = r\<lparr>wakeup_signal := True\<rparr>"

definition SetRouterState :: "bool \<Rightarrow> 'a router_scheme \<Rightarrow> 'a router_scheme" where
  "SetRouterState b r = r\<lparr>router_state := b\<rparr>"

definition SetDrainTag :: "nat \<Rightarrow> 'a router_scheme \<Rightarrow> 'a router_scheme" where
  "SetDrainTag input r = r\<lparr>drain_tags := (drain_tags r)[input := True]\<rparr>"

definition SetNeighborPowerState ::
  "nat \<Rightarrow> power_state \<Rightarrow> 'a router_scheme \<Rightarrow> 'a router_scheme" where
  "SetNeighborPowerState output s r = r\<lparr>neighbor_states := (neighbor_states r)[output := s]\<rparr>"

definition SetLogicalNeighbor :: "nat \<Rightarrow> int \<Rightarrow> 'a router_scheme \<Rightarrow> 'a router_scheme" where
  "SetLogicalNeighbor out_port i r = r\<lparr>logical_neighbors := (logical_neighbors r)[out_port := i]\<rparr>"

subsection \<open>Shape\<close>

text \<open>The vectors of \<open>Router\<close> that have one entry per direction.\<close>

definition ports_wf :: "'a router_scheme \<Rightarrow> bool" where
  "ports_wf r \<longleftrightarrow>
     length (neighbor_states r) = 4 \<and> length (downstream_states r) = 4 \<and>
     length (logical_neighbors r) = 4 \<and> length (drain_done_sent r) = 4 \<and>
     length (drain_tags r) = 4 \<and> length (req_hids r) = 4 \<and> length (resp_hids r) = 4"

lemma FLOVRouter_init_ports_wf: "ports_wf (FLOVRouter_init gK i ins outs th v sp b bs)"
  by (cases th) (simp add: ports_wf_def FLOVRouter_init_def init_states_def
      init_logical_neighbors_def)

end
