(* ===== verification/Power_FSM.thy ===== *)
theory Power_FSM
  imports Routers
begin

text \<open>
  The power-gating state machine of a FLOV router: \<open>PowerStateEvaluate\<close> and the policy changes
  of src/booksim2/src/routers/flov_router.cpp.  Each arm of each \<open>switch\<close> is a definition;
  \<open>None\<close> is a failed assertion.  A handshake is put in \<open>_out_queue_handshakes\<close> by
  \<open>queue_handshake\<close> (\<open>insert(make_pair(out, Handshake::New()))\<close> followed by assignments to its
  fields); \<open>announce\<close> is the loop, repeated in every transition, that queues one for each
  port that has a link.  Printing under \<open>_watch_power_gating\<close> is left out.
\<close>

subsection \<open>Shared pieces of the arms\<close>

definition queue_handshake ::
  "nat \<Rightarrow> (handshake \<Rightarrow> handshake) \<Rightarrow> flov_router \<Rightarrow> flov_router" where
  "queue_handshake out upd r =
     (let m = om_insert out Handshake_New (out_queue_handshakes r)
      in r\<lparr>out_queue_handshakes := om_put out (upd (the (map_of m out))) m\<rparr>)"

definition announce_port ::
  "nat \<Rightarrow> (nat \<Rightarrow> handshake \<Rightarrow> handshake) \<Rightarrow> nat \<Rightarrow> flov_router \<Rightarrow> flov_router" where
  "announce_port gK ns out r =
     (if at_edge gK (rid r) out then r
      else let r' = r\<lparr>req_hids := (req_hids r)[out := req_hids r ! out + 1]\<rparr>
           in queue_handshake out
                (\<lambda>h. (ns out h)\<lparr>src_state := Some (power_state r'), hs_id := int (rid r'),
                                 hid := req_hids r' ! out\<rparr>) r')"

definition announce ::
  "nat \<Rightarrow> (nat \<Rightarrow> handshake \<Rightarrow> handshake) \<Rightarrow> flov_router \<Rightarrow> flov_router" where
  "announce gK ns r = fold (announce_port gK ns) [0..<4] r"

definition to_state :: "power_state \<Rightarrow> nat \<Rightarrow> handshake \<Rightarrow> handshake" where
  "to_state s out h = h\<lparr>new_state := Some s\<rparr>"

definition clear_drain_tags :: "flov_router \<Rightarrow> flov_router" where
  "clear_drain_tags r = r\<lparr>drain_tags := replicate 4 False\<rparr>"

text \<open>The same loop where the router starts to wait for drain tags: a port without a link, or
  whose downstream router is off, needs no tag.\<close>

definition request_drain_port ::
  "nat \<Rightarrow> power_state \<Rightarrow> nat \<Rightarrow> flov_router \<Rightarrow> flov_router" where
  "request_drain_port gK s out r =
     (if at_edge gK (rid r) out then r\<lparr>drain_tags := (drain_tags r)[out := True]\<rparr>
      else announce_port gK (to_state s) out
        (if downstream_states r ! out = power_off
         then r\<lparr>drain_tags := (drain_tags r)[out := True]\<rparr> else r))"

definition request_drain :: "nat \<Rightarrow> power_state \<Rightarrow> flov_router \<Rightarrow> flov_router" where
  "request_drain gK s r = fold (request_drain_port gK s) [0..<4] r"

definition all_drain_tags :: "flov_router \<Rightarrow> bool" where
  "all_drain_tags r \<longleftrightarrow>
     drain_tags r ! 0 \<and> drain_tags r ! 1 \<and> drain_tags r ! 2 \<and> drain_tags r ! 3"

definition buffers_idle :: "flov_router \<Rightarrow> bool" where
  "buffers_idle r \<longleftrightarrow>
     list_all (\<lambda>i. list_all (\<lambda>vc. GetState vc (buf r ! i) = idle) [0..<vcs r]) [0..<inputs r]"

definition drain_complete :: "flov_router \<Rightarrow> bool" where
  "drain_complete r \<longleftrightarrow>
     all_drain_tags r \<and> in_queue_flits r = [] \<and> crossbar_flits r = [] \<and>
     buffers_idle r \<and> list_all (\<lambda>i. output_buffer r ! i = []) [0..<inputs r]"

definition record_drain_time :: "flov_router \<Rightarrow> flov_router" where
  "record_drain_time r = r\<lparr>drain_time_q := drain_time_q r @ [drain_timer r],
     max_drain_time := (if max_drain_time r < drain_timer r then drain_timer r
                        else max_drain_time r),
     min_drain_time := (if min_drain_time r > drain_timer r \<or> min_drain_time r = -1
                        then drain_timer r else min_drain_time r),
     drain_timer := 0\<rparr>"

text \<open>Before it sleeps a router copies the credits it has for each downstream VC, to hand them to
  the upstream routers (\<open>_FlovStep\<close>); \<open>now\<close> is \<open>GetSimTime()\<close>.\<close>

definition save_credits_vc ::
  "int \<Rightarrow> nat \<Rightarrow> nat \<Rightarrow> flov_router \<Rightarrow> flov_router option" where
  "save_credits_vc now i vc r =
     (case AvailableFor now vc (next_buf r ! i) of
        None \<Rightarrow> None
      | Some n \<Rightarrow> if n \<ge> 0
          then Some (r\<lparr>credit_counter := (credit_counter r)[i := (credit_counter r ! i)[vc := n]]\<rparr>)
          else None)"

definition save_credits :: "nat \<Rightarrow> int \<Rightarrow> flov_router \<Rightarrow> flov_router option" where
  "save_credits gK now r =
     foldM (\<lambda>i r. if at_far_edge gK (rid r) i then Some r
                  else foldM (save_credits_vc now i) [0..<vcs r] r) [0..<4] r"

text \<open>Checks every arm starts from.\<close>

definition entry_checks :: "nat \<Rightarrow> nat \<Rightarrow> flov_router \<Rightarrow> bool" where
  "entry_checks gK gNodes r \<longleftrightarrow>
     (outstanding_requests r \<noteq> 0 \<longrightarrow> power_state r = power_on) \<and>
     (rid r \<ge> gNodes - gK \<longrightarrow> power_state r = power_on)"

text \<open>\<open>draining \<rightarrow> power_on\<close>: the tags are dropped and every neighbour is told.\<close>

definition abort_drain :: "nat \<Rightarrow> flov_router \<Rightarrow> flov_router option" where
  "abort_drain gK r =
     (let r1 = (clear_drain_tags (r\<lparr>power_state := power_on\<rparr>))\<lparr>idle_timer := 0\<rparr>
      in do { assertion (out_queue_handshakes r1 = []);
              Some (announce gK (to_state power_on) r1) })"

text \<open>\<open>power_on \<rightarrow> draining\<close>.\<close>

definition start_drain :: "nat \<Rightarrow> flov_router \<Rightarrow> flov_router option" where
  "start_drain gK r =
     (let r1 = clear_drain_tags (r\<lparr>power_state := draining, idle_timer := 0, drain_timer := 0,
                                  drain_counter := drain_counter r + 1\<rparr>)
      in do { assertion (out_queue_handshakes r1 = []);
              Some (request_drain gK draining r1) })"

text \<open>\<open>draining \<rightarrow> power_off\<close>: each neighbour is told the state and identity of the router it will
  see through this one.\<close>

definition see_through :: "flov_router \<Rightarrow> nat \<Rightarrow> handshake \<Rightarrow> handshake" where
  "see_through r out h = h\<lparr>new_state := Some (downstream_states r ! opp out),
     logical_neighbor := logical_neighbors r ! opp out\<rparr>"

definition power_down :: "nat \<Rightarrow> int \<Rightarrow> flov_router \<Rightarrow> flov_router option" where
  "power_down gK now r = do {
     r1 \<leftarrow> save_credits gK now r;
     (let r2 = (clear_drain_tags (r1\<lparr>power_state := power_off\<rparr>))\<lparr>off_timer := 0\<rparr>
      in do { assertion (out_queue_handshakes r2 = []);
              Some (record_drain_time (announce gK (see_through r2) r2)) })
   }"

text \<open>\<open>power_off \<rightarrow> wakeup\<close>.\<close>

definition start_wakeup :: "nat \<Rightarrow> flov_router \<Rightarrow> flov_router" where
  "start_wakeup gK r =
     request_drain gK wakeup
       (clear_drain_tags (r\<lparr>power_state := wakeup, wakeup_timer := 0, off_timer := 0,
                            off_counter := off_counter r + 1\<rparr>))"

text \<open>\<open>wakeup \<rightarrow> power_on\<close>: the router is its neighbours' logical neighbour again.\<close>

definition back_to_self :: "flov_router \<Rightarrow> nat \<Rightarrow> handshake \<Rightarrow> handshake" where
  "back_to_self r out h = h\<lparr>new_state := Some power_on, logical_neighbor := int (rid r)\<rparr>"

definition finish_wakeup :: "nat \<Rightarrow> flov_router \<Rightarrow> flov_router" where
  "finish_wakeup gK r =
     (let r1 = clear_drain_tags (r\<lparr>wakeup_signal := False, wakeup_timer := 0, idle_timer := 0,
                                  power_state := power_on\<rparr>)
      in announce gK (back_to_self r1) r1)"

definition wakeup_arm :: "nat \<Rightarrow> flov_router \<Rightarrow> flov_router option" where
  "wakeup_arm gK r = do {
     assertion (buffers_idle r);
     (let r1 = r\<lparr>wakeup_timer := wakeup_timer r + 1\<rparr>
      in Some (if all_drain_tags r \<and> in_queue_flits r = [] \<and>
                  wakeup_timer r1 \<ge> wakeup_threshold r1 \<and> out_queue_handshakes r1 = []
               then finish_wakeup gK r1 else r1))
   }"

subsection \<open>G-FLOV\<close>

definition gflov_power_on :: "nat \<Rightarrow> flov_router \<Rightarrow> flov_router option" where
  "gflov_power_on gK r0 =
     (let r = (if outstanding_requests r0 \<noteq> 0 then r0\<lparr>idle_timer := 0\<rparr> else r0) in
      if wakeup_signal r then Some (r\<lparr>wakeup_signal := False, idle_timer := 0\<rparr>)
      else if \<not> router_state r then
        (if outstanding_requests r \<noteq> 0 then None
         else if list_ex (\<lambda>out. downstream_states r ! out = draining \<or>
                               downstream_states r ! out = wakeup) [0..<4]
         then Some (r\<lparr>idle_timer := idle_timer r - 1\<rparr>)
         else start_drain gK r)
      else Some r)"

definition gflov_draining :: "nat \<Rightarrow> int \<Rightarrow> flov_router \<Rightarrow> flov_router option" where
  "gflov_draining gK now r0 =
     (if outstanding_requests r0 \<noteq> 0 then None else
      let r = r0\<lparr>drain_timer := drain_timer r0 + 1\<rparr>;
          neighbor_wakeup = list_ex (\<lambda>out. downstream_states r ! out = wakeup) [0..<4];
          neighbor_draining = list_ex (\<lambda>out. downstream_states r ! out = draining \<and>
            (out = DIR_WEST \<or> out = DIR_NORTH)) [0..<4]
      in if wakeup_signal r \<or> neighbor_draining \<or> neighbor_wakeup
         then map_option (\<lambda>r. r\<lparr>wakeup_signal := False\<rparr>) (abort_drain gK (r\<lparr>drain_timer := 0\<rparr>))
         else if drain_complete r then power_down gK now r
         else if drain_timer r > drain_threshold r
         then map_option (\<lambda>r. record_drain_time
                (r\<lparr>drain_timeout_counter := drain_timeout_counter r + 1\<rparr>)) (abort_drain gK r)
         else Some r)"

definition gflov_power_off :: "flov_router \<Rightarrow> flov_router option" where
  "gflov_power_off r = do {
     assertion (buffers_idle r);
     Some (r\<lparr>power_off_cycles := power_off_cycles r + 1,
             total_power_off_cycles := total_power_off_cycles r + 1\<rparr>)
   }"

definition GFLOVPowerStateEvaluate ::
  "nat \<Rightarrow> nat \<Rightarrow> int \<Rightarrow> flov_router \<Rightarrow> flov_router option" where
  "GFLOVPowerStateEvaluate gK gNodes now r = do {
     assertion (entry_checks gK gNodes r);
     (case power_state r of
        power_on \<Rightarrow> gflov_power_on gK r
      | draining \<Rightarrow> gflov_draining gK now r
      | power_off \<Rightarrow> gflov_power_off r
      | wakeup \<Rightarrow> wakeup_arm gK r)
   }"

subsection \<open>R-FLOV\<close>

text \<open>R-FLOV looks at the physical neighbours, over the ports that have a link.\<close>

definition neighbor_in :: "nat \<Rightarrow> flov_router \<Rightarrow> power_state list \<Rightarrow> nat list \<Rightarrow> bool" where
  "neighbor_in gK r ss outs \<longleftrightarrow>
     list_ex (\<lambda>out. \<not> at_edge gK (rid r) out \<and> neighbor_states r ! out \<in> set ss) outs"

definition rflov_power_on :: "nat \<Rightarrow> flov_router \<Rightarrow> flov_router option" where
  "rflov_power_on gK r0 =
     (let r = (if outstanding_requests r0 \<noteq> 0 then r0\<lparr>idle_timer := 0\<rparr> else r0) in
      if wakeup_signal r then Some (r\<lparr>wakeup_signal := False, idle_timer := 0\<rparr>)
      else if \<not> router_state r then
        (if outstanding_requests r \<noteq> 0 then None
         else if neighbor_in gK r [draining, wakeup, power_off] [0..<4]
         then Some (r\<lparr>idle_timer := idle_timer r - 1\<rparr>)
         else start_drain gK r)
      else Some r)"

definition rflov_draining :: "nat \<Rightarrow> int \<Rightarrow> flov_router \<Rightarrow> flov_router option" where
  "rflov_draining gK now r0 =
     (if outstanding_requests r0 \<noteq> 0 then None else
      let r = r0\<lparr>drain_timer := drain_timer r0 + 1\<rparr>;
          neighbor_draining = neighbor_in gK r [draining] [DIR_WEST, DIR_NORTH];
          neighbor_wakeup = neighbor_in gK r [wakeup] [0..<4];
          neighbor_off = neighbor_in gK r [power_off] [0..<4]
      in if wakeup_signal r \<or> neighbor_draining \<or> neighbor_wakeup \<or> neighbor_off
         then abort_drain gK (r\<lparr>wakeup_signal := False, drain_timer := 0\<rparr>)
         else if drain_complete r then power_down gK now r
         else if drain_timer r > drain_threshold r
         then map_option (\<lambda>r. record_drain_time
                (r\<lparr>drain_timeout_counter := drain_timeout_counter r + 1\<rparr>)) (abort_drain gK r)
         else Some r)"

text \<open>The loop that sets \<open>neighbor_wakeup\<close> and \<open>neighbor_draining\<close> stops at the first hit; only
  whether there is one matters.\<close>

definition rflov_power_off :: "nat \<Rightarrow> flov_router \<Rightarrow> flov_router option" where
  "rflov_power_off gK r0 = do {
     assertion (buffers_idle r0);
     (let r = r0\<lparr>power_off_cycles := power_off_cycles r0 + 1,
                 total_power_off_cycles := total_power_off_cycles r0 + 1\<rparr>
      in Some (if router_state r \<or> wakeup_signal r then
           (let r1 = r\<lparr>off_timer := off_timer r + 1\<rparr>;
                busy = list_ex (\<lambda>out. \<not> at_edge gK (rid r1) out \<and>
                  (downstream_states r1 ! out = wakeup \<or> downstream_states r1 ! out = draining))
                  [0..<4]
            in if off_timer r1 \<ge> bet_threshold r1 \<and> out_queue_handshakes r1 = [] \<and> \<not> busy
               then start_wakeup gK r1 else r1)
         else r))
   }"

definition rflov_wakeup :: "nat \<Rightarrow> flov_router \<Rightarrow> flov_router option" where
  "rflov_wakeup gK r = do {
     assertion (buffers_idle r);
     wakeup_arm gK
       (r\<lparr>drain_tags := map (\<lambda>out. downstream_states r ! out = power_off \<or> drain_tags r ! out)
                          [0..<4]\<rparr>)
   }"

definition RFLOVPowerStateEvaluate ::
  "nat \<Rightarrow> nat \<Rightarrow> int \<Rightarrow> flov_router \<Rightarrow> flov_router option" where
  "RFLOVPowerStateEvaluate gK gNodes now r = do {
     assertion (entry_checks gK gNodes r);
     (case power_state r of
        power_on \<Rightarrow> rflov_power_on gK r
      | draining \<Rightarrow> rflov_draining gK now r
      | power_off \<Rightarrow> rflov_power_off gK r
      | wakeup \<Rightarrow> rflov_wakeup gK r)
   }"

subsection \<open>No-FLOV\<close>

definition noflov_power_on :: "flov_router \<Rightarrow> flov_router option" where
  "noflov_power_on r0 =
     (let r = (if outstanding_requests r0 \<noteq> 0 then r0\<lparr>idle_timer := 0\<rparr> else r0) in
      Some (if wakeup_signal r then r\<lparr>wakeup_signal := False, idle_timer := 0\<rparr> else r))"

definition noflov_draining :: "nat \<Rightarrow> flov_router \<Rightarrow> flov_router option" where
  "noflov_draining gK r =
     (if outstanding_requests r \<noteq> 0 then None
      else abort_drain gK (r\<lparr>wakeup_signal := False, drain_timer := 0\<rparr>))"

definition noflov_power_off :: "nat \<Rightarrow> flov_router \<Rightarrow> flov_router option" where
  "noflov_power_off gK r0 = do {
     assertion (buffers_idle r0);
     (let r = r0\<lparr>power_off_cycles := power_off_cycles r0 + 1,
                 total_power_off_cycles := total_power_off_cycles r0 + 1,
                 off_timer := off_timer r0 + 1\<rparr>;
          busy = list_ex (\<lambda>out. downstream_states r ! out = wakeup \<or>
                               downstream_states r ! out = draining) [0..<4]
      in Some (if off_timer r \<ge> bet_threshold r \<and> out_queue_handshakes r = [] \<and> \<not> busy
               then start_wakeup gK (r\<lparr>wakeup_signal := False\<rparr>) else r))
   }"

definition NoFLOVPowerStateEvaluate ::
  "nat \<Rightarrow> nat \<Rightarrow> flov_router \<Rightarrow> flov_router option" where
  "NoFLOVPowerStateEvaluate gK gNodes r = do {
     assertion (entry_checks gK gNodes r);
     (case power_state r of
        power_on \<Rightarrow> noflov_power_on r
      | draining \<Rightarrow> noflov_draining gK r
      | power_off \<Rightarrow> noflov_power_off gK r
      | wakeup \<Rightarrow> wakeup_arm gK r)
   }"

subsection \<open>Policies\<close>

definition PowerStateEvaluate ::
  "nat \<Rightarrow> nat \<Rightarrow> int \<Rightarrow> flov_router \<Rightarrow> flov_router option" where
  "PowerStateEvaluate gK gNodes now r =
     (case flov_policy r of
        gflov \<Rightarrow> GFLOVPowerStateEvaluate gK gNodes now r
      | rflov \<Rightarrow> RFLOVPowerStateEvaluate gK gNodes now r
      | noflov \<Rightarrow> NoFLOVPowerStateEvaluate gK gNodes r)"

definition AggressFLOVPolicy :: "flov_router \<Rightarrow> flov_router" where
  "AggressFLOVPolicy r =
     (if flov_policy r = noflov then r\<lparr>flov_policy := rflov\<rparr>
      else if flov_policy r = rflov then r\<lparr>flov_policy := gflov\<rparr>
      else r)"

definition RegressFLOVPolicy :: "nat \<Rightarrow> flov_router \<Rightarrow> flov_router" where
  "RegressFLOVPolicy gK r =
     (if flov_policy r = gflov then
        (let r1 = r\<lparr>flov_policy := rflov\<rparr>
         in if power_state r1 = power_off \<and> neighbor_in gK r1 [power_off] [0..<4]
            then r1\<lparr>wakeup_signal := True\<rparr> else r1)
      else if flov_policy r = rflov then
        (let r1 = r\<lparr>flov_policy := noflov\<rparr>
         in if power_state r1 = power_off then r1\<lparr>wakeup_signal := True\<rparr> else r1)
      else r)"

end
