(* ===== verification/Power_Safety.thy ===== *)
theory Power_Safety
  imports Power_FSM
begin

text \<open>
  Correctness of the power state machine.  First what a round of \<open>announce\<close> does, then the
  contract each of the three policies keeps (locale \<open>power_policy\<close>, interpreted for
  G-FLOV, R-FLOV, No-FLOV and their dispatch), then what the contract gives for whole runs
  in which anything else the simulator does happens between two evaluations.
\<close>

subsection \<open>Queueing handshakes\<close>

lemma queue_handshake_frame:
  "queue_handshake out upd r =
     r\<lparr>out_queue_handshakes := out_queue_handshakes (queue_handshake out upd r)\<rparr>"
  by (simp add: queue_handshake_def Let_def)

lemma queue_handshake_lookup:
  assumes "om_sorted (out_queue_handshakes r)"
  shows "map_of (out_queue_handshakes (queue_handshake out upd r)) =
    (map_of (out_queue_handshakes r))
      (out \<mapsto> upd (case map_of (out_queue_handshakes r) out of None \<Rightarrow> Handshake_New | Some h \<Rightarrow> h))"
  using assms
  by (auto simp: queue_handshake_def Let_def om_put_lookup om_insert_sorted om_insert_lookup
      om_count_def fun_eq_iff split: option.splits)

lemma queue_handshake_sorted:
  "om_sorted (out_queue_handshakes r) \<Longrightarrow> om_sorted (out_queue_handshakes (queue_handshake out upd r))"
  by (simp add: queue_handshake_def Let_def om_put_sorted om_insert_sorted)

text \<open>\<open>announce\<close> writes the queue and the handshake ids, nothing else.\<close>

definition only_queue :: "flov_router \<Rightarrow> flov_router \<Rightarrow> bool" where
  "only_queue r r' \<longleftrightarrow>
     r' = r\<lparr>req_hids := req_hids r', out_queue_handshakes := out_queue_handshakes r'\<rparr>"

lemma only_queue_refl [simp]: "only_queue r r"
  by (simp add: only_queue_def)

lemma only_queue_trans:
  assumes "only_queue r s" and "only_queue s t"
  shows "only_queue r t"
proof -
  have s: "s = r\<lparr>req_hids := req_hids s, out_queue_handshakes := out_queue_handshakes s\<rparr>"
    and t: "t = s\<lparr>req_hids := req_hids t, out_queue_handshakes := out_queue_handshakes t\<rparr>"
    using assms by (simp_all only: only_queue_def)
  have "t = (r\<lparr>req_hids := req_hids s, out_queue_handshakes := out_queue_handshakes s\<rparr>)
      \<lparr>req_hids := req_hids t, out_queue_handshakes := out_queue_handshakes t\<rparr>"
    using s t by simp
  then show ?thesis by (simp add: only_queue_def)
qed

lemma announce_port_only_queue: "only_queue r (announce_port gK ns out r)"
  by (simp add: only_queue_def announce_port_def queue_handshake_def Let_def)

lemma announce_fold_only_queue: "only_queue r (fold (announce_port gK ns) outs r)"
proof (induction outs arbitrary: r)
  case (Cons out outs)
  show ?case using only_queue_trans [OF announce_port_only_queue Cons] by simp
qed simp

lemma announce_only_queue: "only_queue r (announce gK ns r)"
  by (simp add: announce_def announce_fold_only_queue)

lemma only_queue_fields:
  assumes "only_queue r r'"
  shows "rid r' = rid r" "power_state r' = power_state r" "drain_timer r' = drain_timer r"
    "wakeup_timer r' = wakeup_timer r" "off_timer r' = off_timer r" "idle_timer r' = idle_timer r"
    "drain_threshold r' = drain_threshold r" "flov_policy r' = flov_policy r"
    "wakeup_signal r' = wakeup_signal r" "drain_tags r' = drain_tags r"
    "downstream_states r' = downstream_states r" "neighbor_states r' = neighbor_states r"
    "logical_neighbors r' = logical_neighbors r" "resp_hids r' = resp_hids r"
    "drain_done_sent r' = drain_done_sent r" "drain_time_q r' = drain_time_q r"
    "max_drain_time r' = max_drain_time r" "min_drain_time r' = min_drain_time r"
    "credit_counter r' = credit_counter r" "next_buf r' = next_buf r" "buf r' = buf r"
    "vcs r' = vcs r" "inputs r' = inputs r" "wakeup_threshold r' = wakeup_threshold r"
    "bet_threshold r' = bet_threshold r" "router_state r' = router_state r"
    "outstanding_requests r' = outstanding_requests r"
  by (subst (1) assms [unfolded only_queue_def], simp)+

lemmas announce_fields [simp] = only_queue_fields [OF announce_only_queue]

text \<open>What one \<open>announce_port\<close> adds, and the loop over distinct ports.\<close>

lemma announce_fold_lookup:
  assumes "distinct outs" and "\<forall>o' \<in> set outs. o' < length (req_hids r)"
    and "om_sorted (out_queue_handshakes r)"
    and "\<forall>o' \<in> set outs. map_of (out_queue_handshakes r) o' = None"
  shows "om_sorted (out_queue_handshakes (fold (announce_port gK ns) outs r)) \<and>
    length (req_hids (fold (announce_port gK ns) outs r)) = length (req_hids r) \<and>
    (\<forall>out. map_of (out_queue_handshakes (fold (announce_port gK ns) outs r)) out =
       (if out \<in> set outs \<and> \<not> at_edge gK (rid r) out
        then Some ((ns out Handshake_New)\<lparr>src_state := Some (power_state r),
               hs_id := int (rid r), hid := req_hids r ! out + 1\<rparr>)
        else map_of (out_queue_handshakes r) out)) \<and>
    (\<forall>out < length (req_hids r). req_hids (fold (announce_port gK ns) outs r) ! out =
       (if out \<in> set outs \<and> \<not> at_edge gK (rid r) out
        then req_hids r ! out + 1 else req_hids r ! out))"
  using assms
proof (induction outs arbitrary: r)
  case Nil
  then show ?case by simp
next
  case (Cons p outs)
  show ?case
  proof (cases "at_edge gK (rid r) p")
    case True
    then have "announce_port gK ns p r = r" by (simp add: announce_port_def)
    with True Cons.IH [of r] Cons.prems show ?thesis by auto
  next
    case False
    let ?r = "announce_port gK ns p r"
    have oq: "only_queue r ?r" by (rule announce_port_only_queue)
    have hids: "req_hids ?r = (req_hids r)[p := req_hids r ! p + 1]"
      using False
      by (simp add: announce_port_def Let_def queue_handshake_def)
    have look: "map_of (out_queue_handshakes ?r) = (map_of (out_queue_handshakes r))
        (p \<mapsto> (ns p Handshake_New)\<lparr>src_state := Some (power_state r), hs_id := int (rid r),
               hid := req_hids r ! p + 1\<rparr>)"
      using False Cons.prems
      by (simp add: announce_port_def Let_def queue_handshake_lookup)
    have sorted: "om_sorted (out_queue_handshakes ?r)"
      using False Cons.prems(3) by (simp add: announce_port_def Let_def queue_handshake_sorted)
    have "om_sorted (out_queue_handshakes (fold (announce_port gK ns) outs ?r)) \<and>
      length (req_hids (fold (announce_port gK ns) outs ?r)) = length (req_hids ?r) \<and>
      (\<forall>out. map_of (out_queue_handshakes (fold (announce_port gK ns) outs ?r)) out =
         (if out \<in> set outs \<and> \<not> at_edge gK (rid ?r) out
          then Some ((ns out Handshake_New)\<lparr>src_state := Some (power_state ?r),
                 hs_id := int (rid ?r), hid := req_hids ?r ! out + 1\<rparr>)
          else map_of (out_queue_handshakes ?r) out)) \<and>
      (\<forall>out < length (req_hids ?r). req_hids (fold (announce_port gK ns) outs ?r) ! out =
         (if out \<in> set outs \<and> \<not> at_edge gK (rid ?r) out
          then req_hids ?r ! out + 1 else req_hids ?r ! out))"
      by (rule Cons.IH) (use Cons.prems sorted look in \<open>auto simp: hids\<close>)
    with False Cons.prems(1,2) show ?thesis
      by (auto simp: hids look only_queue_fields(1,2) [OF oq] nth_list_update)
  qed
qed

text \<open>The message a neighbour gets, and what must be queued when the state has changed.\<close>

definition announced :: "nat \<Rightarrow> (nat \<Rightarrow> handshake \<Rightarrow> handshake) \<Rightarrow> flov_router \<Rightarrow> flov_router \<Rightarrow> bool" where
  "announced gK ns r r' \<longleftrightarrow>
     (\<forall>out. map_of (out_queue_handshakes r') out =
        (if out < 4 \<and> \<not> at_edge gK (rid r) out
         then Some ((ns out Handshake_New)\<lparr>src_state := Some (power_state r'),
                hs_id := int (rid r), hid := req_hids r ! out + 1\<rparr>)
         else None)) \<and>
     (\<forall>out < 4. req_hids r' ! out =
        (if at_edge gK (rid r) out then req_hids r ! out else req_hids r ! out + 1))"

lemma announce_announced:
  assumes "length (req_hids r) = 4" and "out_queue_handshakes r = []"
  shows "announced gK ns r (announce gK ns r)"
proof -
  have "distinct [0..<4]" "\<forall>o' \<in> set [0..<4]. o' < length (req_hids r)"
    "om_sorted (out_queue_handshakes r)"
    "\<forall>o' \<in> set [0..<4]. map_of (out_queue_handshakes r) o' = None"
    by (auto simp: assms)
  from announce_fold_lookup [OF this, of gK ns] show ?thesis
    by (auto simp: announced_def announce_def [symmetric] assms)
qed

text \<open>\<open>request_drain\<close> is \<open>announce\<close> plus the drain tags.\<close>

lemma announce_port_tags:
  "announce_port gK ns out (r\<lparr>drain_tags := t\<rparr>) = (announce_port gK ns out r)\<lparr>drain_tags := t\<rparr>"
  by (simp add: announce_port_def queue_handshake_def Let_def)

lemma request_drain_fold:
  "fold (request_drain_port gK s) outs r =
     (fold (announce_port gK (to_state s)) outs r)
       \<lparr>drain_tags := fold (\<lambda>out t. if at_edge gK (rid r) out \<or> downstream_states r ! out = power_off
          then t[out := True] else t) outs (drain_tags r)\<rparr>"
proof (induction outs arbitrary: r)
  case (Cons p outs)
  have oq: "only_queue r (announce_port gK (to_state s) p r)" by (rule announce_port_only_queue)
  let ?t = "if at_edge gK (rid r) p \<or> downstream_states r ! p = power_off
    then (drain_tags r)[p := True] else drain_tags r"
  have step: "request_drain_port gK s p r = (announce_port gK (to_state s) p r)\<lparr>drain_tags := ?t\<rparr>"
  proof -
    have "drain_tags (announce_port gK (to_state s) p r) = drain_tags r"
      by (rule only_queue_fields(10) [OF oq])
    moreover have "x\<lparr>drain_tags := drain_tags x\<rparr> = x" for x :: flov_router by simp
    ultimately have "(announce_port gK (to_state s) p r)\<lparr>drain_tags := drain_tags r\<rparr> =
        announce_port gK (to_state s) p r"
      by metis
    note same = this
    show ?thesis
    proof (cases "at_edge gK (rid r) p")
      case True
      then show ?thesis by (simp add: request_drain_port_def announce_port_def)
    next
      case False
      then show ?thesis by (simp add: request_drain_port_def announce_port_tags same)
    qed
  qed
  have fold_tags: "fold (announce_port gK (to_state s)) xs (q\<lparr>drain_tags := t\<rparr>) =
      (fold (announce_port gK (to_state s)) xs q)\<lparr>drain_tags := t\<rparr>" for xs q t
    by (induction xs arbitrary: q) (simp_all add: announce_port_tags)
  show ?case
    using Cons [of "(announce_port gK (to_state s) p r)\<lparr>drain_tags := ?t\<rparr>"]
      only_queue_fields(1,11) [OF oq]
    by (simp add: step fold_tags)
qed simp

lemma request_drain_eq:
  "\<exists>t. request_drain gK s r = (announce gK (to_state s) r)\<lparr>drain_tags := t\<rparr>"
  by (auto simp: request_drain_def announce_def request_drain_fold)

lemma fold_set_tags:
  "k < length t \<Longrightarrow> fold (\<lambda>out t. if P out then t[out := True] else t) outs t ! k \<longleftrightarrow>
     t ! k \<or> k \<in> set outs \<and> P k"
  by (induction outs arbitrary: t) (auto simp: nth_list_update_lt)

lemma request_drain_tags:
  "out < length (drain_tags r) \<Longrightarrow> out < 4 \<Longrightarrow>
     drain_tags (request_drain gK s r) ! out \<longleftrightarrow>
       drain_tags r ! out \<or> at_edge gK (rid r) out \<or> downstream_states r ! out = power_off"
  unfolding request_drain_def request_drain_fold
  by (simp add: fold_set_tags
      [where P = "\<lambda>out. at_edge gK (rid r) out \<or> downstream_states r ! out = power_off"])

subsection \<open>The contract of a power-gating policy\<close>

text \<open>The transitions a router may make in one evaluation.\<close>

inductive power_edge :: "power_state \<Rightarrow> power_state \<Rightarrow> bool" where
  stay: "power_edge s s"
| drain: "power_edge power_on draining"
| cancel: "power_edge draining power_on"
| sleep: "power_edge draining power_off"
| wake: "power_edge power_off wakeup"
| up: "power_edge wakeup power_on"

inductive_simps power_edge_simps [simp]:
  "power_edge power_on s" "power_edge draining s" "power_edge power_off s" "power_edge wakeup s"

inductive_cases power_edgeE: "power_edge s t"

text \<open>The handshake a transition sends: its \<open>new_state\<close> is the state the neighbour will see in this
  direction, and \<open>logical_neighbor\<close> the router behind it, where that changes.\<close>

definition transition_message ::
  "power_state \<Rightarrow> flov_router \<Rightarrow> nat \<Rightarrow> handshake \<Rightarrow> handshake" where
  "transition_message old r' =
     (case power_state r' of
        power_off \<Rightarrow> see_through r'
      | power_on \<Rightarrow> if old = wakeup then back_to_self r' else to_state power_on
      | s \<Rightarrow> to_state s)"

text \<open>What a policy promises for one evaluation \<open>eval now r = Some r'\<close> of a router \<open>r\<close>.\<close>

definition power_contract :: "nat \<Rightarrow> flov_router \<Rightarrow> flov_router \<Rightarrow> bool" where
  "power_contract gK r r' \<longleftrightarrow>
     power_edge (power_state r) (power_state r') \<and> rid r' = rid r \<and>
     flov_policy r' = flov_policy r \<and>
     (if power_state r' = power_state r
      then out_queue_handshakes r' = out_queue_handshakes r \<and> req_hids r' = req_hids r
      else out_queue_handshakes r = [] \<and>
        announced gK (transition_message (power_state r) r') r r') \<and>
     (power_state r \<noteq> power_off \<and> power_state r' = power_off \<longrightarrow> drain_complete r)"

locale power_policy =
  fixes gK :: nat and eval :: "int \<Rightarrow> flov_router \<Rightarrow> flov_router option"
    and ok :: "flov_router \<Rightarrow> bool"
  assumes contract: "eval now r = Some r' \<Longrightarrow> ok r \<Longrightarrow> power_contract gK r r'"
    and keeps_ok: "eval now r = Some r' \<Longrightarrow> ok r \<Longrightarrow> ok r'"
begin

text \<open>A run: before each evaluation the rest of the simulator changes the router by some \<open>env\<close> that
  does not write the power state.\<close>

definition run :: "(int \<times> (flov_router \<Rightarrow> flov_router)) list \<Rightarrow> flov_router \<Rightarrow> flov_router option" where
  "run es r = foldM (\<lambda>(now, env) r. eval now (env r)) es r"

definition frames :: "(int \<times> (flov_router \<Rightarrow> flov_router)) list \<Rightarrow> bool" where
  "frames es \<longleftrightarrow> (\<forall>(now, env) \<in> set es.
     \<forall>r. power_state (env r) = power_state r \<and> (ok r \<longrightarrow> ok (env r)))"

lemma run_Nil [simp]: "run [] r = Some r"
  by (simp add: run_def)

lemma run_Cons [simp]:
  "run ((now, env) # es) r = (case eval now (env r) of None \<Rightarrow> None | Some r' \<Rightarrow> run es r')"
  by (simp add: run_def split: option.split)

text \<open>A router that was not asleep and is asleep at the end fell asleep in some evaluation, with its
  datapath drained.\<close>

lemma asleep_was_drained:
  assumes "run es r = Some r'" and "frames es" and "ok r"
    and "power_state r \<noteq> power_off" and "power_state r' = power_off"
  shows "\<exists>es1 now env es2 s t. es = es1 @ (now, env) # es2 \<and> run es1 r = Some s \<and>
    eval now (env s) = Some t \<and> power_state (env s) = draining \<and> drain_complete (env s) \<and>
    power_state t = power_off"
  using assms
proof (induction es arbitrary: r)
  case Nil
  then show ?case by simp
next
  case (Cons e es)
  obtain now env where e: "e = (now, env)" by (cases e)
  from Cons.prems(1) obtain u where u: "eval now (env r) = Some u" and rest: "run es u = Some r'"
    by (auto simp: e split: option.splits)
  have f: "frames es" "power_state (env r) = power_state r" "ok (env r)"
    using Cons.prems(2,3) by (auto simp: frames_def e)
  have c: "power_contract gK (env r) u" and oku: "ok u"
    using contract [OF u f(3)] keeps_ok [OF u f(3)] by auto
  show ?case
  proof (cases "power_state u = power_off")
    case True
    with c f(2) Cons.prems(4) have "power_state (env r) = draining" "drain_complete (env r)"
      by (auto simp: power_contract_def elim: power_edgeE)
    with True u show ?thesis
      by (intro exI [of _ "[]"] exI [of _ now] exI [of _ env] exI [of _ es]) (simp add: e)
  next
    case False
    from Cons.IH [OF rest f(1) oku False Cons.prems(5)] obtain es1 now' env' es2 s t
      where "es = es1 @ (now', env') # es2" "run es1 u = Some s" "eval now' (env' s) = Some t"
        "power_state (env' s) = draining" "drain_complete (env' s)" "power_state t = power_off"
      by blast
    with u show ?thesis
      by (intro exI [of _ "e # es1"] exI [of _ now'] exI [of _ env'] exI [of _ es2]) (simp add: e)
  qed
qed

text \<open>A sleeping router goes back to \<open>power_on\<close> through \<open>wakeup\<close> only.\<close>

lemma wakes_through_wakeup:
  assumes "run es r = Some r'" and "frames es" and "ok r"
    and "power_state r = power_off" and "power_state r' \<noteq> power_off"
  shows "\<exists>es1 es2 s. es = es1 @ es2 \<and> run es1 r = Some s \<and> power_state s = wakeup"
  using assms
proof (induction es arbitrary: r)
  case Nil
  then show ?case by simp
next
  case (Cons e es)
  obtain now env where e: "e = (now, env)" by (cases e)
  from Cons.prems(1) obtain u where u: "eval now (env r) = Some u" and rest: "run es u = Some r'"
    by (auto simp: e split: option.splits)
  have f: "frames es" "power_state (env r) = power_state r" "ok (env r)"
    using Cons.prems(2,3) by (auto simp: frames_def e)
  have c: "power_contract gK (env r) u" and oku: "ok u"
    using contract [OF u f(3)] keeps_ok [OF u f(3)] by auto
  show ?case
  proof (cases "power_state u = power_off")
    case True
    from Cons.IH [OF rest f(1) oku True Cons.prems(5)] obtain es1 es2 s
      where "es = es1 @ es2" "run es1 u = Some s" "power_state s = wakeup" by blast
    with u show ?thesis by (intro exI [of _ "e # es1"] exI [of _ es2] exI [of _ s]) (simp add: e)
  next
    case False
    with c f(2) Cons.prems(4) have "power_state u = wakeup" by (auto simp: power_contract_def)
    with u show ?thesis by (intro exI [of _ "[e]"] exI [of _ es] exI [of _ u]) (simp add: e)
  qed
qed

end

subsection \<open>The three policies keep the contract\<close>

lemma announced_cong:
  assumes "rid r = rid s" and "req_hids r = req_hids s" and "power_state r' = power_state s'"
    and "out_queue_handshakes r' = out_queue_handshakes s'" and "req_hids r' = req_hids s'"
  shows "announced gK ns r r' = announced gK ns s s'"
  by (simp add: announced_def assms)

definition hids_ok :: "flov_router \<Rightarrow> bool" where
  "hids_ok r \<longleftrightarrow> length (req_hids r) = 4"

lemma announce_hids_ok: "hids_ok r \<Longrightarrow> out_queue_handshakes r = [] \<Longrightarrow> hids_ok (announce gK ns r)"
  using announce_fold_lookup [of "[0..<4]" r gK ns]
  by (simp add: hids_ok_def announce_def)

lemma abort_drain_spec:
  assumes "abort_drain gK r = Some r'" and "hids_ok r"
  shows "power_state r' = power_on \<and> rid r' = rid r \<and> flov_policy r' = flov_policy r \<and>
    out_queue_handshakes r = [] \<and> announced gK (to_state power_on) r r' \<and> hids_ok r'"
proof -
  let ?r1 = "(clear_drain_tags (r\<lparr>power_state := power_on\<rparr>))\<lparr>idle_timer := 0\<rparr>"
  have q: "out_queue_handshakes ?r1 = []" and r': "r' = announce gK (to_state power_on) ?r1"
    using assms(1) by (auto simp: abort_drain_def Let_def)
  have h: "length (req_hids ?r1) = 4" using assms(2) by (simp add: hids_ok_def clear_drain_tags_def)
  have "announced gK (to_state power_on) ?r1 r'" using announce_announced [OF h q] r' by simp
  moreover have "hids_ok r'" using announce_hids_ok [OF _ q] h r' by (simp add: hids_ok_def)
  ultimately show ?thesis
    using q r' announced_cong [of ?r1 r r' r'] by (simp add: clear_drain_tags_def)
qed

lemma start_drain_spec:
  assumes "start_drain gK r = Some r'" and "hids_ok r"
  shows "power_state r' = draining \<and> rid r' = rid r \<and> flov_policy r' = flov_policy r \<and>
    out_queue_handshakes r = [] \<and> announced gK (to_state draining) r r' \<and> hids_ok r' \<and>
    drain_timer r' = 0 \<and> drain_threshold r' = drain_threshold r"
proof -
  let ?r1 = "clear_drain_tags (r\<lparr>power_state := draining, idle_timer := 0, drain_timer := 0,
                                  drain_counter := drain_counter r + 1\<rparr>)"
  have q: "out_queue_handshakes ?r1 = []" and "r' = request_drain gK draining ?r1"
    using assms(1) by (auto simp: start_drain_def Let_def)
  then obtain t where r': "r' = (announce gK (to_state draining) ?r1)\<lparr>drain_tags := t\<rparr>"
    using request_drain_eq [of gK draining ?r1] by auto
  have h: "length (req_hids ?r1) = 4" using assms(2) by (simp add: hids_ok_def clear_drain_tags_def)
  have "announced gK (to_state draining) r r'"
    using announce_announced [OF h q, of gK "to_state draining"] r'
      announced_cong [of ?r1 r "announce gK (to_state draining) ?r1" r']
    by (simp add: clear_drain_tags_def)
  moreover have "hids_ok r'"
    using announce_hids_ok [OF _ q, of gK "to_state draining"] h r' by (simp add: hids_ok_def)
  ultimately show ?thesis using q r' by (simp add: clear_drain_tags_def)
qed

lemma start_wakeup_spec:
  assumes "out_queue_handshakes r = []" and "hids_ok r"
  shows "power_state (start_wakeup gK r) = wakeup \<and> rid (start_wakeup gK r) = rid r \<and>
    flov_policy (start_wakeup gK r) = flov_policy r \<and>
    announced gK (to_state wakeup) r (start_wakeup gK r) \<and> hids_ok (start_wakeup gK r)"
proof -
  let ?r1 = "clear_drain_tags (r\<lparr>power_state := wakeup, wakeup_timer := 0, off_timer := 0,
                            off_counter := off_counter r + 1\<rparr>)"
  obtain t where r': "start_wakeup gK r = (announce gK (to_state wakeup) ?r1)\<lparr>drain_tags := t\<rparr>"
    using request_drain_eq [of gK wakeup ?r1] by (auto simp: start_wakeup_def)
  have q: "out_queue_handshakes ?r1 = []" using assms(1) by (simp add: clear_drain_tags_def)
  have h: "length (req_hids ?r1) = 4" using assms(2) by (simp add: hids_ok_def clear_drain_tags_def)
  have "announced gK (to_state wakeup) r (start_wakeup gK r)"
    using announce_announced [OF h q, of gK "to_state wakeup"] r'
      announced_cong [of ?r1 r "announce gK (to_state wakeup) ?r1" "start_wakeup gK r"]
    by (simp add: clear_drain_tags_def)
  moreover have "hids_ok (start_wakeup gK r)"
    using announce_hids_ok [OF _ q, of gK "to_state wakeup"] h r' by (simp add: hids_ok_def)
  ultimately show ?thesis using r' by (simp add: clear_drain_tags_def)
qed

lemma finish_wakeup_spec:
  assumes "out_queue_handshakes r = []" and "hids_ok r"
  shows "power_state (finish_wakeup gK r) = power_on \<and> rid (finish_wakeup gK r) = rid r \<and>
    flov_policy (finish_wakeup gK r) = flov_policy r \<and>
    announced gK (back_to_self (finish_wakeup gK r)) r (finish_wakeup gK r) \<and>
    hids_ok (finish_wakeup gK r)"
proof -
  let ?r1 = "clear_drain_tags (r\<lparr>wakeup_signal := False, wakeup_timer := 0, idle_timer := 0,
                                  power_state := power_on\<rparr>)"
  have r': "finish_wakeup gK r = announce gK (back_to_self ?r1) ?r1"
    by (simp add: finish_wakeup_def Let_def)
  have q: "out_queue_handshakes ?r1 = []" using assms(1) by (simp add: clear_drain_tags_def)
  have h: "length (req_hids ?r1) = 4" using assms(2) by (simp add: hids_ok_def clear_drain_tags_def)
  have self: "back_to_self ?r1 = back_to_self (finish_wakeup gK r)"
    by (simp add: r' back_to_self_def fun_eq_iff)
  have "announced gK (back_to_self ?r1) r (finish_wakeup gK r)"
    using announce_announced [OF h q, of gK "back_to_self ?r1"] r'
      announced_cong [of ?r1 r "announce gK (back_to_self ?r1) ?r1" "finish_wakeup gK r"]
    by (simp add: clear_drain_tags_def)
  moreover have "hids_ok (finish_wakeup gK r)"
    using announce_hids_ok [OF _ q, of gK "back_to_self ?r1"] h r' by (simp add: hids_ok_def)
  ultimately show ?thesis using r' self by (simp add: clear_drain_tags_def)
qed

definition only_credits :: "flov_router \<Rightarrow> flov_router \<Rightarrow> bool" where
  "only_credits r r' \<longleftrightarrow> (\<exists>c. r' = r\<lparr>credit_counter := c\<rparr>)"

lemma save_credits_frame:
  assumes "save_credits gK now r = Some r'"
  shows "only_credits r r'"
  using assms unfolding save_credits_def
proof (rule foldM_invariant [where P = "only_credits r"])
  show "only_credits r r" unfolding only_credits_def by (rule exI [of _ "credit_counter r"]) simp
next
  fix i s s'
  assume s: "only_credits r s"
    and st: "(if at_far_edge gK (rid s) i then Some s
              else foldM (save_credits_vc now i) [0..<vcs s] s) = Some s'"
  have "only_credits s s'" if "foldM (save_credits_vc now i) [0..<vcs s] s = Some s'"
    using that
  proof (rule foldM_invariant [where P = "only_credits s"])
    show "only_credits s s" unfolding only_credits_def by (rule exI [of _ "credit_counter s"]) simp
  qed (auto simp: only_credits_def save_credits_vc_def split: option.splits if_splits)
  with s st show "only_credits r s'"
    by (auto simp: only_credits_def split: if_splits)
qed

lemma record_drain_time_frame [simp]:
  "power_state (record_drain_time r) = power_state r" "rid (record_drain_time r) = rid r"
  "flov_policy (record_drain_time r) = flov_policy r" "req_hids (record_drain_time r) = req_hids r"
  "out_queue_handshakes (record_drain_time r) = out_queue_handshakes r"
  "downstream_states (record_drain_time r) = downstream_states r"
  "logical_neighbors (record_drain_time r) = logical_neighbors r"
  by (simp_all add: record_drain_time_def)

lemma power_down_spec:
  assumes "power_down gK now r = Some r'" and "hids_ok r"
  shows "power_state r' = power_off \<and> rid r' = rid r \<and> flov_policy r' = flov_policy r \<and>
    out_queue_handshakes r = [] \<and> announced gK (see_through r') r r' \<and> hids_ok r'"
proof -
  from assms(1) obtain r1 where s: "save_credits gK now r = Some r1"
    and q1: "out_queue_handshakes r1 = []"
    and r': "r' = (let r2 = (clear_drain_tags (r1\<lparr>power_state := power_off\<rparr>))\<lparr>off_timer := 0\<rparr>
                   in record_drain_time (announce gK (see_through r2) r2))"
    by (auto simp: power_down_def Let_def clear_drain_tags_def split: Option.bind_splits)
  let ?r2 = "(clear_drain_tags (r1\<lparr>power_state := power_off\<rparr>))\<lparr>off_timer := 0\<rparr>"
  obtain c where r1: "r1 = r\<lparr>credit_counter := c\<rparr>"
    using save_credits_frame [OF s] by (auto simp: only_credits_def)
  have eqs: "rid r1 = rid r" "req_hids r1 = req_hids r" "flov_policy r1 = flov_policy r"
    "out_queue_handshakes r1 = out_queue_handshakes r"
    by (subst r1, simp)+
  have q: "out_queue_handshakes ?r2 = []" using q1 by (simp add: clear_drain_tags_def)
  have h: "length (req_hids ?r2) = 4"
    using assms(2) eqs by (simp add: hids_ok_def clear_drain_tags_def)
  have see: "see_through ?r2 = see_through r'"
    by (simp add: r' see_through_def fun_eq_iff Let_def)
  have "announced gK (see_through ?r2) r r'"
    using announce_announced [OF h q, of gK "see_through ?r2"] r' eqs
      announced_cong [of ?r2 r "announce gK (see_through ?r2) ?r2" r']
    by (simp add: clear_drain_tags_def Let_def)
  moreover have "hids_ok r'"
    using announce_hids_ok [OF _ q, of gK "see_through ?r2"] h r' by (simp add: hids_ok_def Let_def)
  ultimately show ?thesis
    using q1 see r' eqs by (simp add: clear_drain_tags_def Let_def)
qed

text \<open>An arm that leaves state, queue and ids alone keeps the contract.\<close>

lemma contract_same:
  "power_state r' = power_state r \<Longrightarrow> rid r' = rid r \<Longrightarrow> flov_policy r' = flov_policy r \<Longrightarrow>
   out_queue_handshakes r' = out_queue_handshakes r \<Longrightarrow> req_hids r' = req_hids r \<Longrightarrow>
   power_contract gK r r'"
  by (auto simp: power_contract_def intro: power_edge.stay)

text \<open>A transition: \<open>s\<close> is the router just before it, equal to \<open>r\<close> where the contract looks.\<close>

lemma contract_change:
  assumes "power_edge (power_state r) (power_state r')" and "power_state r' \<noteq> power_state r"
    and "rid r' = rid s" and "flov_policy r' = flov_policy s" and "out_queue_handshakes s = []"
    and "announced gK ns s r'" and "ns = transition_message (power_state r) r'"
    and "rid s = rid r" and "flov_policy s = flov_policy r" and "req_hids s = req_hids r"
    and "out_queue_handshakes s = out_queue_handshakes r"
    and "power_state r' = power_off \<longrightarrow> power_state r \<noteq> power_off \<longrightarrow> drain_complete r"
  shows "power_contract gK r r'"
  using assms by (auto simp: power_contract_def announced_def)

lemma contract_abort:
  assumes "abort_drain gK s = Some t" and "hids_ok r" and "power_state r = draining"
    and "rid s = rid r" "flov_policy s = flov_policy r" "req_hids s = req_hids r"
      "out_queue_handshakes s = out_queue_handshakes r"
    and "power_state r' = power_state t" "rid r' = rid t" "flov_policy r' = flov_policy t"
      "req_hids r' = req_hids t" "out_queue_handshakes r' = out_queue_handshakes t"
  shows "power_contract gK r r' \<and> hids_ok r'"
proof -
  have "hids_ok s" using assms by (simp add: hids_ok_def)
  from abort_drain_spec [OF assms(1) this] assms
  show ?thesis
    by (intro conjI contract_change [of r r' s gK "to_state power_on"])
      (auto simp: announced_cong [of s s r' t] transition_message_def hids_ok_def)
qed

lemma contract_start_drain:
  assumes "start_drain gK s = Some r'" and "hids_ok r" and "power_state r = power_on"
    and "rid s = rid r" "flov_policy s = flov_policy r" "req_hids s = req_hids r"
      "out_queue_handshakes s = out_queue_handshakes r"
  shows "power_contract gK r r' \<and> hids_ok r'"
proof -
  have "hids_ok s" using assms by (simp add: hids_ok_def)
  from start_drain_spec [OF assms(1) this] assms
  show ?thesis
    by (intro conjI contract_change [of r r' s gK "to_state draining"])
      (auto simp: transition_message_def)
qed

lemma contract_power_down:
  assumes "power_down gK now s = Some r'" and "hids_ok r" and "power_state r = draining"
    and "rid s = rid r" "flov_policy s = flov_policy r" "req_hids s = req_hids r"
      "out_queue_handshakes s = out_queue_handshakes r"
    and "drain_complete r"
  shows "power_contract gK r r' \<and> hids_ok r'"
proof -
  have "hids_ok s" using assms by (simp add: hids_ok_def)
  from power_down_spec [OF assms(1) this] assms
  show ?thesis
    by (intro conjI contract_change [of r r' s gK "see_through r'"])
      (auto simp: transition_message_def)
qed

lemma contract_start_wakeup:
  assumes "hids_ok r" and "power_state r = power_off" and "out_queue_handshakes s = []"
    and "rid s = rid r" "flov_policy s = flov_policy r" "req_hids s = req_hids r"
      "out_queue_handshakes s = out_queue_handshakes r"
  shows "power_contract gK r (start_wakeup gK s) \<and> hids_ok (start_wakeup gK s)"
proof -
  have "hids_ok s" using assms by (simp add: hids_ok_def)
  from start_wakeup_spec [OF assms(3) this] assms
  show ?thesis
    by (intro conjI contract_change [of r "start_wakeup gK s" s gK "to_state wakeup"])
      (auto simp: transition_message_def)
qed

lemma contract_finish_wakeup:
  assumes "hids_ok r" and "power_state r = wakeup" and "out_queue_handshakes s = []"
    and "rid s = rid r" "flov_policy s = flov_policy r" "req_hids s = req_hids r"
      "out_queue_handshakes s = out_queue_handshakes r"
  shows "power_contract gK r (finish_wakeup gK s) \<and> hids_ok (finish_wakeup gK s)"
proof -
  have "hids_ok s" using assms by (simp add: hids_ok_def)
  from finish_wakeup_spec [OF assms(3) this] assms
  show ?thesis
    by (intro conjI contract_change
        [of r "finish_wakeup gK s" s gK "back_to_self (finish_wakeup gK s)"])
      (auto simp: transition_message_def)
qed

lemma drain_complete_timer [simp]:
  "drain_complete (r\<lparr>drain_timer := n\<rparr>) = drain_complete r"
  by (simp add: drain_complete_def all_drain_tags_def buffers_idle_def)

lemma wakeup_arm_contract:
  assumes "wakeup_arm gK s = Some r'" and "hids_ok r" and "power_state r = wakeup"
    and "power_state s = wakeup" "rid s = rid r" "flov_policy s = flov_policy r"
      "req_hids s = req_hids r" "out_queue_handshakes s = out_queue_handshakes r"
  shows "power_contract gK r r' \<and> hids_ok r'"
proof (cases "r' = s\<lparr>wakeup_timer := wakeup_timer s + 1\<rparr>")
  case True
  with assms show ?thesis by (auto intro!: contract_same simp: hids_ok_def)
next
  case False
  with assms(1) have "r' = finish_wakeup gK (s\<lparr>wakeup_timer := wakeup_timer s + 1\<rparr>)"
    and "out_queue_handshakes s = []"
    by (auto simp: wakeup_arm_def Let_def split: if_splits)
  with assms contract_finish_wakeup [of r "s\<lparr>wakeup_timer := wakeup_timer s + 1\<rparr>" gK]
  show ?thesis by simp
qed

lemma on_frame [simp]:
  "hids_ok (r\<lparr>idle_timer := n\<rparr>) = hids_ok r" "hids_ok (r\<lparr>drain_timer := m\<rparr>) = hids_ok r"
  "hids_ok (r\<lparr>wakeup_signal := b\<rparr>) = hids_ok r"
  "hids_ok (r\<lparr>off_timer := k\<rparr>) = hids_ok r" "hids_ok (r\<lparr>power_off_cycles := i\<rparr>) = hids_ok r"
  "hids_ok (r\<lparr>total_power_off_cycles := j\<rparr>) = hids_ok r"
  by (simp_all add: hids_ok_def)

lemma drain_choice_contract:
  assumes st: "power_state r = draining" and ok: "hids_ok r"
    and s: "s = r\<lparr>drain_timer := drain_timer r + 1\<rparr>"
    and r': "(if drain_complete s then power_down gK now s
         else if drain_timer s > drain_threshold s
         then map_option (\<lambda>r. record_drain_time
                (r\<lparr>drain_timeout_counter := drain_timeout_counter r + 1\<rparr>)) (abort_drain gK s)
         else Some s) = Some r'"
  shows "power_contract gK r r' \<and> hids_ok r'"
proof -
  have frame: "rid s = rid r" "flov_policy s = flov_policy r" "req_hids s = req_hids r"
    "out_queue_handshakes s = out_queue_handshakes r" "power_state s = power_state r"
    by (simp_all add: s)
  show ?thesis
  proof (cases "drain_complete s")
    case True
    with r' have "power_down gK now s = Some r'" by simp
    from contract_power_down [OF this ok st frame(1-4)] True s show ?thesis by simp
  next
    case False
    show ?thesis
    proof (cases "drain_timer s > drain_threshold s")
      case True
      with False r' obtain t where t: "abort_drain gK s = Some t"
        and r'': "r' = record_drain_time (t\<lparr>drain_timeout_counter := drain_timeout_counter t + 1\<rparr>)"
        by auto
      show ?thesis by (rule contract_abort [OF t ok st frame(1-4)]) (simp_all add: r'')
    next
      case False
      with \<open>\<not> drain_complete s\<close> r' have "r' = s" by simp
      with frame ok s show ?thesis by (auto intro!: contract_same)
    qed
  qed
qed

lemma power_on_choice_contract:
  assumes st: "power_state r = power_on" and ok: "hids_ok r"
    and s: "s = (if outstanding_requests r \<noteq> 0 then r\<lparr>idle_timer := 0\<rparr> else r)"
    and r': "(if wakeup_signal s then Some (s\<lparr>wakeup_signal := False, idle_timer := 0\<rparr>)
      else if \<not> router_state s then
        (if outstanding_requests s \<noteq> 0 then None
         else if blocked s then Some (s\<lparr>idle_timer := idle_timer s - 1\<rparr>)
         else start_drain gK s)
      else Some s) = Some r'"
  shows "power_contract gK r r' \<and> hids_ok r'"
proof -
  have frame: "rid s = rid r" "flov_policy s = flov_policy r" "req_hids s = req_hids r"
    "out_queue_handshakes s = out_queue_handshakes r" "power_state s = power_state r" "hids_ok s"
    by (simp_all add: s ok)
  have "start_drain gK s = Some r' \<or>
      power_state r' = power_state s \<and> rid r' = rid s \<and> flov_policy r' = flov_policy s \<and>
      out_queue_handshakes r' = out_queue_handshakes s \<and> req_hids r' = req_hids s"
    using r' by (auto split: if_splits)
  then show ?thesis
  proof (elim disjE)
    assume "start_drain gK s = Some r'"
    then show ?thesis by (rule contract_start_drain [OF _ ok st frame(1-4)])
  next
    assume a: "power_state r' = power_state s \<and> rid r' = rid s \<and> flov_policy r' = flov_policy s \<and>
      out_queue_handshakes r' = out_queue_handshakes s \<and> req_hids r' = req_hids s"
    then have "power_contract gK r r'" using frame by (intro contract_same) simp_all
    moreover have "hids_ok r'" using a ok frame(3) by (simp add: hids_ok_def)
    ultimately show ?thesis by blast
  qed
qed

lemma gflov_contract:
  assumes ev: "GFLOVPowerStateEvaluate gK gNodes now r = Some r'" and ok: "hids_ok r"
  shows "power_contract gK r r' \<and> hids_ok r'"
proof (cases "power_state r")
  case power_on
  with ev have "gflov_power_on gK r = Some r'" by (simp add: GFLOVPowerStateEvaluate_def)
  from this [unfolded gflov_power_on_def Let_def] show ?thesis
    by (intro power_on_choice_contract [OF power_on ok refl, where blocked =
          "\<lambda>r. list_ex (\<lambda>out. downstream_states r ! out = draining \<or>
                               downstream_states r ! out = wakeup) [0..<4]"])
next
  case draining
  let ?s = "r\<lparr>drain_timer := drain_timer r + 1\<rparr>"
  from draining ev have d: "gflov_draining gK now r = Some r'"
    by (simp add: GFLOVPowerStateEvaluate_def)
  show ?thesis
  proof (cases "(if drain_complete ?s then power_down gK now ?s
         else if drain_timer ?s > drain_threshold ?s
         then map_option (\<lambda>r. record_drain_time
                (r\<lparr>drain_timeout_counter := drain_timeout_counter r + 1\<rparr>)) (abort_drain gK ?s)
         else Some ?s) = Some r'")
    case True
    then show ?thesis by (rule drain_choice_contract [OF draining ok refl])
  next
    case False
    with d obtain t where t: "abort_drain gK (?s\<lparr>drain_timer := 0\<rparr>) = Some t"
      and r': "r' = t\<lparr>wakeup_signal := False\<rparr>"
      unfolding gflov_draining_def Let_def by (auto split: if_splits)
    show ?thesis by (rule contract_abort [OF t ok draining]) (simp_all add: r')
  qed
next
  case power_off
  with ev show ?thesis
    using ok by (auto simp: GFLOVPowerStateEvaluate_def gflov_power_off_def hids_ok_def
        intro!: contract_same)
next
  case wakeup
  with ev have "wakeup_arm gK r = Some r'" by (simp add: GFLOVPowerStateEvaluate_def)
  then show ?thesis by (rule wakeup_arm_contract [OF _ ok wakeup wakeup]) simp_all
qed

lemma rflov_contract:
  assumes ev: "RFLOVPowerStateEvaluate gK gNodes now r = Some r'" and ok: "hids_ok r"
  shows "power_contract gK r r' \<and> hids_ok r'"
proof (cases "power_state r")
  case power_on
  with ev have "rflov_power_on gK r = Some r'" by (simp add: RFLOVPowerStateEvaluate_def)
  from this [unfolded rflov_power_on_def Let_def] show ?thesis
    by (intro power_on_choice_contract [OF power_on ok refl, where blocked =
          "\<lambda>r. neighbor_in gK r [draining, wakeup, power_off] [0..<4]"])
next
  case draining
  let ?s = "r\<lparr>drain_timer := drain_timer r + 1\<rparr>"
  from draining ev have d: "rflov_draining gK now r = Some r'"
    by (simp add: RFLOVPowerStateEvaluate_def)
  show ?thesis
  proof (cases "(if drain_complete ?s then power_down gK now ?s
         else if drain_timer ?s > drain_threshold ?s
         then map_option (\<lambda>r. record_drain_time
                (r\<lparr>drain_timeout_counter := drain_timeout_counter r + 1\<rparr>)) (abort_drain gK ?s)
         else Some ?s) = Some r'")
    case True
    then show ?thesis by (rule drain_choice_contract [OF draining ok refl])
  next
    case False
    with d have t: "abort_drain gK (?s\<lparr>wakeup_signal := False, drain_timer := 0\<rparr>) = Some r'"
      unfolding rflov_draining_def Let_def by (auto split: if_splits)
    show ?thesis by (rule contract_abort [OF t ok draining]) simp_all
  qed
next
  case power_off
  let ?s = "r\<lparr>power_off_cycles := power_off_cycles r + 1,
    total_power_off_cycles := total_power_off_cycles r + 1\<rparr>"
  let ?t = "?s\<lparr>off_timer := off_timer r + 1\<rparr>"
  from power_off ev have "rflov_power_off gK r = Some r'" by (simp add: RFLOVPowerStateEvaluate_def)
  then have "r' = ?s \<or> r' = ?t \<or> r' = start_wakeup gK ?t \<and> out_queue_handshakes r = []"
    by (auto simp: rflov_power_off_def Let_def split: if_splits)
  moreover have "power_contract gK r ?s \<and> hids_ok ?s" "power_contract gK r ?t \<and> hids_ok ?t"
    using ok by (auto intro!: contract_same)
  moreover have "out_queue_handshakes r = [] \<Longrightarrow>
      power_contract gK r (start_wakeup gK ?t) \<and> hids_ok (start_wakeup gK ?t)"
    by (rule contract_start_wakeup [OF ok power_off]) simp_all
  ultimately show ?thesis by metis
next
  case wakeup
  with ev obtain tags where "wakeup_arm gK (r\<lparr>drain_tags := tags\<rparr>) = Some r'"
    by (auto simp: RFLOVPowerStateEvaluate_def rflov_wakeup_def)
  then show ?thesis by (rule wakeup_arm_contract [OF _ ok wakeup]) (simp_all add: wakeup)
qed

lemma noflov_contract:
  assumes ev: "NoFLOVPowerStateEvaluate gK gNodes r = Some r'" and ok: "hids_ok r"
  shows "power_contract gK r r' \<and> hids_ok r'"
proof (cases "power_state r")
  case power_on
  with ev show ?thesis
    using ok by (auto simp: NoFLOVPowerStateEvaluate_def noflov_power_on_def Let_def hids_ok_def
        intro!: contract_same split: if_splits)
next
  case draining
  with ev have t: "abort_drain gK (r\<lparr>wakeup_signal := False, drain_timer := 0\<rparr>) = Some r'"
    by (auto simp: NoFLOVPowerStateEvaluate_def noflov_draining_def split: if_splits)
  show ?thesis by (rule contract_abort [OF t ok draining]) simp_all
next
  case power_off
  let ?s = "r\<lparr>power_off_cycles := power_off_cycles r + 1,
    total_power_off_cycles := total_power_off_cycles r + 1, off_timer := off_timer r + 1\<rparr>"
  let ?t = "?s\<lparr>wakeup_signal := False\<rparr>"
  from power_off ev have "noflov_power_off gK r = Some r'" by (simp add: NoFLOVPowerStateEvaluate_def)
  then have "r' = ?s \<or> r' = start_wakeup gK ?t \<and> out_queue_handshakes r = []"
    by (auto simp: noflov_power_off_def Let_def split: if_splits)
  moreover have "power_contract gK r ?s \<and> hids_ok ?s" "power_contract gK r ?t \<and> hids_ok ?t"
    using ok by (auto intro!: contract_same)
  moreover have "out_queue_handshakes r = [] \<Longrightarrow>
      power_contract gK r (start_wakeup gK ?t) \<and> hids_ok (start_wakeup gK ?t)"
    by (rule contract_start_wakeup [OF ok power_off]) simp_all
  ultimately show ?thesis by metis
next
  case wakeup
  with ev have "wakeup_arm gK r = Some r'" by (simp add: NoFLOVPowerStateEvaluate_def)
  then show ?thesis by (rule wakeup_arm_contract [OF _ ok wakeup wakeup]) simp_all
qed

interpretation gflov_fsm: power_policy gK "GFLOVPowerStateEvaluate gK gNodes" hids_ok for gK gNodes
  by unfold_locales (simp_all add: gflov_contract)

interpretation rflov_fsm: power_policy gK "RFLOVPowerStateEvaluate gK gNodes" hids_ok for gK gNodes
  by unfold_locales (simp_all add: rflov_contract)

interpretation noflov_fsm: power_policy gK "\<lambda>now. NoFLOVPowerStateEvaluate gK gNodes" hids_ok
  for gK gNodes
  by unfold_locales (simp_all add: noflov_contract)

interpretation fsm: power_policy gK "PowerStateEvaluate gK gNodes" hids_ok for gK gNodes
proof unfold_locales
  fix now r r'
  assume "PowerStateEvaluate gK gNodes now r = Some r'" and "hids_ok r"
  then have "power_contract gK r r' \<and> hids_ok r'"
    using gflov_fsm.contract rflov_fsm.contract noflov_fsm.contract
      gflov_fsm.keeps_ok rflov_fsm.keeps_ok noflov_fsm.keeps_ok
    by (cases "flov_policy r") (auto simp: PowerStateEvaluate_def)
  then show "power_contract gK r r'" and "hids_ok r'" by simp_all
qed

end
