(* ===== verification/Power_Properties.thy ===== *)
theory Power_Properties
  imports Power_Safety
begin

text \<open>
  Properties of \<open>PowerStateEvaluate\<close>, over one evaluation and over runs.  A run is
  \<open>power_run gK gNodes es r\<close>: for each entry \<open>(now, env)\<close> of \<open>es\<close> the rest of the
  simulator first changes the router by \<open>env\<close>, then the state machine is evaluated at time
  \<open>now\<close>.
\<close>

definition power_run ::
  "nat \<Rightarrow> nat \<Rightarrow> (int \<times> (flov_router \<Rightarrow> flov_router)) list \<Rightarrow> flov_router \<Rightarrow> flov_router option" where
  "power_run gK gNodes es r = foldM (\<lambda>(now, env) r. PowerStateEvaluate gK gNodes now (env r)) es r"

lemma fsm_run: "fsm.run gK gNodes es r = power_run gK gNodes es r"
  by (simp add: fsm.run_def power_run_def)

lemma power_run_simps [simp]:
  "power_run gK gNodes [] r = Some r"
  "power_run gK gNodes ((now, env) # es) r =
     (case PowerStateEvaluate gK gNodes now (env r) of
        None \<Rightarrow> None | Some r' \<Rightarrow> power_run gK gNodes es r')"
  by (simp_all add: power_run_def split: option.split)

lemma power_run_invariant:
  assumes "power_run gK gNodes es r = Some r'" and "P r"
    and "\<And>now env s s'. (now, env) \<in> set es \<Longrightarrow> P s \<Longrightarrow>
       PowerStateEvaluate gK gNodes now (env s) = Some s' \<Longrightarrow> P s'"
  shows "P r'"
  using assms(1) unfolding power_run_def
  by (rule foldM_invariant) (use assms(2,3) in auto)

text \<open>What \<open>env\<close> may not touch.\<close>

definition keeps :: "(flov_router \<Rightarrow> 'b) \<Rightarrow> (int \<times> (flov_router \<Rightarrow> flov_router)) list \<Rightarrow> bool" where
  "keeps f es \<longleftrightarrow> (\<forall>(now, env) \<in> set es. \<forall>r. f (env r) = f r)"

lemma keepsD: "keeps f es \<Longrightarrow> (now, env) \<in> set es \<Longrightarrow> f (env r) = f r"
  by (auto simp: keeps_def)

lemma keeps_Nil [simp]: "keeps f []"
  by (simp add: keeps_def)

lemma keeps_Cons [simp]: "keeps f ((now, env) # es) \<longleftrightarrow> (\<forall>r. f (env r) = f r) \<and> keeps f es"
  by (auto simp: keeps_def)

lemma keeps_frames:
  "keeps power_state es \<Longrightarrow> keeps (\<lambda>r. length (req_hids r)) es \<Longrightarrow> fsm.frames es"
  by (auto simp: fsm.frames_def keeps_def hids_ok_def)

text \<open>A router for the witnesses: router 4 of a 3x3 mesh, thresholds 10, 6, 5, 2.\<close>

definition example_router :: "flov_policy \<Rightarrow> power_state \<Rightarrow> flov_router" where
  "example_router p s =
     (FLOVRouter_init 3 4 5 5 (10, 6, 5, 2) 1 1 (Buffer_init 1 4 4 (VC_init 1 ''none'' 0))
        (BufferState_init 1 4 4 0 (Private \<lparr>vc_buf_size = 4, full_vc_buf_size = 4\<rparr>)))
       \<lparr>flov_policy := p, power_state := s, router_state := False\<rparr>"

lemma example_router_fields:
  "power_state (example_router p s) = s" "flov_policy (example_router p s) = p"
  "rid (example_router p s) = 4" "length (req_hids (example_router p s)) = 4"
  "out_queue_handshakes (example_router p s) = []" "drain_timer (example_router p s) = 0"
  "drain_threshold (example_router p s) = 6" "off_timer (example_router p s) = 0"
  "bet_threshold (example_router p s) = 5" "wakeup_timer (example_router p s) = 0"
  "wakeup_threshold (example_router p s) = 2" "router_state (example_router p s) = False"
  "wakeup_signal (example_router p s) = False" "outstanding_requests (example_router p s) = 0"
  "out < 4 \<Longrightarrow> downstream_states (example_router p s) ! out = power_on"
  "out < 4 \<Longrightarrow> neighbor_states (example_router p s) ! out = power_on"
  "drain_time_q (example_router p s) = []" "max_drain_time (example_router p s) = 0"
  "min_drain_time (example_router p s) = -1" "in_queue_flits (example_router p s) = []"
  "crossbar_flits (example_router p s) = []" "output_buffer (example_router p s) = replicate 5 []"
  "inputs (example_router p s) = 5" "vcs (example_router p s) = 1"
  "buf (example_router p s) = replicate 5 (Buffer_init 1 4 4 (VC_init 1 ''none'' 0))"
  "next_buf (example_router p s) = replicate 5
     (BufferState_init 1 4 4 0 (Private \<lparr>vc_buf_size = 4, full_vc_buf_size = 4\<rparr>))"
  by (auto simp: example_router_def FLOVRouter_init_def init_states_def at_edge_def)

lemmas eval_defs = PowerStateEvaluate_def GFLOVPowerStateEvaluate_def RFLOVPowerStateEvaluate_def
  NoFLOVPowerStateEvaluate_def

lemma example_entry [simp]: "entry_checks 3 9 (example_router p s)"
  by (simp add: entry_checks_def example_router_fields)

lemma example_idle:
  "buffers_idle (example_router p s)"
  by (simp add: buffers_idle_def example_router_fields GetState_def Buffer_init_def VC_init_def
      list_all_iff)

subsection \<open>Transitions\<close>

text \<open>C20: whatever the policy, an evaluation of the power state machine makes one of the five legal
  transitions or none.  If the state does not change nothing is queued; if it does, the handshake
  queue was empty, and afterwards it holds for each port with a link exactly one handshake, with the
  message of that transition, the new state as the sender's, the sender's id and the next handshake
  id of that port, and nothing for the ports at the edge of the mesh.  A router that falls asleep
  was draining and had emptied its datapath.\<close>

theorem power_transition_announced:
  assumes "PowerStateEvaluate gK gNodes now r = Some r'" and "length (req_hids r) = 4"
  shows "power_edge (power_state r) (power_state r') \<and>
    (power_state r' = power_state r \<longrightarrow>
       out_queue_handshakes r' = out_queue_handshakes r \<and> req_hids r' = req_hids r) \<and>
    (power_state r' \<noteq> power_state r \<longrightarrow> out_queue_handshakes r = [] \<and>
      (\<forall>out. map_of (out_queue_handshakes r') out =
        (if out < 4 \<and> \<not> at_edge gK (rid r) out
         then Some ((transition_message (power_state r) r' out Handshake_New)
           \<lparr>src_state := Some (power_state r'), hs_id := int (rid r), hid := req_hids r ! out + 1\<rparr>)
         else None))) \<and>
    (power_state r \<noteq> power_off \<and> power_state r' = power_off \<longrightarrow> drain_complete r)"
  using fsm.contract [OF assms(1)] assms(2)
  by (cases "power_state r' = power_state r")
    (simp_all add: hids_ok_def power_contract_def announced_def)

lemma example_start_drain:
  "\<exists>r'. PowerStateEvaluate 3 9 now (example_router gflov power_on) = Some r' \<and> power_state r' = draining"
proof -
  let ?r = "example_router gflov power_on"
  have "gflov_power_on 3 ?r = start_drain 3 ?r"
    by (simp add: gflov_power_on_def example_router_fields Let_def list_ex_iff)
  moreover obtain r' where r': "start_drain 3 ?r = Some r'"
    by (simp add: start_drain_def Let_def clear_drain_tags_def example_router_fields)
  moreover have "power_state r' = draining"
    using start_drain_spec [OF r'] by (simp add: hids_ok_def example_router_fields)
  ultimately show ?thesis
    by (simp add: eval_defs example_router_fields)
qed

lemma power_transition_announced_witness:
  "\<exists>r'. PowerStateEvaluate 3 9 7 (example_router gflov power_on) = Some r' \<and>
     power_state r' = draining \<and>
     map_of (out_queue_handshakes r') DIR_WEST =
       Some (Handshake_New\<lparr>new_state := Some draining, src_state := Some draining, hs_id := 4, hid := 0\<rparr>)"
proof -
  obtain r' where r': "PowerStateEvaluate 3 9 7 (example_router gflov power_on) = Some r'"
    "power_state r' = draining"
    using example_start_drain by blast
  have "req_hids (example_router gflov power_on) ! 1 = -1"
    by (simp add: example_router_def FLOVRouter_init_def)
  with power_transition_announced [OF r'(1)] r' show ?thesis
    by (simp add: example_router_fields transition_message_def to_state_def at_edge_def)
qed

text \<open>C21: over any run, in which the rest of the simulator may do anything to the router between two
  evaluations except write its power state, a router that was not asleep and now is fell asleep in
  an evaluation that found it draining with every drain tag collected, no flit in its input queue
  or crossbar, every VC idle and every output buffer empty.\<close>

theorem router_sleeps_drained:
  assumes "power_run gK gNodes es r = Some r'"
    and "keeps power_state es" and "keeps (\<lambda>r. length (req_hids r)) es" and "length (req_hids r) = 4"
    and "power_state r \<noteq> power_off" and "power_state r' = power_off"
  shows "\<exists>es1 now env es2 s t. es = es1 @ (now, env) # es2 \<and> power_run gK gNodes es1 r = Some s \<and>
    PowerStateEvaluate gK gNodes now (env s) = Some t \<and> power_state (env s) = draining \<and>
    drain_complete (env s) \<and> power_state t = power_off"
  using fsm.asleep_was_drained [of gK gNodes es r r'] assms keeps_frames [OF assms(2,3)]
  by (simp add: fsm_run hids_ok_def)

definition ready_to_sleep :: "flov_router \<Rightarrow> flov_router" where
  "ready_to_sleep r = r\<lparr>drain_tags := replicate 4 True\<rparr>"

lemma example_sleeps:
  "\<exists>r'. PowerStateEvaluate 3 9 now (ready_to_sleep (example_router rflov draining)) = Some r' \<and>
     power_state r' = power_off"
proof -
  let ?r = "ready_to_sleep (example_router rflov draining)"
  let ?s = "?r\<lparr>drain_timer := 1\<rparr>"
  have f: "power_state ?r = draining" "flov_policy ?r = rflov" "rid ?r = 4"
    "outstanding_requests ?r = 0" "wakeup_signal ?r = False" "drain_timer ?r = 0"
    by (simp_all add: ready_to_sleep_def example_router_fields)
  have n: "\<not> neighbor_in 3 ?s ss outs" if "set outs \<subseteq> {0..<4}" "power_on \<notin> set ss" for ss outs
    using that by (auto simp: neighbor_in_def list_ex_iff ready_to_sleep_def example_router_fields)
  have "drain_complete ?s"
    using example_idle [of rflov draining]
    by (auto simp: drain_complete_def all_drain_tags_def ready_to_sleep_def example_router_fields
        buffers_idle_def list_all_iff)
  then have "rflov_draining 3 now ?r = power_down 3 now ?s"
    by (simp add: rflov_draining_def Let_def f n)
  moreover have "\<exists>r'. power_down 3 now ?s = Some r'"
  proof -
    define P where "P s \<longleftrightarrow> out_queue_handshakes s = [] \<and> next_buf s = replicate 5
        (BufferState_init 1 4 4 0 (Private \<lparr>vc_buf_size = 4, full_vc_buf_size = 4\<rparr>)) \<and> vcs s = 1"
      for s :: flov_router
    have vc: "\<exists>s'. save_credits_vc now i vc s = Some s' \<and> P s'" if "P s" "i < 4" "vc < 1" for i vc s
      using that
      by (simp add: save_credits_vc_def P_def AvailableFor_def Private_AvailableFor_def OccupancyFor_def
          BufferState_init_def)
    have port: "\<exists>s'. foldM (save_credits_vc now i) [0..<1] s = Some s' \<and> P s'"
      if "P s" "i < 4" for i s
      by (rule foldM_succeeds [where P = P]) (use that vc in auto)
    have p0: "P ?s"
      by (simp add: P_def ready_to_sleep_def example_router_fields)
    have "\<exists>s. save_credits 3 now ?s = Some s \<and> P s"
      unfolding save_credits_def
      by (rule foldM_succeeds [where P = P, OF p0]) (use port in \<open>auto simp: P_def\<close>)
    then obtain s where "save_credits 3 now ?s = Some s" "P s" by blast
    then show ?thesis
      by (simp add: power_down_def P_def Let_def clear_drain_tags_def)
  qed
  ultimately obtain r' where r': "rflov_draining 3 now ?r = Some r'" "power_down 3 now ?s = Some r'"
    by auto
  have "hids_ok ?s" by (simp add: hids_ok_def ready_to_sleep_def example_router_fields)
  with power_down_spec [OF r'(2)] have "power_state r' = power_off" by simp
  moreover have "entry_checks 3 9 ?r" by (simp add: entry_checks_def f)
  ultimately show ?thesis using r'(1) by (simp add: eval_defs f)
qed

lemma router_sleeps_drained_witness:
  "\<exists>r'. power_run 3 9 [(7, ready_to_sleep)] (example_router rflov draining) = Some r' \<and>
     power_state r' = power_off \<and> drain_complete (ready_to_sleep (example_router rflov draining))"
proof -
  obtain r' where r': "power_run 3 9 [(7, ready_to_sleep)] (example_router rflov draining) = Some r'"
    "power_state r' = power_off"
    using example_sleeps [of 7] by auto
  have "\<exists>es1 now env es2 s t. [(7::int, ready_to_sleep)] = es1 @ (now, env) # es2 \<and>
      power_run 3 9 es1 (example_router rflov draining) = Some s \<and>
      PowerStateEvaluate 3 9 now (env s) = Some t \<and> power_state (env s) = draining \<and>
      drain_complete (env s) \<and> power_state t = power_off"
    by (rule router_sleeps_drained [OF r'(1) _ _ _ _ r'(2)])
      (simp_all add: ready_to_sleep_def example_router_fields)
  with r' show ?thesis by (auto simp: Cons_eq_append_conv)
qed

text \<open>A sleeping router is back to forwarding packets only after an evaluation that put it in the
  wakeup state, in which it collects drain tags again; no run takes it from off to on directly.\<close>

theorem router_wakes_through_wakeup:
  assumes "power_run gK gNodes es r = Some r'"
    and "keeps power_state es" and "keeps (\<lambda>r. length (req_hids r)) es" and "length (req_hids r) = 4"
    and "power_state r = power_off" and "power_state r' \<noteq> power_off"
  shows "\<exists>es1 es2 s. es = es1 @ es2 \<and> power_run gK gNodes es1 r = Some s \<and> power_state s = wakeup"
  using fsm.wakes_through_wakeup [of gK gNodes es r r'] assms keeps_frames [OF assms(2,3)]
  by (simp add: fsm_run hids_ok_def)

definition off_long :: "flov_router \<Rightarrow> flov_router" where
  "off_long r = r\<lparr>off_timer := 4\<rparr>"

lemma example_wakes:
  "\<exists>r'. PowerStateEvaluate 3 9 now (off_long (example_router noflov power_off)) = Some r' \<and>
     power_state r' = wakeup"
proof -
  let ?r = "off_long (example_router noflov power_off)"
  let ?s = "?r\<lparr>power_off_cycles := power_off_cycles ?r + 1,
    total_power_off_cycles := total_power_off_cycles ?r + 1, off_timer := 5\<rparr>"
  have idle: "buffers_idle ?r"
    using example_idle [of noflov power_off] by (simp add: buffers_idle_def off_long_def)
  have "noflov_power_off 3 ?r = Some (start_wakeup 3 (?s\<lparr>wakeup_signal := False\<rparr>))"
    using idle
    by (simp add: noflov_power_off_def Let_def off_long_def example_router_fields list_ex_iff)
  moreover have "power_state (start_wakeup 3 (?s\<lparr>wakeup_signal := False\<rparr>)) = wakeup"
    using start_wakeup_spec [of "?s\<lparr>wakeup_signal := False\<rparr>" 3]
    by (simp add: hids_ok_def off_long_def example_router_fields)
  moreover have "entry_checks 3 9 ?r"
    by (simp add: entry_checks_def off_long_def example_router_fields)
  ultimately show ?thesis
    by (simp add: eval_defs off_long_def example_router_fields)
qed

lemma router_wakes_through_wakeup_witness:
  "\<exists>r' es1 es2 s. power_run 3 9 [(7, off_long)] (example_router noflov power_off) = Some r' \<and>
     [(7, off_long)] = es1 @ es2 \<and>
     power_run 3 9 es1 (example_router noflov power_off) = Some s \<and> power_state s = wakeup"
proof -
  obtain r' where r': "power_run 3 9 [(7, off_long)] (example_router noflov power_off) = Some r'"
    "power_state r' \<noteq> power_off"
    using example_wakes [of 7] by auto
  have "\<exists>es1 es2 s. [(7, off_long)] = es1 @ es2 \<and>
     power_run 3 9 es1 (example_router noflov power_off) = Some s \<and> power_state s = wakeup"
    by (rule router_wakes_through_wakeup [OF r'(1) _ _ _ _ r'(2)])
      (simp_all add: off_long_def example_router_fields)
  with r'(1) show ?thesis by blast
qed

subsection \<open>Draining ends\<close>

lemma abort_drain_state: "abort_drain gK r = Some r' \<Longrightarrow> power_state r' = power_on"
  by (auto simp: abort_drain_def Let_def clear_drain_tags_def)

lemma power_down_state: "power_down gK now r = Some r' \<Longrightarrow> power_state r' = power_off"
  by (auto simp: power_down_def Let_def clear_drain_tags_def split: Option.bind_splits)

text \<open>A router that stays in the draining state only counts.\<close>

lemma draining_counts:
  assumes ev: "PowerStateEvaluate gK gNodes now r = Some r'"
    and "power_state r = draining" and "power_state r' = draining"
  shows "r' = r\<lparr>drain_timer := drain_timer r + 1\<rparr> \<and> drain_timer r + 1 \<le> drain_threshold r"
proof (cases "flov_policy r")
  case gflov
  then have "gflov_draining gK now r = Some r'" using assms by (simp add: eval_defs)
  then show ?thesis
    using assms(3) abort_drain_state power_down_state
    by (fastforce simp: gflov_draining_def Let_def split: if_splits)
next
  case rflov
  then have "rflov_draining gK now r = Some r'" using assms by (simp add: eval_defs)
  then show ?thesis
    using assms(3) abort_drain_state power_down_state
    by (fastforce simp: rflov_draining_def Let_def split: if_splits)
next
  case noflov
  then have "noflov_draining gK r = Some r'" using assms by (simp add: eval_defs)
  then show ?thesis
    using assms(3) abort_drain_state by (fastforce simp: noflov_draining_def split: if_splits)
qed

text \<open>C27: a drain cannot take longer than the threshold.  In a run that finds the router draining at
  every step, where between evaluations the drain timer is not turned back and the threshold not
  changed, the number of evaluations is at most what is left of the threshold; so after that many
  cycles the router is asleep or back on, whatever its neighbours and traffic do.\<close>

theorem drain_bounded:
  assumes "power_run gK gNodes es r = Some r'"
    and "keeps power_state es" and "keeps drain_threshold es"
    and "\<forall>(now, env) \<in> set es. \<forall>r. drain_timer r \<le> drain_timer (env r)"
    and "\<forall>n \<le> length es. \<forall>s. power_run gK gNodes (take n es) r = Some s \<longrightarrow> power_state s = draining"
    and "drain_timer r \<le> drain_threshold r"
  shows "drain_timer r + int (length es) \<le> drain_threshold r"
  using assms
proof (induction es arbitrary: r)
  case Nil
  then show ?case by simp
next
  case (Cons e es)
  obtain now env where e: "e = (now, env)" by (cases e)
  from Cons.prems(1) obtain u where u: "PowerStateEvaluate gK gNodes now (env r) = Some u"
    and rest: "power_run gK gNodes es u = Some r'"
    by (auto simp: e split: option.splits)
  have on: "power_state r = draining" "power_state u = draining"
    using Cons.prems(5) [rule_format, of 0 r] Cons.prems(5) [rule_format, of 1 u] u
    by (simp_all add: e)
  have env: "power_state (env r) = power_state r" "drain_threshold (env r) = drain_threshold r"
    "drain_timer r \<le> drain_timer (env r)"
    using Cons.prems(2-4) by (auto simp: e)
  have c: "u = (env r)\<lparr>drain_timer := drain_timer (env r) + 1\<rparr>"
    "drain_timer (env r) + 1 \<le> drain_threshold (env r)"
    using draining_counts [OF u] on env(1) by auto
  have t: "drain_timer u = drain_timer (env r) + 1" "drain_threshold u = drain_threshold r"
    using c(1) env(2) by simp_all
  have "drain_timer u + int (length es) \<le> drain_threshold u"
  proof (rule Cons.IH [OF rest])
    show "\<forall>n\<le>length es. \<forall>s. power_run gK gNodes (take n es) u = Some s \<longrightarrow> power_state s = draining"
    proof (intro allI impI)
      fix n s assume "n \<le> length es" "power_run gK gNodes (take n es) u = Some s"
      then show "power_state s = draining"
        using Cons.prems(5) [rule_format, of "Suc n" s] u by (simp add: e)
    qed
    show "drain_timer u \<le> drain_threshold u" using t c(2) env(2) by simp
  qed (use Cons.prems in \<open>auto simp: e\<close>)
  with t env(3) show ?case by simp
qed

lemma example_keeps_draining:
  "PowerStateEvaluate 3 9 now (example_router gflov draining) =
     Some ((example_router gflov draining)\<lparr>drain_timer := 1\<rparr>)"
proof -
  let ?r = "example_router gflov draining"
  have "drain_tags ?r = replicate 4 False"
    by (simp add: example_router_def FLOVRouter_init_def)
  then show ?thesis
    by (simp add: eval_defs gflov_draining_def Let_def example_router_fields list_ex_iff
        drain_complete_def all_drain_tags_def)
qed

lemma drain_bounded_witness: "(0::int) + int (length [(7::int, id :: flov_router \<Rightarrow> flov_router)]) \<le> 6"
proof -
  let ?r = "example_router gflov draining"
  have s: "power_state s = draining"
    if "n \<le> 1" "power_run 3 9 (take n [(7, id)]) ?r = Some s" for n s
    using that example_keeps_draining [of 7]
    by (cases n) (auto simp: example_router_fields)
  have "drain_timer ?r + int (length [(7::int, id :: flov_router \<Rightarrow> flov_router)]) \<le> drain_threshold ?r"
    by (rule drain_bounded [where gK = 3 and gNodes = 9 and r' = "?r\<lparr>drain_timer := 1\<rparr>"])
      (use s example_keeps_draining [of 7] in \<open>simp_all add: example_router_fields\<close>)
  then show ?thesis by (simp add: example_router_fields)
qed

subsection \<open>When a transition may start\<close>

text \<open>Under R-FLOV a router starts to drain only if the traffic manager has voted it off, it has no
  pending wakeup signal, and every physical neighbour it has a link to is known to be on: two linked
  routers are not gated together on the strength of what they know.\<close>

theorem rflov_drains_only_alone:
  assumes "PowerStateEvaluate gK gNodes now r = Some r'"
    and "flov_policy r = rflov" and "power_state r = power_on" and "power_state r' = draining"
  shows "\<not> router_state r \<and> \<not> wakeup_signal r \<and>
    (\<forall>out<4. \<not> at_edge gK (rid r) out \<longrightarrow> neighbor_states r ! out = power_on)"
proof -
  have r': "rflov_power_on gK r = Some r'" using assms by (simp add: eval_defs)
  let ?s = "if outstanding_requests r \<noteq> 0 then r\<lparr>idle_timer := 0\<rparr> else r"
  have "\<not> wakeup_signal ?s \<and> \<not> router_state ?s \<and> \<not> neighbor_in gK ?s [draining, wakeup, power_off] [0..<4]"
    using r' assms(3,4) unfolding rflov_power_on_def Let_def by (auto split: if_splits)
  then have "\<not> wakeup_signal r" "\<not> router_state r"
    and n: "\<not> neighbor_in gK r [draining, wakeup, power_off] [0..<4]"
    by (auto simp: neighbor_in_def split: if_splits)
  moreover have "neighbor_states r ! out = power_on" if "out < 4" "\<not> at_edge gK (rid r) out" for out
    using n that by (cases "neighbor_states r ! out") (auto simp: neighbor_in_def list_ex_iff)
  ultimately show ?thesis by blast
qed

lemma example_rflov_drain:
  "\<exists>r'. PowerStateEvaluate 3 9 now (example_router rflov power_on) = Some r' \<and> power_state r' = draining"
proof -
  let ?r = "example_router rflov power_on"
  have "rflov_power_on 3 ?r = start_drain 3 ?r"
    by (simp add: rflov_power_on_def example_router_fields Let_def neighbor_in_def list_ex_iff)
  moreover obtain r' where r': "start_drain 3 ?r = Some r'"
    by (simp add: start_drain_def Let_def clear_drain_tags_def example_router_fields)
  moreover have "power_state r' = draining"
    using start_drain_spec [OF r'] by (simp add: hids_ok_def example_router_fields)
  ultimately show ?thesis
    by (simp add: eval_defs example_router_fields)
qed

lemma rflov_drains_only_alone_witness:
  "\<exists>r'. PowerStateEvaluate 3 9 7 (example_router rflov power_on) = Some r' \<and>
     power_state r' = draining \<and> neighbor_states (example_router rflov power_on) ! DIR_EAST = power_on"
proof -
  obtain r' where r': "PowerStateEvaluate 3 9 7 (example_router rflov power_on) = Some r'"
    "power_state r' = draining"
    using example_rflov_drain by blast
  have "\<not> at_edge 3 (rid (example_router rflov power_on)) DIR_EAST"
    by (simp add: at_edge_def example_router_fields)
  with rflov_drains_only_alone [OF r'(1)] r' show ?thesis
    by (auto simp: example_router_fields)
qed

text \<open>A router leaves power-off only under R-FLOV or No-FLOV, only after the break-even time
  (counting this evaluation), with no handshake waiting to be sent, and while no router it sees
  downstream over a link is waking up or draining; under R-FLOV only if it was asked to.\<close>

theorem wakeup_after_break_even:
  assumes "PowerStateEvaluate gK gNodes now r = Some r'"
    and "power_state r = power_off" and "power_state r' = wakeup"
  shows "flov_policy r \<noteq> gflov \<and> bet_threshold r \<le> off_timer r + 1 \<and>
    out_queue_handshakes r = [] \<and>
    (flov_policy r = rflov \<longrightarrow> router_state r \<or> wakeup_signal r) \<and>
    (\<forall>out<4. \<not> at_edge gK (rid r) out \<longrightarrow> downstream_states r ! out \<notin> {wakeup, draining})"
proof (cases "flov_policy r")
  case gflov
  with assms show ?thesis by (auto simp: eval_defs gflov_power_off_def)
next
  case rflov
  with assms(1,2) have "rflov_power_off gK r = Some r'" by (simp add: eval_defs)
  with assms(2,3) rflov show ?thesis
    by (auto simp: rflov_power_off_def Let_def list_ex_iff split: if_splits)
next
  case noflov
  with assms(1,2) have "noflov_power_off gK r = Some r'" by (simp add: eval_defs)
  with assms(2,3) noflov show ?thesis
    by (auto simp: noflov_power_off_def Let_def list_ex_iff split: if_splits)
qed

lemma wakeup_after_break_even_witness:
  "bet_threshold (off_long (example_router noflov power_off)) \<le> 4 + 1"
proof -
  obtain r' where r': "PowerStateEvaluate 3 9 7 (off_long (example_router noflov power_off)) = Some r'"
    "power_state r' = wakeup"
    using example_wakes by blast
  from wakeup_after_break_even [OF r'(1) _ r'(2)] show ?thesis
    by (simp add: off_long_def example_router_fields)
qed

text \<open>Under G-FLOV a router that is asleep never wakes: the arm for power-off tests neither the
  wakeup signal nor the vote of the traffic manager, so no run in which only the state machine
  writes the power state, and the policy stays, ends with it in another state.\<close>

theorem gflov_never_wakes:
  assumes "power_run gK gNodes es r = Some r'"
    and "keeps power_state es" and "keeps flov_policy es"
    and "power_state r = power_off" and "flov_policy r = gflov"
  shows "power_state r' = power_off"
proof -
  have "power_state r' = power_off \<and> flov_policy r' = gflov"
    using assms(1)
  proof (rule power_run_invariant [where P = "\<lambda>r. power_state r = power_off \<and> flov_policy r = gflov"])
    fix now env s s'
    assume "(now, env) \<in> set es" and "power_state s = power_off \<and> flov_policy s = gflov"
      and "PowerStateEvaluate gK gNodes now (env s) = Some s'"
    moreover from this have "power_state (env s) = power_off" "flov_policy (env s) = gflov"
      using keepsD [OF assms(2)] keepsD [OF assms(3)] by metis+
    ultimately show "power_state s' = power_off \<and> flov_policy s' = gflov"
      by (auto simp: eval_defs gflov_power_off_def)
  qed (simp add: assms)
  then show ?thesis by simp
qed

lemma gflov_never_wakes_witness:
  "\<exists>r'. power_run 3 9 [(7, WakeUp), (8, SetRouterState True)] (example_router gflov power_off) = Some r' \<and>
     power_state r' = power_off"
proof -
  let ?es = "[(7, WakeUp), (8, SetRouterState True)] :: (int \<times> (flov_router \<Rightarrow> flov_router)) list"
  have idle: "buffers_idle (example_router gflov power_off)" by (rule example_idle)
  have "\<exists>r'. power_run 3 9 ?es (example_router gflov power_off) = Some r'"
    using idle by (simp add: WakeUp_def SetRouterState_def eval_defs gflov_power_off_def
        entry_checks_def example_router_fields buffers_idle_def)
  then obtain r' where r': "power_run 3 9 ?es (example_router gflov power_off) = Some r'" by blast
  have "power_state r' = power_off"
    by (rule gflov_never_wakes [OF r'])
      (simp_all add: WakeUp_def SetRouterState_def example_router_fields)
  with r' show ?thesis by blast
qed

subsection \<open>Drain time statistics\<close>

definition drain_stats_ok :: "flov_router \<Rightarrow> bool" where
  "drain_stats_ok r \<longleftrightarrow> 0 \<le> drain_timer r \<and> (\<forall>t \<in> set (drain_time_q r). 0 < t) \<and>
     max_drain_time r = fold max (drain_time_q r) 0 \<and>
     (drain_time_q r = [] \<longrightarrow> min_drain_time r = -1) \<and>
     (drain_time_q r \<noteq> [] \<longrightarrow> min_drain_time r = Min (set (drain_time_q r)))"

definition stats_of :: "flov_router \<Rightarrow> int \<times> int list \<times> int \<times> int" where
  "stats_of r = (drain_timer r, drain_time_q r, max_drain_time r, min_drain_time r)"

lemma drain_stats_cong: "stats_of r = stats_of s \<Longrightarrow> drain_stats_ok r = drain_stats_ok s"
  by (simp add: stats_of_def drain_stats_ok_def)

lemma stats_announce [simp]: "stats_of (announce gK ns r) = stats_of r"
  by (simp add: stats_of_def)

lemma stats_request_drain [simp]: "stats_of (request_drain gK s r) = stats_of r"
  using request_drain_eq [of gK s r] by (auto simp: stats_of_def)

lemma stats_abort: "abort_drain gK r = Some r' \<Longrightarrow> stats_of r' = stats_of r"
  by (auto simp: abort_drain_def Let_def clear_drain_tags_def) (simp add: stats_of_def)

lemma stats_start_drain: "start_drain gK r = Some r' \<Longrightarrow>
    stats_of r' = (0, drain_time_q r, max_drain_time r, min_drain_time r)"
  by (auto simp: start_drain_def Let_def clear_drain_tags_def) (simp add: stats_of_def)

lemma stats_start_wakeup [simp]: "stats_of (start_wakeup gK r) = stats_of r"
  by (simp add: start_wakeup_def clear_drain_tags_def) (simp add: stats_of_def)

lemma stats_finish_wakeup [simp]: "stats_of (finish_wakeup gK r) = stats_of r"
  by (simp add: finish_wakeup_def clear_drain_tags_def Let_def) (simp add: stats_of_def)

lemma stats_power_down:
  assumes "power_down gK now r = Some r'"
  shows "stats_of r' = stats_of (record_drain_time r)"
proof -
  from assms obtain r1 where s: "save_credits gK now r = Some r1"
    and r': "r' = (let r2 = (clear_drain_tags (r1\<lparr>power_state := power_off\<rparr>))\<lparr>off_timer := 0\<rparr>
                   in record_drain_time (announce gK (see_through r2) r2))"
    by (auto simp: power_down_def Let_def clear_drain_tags_def split: Option.bind_splits)
  obtain c where "r1 = r\<lparr>credit_counter := c\<rparr>"
    using save_credits_frame [OF s] by (auto simp: only_credits_def)
  then show ?thesis
    by (simp add: r' Let_def stats_of_def record_drain_time_def clear_drain_tags_def)
qed

lemma Min_snoc: "Min (set (xs @ [x])) = (if xs = [] then x else min (Min (set xs)) (x :: int))"
  by (cases "xs = []") (simp_all add: min.commute)

lemma drain_stats_record:
  assumes "drain_stats_ok r" and "0 < drain_timer r"
  shows "drain_stats_ok (record_drain_time r)"
proof (cases "drain_time_q r = []")
  case True
  with assms show ?thesis
    by (auto simp: drain_stats_ok_def record_drain_time_def)
next
  case False
  have pos: "0 < Min (set (drain_time_q r))"
    using assms(1) False by (simp add: drain_stats_ok_def)
  have m: "min_drain_time r = Min (set (drain_time_q r))"
    "max_drain_time r = fold max (drain_time_q r) 0"
    using assms(1) False by (simp_all add: drain_stats_ok_def)
  have "min_drain_time (record_drain_time r) = Min (set (drain_time_q r @ [drain_timer r]))"
    using pos False unfolding Min_snoc m(1) [symmetric]
    by (simp add: record_drain_time_def min_def)
  moreover have "max_drain_time (record_drain_time r) = fold max (drain_time_q r @ [drain_timer r]) 0"
    by (simp add: record_drain_time_def m)
  moreover have "\<forall>t \<in> set (drain_time_q r @ [drain_timer r]). 0 < t"
    using assms by (auto simp: drain_stats_ok_def)
  ultimately show ?thesis
    by (simp add: drain_stats_ok_def) (simp add: record_drain_time_def)
qed

lemma drain_stats_timer:
  "drain_stats_ok r \<Longrightarrow> 0 \<le> n \<Longrightarrow> drain_stats_ok (r\<lparr>drain_timer := n\<rparr>)"
  by (simp add: drain_stats_ok_def)

lemma drain_stats_frame [simp]:
  "drain_stats_ok (r\<lparr>idle_timer := n\<rparr>) = drain_stats_ok r"
  "drain_stats_ok (r\<lparr>wakeup_signal := b\<rparr>) = drain_stats_ok r"
  "drain_stats_ok (r\<lparr>power_off_cycles := m\<rparr>) = drain_stats_ok r"
  "drain_stats_ok (r\<lparr>total_power_off_cycles := m\<rparr>) = drain_stats_ok r"
  "drain_stats_ok (r\<lparr>off_timer := k\<rparr>) = drain_stats_ok r"
  "drain_stats_ok (r\<lparr>wakeup_timer := k\<rparr>) = drain_stats_ok r"
  "drain_stats_ok (r\<lparr>drain_tags := t\<rparr>) = drain_stats_ok r"
  "drain_stats_ok (r\<lparr>drain_timeout_counter := k\<rparr>) = drain_stats_ok r"
  by (simp_all add: drain_stats_ok_def)

lemma drain_stats_start_drain:
  "start_drain gK r = Some r' \<Longrightarrow> drain_stats_ok r \<Longrightarrow> drain_stats_ok r'"
  using stats_start_drain [of gK r r'] by (simp add: drain_stats_ok_def stats_of_def)

lemma drain_stats_abort:
  "abort_drain gK r = Some r' \<Longrightarrow> drain_stats_ok r \<Longrightarrow> drain_stats_ok r'"
  using stats_abort drain_stats_cong by blast

lemma drain_stats_power_down:
  "power_down gK now r = Some r' \<Longrightarrow> drain_stats_ok r \<Longrightarrow> 0 < drain_timer r \<Longrightarrow> drain_stats_ok r'"
  using stats_power_down drain_stats_record drain_stats_cong by blast

lemma drain_stats_timeout:
  assumes "map_option (\<lambda>r. record_drain_time
        (r\<lparr>drain_timeout_counter := drain_timeout_counter r + 1\<rparr>)) (abort_drain gK r) = Some r'"
    and "drain_stats_ok r" and "0 < drain_timer r"
  shows "drain_stats_ok r'"
proof -
  from assms(1) obtain t where t: "abort_drain gK r = Some t"
    and r': "r' = record_drain_time (t\<lparr>drain_timeout_counter := drain_timeout_counter t + 1\<rparr>)"
    by auto
  have "drain_timer t = drain_timer r" using stats_abort [OF t] by (simp add: stats_of_def)
  then show ?thesis
    unfolding r' using assms(3) drain_stats_abort [OF t assms(2)] by (intro drain_stats_record) simp_all
qed

lemmas drain_stats_arms = drain_stats_start_drain drain_stats_abort drain_stats_power_down
  drain_stats_timeout drain_stats_timer

lemma drain_stats_wakeup:
  "wakeup_arm gK r = Some r' \<Longrightarrow> drain_stats_ok r \<Longrightarrow> drain_stats_ok r'"
  by (auto simp: wakeup_arm_def Let_def drain_stats_cong [OF stats_finish_wakeup])

lemma drain_stats_eval:
  assumes "PowerStateEvaluate gK gNodes now r = Some r'" and ok: "drain_stats_ok r"
  shows "drain_stats_ok r'"
proof -
  have pos: "0 \<le> drain_timer r" using ok by (simp add: drain_stats_ok_def)
  have count: "drain_stats_ok (r\<lparr>drain_timer := drain_timer r + 1\<rparr>)"
    using ok pos by (simp add: drain_stats_timer)
  have zero: "drain_stats_ok (r\<lparr>drain_timer := 0\<rparr>)"
    "drain_stats_ok (r\<lparr>wakeup_signal := False, drain_timer := 0\<rparr>)"
    using ok by (simp_all add: drain_stats_timer)
  let ?c = "r\<lparr>drain_timer := drain_timer r + 1\<rparr>"
  have G: "drain_stats_ok r'" if "gflov_draining gK now r = Some r'"
  proof -
    have "(\<exists>t. abort_drain gK (r\<lparr>drain_timer := 0\<rparr>) = Some t \<and> stats_of r' = stats_of t) \<or>
        power_down gK now ?c = Some r' \<or> r' = ?c \<or> map_option (\<lambda>r. record_drain_time
          (r\<lparr>drain_timeout_counter := drain_timeout_counter r + 1\<rparr>)) (abort_drain gK ?c) = Some r'"
      using that unfolding gflov_draining_def Let_def by (auto simp: stats_of_def split: if_splits)
    then show ?thesis
    proof (elim disjE exE conjE)
      fix t assume a: "abort_drain gK (r\<lparr>drain_timer := 0\<rparr>) = Some t" and s: "stats_of r' = stats_of t"
      have "drain_stats_ok t" by (rule drain_stats_abort [OF a]) (use zero in simp_all)
      then show ?thesis using drain_stats_cong [OF s] by simp
    next
      assume "power_down gK now ?c = Some r'"
      then show ?thesis by (rule drain_stats_power_down) (use count pos in simp_all)
    next
      assume "r' = ?c"
      with count show ?thesis by simp
    next
      assume "map_option (\<lambda>r. record_drain_time
          (r\<lparr>drain_timeout_counter := drain_timeout_counter r + 1\<rparr>)) (abort_drain gK ?c) = Some r'"
      then show ?thesis by (rule drain_stats_timeout) (use count pos in simp_all)
    qed
  qed
  have R: "drain_stats_ok r'" if "rflov_draining gK now r = Some r'"
  proof -
    have "(\<exists>t. abort_drain gK (r\<lparr>wakeup_signal := False, drain_timer := 0\<rparr>) = Some t \<and> stats_of r' = stats_of t) \<or>
        power_down gK now ?c = Some r' \<or> r' = ?c \<or> map_option (\<lambda>r. record_drain_time
          (r\<lparr>drain_timeout_counter := drain_timeout_counter r + 1\<rparr>)) (abort_drain gK ?c) = Some r'"
      using that unfolding rflov_draining_def Let_def by (auto simp: stats_of_def split: if_splits)
    then show ?thesis
    proof (elim disjE exE conjE)
      fix t assume a: "abort_drain gK (r\<lparr>wakeup_signal := False, drain_timer := 0\<rparr>) = Some t" and s: "stats_of r' = stats_of t"
      have "drain_stats_ok t" by (rule drain_stats_abort [OF a]) (use zero in simp_all)
      then show ?thesis using drain_stats_cong [OF s] by simp
    next
      assume "power_down gK now ?c = Some r'"
      then show ?thesis by (rule drain_stats_power_down) (use count pos in simp_all)
    next
      assume "r' = ?c"
      with count show ?thesis by simp
    next
      assume "map_option (\<lambda>r. record_drain_time
          (r\<lparr>drain_timeout_counter := drain_timeout_counter r + 1\<rparr>)) (abort_drain gK ?c) = Some r'"
      then show ?thesis by (rule drain_stats_timeout) (use count pos in simp_all)
    qed
  qed
  have N: "drain_stats_ok r'" if "noflov_draining gK r = Some r'"
    using that zero drain_stats_abort by (fastforce simp: noflov_draining_def split: if_splits)
  have on: "drain_stats_ok r'" if "gflov_power_on gK r = Some r' \<or> rflov_power_on gK r = Some r' \<or>
      noflov_power_on r = Some r'"
    using that ok drain_stats_start_drain
    by (fastforce simp: gflov_power_on_def rflov_power_on_def noflov_power_on_def Let_def
        split: if_splits)
  have off: "drain_stats_ok r'" if "gflov_power_off r = Some r' \<or> rflov_power_off gK r = Some r' \<or>
      noflov_power_off gK r = Some r'"
    using that ok
    by (auto simp: gflov_power_off_def rflov_power_off_def noflov_power_off_def Let_def
        drain_stats_cong [OF stats_start_wakeup])
  have up: "drain_stats_ok r'" if "wakeup_arm gK r = Some r' \<or> rflov_wakeup gK r = Some r'"
    using that ok drain_stats_wakeup by (fastforce simp: rflov_wakeup_def)
  show ?thesis
    using assms(1) G R N on off up
    by (cases "flov_policy r"; cases "power_state r") (simp_all add: eval_defs)
qed

text \<open>The drain statistics a router prints are right after any run: every recorded drain time is
  positive, \<open>_max_drain_time\<close> is the largest of them (0 if there are none) and
  \<open>_min_drain_time\<close> the smallest (-1 if there are none).\<close>

theorem drain_statistics_exact:
  assumes "power_run gK gNodes es r = Some r'" and "keeps stats_of es"
    and "drain_time_q r = []" "max_drain_time r = 0" "min_drain_time r = -1" "0 \<le> drain_timer r"
  shows "(\<forall>t \<in> set (drain_time_q r'). 0 < t) \<and>
    max_drain_time r' = fold max (drain_time_q r') 0 \<and>
    min_drain_time r' = (if drain_time_q r' = [] then -1 else Min (set (drain_time_q r')))"
proof -
  have "drain_stats_ok r'"
    using assms(1)
  proof (rule power_run_invariant [where P = drain_stats_ok])
    show "drain_stats_ok r" using assms by (simp add: drain_stats_ok_def)
  next
    fix now env s s'
    assume "(now, env) \<in> set es" "drain_stats_ok s"
      and ev: "PowerStateEvaluate gK gNodes now (env s) = Some s'"
    then have "drain_stats_ok (env s)"
      using keepsD [OF assms(2)] drain_stats_cong by metis
    then show "drain_stats_ok s'" by (rule drain_stats_eval [OF ev])
  qed
  then show ?thesis by (simp add: drain_stats_ok_def)
qed

lemma drain_statistics_exact_witness:
  "\<exists>r'. power_run 3 9 [(7, ready_to_sleep)] (example_router rflov draining) = Some r' \<and>
     max_drain_time r' = fold max (drain_time_q r') 0"
proof -
  obtain r' where r': "power_run 3 9 [(7, ready_to_sleep)] (example_router rflov draining) = Some r'"
    using example_sleeps [of 7] by auto
  from drain_statistics_exact [OF r'] show ?thesis
    using r' by (simp add: ready_to_sleep_def example_router_fields stats_of_def)
qed

subsection \<open>Changing the policy\<close>

instantiation flov_policy :: linorder
begin

definition less_eq_flov_policy :: "flov_policy \<Rightarrow> flov_policy \<Rightarrow> bool" where
  "less_eq_flov_policy p q \<longleftrightarrow> p = noflov \<or> q = gflov \<or> p = q"

definition less_flov_policy :: "flov_policy \<Rightarrow> flov_policy \<Rightarrow> bool" where
  "less_flov_policy p q \<longleftrightarrow> p \<noteq> q \<and> (p = noflov \<or> q = gflov)"

instance
proof
  fix x y z :: flov_policy
  show "x < y \<longleftrightarrow> x \<le> y \<and> \<not> y \<le> x"
    by (cases x; cases y) (simp_all add: less_flov_policy_def less_eq_flov_policy_def)
  show "x \<le> x" by (simp add: less_eq_flov_policy_def)
  show "x \<le> y \<Longrightarrow> y \<le> z \<Longrightarrow> x \<le> z"
    by (cases x; cases y; cases z) (simp_all add: less_eq_flov_policy_def)
  show "x \<le> y \<Longrightarrow> y \<le> x \<Longrightarrow> x = y"
    by (cases x; cases y) (simp_all add: less_eq_flov_policy_def)
  show "x \<le> y \<or> y \<le> x"
    by (cases x; cases y) (simp_all add: less_eq_flov_policy_def)
qed

end

text \<open>Whether a policy lets a router that is asleep stay so, by what it knows of its neighbours.\<close>

definition may_sleep :: "nat \<Rightarrow> flov_policy \<Rightarrow> flov_router \<Rightarrow> bool" where
  "may_sleep gK p r \<longleftrightarrow>
     (case p of gflov \<Rightarrow> True
      | rflov \<Rightarrow> (\<forall>out<4. at_edge gK (rid r) out \<or> neighbor_states r ! out \<noteq> power_off)
      | noflov \<Rightarrow> False)"

text \<open>A regression goes exactly one policy down (and stays at the bottom), signals a wakeup to
  exactly the sleeping routers that may not sleep under the new policy, and changes nothing else;
  \<open>AggressFLOVPolicy\<close> takes the policy back up without touching anything else.\<close>

theorem policy_changes:
  "AggressFLOVPolicy (RegressFLOVPolicy gK r) =
     r\<lparr>flov_policy := (if flov_policy r = noflov then rflov else flov_policy r),
       wakeup_signal := wakeup_signal (RegressFLOVPolicy gK r)\<rparr> \<and>
   (wakeup_signal (RegressFLOVPolicy gK r) \<longleftrightarrow> wakeup_signal r \<or>
     flov_policy r \<noteq> noflov \<and> power_state r = power_off \<and>
     \<not> may_sleep gK (flov_policy (RegressFLOVPolicy gK r)) r) \<and>
   flov_policy (RegressFLOVPolicy gK r) = (case flov_policy r of gflov \<Rightarrow> rflov | _ \<Rightarrow> noflov)"
  by (cases "flov_policy r")
    (auto simp: AggressFLOVPolicy_def RegressFLOVPolicy_def Let_def may_sleep_def neighbor_in_def
      list_ex_iff)

lemma policy_changes_witness:
  "wakeup_signal (RegressFLOVPolicy 3 (example_router rflov power_off)) \<and>
   flov_policy (RegressFLOVPolicy 3 (example_router rflov power_off)) = noflov"
  using policy_changes [of 3 "example_router rflov power_off"]
  by (simp add: example_router_fields may_sleep_def)

end
