(* ===== verification/Handshakes.thy ===== *)
theory Handshakes
  imports Power_Safety
begin

text \<open>
  The handshake side of a FLOV router (src/booksim2/src/routers/flov_router.cpp): receiving,
  \<open>_HandshakeEvaluate\<close> with one definition per power state and one per relay arm,
  \<open>_HandshakeResponse\<close>, the handshake parts of \<open>_OutputQueuing\<close> and \<open>_SendHandshakes\<close>.
  A handshake that is freed is dropped from the model; one that is relayed is put in
  \<open>_out_queue_handshakes\<close> as a value, because the code keeps no other pointer to it.
  Printing under \<open>_watch_power_gating\<close> is left out.
\<close>

subsection \<open>Receiving\<close>

text \<open>\<open>ins\<close> is what the four handshake channels deliver in this cycle.\<close>

definition ReceiveHandshakes :: "handshake option list \<Rightarrow> flov_router \<Rightarrow> flov_router" where
  "ReceiveHandshakes ins r =
     fold (\<lambda>i r. case ins ! i of
             None \<Rightarrow> r
           | Some h \<Rightarrow> r\<lparr>proc_handshakes := proc_handshakes r @ [(i, h)]\<rparr>) [0..<4] r"

subsection \<open>First pass: the receiver's own state\<close>

definition forget_sent :: "nat \<Rightarrow> flov_router \<Rightarrow> flov_router" where
  "forget_sent i r = r\<lparr>drain_done_sent := (drain_done_sent r)[i := False]\<rparr>"

definition full_credits :: "nat \<Rightarrow> flov_router \<Rightarrow> flov_router" where
  "full_credits i r = r\<lparr>next_buf := (next_buf r)[i := FullCredits (next_buf r ! i)]\<rparr>"

definition clear_credits :: "nat \<Rightarrow> flov_router \<Rightarrow> flov_router" where
  "clear_credits i r = r\<lparr>next_buf := (next_buf r)[i := ClearCredits (next_buf r ! i)]\<rparr>"

definition zero_counters :: "nat \<Rightarrow> flov_router \<Rightarrow> flov_router" where
  "zero_counters i r = fold (\<lambda>vc r. r\<lparr>credit_counter :=
     (credit_counter r)[i := (credit_counter r ! i)[vc := 0]]\<rparr>) [0..<vcs r] r"

definition note_hid :: "nat \<Rightarrow> handshake \<Rightarrow> flov_router \<Rightarrow> flov_router" where
  "note_hid i h r = r\<lparr>resp_hids := (resp_hids r)[i := hid h]\<rparr>"

definition hs_power_on :: "nat \<Rightarrow> handshake \<Rightarrow> flov_router \<Rightarrow> flov_router option" where
  "hs_power_on i h r =
     (let ds = downstream_states r ! i in
      case src_state h of
        None \<Rightarrow> Some r
      | Some power_on \<Rightarrow> do {
          assertion (new_state h = Some power_on);
          assertion (ds = draining \<or> ds = wakeup);
          assertion (ds = wakeup \<longrightarrow> drain_done_sent r ! i);
          Some (note_hid i h (forget_sent i (if ds = wakeup then full_credits i r else r)))
        }
      | Some draining \<Rightarrow> do {
          assertion (new_state h = Some draining);
          assertion (ds = power_on);
          Some (note_hid i h (forget_sent i r))
        }
      | Some wakeup \<Rightarrow> do {
          assertion (ds \<noteq> wakeup);
          Some (note_hid i h (forget_sent i r))
        }
      | Some power_off \<Rightarrow> do {
          assertion (ds = draining);
          assertion (drain_done_sent r ! i);
          Some (note_hid i h (clear_credits i (forget_sent i r)))
        })"

definition draining_state_change :: "nat \<Rightarrow> handshake \<Rightarrow> flov_router \<Rightarrow> flov_router option" where
  "draining_state_change i h r =
     (let ds = downstream_states r ! i in
      case src_state h of
        None \<Rightarrow> Some r
      | Some power_on \<Rightarrow> do {
          assertion (ds = draining);
          Some (note_hid i h (forget_sent i r))
        }
      | Some draining \<Rightarrow> do {
          assertion (ds = power_on);
          Some (note_hid i h (forget_sent i r))
        }
      | Some wakeup \<Rightarrow> do {
          assertion (ds \<noteq> wakeup);
          Some (note_hid i h (forget_sent i r))
        }
      | Some power_off \<Rightarrow> None)"

definition hs_draining :: "nat \<Rightarrow> handshake \<Rightarrow> flov_router \<Rightarrow> flov_router option" where
  "hs_draining i h r0 = do {
     r \<leftarrow> draining_state_change i h r0;
     (if drain_done h then do {
        assertion (downstream_states r ! i = power_on \<or> new_state h = Some power_on \<or>
                   (src_state h = None \<and> new_state h = None));
        (if hid h = req_hids r ! i then do {
           assertion (\<not> drain_tags r ! i);
           Some (r\<lparr>drain_tags := (drain_tags r)[i := True]\<rparr>)
         } else Some r)
      } else Some r)
   }"

definition hs_power_off :: "nat \<Rightarrow> handshake \<Rightarrow> flov_router \<Rightarrow> flov_router option" where
  "hs_power_off i h r =
     (let ds = downstream_states r ! i in
      case src_state h of
        None \<Rightarrow> Some r
      | Some power_on \<Rightarrow> do {
          assertion (ds = draining \<or> ds = wakeup);
          Some (note_hid i h (if ds = wakeup then full_credits i (zero_counters i r) else r))
        }
      | Some draining \<Rightarrow> do {
          assertion (ds = power_on);
          Some (note_hid i h r)
        }
      | Some wakeup \<Rightarrow> do {
          assertion (ds \<noteq> wakeup \<and> ds \<noteq> draining);
          Some (note_hid i h r)
        }
      | Some power_off \<Rightarrow> do {
          assertion (ds = draining \<or> ds = wakeup);
          Some (note_hid i h (clear_credits i (zero_counters i r)))
        })"

definition wakeup_state_change :: "nat \<Rightarrow> handshake \<Rightarrow> flov_router \<Rightarrow> flov_router option" where
  "wakeup_state_change i h r =
     (let ds = downstream_states r ! i in
      case src_state h of
        None \<Rightarrow> Some r
      | Some power_on \<Rightarrow> do {
          assertion (ds = draining \<or> ds = wakeup);
          assertion (ds = wakeup \<longrightarrow> drain_tags r ! opp i);
          Some (note_hid i h (if ds = wakeup then full_credits i (zero_counters i r) else r))
        }
      | Some draining \<Rightarrow> do {
          assertion (\<not> drain_done h);
          assertion (ds = power_on);
          Some (note_hid i h r)
        }
      | Some wakeup \<Rightarrow> do {
          assertion (\<not> drain_done h);
          assertion (ds \<noteq> wakeup);
          Some (note_hid i h (forget_sent i r))
        }
      | Some power_off \<Rightarrow> do {
          assertion (ds = draining \<or> ds = wakeup);
          Some (note_hid i h (clear_credits i (zero_counters i r)))
        })"

definition hs_wakeup_arm :: "nat \<Rightarrow> handshake \<Rightarrow> flov_router \<Rightarrow> flov_router option" where
  "hs_wakeup_arm i h r0 = do {
     r \<leftarrow> wakeup_state_change i h r0;
     (if drain_done h then do {
        assertion (new_state h = None \<or> new_state h = Some power_on);
        Some (if hid h = req_hids r ! i
              then r\<lparr>drain_tags := (drain_tags r)[i := True]\<rparr> else r)
      } else Some r)
   }"

definition hs_receive :: "nat \<Rightarrow> handshake \<Rightarrow> flov_router \<Rightarrow> flov_router option" where
  "hs_receive i h r =
     (case power_state r of
        power_on \<Rightarrow> hs_power_on i h r
      | draining \<Rightarrow> hs_draining i h r
      | power_off \<Rightarrow> hs_power_off i h r
      | wakeup \<Rightarrow> hs_wakeup_arm i h r)"

text \<open>The update that follows in the same turn of the loop.  New downstream states are collected in
  a copy \<open>nds\<close>, so that every handshake of this cycle is judged against the states of the
  cycle before.  The neighbour test compares ids only.\<close>

definition is_neighbor_id :: "nat \<Rightarrow> nat \<Rightarrow> int \<Rightarrow> bool" where
  "is_neighbor_id gK i j \<longleftrightarrow> int i - j \<in> {-1, 1, - int gK, int gK}"

definition hs_update ::
  "nat \<Rightarrow> nat \<Rightarrow> handshake \<Rightarrow> flov_router \<Rightarrow> power_state list
     \<Rightarrow> (flov_router \<times> power_state list) option" where
  "hs_update gK i h r nds = do {
     (r1, nds1) \<leftarrow> (case new_state h of
        None \<Rightarrow> Some (r, nds)
      | Some s \<Rightarrow>
          if is_neighbor_id gK (rid r) (hs_id h)
          then (case src_state h of
                  None \<Rightarrow> None
                | Some t \<Rightarrow> Some (r\<lparr>neighbor_states := (neighbor_states r)[i := t]\<rparr>, nds[i := s]))
          else Some (r, nds[i := s]));
     Some (if logical_neighbor h \<ge> 0
             then r1\<lparr>logical_neighbors := (logical_neighbors r1)[i := logical_neighbor h]\<rparr>
           else if nds1 ! i = power_off
             then r1\<lparr>logical_neighbors := (logical_neighbors r1)[i := -1]\<rparr>
           else r1, nds1)
   }"

definition hs_turn ::
  "nat \<Rightarrow> nat \<times> handshake \<Rightarrow> flov_router \<times> power_state list
     \<Rightarrow> (flov_router \<times> power_state list) option" where
  "hs_turn gK ih s =
     (if \<not> fst ih < 4 then None
      else do { r \<leftarrow> hs_receive (fst ih) (snd ih) (fst s); hs_update gK (fst ih) (snd ih) r (snd s) })"

subsection \<open>Second pass: relay or free\<close>

text \<open>The drain tag a waking router passes on towards \<open>p\<close>.\<close>

definition pass_drain_tag :: "nat \<Rightarrow> flov_router \<Rightarrow> flov_router" where
  "pass_drain_tag p r =
     (let q = (if om_count p (out_queue_handshakes r) then out_queue_handshakes r
               else om_insert p (Handshake_New\<lparr>hs_id := int (rid r)\<rparr>) (out_queue_handshakes r));
          h = the (map_of q p)
      in r\<lparr>out_queue_handshakes := om_put p (h\<lparr>drain_done := True, hid := resp_hids r ! p\<rparr>) q,
           drain_done_sent := (drain_done_sent r)[p := True]\<rparr>)"

definition wakeup_tags :: "nat \<Rightarrow> handshake \<Rightarrow> flov_router \<Rightarrow> flov_router" where
  "wakeup_tags i h r =
     (let out = opp i in
      if drain_done h \<and> drain_tags r ! i \<and> downstream_states r ! i \<noteq> power_off \<and>
         downstream_states r ! out = wakeup \<and> \<not> drain_done_sent r ! out
      then pass_drain_tag out r
      else if drain_tags r ! out \<and> downstream_states r ! out \<noteq> power_off \<and>
         downstream_states r ! i = wakeup \<and> \<not> drain_done_sent r ! i
      then pass_drain_tag i r
      else r)"

definition relay_wakeup :: "nat \<Rightarrow> nat \<Rightarrow> handshake \<Rightarrow> flov_router \<Rightarrow> flov_router option" where
  "relay_wakeup gK i h r =
     (if at_far_edge gK (rid r) i then Some r
      else let out = opp i;
               r1 = wakeup_tags i h r;
               put = (\<lambda>g. r1\<lparr>out_queue_handshakes := om_put out g (out_queue_handshakes r1)\<rparr>)
           in case map_of (out_queue_handshakes r1) out of
                None \<Rightarrow> Some (if src_state h = Some power_off then put (h\<lparr>new_state := None\<rparr>) else r1)
              | Some g \<Rightarrow>
                  if hs_id g \<noteq> hs_id h then do {
                    assertion (hs_id g = int (rid r1));
                    assertion (drain_done g);
                    Some (if src_state h = Some power_off
                          then put (g\<lparr>src_state := Some power_off\<rparr>) else r1)
                  } else do {
                    assertion (drain_done h);
                    Some (put (g\<lparr>new_state := None,
                      src_state := (if src_state h = Some power_off then Some power_off else None),
                      hid := resp_hids r1 ! out\<rparr>))
                  })"

text \<open>A sleeping router relays what it got, but a drain tag only towards a router that waits for
  one.\<close>

definition mask_tag :: "flov_router \<Rightarrow> nat \<Rightarrow> handshake \<Rightarrow> handshake" where
  "mask_tag r out h =
     (if \<not> (downstream_states r ! out = draining \<or> downstream_states r ! out = wakeup) \<and> drain_done h
      then h\<lparr>drain_done := False\<rparr> else h)"

definition relay_power_off :: "nat \<Rightarrow> nat \<Rightarrow> handshake \<Rightarrow> flov_router \<Rightarrow> flov_router option" where
  "relay_power_off gK i h0 r =
     (let out = opp i in do {
        assertion (\<not> om_count out (out_queue_handshakes r));
        (if at_edge gK (rid r) out then Some r
         else let h = mask_tag r out h0 in
              if new_state h \<noteq> None \<or> src_state h \<noteq> None \<or> drain_done h
              then Some (r\<lparr>out_queue_handshakes := om_insert out h (out_queue_handshakes r)\<rparr>)
              else Some r)
      })"

definition hs_relay :: "nat \<Rightarrow> nat \<times> handshake \<Rightarrow> flov_router \<Rightarrow> flov_router option" where
  "hs_relay gK ih r =
     (case power_state r of
        power_on \<Rightarrow> Some r
      | draining \<Rightarrow> Some r
      | wakeup \<Rightarrow> relay_wakeup gK (fst ih) (snd ih) r
      | power_off \<Rightarrow> relay_power_off gK (fst ih) (snd ih) r)"

definition HandshakeEvaluate :: "nat \<Rightarrow> flov_router \<Rightarrow> flov_router option" where
  "HandshakeEvaluate gK r = do {
     assertion (out_queue_handshakes r = []);
     (r1, nds) \<leftarrow> foldM (hs_turn gK) (proc_handshakes r) (r, downstream_states r);
     r2 \<leftarrow> foldM (hs_relay gK) (proc_handshakes r1) (r1\<lparr>downstream_states := nds\<rparr>);
     Some (r2\<lparr>proc_handshakes := []\<rparr>)
   }"

subsection \<open>Answering a drain request\<close>

text \<open>What \<open>_HandshakeResponse\<close> checks before it sends a drain tag through \<open>out\<close>: no VC of the
  other inputs holds a packet for it, no flit is on its way there through the crossbar, and
  nothing waits in the output buffer.\<close>

definition vcs_clear :: "nat \<Rightarrow> flov_router \<Rightarrow> bool" where
  "vcs_clear out r \<longleftrightarrow>
     list_all (\<lambda>i. let p = (out + i) mod inputs r in
       list_all (\<lambda>vc. \<not> (GetOutputPort vc (buf r ! p) = int out \<and> GetState vc (buf r ! p) = active))
         [0..<vcs r]) [1..<inputs r]"

fun crossbar_clear ::
  "int \<Rightarrow> nat \<Rightarrow> nat \<Rightarrow> nat \<Rightarrow> (int \<times> flit \<times> nat \<times> nat) list \<Rightarrow> bool option" where
  "crossbar_clear now outs speedup out [] = Some True"
| "crossbar_clear now outs speedup out ((time, f, expanded_input, expanded_output) # xs) =
     (if \<not> time \<le> now then None
      else if \<not> expanded_output div speedup < outs then None
      else if expanded_output div speedup = out then Some False
      else crossbar_clear now outs speedup out xs)"

definition drained_towards :: "int \<Rightarrow> nat \<Rightarrow> flov_router \<Rightarrow> bool option" where
  "drained_towards now out r =
     (if \<not> vcs_clear out r then Some False
      else case crossbar_clear now (outputs r) (output_speedup r) out (crossbar_flits r) of
        None \<Rightarrow> None
      | Some b \<Rightarrow> Some (b \<and> output_buffer r ! out = []))"

definition send_drain_tag :: "nat \<Rightarrow> flov_router \<Rightarrow> flov_router option" where
  "send_drain_tag out r = do {
     assertion (om_count out (out_queue_handshakes r) \<longrightarrow>
       new_state (the (map_of (out_queue_handshakes r) out)) = Some (power_state r));
     (let q = om_insert out Handshake_New (out_queue_handshakes r);
          h = the (map_of q out)
      in Some (r\<lparr>out_queue_handshakes :=
                   om_put out (h\<lparr>drain_done := True, hs_id := int (rid r), hid := resp_hids r ! out\<rparr>) q,
                 drain_done_sent := (drain_done_sent r)[out := True]\<rparr>))
   }"

definition respond_port :: "int \<Rightarrow> nat \<Rightarrow> flov_router \<Rightarrow> flov_router option" where
  "respond_port now out r =
     (if (downstream_states r ! out = draining \<or> downstream_states r ! out = wakeup) \<and>
         \<not> drain_done_sent r ! out
      then do { b \<leftarrow> drained_towards now out r; if b then send_drain_tag out r else Some r }
      else Some r)"

definition HandshakeResponse :: "int \<Rightarrow> flov_router \<Rightarrow> flov_router option" where
  "HandshakeResponse now r = do {
     assertion (power_state r = power_on \<or> power_state r = draining);
     foldM (respond_port now) [0..<4] r
   }"

subsection \<open>Sending\<close>

text \<open>The second half of \<open>_OutputQueuing\<close>.  A handshake's \<open>wakeup\<close> field is an \<open>int\<close> that is
  \<open>-1\<close> after \<open>New\<close> and never written, so the first part of this check always holds.\<close>

definition queue_outgoing :: "nat \<times> handshake \<Rightarrow> flov_router \<Rightarrow> flov_router option" where
  "queue_outgoing oh r = do {
     assertion (fst oh < 4);
     assertion ((new_state (snd oh) \<noteq> None \<or> drain_done (snd oh) \<or> hs_wakeup (snd oh) \<noteq> 0) \<and>
                hs_id (snd oh) \<ge> 0);
     Some (r\<lparr>handshake_buffer := (handshake_buffer r)
       [fst oh := handshake_buffer r ! fst oh @ [snd oh]]\<rparr>)
   }"

definition OutputQueuing_handshakes :: "flov_router \<Rightarrow> flov_router option" where
  "OutputQueuing_handshakes r =
     map_option (\<lambda>r. r\<lparr>out_queue_handshakes := []\<rparr>)
       (foldM queue_outgoing (out_queue_handshakes r) r)"

definition queue_credit :: "nat \<times> credit \<Rightarrow> flov_router \<Rightarrow> flov_router option" where
  "queue_credit ic r = do {
     assertion (fst ic < inputs r);
     assertion (c_vc (snd ic) \<noteq> []);
     Some (r\<lparr>credit_buffer := (credit_buffer r)[fst ic := credit_buffer r ! fst ic @ [snd ic]]\<rparr>)
   }"

definition OutputQueuing :: "flov_router \<Rightarrow> flov_router option" where
  "OutputQueuing r = do {
     r1 \<leftarrow> foldM queue_credit (out_queue_credits r) r;
     OutputQueuing_handshakes (r1\<lparr>out_queue_credits := []\<rparr>)
   }"

text \<open>The result is the router and what it hands to each of the four handshake channels.\<close>

definition send_port :: "nat \<Rightarrow> flov_router \<times> handshake option list
    \<Rightarrow> flov_router \<times> handshake option list" where
  "send_port out s =
     (case handshake_buffer (fst s) ! out of
        [] \<Rightarrow> (fst s, snd s @ [None])
      | h # hs \<Rightarrow> ((fst s)\<lparr>handshake_buffer := (handshake_buffer (fst s))[out := hs]\<rparr>,
                   snd s @ [Some h]))"

definition SendHandshakes :: "flov_router \<Rightarrow> flov_router \<times> handshake option list" where
  "SendHandshakes r = fold send_port [0..<4] (r, [])"

end
