(* ===== verification/Handshake_Properties.thy ===== *)
theory Handshake_Properties
  imports Handshakes Power_Properties
begin

text \<open>
  What one \<open>_HandshakeEvaluate\<close> does to each port of the router, that a sleeping router is
  transparent for handshakes, that a drain tag is sent only once nothing is on its way to the
  router that asked, and that a request, its answer and the collection of the tag fit together.
\<close>

subsection \<open>A loop over ports\<close>

lemma foldM_ports:
  assumes "foldM f ihs s = Some t" and "distinct (map fst ihs)" and "I s"
    and "\<And>i h s s'. (i, h) \<in> set ihs \<Longrightarrow> I s \<Longrightarrow> f (i, h) s = Some s' \<Longrightarrow>
       I s' \<and> (\<forall>j. v s' j = (if j = i then upd h i (v s i) else v s j))"
  shows "I t \<and> (\<forall>j. v t j = (case map_of ihs j of None \<Rightarrow> v s j | Some h \<Rightarrow> upd h j (v s j)))"
  using assms
proof (induction ihs arbitrary: s)
  case Nil
  then show ?case by simp
next
  case (Cons ih ihs)
  obtain i h where ih: "ih = (i, h)" by (cases ih)
  from Cons.prems(1) obtain u where u: "f (i, h) s = Some u" and rest: "foldM f ihs u = Some t"
    by (auto simp: ih split: option.splits)
  have step: "I u" "\<forall>j. v u j = (if j = i then upd h i (v s i) else v s j)"
    using Cons.prems(4) [of i h s u] Cons.prems(3) u by (auto simp: ih)
  have "I t \<and> (\<forall>j. v t j = (case map_of ihs j of None \<Rightarrow> v u j | Some h \<Rightarrow> upd h j (v u j)))"
    by (rule Cons.IH [OF rest _ step(1)]) (use Cons.prems(2,4) in \<open>auto simp: ih\<close>)
  moreover have "map_of ihs i = None"
    using Cons.prems(2) by (auto simp: ih map_of_eq_None_iff)
  ultimately show ?case using step(2) by (auto simp: ih split: option.splits)
qed

subsection \<open>One turn of the first loop\<close>

text \<open>What a handshake does to the credits the receiver holds for the port it came through.\<close>

definition credit_effect :: "handshake \<Rightarrow> power_state \<Rightarrow> buffer_state \<Rightarrow> buffer_state" where
  "credit_effect h ds bs =
     (case src_state h of
        Some power_off \<Rightarrow> ClearCredits bs
      | Some power_on \<Rightarrow> if ds = wakeup then FullCredits bs else bs
      | _ \<Rightarrow> bs)"

definition takes_tag :: "flov_router \<Rightarrow> nat \<Rightarrow> handshake \<Rightarrow> bool" where
  "takes_tag r i h \<longleftrightarrow> (power_state r = draining \<or> power_state r = wakeup) \<and>
     drain_done h \<and> hid h = req_hids r ! i"

text \<open>Fields \<open>_HandshakeEvaluate\<close> only reads in the first loop.\<close>

definition hs_frame :: "flov_router \<Rightarrow> flov_router \<Rightarrow> bool" where
  "hs_frame r r' \<longleftrightarrow> rid r' = rid r \<and> power_state r' = power_state r \<and>
     downstream_states r' = downstream_states r \<and> req_hids r' = req_hids r \<and>
     out_queue_handshakes r' = out_queue_handshakes r \<and> proc_handshakes r' = proc_handshakes r \<and>
     vcs r' = vcs r \<and> inputs r' = inputs r"

lemma hs_frame_refl [simp]: "hs_frame r r"
  by (simp add: hs_frame_def)

lemma hs_frame_trans: "hs_frame r s \<Longrightarrow> hs_frame s t \<Longrightarrow> hs_frame r t"
  by (simp add: hs_frame_def)

lemma zero_counters_eq: "\<exists>c. zero_counters i r = r\<lparr>credit_counter := c\<rparr>"
proof -
  have "\<exists>c. fold (\<lambda>vc r. r\<lparr>credit_counter :=
     (credit_counter r)[i := (credit_counter r ! i)[vc := 0]]\<rparr>) vs s = s\<lparr>credit_counter := c\<rparr>"
    for vs and s :: flov_router
  proof (induction vs arbitrary: s)
    case Nil
    show ?case by (rule exI [of _ "credit_counter s"]) simp
  next
    case (Cons v vs)
    show ?case
      using Cons [of "s\<lparr>credit_counter := (credit_counter s)[i := (credit_counter s ! i)[v := 0]]\<rparr>"]
      by auto
  qed
  then show ?thesis by (simp add: zero_counters_def)
qed

lemma zero_counters_simps [simp]:
  "next_buf (zero_counters i r) = next_buf r" "drain_tags (zero_counters i r) = drain_tags r"
  "resp_hids (zero_counters i r) = resp_hids r" "hs_frame r (zero_counters i r)"
  "neighbor_states (zero_counters i r) = neighbor_states r"
  "logical_neighbors (zero_counters i r) = logical_neighbors r"
  "drain_done_sent (zero_counters i r) = drain_done_sent r"
  "ports_wf (zero_counters i r) = ports_wf r"
  using zero_counters_eq [of i r] by (auto simp: hs_frame_def ports_wf_def)

lemmas receive_defs = hs_power_on_def hs_draining_def draining_state_change_def hs_power_off_def
  hs_wakeup_arm_def wakeup_state_change_def Let_def

lemmas receive_effects = forget_sent_def full_credits_def clear_credits_def note_hid_def
  credit_effect_def takes_tag_def

definition received :: "nat \<Rightarrow> handshake \<Rightarrow> flov_router \<Rightarrow> flov_router \<Rightarrow> bool" where
  "received i h r r' \<longleftrightarrow> hs_frame r r' \<and>
     next_buf r' = (next_buf r)[i := credit_effect h (downstream_states r ! i) (next_buf r ! i)] \<and>
     drain_tags r' = (drain_tags r)[i := drain_tags r ! i \<or> takes_tag r i h] \<and>
     resp_hids r' = (resp_hids r)[i := if src_state h = None then resp_hids r ! i else hid h] \<and>
     neighbor_states r' = neighbor_states r \<and> logical_neighbors r' = logical_neighbors r \<and>
     length (drain_done_sent r') = length (drain_done_sent r)"

lemma hs_power_on_received:
  assumes "hs_power_on i h r = Some r'" and "power_state r = power_on"
  shows "received i h r r'"
  using assms
  by (cases "src_state h"; cases "the (src_state h)")
    (auto simp: received_def receive_defs receive_effects hs_frame_def split: if_splits)

lemma hs_power_off_received:
  assumes "hs_power_off i h r = Some r'" and "power_state r = power_off"
  shows "received i h r r'"
  using assms zero_counters_eq [of i r]
  by (cases "src_state h"; cases "the (src_state h)")
    (auto simp: received_def receive_defs receive_effects hs_frame_def split: if_splits)

lemma draining_state_change_received:
  assumes "draining_state_change i h r = Some s" and "power_state r = draining"
  shows "received i (h\<lparr>drain_done := False\<rparr>) r s"
  using assms
  by (cases "src_state h"; cases "the (src_state h)")
    (auto simp: received_def receive_defs receive_effects hs_frame_def split: if_splits)

lemma wakeup_state_change_received:
  assumes "wakeup_state_change i h r = Some s" and "power_state r = wakeup"
  shows "received i (h\<lparr>drain_done := False\<rparr>) r s"
  using assms zero_counters_eq [of i r]
  by (cases "src_state h"; cases "the (src_state h)")
    (auto simp: received_def receive_defs receive_effects hs_frame_def split: if_splits)

lemma received_tag:
  assumes "received i (h\<lparr>drain_done := False\<rparr>) r s"
    and "r' = (if takes_tag r i h then s\<lparr>drain_tags := (drain_tags s)[i := True]\<rparr> else s)"
  shows "received i h r r'"
proof -
  have t: "drain_tags s = drain_tags r"
    using assms(1) by (simp add: received_def takes_tag_def)
  have c: "credit_effect (h\<lparr>drain_done := False\<rparr>) = credit_effect h"
    by (simp add: credit_effect_def fun_eq_iff)
  show ?thesis
    using assms t by (simp add: received_def hs_frame_def c)
qed

lemma hs_receive_received:
  assumes "hs_receive i h r = Some r'"
  shows "received i h r r'"
proof (cases "power_state r")
  case power_off
  then show ?thesis using assms hs_power_off_received by (simp add: hs_receive_def)
next
  case power_on
  then show ?thesis using assms hs_power_on_received by (simp add: hs_receive_def)
next
  case draining
  then obtain s where s: "draining_state_change i h r = Some s"
    and r': "r' = (if drain_done h \<and> hid h = req_hids s ! i
      then s\<lparr>drain_tags := (drain_tags s)[i := True]\<rparr> else s)"
    using assms by (auto simp: hs_receive_def hs_draining_def split: Option.bind_splits if_splits)
  from draining_state_change_received [OF s draining] show ?thesis
    by (rule received_tag)
      (use r' draining draining_state_change_received [OF s draining] in
        \<open>simp add: takes_tag_def received_def hs_frame_def\<close>)
next
  case wakeup
  then obtain s where s: "wakeup_state_change i h r = Some s"
    and r': "r' = (if drain_done h \<and> hid h = req_hids s ! i
      then s\<lparr>drain_tags := (drain_tags s)[i := True]\<rparr> else s)"
    using assms by (auto simp: hs_receive_def hs_wakeup_arm_def split: Option.bind_splits if_splits)
  from wakeup_state_change_received [OF s wakeup] show ?thesis
    by (rule received_tag)
      (use r' wakeup wakeup_state_change_received [OF s wakeup] in
        \<open>simp add: takes_tag_def received_def hs_frame_def\<close>)
qed

text \<open>The port of a router as the first loop changes it: the credits held for it, its drain tag, the
  id of the last request, and the recorded states.\<close>

record port_view =
  pv_next :: buffer_state
  pv_tag :: bool
  pv_resp :: int
  pv_seen :: power_state
  pv_neighbor :: power_state
  pv_logical :: int

definition view :: "flov_router \<times> power_state list \<Rightarrow> nat \<Rightarrow> port_view" where
  "view s j = \<lparr>pv_next = next_buf (fst s) ! j, pv_tag = drain_tags (fst s) ! j,
     pv_resp = resp_hids (fst s) ! j, pv_seen = snd s ! j,
     pv_neighbor = neighbor_states (fst s) ! j, pv_logical = logical_neighbors (fst s) ! j\<rparr>"

text \<open>The specification of one turn, for router \<open>r\<close> as it was when the loop began.\<close>

definition view_update :: "nat \<Rightarrow> flov_router \<Rightarrow> handshake \<Rightarrow> nat \<Rightarrow> port_view \<Rightarrow> port_view" where
  "view_update gK r h i p =
     (let seen = (case new_state h of None \<Rightarrow> pv_seen p | Some s \<Rightarrow> s) in
      \<lparr>pv_next = credit_effect h (downstream_states r ! i) (pv_next p),
       pv_tag = (pv_tag p \<or> takes_tag r i h),
       pv_resp = (if src_state h = None then pv_resp p else hid h),
       pv_seen = seen,
       pv_neighbor = (if new_state h \<noteq> None \<and> is_neighbor_id gK (rid r) (hs_id h)
                      then the (src_state h) else pv_neighbor p),
       pv_logical = (if logical_neighbor h \<ge> 0 then logical_neighbor h
                     else if seen = power_off then -1 else pv_logical p)\<rparr>)"

definition shape :: "flov_router \<times> power_state list \<Rightarrow> bool" where
  "shape s \<longleftrightarrow> length (next_buf (fst s)) = 5 \<and> length (drain_tags (fst s)) = 4 \<and>
     length (resp_hids (fst s)) = 4 \<and> length (neighbor_states (fst s)) = 4 \<and>
     length (logical_neighbors (fst s)) = 4 \<and> length (snd s) = 4"

lemma hs_update_effect:
  assumes "hs_update gK i h r nds = Some (r', nds')"
  shows "hs_frame r r' \<and> next_buf r' = next_buf r \<and> drain_tags r' = drain_tags r \<and>
    resp_hids r' = resp_hids r \<and> drain_done_sent r' = drain_done_sent r \<and>
    nds' = (case new_state h of None \<Rightarrow> nds | Some s \<Rightarrow> nds[i := s]) \<and>
    neighbor_states r' = (if new_state h \<noteq> None \<and> is_neighbor_id gK (rid r) (hs_id h)
      then (neighbor_states r)[i := the (src_state h)] else neighbor_states r) \<and>
    logical_neighbors r' = (if logical_neighbor h \<ge> 0 then (logical_neighbors r)[i := logical_neighbor h]
      else if nds' ! i = power_off then (logical_neighbors r)[i := -1] else logical_neighbors r)"
  using assms
  by (auto simp: hs_update_def hs_frame_def split: option.splits if_splits)

lemma hs_turn_view:
  assumes "hs_turn gK (i, h) s = Some s'" and "shape s"
  shows "shape s' \<and> hs_frame (fst s) (fst s') \<and>
    (\<forall>j. view s' j = (if j = i then view_update gK (fst s) h i (view s i) else view s j))"
proof -
  obtain r nds where s: "s = (r, nds)" by (cases s)
  obtain r' nds' where s': "s' = (r', nds')" by (cases s')
  from assms(1) obtain u where i: "i < 4" and u: "hs_receive i h r = Some u"
    and up: "hs_update gK i h u nds = Some (r', nds')"
    by (auto simp: hs_turn_def s s' split: if_splits Option.bind_splits)
  have rc: "received i h r u" by (rule hs_receive_received [OF u])
  note e = hs_update_effect [OF up]
  have f: "hs_frame r r'" using rc e hs_frame_trans by (auto simp: received_def)
  have rid: "rid u = rid r" using rc by (simp add: received_def hs_frame_def)
  have sh: "shape (r', nds')"
    using assms(2) rc e by (auto simp: shape_def s received_def split: option.splits)
  have len: "i < length (next_buf r)" "i < length (drain_tags r)" "i < length (resp_hids r)"
    "i < length (neighbor_states r)" "i < length (logical_neighbors r)" "i < length nds"
    using assms(2) i by (simp_all add: shape_def s)
  have eqs: "next_buf r' = (next_buf r)[i := credit_effect h (downstream_states r ! i) (next_buf r ! i)]"
    "drain_tags r' = (drain_tags r)[i := drain_tags r ! i \<or> takes_tag r i h]"
    "resp_hids r' = (resp_hids r)[i := if src_state h = None then resp_hids r ! i else hid h]"
    "neighbor_states r' = (if new_state h \<noteq> None \<and> is_neighbor_id gK (rid r) (hs_id h)
      then (neighbor_states r)[i := the (src_state h)] else neighbor_states r)"
    "logical_neighbors r' = (if logical_neighbor h \<ge> 0 then (logical_neighbors r)[i := logical_neighbor h]
      else if nds' ! i = power_off then (logical_neighbors r)[i := -1] else logical_neighbors r)"
    "nds' = (case new_state h of None \<Rightarrow> nds | Some s \<Rightarrow> nds[i := s])"
    using rc e rid by (simp_all add: received_def)
  have at: "view (r', nds') i = view_update gK r h i (view (r, nds) i)"
    using len by (simp add: view_def view_update_def eqs Let_def split: option.split)
  have other: "view (r', nds') j = view (r, nds) j" if "j \<noteq> i" for j
    using that by (auto simp: view_def eqs split: option.split)
  show ?thesis using sh f at other by (simp add: s s')
qed

lemma first_loop_view:
  assumes "foldM (hs_turn gK) ihs (r, nds) = Some (r', nds')" and "distinct (map fst ihs)"
    and "shape (r, nds)"
  shows "shape (r', nds') \<and> hs_frame r r' \<and>
    (\<forall>j. view (r', nds') j =
       (case map_of ihs j of None \<Rightarrow> view (r, nds) j | Some h \<Rightarrow> view_update gK r h j (view (r, nds) j)))"
proof -
  let ?I = "\<lambda>s. shape s \<and> hs_frame r (fst s)"
  have "?I (r', nds') \<and> (\<forall>j. view (r', nds') j =
       (case map_of ihs j of None \<Rightarrow> view (r, nds) j | Some h \<Rightarrow> view_update gK r h j (view (r, nds) j)))"
    using assms(1,2)
  proof (rule foldM_ports)
    show "?I (r, nds)" using assms(3) by simp
  next
    fix i h s s'
    assume I: "?I s" and step: "hs_turn gK (i, h) s = Some s'"
    have "view_update gK (fst s) h i = view_update gK r h i"
      using I by (simp add: fun_eq_iff view_update_def hs_frame_def takes_tag_def)
    with hs_turn_view [OF step] I hs_frame_trans show "?I s' \<and>
        (\<forall>j. view s' j = (if j = i then view_update gK r h i (view s i) else view s j))"
      by auto
  qed
  then show ?thesis by simp
qed

subsection \<open>The second loop leaves the ports alone\<close>

definition relay_frame :: "flov_router \<Rightarrow> flov_router \<Rightarrow> bool" where
  "relay_frame r r' \<longleftrightarrow> (\<exists>q d. r' = r\<lparr>out_queue_handshakes := q, drain_done_sent := d\<rparr>)"

lemma relay_frame_refl [simp]: "relay_frame r r"
  unfolding relay_frame_def
  by (rule exI [of _ "out_queue_handshakes r"], rule exI [of _ "drain_done_sent r"]) simp

lemma relay_frame_trans:
  assumes "relay_frame r s" and "relay_frame s t"
  shows "relay_frame r t"
proof -
  from assms obtain q d q' d' where
    "s = r\<lparr>out_queue_handshakes := q, drain_done_sent := d\<rparr>"
    "t = s\<lparr>out_queue_handshakes := q', drain_done_sent := d'\<rparr>"
    by (auto simp only: relay_frame_def)
  then have "t = r\<lparr>out_queue_handshakes := q', drain_done_sent := d'\<rparr>" by simp
  then show ?thesis unfolding relay_frame_def by blast
qed

lemma relay_frame_queue [simp]: "relay_frame r (r\<lparr>out_queue_handshakes := q\<rparr>)"
  unfolding relay_frame_def by (rule exI [of _ q], rule exI [of _ "drain_done_sent r"]) simp

lemma relay_frame_fields:
  assumes "relay_frame r r'"
  shows "rid r' = rid r" "power_state r' = power_state r" "downstream_states r' = downstream_states r"
    "next_buf r' = next_buf r" "drain_tags r' = drain_tags r" "resp_hids r' = resp_hids r"
    "req_hids r' = req_hids r" "neighbor_states r' = neighbor_states r"
    "logical_neighbors r' = logical_neighbors r" "credit_counter r' = credit_counter r"
    "buf r' = buf r" "vcs r' = vcs r" "inputs r' = inputs r" "outputs r' = outputs r"
    "crossbar_flits r' = crossbar_flits r" "output_speedup r' = output_speedup r"
    "output_buffer r' = output_buffer r"
  using assms by (auto simp: relay_frame_def)

lemma wakeup_tags_frame: "relay_frame r (wakeup_tags i h r)"
proof -
  have "relay_frame r (pass_drain_tag p r)" for p
    by (auto simp: relay_frame_def pass_drain_tag_def Let_def)
  then show ?thesis by (simp add: wakeup_tags_def Let_def)
qed

lemma relay_wakeup_frame:
  assumes "relay_wakeup gK i h r = Some r'"
  shows "relay_frame r r'"
proof -
  have "relay_frame (wakeup_tags i h r) r' \<or> r' = r"
    using assms by (auto simp: relay_wakeup_def Let_def split: if_splits option.splits)
  then show ?thesis using relay_frame_trans [OF wakeup_tags_frame [of r i h]] by auto
qed

lemma hs_relay_frame:
  assumes "hs_relay gK ih r = Some r'"
  shows "relay_frame r r'"
proof (cases "power_state r")
  case wakeup
  then show ?thesis using assms relay_wakeup_frame by (simp add: hs_relay_def)
qed (use assms in \<open>auto simp: hs_relay_def relay_power_off_def Let_def split: if_splits\<close>)

lemma relay_loop_frame:
  assumes "foldM (hs_relay gK) ihs r = Some r'"
  shows "relay_frame r r'"
  using assms
  by (rule foldM_invariant) (use hs_relay_frame relay_frame_trans in auto)

text \<open>C24: one \<open>_HandshakeEvaluate\<close>, in any power state, changes every port exactly as the handshake
  that came through it says, and no other port: the state seen downstream, the neighbour's own
  state when the sender is adjacent, the logical neighbour, the id of the last request, the drain
  tag, which is accepted only if the handshake answers the router's latest request, and the
  credits, which are cleared when the router behind the port falls asleep and restored when it is
  back.  All handshakes of the cycle are judged by the states of the cycle before.\<close>

theorem handshakes_update_ports:
  assumes "HandshakeEvaluate gK r = Some r'" and "distinct (map fst (proc_handshakes r))"
    and "shape (r, downstream_states r)"
  shows "power_state r' = power_state r \<and> rid r' = rid r \<and> proc_handshakes r' = [] \<and>
    (\<forall>j. view (r', downstream_states r') j =
       (case map_of (proc_handshakes r) j of
          None \<Rightarrow> view (r, downstream_states r) j
        | Some h \<Rightarrow> view_update gK r h j (view (r, downstream_states r) j)))"
proof -
  from assms(1) obtain r1 nds r2
    where 1: "foldM (hs_turn gK) (proc_handshakes r) (r, downstream_states r) = Some (r1, nds)"
      and 2: "foldM (hs_relay gK) (proc_handshakes r1) (r1\<lparr>downstream_states := nds\<rparr>) = Some r2"
      and r': "r' = r2\<lparr>proc_handshakes := []\<rparr>"
    by (auto simp: HandshakeEvaluate_def split: Option.bind_splits prod.splits)
  note v = first_loop_view [OF 1 assms(2,3)]
  have "relay_frame (r1\<lparr>downstream_states := nds\<rparr>) r2" by (rule relay_loop_frame [OF 2])
  note f = relay_frame_fields [OF this]
  have "view (r', downstream_states r') j = view (r1, nds) j" for j
    by (simp add: view_def r' f)
  with v f show ?thesis by (auto simp: r' hs_frame_def)
qed

definition example_awake :: flov_router where
  "example_awake = (example_router gflov power_on)
     \<lparr>proc_handshakes := [(0, Handshake_New\<lparr>new_state := Some draining, src_state := Some draining,
                              hs_id := 5, hid := 3\<rparr>)]\<rparr>"

lemma example_shape:
  "shape (example_router p s, downstream_states (example_router p s))"
  by (simp add: shape_def example_router_def FLOVRouter_init_def init_states_def
      init_logical_neighbors_def)

lemma example_awake_evaluates: "\<exists>r'. HandshakeEvaluate 3 example_awake = Some r'"
proof -
  let ?r = example_awake
  have ps: "power_state ?r = power_on" "downstream_states ?r ! 0 = power_on" "rid ?r = 4"
    "out_queue_handshakes ?r = []"
    by (simp_all add: example_awake_def example_router_fields)
  have "\<exists>s. hs_turn 3 (0, snd (hd (proc_handshakes ?r))) (?r, downstream_states ?r) = Some s \<and>
      power_state (fst s) = power_on"
    using ps by (simp add: hs_turn_def hs_receive_def hs_power_on_def hs_update_def Let_def
        note_hid_def forget_sent_def example_awake_def is_neighbor_id_def)
  then obtain t nds where t: "hs_turn 3 (0, snd (hd (proc_handshakes ?r))) (?r, downstream_states ?r)
      = Some (t, nds)" "power_state t = power_on" by auto
  have "foldM (hs_relay 3) hs u = Some u" if "power_state u = power_on" for hs and u :: flov_router
    using that by (induction hs) (simp_all add: hs_relay_def)
  with t ps show ?thesis
    by (simp add: HandshakeEvaluate_def example_awake_def)
qed

lemma handshakes_update_ports_witness:
  "\<exists>r'. HandshakeEvaluate 3 example_awake = Some r' \<and>
     pv_seen (view (r', downstream_states r') 0) = draining \<and>
     pv_resp (view (r', downstream_states r') 0) = 3"
proof -
  obtain r' where r': "HandshakeEvaluate 3 example_awake = Some r'"
    using example_awake_evaluates by blast
  have "shape (example_awake, downstream_states example_awake)"
    using example_shape [of gflov power_on] by (simp add: shape_def example_awake_def)
  from handshakes_update_ports [OF r' _ this] r' show ?thesis
    by (simp add: example_awake_def view_update_def Let_def)
qed

subsection \<open>A sleeping router is transparent\<close>

text \<open>Whether there is anything left to tell after the drain tag has been masked.\<close>

definition worth_relaying :: "handshake \<Rightarrow> bool" where
  "worth_relaying h \<longleftrightarrow> new_state h \<noteq> None \<or> src_state h \<noteq> None \<or> drain_done h"

lemma relay_power_off_step:
  assumes "relay_power_off gK i h r = Some r'" and "om_sorted (out_queue_handshakes r)"
  shows "om_sorted (out_queue_handshakes r') \<and> map_of (out_queue_handshakes r) (opp i) = None \<and>
    map_of (out_queue_handshakes r') =
      (if at_edge gK (rid r) (opp i) \<or> \<not> worth_relaying (mask_tag r (opp i) h)
       then map_of (out_queue_handshakes r)
       else (map_of (out_queue_handshakes r))(opp i \<mapsto> mask_tag r (opp i) h))"
  using assms
  by (auto simp: relay_power_off_def Let_def om_insert_sorted om_insert_lookup om_count_def
      worth_relaying_def split: if_splits)

text \<open>C25: a sleeping router is transparent for handshakes: what it got through one port and is worth
  relaying it sends on, unchanged, through the opposite port and through no other, except that a
  drain tag is stripped unless the router beyond is draining or waking up; what came in the
  direction of the edge of the mesh ends here.\<close>

theorem sleeping_router_relays:
  assumes "HandshakeEvaluate gK r = Some r'" and "power_state r = power_off"
    and "distinct (map fst (proc_handshakes r))" and "shape (r, downstream_states r)"
  shows "map_of (out_queue_handshakes r') out =
    (if at_edge gK (rid r) out then None
     else case map_of (proc_handshakes r) (opp out) of
            None \<Rightarrow> None
          | Some h \<Rightarrow> if worth_relaying (mask_tag r' out h) then Some (mask_tag r' out h) else None)"
proof -
  from assms(1) obtain r1 nds r2
    where 1: "foldM (hs_turn gK) (proc_handshakes r) (r, downstream_states r) = Some (r1, nds)"
      and 2: "foldM (hs_relay gK) (proc_handshakes r1) (r1\<lparr>downstream_states := nds\<rparr>) = Some r2"
      and r': "r' = r2\<lparr>proc_handshakes := []\<rparr>" and empty: "out_queue_handshakes r = []"
    by (auto simp: HandshakeEvaluate_def split: Option.bind_splits prod.splits)
  let ?t = "r1\<lparr>downstream_states := nds\<rparr>"
  have f: "hs_frame r r1" using first_loop_view [OF 1 assms(3,4)] by blast
  let ?I = "\<lambda>s. relay_frame ?t s \<and> om_sorted (out_queue_handshakes s)"
  let ?v = "\<lambda>s j. map_of (out_queue_handshakes s) (opp j)"
  let ?upd = "\<lambda>h j old. if at_edge gK (rid r) (opp j) \<or> \<not> worth_relaying (mask_tag ?t (opp j) h)
    then old else Some (mask_tag ?t (opp j) h)"
  have "?I r2 \<and> (\<forall>j. ?v r2 j = (case map_of (proc_handshakes r1) j of
      None \<Rightarrow> ?v ?t j | Some h \<Rightarrow> ?upd h j (?v ?t j)))"
    using 2
  proof (rule foldM_ports)
    show "distinct (map fst (proc_handshakes r1))" using assms(3) f by (simp add: hs_frame_def)
    show "?I ?t" using empty f by (simp add: hs_frame_def)
  next
    fix i h s s'
    assume I: "?I s" and step: "hs_relay gK (i, h) s = Some s'"
    have st: "power_state s = power_off" "rid s = rid r"
      using I relay_frame_fields [of ?t s] f assms(2) by (auto simp: hs_frame_def)
    have m: "mask_tag s = mask_tag ?t"
      using I relay_frame_fields [of ?t s] by (simp add: mask_tag_def fun_eq_iff)
    from step st have "relay_power_off gK i h s = Some s'" by (simp add: hs_relay_def)
    from relay_power_off_step [OF this] I relay_frame_trans hs_relay_frame [OF step]
    show "?I s' \<and> (\<forall>j. ?v s' j = (if j = i then ?upd h i (?v s i) else ?v s j))"
      by (auto simp: m st)
  qed
  then have "?v r2 (opp out) = (case map_of (proc_handshakes r1) (opp out) of
      None \<Rightarrow> ?v ?t (opp out) | Some h \<Rightarrow> ?upd h (opp out) (?v ?t (opp out)))"
    and fr: "relay_frame ?t r2" by blast+
  moreover have "mask_tag r' = mask_tag ?t"
    using relay_frame_fields [OF fr] by (simp add: mask_tag_def fun_eq_iff r')
  moreover have "out_queue_handshakes ?t = []" "proc_handshakes r1 = proc_handshakes r"
    using empty f by (simp_all add: hs_frame_def)
  ultimately show ?thesis by (auto simp: r' split: option.splits)
qed

definition example_asleep :: flov_router where
  "example_asleep = (example_router gflov power_off)
     \<lparr>proc_handshakes := [(0, Handshake_New\<lparr>new_state := Some draining, src_state := Some draining,
                              hs_id := 5, hid := 3\<rparr>)]\<rparr>"

lemma sleeping_router_relays_witness:
  "\<exists>r'. HandshakeEvaluate 3 example_asleep = Some r' \<and>
     map_of (out_queue_handshakes r') 1 =
       Some (Handshake_New\<lparr>new_state := Some draining, src_state := Some draining,
              hs_id := 5, hid := 3\<rparr>)"
proof -
  let ?r = example_asleep
  have ps: "power_state ?r = power_off" "downstream_states ?r ! 0 = power_on" "rid ?r = 4"
    "out_queue_handshakes ?r = []"
    by (simp_all add: example_asleep_def example_router_fields)
  obtain t nds where t: "hs_turn 3 (0, snd (hd (proc_handshakes ?r))) (?r, downstream_states ?r)
      = Some (t, nds)"
    using ps by (auto simp: hs_turn_def hs_receive_def hs_power_off_def hs_update_def Let_def
        note_hid_def example_asleep_def is_neighbor_id_def split: prod.splits)
  have sh: "shape (?r, downstream_states ?r)"
    using example_shape [of gflov power_off] by (simp add: shape_def example_asleep_def)
  from hs_turn_view [OF t sh] ps have f: "power_state t = power_off" "rid t = 4"
    "out_queue_handshakes t = []" "proc_handshakes t = proc_handshakes ?r"
    by (simp_all add: hs_frame_def)
  then have "\<exists>r'. HandshakeEvaluate 3 ?r = Some r'"
    using t ps by (simp add: HandshakeEvaluate_def example_asleep_def hs_relay_def
        relay_power_off_def Let_def om_count_def at_edge_def mask_tag_def)
  then obtain r' where r': "HandshakeEvaluate 3 ?r = Some r'" by blast
  have "\<not> at_edge 3 (rid ?r) 1" by (simp add: ps at_edge_def)
  with sleeping_router_relays [OF r' ps(1) _ sh, of 1] r' show ?thesis
    by (simp add: example_asleep_def worth_relaying_def mask_tag_def)
qed

subsection \<open>Drain tags are honest\<close>

definition asked :: "nat \<Rightarrow> flov_router \<Rightarrow> bool" where
  "asked out r \<longleftrightarrow> (downstream_states r ! out = draining \<or> downstream_states r ! out = wakeup) \<and>
     \<not> drain_done_sent r ! out"

definition tag_for :: "flov_router \<Rightarrow> nat \<Rightarrow> handshake option \<Rightarrow> handshake" where
  "tag_for r out old = (case old of None \<Rightarrow> Handshake_New | Some h \<Rightarrow> h)
     \<lparr>drain_done := True, hs_id := int (rid r), hid := resp_hids r ! out\<rparr>"

lemma drained_towards_cong:
  assumes "relay_frame r r'"
  shows "drained_towards now out r' = drained_towards now out r"
  unfolding drained_towards_def vcs_clear_def relay_frame_fields [OF assms] ..

lemma respond_port_step:
  assumes "respond_port now out r = Some r'" and "om_sorted (out_queue_handshakes r)"
    and "out < length (drain_done_sent r)"
  shows "relay_frame r r' \<and> om_sorted (out_queue_handshakes r') \<and>
    length (drain_done_sent r') = length (drain_done_sent r) \<and>
    (if asked out r \<and> drained_towards now out r = Some True
     then drain_done_sent r' = (drain_done_sent r)[out := True] \<and>
       map_of (out_queue_handshakes r') = (map_of (out_queue_handshakes r))
         (out \<mapsto> tag_for r out (map_of (out_queue_handshakes r) out))
     else r' = r)"
proof (cases "asked out r \<and> drained_towards now out r = Some True")
  case True
  then have s: "send_drain_tag out r = Some r'"
    using assms(1) by (auto simp: respond_port_def asked_def)
  then have "relay_frame r r'"
    by (auto simp: send_drain_tag_def Let_def relay_frame_def)
  with s assms(2,3) True show ?thesis
    by (auto simp: send_drain_tag_def Let_def om_put_lookup om_put_sorted om_insert_sorted
        om_insert_lookup om_count_def tag_for_def fun_eq_iff split: option.splits)
next
  case False
  then have "r' = r"
    using assms(1) by (auto simp: respond_port_def asked_def split: Option.bind_splits if_splits)
  then show ?thesis unfolding if_not_P [OF False] using assms(2) by simp
qed

lemma foldM_unit: "foldM f xs s = foldM (\<lambda>(i, u). f i) (map (\<lambda>i. (i, ())) xs) s"
  by (induction xs arbitrary: s) (auto split: option.split)

lemma map_of_unit: "map_of (map (\<lambda>i. (i, ())) xs) j = (if j \<in> set xs then Some () else None)"
  by (induction xs) auto

text \<open>With an empty queue the loop cannot stop at its assertion.\<close>

lemma response_succeeds:
  assumes "power_state r = power_on \<or> power_state r = draining" and "out_queue_handshakes r = []"
    and "length (drain_done_sent r) = 4"
    and "\<forall>out<4. asked out r \<longrightarrow> drained_towards now out r \<noteq> None"
  shows "\<exists>r'. HandshakeResponse now r = Some r'"
proof -
  let ?I = "\<lambda>s. relay_frame r s \<and> om_sorted (out_queue_handshakes s) \<and> length (drain_done_sent s) = 4 \<and>
    (\<forall>out<4. (drain_done_sent r ! out \<longrightarrow> drain_done_sent s ! out) \<and>
       (drain_done_sent s ! out \<or> map_of (out_queue_handshakes s) out = None))"
  have "\<exists>t. foldM (respond_port now) [0..<4] r = Some t \<and> ?I t"
  proof (rule foldM_succeeds [where P = ?I])
    show "?I r" using assms(2,3) by simp
  next
    fix out s
    assume out: "out \<in> set [0..<4]" and I: "?I s"
    have fr: "drained_towards now out s = drained_towards now out r"
      "downstream_states s = downstream_states r"
      using I drained_towards_cong relay_frame_fields [of r s] by auto
    have "\<exists>s'. respond_port now out s = Some s'"
    proof (cases "asked out s")
      case True
      then have "asked out r" "map_of (out_queue_handshakes s) out = None"
        using I out by (auto simp: asked_def fr)
      moreover from this assms(4) out obtain b where "drained_towards now out r = Some b" by auto
      ultimately show ?thesis
        by (simp add: respond_port_def fr send_drain_tag_def om_count_def Let_def)
    qed (auto simp: respond_port_def asked_def)
    then obtain s' where s': "respond_port now out s = Some s'" by blast
    have "out < length (drain_done_sent s)" using I out by simp
    from respond_port_step [OF s' _ this] I out have "?I s'"
      by (auto simp: nth_list_update intro: relay_frame_trans split: if_splits)
    with s' show "\<exists>s'. respond_port now out s = Some s' \<and> ?I s'" by blast
  qed
  then show ?thesis using assms(1) by (auto simp: HandshakeResponse_def)
qed

text \<open>What one response leaves at a port, as the pair of the flag and the queued handshake.\<close>

lemma HandshakeResponse_port:
  assumes "HandshakeResponse now r = Some r'" and "out < 4" and "length (drain_done_sent r) = 4"
    and "om_sorted (out_queue_handshakes r)"
  shows "(drain_done_sent r' ! out, map_of (out_queue_handshakes r') out) =
    (if asked out r \<and> drained_towards now out r = Some True
     then (True, Some (tag_for r out (map_of (out_queue_handshakes r) out)))
     else (drain_done_sent r ! out, map_of (out_queue_handshakes r) out))"
proof -
  have fold: "foldM (\<lambda>(i, u). respond_port now i) (map (\<lambda>i. (i, ())) [0..<4]) r = Some r'"
    using assms(1) by (simp add: HandshakeResponse_def foldM_unit [symmetric])
  let ?I = "\<lambda>s. relay_frame r s \<and> om_sorted (out_queue_handshakes s) \<and> length (drain_done_sent s) = 4"
  let ?v = "\<lambda>s j. (drain_done_sent s ! j, map_of (out_queue_handshakes s) j)"
  let ?upd = "\<lambda>u j (sent, old). if (downstream_states r ! j = draining \<or> downstream_states r ! j = wakeup) \<and>
      \<not> sent \<and> drained_towards now j r = Some True then (True, Some (tag_for r j old)) else (sent, old)"
  have "?I r' \<and> (\<forall>j. ?v r' j = (case map_of (map (\<lambda>i. (i, ())) [0..<4]) j of
      None \<Rightarrow> ?v r j | Some u \<Rightarrow> ?upd u j (?v r j)))"
    using fold
  proof (rule foldM_ports)
    show "distinct (map fst (map (\<lambda>i. (i, ())) [0..<4]))" by (simp add: comp_def)
    show "?I r" using assms(3,4) by simp
  next
    fix i u s s'
    assume mem: "(i, u) \<in> set (map (\<lambda>i. (i, ())) [0..<4])" and I: "?I s"
      and step: "(case (i, u) of (i, u) \<Rightarrow> respond_port now i) s = Some s'"
    have lt: "i < length (drain_done_sent s)" using mem I by auto
    from step have st: "respond_port now i s = Some s'" by simp
    have c: "drained_towards now i s = drained_towards now i r" "downstream_states s = downstream_states r"
      "tag_for s = tag_for r"
      using I drained_towards_cong relay_frame_fields [of r s] by (auto simp: tag_for_def fun_eq_iff)
    from respond_port_step [OF st _ lt] I relay_frame_trans
    show "?I s' \<and> (\<forall>j. ?v s' j = (if j = i then ?upd u i (?v s i) else ?v s j))"
      using lt by (auto simp: asked_def c split: if_splits)
  qed
  then have "?v r' out = ?upd () out (?v r out)"
    using assms(2) by (auto simp: map_of_unit)
  then show ?thesis by (simp add: asked_def)
qed

text \<open>C23: a router that is on or draining sends a drain tag through a port exactly when the router
  beyond is draining or waking up, has not got one for this request yet, and nothing is on its
  way to it: no VC of another input holds a packet for that port, no flit crosses the switch to
  it and none waits in the output buffer.  The tag carries the id of the request it answers, and
  goes out with a handshake already queued for that port if there is one.\<close>

theorem drain_tag_exact:
  assumes "HandshakeResponse now r = Some r'" and "out < 4" and "length (drain_done_sent r) = 4"
    and "om_sorted (out_queue_handshakes r)"
  shows "if asked out r \<and> drained_towards now out r = Some True
    then drain_done_sent r' ! out \<and>
      map_of (out_queue_handshakes r') out = Some (tag_for r out (map_of (out_queue_handshakes r) out))
    else drain_done_sent r' ! out = drain_done_sent r ! out \<and>
      map_of (out_queue_handshakes r') out = map_of (out_queue_handshakes r) out"
  using HandshakeResponse_port [OF assms] by (auto split: if_splits)

definition example_asked :: flov_router where
  "example_asked = (example_router gflov power_on)
     \<lparr>downstream_states := [draining, power_on, power_on, power_on], resp_hids := [3, -1, -1, -1]\<rparr>"

lemma example_drained: "vcs_clear out (example_router p s)"
  by (simp add: vcs_clear_def example_router_fields list_all_iff GetState_def Buffer_init_def
      VC_init_def)

lemma example_drained_towards: "drained_towards now 0 example_asked = Some True"
proof -
  have "vcs_clear 0 example_asked"
    using example_drained [of 0 gflov power_on] by (simp add: vcs_clear_def example_asked_def)
  then show ?thesis
    by (simp add: drained_towards_def example_asked_def example_router_fields)
qed

lemma drain_tag_exact_witness:
  "\<exists>r'. HandshakeResponse 7 example_asked = Some r' \<and> drain_done_sent r' ! 0 \<and>
     map_of (out_queue_handshakes r') 0 =
       Some (Handshake_New\<lparr>drain_done := True, hs_id := 4, hid := 3\<rparr>)"
proof -
  have s: "drain_done_sent example_asked = replicate 4 False"
    by (simp add: example_asked_def example_router_def FLOVRouter_init_def)
  have "\<exists>r'. HandshakeResponse 7 example_asked = Some r'"
    by (rule response_succeeds)
      (use s example_drained_towards [of 7] in
        \<open>auto simp: asked_def less_4_cases example_asked_def example_router_fields\<close>)
  then obtain r' where r': "HandshakeResponse 7 example_asked = Some r'" by blast
  have "asked 0 example_asked" using s by (simp add: asked_def example_asked_def)
  with drain_tag_exact [OF r', of 0] s example_drained_towards [of 7] r' show ?thesis
    by (simp add: tag_for_def) (simp add: example_asked_def example_router_fields)
qed

subsection \<open>Request, answer, collection\<close>

text \<open>The loops of a router with a single handshake to process.\<close>

lemma HandshakeEvaluate_awake_single:
  assumes "out_queue_handshakes r = []" and "proc_handshakes r = [(i, h)]"
    and "power_state r = power_on \<or> power_state r = draining"
    and "hs_turn gK (i, h) (r, downstream_states r) = Some (r1, nds)"
    and "power_state r1 = power_state r" and "proc_handshakes r1 = proc_handshakes r"
  shows "HandshakeEvaluate gK r = Some (r1\<lparr>downstream_states := nds, proc_handshakes := []\<rparr>)"
  using assms by (auto simp: HandshakeEvaluate_def hs_relay_def)

lemma awake_takes_drain_request:
  assumes "power_state b = power_on" and "out_queue_handshakes b = []"
    and "proc_handshakes b = [(i, h)]" and "i < 4" and "shape (b, downstream_states b)"
    and "downstream_states b ! i = power_on" and "length (drain_done_sent b) = 4"
    and "new_state h = Some draining" "src_state h = Some draining"
  shows "\<exists>b'. HandshakeEvaluate gK b = Some b' \<and> power_state b' = power_on \<and> rid b' = rid b \<and>
    out_queue_handshakes b' = [] \<and> length (drain_done_sent b') = 4 \<and> asked i b' \<and>
    resp_hids b' ! i = hid h \<and> (\<forall>j. j \<noteq> i \<longrightarrow> asked j b' = asked j b) \<and>
    (\<forall>now out. drained_towards now out b' = drained_towards now out b)"
proof -
  let ?b = "note_hid i h (forget_sent i b)"
  have rc: "hs_receive i h b = Some ?b"
    using assms by (simp add: hs_receive_def hs_power_on_def)
  have "\<exists>x. hs_update gK i h ?b (downstream_states b) = Some x"
    using assms(8,9) by (simp add: hs_update_def)
  then obtain u nds where up: "hs_update gK i h ?b (downstream_states b) = Some (u, nds)"
    by auto
  note e = hs_update_effect [OF up]
  have turn: "hs_turn gK (i, h) (b, downstream_states b) = Some (u, nds)"
    using rc up assms(4) by (simp add: hs_turn_def)
  have u: "buf u = buf b" "crossbar_flits u = crossbar_flits b" "output_buffer u = output_buffer b"
    "outputs u = outputs b" "output_speedup u = output_speedup b" "inputs u = inputs b" "vcs u = vcs b"
    using up assms(8) by (auto simp: hs_update_def note_hid_def forget_sent_def
        split: option.splits if_splits)
  have nds: "nds = (downstream_states b)[i := draining]" using e assms(8) by simp
  have hf: "hs_frame b u" using e by (simp add: hs_frame_def note_hid_def forget_sent_def)
  have sent: "drain_done_sent u = (drain_done_sent b)[i := False]"
    using e by (simp add: note_hid_def forget_sent_def)
  let ?b' = "u\<lparr>downstream_states := nds, proc_handshakes := []\<rparr>"
  have "HandshakeEvaluate gK b = Some ?b'"
    by (rule HandshakeEvaluate_awake_single [OF assms(2,3) _ turn])
      (use assms(1) hf in \<open>simp_all add: hs_frame_def\<close>)
  moreover have "resp_hids ?b' ! i = hid h"
    using e assms(4,5) by (simp add: note_hid_def forget_sent_def shape_def)
  moreover have "asked i ?b'" "\<forall>j. j \<noteq> i \<longrightarrow> asked j ?b' = asked j b"
    using assms(4,5,7) by (auto simp: asked_def nds sent shape_def)
  moreover have "drained_towards now out ?b' = drained_towards now out b" for now out
  proof -
    have "buf ?b' = buf b" "crossbar_flits ?b' = crossbar_flits b" "output_buffer ?b' = output_buffer b"
      "outputs ?b' = outputs b" "output_speedup ?b' = output_speedup b" "inputs ?b' = inputs b"
      "vcs ?b' = vcs b"
      by (simp_all add: u)
    then show ?thesis unfolding drained_towards_def vcs_clear_def by (simp only:)
  qed
  ultimately show ?thesis
    using hf assms(1,2,7) sent by (intro exI [of _ ?b']) (simp add: hs_frame_def)
qed

lemma draining_collects_tag:
  assumes "power_state a = draining" and "out_queue_handshakes a = []"
    and "proc_handshakes a = [(i, g)]" and "i < 4" and "shape (a, downstream_states a)"
    and "g = Handshake_New\<lparr>drain_done := True, hs_id := n, hid := req_hids a ! i\<rparr>"
    and "\<not> drain_tags a ! i"
  shows "\<exists>a'. HandshakeEvaluate gK a = Some a' \<and> drain_tags a' ! i"
proof -
  let ?a = "a\<lparr>drain_tags := (drain_tags a)[i := True]\<rparr>"
  have rc: "hs_receive i g a = Some ?a"
    using assms by (simp add: hs_receive_def hs_draining_def draining_state_change_def)
  obtain u nds where up: "hs_update gK i g ?a (downstream_states a) = Some (u, nds)"
    using assms(6) by (simp add: hs_update_def)
  note e = hs_update_effect [OF up]
  have "hs_turn gK (i, g) (a, downstream_states a) = Some (u, nds)"
    using rc up assms(4) by (simp add: hs_turn_def)
  from HandshakeEvaluate_awake_single [OF assms(2,3) _ this] assms(1) e
  have "HandshakeEvaluate gK a = Some (u\<lparr>downstream_states := nds, proc_handshakes := []\<rparr>)"
    by (simp add: hs_frame_def)
  moreover have "drain_tags u ! i" using e assms(4,5) by (simp add: shape_def)
  ultimately show ?thesis by simp
qed

text \<open>What a router that starts to drain queues for an awake neighbour, and that it waits for its tag.\<close>

lemma starts_to_drain:
  assumes start: "PowerStateEvaluate gK gNodes now a = Some a'" "power_state a = power_on"
      "power_state a' = draining"
    and a: "ports_wf a" "out < 4" "\<not> at_edge gK (rid a) out" "downstream_states a ! out = power_on"
      "length (next_buf a) = 5"
    and h: "map_of (out_queue_handshakes a') out = Some h"
  shows "h = (to_state draining out Handshake_New)
      \<lparr>src_state := Some draining, hs_id := int (rid a), hid := req_hids a' ! out\<rparr> \<and>
    \<not> drain_tags a' ! out \<and> shape (a', downstream_states a')"
proof -
  have req: "length (req_hids a) = 4" using a(1) by (simp add: ports_wf_def)
  let ?s = "if outstanding_requests a \<noteq> 0 then a\<lparr>idle_timer := 0\<rparr> else a"
  have sd: "start_drain gK ?s = Some a'"
  proof (cases "flov_policy a")
    case gflov
    then have "gflov_power_on gK a = Some a'" using start by (simp add: eval_defs)
    then show ?thesis using start(2,3) unfolding gflov_power_on_def Let_def by (auto split: if_splits)
  next
    case rflov
    then have "rflov_power_on gK a = Some a'" using start by (simp add: eval_defs)
    then show ?thesis using start(2,3) unfolding rflov_power_on_def Let_def by (auto split: if_splits)
  next
    case noflov
    then have "noflov_power_on a = Some a'" using start by (simp add: eval_defs)
    then show ?thesis using start(2,3) unfolding noflov_power_on_def Let_def by (auto split: if_splits)
  qed
  let ?r1 = "clear_drain_tags (?s\<lparr>power_state := draining, idle_timer := 0, drain_timer := 0,
                                  drain_counter := drain_counter ?s + 1\<rparr>)"
  have a': "a' = request_drain gK draining ?r1"
    using sd by (auto simp: start_drain_def Let_def)
  have ids: "announced gK (to_state draining) a a'"
    using start_drain_spec [OF sd] req by (simp add: hids_ok_def announced_def split: if_splits)
  with h a(2,3) start(3) have h': "h = (to_state draining out Handshake_New)
      \<lparr>src_state := Some draining, hs_id := int (rid a), hid := req_hids a ! out + 1\<rparr>"
    and hid: "req_hids a' ! out = req_hids a ! out + 1"
    by (simp_all add: announced_def)
  have tag: "\<not> drain_tags a' ! out"
    unfolding a' using a(2,3,4) by (subst request_drain_tags) (simp_all add: clear_drain_tags_def)
  have sh: "shape (a', downstream_states a')"
  proof -
    obtain tags where "a' = (announce gK (to_state draining) ?r1)\<lparr>drain_tags := tags\<rparr>"
      using request_drain_eq a' by blast
    moreover have "length (drain_tags a') = 4"
    proof -
      have "length (fold (\<lambda>out t. if P out then t[out := True] else t) xs ts) = length ts"
        for P :: "nat \<Rightarrow> bool" and xs ts
        by (induction xs arbitrary: ts) auto
      then show ?thesis unfolding a' request_drain_def request_drain_fold
        by (simp add: clear_drain_tags_def)
    qed
    ultimately show ?thesis using a(1,5)
      by (simp add: shape_def ports_wf_def clear_drain_tags_def split: if_splits)
  qed
  from h' hid tag sh show ?thesis by simp
qed

text \<open>C19: the drain handshake works across a link.  If router \<open>a\<close> starts to drain, the handshake it
  queues for an awake neighbour \<open>b\<close>, which has nothing on its way to \<open>a\<close> and no other open
  request, is accepted by \<open>b\<close>, answered by \<open>b\<close> in the same cycle with the id of that request, and
  the answer sets \<open>a\<close>'s drain tag for that port; none of the assertions on the way can fail.\<close>

theorem drain_request_answered:
  assumes start: "PowerStateEvaluate gK gNodes now a = Some a'" "power_state a = power_on"
      "power_state a' = draining"
    and a: "ports_wf a" "out < 4" "\<not> at_edge gK (rid a) out" "downstream_states a ! out = power_on"
      "length (next_buf a) = 5"
    and h: "map_of (out_queue_handshakes a') out = Some h"
    and b: "power_state b = power_on" "out_queue_handshakes b = []"
      "proc_handshakes b = [(opp out, h)]" "shape (b, downstream_states b)"
      "length (drain_done_sent b) = 4" "downstream_states b ! opp out = power_on"
    and quiet: "drained_towards t (opp out) b = Some True" "\<forall>j<4. j \<noteq> opp out \<longrightarrow> \<not> asked j b"
  shows "\<exists>b1 b2 g a2. HandshakeEvaluate gK b = Some b1 \<and> HandshakeResponse t b1 = Some b2 \<and>
    map_of (out_queue_handshakes b2) (opp out) = Some g \<and>
    HandshakeEvaluate gK (a'\<lparr>out_queue_handshakes := [], proc_handshakes := [(out, g)]\<rparr>) = Some a2 \<and>
    drain_tags a2 ! out"
proof -
  have h': "h = (to_state draining out Handshake_New)
      \<lparr>src_state := Some draining, hs_id := int (rid a), hid := req_hids a' ! out\<rparr>"
    and tag: "\<not> drain_tags a' ! out" and sh: "shape (a', downstream_states a')"
    using starts_to_drain [OF start a h] by auto
  have "\<exists>b'. HandshakeEvaluate gK b = Some b' \<and> power_state b' = power_on \<and> rid b' = rid b \<and>
    out_queue_handshakes b' = [] \<and> length (drain_done_sent b') = 4 \<and> asked (opp out) b' \<and>
    resp_hids b' ! opp out = hid h \<and> (\<forall>j. j \<noteq> opp out \<longrightarrow> asked j b' = asked j b) \<and>
    (\<forall>now out. drained_towards now out b' = drained_towards now out b)"
    by (rule awake_takes_drain_request [OF b(1,2,3) _ b(4,6,5)])
      (use a(2) in \<open>simp_all add: h' to_state_def\<close>)
  then obtain b1 where b1: "HandshakeEvaluate gK b = Some b1" "power_state b1 = power_on"
    "rid b1 = rid b" "out_queue_handshakes b1 = []" "length (drain_done_sent b1) = 4"
    "asked (opp out) b1" "resp_hids b1 ! opp out = hid h"
    "\<forall>j. j \<noteq> opp out \<longrightarrow> asked j b1 = asked j b"
    "\<forall>now out. drained_towards now out b1 = drained_towards now out b"
    by blast
  have "drained_towards t j b1 \<noteq> None" if "j < 4" "asked j b1" for j
    using that b1(8,9) quiet by (cases "j = opp out") auto
  then have "\<exists>b2. HandshakeResponse t b1 = Some b2"
    using b1 by (intro response_succeeds) auto
  then obtain b2 where b2: "HandshakeResponse t b1 = Some b2" by blast
  let ?g = "Handshake_New\<lparr>drain_done := True, hs_id := int (rid b), hid := hid h\<rparr>"
  have g: "map_of (out_queue_handshakes b2) (opp out) = Some ?g"
    using HandshakeResponse_port [OF b2, of "opp out"] b1 quiet a(2) by (simp add: tag_for_def)
  have "\<exists>a2. HandshakeEvaluate gK (a'\<lparr>out_queue_handshakes := [], proc_handshakes := [(out, ?g)]\<rparr>) = Some a2 \<and>
    drain_tags a2 ! out"
    by (rule draining_collects_tag [where n = "int (rid b)"])
      (use start(3) a(2) sh tag in \<open>simp_all add: shape_def h'\<close>)
  with b1(1) b2 g show ?thesis by blast
qed

lemma drain_request_answered_witness:
  "\<exists>a' h b1 b2 g a2. PowerStateEvaluate 3 9 7 (example_router gflov power_on) = Some a' \<and>
     HandshakeEvaluate 3 ((example_router gflov power_on)\<lparr>rid := 5, proc_handshakes := [(1, h)]\<rparr>) = Some b1 \<and>
     HandshakeResponse 7 b1 = Some b2 \<and> map_of (out_queue_handshakes b2) 1 = Some g \<and>
     HandshakeEvaluate 3 (a'\<lparr>out_queue_handshakes := [], proc_handshakes := [(0, g)]\<rparr>) = Some a2 \<and>
     drain_tags a2 ! 0"
proof -
  let ?a = "example_router gflov power_on"
  obtain a' where a': "PowerStateEvaluate 3 9 7 ?a = Some a'" "power_state a' = draining"
    using example_start_drain by blast
  have edge: "\<not> at_edge 3 (rid ?a) 0" by (simp add: at_edge_def example_router_fields)
  obtain h where h: "map_of (out_queue_handshakes a') 0 = Some h"
    using fsm.contract [OF a'(1)] a'(2) edge
    by (auto simp: hids_ok_def power_contract_def announced_def example_router_fields)
  let ?b = "?a\<lparr>rid := 5, proc_handshakes := [(1, h)]\<rparr>"
  have wf: "ports_wf ?a" "length (next_buf ?a) = 5"
    by (simp_all add: ports_wf_def example_router_def FLOVRouter_init_def init_states_def
        init_logical_neighbors_def)
  have "vcs_clear 1 ?b"
    using example_drained [of 1 gflov power_on] by (simp add: vcs_clear_def)
  then have q: "drained_towards 7 (opp 0) ?b = Some True"
    by (simp add: drained_towards_def example_router_fields)
  have n: "\<forall>j<4. j \<noteq> opp 0 \<longrightarrow> \<not> asked j ?b"
    by (simp add: asked_def example_router_fields)
  have sh: "shape (?b, downstream_states ?b)"
    using example_shape [of gflov power_on] by (simp add: shape_def)
  have d: "length (drain_done_sent ?b) = 4"
    by (simp add: example_router_def FLOVRouter_init_def)
  have "\<exists>b1 b2 g a2. HandshakeEvaluate 3 ?b = Some b1 \<and> HandshakeResponse 7 b1 = Some b2 \<and>
    map_of (out_queue_handshakes b2) (opp 0) = Some g \<and>
    HandshakeEvaluate 3 (a'\<lparr>out_queue_handshakes := [], proc_handshakes := [(0, g)]\<rparr>) = Some a2 \<and>
    drain_tags a2 ! 0"
    by (rule drain_request_answered [OF a'(1) _ a'(2) wf(1) _ edge _ wf(2) h _ _ _ sh d _ q n])
      (simp_all add: example_router_fields)
  with a'(1) show ?thesis unfolding opp_simps(1) by blast
qed

end
