(* ===== verification/Bypass.thy ===== *)
theory Bypass
  imports Power_Properties "HOL-Library.Signed_Division"
begin

text \<open>
  What a sleeping or waking router does with flits and credits: \<open>FLOVRouter::_FlovStep\<close>
  (src/booksim2/src/routers/flov_router.cpp).  A flit latched at input \<open>i\<close> goes straight to the
  output buffer of the opposite port, past the VC buffers and the switch, and credits are passed
  upstream.  C++ division truncates, so the grid coordinates are \<open>sdiv\<close> and \<open>smod\<close>; \<open>sinks p\<close> is
  \<open>_output_channels[p]->GetSink()->GetID()\<close>.  The \<open>TRACK_FLOWS\<close> code, which no build enables,
  and the printing for watched flits are left out.
\<close>

subsection \<open>Misrouting statistics\<close>

text \<open>A coordinate outside the span between source and destination.\<close>

definition outside :: "int \<Rightarrow> int \<Rightarrow> int \<Rightarrow> bool" where
  "outside a b c \<longleftrightarrow> (if a \<le> b then c < a \<or> c > b else c < b \<or> c > a)"

definition detour :: "nat \<Rightarrow> int \<Rightarrow> int \<Rightarrow> int \<Rightarrow> int \<Rightarrow> bool" where
  "detour gK src dest prev cur =
     (let k = int gK;
          dest_x = dest sdiv k; dest_y = dest smod k;
          hops = (\<lambda>v. \<bar>v sdiv k - dest_x\<bar> + \<bar>v smod k - dest_y\<bar>)
      in hops prev < hops cur \<or>
         outside (src sdiv k) dest_x (cur sdiv k) \<or> outside (src smod k) dest_y (cur smod k))"

definition shortest_hops :: "nat \<Rightarrow> int \<Rightarrow> int \<Rightarrow> int" where
  "shortest_hops gK src dest =
     \<bar>src sdiv int gK - dest sdiv int gK\<bar> + \<bar>src smod int gK - dest smod int gK\<bar>"

definition bypassed :: "nat \<Rightarrow> (nat \<Rightarrow> int) \<Rightarrow> nat \<Rightarrow> nat \<Rightarrow> flit \<Rightarrow> flit" where
  "bypassed gK sinks i input f0 =
     (let f = f0\<lparr>f_flov_hops := f_flov_hops f0 + 1\<rparr>
      in if f_head f \<and>
            (f_hops f \<ge> shortest_hops gK (f_src f) (f_dest f) \<or>
             detour gK (f_src f) (f_dest f) (sinks input) (int i))
         then f\<lparr>f_misroute_hops := f_misroute_hops f + 1\<rparr> else f)"

subsection \<open>Flits\<close>

definition bypass_flit ::
  "nat \<Rightarrow> (nat \<Rightarrow> int) \<Rightarrow> int \<Rightarrow> nat \<times> flit \<Rightarrow> flov_router \<Rightarrow> flov_router option" where
  "bypass_flit gK sinks now iflit r =
     (let input = fst iflit; f = snd iflit; out = opp input in do {
        assertion (input < 4);
        assertion (0 \<le> f_vc f \<and> f_vc f < int (vcs r));
        d1 \<leftarrow> (if f_head f then TakeBuffer (nat (f_vc f)) (int (vcs r * inputs r)) (next_buf r ! out)
                else Some (next_buf r ! out));
        d2 \<leftarrow> SendingFlit now f d1;
        Some (r\<lparr>next_buf := (next_buf r)[out := d2],
                output_buffer := (output_buffer r)
                  [out := output_buffer r ! out @ [bypassed gK sinks (rid r) input f]]\<rparr>)
      })"

definition bypass_flits ::
  "nat \<Rightarrow> (nat \<Rightarrow> int) \<Rightarrow> int \<Rightarrow> flov_router \<Rightarrow> flov_router option" where
  "bypass_flits gK sinks now r =
     map_option (\<lambda>r. r\<lparr>in_queue_flits := []\<rparr>)
       (foldM (bypass_flit gK sinks now) (in_queue_flits r) r)"

subsection \<open>Credits\<close>

text \<open>What happens to a credit that came back through \<open>out\<close>: it is processed, and then relayed to
  the router upstream unless there is none, that router's neighbour state says it is not needed, or
  another credit for it is already queued.\<close>

definition relay_credit :: "nat \<Rightarrow> nat \<Rightarrow> credit \<Rightarrow> flov_router \<Rightarrow> flov_router" where
  "relay_credit gK out c r =
     (if out < 4 \<and> \<not> at_far_edge gK (rid r) out \<and>
         \<not> (power_state r = wakeup \<and> downstream_states r ! opp out = power_off)
      then r\<lparr>out_queue_credits := om_insert (opp out) c (out_queue_credits r)\<rparr>
      else r)"

fun relay_credits ::
  "nat \<Rightarrow> int \<Rightarrow> (int \<times> credit \<times> nat) list \<Rightarrow> flov_router \<Rightarrow> flov_router option" where
  "relay_credits gK now [] r = Some (r\<lparr>proc_credits := []\<rparr>)"
| "relay_credits gK now ((time, c, out) # cs) r =
     (if now < time then Some (r\<lparr>proc_credits := (time, c, out) # cs\<rparr>)
      else if \<not> out < outputs r then None
      else case ProcessCredit now c (next_buf r ! out) of
             None \<Rightarrow> None
           | Some d \<Rightarrow> relay_credits gK now cs
               (relay_credit gK out c (r\<lparr>next_buf := (next_buf r)[out := d]\<rparr>)))"

text \<open>The credits the router held when it fell asleep are handed upstream one per VC and cycle.\<close>

definition hand_over_vc :: "nat \<Rightarrow> nat \<Rightarrow> flov_router \<Rightarrow> flov_router" where
  "hand_over_vc input vc r =
     (let out = opp input in
      if credit_counter r ! out ! vc > 0
      then let q = om_insert input Credit_New (out_queue_credits r); c = the (map_of q input) in
           if vc \<notin> set (c_vc c)
           then r\<lparr>credit_counter := (credit_counter r)
                    [out := (credit_counter r ! out)[vc := credit_counter r ! out ! vc - 1]],
                  out_queue_credits := om_put input (c\<lparr>c_vc := os_insert vc (c_vc c)\<rparr>) q\<rparr>
           else r\<lparr>out_queue_credits := q\<rparr>
      else r)"

definition hand_over :: "flov_router \<Rightarrow> flov_router" where
  "hand_over r = fold (\<lambda>input r. fold (hand_over_vc input) [0..<vcs r] r) [0..<4] r"

definition FlovStep :: "nat \<Rightarrow> (nat \<Rightarrow> int) \<Rightarrow> int \<Rightarrow> flov_router \<Rightarrow> flov_router option" where
  "FlovStep gK sinks now r = do {
     assertion (power_state r = power_off \<or> power_state r = wakeup);
     assertion (route_vcs r = [] \<and> vc_alloc_vcs r = [] \<and> sw_hold_vcs r = [] \<and>
                sw_alloc_vcs r = [] \<and> crossbar_flits r = []);
     assertion (power_state r = power_off \<and> off_timer r = 1 \<longrightarrow> in_queue_flits r = []);
     r1 \<leftarrow> bypass_flits gK sinks now r;
     r2 \<leftarrow> relay_credits gK now (proc_credits r1) r1;
     Some (hand_over r2)
   }"

subsection \<open>Flits go straight through\<close>

lemma bypass_flits_spec:
  assumes "foldM (bypass_flit gK sinks now) ifs r = Some r'" and "distinct (map fst ifs)"
    and "4 \<le> length (output_buffer r)"
  shows "(\<forall>out. output_buffer r' ! out = output_buffer r ! out @
      (case map_of ifs (opp out) of None \<Rightarrow> [] | Some f \<Rightarrow> [bypassed gK sinks (rid r) (opp out) f])) \<and>
    length (output_buffer r') = length (output_buffer r) \<and>
    power_state r' = power_state r \<and> in_queue_flits r' = in_queue_flits r \<and>
    proc_credits r' = proc_credits r \<and> outputs r' = outputs r \<and>
    out_queue_credits r' = out_queue_credits r \<and> credit_counter r' = credit_counter r \<and>
    rid r' = rid r \<and> vcs r' = vcs r \<and> downstream_states r' = downstream_states r"
  using assms
proof (induction ifs arbitrary: r)
  case Nil
  then show ?case by simp
next
  case (Cons p ifs)
  obtain i f where p: "p = (i, f)" by (cases p)
  from Cons.prems(1) obtain u where u: "bypass_flit gK sinks now (i, f) r = Some u"
    and rest: "foldM (bypass_flit gK sinks now) ifs u = Some r'"
    by (auto simp: p split: option.splits)
  from u obtain d where i: "i < 4" and u': "u = r\<lparr>next_buf := (next_buf r)[opp i := d],
      output_buffer := (output_buffer r)
        [opp i := output_buffer r ! opp i @ [bypassed gK sinks (rid r) i f]]\<rparr>"
    by (auto simp: bypass_flit_def Let_def split: Option.bind_splits if_splits)
  have len: "opp i < length (output_buffer r)"
    using i Cons.prems(3) opp_less_4 [of i] by linarith
  have no: "map_of ifs i = None"
    using Cons.prems(2) by (auto simp: p map_of_eq_None_iff)
  have ob: "output_buffer u ! out = output_buffer r ! out @
      (if opp out = i then [bypassed gK sinks (rid r) i f] else [])" for out
    using len by (auto simp: u' nth_list_update)
  have IH: "(\<forall>out. output_buffer r' ! out = output_buffer u ! out @
      (case map_of ifs (opp out) of None \<Rightarrow> [] | Some f \<Rightarrow> [bypassed gK sinks (rid u) (opp out) f])) \<and>
    length (output_buffer r') = length (output_buffer u) \<and>
    power_state r' = power_state u \<and> in_queue_flits r' = in_queue_flits u \<and>
    proc_credits r' = proc_credits u \<and> outputs r' = outputs u \<and>
    out_queue_credits r' = out_queue_credits u \<and> credit_counter r' = credit_counter u \<and>
    rid r' = rid u \<and> vcs r' = vcs u \<and> downstream_states r' = downstream_states u"
    by (rule Cons.IH [OF rest]) (use Cons.prems in \<open>simp_all add: p u'\<close>)
  have fr: "rid u = rid r" "power_state u = power_state r" "in_queue_flits u = in_queue_flits r"
    "proc_credits u = proc_credits r" "outputs u = outputs r" "vcs u = vcs r"
    "out_queue_credits u = out_queue_credits r" "credit_counter u = credit_counter r"
    "downstream_states u = downstream_states r" "length (output_buffer u) = length (output_buffer r)"
    by (simp_all add: u')
  have out: "output_buffer r' ! out = output_buffer r ! out @
      (case map_of (p # ifs) (opp out) of None \<Rightarrow> []
       | Some f \<Rightarrow> [bypassed gK sinks (rid r) (opp out) f])" for out
  proof (cases "opp out = i")
    case True
    then show ?thesis using IH ob [of out] no by (simp add: p fr)
  next
    case False
    then show ?thesis using IH ob [of out] by (auto simp: p fr split: option.split)
  qed
  show ?case using out IH by (simp add: fr)
qed

lemma relay_credit_frame:
  "output_buffer (relay_credit gK out c r) = output_buffer r"
  "in_queue_flits (relay_credit gK out c r) = in_queue_flits r"
  "power_state (relay_credit gK out c r) = power_state r"
  "credit_counter (relay_credit gK out c r) = credit_counter r"
  "vcs (relay_credit gK out c r) = vcs r"
  "outputs (relay_credit gK out c r) = outputs r"
  by (simp_all add: relay_credit_def)

lemma relay_credits_frame:
  "relay_credits gK now cs r = Some r' \<Longrightarrow>
     output_buffer r' = output_buffer r \<and> in_queue_flits r' = in_queue_flits r \<and>
     power_state r' = power_state r \<and> credit_counter r' = credit_counter r \<and> vcs r' = vcs r"
  by (induction gK now cs r rule: relay_credits.induct)
    (auto simp: relay_credit_frame split: if_splits option.splits)

definition credits_only :: "flov_router \<Rightarrow> flov_router \<Rightarrow> bool" where
  "credits_only r r' \<longleftrightarrow> output_buffer r' = output_buffer r \<and> in_queue_flits r' = in_queue_flits r \<and>
     power_state r' = power_state r \<and> vcs r' = vcs r \<and> next_buf r' = next_buf r"

lemma hand_over_frame: "credits_only r (hand_over r)"
  unfolding hand_over_def
proof (rule fold_invariant' [where P = "credits_only r"])
  fix i s assume "credits_only r s"
  then show "credits_only r (fold (hand_over_vc i) [0..<vcs s] s)"
    by (intro fold_invariant' [where P = "credits_only r"])
      (auto simp: credits_only_def hand_over_vc_def Let_def)
qed (simp add: credits_only_def)

text \<open>C26: a sleeping or waking router is transparent for flits.  After a \<open>_FlovStep\<close> that is not
  stopped by an assertion, no flit is left at the inputs; the flit that was latched at a port is the
  last one in the output buffer of the opposite port, with its FLOV hop count one higher and no
  field but the two hop statistics changed; nothing else enters an output buffer and nothing
  leaves one.\<close>

theorem flits_bypass_straight:
  assumes "FlovStep gK sinks now r = Some r'" and "distinct (map fst (in_queue_flits r))"
    and "4 \<le> length (output_buffer r)"
  shows "in_queue_flits r' = [] \<and>
    (\<forall>out. output_buffer r' ! out = output_buffer r ! out @
      (case map_of (in_queue_flits r) (opp out) of
         None \<Rightarrow> [] | Some f \<Rightarrow> [bypassed gK sinks (rid r) (opp out) f])) \<and>
    (\<forall>i f. \<exists>m. bypassed gK sinks (rid r) i f =
       f\<lparr>f_flov_hops := f_flov_hops f + 1, f_misroute_hops := m\<rparr> \<and>
       m - f_misroute_hops f \<in> {0, 1})"
proof -
  from assms(1) obtain r1 r2 where r1: "bypass_flits gK sinks now r = Some r1"
    and r2: "relay_credits gK now (proc_credits r1) r1 = Some r2" and r': "r' = hand_over r2"
    by (auto simp: FlovStep_def bind_eq_Some_conv)
  from r1 obtain s where s: "foldM (bypass_flit gK sinks now) (in_queue_flits r) r = Some s"
    and r1': "r1 = s\<lparr>in_queue_flits := []\<rparr>"
    by (auto simp: bypass_flits_def)
  have b: "\<exists>m. bypassed gK sinks (rid r) i f =
       f\<lparr>f_flov_hops := f_flov_hops f + 1, f_misroute_hops := m\<rparr> \<and> m - f_misroute_hops f \<in> {0, 1}" for i f
    by (cases "bypassed gK sinks (rid r) i f = f\<lparr>f_flov_hops := f_flov_hops f + 1\<rparr>")
      (auto simp: bypassed_def Let_def intro: exI [of _ "f_misroute_hops f"])
  show ?thesis
    using bypass_flits_spec [OF s assms(2,3)] relay_credits_frame [OF r2] hand_over_frame [of r2] b
    by (simp add: credits_only_def r' r1')
qed

definition example_bypass :: flov_router where
  "example_bypass = (example_router gflov power_off)
     \<lparr>in_queue_flits := [(1, (example_flit 1 7 True True)\<lparr>f_vc := 0, f_src := 3, f_dest := 5\<rparr>)]\<rparr>"

lemma flits_bypass_straight_witness:
  "\<exists>r'. FlovStep 3 (\<lambda>p. int (neighbor 3 4 p)) 7 example_bypass = Some r' \<and> in_queue_flits r' = [] \<and>
     length (output_buffer r' ! 0) = 1"
proof -
  let ?s = "\<lambda>p. int (neighbor 3 4 p)"
  have l: "length (output_buffer example_bypass) = 5" "output_buffer example_bypass ! 0 = []"
    by (simp_all add: example_bypass_def example_router_fields)
  have "\<exists>u. bypass_flit 3 ?s 7
      (1, (example_flit 1 7 True True)\<lparr>f_vc := 0, f_src := 3, f_dest := 5\<rparr>) example_bypass = Some u \<and>
      proc_credits u = []"
    by (simp add: bypass_flit_def Let_def example_bypass_def example_router_fields TakeBuffer_def
        SendingFlit_def BufferState_init_def example_flit_def policy_SendingFlit_def Private_SendingFlit_def
        policy_TakeBuffer_def OccupancyFor_def)
      (simp add: example_router_def FLOVRouter_init_def)
  then obtain u where "bypass_flits 3 ?s 7 example_bypass = Some u" "proc_credits u = []"
    by (auto simp: bypass_flits_def example_bypass_def)
  moreover have "power_state example_bypass = power_off" "off_timer example_bypass = 0"
    "route_vcs example_bypass = []" "vc_alloc_vcs example_bypass = []" "sw_hold_vcs example_bypass = []"
    "sw_alloc_vcs example_bypass = []" "crossbar_flits example_bypass = []"
    by (simp_all add: example_bypass_def example_router_def FLOVRouter_init_def)
  ultimately obtain r' where r': "FlovStep 3 ?s 7 example_bypass = Some r'"
    by (simp add: FlovStep_def)
  have "distinct (map fst (in_queue_flits example_bypass))" by (simp add: example_bypass_def)
  from flits_bypass_straight [OF r' this] l r' show ?thesis
    by (simp add: example_bypass_def)
qed

subsection \<open>Saved credits are handed over one by one\<close>

text \<open>The credits for VC \<open>vc\<close> of port \<open>out\<close> that the router still owes its upstream neighbour, and
  those already in the credit it is about to send.\<close>

definition offered :: "flov_router \<Rightarrow> nat \<Rightarrow> nat \<Rightarrow> bool" where
  "offered r out vc \<longleftrightarrow> (case map_of (out_queue_credits r) (opp out) of
     None \<Rightarrow> False | Some c \<Rightarrow> vc \<in> set (c_vc c))"

definition owed :: "flov_router \<Rightarrow> nat \<Rightarrow> nat \<Rightarrow> int" where
  "owed r out vc = credit_counter r ! out ! vc + (if offered r out vc then 1 else 0)"

definition counters_wf :: "flov_router \<Rightarrow> bool" where
  "counters_wf r \<longleftrightarrow> 4 \<le> length (credit_counter r) \<and>
     (\<forall>cs \<in> set (credit_counter r). length cs = vcs r \<and> (\<forall>n \<in> set cs. 0 \<le> n)) \<and>
     om_sorted (out_queue_credits r)"

lemma counters_wf_row:
  assumes "counters_wf r" and "out < 4"
  shows "length (credit_counter r ! out) = vcs r \<and> (\<forall>n \<in> set (credit_counter r ! out). 0 \<le> n)"
proof -
  have "credit_counter r ! out \<in> set (credit_counter r)"
    using assms by (intro nth_mem) (simp add: counters_wf_def)
  then show ?thesis using assms(1) by (simp add: counters_wf_def)
qed

text \<open>The relation between the router before the loop and at some turn of it: nothing owed is lost,
  and nothing is taken from a VC that already had a credit in the queue.\<close>

definition handing :: "flov_router \<Rightarrow> flov_router \<Rightarrow> bool" where
  "handing r s \<longleftrightarrow> counters_wf s \<and> vcs s = vcs r \<and>
     (\<forall>out<4. \<forall>vc<vcs r. owed s out vc = owed r out vc \<and> (offered r out vc \<longrightarrow> offered s out vc))"

lemma hand_over_vc_step:
  assumes wf: "counters_wf r" and i: "i < 4" and vc: "vc < vcs r"
  shows "handing r (hand_over_vc i vc r) \<and>
    (credit_counter (hand_over_vc i vc r) ! opp i ! vc > 0 \<longrightarrow> offered (hand_over_vc i vc r) (opp i) vc)"
proof (cases "credit_counter r ! opp i ! vc > 0")
  case False
  then show ?thesis using wf by (simp add: hand_over_vc_def Let_def handing_def)
next
  case True
  let ?q = "om_insert i Credit_New (out_queue_credits r)"
  have q: "om_sorted ?q" using wf by (simp add: counters_wf_def om_insert_sorted)
  have look: "map_of ?q = (if om_count i (out_queue_credits r) then map_of (out_queue_credits r)
      else (map_of (out_queue_credits r))(i \<mapsto> Credit_New))"
    using wf by (simp add: counters_wf_def om_insert_lookup)
  obtain c where c: "map_of ?q i = Some c" by (cases "map_of ?q i") (auto simp: look om_count_def split: if_splits)
  have off: "vc' \<in> set (c_vc c) \<longleftrightarrow> offered r (opp i) vc'" for vc'
    using c by (auto simp: offered_def look om_count_def split: if_splits option.splits)
  have o: "opp i < length (credit_counter r)" "opp i < 4"
    using wf i opp_less_4 [of i] by (auto simp: counters_wf_def simp del: opp_less_4)
  have len: "length (credit_counter r ! opp i) = vcs r" using counters_wf_row [OF wf o(2)] by simp
  show ?thesis
  proof (cases "offered r (opp i) vc")
    case True
    then have e: "hand_over_vc i vc r = r\<lparr>out_queue_credits := ?q\<rparr>"
      using \<open>credit_counter r ! opp i ! vc > 0\<close> off c by (simp add: hand_over_vc_def Let_def)
    have "offered (r\<lparr>out_queue_credits := ?q\<rparr>) out v = offered r out v" for out v
      by (auto simp: offered_def look om_count_def split: option.splits)
    then show ?thesis
      unfolding e using wf q True by (simp add: handing_def owed_def counters_wf_def)
  next
    case False
    let ?cc = "(credit_counter r)[opp i := (credit_counter r ! opp i)[vc := credit_counter r ! opp i ! vc - 1]]"
    let ?q' = "om_put i (c\<lparr>c_vc := os_insert vc (c_vc c)\<rparr>) ?q"
    have e: "hand_over_vc i vc r = r\<lparr>credit_counter := ?cc, out_queue_credits := ?q'\<rparr>"
      using \<open>credit_counter r ! opp i ! vc > 0\<close> off c False by (simp add: hand_over_vc_def Let_def)
    have off': "offered (r\<lparr>credit_counter := ?cc, out_queue_credits := ?q'\<rparr>) out v \<longleftrightarrow>
        offered r out v \<or> out = opp i \<and> v = vc" for out v
    proof (cases "opp out = i")
      case True
      then have out: "out = opp i" by auto
      show ?thesis using off [of v] unfolding out
        by (auto simp: offered_def om_put_lookup [OF q])
    next
      case ne: False
      then have "out \<noteq> opp i" by auto
      with ne show ?thesis
        by (auto simp: offered_def om_put_lookup [OF q] look om_count_def split: option.splits)
    qed
    have cc: "?cc ! out ! v = (if out = opp i \<and> v = vc then credit_counter r ! out ! v - 1
        else credit_counter r ! out ! v)" if "out < 4" "v < vcs r" for out v
      using that o len vc by (auto simp: nth_list_update)
    have "counters_wf (r\<lparr>credit_counter := ?cc, out_queue_credits := ?q'\<rparr>)"
    proof -
      have row: "x \<in> set (credit_counter r) \<or>
          x = (credit_counter r ! opp i)[vc := credit_counter r ! opp i ! vc - 1]" if "x \<in> set ?cc" for x
        using that set_update_subset_insert by fast
      have "length x = vcs r \<and> (\<forall>n \<in> set x. 0 \<le> n)" if "x \<in> set ?cc" for x
        using row [OF that]
      proof
        assume "x \<in> set (credit_counter r)"
        then show ?thesis using wf by (simp add: counters_wf_def)
      next
        assume x: "x = (credit_counter r ! opp i)[vc := credit_counter r ! opp i ! vc - 1]"
        have "\<forall>n \<in> set (credit_counter r ! opp i). 0 \<le> n" using counters_wf_row [OF wf o(2)] by simp
        moreover have "set x \<subseteq> insert (credit_counter r ! opp i ! vc - 1) (set (credit_counter r ! opp i))"
          unfolding x by (rule set_update_subset_insert)
        ultimately show ?thesis
          using \<open>credit_counter r ! opp i ! vc > 0\<close> len x by auto
      qed
      then show ?thesis using wf q by (simp add: counters_wf_def om_put_sorted)
    qed
    moreover have "owed (r\<lparr>credit_counter := ?cc, out_queue_credits := ?q'\<rparr>) out v = owed r out v"
      if "out < 4" "v < vcs r" for out v
      using that False by (simp add: owed_def off' cc)
    ultimately show ?thesis
      unfolding e by (simp add: handing_def off')
  qed
qed

lemma handing_trans: "handing r s \<Longrightarrow> handing s t \<Longrightarrow> handing r t"
  by (simp add: handing_def)

definition eager :: "flov_router \<Rightarrow> nat \<Rightarrow> nat \<Rightarrow> bool" where
  "eager r out vc \<longleftrightarrow> (credit_counter r ! out ! vc > 0 \<longrightarrow> offered r out vc)"

lemma handing_eager:
  assumes "handing r s" and "eager r out vc" and "out < 4" "vc < vcs r"
  shows "eager s out vc"
proof -
  have "owed s out vc = owed r out vc" "offered r out vc \<longrightarrow> offered s out vc"
    using assms(1,3,4) by (simp_all add: handing_def)
  with assms(2) show ?thesis by (auto simp: eager_def owed_def split: if_splits)
qed

lemma handing_refl: "counters_wf r \<Longrightarrow> handing r r"
  by (simp add: handing_def)

lemma hand_over_port:
  assumes "counters_wf r" and "i < 4" and "\<forall>v \<in> set vs. v < vcs r"
  shows "handing r (fold (hand_over_vc i) vs r) \<and> (\<forall>v \<in> set vs. eager (fold (hand_over_vc i) vs r) (opp i) v)"
  using assms
proof (induction vs arbitrary: r)
  case Nil
  then show ?case by (simp add: handing_refl)
next
  case (Cons v vs)
  let ?u = "hand_over_vc i v r"
  have u: "handing r ?u" "eager ?u (opp i) v"
    using hand_over_vc_step [OF Cons.prems(1,2), of v] Cons.prems(3) by (auto simp: eager_def)
  then have wf: "counters_wf ?u" "vcs ?u = vcs r" by (simp_all add: handing_def)
  have IH: "handing ?u (fold (hand_over_vc i) vs ?u) \<and>
      (\<forall>v \<in> set vs. eager (fold (hand_over_vc i) vs ?u) (opp i) v)"
    by (rule Cons.IH [OF wf(1) Cons.prems(2)]) (use Cons.prems(3) wf(2) in simp)
  moreover have "eager (fold (hand_over_vc i) vs ?u) (opp i) v"
    by (rule handing_eager [OF _ u(2)]) (use IH Cons.prems wf in simp_all)
  ultimately show ?case using handing_trans [OF u(1)] by simp
qed

lemma hand_over_ports:
  assumes "counters_wf r" and "\<forall>i \<in> set is. i < 4"
  shows "handing r (fold (\<lambda>i r. fold (hand_over_vc i) [0..<vcs r] r) is r) \<and>
    (\<forall>i \<in> set is. \<forall>v < vcs r. eager (fold (\<lambda>i r. fold (hand_over_vc i) [0..<vcs r] r) is r) (opp i) v)"
  using assms
proof (induction "is" arbitrary: r)
  case Nil
  then show ?case by (simp add: handing_refl)
next
  case (Cons i "is")
  let ?u = "fold (hand_over_vc i) [0..<vcs r] r"
  let ?t = "fold (\<lambda>i r. fold (hand_over_vc i) [0..<vcs r] r) is ?u"
  have i: "i < 4" using Cons.prems(2) by simp
  have u: "handing r ?u" "\<forall>v < vcs r. eager ?u (opp i) v"
    using hand_over_port [OF Cons.prems(1) i, of "[0..<vcs r]"] by auto
  then have wf: "counters_wf ?u" "vcs ?u = vcs r" by (simp_all add: handing_def)
  have IH: "handing ?u ?t \<and> (\<forall>i \<in> set is. \<forall>v < vcs ?u. eager ?t (opp i) v)"
    by (rule Cons.IH [OF wf(1)]) (use Cons.prems(2) in simp)
  moreover have "eager ?t (opp i) v" if "v < vcs r" for v
    by (rule handing_eager [of ?u]) (use IH u(2) that wf i in simp_all)
  ultimately show ?case using handing_trans [OF u(1)] wf by simp
qed

text \<open>C36: a sleeping router hands over the credits it saved when it fell asleep without losing or
  inventing any: for every link and VC, what is still in its counter plus what it offers upstream
  in this cycle is the same before and after, counters never go negative, and each VC that still has
  saved credits offers one in every cycle.\<close>

theorem saved_credits_conserved:
  assumes "counters_wf r" and "out < 4" and "vc < vcs r"
  shows "owed (hand_over r) out vc = owed r out vc \<and> 0 \<le> credit_counter (hand_over r) ! out ! vc \<and>
    (credit_counter (hand_over r) ! out ! vc > 0 \<longrightarrow> offered (hand_over r) out vc)"
proof -
  have h: "handing r (hand_over r)" "\<forall>i \<in> set [0..<4]. \<forall>v < vcs r. eager (hand_over r) (opp i) v"
    using hand_over_ports [OF assms(1), of "[0..<4]"] unfolding hand_over_def by auto
  have "opp out \<in> set [0..<4]" using assms(2) by simp
  with h(2) assms(3) have e: "eager (hand_over r) (opp (opp out)) vc" by blast
  have wf: "counters_wf (hand_over r)" "vcs (hand_over r) = vcs r"
    using h(1) by (simp_all add: handing_def)
  have "0 \<le> credit_counter (hand_over r) ! out ! vc"
    using counters_wf_row [OF wf(1) assms(2)] wf(2) assms(3) by simp
  with h(1) e assms show ?thesis by (simp add: handing_def eager_def)
qed

lemma saved_credits_conserved_witness:
  "owed (hand_over ((example_router gflov power_off)\<lparr>credit_counter := replicate 4 [3]\<rparr>)) 1 0 = 3"
proof -
  let ?r = "(example_router gflov power_off)\<lparr>credit_counter := replicate 4 [3]\<rparr>"
  have q: "out_queue_credits ?r = []" by (simp add: example_router_def FLOVRouter_init_def)
  then have wf: "counters_wf ?r" by (simp add: counters_wf_def example_router_fields)
  have "0 < vcs ?r" by (simp add: example_router_fields)
  from saved_credits_conserved [OF wf _ this, of 1] q show ?thesis
    by (simp add: owed_def offered_def)
qed

text \<open>A second credit for the same upstream router in one step is dropped.  If two credits that
  came back through a port are ready in the same cycle, both are taken off the queue and both are
  applied to the router's own image of the downstream buffer, but only the first is relayed: the
  VCs of the second never reach the upstream router.\<close>

theorem second_credit_dropped:
  assumes "out < 4" and "\<not> at_far_edge gK (rid r) out" and "power_state r = power_off"
    and "out_queue_credits r = []" and "proc_credits r = [(ta, ca, out), (tb, cb, out)]"
    and "ta \<le> now" "tb \<le> now" and "out < outputs r" and "out < length (next_buf r)"
    and "ProcessCredit now ca (next_buf r ! out) = Some da" and "ProcessCredit now cb da = Some db"
  shows "relay_credits gK now (proc_credits r) r =
    Some (r\<lparr>next_buf := (next_buf r)[out := db], out_queue_credits := [(opp out, ca)],
            proc_credits := []\<rparr>)"
  using assms by (simp add: relay_credit_def om_insert_def om_count_def)

lemma second_credit_dropped_witness:
  "\<exists>d. relay_credits 3 7 [(7, Credit_New, 0), (7, Credit_New\<lparr>c_id := 9\<rparr>, 0)]
     ((example_router gflov power_off)\<lparr>proc_credits := [(7, Credit_New, 0), (7, Credit_New\<lparr>c_id := 9\<rparr>, 0)]\<rparr>) =
   Some ((example_router gflov power_off)\<lparr>next_buf := d, out_queue_credits := [(1, Credit_New)],
     proc_credits := []\<rparr>)"
proof -
  let ?cs = "[(7, Credit_New, 0), (7, Credit_New\<lparr>c_id := 9\<rparr>, 0)]"
  let ?r = "(example_router gflov power_off)\<lparr>proc_credits := ?cs\<rparr>"
  have f: "\<not> at_far_edge 3 (rid ?r) 0" "power_state ?r = power_off" "out_queue_credits ?r = []"
    "0 < outputs ?r" "0 < length (next_buf ?r)"
    by (simp_all add: at_far_edge_def example_router_def FLOVRouter_init_def)
  have p: "ProcessCredit 7 c (next_buf ?r ! 0) = Some (next_buf ?r ! 0)" if "c_vc c = []" for c
    using that by (simp add: ProcessCredit_def)
  have "relay_credits 3 7 (proc_credits ?r) ?r =
    Some (?r\<lparr>next_buf := (next_buf ?r)[0 := next_buf ?r ! 0],
            out_queue_credits := [(opp 0, Credit_New)], proc_credits := []\<rparr>)"
    by (rule second_credit_dropped [where ta = 7 and tb = 7 and cb = "Credit_New\<lparr>c_id := 9\<rparr>"
          and da = "next_buf ?r ! 0"])
      (use f p in simp_all)
  then show ?thesis by (intro exI [of _ "next_buf ?r"]) simp
qed

end
