(* ===== verification/Topology.thy ===== *)
theory Topology
  imports Mesh "HOL-Library.Multiset"
begin

text \<open>
  The k-ary n-cube (mesh or torus) of src/booksim2/src/networks/kncube.cpp: numbering of nodes and
  channels, neighbours, and which channels \<open>_BuildNet\<close> plugs into which port of a router.
  Router ids and channel numbers are natural numbers; a node is a number of \<open>n\<close> digits to the
  base \<open>k\<close>, digit \<open>d\<close> being its position in dimension \<open>d\<close>.
\<close>

subsection \<open>Nodes and channels\<close>

fun powi_c :: "nat \<Rightarrow> nat \<Rightarrow> nat" where
  "powi_c x 0 = 1"
| "powi_c x (Suc y) = powi_c x y * x"

definition ComputeSize :: "nat \<Rightarrow> nat \<Rightarrow> nat \<times> nat" where
  "ComputeSize k n = (powi_c k n, 2 * n * powi_c k n)"

definition LeftChannel :: "nat \<Rightarrow> nat \<Rightarrow> nat \<Rightarrow> nat" where
  "LeftChannel n node dim = 2 * n * node + (2 * dim + 1)"

definition RightChannel :: "nat \<Rightarrow> nat \<Rightarrow> nat \<Rightarrow> nat" where
  "RightChannel n node dim = 2 * n * node + 2 * dim"

definition LeftNode :: "nat \<Rightarrow> nat \<Rightarrow> nat \<Rightarrow> nat" where
  "LeftNode k node dim =
     (let k_to_dim = powi_c k dim; loc_in_dim = (node div k_to_dim) mod k
      in if loc_in_dim = 0 then node + (k - 1) * k_to_dim else node - k_to_dim)"

definition RightNode :: "nat \<Rightarrow> nat \<Rightarrow> nat \<Rightarrow> nat" where
  "RightNode k node dim =
     (let k_to_dim = powi_c k dim; loc_in_dim = (node div k_to_dim) mod k
      in if loc_in_dim = k - 1 then node - (k - 1) * k_to_dim else node + k_to_dim)"

text \<open>The wiring loop of \<open>_BuildNet\<close>: for each dimension the channel from the right and the one from
  the left neighbour are added as inputs \<open>2 * dim\<close> and \<open>2 * dim + 1\<close>, and the channels to them as
  the outputs of the same numbers; the injection and ejection channels come last.\<close>

definition input_channels :: "nat \<Rightarrow> nat \<Rightarrow> nat \<Rightarrow> nat list" where
  "input_channels k n node =
     concat (map (\<lambda>dim. [LeftChannel n (RightNode k node dim) dim,
                         RightChannel n (LeftNode k node dim) dim]) [0..<n])"

definition output_channels :: "nat \<Rightarrow> nat \<Rightarrow> nat list" where
  "output_channels n node =
     concat (map (\<lambda>dim. [RightChannel n node dim, LeftChannel n node dim]) [0..<n])"

lemma powi_c_eq [simp]: "powi_c x y = x ^ y"
  by (induction y) simp_all

subsection \<open>Coordinates\<close>

definition coord :: "nat \<Rightarrow> nat \<Rightarrow> nat \<Rightarrow> nat" where
  "coord k d v = (v div k ^ d) mod k"

text \<open>A number with digit \<open>c\<close> in place \<open>d\<close>, \<open>l\<close> below and \<open>h\<close> above.\<close>

definition with_digit :: "nat \<Rightarrow> nat \<Rightarrow> nat \<Rightarrow> nat \<Rightarrow> nat \<Rightarrow> nat" where
  "with_digit k d l c h = l + k ^ d * (c + k * h)"

lemma div_power_Suc: "v div k ^ Suc d = v div k ^ d div (k::nat)"
  by (metis div_mult2_eq power_Suc2)

lemma digit_split: "v = with_digit k d (v mod k ^ d) (coord k d v) (v div k ^ Suc d)"
proof -
  have "v div k ^ d = coord k d v + k * (v div k ^ Suc d)"
    unfolding div_power_Suc coord_def by simp
  then show ?thesis
    using mod_mult_div_eq [of v "k ^ d"] by (simp add: with_digit_def)
qed

lemma coord_with_digit:
  assumes "l < k ^ d" and "c < k"
  shows "coord k e (with_digit k d l c h) =
    (if e = d then c else if e < d then coord k e l else coord k (e - Suc d) h)"
proof -
  have k: "0 < k" using assms(2) by simp
  consider "e = d" | "e < d" | "e > d" by linarith
  then show ?thesis
  proof cases
    case 1
    have "with_digit k d l c h div k ^ d = c + k * h"
      using assms(1) k by (simp add: with_digit_def)
    with 1 assms(2) show ?thesis by (simp add: coord_def)
  next
    case 2
    then obtain j where j: "d = e + Suc j" using less_imp_Suc_add by (metis add_Suc_right)
    have "with_digit k d l c h = l + k ^ e * (k * (k ^ j * (c + k * h)))"
      by (simp add: with_digit_def j power_add algebra_simps)
    then have "with_digit k d l c h div k ^ e = l div k ^ e + k * (k ^ j * (c + k * h))"
      using k by simp
    with 2 show ?thesis by (simp add: coord_def)
  next
    case 3
    then obtain j where j: "e = Suc d + j" by (metis less_natE add_Suc)
    have "with_digit k d l c h div k ^ Suc d = h"
    proof -
      have "with_digit k d l c h div k ^ d = c + k * h"
        using assms(1) k by (simp add: with_digit_def)
      then have "with_digit k d l c h div (k ^ d * k) = (c + k * h) div k"
        by (simp add: div_mult2_eq)
      then show ?thesis using assms(2) by (simp add: mult.commute)
    qed
    then have "with_digit k d l c h div k ^ e = h div k ^ j"
      by (simp add: j power_add div_mult2_eq)
    with 3 j show ?thesis by (simp add: coord_def)
  qed
qed

lemma coord_less: "0 < k \<Longrightarrow> coord k d v < k"
  by (simp add: coord_def)

lemma with_digit_less:
  assumes "l < k ^ d" and "c < k" and "h < k ^ m"
  shows "with_digit k d l c h < k ^ (d + Suc m)"
proof -
  have "c + k * h + 1 \<le> k * (h + 1)" using assms(2) by simp
  also have "\<dots> \<le> k * k ^ m" using assms(3) by (intro mult_le_mono2) simp
  finally have le: "k ^ d * (c + k * h + 1) \<le> k ^ d * (k * k ^ m)" by (intro mult_le_mono2)
  have "with_digit k d l c h < k ^ d * (c + k * h + 1)"
    using assms(1) by (simp add: with_digit_def distrib_left)
  also have "\<dots> \<le> k ^ (d + Suc m)" using le by (simp add: power_add mult.left_commute)
  finally show ?thesis .
qed

lemma high_less: "(v::nat) < k ^ n \<Longrightarrow> d < n \<Longrightarrow> v div k ^ Suc d < k ^ (n - Suc d)"
  using power_add [of k "n - Suc d" "Suc d"] by (intro less_mult_imp_div_less) simp

lemma same_coords:
  assumes "v < k ^ n" and "w < k ^ n" and "\<forall>d<n. coord k d v = coord k d w"
  shows "v = w"
  using assms
proof (induction n arbitrary: v w)
  case 0
  then show ?case by simp
next
  case (Suc n)
  have "v div k < k ^ n" "w div k < k ^ n"
    using Suc.prems(1,2) by (simp_all add: less_mult_imp_div_less mult.commute)
  moreover have "coord k d (v div k) = coord k d (w div k)" if "d < n" for d
    using Suc.prems(3) [rule_format, of "Suc d"] that by (simp add: coord_def div_mult2_eq)
  ultimately have "v div k = w div k" using Suc.IH by blast
  moreover have "v mod k = w mod k" using Suc.prems(3) [rule_format, of 0] by (simp add: coord_def)
  ultimately show ?case by (metis div_mult_mod_eq)
qed

subsection \<open>Neighbours\<close>

text \<open>Both neighbour functions turn one digit, modulo \<open>k\<close>.\<close>

definition turn :: "nat \<Rightarrow> nat \<Rightarrow> nat \<Rightarrow> nat \<Rightarrow> nat" where
  "turn k d c v = with_digit k d (v mod k ^ d) c (v div k ^ Suc d)"

lemma turn_coord:
  assumes "c < k"
  shows "coord k e (turn k d c v) = (if e = d then c else coord k e v)"
proof -
  have k: "0 < k" using assms by simp
  have "coord k e (turn k d c v) = (if e = d then c else if e < d then coord k e (v mod k ^ d)
      else coord k (e - Suc d) (v div k ^ Suc d))"
    using coord_with_digit [OF _ assms, of "v mod k ^ d" d e "v div k ^ Suc d"] k
    by (simp add: turn_def)
  moreover have "coord k e v = (if e = d then coord k d v else if e < d then coord k e (v mod k ^ d)
      else coord k (e - Suc d) (v div k ^ Suc d))"
    using coord_with_digit [of "v mod k ^ d" k d "coord k d v" e "v div k ^ Suc d"] k
      digit_split [of v k d] coord_less [OF k, of d v] by simp
  ultimately show ?thesis by simp
qed

lemma turn_less:
  assumes "v < k ^ n" and "d < n" and "c < k"
  shows "turn k d c v < k ^ n"
proof -
  have "v mod k ^ d < k ^ d" using assms(3) by simp
  from with_digit_less [OF this assms(3) high_less [OF assms(1,2)]] assms(2)
  show ?thesis by (simp add: turn_def)
qed

lemma RightNode_turn:
  assumes "0 < k"
  shows "RightNode k v d = turn k d (if coord k d v = k - 1 then 0 else coord k d v + 1) v"
proof -
  let ?l = "v mod k ^ d" and ?c = "coord k d v" and ?h = "v div k ^ Suc d"
  have v: "v = ?l + k ^ d * (?c + k * ?h)" using digit_split [of v k d] by (simp add: with_digit_def)
  show ?thesis
  proof (cases "?c = k - 1")
    case True
    have "v = (?l + k ^ d * (k * ?h)) + (k - 1) * k ^ d"
      using v unfolding True by (simp add: algebra_simps)
    then have "v - (k - 1) * k ^ d = ?l + k ^ d * (k * ?h)" by simp
    with True show ?thesis by (simp add: RightNode_def Let_def coord_def turn_def with_digit_def)
  next
    case False
    have "v + k ^ d = ?l + k ^ d * (?c + 1 + k * ?h)"
      by (subst v) (simp add: algebra_simps)
    with False show ?thesis by (simp add: RightNode_def Let_def coord_def turn_def with_digit_def)
  qed
qed

lemma LeftNode_turn:
  assumes "0 < k"
  shows "LeftNode k v d = turn k d (if coord k d v = 0 then k - 1 else coord k d v - 1) v"
proof -
  let ?l = "v mod k ^ d" and ?c = "coord k d v" and ?h = "v div k ^ Suc d"
  have v: "v = ?l + k ^ d * (?c + k * ?h)" using digit_split [of v k d] by (simp add: with_digit_def)
  show ?thesis
  proof (cases "?c = 0")
    case True
    have "v + (k - 1) * k ^ d = ?l + k ^ d * (k - 1 + k * ?h)"
      by (subst v) (simp add: True algebra_simps)
    with True show ?thesis by (simp add: LeftNode_def Let_def coord_def turn_def with_digit_def)
  next
    case False
    then obtain c where c: "?c = Suc c" by (cases ?c) auto
    have "v = (?l + k ^ d * (c + k * ?h)) + k ^ d"
      using v unfolding c by (simp add: algebra_simps)
    then have "v - k ^ d = ?l + k ^ d * (c + k * ?h)" by simp
    with False c show ?thesis by (simp add: LeftNode_def Let_def coord_def turn_def with_digit_def)
  qed
qed

lemma turn_same:
  assumes "v < k ^ n" and "d < n" and "0 < k"
  shows "turn k d (coord k d v) v = v"
  using digit_split [of v k d] by (simp add: turn_def)

lemma turn_turn:
  assumes "v < k ^ n" and "d < n" and "c < k" "c' < k"
  shows "turn k d c' (turn k d c v) = turn k d c' v"
proof (rule same_coords [of _ k n])
  show "turn k d c' (turn k d c v) < k ^ n" "turn k d c' v < k ^ n"
    using assms by (simp_all add: turn_less)
  show "\<forall>e<n. coord k e (turn k d c' (turn k d c v)) = coord k e (turn k d c' v)"
    using assms(3,4) by (simp add: turn_coord)
qed

text \<open>The node and the port at the other end of output port \<open>p\<close>.\<close>

definition next_node :: "nat \<Rightarrow> nat \<Rightarrow> nat \<Rightarrow> nat" where
  "next_node k v p = (if even p then RightNode k v (p div 2) else LeftNode k v (p div 2))"

lemma node_neighbors:
  assumes "v < k ^ n" and "d < n" and "0 < k"
  shows "RightNode k v d < k ^ n \<and> LeftNode k v d < k ^ n \<and>
    LeftNode k (RightNode k v d) d = v \<and> RightNode k (LeftNode k v d) d = v \<and>
    (\<forall>e. coord k e (RightNode k v d) = (if e = d then (coord k d v + 1) mod k else coord k e v)) \<and>
    (\<forall>e. coord k e (LeftNode k v d) = (if e = d then (coord k d v + k - 1) mod k else coord k e v))"
proof -
  let ?c = "coord k d v"
  let ?r = "if ?c = k - 1 then 0 else ?c + 1" and ?l = "if ?c = 0 then k - 1 else ?c - 1"
  have c: "?c < k" using coord_less [OF assms(3)] .
  then have rl: "?r < k" "?l < k" using assms(3) by auto
  have eqs: "RightNode k v d = turn k d ?r v" "LeftNode k v d = turn k d ?l v"
    using RightNode_turn LeftNode_turn assms(3) by blast+
  have lt: "RightNode k v d < k ^ n" "LeftNode k v d < k ^ n"
    unfolding eqs using turn_less [OF assms(1,2)] rl by blast+
  have cr: "coord k e (RightNode k v d) = (if e = d then ?r else coord k e v)"
    and cl: "coord k e (LeftNode k v d) = (if e = d then ?l else coord k e v)" for e
    unfolding eqs using turn_coord rl by simp_all
  have "LeftNode k (RightNode k v d) d =
      turn k d (if ?r = 0 then k - 1 else ?r - 1) (RightNode k v d)"
    using LeftNode_turn [OF assms(3), of "RightNode k v d" d] cr [of d] by simp
  also have "(if ?r = 0 then k - 1 else ?r - 1) = ?c" using c by auto
  also have "turn k d ?c (RightNode k v d) = v"
    unfolding eqs(1) using turn_turn [OF assms(1,2) rl(1) c] turn_same [OF assms] by simp
  finally have lr: "LeftNode k (RightNode k v d) d = v" .
  have "RightNode k (LeftNode k v d) d =
      turn k d (if ?l = k - 1 then 0 else ?l + 1) (LeftNode k v d)"
    using RightNode_turn [OF assms(3), of "LeftNode k v d" d] cl [of d] by simp
  also have "(if ?l = k - 1 then 0 else ?l + 1) = ?c" using c by auto
  also have "turn k d ?c (LeftNode k v d) = v"
    unfolding eqs(2) using turn_turn [OF assms(1,2) rl(2) c] turn_same [OF assms] by simp
  finally have rl': "RightNode k (LeftNode k v d) d = v" .
  have "?r = (?c + 1) mod k" using c by auto
  then have cr': "coord k e (RightNode k v d) = (if e = d then (?c + 1) mod k else coord k e v)" for e
    using cr [of e] by presburger
  have "?l = (?c + k - 1) mod k"
    using c by (cases "?c = 0") (auto simp: mod_if)
  then have cl': "coord k e (LeftNode k v d) = (if e = d then (?c + k - 1) mod k else coord k e v)" for e
    using cl [of e] by presburger
  show ?thesis using lt lr rl' cr' cl' by blast
qed

text \<open>In a k-ary n-cube the two neighbour functions stay among the nodes, undo each other, and
  change exactly the one coordinate, by one modulo \<open>k\<close>.\<close>

theorem kncube_neighbors:
  assumes "v < k ^ n" and "d < n" and "0 < k"
  shows "RightNode k v d < k ^ n \<and> LeftNode k v d < k ^ n \<and>
    LeftNode k (RightNode k v d) d = v \<and> RightNode k (LeftNode k v d) d = v \<and>
    (\<forall>e. coord k e (RightNode k v d) = (if e = d then (coord k d v + 1) mod k else coord k e v)) \<and>
    (\<forall>e. coord k e (LeftNode k v d) = (if e = d then (coord k d v + k - 1) mod k else coord k e v))"
  using node_neighbors [OF assms] .

lemma kncube_neighbors_witness:
  "LeftNode 3 (RightNode 3 5 0) 0 = 5 \<and> RightNode 3 5 0 < 9"
  using kncube_neighbors [of 5 3 2 0] by simp

text \<open>Channel numbers and the lists \<open>_BuildNet\<close> fills.\<close>

lemma concat_pairs_nth:
  "p < 2 * n \<Longrightarrow> concat (map (\<lambda>d. [f d, g d]) [0..<n]) ! p = (if even p then f (p div 2) else g (p div 2))"
proof (induction n)
  case (Suc n)
  have len: "length (concat (map (\<lambda>d. [f d, g d]) [0..<n])) = 2 * n" for n
    by (induction n) auto
  show ?case
  proof (cases "p < 2 * n")
    case True
    then show ?thesis using Suc.IH by (simp add: nth_append len)
  next
    case False
    with Suc.prems have "p = 2 * n \<or> p = 2 * n + 1" by auto
    then show ?thesis using len [of n] by (auto simp: nth_append)
  qed
qed simp

lemma output_channels_nth: "p < 2 * n \<Longrightarrow> output_channels n v ! p = 2 * n * v + p"
  unfolding output_channels_def concat_pairs_nth
  by (auto simp: RightChannel_def LeftChannel_def elim: oddE)

lemma wiring_meets:
  assumes "0 < k" and v: "v < k ^ n" and p: "p < 2 * n"
  shows "next_node k v p < k ^ n"
    and "input_channels k n (next_node k v p) ! opp p = output_channels n v ! p"
proof -
  have d: "p div 2 < n" using p by auto
  note nb = node_neighbors [OF v d assms(1)]
  show "next_node k v p < k ^ n" using nb by (simp add: next_node_def)
  have op: "opp p < 2 * n" "opp p div 2 = p div 2" "even (opp p) = odd p"
    using p unfolding opp_def by presburger+
  show "input_channels k n (next_node k v p) ! opp p = output_channels n v ! p"
    using nb unfolding input_channels_def output_channels_def concat_pairs_nth [OF p] concat_pairs_nth [OF op(1)]
    by (simp add: next_node_def op)
qed

lemma length_channels [simp]:
  "length (input_channels k n v) = 2 * n" "length (output_channels n v) = 2 * n"
proof -
  have "length (concat (map (\<lambda>d. [f d, g d]) [0..<n])) = 2 * n" for f g :: "nat \<Rightarrow> nat"
    by (induction n) auto
  then show "length (input_channels k n v) = 2 * n" "length (output_channels n v) = 2 * n"
    by (simp_all add: input_channels_def output_channels_def)
qed

lemma output_channels_upt: "output_channels n v = [2 * n * v..<2 * n * v + 2 * n]"
  by (rule nth_equalityI) (simp_all add: output_channels_nth)

text \<open>The channels the routers read are all the channels, each once.\<close>

lemma input_channels_all:
  assumes "0 < k" and "0 < n"
  shows "mset (concat (map (input_channels k n) [0..<k ^ n])) = mset [0..<2 * n * k ^ n]"
proof -
  let ?xs = "concat (map (input_channels k n) [0..<k ^ n])"
  have len: "length ?xs = 2 * n * k ^ n"
    by (simp add: length_concat comp_def sum_list_triv mult.commute)
  have sub: "{..<2 * n * k ^ n} \<subseteq> set ?xs"
  proof
    fix c assume c: "c \<in> {..<2 * n * k ^ n}"
    define v p where "v = c div (2 * n)" and "p = c mod (2 * n)"
    have vp: "v < k ^ n" "p < 2 * n" "2 * n * v + p = c"
      using c assms(2) by (auto simp: v_def p_def less_mult_imp_div_less mult.commute)
    have "opp p < 2 * n" using vp(2) unfolding opp_def by presburger
    then have "input_channels k n (next_node k v p) ! opp p \<in> set (input_channels k n (next_node k v p))"
      by simp
    moreover have "input_channels k n (next_node k v p) ! opp p = c"
      using wiring_meets(2) [OF assms(1) vp(1,2)] vp by (simp add: output_channels_nth)
    ultimately show "c \<in> set ?xs" using wiring_meets(1) [OF assms(1) vp(1,2)] by auto
  qed
  have eq: "set ?xs = {..<2 * n * k ^ n}"
    by (rule card_subset_eq [symmetric]) (use sub card_length [of ?xs] len card_mono [OF _ sub] in auto)
  then have "distinct ?xs" using len by (intro card_distinct) simp
  then show ?thesis using eq by (subst set_eq_iff_mset_eq_distinct [symmetric]) auto
qed

text \<open>C37: the network is wired port to port: the channel that leaves a router through port \<open>p\<close> is the
  one that enters the next node in that direction through the port facing back, every channel of
  the network leaves exactly one router through exactly one port, and that port's number and the
  router's can be read off the channel number.\<close>

theorem kncube_wiring:
  assumes "0 < k" and "0 < n"
  shows "(\<forall>v < k ^ n. \<forall>p < 2 * n. next_node k v p < k ^ n \<and>
      input_channels k n (next_node k v p) ! opp p = output_channels n v ! p) \<and>
    (\<forall>c < snd (ComputeSize k n). \<forall>v p. v < k ^ n \<and> p < 2 * n \<longrightarrow>
      (output_channels n v ! p = c \<longleftrightarrow> v = c div (2 * n) \<and> p = c mod (2 * n))) \<and>
    (\<forall>c < snd (ComputeSize k n). c div (2 * n) < k ^ n)"
proof (intro conjI allI impI)
  fix v p assume v: "v < k ^ n" and p: "p < 2 * n"
  show "next_node k v p < k ^ n" by (rule wiring_meets(1) [OF assms(1) v p])
  show "input_channels k n (next_node k v p) ! opp p = output_channels n v ! p"
    by (rule wiring_meets(2) [OF assms(1) v p])
next
  fix c v p assume c: "c < snd (ComputeSize k n)" and vp: "v < k ^ n \<and> p < 2 * n"
  then have "output_channels n v ! p = 2 * n * v + p" by (simp add: output_channels_nth)
  then show "(output_channels n v ! p = c) = (v = c div (2 * n) \<and> p = c mod (2 * n))"
    using vp by auto
next
  fix c assume "c < snd (ComputeSize k n)"
  then show "c div (2 * n) < k ^ n"
    by (simp add: ComputeSize_def less_mult_imp_div_less mult.commute)
qed

lemma kncube_wiring_witness:
  "input_channels 3 2 (next_node 3 4 2) ! opp 2 = output_channels 2 4 ! 2 \<and> next_node 3 4 2 < 9"
  using kncube_wiring [of 3 2, THEN conjunct1, rule_format, of 4 2] by simp

end
