(* ===== verification/Routing.thy ===== *)
theory Routing
  imports Routers Topology
begin

text \<open>
  Routing functions for the mesh (src/booksim2/src/routefunc.cpp): dimension order, XY/YX, and the
  FLOV family that goes around sleeping routers with an escape VC.  The globals \<open>gK\<close>, \<open>gN\<close>,
  \<open>gNodes\<close>, \<open>gNumVCs\<close> and the VC ranges of the message classes are the record \<open>net_params\<close>.
  Router ids are natural numbers; so is a flit's destination where it is used as a router id
  (\<open>dest_of\<close>).  \<open>now\<close> is \<open>GetSimTime()\<close> and \<open>rnd\<close> the outcome of \<open>RandomInt(1) > 0\<close>.
  A routing function returns the new output set; \<open>None\<close> is a failed assertion.
\<close>

record net_params =
  g_k :: nat
  g_n :: nat
  g_nodes :: nat
  g_vcs :: int
  g_read_req :: "int \<times> int"
  g_write_req :: "int \<times> int"
  g_read_reply :: "int \<times> int"
  g_write_reply :: "int \<times> int"
  g_miss_threshold :: int

text \<open>The class partition \<open>InitializeRoutingMap\<close> reads from the configuration, where a negative
  entry stands for the default.\<close>

definition or_default :: "int \<Rightarrow> int \<Rightarrow> int" where
  "or_default configured dflt = (if configured < 0 then dflt else configured)"

definition init_params ::
  "nat \<Rightarrow> nat \<Rightarrow> int \<Rightarrow> int \<Rightarrow> int \<times> int \<Rightarrow> int \<times> int \<Rightarrow> int \<times> int \<Rightarrow> int \<times> int \<Rightarrow> net_params" where
  "init_params k n num_vcs miss rreq wreq rrep wrep =
     (let half = num_vcs div 2 in
      \<lparr>g_k = k, g_n = n, g_nodes = powi_c k n, g_vcs = num_vcs,
       g_read_req = (or_default (fst rreq) 0, or_default (snd rreq) (half - 1)),
       g_write_req = (or_default (fst wreq) 0, or_default (snd wreq) (half - 1)),
       g_read_reply = (or_default (fst rrep) half, or_default (snd rrep) (num_vcs - 1)),
       g_write_reply = (or_default (fst wrep) half, or_default (snd wrep) (num_vcs - 1)),
       g_miss_threshold = (if miss = -1 then int k else miss)\<rparr>)"

definition class_vcs :: "net_params \<Rightarrow> flit \<Rightarrow> int \<times> int" where
  "class_vcs g f =
     (case f_type f of
        READ_REQUEST \<Rightarrow> g_read_req g
      | WRITE_REQUEST \<Rightarrow> g_write_req g
      | READ_REPLY \<Rightarrow> g_read_reply g
      | WRITE_REPLY \<Rightarrow> g_write_reply g
      | ANY_TYPE \<Rightarrow> (0, g_vcs g - 1))"

definition vc_ok :: "flit \<Rightarrow> bool \<Rightarrow> int \<times> int \<Rightarrow> bool" where
  "vc_ok f inject be \<longleftrightarrow> (f_vc f \<ge> fst be \<and> f_vc f \<le> snd be) \<or> (inject \<and> f_vc f < 0)"

definition dest_of :: "flit \<Rightarrow> nat" where
  "dest_of f = nat (f_dest f)"

subsection \<open>Dimension order\<close>

text \<open>The two loops of \<open>dor_next_mesh\<close>, with the dimension reached, \<open>cur\<close> and \<open>dest\<close> as state; the
  first argument of \<open>dor_up\<close> is the number of dimensions it may still go up.\<close>

fun dor_up :: "nat \<Rightarrow> nat \<Rightarrow> nat \<Rightarrow> nat \<Rightarrow> nat \<Rightarrow> nat \<times> nat \<times> nat" where
  "dor_up k 0 dim cur dest = (dim, cur, dest)"
| "dor_up k (Suc m) dim cur dest =
     (if cur mod k \<noteq> dest mod k then (dim, cur, dest)
      else dor_up k m (Suc dim) (cur div k) (dest div k))"

fun dor_down :: "nat \<Rightarrow> nat \<Rightarrow> nat \<Rightarrow> nat \<Rightarrow> nat \<Rightarrow> nat \<times> nat \<times> nat" where
  "dor_down k nodes 0 cur dest = (0, cur, dest)"
| "dor_down k nodes (Suc dim) cur dest =
     (if cur * k div nodes \<noteq> dest * k div nodes then (Suc dim, cur, dest)
      else dor_down k nodes dim (cur * k mod nodes) (dest * k mod nodes))"

definition dor_next_mesh :: "net_params \<Rightarrow> nat \<Rightarrow> nat \<Rightarrow> bool \<Rightarrow> nat" where
  "dor_next_mesh g cur dest descending =
     (if cur = dest then 2 * g_n g
      else let (dim_left, c, d) =
             (if descending
              then (let (m, c, d) = dor_down (g_k g) (g_nodes g) (g_n g - 1) cur dest
                    in (m, c * g_k g div g_nodes g, d * g_k g div g_nodes g))
              else (let (m, c, d) = dor_up (g_k g) (g_n g - 1) 0 cur dest
                    in (m, c mod g_k g, d mod g_k g)))
           in if c < d then 2 * dim_left else 2 * dim_left + 1)"

definition dim_order_mesh ::
  "net_params \<Rightarrow> 'a router_scheme \<Rightarrow> flit \<Rightarrow> nat \<Rightarrow> bool \<Rightarrow> output_set \<Rightarrow> output_set option" where
  "dim_order_mesh g r f in_channel inject outs =
     (let out_port = (if inject then -1 else int (dor_next_mesh g (rid r) (dest_of f) False));
          (vcBegin, vcEnd) = class_vcs g f
      in do {
        assertion (vc_ok f inject (vcBegin, vcEnd));
        Some (AddRange out_port vcBegin vcEnd 0 (Clear outs))
      })"

text \<open>Virtual networks per destination (\<open>ni\<close>) and per next coordinate (\<open>pni\<close>).\<close>

definition dim_order_ni_mesh ::
  "net_params \<Rightarrow> 'a router_scheme \<Rightarrow> flit \<Rightarrow> nat \<Rightarrow> bool \<Rightarrow> output_set \<Rightarrow> output_set option" where
  "dim_order_ni_mesh g r f in_channel inject outs =
     (let out_port = (if inject then -1 else int (dor_next_mesh g (rid r) (dest_of f) False));
          (b, e) = class_vcs g f
      in do {
        assertion (vc_ok f inject (b, e));
        (if inject \<or> rid r \<noteq> dest_of f
         then let per = (e - b + 1) div int (g_nodes g) in do {
                assertion (per > 0);
                (let b' = b + f_dest f * per
                 in Some (AddRange out_port b' (b' + per - 1) 0 (Clear outs)))
              }
         else Some (AddRange out_port b e 0 (Clear outs)))
      })"

definition dim_order_pni_mesh ::
  "net_params \<Rightarrow> 'a router_scheme \<Rightarrow> flit \<Rightarrow> nat \<Rightarrow> bool \<Rightarrow> output_set \<Rightarrow> output_set option" where
  "dim_order_pni_mesh g r f in_channel inject outs =
     (let port = dor_next_mesh g (rid r) (dest_of f) False;
          out_port = (if inject then -1 else int port);
          (b, e) = class_vcs g f
      in do {
        assertion (vc_ok f inject (b, e));
        (if inject \<or> rid r \<noteq> dest_of f
         then let next_coord = (if inject then dest_of f
                                else ((\<lambda>c. c div g_k g) ^^ (port div 2)) (dest_of f)) mod g_k g;
                  per = (e - b + 1) div int (g_k g)
              in do {
                assertion (next_coord < g_k g);
                assertion (per > 0);
                (let b' = b + int next_coord * per
                 in Some (AddRange out_port b' (b' + per - 1) 0 (Clear outs)))
              }
         else Some (AddRange out_port b e 0 (Clear outs)))
      })"

subsection \<open>XY or YX\<close>

definition xy_yx_choice ::
  "net_params \<Rightarrow> nat \<Rightarrow> flit \<Rightarrow> bool \<Rightarrow> int \<Rightarrow> int \<Rightarrow> bool \<Rightarrow> output_set \<Rightarrow> output_set option" where
  "xy_yx_choice g cur f from_network b e injected_xy outs =
     (let available = (e - b + 1) div 2 in do {
        assertion (available > 0);
        (let x_then_y = (if from_network then f_vc f < b + available else injected_xy)
         in Some (if x_then_y
                  then AddRange (int (dor_next_mesh g cur (dest_of f) False)) b (e - available) 0 (Clear outs)
                  else AddRange (int (dor_next_mesh g cur (dest_of f) True)) (b + available) e 0 (Clear outs)))
      })"

definition xy_yx_mesh ::
  "net_params \<Rightarrow> bool \<Rightarrow> 'a router_scheme \<Rightarrow> flit \<Rightarrow> nat \<Rightarrow> bool \<Rightarrow> output_set \<Rightarrow> output_set option" where
  "xy_yx_mesh g rnd r f in_channel inject outs =
     (let (b, e) = class_vcs g f in do {
        assertion (vc_ok f inject (b, e));
        (if inject then Some (AddRange (-1) b e 0 (Clear outs))
         else if rid r = dest_of f then Some (AddRange (2 * int (g_n g)) b e 0 (Clear outs))
         else xy_yx_choice g (rid r) f (in_channel < 2 * g_n g) b e rnd outs)
      })"

definition GetFreeCredit :: "nat \<Rightarrow> 'a iq_router_scheme \<Rightarrow> int option" where
  "GetFreeCredit out r = do {
     assertion (out < outputs r);
     Some (bs_size (next_buf r ! out) - bs_occupancy (next_buf r ! out))
   }"

definition GetUsedCredit :: "nat \<Rightarrow> 'a iq_router_scheme \<Rightarrow> int option" where
  "GetUsedCredit out r = do {
     assertion (out < outputs r);
     Some (bs_occupancy (next_buf r ! out))
   }"

definition adaptive_xy_yx_mesh ::
  "net_params \<Rightarrow> bool \<Rightarrow> 'a iq_router_scheme \<Rightarrow> flit \<Rightarrow> nat \<Rightarrow> bool \<Rightarrow> output_set \<Rightarrow> output_set option" where
  "adaptive_xy_yx_mesh g rnd r f in_channel inject outs =
     (let (b, e) = class_vcs g f in do {
        assertion (vc_ok f inject (b, e));
        (if inject then Some (AddRange (-1) b e 0 (Clear outs))
         else if rid r = dest_of f then Some (AddRange (2 * int (g_n g)) b e 0 (Clear outs))
         else if in_channel < 2 * g_n g then xy_yx_choice g (rid r) f True b e False outs
         else do {
           assertion ((e - b + 1) div 2 > 0);
           credit_xy \<leftarrow> GetUsedCredit (dor_next_mesh g (rid r) (dest_of f) False) r;
           credit_yx \<leftarrow> GetUsedCredit (dor_next_mesh g (rid r) (dest_of f) True) r;
           xy_yx_choice g (rid r) f False b e
             (if credit_xy > credit_yx then False
              else if credit_xy < credit_yx then True else rnd) outs
         })
      })"

subsection \<open>Routing around sleeping routers\<close>

text \<open>Shared by the FLOV functions: the VC the packet came on (any, right after injection), the
  neighbour's power state and the tests on rows and columns.\<close>

definition neighbor_on :: "'a router_scheme \<Rightarrow> nat \<Rightarrow> bool" where
  "neighbor_on r out \<longleftrightarrow> neighbor_states r ! out = power_on"

definition col_differs :: "net_params \<Rightarrow> nat \<Rightarrow> nat \<Rightarrow> bool" where
  "col_differs g cur dest \<longleftrightarrow> cur mod g_k g \<noteq> dest mod g_k g"

definition row_differs :: "net_params \<Rightarrow> nat \<Rightarrow> nat \<Rightarrow> bool" where
  "row_differs g cur dest \<longleftrightarrow> cur div g_k g \<noteq> dest div g_k g"

definition above_bottom :: "net_params \<Rightarrow> nat \<Rightarrow> bool" where
  "above_bottom g cur \<longleftrightarrow> cur < g_nodes g - g_k g"

text \<open>Escape packets use the first VC of the class only, others all but that.\<close>

definition escape_range :: "bool \<Rightarrow> nat \<Rightarrow> int \<Rightarrow> int \<Rightarrow> output_set" where
  "escape_range escape out b e =
     (if escape then AddRange (int out) b b 0 [] else AddRange (int out) (b + 1) e 0 [])"

definition flov_mesh_choice ::
  "net_params \<Rightarrow> int \<Rightarrow> 'a router_scheme \<Rightarrow> flit \<Rightarrow> int \<Rightarrow> int \<Rightarrow> bool \<times> nat" where
  "flov_mesh_choice g now r f in_vc b =
     (let cur = rid r; dest = dest_of f;
          xy = dor_next_mesh g cur dest False;
          out = (if \<not> neighbor_on r xy then dor_next_mesh g cur dest True else xy);
          both = (col_differs g cur dest \<and> row_differs g cur dest);
          escape = (in_vc = b \<or> now - f_rtime f > 300 \<or> (both \<and> \<not> neighbor_on r out))
      in (escape, if escape \<and> above_bottom g cur \<and> both then DIR_SOUTH else out))"

definition flov_mesh ::
  "net_params \<Rightarrow> int \<Rightarrow> 'a router_scheme \<Rightarrow> flit \<Rightarrow> nat \<Rightarrow> bool \<Rightarrow> output_set \<Rightarrow> output_set option" where
  "flov_mesh g now r f in_channel inject outs =
     (let (b, e) = class_vcs g f in do {
        assertion (vc_ok f inject (b, e));
        Some (if inject then AddRange (-1) b e 0 (Clear outs)
              else if rid r = dest_of f then AddRange (2 * int (g_n g)) b e 0 (Clear outs)
              else let in_vc = (if in_channel = 2 * g_n g then e else f_vc f);
                       (escape, out) = flov_mesh_choice g now r f in_vc b
                   in escape_range escape out b e)
      })"

definition opt_rflov_choice ::
  "net_params \<Rightarrow> int \<Rightarrow> 'a router_scheme \<Rightarrow> flit \<Rightarrow> nat \<Rightarrow> int \<Rightarrow> int \<Rightarrow> bool \<times> nat" where
  "opt_rflov_choice g now r f in_channel in_vc b =
     (let cur = rid r; dest = dest_of f;
          esc0 = (in_vc = b \<or> now - f_rtime f > 300);
          xy = dor_next_mesh g cur dest False;
          both = (col_differs g cur dest \<and> row_differs g cur dest);
          blocked = (both \<and> \<not> neighbor_on r xy);
          out = (if \<not> blocked then xy
                 else if dest mod g_k g > cur mod g_k g + 1 then DIR_EAST
                 else if int (dest mod g_k g) < int (cur mod g_k g) - 1 then DIR_WEST
                 else if int (dest div g_k g) < int (cur div g_k g) - 1 \<and> \<not> esc0 then DIR_NORTH
                 else DIR_SOUTH);
          escape = (esc0 \<or> (blocked \<and> in_channel = 2 \<and> out = DIR_SOUTH))
      in (escape, if escape \<and> above_bottom g cur \<and> both \<and> out = DIR_NORTH then DIR_SOUTH else out))"

definition opt_rflov_mesh ::
  "net_params \<Rightarrow> int \<Rightarrow> 'a router_scheme \<Rightarrow> flit \<Rightarrow> nat \<Rightarrow> bool \<Rightarrow> output_set \<Rightarrow> output_set option" where
  "opt_rflov_mesh g now r f in_channel inject outs =
     (let (b, e) = class_vcs g f in do {
        assertion (vc_ok f inject (b, e));
        Some (if inject then AddRange (-1) b e 0 (Clear outs)
              else if rid r = dest_of f then AddRange (2 * int (g_n g)) b e 0 (Clear outs)
              else let in_vc = (if in_channel = 2 * g_n g then e else f_vc f);
                       (escape, out) = opt_rflov_choice g now r f in_channel in_vc b
                   in escape_range escape out b e)
      })"

text \<open>The coordinates of the logical neighbours, \<open>None\<close> where the code has \<open>-1\<close>.\<close>

definition logical_x :: "net_params \<Rightarrow> 'a router_scheme \<Rightarrow> nat \<Rightarrow> int option" where
  "logical_x g r i = (let l = logical_neighbors r ! i
     in if l \<noteq> -1 then Some (l mod int (g_k g)) else None)"

definition logical_y :: "net_params \<Rightarrow> 'a router_scheme \<Rightarrow> nat \<Rightarrow> int option" where
  "logical_y g r i = (let l = logical_neighbors r ! i
     in if l \<noteq> -1 then Some (l div int (g_k g)) else None)"

definition reaches_east :: "net_params \<Rightarrow> 'a router_scheme \<Rightarrow> nat \<Rightarrow> bool" where
  "reaches_east g r dest \<longleftrightarrow>
     (case logical_x g r 0 of None \<Rightarrow> False | Some x \<Rightarrow> int (dest mod g_k g) \<ge> x)"

definition reaches_west :: "net_params \<Rightarrow> 'a router_scheme \<Rightarrow> nat \<Rightarrow> bool" where
  "reaches_west g r dest \<longleftrightarrow>
     (case logical_x g r 1 of None \<Rightarrow> False | Some x \<Rightarrow> int (dest mod g_k g) \<le> x)"

definition reaches_north :: "net_params \<Rightarrow> 'a router_scheme \<Rightarrow> nat \<Rightarrow> bool" where
  "reaches_north g r dest \<longleftrightarrow>
     (case logical_y g r 3 of None \<Rightarrow> False | Some y \<Rightarrow> int (dest div g_k g) \<le> y)"

definition opt_flov_choice ::
  "net_params \<Rightarrow> int \<Rightarrow> 'a router_scheme \<Rightarrow> flit \<Rightarrow> nat \<Rightarrow> int \<Rightarrow> int \<Rightarrow> bool \<times> nat" where
  "opt_flov_choice g now r f in_channel in_vc b =
     (let cur = rid r; dest = dest_of f;
          esc0 = (in_vc = b \<or> now - f_rtime f > 300);
          xy = dor_next_mesh g cur dest False;
          both = (col_differs g cur dest \<and> row_differs g cur dest);
          blocked = (both \<and> \<not> neighbor_on r xy);
          out = (if \<not> blocked then xy
                 else if reaches_east g r dest then DIR_EAST
                 else if reaches_west g r dest then DIR_WEST
                 else if reaches_north g r dest \<and> \<not> esc0 then DIR_NORTH
                 else DIR_SOUTH);
          escape = (esc0 \<or> (blocked \<and> in_channel = 2 \<and> out = DIR_SOUTH))
      in (escape, if escape \<and> above_bottom g cur \<and> both \<and> out = DIR_NORTH then DIR_SOUTH else out))"

definition opt_flov_mesh ::
  "net_params \<Rightarrow> int \<Rightarrow> 'a router_scheme \<Rightarrow> flit \<Rightarrow> nat \<Rightarrow> bool \<Rightarrow> output_set \<Rightarrow> output_set option" where
  "opt_flov_mesh g now r f in_channel inject outs =
     (let (b, e) = class_vcs g f in do {
        assertion (vc_ok f inject (b, e));
        Some (if inject then AddRange (-1) b e 0 (Clear outs)
              else if rid r = dest_of f then AddRange (2 * int (g_n g)) b e 0 (Clear outs)
              else let in_vc = (if in_channel \<ge> 2 * g_n g then e else f_vc f);
                       (escape, out) = opt_flov_choice g now r f in_channel in_vc b
                   in escape_range escape out b e)
      })"

text \<open>The adaptive function offers the escape VC at priority 0 beside the adaptive choices.\<close>

definition adaptive_escape_port :: "net_params \<Rightarrow> nat \<Rightarrow> nat \<Rightarrow> nat" where
  "adaptive_escape_port g cur dest =
     (let out = dor_next_mesh g cur dest False
      in if above_bottom g cur \<and> col_differs g cur dest \<and> row_differs g cur dest \<and> out \<noteq> DIR_NORTH
         then DIR_SOUTH else out)"

definition adaptive_choices ::
  "net_params \<Rightarrow> 'a iq_router_scheme \<Rightarrow> nat \<Rightarrow> nat \<Rightarrow> int \<Rightarrow> int \<Rightarrow> output_set \<Rightarrow> output_set option" where
  "adaptive_choices g r dest in_channel b e outs =
     (let cur = rid r;
          xy = dor_next_mesh g cur dest False; yx = dor_next_mesh g cur dest True
      in do {
        credit_xy \<leftarrow> GetFreeCredit xy r;
        credit_yx \<leftarrow> GetFreeCredit yx r;
        (let (xy_pri, yx_pri) = (if credit_xy \<ge> credit_yx then (2, 1) else (1, 2)) in
         if \<not> col_differs g cur dest \<or> \<not> row_differs g cur dest then Some (AddRange (int xy) b e 1 outs)
         else let xy_available = (neighbor_on r xy \<or> neighbor_states r ! xy = power_off \<and>
                    (reaches_east g r dest \<or> reaches_west g r dest));
                  yx_available = (neighbor_on r yx \<or> neighbor_states r ! yx = power_off \<and> reaches_north g r dest);
                  o1 = (if xy_available \<and> xy \<noteq> in_channel then AddRange (int xy) b e xy_pri outs else outs)
              in do {
                assertion (xy \<noteq> yx);
                (let o2 = (if yx_available \<and> yx \<noteq> in_channel then AddRange (int yx) b e yx_pri o1 else o1);
                     esc = adaptive_escape_port g cur dest
                 in Some (if \<not> xy_available \<and> \<not> yx_available \<and> esc \<noteq> in_channel
                          then AddRange (int esc) b e 1 o2 else o2))
              })
      })"

definition adaptive_flov_mesh ::
  "net_params \<Rightarrow> 'a iq_router_scheme \<Rightarrow> flit \<Rightarrow> nat \<Rightarrow> bool \<Rightarrow> output_set \<Rightarrow> output_set option" where
  "adaptive_flov_mesh g r f in_channel inject outs =
     (let (b, e) = class_vcs g f in do {
        assertion (vc_ok f inject (b, e));
        (if inject then Some (AddRange (-1) b e 0 (Clear outs))
         else if rid r = dest_of f then Some (AddRange (2 * int (g_n g)) b e 0 (Clear outs))
         else let in_vc = (if in_channel \<ge> 2 * g_n g then e else f_vc f);
                  esc = AddRange (int (adaptive_escape_port g (rid r) (dest_of f))) b b 0 (Clear outs)
              in if in_vc = b \<or> f_misroute_hops f > g_miss_threshold g then Some esc
                 else adaptive_choices g r (dest_of f) in_channel (b + 1) e esc)
      })"

end
