(* ===== verification/Dimension_Order.thy ===== *)
theory Dimension_Order
  imports Routing
begin

text \<open>
  Dimension-order routing is correct on any k-ary n-mesh, in both orders: \<open>dor_next_mesh\<close> names a
  port towards the destination in the first (or last) dimension that still differs, never over a
  wrap-around link, so the distance goes down by one per hop and the packet arrives after exactly
  that many hops (locale \<open>progressive_routing\<close>, interpreted for XY and YX order).
\<close>

definition mesh_params :: "net_params \<Rightarrow> bool" where
  "mesh_params g \<longleftrightarrow> 0 < g_k g \<and> 0 < g_n g \<and> g_nodes g = g_k g ^ g_n g"

subsection \<open>The two loops\<close>

lemma dor_up_spec:
  assumes "dor_up k m dim (v div k ^ dim) (w div k ^ dim) = (d, c, c')"
    and "\<forall>e<dim. coord k e v = coord k e w"
  shows "dim \<le> d \<and> d \<le> dim + m \<and> c = v div k ^ d \<and> c' = w div k ^ d \<and>
    (\<forall>e<d. coord k e v = coord k e w) \<and> (d < dim + m \<longrightarrow> coord k d v \<noteq> coord k d w)"
  using assms
proof (induction m arbitrary: dim)
  case 0
  then show ?case by auto
next
  case (Suc m)
  show ?case
  proof (cases "coord k dim v = coord k dim w")
    case False
    with Suc.prems show ?thesis by (auto simp: coord_def)
  next
    case True
    then have "dor_up k m (Suc dim) (v div k ^ Suc dim) (w div k ^ Suc dim) = (d, c, c')"
      using Suc.prems(1) by (simp add: coord_def div_power_Suc del: power_Suc)
    moreover have "\<forall>e<Suc dim. coord k e v = coord k e w"
      using Suc.prems(2) True less_Suc_eq by auto
    ultimately show ?thesis using Suc.IH [of "Suc dim"] by auto
  qed
qed

definition shifted :: "nat \<Rightarrow> nat \<Rightarrow> nat \<Rightarrow> nat \<Rightarrow> nat" where
  "shifted k n dim v = (v mod k ^ Suc dim) * k ^ (n - Suc dim)"

lemma shifted_top:
  assumes "dim < n" and "0 < k"
  shows "shifted k n dim v * k div k ^ n = coord k dim v"
proof -
  have n: "k ^ n = k ^ dim * k ^ (n - dim)" using assms by (simp add: power_add [symmetric])
  have "k ^ (n - Suc dim) * k = k ^ (n - dim)"
    using assms by (metis Suc_diff_Suc power_Suc2)
  then have "shifted k n dim v * k = (v mod k ^ Suc dim) * k ^ (n - dim)"
    by (simp add: shifted_def)
  then have "shifted k n dim v * k div k ^ n = (v mod k ^ Suc dim) div k ^ dim"
    using assms n by simp
  also have "\<dots> = (v div k ^ dim) mod k"
    by (metis mod_mult2_eq power_Suc2 assms(2) add_diff_cancel_right' mod_mult_self4
        nonzero_mult_div_cancel_left power_not_zero neq0_conv div_mult_self4 mod_div_trivial add.right_neutral add.commute div_mult_self2)
  finally show ?thesis by (simp add: coord_def)
qed

lemma shifted_step:
  assumes "Suc dim < n"
  shows "shifted k n (Suc dim) v * k mod k ^ n = shifted k n dim v"
proof -
  have e: "k ^ (n - Suc (Suc dim)) * k = k ^ (n - Suc dim)"
    using assms by (metis Suc_diff_Suc power_Suc2)
  have n: "k ^ n = k ^ Suc dim * k ^ (n - Suc dim)" using assms by (simp only: power_add [symmetric]) simp
  have "shifted k n (Suc dim) v * k = (v mod k ^ Suc (Suc dim)) * k ^ (n - Suc dim)"
    using e by (simp add: shifted_def)
  then have "shifted k n (Suc dim) v * k mod k ^ n =
      (v mod k ^ Suc (Suc dim)) mod k ^ Suc dim * k ^ (n - Suc dim)"
    unfolding n by (simp only: mult_mod_left)
  also have "(v mod k ^ Suc (Suc dim)) mod k ^ Suc dim = v mod k ^ Suc dim"
    by (simp add: mod_mod_cancel le_imp_power_dvd)
  finally show ?thesis by (simp add: shifted_def)
qed

lemma dor_down_spec:
  assumes "dor_down k (k ^ n) dim (shifted k n dim v) (shifted k n dim w) = (d, c, c')"
    and "dim < n" and "0 < k"
  shows "d \<le> dim \<and> c = shifted k n d v \<and> c' = shifted k n d w \<and>
    (\<forall>e. d < e \<and> e \<le> dim \<longrightarrow> coord k e v = coord k e w) \<and> (0 < d \<longrightarrow> coord k d v \<noteq> coord k d w)"
  using assms(1,2)
proof (induction dim)
  case 0
  then show ?case by auto
next
  case (Suc dim)
  show ?case
  proof (cases "coord k (Suc dim) v = coord k (Suc dim) w")
    case False
    with Suc.prems shifted_top [OF Suc.prems(2) assms(3)] show ?thesis by auto
  next
    case True
    then have "dor_down k (k ^ n) dim (shifted k n dim v) (shifted k n dim w) = (d, c, c')"
      using Suc.prems shifted_top [OF Suc.prems(2) assms(3)] shifted_step [OF Suc.prems(2)] by simp
    with Suc.IH Suc.prems(2) True show ?thesis by (auto simp: le_Suc_eq)
  qed
qed

text \<open>The port \<open>dor_next_mesh\<close> returns, and which coordinates already agree.\<close>

lemma dor_next_mesh_spec:
  assumes g: "mesh_params g" and "v < g_nodes g" "w < g_nodes g" "v \<noteq> w"
  shows "\<exists>d < g_n g. coord (g_k g) d v \<noteq> coord (g_k g) d w \<and>
    dor_next_mesh g v w desc = (if coord (g_k g) d v < coord (g_k g) d w then 2 * d else 2 * d + 1) \<and>
    (if desc then \<forall>e. d < e \<and> e < g_n g \<longrightarrow> coord (g_k g) e v = coord (g_k g) e w
     else \<forall>e<d. coord (g_k g) e v = coord (g_k g) e w)"
proof -
  let ?k = "g_k g" and ?n = "g_n g"
  have k: "0 < ?k" and n: "0 < ?n" and nodes: "g_nodes g = ?k ^ ?n"
    using g by (simp_all add: mesh_params_def)
  have differ: "\<exists>e<?n. coord ?k e v \<noteq> coord ?k e w"
    using same_coords [of v ?k ?n w] assms nodes by auto
  show ?thesis
  proof (cases desc)
    case False
    obtain d c c' where up: "dor_up ?k (?n - 1) 0 v w = (d, c, c')" by (metis prod_cases3)
    with dor_up_spec [of ?k "?n - 1" 0 v w d c c']
    have s: "d \<le> ?n - 1" "c = v div ?k ^ d" "c' = w div ?k ^ d"
      "\<forall>e<d. coord ?k e v = coord ?k e w" "d < ?n - 1 \<longrightarrow> coord ?k d v \<noteq> coord ?k d w"
      by simp_all
    have "coord ?k d v \<noteq> coord ?k d w"
    proof (cases "d < ?n - 1")
      case True then show ?thesis using s(5) by simp
    next
      case ge: False
      obtain e where "e < ?n" "coord ?k e v \<noteq> coord ?k e w" using differ by blast
      moreover from this have "\<not> e < d" using s(4) by auto
      ultimately have "e = d" using ge s(1) by linarith
      then show ?thesis using \<open>coord ?k e v \<noteq> coord ?k e w\<close> by simp
    qed
    moreover have "dor_next_mesh g v w desc =
        (if coord ?k d v < coord ?k d w then 2 * d else 2 * d + 1)"
      using False assms(4) up s(2,3) by (simp add: dor_next_mesh_def coord_def)
    ultimately show ?thesis using s(1,4) n False by (intro exI [of _ d]) auto
  next
    case True
    have top: "shifted ?k ?n (?n - 1) x = x" if "x < g_nodes g" for x
      using that n nodes by (simp add: shifted_def)
    obtain d c c' where down: "dor_down ?k (?k ^ ?n) (?n - 1) v w = (d, c, c')" by (metis prod_cases3)
    with dor_down_spec [of ?k ?n "?n - 1" v w d c c'] n k top assms(2,3)
    have s: "d \<le> ?n - 1" "c = shifted ?k ?n d v" "c' = shifted ?k ?n d w"
      "\<forall>e. d < e \<and> e \<le> ?n - 1 \<longrightarrow> coord ?k e v = coord ?k e w" "0 < d \<longrightarrow> coord ?k d v \<noteq> coord ?k d w"
      by simp_all
    have d: "d < ?n" using s(1) n by linarith
    have "coord ?k d v \<noteq> coord ?k d w"
    proof (cases "0 < d")
      case True then show ?thesis using s(5) by simp
    next
      case False
      obtain e where "e < ?n" "coord ?k e v \<noteq> coord ?k e w" using differ by blast
      moreover from this have "\<not> d < e" using s(4) by auto
      ultimately show ?thesis using False by auto
    qed
    moreover have "dor_next_mesh g v w desc =
        (if coord ?k d v < coord ?k d w then 2 * d else 2 * d + 1)"
      using True assms(4) down s(2,3) shifted_top [OF d k] nodes by (simp add: dor_next_mesh_def)
    ultimately show ?thesis using s(4) d True by (intro exI [of _ d]) auto
  qed
qed

subsection \<open>Arrival\<close>

definition mesh_dist :: "nat \<Rightarrow> nat \<Rightarrow> nat \<Rightarrow> nat \<Rightarrow> nat" where
  "mesh_dist k n v w = (\<Sum>d<n. nat \<bar>int (coord k d v) - int (coord k d w)\<bar>)"

text \<open>What a routing function over nodes has to promise, and what it gives.\<close>

locale progressive_routing =
  fixes hop :: "nat \<Rightarrow> nat \<Rightarrow> nat" and dist :: "nat \<Rightarrow> nat \<Rightarrow> nat" and node :: "nat \<Rightarrow> bool"
  assumes hop_node: "node v \<Longrightarrow> node w \<Longrightarrow> v \<noteq> w \<Longrightarrow> node (hop w v)"
    and hop_closer: "node v \<Longrightarrow> node w \<Longrightarrow> v \<noteq> w \<Longrightarrow> Suc (dist (hop w v) w) = dist v w"
    and dist_zero: "node v \<Longrightarrow> node w \<Longrightarrow> dist v w = 0 \<longleftrightarrow> v = w"
begin

lemma after_hops:
  assumes "node v" and "node w" and "m \<le> dist v w"
  shows "node ((hop w ^^ m) v) \<and> dist ((hop w ^^ m) v) w = dist v w - m"
  using assms(3)
proof (induction m)
  case 0
  then show ?case using assms by simp
next
  case (Suc m)
  let ?u = "(hop w ^^ m) v"
  have u: "node ?u" "dist ?u w = dist v w - m" using Suc by simp_all
  have "?u \<noteq> w" using dist_zero [OF u(1) assms(2)] u(2) Suc.prems by auto
  with hop_node [OF u(1) assms(2)] hop_closer [OF u(1) assms(2)] u(2) Suc.prems show ?case by auto
qed

lemma arrives:
  assumes "node v" and "node w"
  shows "(hop w ^^ dist v w) v = w \<and> (\<forall>m < dist v w. (hop w ^^ m) v \<noteq> w)"
  using after_hops [OF assms] dist_zero [OF _ assms(2)] assms
  by (metis diff_is_0_eq diff_self_eq_0 le_refl less_imp_le not_le)

end

definition dor_hop :: "net_params \<Rightarrow> bool \<Rightarrow> nat \<Rightarrow> nat \<Rightarrow> nat" where
  "dor_hop g desc w v = next_node (g_k g) v (dor_next_mesh g v w desc)"

lemma mesh_dist_zero:
  assumes "mesh_params g" and "v < g_nodes g" and "w < g_nodes g"
  shows "mesh_dist (g_k g) (g_n g) v w = 0 \<longleftrightarrow> v = w"
  using same_coords [of v "g_k g" "g_n g" w] assms by (auto simp: mesh_dist_def mesh_params_def)

lemma dor_hop_turn:
  assumes g: "mesh_params g" and v: "v < g_nodes g" "w < g_nodes g" "v \<noteq> w"
  shows "\<exists>d < g_n g. \<exists>c < g_k g. dor_hop g desc w v = turn (g_k g) d c v \<and>
    coord (g_k g) d v \<noteq> coord (g_k g) d w \<and>
    c = (if coord (g_k g) d v < coord (g_k g) d w then coord (g_k g) d v + 1 else coord (g_k g) d v - 1)"
proof -
  let ?k = "g_k g"
  have k: "0 < ?k" using g by (simp add: mesh_params_def)
  obtain d where d: "d < g_n g" "coord ?k d v \<noteq> coord ?k d w"
    "dor_next_mesh g v w desc = (if coord ?k d v < coord ?k d w then 2 * d else 2 * d + 1)"
    using dor_next_mesh_spec [OF g v] by blast
  have lt: "coord ?k d v < ?k" "coord ?k d w < ?k" using coord_less [OF k] by blast+
  show ?thesis
  proof (cases "coord ?k d v < coord ?k d w")
    case True
    with d lt RightNode_turn [OF k, of v d] show ?thesis
      by (intro exI [of _ d] conjI exI [of _ "coord ?k d v + 1"]) (auto simp: dor_hop_def next_node_def)
  next
    case False
    with d lt LeftNode_turn [OF k, of v d] show ?thesis
      by (intro exI [of _ d] conjI exI [of _ "coord ?k d v - 1"]) (auto simp: dor_hop_def next_node_def)
  qed
qed

lemma dor_progressive:
  assumes g: "mesh_params g"
  shows "progressive_routing (dor_hop g desc) (mesh_dist (g_k g) (g_n g)) (\<lambda>v. v < g_nodes g)"
proof unfold_locales
  let ?k = "g_k g" and ?n = "g_n g"
  fix v w assume v: "v < g_nodes g" "w < g_nodes g" "v \<noteq> w"
  have nodes: "g_nodes g = ?k ^ ?n" using g by (simp add: mesh_params_def)
  obtain d c where d: "d < ?n" "c < ?k" "dor_hop g desc w v = turn ?k d c v"
    "coord ?k d v \<noteq> coord ?k d w"
    "c = (if coord ?k d v < coord ?k d w then coord ?k d v + 1 else coord ?k d v - 1)"
    using dor_hop_turn [OF g v] by blast
  show "dor_hop g desc w v < g_nodes g"
    using turn_less [of v ?k ?n d c] v nodes d by simp
  let ?f = "\<lambda>u e. nat \<bar>int (coord ?k e u) - int (coord ?k e w)\<bar>"
  have split: "mesh_dist ?k ?n u w = ?f u d + (\<Sum>e \<in> {..<?n} - {d}. ?f u e)" for u
    unfolding mesh_dist_def using d(1) by (simp add: sum.remove)
  have "(\<Sum>e \<in> {..<?n} - {d}. ?f (turn ?k d c v) e) = (\<Sum>e \<in> {..<?n} - {d}. ?f v e)"
    by (rule sum.cong) (simp_all add: turn_coord [OF d(2)])
  moreover have "Suc (?f (turn ?k d c v) d) = ?f v d"
  proof -
    have "Suc (nat \<bar>int c - int b\<bar>) = nat \<bar>int a - int b\<bar>"
      if "a \<noteq> b" "c = (if a < b then a + 1 else a - 1)" for a b :: nat
      using that by auto
    from this [OF d(4,5)] show ?thesis by (simp only: turn_coord [OF d(2)] if_True simp_thms)
  qed
  ultimately show "Suc (mesh_dist ?k ?n (dor_hop g desc w v) w) = mesh_dist ?k ?n v w"
    unfolding d(3) split [of v] split [of "turn ?k d c v"] by simp
next
  fix v w assume "v < g_nodes g" "w < g_nodes g"
  then show "mesh_dist (g_k g) (g_n g) v w = 0 \<longleftrightarrow> v = w" by (rule mesh_dist_zero [OF g])
qed

definition dor_params :: "nat \<Rightarrow> nat \<Rightarrow> net_params" where
  "dor_params k n = init_params (Suc k) (Suc n) 4 (-1) (-1, -1) (-1, -1) (-1, -1) (-1, -1)"

lemma dor_params_mesh: "mesh_params (dor_params k n)"
  by (simp add: mesh_params_def dor_params_def init_params_def Let_def)

interpretation xy: progressive_routing "dor_hop (dor_params k n) False" "mesh_dist (Suc k) (Suc n)"
    "\<lambda>v. v < Suc k ^ Suc n" for k n
  using dor_progressive [OF dor_params_mesh, of k n False]
  by (simp add: dor_params_def init_params_def Let_def)

interpretation yx: progressive_routing "dor_hop (dor_params k n) True" "mesh_dist (Suc k) (Suc n)"
    "\<lambda>v. v < Suc k ^ Suc n" for k n
  using dor_progressive [OF dor_params_mesh, of k n True]
  by (simp add: dor_params_def init_params_def Let_def)

text \<open>C35: dimension-order routing delivers.  On a mesh of any size and number of dimensions, in either
  order, a packet sent along the ports \<open>dor_next_mesh\<close> returns stays in the mesh, reaches its
  destination after exactly as many hops as the two are apart, not before, and is ejected there.\<close>

theorem dor_delivers:
  assumes "mesh_params g" and "v < g_nodes g" and "w < g_nodes g"
  shows "(dor_hop g desc w ^^ mesh_dist (g_k g) (g_n g) v w) v = w \<and>
    (\<forall>m < mesh_dist (g_k g) (g_n g) v w. (dor_hop g desc w ^^ m) v \<noteq> w \<and>
       (dor_hop g desc w ^^ m) v < g_nodes g) \<and>
    dor_next_mesh g w w desc = 2 * g_n g"
proof -
  note l = progressive_routing.arrives [OF dor_progressive [OF assms(1)] assms(2,3)]
    and n = progressive_routing.after_hops [OF dor_progressive [OF assms(1)] assms(2,3)]
  show ?thesis using l n by (auto simp: dor_next_mesh_def)
qed

lemma dor_delivers_witness:
  "(dor_hop (dor_params 2 1) False 7 ^^ mesh_dist 3 2 0 7) 0 = 7"
proof -
  have "g_nodes (dor_params 2 1) = 9" "g_k (dor_params 2 1) = 3" "g_n (dor_params 2 1) = 2"
    by (simp_all add: dor_params_def init_params_def Let_def power2_eq_square)
  with dor_delivers [OF dor_params_mesh, of 0 2 1 7 False] show ?thesis by simp
qed

end
