(* ===== verification/Escape_Routing.thy ===== *)
theory Escape_Routing
  imports Dimension_Order
begin

text \<open>
  The escape VC of the FLOV routing functions on the two-dimensional mesh: a packet that is in it
  stays in it, and the channels it may wait for are ordered, so escape packets cannot block each
  other in a cycle however the routers sleep.  A sleeping router passes flits straight on
  (\<open>Bypass\<close>), so a channel here is the link out of a port together with the sleeping routers
  behind it, up to the next one that is awake.
\<close>

definition mesh2 :: "net_params \<Rightarrow> bool" where
  "mesh2 g \<longleftrightarrow> 0 < g_k g \<and> g_n g = 2 \<and> g_nodes g = g_k g * g_k g"

lemma mesh2_mesh: "mesh2 g \<Longrightarrow> mesh_params g"
  by (simp add: mesh2_def mesh_params_def power2_eq_square)

lemma row_less: "mesh2 g \<Longrightarrow> v < g_nodes g \<Longrightarrow> v div g_k g < g_k g"
  by (simp add: mesh2_def less_mult_imp_div_less)

lemma mesh2_coords:
  "mesh2 g \<Longrightarrow> v < g_nodes g \<Longrightarrow> coord (g_k g) 0 v = v mod g_k g \<and> coord (g_k g) 1 v = v div g_k g"
  using row_less by (simp add: coord_def)

text \<open>Both orders in two dimensions.\<close>

lemma dor2_xy:
  assumes "mesh2 g" and "v < g_nodes g" "w < g_nodes g" "v \<noteq> w"
  shows "dor_next_mesh g v w False =
    (if v mod g_k g < w mod g_k g then DIR_EAST else if v mod g_k g > w mod g_k g then DIR_WEST
     else if v div g_k g < w div g_k g then DIR_SOUTH else DIR_NORTH)"
proof -
  obtain d where d: "d < 2" "coord (g_k g) d v \<noteq> coord (g_k g) d w"
    "dor_next_mesh g v w False = (if coord (g_k g) d v < coord (g_k g) d w then 2 * d else 2 * d + 1)"
    "\<forall>e<d. coord (g_k g) e v = coord (g_k g) e w"
    using dor_next_mesh_spec [OF mesh2_mesh [OF assms(1)] assms(2-4), of False] assms(1)
    by (auto simp: mesh2_def)
  from d(1) have "d = 0 \<or> d = 1" by auto
  then show ?thesis
    using d mesh2_coords [OF assms(1,2)] mesh2_coords [OF assms(1,3)] by auto
qed

lemma dor2_yx:
  assumes "mesh2 g" and "v < g_nodes g" "w < g_nodes g" "v \<noteq> w"
  shows "dor_next_mesh g v w True =
    (if v div g_k g < w div g_k g then DIR_SOUTH else if v div g_k g > w div g_k g then DIR_NORTH
     else if v mod g_k g < w mod g_k g then DIR_EAST else DIR_WEST)"
proof -
  obtain d where d: "d < 2" "coord (g_k g) d v \<noteq> coord (g_k g) d w"
    "dor_next_mesh g v w True = (if coord (g_k g) d v < coord (g_k g) d w then 2 * d else 2 * d + 1)"
    "\<forall>e. d < e \<and> e < 2 \<longrightarrow> coord (g_k g) e v = coord (g_k g) e w"
    using dor_next_mesh_spec [OF mesh2_mesh [OF assms(1)] assms(2-4), of True] assms(1)
    by (auto simp: mesh2_def)
  from d(1) have "d = 0 \<or> d = 1" by auto
  then show ?thesis
    using d(2,3) d(4) [rule_format, of 1] mesh2_coords [OF assms(1,2)] mesh2_coords [OF assms(1,3)]
    by auto
qed

subsection \<open>Escape packets stay in the escape VC\<close>

text \<open>Once in the escape VC, always in the escape VC.  A packet that arrives over a mesh link in
  the first VC of its class and is not at its destination is offered, by each of the four FLOV
  routing functions, exactly one port and there only that first VC.\<close>

theorem escape_vc_sticky:
  assumes "\<not> inject" and "rid r \<noteq> dest_of f" and "in_channel < 2 * g_n g"
    and "class_vcs g f = (b, e)" and "f_vc f = b" and "b \<le> e"
  shows "(\<forall>outs' \<in> {flov_mesh g now r f in_channel inject outs, opt_rflov_mesh g now r f in_channel inject outs,
      opt_flov_mesh g now r f in_channel inject outs, adaptive_flov_mesh g r f in_channel inject outs}.
    \<exists>p. outs' = Some [\<lparr>vc_start = b, vc_end = b, se_pri = 0, output_port = p\<rparr>])"
  using assms
  by (auto simp: flov_mesh_def opt_rflov_mesh_def opt_flov_mesh_def adaptive_flov_mesh_def vc_ok_def
      escape_range_def Let_def flov_mesh_choice_def opt_rflov_choice_def opt_flov_choice_def)

definition example_net :: net_params where
  "example_net = init_params 4 2 4 (-1) (-1, -1) (-1, -1) (-1, -1) (-1, -1)"

definition example_packet :: flit where
  "example_packet = \<lparr>f_type = ANY_TYPE, f_vc = 0, f_cl = 0, f_head = True, f_tail = True, f_ctime = 0,
     f_itime = 0, f_atime = 0, f_rtime = 0, f_bypass_vc = -1, f_id = 1, f_pid = 1, f_record = False,
     f_src = 0, f_dest = 11, f_pri = 0, f_flov_hops = 0, f_misroute_hops = 0, f_ring_dest = 0,
     f_hops = 0, f_watch = False, f_subnetwork = 0, f_intm = -1, f_ph = -1, f_la_route_set = []\<rparr>"

lemma escape_vc_sticky_witness:
  "\<exists>p. opt_flov_mesh example_net 10
     (FLOVRouter_init 4 5 5 5 (10, 6, 5, 2) 4 1 (Buffer_init 4 4 4 (VC_init 1 ''none'' 0))
        (BufferState_init 4 16 4 0 (Private \<lparr>vc_buf_size = 4, full_vc_buf_size = 4\<rparr>)))
     example_packet 1 False [] = Some [\<lparr>vc_start = 0, vc_end = 0, se_pri = 0, output_port = p\<rparr>]"
proof -
  let ?r = "FLOVRouter_init 4 5 5 5 (10, 6, 5, 2) 4 1 (Buffer_init 4 4 4 (VC_init 1 ''none'' 0))
        (BufferState_init 4 16 4 0 (Private \<lparr>vc_buf_size = 4, full_vc_buf_size = 4\<rparr>))"
  have "rid ?r \<noteq> dest_of example_packet" "class_vcs example_net example_packet = (0, 3)"
    "f_vc example_packet = 0" "1 < 2 * g_n example_net"
    by (simp_all add: FLOVRouter_init_def dest_of_def example_packet_def class_vcs_def
        example_net_def init_params_def Let_def)
  from escape_vc_sticky [of False ?r example_packet 1 example_net 0 3 10 "[]", OF _ this(1,4,2,3)]
  show ?thesis by simp
qed

subsection \<open>Flying over sleeping routers\<close>

text \<open>\<open>A\<close> is the set of sleeping routers.  A flit that leaves router \<open>v\<close> through port \<open>p\<close> goes straight on
  through every router of \<open>A\<close> (\<open>Bypass\<close>) and stops at the first one that does not sleep.\<close>

inductive flies :: "net_params \<Rightarrow> nat set \<Rightarrow> nat \<Rightarrow> nat \<Rightarrow> nat \<Rightarrow> bool" for g A p where
  stop: "\<not> at_edge (g_k g) v p \<Longrightarrow> neighbor (g_k g) v p \<notin> A \<Longrightarrow> flies g A p v (neighbor (g_k g) v p)"
| over: "\<not> at_edge (g_k g) v p \<Longrightarrow> neighbor (g_k g) v p \<in> A \<Longrightarrow> flies g A p (neighbor (g_k g) v p) w \<Longrightarrow>
     flies g A p v w"

inductive_cases fliesE: "flies g A p v w"

lemma flies_unique: "flies g A p v w \<Longrightarrow> flies g A p v w' \<Longrightarrow> w = w'"
proof (induction rule: flies.induct)
  case (stop v)
  from stop.prems show ?case by (rule fliesE) (use stop.hyps in auto)
next
  case (over v w)
  from over.prems show ?case by (rule fliesE) (use over.hyps over.IH in auto)
qed

lemma flies_awake: "flies g A p v w \<Longrightarrow> w \<notin> A"
  by (induction rule: flies.induct)

lemma flies_east:
  "flies g A DIR_EAST v w \<Longrightarrow> 0 < g_k g \<Longrightarrow>
    v < w \<and> w div g_k g = v div g_k g \<and> (\<forall>u. v < u \<and> u < w \<longrightarrow> u \<in> A)"
proof (induction rule: flies.induct)
  case (stop v)
  then show ?case by (auto simp: neighbor_def at_edge_def div_Suc mod_Suc)
next
  case (over v w)
  then have "v + 1 < w" "w div g_k g = (v + 1) div g_k g" "v + 1 \<in> A" "\<forall>u. v + 1 < u \<and> u < w \<longrightarrow> u \<in> A"
    by (simp_all add: neighbor_def)
  moreover have "(v + 1) div g_k g = v div g_k g" using over.hyps(1) by (auto simp: at_edge_def div_Suc mod_Suc)
  moreover have "u = v + 1 \<or> v + 1 < u" if "v < u" for u using that by linarith
  ultimately show ?case by (metis add_lessD1)
qed

lemma flies_west:
  "flies g A DIR_WEST v w \<Longrightarrow> 0 < g_k g \<Longrightarrow>
    w < v \<and> w div g_k g = v div g_k g \<and> (\<forall>u. w < u \<and> u < v \<longrightarrow> u \<in> A)"
proof (induction rule: flies.induct)
  case (stop v)
  have "0 < v" using stop.hyps(1) by (auto simp: at_edge_def intro: gr0I)
  then have v: "0 < v" "v = Suc (v - 1)" by simp_all
  have "Suc (v - 1) mod g_k g \<noteq> 0" using stop.hyps(1) v by (simp add: at_edge_def)
  then have "v div g_k g = (v - 1) div g_k g" using v(2) by (metis div_Suc)
  then show ?case using v by (auto simp: neighbor_def)
next
  case (over v w)
  have "0 < v" using over.hyps(1) by (auto simp: at_edge_def intro: gr0I)
  then have v: "0 < v" "v = Suc (v - 1)" by simp_all
  have "Suc (v - 1) mod g_k g \<noteq> 0" using over.hyps(1) v by (simp add: at_edge_def)
  then have "v div g_k g = (v - 1) div g_k g" using v(2) by (metis div_Suc)
  moreover have "w < v - 1" "w div g_k g = (v - 1) div g_k g" "v - 1 \<in> A" "\<forall>u. w < u \<and> u < v - 1 \<longrightarrow> u \<in> A"
    using over by (simp_all add: neighbor_def)
  moreover have "u = v - 1 \<or> u < v - 1" if "u < v" for u using that by linarith
  ultimately show ?case by fastforce
qed

lemma flies_south:
  "flies g A DIR_SOUTH v w \<Longrightarrow> \<exists>m>0. w = v + m * g_k g \<and> (\<forall>j. 0 < j \<and> j < m \<longrightarrow> v + j * g_k g \<in> A)"
proof (induction rule: flies.induct)
  case (stop v)
  then show ?case by (intro exI [of _ 1]) (simp add: neighbor_def)
next
  case (over v w)
  then obtain m where m: "0 < m" "w = v + g_k g + m * g_k g" "\<And>j. 0 < j \<Longrightarrow> j < m \<Longrightarrow> v + g_k g + j * g_k g \<in> A"
    and n: "v + g_k g \<in> A" by (auto simp: neighbor_def)
  have "v + j * g_k g \<in> A" if "0 < j" "j < Suc m" for j
  proof (cases j)
    case (Suc i)
    then show ?thesis using that n m(3) [of i] by (cases "i = 0") (simp_all add: ac_simps)
  qed (use that in simp)
  then show ?case using m by (intro exI [of _ "Suc m"]) simp
qed

lemma flies_north:
  "flies g A DIR_NORTH v w \<Longrightarrow> \<exists>m>0. v = w + m * g_k g \<and> (\<forall>j. 0 < j \<and> j < m \<longrightarrow> w + j * g_k g \<in> A)"
proof (induction rule: flies.induct)
  case (stop v)
  have "g_k g \<le> v" using stop.hyps(1) by (auto simp: at_edge_def div_eq_0_iff not_less)
  then show ?case by (intro exI [of _ 1]) (simp add: neighbor_def)
next
  case (over v w)
  have "g_k g \<le> v" using over.hyps(1) by (auto simp: at_edge_def div_eq_0_iff not_less)
  moreover obtain m where m: "0 < m" "v - g_k g = w + m * g_k g" "\<And>j. 0 < j \<Longrightarrow> j < m \<Longrightarrow> w + j * g_k g \<in> A"
    and n: "v - g_k g \<in> A" using over by (auto simp: neighbor_def)
  have "w + j * g_k g \<in> A" if "0 < j" "j < Suc m" for j
    using that n m by (cases "j = m") auto
  ultimately show ?case using m by (intro exI [of _ "Suc m"]) (simp add: algebra_simps)
qed

subsection \<open>The ports an escape packet may take\<close>

text \<open>What router \<open>r\<close>, which routes a packet for \<open>dest\<close>, must know rightly for escape packets to keep the
  order: a neighbour it takes for on does not sleep; in the bottom row, which is never gated, it sees the
  next router on; and its logical neighbours to the east and west are the routers where flits stop.\<close>

definition knows :: "net_params \<Rightarrow> nat set \<Rightarrow> 'a router_scheme \<Rightarrow> nat \<Rightarrow> bool" where
  "knows g A r dest \<longleftrightarrow>
     (\<forall>p<4. neighbor_on r p \<longrightarrow> neighbor (g_k g) (rid r) p \<notin> A) \<and>
     (\<not> above_bottom g (rid r) \<and> col_differs g (rid r) dest \<and> row_differs g (rid r) dest \<longrightarrow>
        neighbor_on r (dor_next_mesh g (rid r) dest False)) \<and>
     (\<forall>x. logical_x g r 0 = Some x \<longrightarrow> (\<exists>w. flies g A DIR_EAST (rid r) w \<and> x = int (w mod g_k g))) \<and>
     (\<forall>x. logical_x g r 1 = Some x \<longrightarrow> (\<exists>w. flies g A DIR_WEST (rid r) w \<and> x = int (w mod g_k g)))"

lemma reaches_east_stop:
  assumes "reaches_east g r dest" and "knows g A r dest"
  shows "\<exists>w. flies g A DIR_EAST (rid r) w \<and> w mod g_k g \<le> dest mod g_k g"
proof -
  obtain x where x: "logical_x g r 0 = Some x" "x \<le> int (dest mod g_k g)"
    using assms(1) by (auto simp: reaches_east_def split: option.splits)
  then obtain w where "flies g A DIR_EAST (rid r) w" "x = int (w mod g_k g)"
    using assms(2) unfolding knows_def by blast
  then show ?thesis using x(2) by auto
qed

lemma reaches_west_stop:
  assumes "reaches_west g r dest" and "knows g A r dest"
  shows "\<exists>w. flies g A DIR_WEST (rid r) w \<and> dest mod g_k g \<le> w mod g_k g"
proof -
  obtain x where x: "logical_x g r 1 = Some x" "int (dest mod g_k g) \<le> x"
    using assms(1) by (auto simp: reaches_west_def split: option.splits)
  then obtain w where "flies g A DIR_WEST (rid r) w" "x = int (w mod g_k g)"
    using assms(2) unfolding knows_def by blast
  then show ?thesis using x(2) by auto
qed

text \<open>R-FLOV: no two routers next to each other sleep.\<close>

definition sleep_apart :: "net_params \<Rightarrow> nat set \<Rightarrow> bool" where
  "sleep_apart g A \<longleftrightarrow> (\<forall>v \<in> A. \<forall>p<4. \<not> at_edge (g_k g) v p \<longrightarrow> neighbor (g_k g) v p \<notin> A)"

inductive escape_port :: "net_params \<Rightarrow> nat set \<Rightarrow> nat \<Rightarrow> nat \<Rightarrow> nat \<Rightarrow> bool" for g A where
  flov: "flov_mesh_choice g now (r :: flov_router) f in_vc b = (True, p) \<Longrightarrow> knows g A r (dest_of f) \<Longrightarrow>
     escape_port g A (rid r) (dest_of f) p"
| opt_rflov: "opt_rflov_choice g now (r :: flov_router) f in_channel in_vc b = (True, p) \<Longrightarrow>
     knows g A r (dest_of f) \<Longrightarrow> sleep_apart g A \<Longrightarrow> escape_port g A (rid r) (dest_of f) p"
| opt_flov: "opt_flov_choice g now (r :: flov_router) f in_channel in_vc b = (True, p) \<Longrightarrow>
     knows g A r (dest_of f) \<Longrightarrow> escape_port g A (rid r) (dest_of f) p"
| adaptive: "escape_port g A v w (adaptive_escape_port g v w)"

text \<open>The turn discipline: north only on the last leg, in the destination's column, and there
  nothing else if the destination lies north; east and west only towards the destination's
  column.\<close>

definition disciplined :: "net_params \<Rightarrow> nat \<Rightarrow> nat \<Rightarrow> nat \<Rightarrow> bool" where
  "disciplined g v w p \<longleftrightarrow> p < 4 \<and>
     (p = DIR_EAST \<longrightarrow> v mod g_k g < w mod g_k g) \<and>
     (p = DIR_WEST \<longrightarrow> w mod g_k g < v mod g_k g) \<and>
     (p = DIR_NORTH \<longleftrightarrow> v mod g_k g = w mod g_k g \<and> w div g_k g < v div g_k g)"

lemma row_same_mod:
  fixes v w k :: nat
  assumes "w = v + m" and "w div k = v div k"
  shows "w mod k = v mod k + m"
  using assms div_mult_mod_eq [of v k] div_mult_mod_eq [of w k] by (metis add.assoc add_left_cancel)

lemma same_row_less:
  fixes v w k :: nat
  assumes "w div k = v div k"
  shows "v mod k < w mod k \<longleftrightarrow> v < w"
  using assms div_mult_mod_eq [of v k] div_mult_mod_eq [of w k] by (metis nat_add_left_cancel_less)

lemma above_bottom_row:
  assumes "mesh2 g" and "v < g_nodes g"
  shows "above_bottom g v \<longleftrightarrow> v div g_k g < g_k g - 1"
proof -
  have k: "0 < g_k g" using assms(1) by (simp add: mesh2_def)
  have "g_nodes g - g_k g = (g_k g - 1) * g_k g"
    using assms(1) by (simp add: mesh2_def diff_mult_distrib)
  then show ?thesis using k by (simp add: above_bottom_def div_less_iff_less_mult)
qed

lemma flov_disciplined:
  assumes g: "mesh2 g" and v: "rid r < g_nodes g" "dest_of f < g_nodes g" "rid r \<noteq> dest_of f"
    and c: "flov_mesh_choice g now r f in_vc b = (True, p)" and kn: "knows g A r (dest_of f)"
  shows "disciplined g (rid r) (dest_of f) p"
proof -
  let ?xy = "dor_next_mesh g (rid r) (dest_of f) False"
    and ?yx = "dor_next_mesh g (rid r) (dest_of f) True"
  let ?both = "col_differs g (rid r) (dest_of f) \<and> row_differs g (rid r) (dest_of f)"
  have p: "p = (if above_bottom g (rid r) \<and> ?both then DIR_SOUTH
      else if neighbor_on r ?xy then ?xy else ?yx)"
    using c by (auto simp: flov_mesh_choice_def Let_def split: if_splits)
  show ?thesis
  proof (cases ?both)
    case True
    then show ?thesis
      using p kn dor2_xy [OF g v] by (auto simp: disciplined_def knows_def col_differs_def)
  next
    case False
    then have "?yx = ?xy"
      using dor2_xy [OF g v] dor2_yx [OF g v] v(3)
      by (auto simp: col_differs_def row_differs_def) (metis div_mult_mod_eq)+
    then have "p = ?xy" using p False by auto
    then show ?thesis
      using dor2_xy [OF g v] v(3) by (auto simp: disciplined_def) (metis div_mult_mod_eq linorder_neqE_nat)+
  qed
qed

lemma xy_disciplined:
  assumes "mesh2 g" and "v < g_nodes g" "w < g_nodes g" "v \<noteq> w"
  shows "disciplined g v w (dor_next_mesh g v w False)"
  using dor2_xy [OF assms] assms(4)
  by (auto simp: disciplined_def) (metis div_mult_mod_eq linorder_neqE_nat)+

lemma south_disciplined:
  "v mod g_k g \<noteq> w mod g_k g \<Longrightarrow> disciplined g v w DIR_SOUTH"
  by (simp add: disciplined_def)

lemma opt_rflov_disciplined:
  assumes g: "mesh2 g" and v: "rid r < g_nodes g" "dest_of f < g_nodes g" "rid r \<noteq> dest_of f"
    and c: "opt_rflov_choice g now r f in_channel in_vc b = (True, p)"
  shows "disciplined g (rid r) (dest_of f) p"
proof -
  let ?xy = "dor_next_mesh g (rid r) (dest_of f) False"
  let ?both = "col_differs g (rid r) (dest_of f) \<and> row_differs g (rid r) (dest_of f)"
  show ?thesis
  proof (cases "?both \<and> \<not> neighbor_on r ?xy")
    case False
    with c have "p = ?xy \<or> ?both \<and> p = DIR_SOUTH"
      unfolding opt_rflov_choice_def Let_def by (auto split: if_splits)
    then show ?thesis
      using xy_disciplined [OF g v] south_disciplined by (auto simp: col_differs_def)
  next
    case True
    with c have "p = DIR_EAST \<and> rid r mod g_k g < dest_of f mod g_k g \<or>
        p = DIR_WEST \<and> dest_of f mod g_k g < rid r mod g_k g \<or> p = DIR_SOUTH"
      unfolding opt_rflov_choice_def Let_def by (auto split: if_splits)
    then show ?thesis using True by (auto simp: disciplined_def col_differs_def)
  qed
qed

lemma opt_flov_disciplined:
  assumes g: "mesh2 g" and v: "rid r < g_nodes g" "dest_of f < g_nodes g" "rid r \<noteq> dest_of f"
    and c: "opt_flov_choice g now r f in_channel in_vc b = (True, p)" and kn: "knows g A r (dest_of f)"
  shows "disciplined g (rid r) (dest_of f) p"
proof -
  let ?xy = "dor_next_mesh g (rid r) (dest_of f) False"
  let ?both = "col_differs g (rid r) (dest_of f) \<and> row_differs g (rid r) (dest_of f)"
  show ?thesis
  proof (cases "?both \<and> \<not> neighbor_on r ?xy")
    case False
    with c have "p = ?xy \<or> ?both \<and> p = DIR_SOUTH"
      unfolding opt_flov_choice_def Let_def by (auto split: if_splits)
    then show ?thesis
      using xy_disciplined [OF g v] south_disciplined by (auto simp: col_differs_def)
  next
    case True
    have "p = DIR_EAST \<and> reaches_east g r (dest_of f) \<or>
        p = DIR_WEST \<and> reaches_west g r (dest_of f) \<or> p = DIR_SOUTH"
      using c True unfolding opt_flov_choice_def Let_def by (auto split: if_splits)
    moreover have "rid r mod g_k g < dest_of f mod g_k g" if reach: "reaches_east g r (dest_of f)"
    proof -
      obtain w where w: "flies g A DIR_EAST (rid r) w" "w mod g_k g \<le> dest_of f mod g_k g"
        using reaches_east_stop [OF reach kn] by blast
      then show ?thesis using flies_east [OF w(1)] same_row_less [of w "g_k g" "rid r"] g by (simp add: mesh2_def)
    qed
    moreover have "dest_of f mod g_k g < rid r mod g_k g" if reach: "reaches_west g r (dest_of f)"
    proof -
      obtain w where w: "flies g A DIR_WEST (rid r) w" "dest_of f mod g_k g \<le> w mod g_k g"
        using reaches_west_stop [OF reach kn] by blast
      then show ?thesis using flies_west [OF w(1)] same_row_less [of "rid r" "g_k g" w] g by (simp add: mesh2_def)
    qed
    ultimately show ?thesis using True by (auto simp: disciplined_def col_differs_def)
  qed
qed

lemma escape_port_disciplined:
  assumes "escape_port g A v w p" and "mesh2 g" and "v < g_nodes g" "w < g_nodes g" "v \<noteq> w"
  shows "disciplined g v w p"
  using assms
proof (induction rule: escape_port.induct)
  case (flov now r f in_vc b p)
  then show ?case using flov_disciplined by blast
next
  case (opt_rflov now r f in_channel in_vc b p)
  then show ?case using opt_rflov_disciplined by blast
next
  case (opt_flov now r f in_channel in_vc b p)
  then show ?case using opt_flov_disciplined by blast
next
  case (adaptive v w)
  then show ?case
    using xy_disciplined south_disciplined
    by (auto simp: adaptive_escape_port_def Let_def col_differs_def)
qed

subsection \<open>Where an escape packet stops\<close>

lemma next_stop: "flies g A p v w \<Longrightarrow> neighbor (g_k g) v p \<notin> A \<Longrightarrow> w = neighbor (g_k g) v p"
  by (erule fliesE) simp_all

text \<open>A hop to the east or west does not fly past the destination's column.\<close>

definition not_past :: "net_params \<Rightarrow> nat \<Rightarrow> nat \<Rightarrow> nat \<Rightarrow> bool" where
  "not_past g dest p w \<longleftrightarrow>
     (p = DIR_EAST \<longrightarrow> w mod g_k g \<le> dest mod g_k g) \<and> (p = DIR_WEST \<longrightarrow> dest mod g_k g \<le> w mod g_k g)"

lemma next_not_past:
  assumes "mesh2 g" and "flies g A p v w" and "disciplined g v dest p" and "neighbor (g_k g) v p \<notin> A"
  shows "not_past g dest p w"
proof -
  have w: "w = neighbor (g_k g) v p" using next_stop [OF assms(2,4)] .
  have k: "0 < g_k g" using assms(1) by (simp add: mesh2_def)
  have "w mod g_k g = v mod g_k g + 1" if "p = DIR_EAST"
    using flies_east [of g A v w] assms(2) k w that by (intro row_same_mod) (simp_all add: neighbor_def)
  moreover have "v mod g_k g = w mod g_k g + 1" if "p = DIR_WEST"
    using flies_west [of g A v w] assms(2) k w that by (intro row_same_mod) (simp_all add: neighbor_def)
  ultimately show ?thesis using assms(3) by (auto simp: not_past_def disciplined_def)
qed

lemma row_not_past:
  assumes "mesh2 g" and "flies g A p v w" and "disciplined g v dest p" and "dest \<notin> A" and "dest div g_k g = v div g_k g"
  shows "not_past g dest p w"
proof -
  have k: "0 < g_k g" using assms(1) by (simp add: mesh2_def)
  have "w mod g_k g \<le> dest mod g_k g" if p: "p = DIR_EAST"
  proof -
    have f: "w div g_k g = v div g_k g" "\<forall>u. v < u \<and> u < w \<longrightarrow> u \<in> A"
      using flies_east [of g A v w] assms(2) k p by simp_all
    have "v < dest" using same_row_less [OF assms(5)] assms(3) p by (simp add: disciplined_def)
    then have "\<not> dest < w" using f(2) assms(4) by blast
    then show ?thesis using same_row_less [of w "g_k g" dest] f(1) assms(5) by simp
  qed
  moreover have "dest mod g_k g \<le> w mod g_k g" if p: "p = DIR_WEST"
  proof -
    have f: "w div g_k g = v div g_k g" "\<forall>u. w < u \<and> u < v \<longrightarrow> u \<in> A"
      using flies_west [of g A v w] assms(2) k p by simp_all
    have "dest < v" using same_row_less [of v "g_k g" dest] assms(3,5) p by (simp add: disciplined_def)
    then have "\<not> w < dest" using f(2) assms(4) by blast
    then show ?thesis using same_row_less [of dest "g_k g" w] f(1) assms(5) by simp
  qed
  ultimately show ?thesis by (simp add: not_past_def)
qed

lemma xy_next_not_past:
  assumes "mesh2 g" and "flies g A p (rid r) w" and "disciplined g (rid r) dest p"
    and "knows g A r dest" and "neighbor_on r p"
  shows "not_past g dest p w"
  using next_not_past [OF assms(1-3)] assms(3-5) by (simp add: knows_def disciplined_def)

lemma flov_not_past:
  assumes g: "mesh2 g" and v: "rid r < g_nodes g" "dest_of f < g_nodes g" "rid r \<noteq> dest_of f"
    and c: "flov_mesh_choice g now r f in_vc b = (True, p)" and kn: "knows g A r (dest_of f)"
    and w: "flies g A p (rid r) w" and row: "row_differs g (rid r) (dest_of f)"
  shows "not_past g (dest_of f) p w"
proof -
  let ?xy = "dor_next_mesh g (rid r) (dest_of f) False"
  have d: "disciplined g (rid r) (dest_of f) p" by (rule flov_disciplined [OF g v c kn])
  show ?thesis
  proof (cases "p = DIR_EAST \<or> p = DIR_WEST")
    case True
    then have "col_differs g (rid r) (dest_of f)" using d by (auto simp: disciplined_def col_differs_def)
    moreover have "p = (if above_bottom g (rid r) \<and> col_differs g (rid r) (dest_of f) \<and> row_differs g (rid r) (dest_of f)
        then DIR_SOUTH else if neighbor_on r ?xy then ?xy else dor_next_mesh g (rid r) (dest_of f) True)"
      using c by (auto simp: flov_mesh_choice_def Let_def split: if_splits)
    ultimately have "neighbor_on r p" using True row kn by (auto simp: knows_def split: if_splits)
    then show ?thesis using xy_next_not_past [OF g w d kn] by simp
  qed (simp add: not_past_def)
qed

lemma opt_flov_not_past:
  assumes g: "mesh2 g" and v: "rid r < g_nodes g" "dest_of f < g_nodes g" "rid r \<noteq> dest_of f"
    and c: "opt_flov_choice g now r f in_channel in_vc b = (True, p)" and kn: "knows g A r (dest_of f)"
    and w: "flies g A p (rid r) w" and row: "row_differs g (rid r) (dest_of f)"
  shows "not_past g (dest_of f) p w"
proof -
  have d: "disciplined g (rid r) (dest_of f) p" by (rule opt_flov_disciplined [OF g v c kn])
  show ?thesis
  proof (cases "p = DIR_EAST \<or> p = DIR_WEST")
    case True
    then have "col_differs g (rid r) (dest_of f)" using d by (auto simp: disciplined_def col_differs_def)
    then consider "neighbor_on r p" | "p = DIR_EAST" "reaches_east g r (dest_of f)"
      | "p = DIR_WEST" "reaches_west g r (dest_of f)"
      using c True row unfolding opt_flov_choice_def Let_def by (auto split: if_splits)
    then show ?thesis
    proof cases
      case 1
      then show ?thesis using xy_next_not_past [OF g w d kn] by simp
    next
      case 2
      then obtain u where "flies g A DIR_EAST (rid r) u" "u mod g_k g \<le> dest_of f mod g_k g"
        using reaches_east_stop [OF 2(2) kn] by blast
      then show ?thesis using flies_unique [of g A 0 "rid r" w u] w 2(1) by (auto simp: not_past_def)
    next
      case 3
      then obtain u where "flies g A DIR_WEST (rid r) u" "dest_of f mod g_k g \<le> u mod g_k g"
        using reaches_west_stop [OF 3(2) kn] by blast
      then show ?thesis using flies_unique [of g A 1 "rid r" w u] w 3(1) by (auto simp: not_past_def)
    qed
  qed (simp add: not_past_def)
qed

text \<open>Under R-FLOV a flit flies over one router at most.\<close>

lemma apart_next:
  assumes "sleep_apart g A" and "flies g A p v w" and "p < 4"
  shows "w = neighbor (g_k g) v p \<or> w = neighbor (g_k g) (neighbor (g_k g) v p) p"
  using assms(2)
proof (rule fliesE)
  assume n: "neighbor (g_k g) v p \<in> A" and f: "flies g A p (neighbor (g_k g) v p) w"
  from f show ?thesis by (rule fliesE) (use assms(1,3) n in \<open>auto simp: sleep_apart_def\<close>)
qed simp

lemma opt_rflov_not_past:
  assumes g: "mesh2 g" and v: "rid r < g_nodes g" "dest_of f < g_nodes g" "rid r \<noteq> dest_of f"
    and c: "opt_rflov_choice g now r f in_channel in_vc b = (True, p)" and kn: "knows g A r (dest_of f)"
    and ap: "sleep_apart g A" and w: "flies g A p (rid r) w" and row: "row_differs g (rid r) (dest_of f)"
  shows "not_past g (dest_of f) p w"
proof -
  let ?k = "g_k g" and ?v = "rid r" and ?d = "dest_of f"
  have k: "0 < ?k" using g by (simp add: mesh2_def)
  have d: "disciplined g ?v ?d p" by (rule opt_rflov_disciplined [OF g v c])
  show ?thesis
  proof (cases "p = DIR_EAST \<or> p = DIR_WEST")
    case True
    then have "col_differs g ?v ?d" using d by (auto simp: disciplined_def col_differs_def)
    then consider "neighbor_on r p" | "p = DIR_EAST" "?v mod ?k + 1 < ?d mod ?k"
      | "p = DIR_WEST" "?d mod ?k + 1 < ?v mod ?k"
      using c True row unfolding opt_rflov_choice_def Let_def by (auto split: if_splits)
    then show ?thesis
    proof cases
      case 1
      then show ?thesis using xy_next_not_past [OF g w d kn] by simp
    next
      case 2
      have "w \<le> ?v + 2" using apart_next [OF ap w] 2(1) by (auto simp: neighbor_def)
      moreover have "w mod ?k = ?v mod ?k + (w - ?v)"
        using flies_east [of g A ?v w] w 2(1) k by (intro row_same_mod) simp_all
      ultimately show ?thesis using 2 by (simp add: not_past_def)
    next
      case 3
      have "?v \<le> w + 2" using apart_next [OF ap w] 3(1) by (auto simp: neighbor_def)
      moreover have "?v mod ?k = w mod ?k + (?v - w)"
        using flies_west [of g A ?v w] w 3(1) k by (intro row_same_mod) simp_all
      ultimately show ?thesis using 3 by (simp add: not_past_def)
    qed
  qed (simp add: not_past_def)
qed

lemma adaptive_not_past:
  assumes g: "mesh2 g" and v: "v < g_nodes g" "dest < g_nodes g" "v \<noteq> dest"
    and bottom: "\<forall>u \<in> A. above_bottom g u" and w: "flies g A (adaptive_escape_port g v dest) v w"
    and row: "row_differs g v dest"
  shows "not_past g dest (adaptive_escape_port g v dest) w"
proof -
  let ?p = "adaptive_escape_port g v dest"
  have d: "disciplined g v dest ?p" using escape_port_disciplined [OF escape_port.adaptive g v] .
  show ?thesis
  proof (cases "?p = DIR_EAST \<or> ?p = DIR_WEST")
    case True
    then have "col_differs g v dest" using d by (auto simp: disciplined_def col_differs_def)
    then have low: "\<not> above_bottom g v"
      using True row dor2_xy [OF g v] by (auto simp: adaptive_escape_port_def Let_def col_differs_def split: if_splits)
    have "neighbor (g_k g) v ?p \<notin> A"
    proof
      assume "neighbor (g_k g) v ?p \<in> A"
      then have up: "above_bottom g (neighbor (g_k g) v ?p)" using bottom by blast
      have "?p = DIR_WEST" using up low True by (auto simp: above_bottom_def neighbor_def)
      moreover have "\<not> at_edge (g_k g) v ?p" using w by (rule fliesE)
      ultimately obtain u where "flies g {} DIR_WEST v u" "u = v - 1" and west: "?p = DIR_WEST"
        using flies.stop [of g v DIR_WEST "{}"] by (simp add: neighbor_def)
      moreover have "0 < g_k g" using g by (simp add: mesh2_def)
      ultimately have "(v - 1) div g_k g = v div g_k g" "v - 1 < g_nodes g"
        using flies_west [of g "{}" v u] v(1) by auto
      then show False
        using up low above_bottom_row [OF g v(1)] above_bottom_row [OF g, of "v - 1"] west
        by (simp add: neighbor_def)
    qed
    then show ?thesis using next_not_past [OF g w d] by simp
  qed (simp add: not_past_def)
qed

lemma escape_not_past:
  assumes "escape_port g A v dest p" and "mesh2 g" and "v < g_nodes g" "dest < g_nodes g" "v \<noteq> dest"
    and "dest \<notin> A" and "\<forall>u \<in> A. above_bottom g u" and "flies g A p v w"
  shows "not_past g dest p w"
proof (cases "row_differs g v dest")
  case False
  then show ?thesis
    using row_not_past [OF assms(2,8) escape_port_disciplined [OF assms(1-5)] assms(6)] by (simp add: row_differs_def)
next
  case True
  from assms(1) show ?thesis
  proof cases
    case (flov now r f in_vc b)
    then show ?thesis using flov_not_past [of g r f now in_vc b p A w] assms(2-5,8) True by simp
  next
    case (opt_rflov now r f in_channel in_vc b)
    then show ?thesis using opt_rflov_not_past [of g r f now in_channel in_vc b p A w] assms(2-5,8) True by simp
  next
    case (opt_flov now r f in_channel in_vc b)
    then show ?thesis using opt_flov_not_past [of g r f now in_channel in_vc b p A w] assms(2-5,8) True by simp
  next
    case adaptive
    then show ?thesis using adaptive_not_past [of g v dest A w] assms(2-5,7,8) True by simp
  qed
qed

subsection \<open>The order on escape channels\<close>

text \<open>A channel is a port of a router, with the sleeping routers behind it.  The channel \<open>c'\<close> may be waited
  for by a packet that holds \<open>c\<close>: the packet left the router of \<open>c\<close> through an escape port, flew to the
  router of \<open>c'\<close> and is routed to an escape port again.  Its destination does not sleep, and no router
  of the bottom row does.  Each such pair may have its own set of sleeping routers.\<close>

definition escape_dep :: "net_params \<Rightarrow> nat \<times> nat \<Rightarrow> nat \<times> nat \<Rightarrow> bool" where
  "escape_dep g c c' \<longleftrightarrow> (\<exists>A dest. fst c < g_nodes g \<and> fst c' < g_nodes g \<and> dest < g_nodes g \<and>
     fst c \<noteq> dest \<and> fst c' \<noteq> dest \<and> dest \<notin> A \<and> (\<forall>u \<in> A. above_bottom g u) \<and>
     escape_port g A (fst c) dest (snd c) \<and> flies g A (snd c) (fst c) (fst c') \<and>
     escape_port g A (fst c') dest (snd c'))"

definition escape_rank :: "net_params \<Rightarrow> nat \<times> nat \<Rightarrow> nat" where
  "escape_rank g c =
     (let k = g_k g; x = fst c mod k; y = fst c div k in
      if snd c = DIR_NORTH then k * (k + 1) + (k - y)
      else y * (k + 1) + (if snd c = DIR_EAST then x else if snd c = DIR_WEST then k - 1 - x else k))"

lemma escape_rank_row:
  assumes "0 < g_k g" and "q \<noteq> DIR_NORTH"
  shows "w div g_k g * (g_k g + 1) \<le> escape_rank g (w, q) \<and>
    escape_rank g (w, q) \<le> w div g_k g * (g_k g + 1) + g_k g"
proof -
  have "w mod g_k g < g_k g" using assms(1) by simp
  then show ?thesis using assms(2) by (simp add: escape_rank_def Let_def less_imp_le)
qed

lemma escape_dep_rank:
  assumes g: "mesh2 g" and d: "escape_dep g (v, p) (w, q)"
  shows "escape_rank g (v, p) < escape_rank g (w, q)"
proof -
  let ?k = "g_k g"
  have k: "0 < ?k" using g by (simp add: mesh2_def)
  from d obtain A dest where vw: "v < g_nodes g" "w < g_nodes g" "dest < g_nodes g" "v \<noteq> dest" "w \<noteq> dest"
    and ev: "escape_port g A v dest p" and ew: "escape_port g A w dest q" and l: "flies g A p v w"
    and on: "dest \<notin> A" "\<forall>u \<in> A. above_bottom g u"
    by (auto simp: escape_dep_def)
  have np: "not_past g dest p w" by (rule escape_not_past [OF ev g vw(1,3,4) on l])
  have dv: "disciplined g v dest p" using escape_port_disciplined [OF ev g vw(1,3,4)] .
  have dw: "disciplined g w dest q" using escape_port_disciplined [OF ew g vw(2,3,5)] .
  have rv: "v div ?k < ?k" and rw: "w div ?k < ?k" using row_less [OF g] vw by blast+
  have cv: "v mod ?k < ?k" and cw: "w mod ?k < ?k" using k by simp_all
  have vl: "v < v div ?k * ?k + ?k" using div_mult_mod_eq [of v ?k] cv by linarith
  have low: "escape_rank g (u, q') < ?k * (?k + 1)" if "q' \<noteq> DIR_NORTH" "u div ?k < ?k" for u q'
  proof -
    have "escape_rank g (u, q') \<le> u div ?k * (?k + 1) + ?k"
      using escape_rank_row [OF k] that(1) by blast
    also have "\<dots> < Suc (u div ?k) * (?k + 1)" by simp
    also have "\<dots> \<le> ?k * (?k + 1)" using that(2) by (intro mult_le_mono1) simp
    finally show ?thesis .
  qed
  have high: "?k * (?k + 1) \<le> escape_rank g (w, q)" if "q = DIR_NORTH"
    using that by (simp add: escape_rank_def Let_def)
  from dv have "p = 0 \<or> p = 1 \<or> p = 2 \<or> p = 3" by (auto simp: disciplined_def)
  then consider "p = DIR_EAST" | "p = DIR_WEST" | "p = DIR_SOUTH" | "p = DIR_NORTH" by blast
  then show ?thesis
  proof cases
    case 1
    with l np k have f: "v < w" "w div ?k = v div ?k" "w mod ?k \<le> dest mod ?k"
      using flies_east [of g A v w] by (simp_all add: not_past_def)
    then obtain m where w: "w div ?k = v div ?k" "w mod ?k \<le> dest mod ?k" "w mod ?k = v mod ?k + m" "0 < m"
      using row_same_mod [of w v "w - v" ?k] by (metis le_add_diff_inverse less_imp_le zero_less_diff)
    have "q \<noteq> DIR_WEST" using dw w(2) by (auto simp: disciplined_def)
    then show ?thesis
      using 1 w cw rv rw vl high low [of p v] by (cases "q = DIR_NORTH") (auto simp: escape_rank_def Let_def)
  next
    case 2
    with l np k have f: "w < v" "w div ?k = v div ?k" "dest mod ?k \<le> w mod ?k"
      using flies_west [of g A v w] by (simp_all add: not_past_def)
    then obtain m where w: "w div ?k = v div ?k" "dest mod ?k \<le> w mod ?k" "v mod ?k = w mod ?k + m" "0 < m"
      using row_same_mod [of v w "v - w" ?k] by (metis le_add_diff_inverse less_imp_le zero_less_diff)
    have "q \<noteq> DIR_EAST" using dw w(2) by (auto simp: disciplined_def)
    then show ?thesis
      using 2 w cv rv rw high low [of p v] by (cases "q = DIR_NORTH") (auto simp: escape_rank_def Let_def)
  next
    case 3
    with l obtain m where w: "w = v + m * ?k" "0 < m" using flies_south [of g A v w] by auto
    show ?thesis
    proof (cases "q = DIR_NORTH")
      case True
      then show ?thesis using high low [of p v] rv 3 by auto
    next
      case False
      have "w div ?k = v div ?k + m" using w k by simp
      then have "Suc (v div ?k) * (?k + 1) \<le> w div ?k * (?k + 1)" using w(2) by (intro mult_le_mono1) simp
      moreover have "escape_rank g (v, p) \<le> v div ?k * (?k + 1) + ?k"
        using escape_rank_row [OF k] 3 by auto
      moreover have "w div ?k * (?k + 1) \<le> escape_rank g (w, q)"
        using escape_rank_row [OF k False] by blast
      ultimately show ?thesis by simp
    qed
  next
    case 4
    with l obtain m where w: "v = w + m * ?k" "0 < m" "\<And>j. 0 < j \<Longrightarrow> j < m \<Longrightarrow> w + j * ?k \<in> A"
      using flies_north [of g A v w] by auto
    have rows: "v div ?k = w div ?k + m" and cols: "v mod ?k = w mod ?k" using w(1) k by simp_all
    have col: "v mod ?k = dest mod ?k" and up: "dest div ?k < v div ?k" using dv 4 by (simp_all add: disciplined_def)
    have "dest div ?k < w div ?k"
    proof (rule ccontr)
      assume n: "\<not> dest div ?k < w div ?k"
      let ?j = "dest div ?k - w div ?k"
      have j: "w div ?k + ?j = dest div ?k" using n by simp
      have "dest = (w div ?k + ?j) * ?k + w mod ?k" unfolding j using col cols by (metis div_mult_mod_eq)
      then have "dest = w + ?j * ?k" using div_mult_mod_eq [of w ?k] unfolding add_mult_distrib by linarith
      moreover have "?j < m" using up rows n by linarith
      ultimately show False using w(3) [of ?j] on(1) vw(5) by (cases "?j = 0") auto
    qed
    then have "q = DIR_NORTH" using dw cols col by (simp add: disciplined_def)
    then show ?thesis using 4 rows w(2) rv by (auto simp: escape_rank_def Let_def)
  qed
qed

text \<open>C18: the escape network is deadlock free.  In the two-dimensional mesh, whatever routers sleep and
  whichever of the four FLOV routing functions each hop uses, no set of escape channels can wait for each
  other in a circle: the relation "a packet may hold this channel, fly over the sleeping routers behind it
  and ask for that one where it stops" is acyclic.  What is assumed: no router of the bottom row and no
  destination sleeps; a router that routes sees its neighbours rightly - one it takes for on does not
  sleep, in the bottom row it sees the next one on, and its logical neighbours to the east and west are
  the routers where its flits stop; and where the choice is that of \<open>opt_rflov\<close>, no two
  adjacent routers sleep, as R-FLOV has it.\<close>

theorem escape_network_acyclic:
  assumes "mesh2 g"
  shows "acyclic {(c, c'). escape_dep g c c'}"
proof -
  have mono: "escape_rank g c < escape_rank g c'" if "(c, c') \<in> {(c, c'). escape_dep g c c'}\<^sup>+" for c c'
    using that
  proof (induction rule: trancl_induct)
    case (base y)
    then show ?case using escape_dep_rank [OF assms, of "fst c" "snd c" "fst y" "snd y"] by simp
  next
    case (step y z)
    then have "escape_rank g y < escape_rank g z"
      using escape_dep_rank [OF assms, of "fst y" "snd y" "fst z" "snd z"] by simp
    with step.IH show ?case by simp
  qed
  show ?thesis unfolding acyclic_def using mono by blast
qed

lemma example_net_sizes: "g_k example_net = 4" "g_nodes example_net = 16"
  by (simp_all add: example_net_def init_params_def Let_def eval_nat_numeral)

lemma example_net_mesh2: "mesh2 example_net"
  by (simp add: mesh2_def example_net_def init_params_def Let_def eval_nat_numeral)

text \<open>An example in which router 4 sleeps: the packet for 15 flies from 0 over 4 to 8.\<close>

lemma escape_network_acyclic_witness:
  "((0, DIR_SOUTH), (8, DIR_SOUTH)) \<in> {(c, c'). escape_dep example_net c c'} \<and>
   acyclic {(c, c'). escape_dep example_net c c'}"
proof -
  note g = example_net_sizes
  have "adaptive_escape_port example_net v 15 = DIR_SOUTH" if "v = 0 \<or> v = 8" for v
    using that dor2_xy [OF example_net_mesh2, of v 15]
    by (auto simp: adaptive_escape_port_def g Let_def above_bottom_def col_differs_def row_differs_def)
  then have "escape_port example_net {4} 0 15 DIR_SOUTH" "escape_port example_net {4} 8 15 DIR_SOUTH"
    using escape_port.adaptive [of example_net "{4}" 0 15] escape_port.adaptive [of example_net "{4}" 8 15] by simp_all
  moreover have "flies example_net {4} DIR_SOUTH 0 8"
    using flies.stop [of example_net 4 DIR_SOUTH "{4}"] flies.over [of example_net 0 DIR_SOUTH "{4}" 8]
    by (simp add: g at_edge_def neighbor_def)
  ultimately have "escape_dep example_net (0, DIR_SOUTH) (8, DIR_SOUTH)"
    unfolding escape_dep_def by (intro exI [of _ "{4}"] exI [of _ 15]) (simp add: g above_bottom_def)
  with escape_network_acyclic [OF example_net_mesh2] show ?thesis by simp
qed

subsection \<open>XY/YX routing and the number of VCs\<close>

text \<open>With an even number of VCs in its class, an XY/YX packet keeps the order it was injected
  with: on whichever of the VCs it is offered it arrives, the next router routes it in the same
  order and offers the same half of the VCs.\<close>

theorem xy_yx_keeps_order:
  assumes "xy_yx_choice g cur f from_network b e injected_xy outs = Some os" and "s \<in> set os"
    and "vc_start s \<le> vc" "vc \<le> vc_end s" and "even (e - b + 1)"
  shows "\<exists>desc. output_port s = int (dor_next_mesh g cur (dest_of f) desc) \<and>
    (\<forall>cur' inj outs'. xy_yx_choice g cur' (f\<lparr>f_vc := vc\<rparr>) True b e inj outs' =
       Some [\<lparr>vc_start = vc_start s, vc_end = vc_end s, se_pri = 0,
              output_port = int (dor_next_mesh g cur' (dest_of f) desc)\<rparr>])"
proof -
  let ?a = "(e - b + 1) div 2"
  have a: "0 < ?a" and os: "os = (if (if from_network then f_vc f < b + ?a else injected_xy)
      then AddRange (int (dor_next_mesh g cur (dest_of f) False)) b (e - ?a) 0 []
      else AddRange (int (dor_next_mesh g cur (dest_of f) True)) (b + ?a) e 0 [])"
    using assms(1) by (auto simp: xy_yx_choice_def Let_def)
  obtain c where "e - b + 1 = 2 * c" using assms(5) by (elim evenE)
  then have half: "e - ?a + 1 = b + ?a" by simp
  show ?thesis
  proof (cases "if from_network then f_vc f < b + ?a else injected_xy")
    case True
    have s: "s = \<lparr>vc_start = b, vc_end = e - ?a, se_pri = 0,
        output_port = int (dor_next_mesh g cur (dest_of f) False)\<rparr>"
      using assms(2) unfolding os if_P [OF True] by simp
    with assms(4) half have "vc < b + ?a" by simp
    with s a show ?thesis
      by (intro exI [of _ False]) (simp add: xy_yx_choice_def Let_def dest_of_def)
  next
    case False
    have s: "s = \<lparr>vc_start = b + ?a, vc_end = e, se_pri = 0,
        output_port = int (dor_next_mesh g cur (dest_of f) True)\<rparr>"
      using assms(2) unfolding os if_not_P [OF False] by simp
    with assms(3) have "\<not> vc < b + ?a" by simp
    with s a show ?thesis
      by (intro exI [of _ True]) (simp add: xy_yx_choice_def Let_def dest_of_def)
  qed
qed

lemma xy_yx_keeps_order_witness:
  "xy_yx_choice example_net 5 (example_packet\<lparr>f_vc := 1\<rparr>) True 0 3 False [] =
     Some [\<lparr>vc_start = 0, vc_end = 1, se_pri = 0,
            output_port = int (dor_next_mesh example_net 5 (dest_of example_packet) False)\<rparr>]"
proof -
  let ?s = "\<lparr>vc_start = 0, vc_end = 1, se_pri = 0,
    output_port = int (dor_next_mesh example_net 4 (dest_of example_packet) False)\<rparr>"
  have "xy_yx_choice example_net 4 example_packet False 0 3 True [] = Some [?s]"
    by (simp add: xy_yx_choice_def Let_def)
  from xy_yx_keeps_order [OF this, of ?s 1] obtain desc where
    d: "dor_next_mesh example_net 4 (dest_of example_packet) False =
        dor_next_mesh example_net 4 (dest_of example_packet) desc"
    and n: "xy_yx_choice example_net 5 (example_packet\<lparr>f_vc := 1\<rparr>) True 0 3 False [] =
     Some [\<lparr>vc_start = 0, vc_end = 1, se_pri = 0,
            output_port = int (dor_next_mesh example_net 5 (dest_of example_packet) desc)\<rparr>]"
    by auto
  have "dest_of example_packet = 11" by (simp add: dest_of_def example_packet_def)
  then have "desc = False"
    using d dor2_xy [OF example_net_mesh2, of 4 11] dor2_yx [OF example_net_mesh2, of 4 11]
    by (cases desc) (simp_all add: example_net_sizes)
  with n show ?thesis by simp
qed

text \<open>With an odd number of VCs the two halves share the middle VC.  A packet routed XY may be given
  that VC, and the next router then takes it for a YX packet: it turns the other way in mid-route,
  which the separation of the two orders was to prevent.\<close>

theorem xy_yx_odd_switches:
  assumes "e = b + 2 * a" and "0 < a"
  shows "xy_yx_choice g cur f False b e True outs =
      Some [\<lparr>vc_start = b, vc_end = b + a, se_pri = 0,
             output_port = int (dor_next_mesh g cur (dest_of f) False)\<rparr>] \<and>
    xy_yx_choice g cur' (f\<lparr>f_vc := b + a\<rparr>) True b e xy outs =
      Some [\<lparr>vc_start = b + a, vc_end = e, se_pri = 0,
             output_port = int (dor_next_mesh g cur' (dest_of f) True)\<rparr>]"
proof -
  have "(e - b + 1) div 2 = a" using assms by simp
  with assms show ?thesis by (simp add: xy_yx_choice_def Let_def dest_of_def)
qed

lemma xy_yx_odd_switches_witness:
  "xy_yx_choice example_net 5 (example_packet\<lparr>f_vc := 1\<rparr>) True 0 2 False [] =
     Some [\<lparr>vc_start = 1, vc_end = 2, se_pri = 0,
            output_port = int (dor_next_mesh example_net 5 (dest_of example_packet) True)\<rparr>]"
  using xy_yx_odd_switches [of 2 0 1 example_net 4 example_packet "[]" 5 False] by simp

end
