(* ===== verification/Arbiters.thy ===== *)
theory Arbiters
  imports Prelude
begin

text \<open>
  The arbiters of src/booksim2/src/arbiters: the base class (arbiter.cpp), round robin
  (roundrobin_arb.cpp), matrix (matrix_arb.cpp), tree (tree_arb.cpp) and the stand-alone priority
  arbiter (prio_arb.cpp).  A failed assertion is \<open>None\<close>.  The virtual functions of an arbiter class
  are a record \<open>arbiter_class\<close> of operations on its state, so that a tree, and the allocators, are
  defined over the class of the arbiters they own.  What \<open>Arbitrate\<close> writes through its pointers is
  returned as an option, \<open>None\<close> when it writes nothing.
\<close>

subsection \<open>The base class\<close>

record arb_entry =
  ae_valid :: bool
  ae_id :: int
  ae_pri :: int

record arbiter_base =
  a_size :: nat
  a_request :: "arb_entry list"
  a_selected :: int
  a_highest_pri :: int
  a_best_input :: int
  a_num_reqs :: nat

definition int_min :: int where
  "int_min = - 2147483648"

definition no_entry :: arb_entry where
  "no_entry = \<lparr>ae_valid = False, ae_id = 0, ae_pri = 0\<rparr>"

definition Arbiter_init :: "nat \<Rightarrow> arbiter_base" where
  "Arbiter_init num_inputs = \<lparr>a_size = num_inputs, a_request = replicate num_inputs no_entry, a_selected = -1,
     a_highest_pri = int_min, a_best_input = -1, a_num_reqs = 0\<rparr>"

definition Arbiter_AddRequest ::
  "nat \<Rightarrow> int \<Rightarrow> int \<Rightarrow> 'a arbiter_base_scheme \<Rightarrow> 'a arbiter_base_scheme option" where
  "Arbiter_AddRequest input i pri a = do {
     assertion (input < a_size a);
     assertion (\<not> ae_valid (a_request a ! input));
     Some (a\<lparr>a_num_reqs := a_num_reqs a + 1,
             a_request := (a_request a)[input := \<lparr>ae_valid = True, ae_id = i, ae_pri = pri\<rparr>]\<rparr>)
   }"

definition Arbiter_Arbitrate ::
  "'a arbiter_base_scheme \<Rightarrow> ('a arbiter_base_scheme \<times> int \<times> (int \<times> int) option) option" where
  "Arbiter_Arbitrate a = do {
     assertion (a_selected a \<ge> 0 \<or> a_num_reqs a = 0);
     Some (a, a_selected a,
       if a_selected a \<noteq> -1
       then Some (ae_id (a_request a ! nat (a_selected a)), ae_pri (a_request a ! nat (a_selected a)))
       else None)
   }"

definition Arbiter_Clear :: "'a arbiter_base_scheme \<Rightarrow> 'a arbiter_base_scheme" where
  "Arbiter_Clear a =
     (if a_num_reqs a > 0
      then a\<lparr>a_request := map (\<lambda>e. e\<lparr>ae_valid := False\<rparr>) (a_request a),
             a_num_reqs := 0, a_selected := -1\<rparr>
      else a)"

text \<open>The virtual functions, and the members other classes read.\<close>

record 's arbiter_class =
  arb_AddRequest :: "nat \<Rightarrow> int \<Rightarrow> int \<Rightarrow> 's \<Rightarrow> 's option"
  arb_Arbitrate :: "'s \<Rightarrow> ('s \<times> int \<times> (int \<times> int) option) option"
  arb_UpdateState :: "'s \<Rightarrow> 's option"
  arb_Clear :: "'s \<Rightarrow> 's"
  arb_LastWinner :: "'s \<Rightarrow> int"
  arb_num_reqs :: "'s \<Rightarrow> nat"

subsection \<open>Round robin\<close>

record rr_arbiter = arbiter_base +
  rr_pointer :: nat

definition RoundRobin_init :: "nat \<Rightarrow> rr_arbiter" where
  "RoundRobin_init num_inputs = arbiter_base.extend (Arbiter_init num_inputs) \<lparr>rr_pointer = 0\<rparr>"

definition Supersedes :: "int \<Rightarrow> int \<Rightarrow> int \<Rightarrow> int \<Rightarrow> int \<Rightarrow> nat \<Rightarrow> bool" where
  "Supersedes input1 pri1 input2 pri2 offset num_inputs \<longleftrightarrow>
     pri1 > pri2 \<or>
     (pri1 = pri2 \<and>
      (input1 - offset + int num_inputs) mod int num_inputs < (input2 - offset + int num_inputs) mod int num_inputs)"

definition RoundRobin_AddRequest ::
  "nat \<Rightarrow> int \<Rightarrow> int \<Rightarrow> rr_arbiter \<Rightarrow> rr_arbiter option" where
  "RoundRobin_AddRequest input i pri a =
     (let e = a_request a ! input;
          a1 = (if (\<not> ae_valid e \<or> ae_pri e < pri) \<and>
                   (a_num_reqs a = 0 \<or>
                    Supersedes (int input) pri (a_best_input a) (a_highest_pri a)
                      (int (rr_pointer a)) (a_size a))
                then a\<lparr>a_highest_pri := pri, a_best_input := int input\<rparr> else a)
      in Arbiter_AddRequest input i pri a1)"

definition RoundRobin_Arbitrate ::
  "rr_arbiter \<Rightarrow> (rr_arbiter \<times> int \<times> (int \<times> int) option) option" where
  "RoundRobin_Arbitrate a = Arbiter_Arbitrate (a\<lparr>a_selected := a_best_input a\<rparr>)"

definition RoundRobin_UpdateState :: "rr_arbiter \<Rightarrow> rr_arbiter option" where
  "RoundRobin_UpdateState a =
     Some (if a_selected a > -1
           then a\<lparr>rr_pointer := nat ((a_selected a + 1) mod int (a_size a))\<rparr> else a)"

definition RoundRobin_Clear :: "rr_arbiter \<Rightarrow> rr_arbiter" where
  "RoundRobin_Clear a = Arbiter_Clear (a\<lparr>a_highest_pri := int_min, a_best_input := -1\<rparr>)"

definition RoundRobinArbiter :: "rr_arbiter arbiter_class" where
  "RoundRobinArbiter = \<lparr>arb_AddRequest = RoundRobin_AddRequest,
     arb_Arbitrate = RoundRobin_Arbitrate, arb_UpdateState = RoundRobin_UpdateState,
     arb_Clear = RoundRobin_Clear, arb_LastWinner = a_selected, arb_num_reqs = a_num_reqs\<rparr>"

subsection \<open>Matrix\<close>

text \<open>\<open>_matrix[i][j]\<close> is not 0 when \<open>i\<close> has precedence over \<open>j\<close>.\<close>

record mx_arbiter = arbiter_base +
  mx_matrix :: "int list list"
  mx_last_req :: int

definition Matrix_init :: "nat \<Rightarrow> mx_arbiter" where
  "Matrix_init num_inputs = arbiter_base.extend (Arbiter_init num_inputs)
     \<lparr>mx_matrix = map (\<lambda>i. map (\<lambda>j. if j < i then 1 else 0) [0..<num_inputs]) [0..<num_inputs],
      mx_last_req = -1\<rparr>"

definition mx_put :: "nat \<Rightarrow> nat \<Rightarrow> int \<Rightarrow> int list list \<Rightarrow> int list list" where
  "mx_put i j x m = m[i := (m ! i)[j := x]]"

definition Matrix_UpdateState :: "mx_arbiter \<Rightarrow> mx_arbiter option" where
  "Matrix_UpdateState a =
     Some (if a_selected a > -1
           then let sel = nat (a_selected a) in
             a\<lparr>mx_matrix := fold (\<lambda>i m. if sel \<noteq> i then mx_put i sel 1 (mx_put sel i 0 m) else m)
                 [0..<a_size a] (mx_matrix a)\<rparr>
           else a)"

definition Matrix_AddRequest ::
  "nat \<Rightarrow> int \<Rightarrow> int \<Rightarrow> mx_arbiter \<Rightarrow> mx_arbiter option" where
  "Matrix_AddRequest input i pri a = Arbiter_AddRequest input i pri (a\<lparr>mx_last_req := int input\<rparr>)"

definition Matrix_grant :: "mx_arbiter \<Rightarrow> nat \<Rightarrow> bool" where
  "Matrix_grant a input \<longleftrightarrow> ae_valid (a_request a ! input) \<and>
     \<not> list_ex (\<lambda>i. ae_valid (a_request a ! i) \<and>
        (ae_pri (a_request a ! i) = ae_pri (a_request a ! input) \<and> mx_matrix a ! i ! input \<noteq> 0 \<or>
         ae_pri (a_request a ! i) > ae_pri (a_request a ! input))) [0..<a_size a]"

definition Matrix_Arbitrate ::
  "mx_arbiter \<Rightarrow> (mx_arbiter \<times> int \<times> (int \<times> int) option) option" where
  "Matrix_Arbitrate a =
     Arbiter_Arbitrate (a\<lparr>a_selected :=
       (if a_num_reqs a < 2 then mx_last_req a
        else case List.find (Matrix_grant a) [0..<a_size a] of None \<Rightarrow> -1 | Some i \<Rightarrow> int i)\<rparr>)"

definition Matrix_Clear :: "mx_arbiter \<Rightarrow> mx_arbiter" where
  "Matrix_Clear a = Arbiter_Clear (a\<lparr>mx_last_req := -1\<rparr>)"

definition MatrixArbiter :: "mx_arbiter arbiter_class" where
  "MatrixArbiter = \<lparr>arb_AddRequest = Matrix_AddRequest,
     arb_Arbitrate = Matrix_Arbitrate, arb_UpdateState = Matrix_UpdateState,
     arb_Clear = Matrix_Clear, arb_LastWinner = a_selected, arb_num_reqs = a_num_reqs\<rparr>"

subsection \<open>Tree\<close>

text \<open>The inputs are split in groups with an arbiter each, and a global arbiter picks the group.
  \<open>C\<close> is the class of those arbiters.\<close>

record 's tree_arbiter = arbiter_base +
  t_group_size :: nat
  t_groups :: "'s list"
  t_global :: 's
  t_group_reqs :: "nat list"

definition Tree_init :: "(nat \<Rightarrow> 's) \<Rightarrow> nat \<Rightarrow> nat \<Rightarrow> 's tree_arbiter option" where
  "Tree_init new_arbiter num_inputs groups = do {
     assertion (num_inputs mod groups = 0);
     Some (arbiter_base.extend (Arbiter_init num_inputs)
       \<lparr>t_group_size = num_inputs div groups,
        t_groups = replicate groups (new_arbiter (num_inputs div groups)),
        t_global = new_arbiter groups, t_group_reqs = replicate groups 0\<rparr>)
   }"

definition Tree_UpdateState ::
  "'s arbiter_class \<Rightarrow> 's tree_arbiter \<Rightarrow> 's tree_arbiter option" where
  "Tree_UpdateState C a =
     (if a_selected a > -1
      then let last_winner = arb_LastWinner C (t_global a) in do {
        assertion (last_winner \<ge> 0 \<and> last_winner < int (length (t_groups a)));
        g \<leftarrow> arb_UpdateState C (t_groups a ! nat last_winner);
        gl \<leftarrow> arb_UpdateState C (t_global a);
        Some (a\<lparr>t_groups := (t_groups a)[nat last_winner := g], t_global := gl\<rparr>)
      }
      else Some a)"

definition Tree_AddRequest ::
  "'s arbiter_class \<Rightarrow> nat \<Rightarrow> int \<Rightarrow> int \<Rightarrow> 's tree_arbiter \<Rightarrow> 's tree_arbiter option" where
  "Tree_AddRequest C input i pri a0 = do {
     a \<leftarrow> Arbiter_AddRequest input i pri a0;
     (let group_index = input div t_group_size a in do {
        g \<leftarrow> arb_AddRequest C (input mod t_group_size a) i pri (t_groups a ! group_index);
        Some (a\<lparr>t_groups := (t_groups a)[group_index := g],
                t_group_reqs := (t_group_reqs a)[group_index := t_group_reqs a ! group_index + 1]\<rparr>)
      })
   }"

definition Tree_ask_group ::
  "'s arbiter_class \<Rightarrow> nat \<Rightarrow> 's tree_arbiter \<Rightarrow> 's tree_arbiter option" where
  "Tree_ask_group C i a =
     (if t_group_reqs a ! i = 0 then Some a
      else do {
        (g, w, r) \<leftarrow> arb_Arbitrate C (t_groups a ! i);
        (case r of
           None \<Rightarrow> None
         | Some (group_id, group_pri) \<Rightarrow> do {
             gl \<leftarrow> arb_AddRequest C i group_id group_pri (t_global a);
             Some (a\<lparr>t_groups := (t_groups a)[i := g], t_global := gl\<rparr>)
           })
      })"

text \<open>\<open>group_id\<close> and \<open>group_pri\<close> are uninitialised when the group's arbiter writes nothing through
  the pointers; a group that has requests always picks one, so the \<open>None\<close> above is not reached.\<close>

definition Tree_Arbitrate ::
  "'s arbiter_class \<Rightarrow> 's tree_arbiter \<Rightarrow> ('s tree_arbiter \<times> int \<times> (int \<times> int) option) option" where
  "Tree_Arbitrate C a0 =
     (if a_num_reqs a0 = 0 then Some (a0, -1, None)
      else do {
        a \<leftarrow> foldM (Tree_ask_group C) [0..<length (t_groups a0)] a0;
        (gl, group, r) \<leftarrow> arb_Arbitrate C (t_global a);
        assertion (group \<ge> 0 \<and> group < int (length (t_groups a)));
        (let group_sel = arb_LastWinner C (t_groups a ! nat group);
             sel = group * int (t_group_size a) + group_sel
         in do {
           assertion (group_sel \<ge> 0 \<and> group_sel < int (t_group_size a));
           assertion (sel \<ge> 0 \<and> sel < int (a_size a));
           Arbiter_Arbitrate (a\<lparr>t_global := gl, a_selected := sel\<rparr>)
         })
      })"

definition Tree_Clear :: "'s arbiter_class \<Rightarrow> 's tree_arbiter \<Rightarrow> 's tree_arbiter" where
  "Tree_Clear C a =
     (if a_num_reqs a = 0 then a
      else Arbiter_Clear (a\<lparr>t_groups := map (arb_Clear C) (t_groups a),
             t_group_reqs := map (\<lambda>_. 0) (t_group_reqs a), t_global := arb_Clear C (t_global a)\<rparr>))"

definition TreeArbiter :: "'s arbiter_class \<Rightarrow> 's tree_arbiter arbiter_class" where
  "TreeArbiter C = \<lparr>arb_AddRequest = Tree_AddRequest C,
     arb_Arbitrate = Tree_Arbitrate C, arb_UpdateState = Tree_UpdateState C,
     arb_Clear = Tree_Clear C, arb_LastWinner = a_selected, arb_num_reqs = a_num_reqs\<rparr>"

subsection \<open>The priority arbiter\<close>

record prio_request =
  pr_in :: nat
  pr_label :: int
  pr_pri :: int

record prio_arbiter =
  p_rr_ptr :: nat
  p_inputs :: nat
  p_requests :: "prio_request list"
  p_match :: int

text \<open>The requests are kept sorted by input.  A new one goes ahead the one at the insertion
  point, which is erased if it is for the same input with a lower priority.\<close>

definition Priority_AddRequest :: "nat \<Rightarrow> int \<Rightarrow> int \<Rightarrow> prio_arbiter \<Rightarrow> prio_arbiter" where
  "Priority_AddRequest input label pri a =
     (let ahead = takeWhile (\<lambda>r. pr_in r < input) (p_requests a);
          after = dropWhile (\<lambda>r. pr_in r < input) (p_requests a);
          new = \<lparr>pr_in = input, pr_label = label, pr_pri = pri\<rparr>
      in a\<lparr>p_requests :=
        (case after of
           r # rs \<Rightarrow> if pr_in r = input
                     then (if pr_pri r < pri then ahead @ new # rs else ahead @ r # rs)
                     else ahead @ new # r # rs
         | [] \<Rightarrow> ahead @ [new])\<rparr>)"

definition Priority_RemoveRequest :: "nat \<Rightarrow> prio_arbiter \<Rightarrow> prio_arbiter option" where
  "Priority_RemoveRequest input a =
     (let ahead = takeWhile (\<lambda>r. pr_in r < input) (p_requests a);
          after = dropWhile (\<lambda>r. pr_in r < input) (p_requests a)
      in do { assertion (after \<noteq> []); Some (a\<lparr>p_requests := ahead @ tl after\<rparr>) })"

text \<open>The second loop of \<open>Arbitrate\<close> goes round robin from the pointer.  Its test reads \<open>p->in\<close> at
  \<open>end()\<close> when it has wrapped around and come to the end; either outcome ends the loop.\<close>

definition Priority_best :: "prio_request list \<Rightarrow> int" where
  "Priority_best rs = fst (fold (\<lambda>r (max_index, max_pri).
     if pr_pri r > max_pri \<or> max_index = -1 then (int (pr_in r), pr_pri r) else (max_index, max_pri))
     rs (-1, 0))"

definition Priority_Arbitrate :: "prio_arbiter \<Rightarrow> prio_arbiter" where
  "Priority_Arbitrate a =
     (let m = Priority_best (scan_from pr_in (p_rr_ptr a) (p_requests a))
      in if p_requests a = [] then a\<lparr>p_match := -1\<rparr>
         else if m \<noteq> -1
         then a\<lparr>p_match := m, p_rr_ptr := nat ((m + 1) mod int (p_inputs a))\<rparr>
         else a\<lparr>p_match := m\<rparr>)"

definition Priority_Update :: "prio_arbiter \<Rightarrow> prio_arbiter" where
  "Priority_Update a = a\<lparr>p_rr_ptr := (p_rr_ptr a + 1) mod p_inputs a\<rparr>"

definition Priority_Clear :: "prio_arbiter \<Rightarrow> prio_arbiter" where
  "Priority_Clear a = a\<lparr>p_requests := []\<rparr>"

end
