(* ===== verification/Arbiter_Properties.thy ===== *)
theory Arbiter_Properties
  imports Arbiters
begin

text \<open>
  What an arbiter promises to the allocators that own it, as a locale interpreted on the round-robin,
  matrix and tree arbiters: the winner is one of the requests and none has a higher priority; and,
  in a second locale, that a request of top priority is not passed over for ever.
\<close>

subsection \<open>The contract\<close>

definition picks :: "(nat \<rightharpoonup> int \<times> int) \<Rightarrow> int \<Rightarrow> (int \<times> int) option \<Rightarrow> bool" where
  "picks rs w r \<longleftrightarrow>
     (if rs = Map.empty then w = -1 \<and> r = None
      else 0 \<le> w \<and> rs (nat w) = r \<and> r \<noteq> None \<and>
           (\<forall>j l p. rs j = Some (l, p) \<longrightarrow> p \<le> snd (the r)))"

locale arbiter =
  fixes C :: "'s arbiter_class"
    and width :: "'s \<Rightarrow> nat"
    and reqs :: "'s \<Rightarrow> nat \<rightharpoonup> int \<times> int"
    and asking :: "'s \<Rightarrow> bool"
    and decided :: "'s \<Rightarrow> bool"
  assumes add: "asking s \<Longrightarrow> i < width s \<Longrightarrow> reqs s i = None \<Longrightarrow>
      \<exists>t. arb_AddRequest C i l p s = Some t \<and> asking t \<and> width t = width s \<and>
          reqs t = (reqs s)(i \<mapsto> (l, p))"
    and arbitrate: "asking s \<Longrightarrow>
      \<exists>t w r. arb_Arbitrate C s = Some (t, w, r) \<and> decided t \<and> width t = width s \<and>
          reqs t = reqs s \<and> arb_LastWinner C t = w \<and> picks (reqs s) w r"
    and update: "decided s \<Longrightarrow>
      \<exists>t. arb_UpdateState C s = Some t \<and> decided t \<and> width t = width s \<and> reqs t = reqs s \<and>
          arb_LastWinner C t = arb_LastWinner C s"
    and clear: "asking s \<or> decided s \<Longrightarrow> asking (arb_Clear C s) \<and>
      width (arb_Clear C s) = width s \<and> reqs (arb_Clear C s) = Map.empty"
    and num_reqs: "asking s \<or> decided s \<Longrightarrow> arb_num_reqs C s = 0 \<longleftrightarrow> reqs s = Map.empty"
    and in_range: "asking s \<or> decided s \<Longrightarrow> reqs s i \<noteq> None \<Longrightarrow> i < width s"

text \<open>\<open>rank s i\<close> bounds how often a request of input \<open>i\<close> can lose to others of its priority.\<close>

locale fair_arbiter = arbiter C width reqs asking decided
  for C :: "'s arbiter_class" and width reqs asking decided +
  fixes rank :: "'s \<Rightarrow> nat \<Rightarrow> nat"
  assumes rank_bound: "asking s \<or> decided s \<Longrightarrow> i < width s \<Longrightarrow> rank s i < width s"
    and rank_add: "asking s \<Longrightarrow> j < width s \<Longrightarrow> arb_AddRequest C j l p s = Some t \<Longrightarrow>
      i < width s \<Longrightarrow> rank t i = rank s i"
    and rank_arbitrate: "asking s \<Longrightarrow> arb_Arbitrate C s = Some (t, w, r') \<Longrightarrow>
      i < width s \<Longrightarrow> rank t i = rank s i"
    and rank_clear: "asking s \<or> decided s \<Longrightarrow> i < width s \<Longrightarrow>
      rank (arb_Clear C s) i = rank s i"
    and rank_loser: "asking s \<Longrightarrow> arb_Arbitrate C s = Some (t, w, Some r) \<Longrightarrow>
      arb_UpdateState C t = Some u \<Longrightarrow> reqs s i = Some q \<Longrightarrow> snd q = snd r \<Longrightarrow> w \<noteq> int i \<Longrightarrow>
      rank u i < rank s i"

subsection \<open>Rounds\<close>

text \<open>One use of an arbiter by an allocator: requests are added after a \<open>Clear\<close>, the arbiter
  decides and its state is updated.\<close>

definition arb_ask ::
  "'s arbiter_class \<Rightarrow> (nat \<times> int \<times> int) list \<Rightarrow> 's \<Rightarrow> 's option" where
  "arb_ask C rs s = foldM (\<lambda>r. arb_AddRequest C (fst r) (fst (snd r)) (snd (snd r))) rs s"

definition arb_round ::
  "'s arbiter_class \<Rightarrow> (nat \<times> int \<times> int) list \<Rightarrow> 's \<Rightarrow> ('s \<times> int) option" where
  "arb_round C rs s = do {
     a \<leftarrow> arb_ask C rs (arb_Clear C s);
     (t, w, r) \<leftarrow> arb_Arbitrate C a;
     u \<leftarrow> arb_UpdateState C t;
     Some (u, w)
   }"

fun arb_rounds ::
  "'s arbiter_class \<Rightarrow> (nat \<times> int \<times> int) list list \<Rightarrow> 's \<Rightarrow> ('s \<times> int list) option" where
  "arb_rounds C [] s = Some (s, [])"
| "arb_rounds C (rs # rss) s =
     do { (u, w) \<leftarrow> arb_round C rs s; (v, ws) \<leftarrow> arb_rounds C rss u; Some (v, w # ws) }"

definition legal_requests :: "nat \<Rightarrow> (nat \<times> int \<times> int) list \<Rightarrow> bool" where
  "legal_requests n rs \<longleftrightarrow> distinct (map fst rs) \<and> (\<forall>r \<in> set rs. fst r < n)"

definition top_request :: "nat \<Rightarrow> (nat \<times> int \<times> int) list \<Rightarrow> bool" where
  "top_request i rs \<longleftrightarrow>
     (\<exists>l p. (i, l, p) \<in> set rs \<and> (\<forall>r \<in> set rs. snd (snd r) \<le> p))"

context arbiter
begin

lemma ask:
  assumes "asking s" and "legal_requests (width s) rs" and "\<forall>r \<in> set rs. reqs s (fst r) = None"
  shows "\<exists>t. arb_ask C rs s = Some t \<and> asking t \<and> width t = width s \<and>
    reqs t = reqs s ++ map_of rs"
  using assms
proof (induction rs arbitrary: s)
  case Nil
  then show ?case by (simp add: arb_ask_def)
next
  case (Cons r rs)
  obtain i l p where r: "r = (i, l, p)" by (cases r)
  from Cons.prems have "i < width s" "reqs s i = None" by (auto simp: r legal_requests_def)
  from add [OF Cons.prems(1) this, of l p] obtain t
    where t: "arb_AddRequest C i l p s = Some t" "asking t" "width t = width s"
      "reqs t = (reqs s)(i \<mapsto> (l, p))" by auto
  have "legal_requests (width t) rs" "\<forall>x \<in> set rs. reqs t (fst x) = None"
    using Cons.prems t by (force simp: r legal_requests_def)+
  from Cons.IH [OF t(2) this] obtain u
    where u: "arb_ask C rs t = Some u" "asking u" "width u = width t" "reqs u = reqs t ++ map_of rs"
    by auto
  have "i \<notin> fst ` set rs" using Cons.prems(2) by (auto simp: r legal_requests_def)
  then have "map_of rs i = None" by (simp add: map_of_eq_None_iff)
  then have "reqs u x = (reqs s ++ map_of (r # rs)) x" for x
    unfolding u(4) t(4) r map_add_def by (cases "x = i") (auto split: option.split)
  then have new: "reqs u = reqs s ++ map_of (r # rs)" ..
  have "arb_ask C (r # rs) s = arb_ask C rs t" by (simp add: arb_ask_def r t(1))
  with u(1,3) t(3) have "arb_ask C (r # rs) s = Some u" "width u = width s" by simp_all
  with u(2) new show ?case by blast
qed

lemma round:
  assumes "asking s \<or> decided s" and "legal_requests (width s) rs"
  shows "\<exists>a t w r u. arb_ask C rs (arb_Clear C s) = Some a \<and> asking a \<and> reqs a = map_of rs \<and>
    arb_Arbitrate C a = Some (t, w, r) \<and> arb_UpdateState C t = Some u \<and>
    arb_round C rs s = Some (u, w) \<and> decided u \<and> width u = width s \<and> picks (map_of rs) w r \<and>
    width a = width s"
proof -
  from clear [OF assms(1)] have c: "asking (arb_Clear C s)" "width (arb_Clear C s) = width s"
    "reqs (arb_Clear C s) = Map.empty" by auto
  from ask [OF c(1), of rs] c assms(2) obtain a
    where a: "arb_ask C rs (arb_Clear C s) = Some a" "asking a" "width a = width s"
      "reqs a = map_of rs" by auto
  from arbitrate [OF a(2)] a obtain t w r
    where t: "arb_Arbitrate C a = Some (t, w, r)" "decided t" "width t = width s"
      "picks (map_of rs) w r" by auto
  from update [OF t(2)] t(3) obtain u where u: "arb_UpdateState C t = Some u" "decided u"
    "width u = width s" by auto
  from a t u show ?thesis by (auto simp: arb_round_def)
qed

text \<open>A round does not fail, and picks a request of the highest priority if there is one.\<close>

lemma round_picks_top:
  assumes "asking s \<or> decided s" and "legal_requests (width s) rs"
  shows "\<exists>u w. arb_round C rs s = Some (u, w) \<and> decided u \<and> width u = width s \<and>
    (if rs = [] then w = -1 else 0 \<le> w \<and> top_request (nat w) rs)"
proof -
  from round [OF assms] obtain u w r
    where u: "arb_round C rs s = Some (u, w)" "decided u" "width u = width s"
      "picks (map_of rs) w r" by auto
  have "if rs = [] then w = -1 else 0 \<le> w \<and> top_request (nat w) rs"
  proof (cases "rs = []")
    case True
    with u(4) show ?thesis by (simp add: picks_def)
  next
    case False
    then have ne: "map_of rs \<noteq> Map.empty" by (simp add: map_of_eq_empty_iff)
    with u(4) obtain l p where w: "0 \<le> w" "map_of rs (nat w) = Some (l, p)"
      "\<forall>j m q. map_of rs j = Some (m, q) \<longrightarrow> q \<le> p" by (auto simp: picks_def)
    have "snd (snd x) \<le> p" if "x \<in> set rs" for x
    proof -
      have "map_of rs (fst x) = Some (snd x)"
        using assms(2) that by (simp add: legal_requests_def)
      with w(3) show ?thesis by (metis prod.collapse)
    qed
    moreover have "(nat w, l, p) \<in> set rs" using w(2) by (rule map_of_SomeD)
    ultimately show ?thesis using False w(1)
      unfolding top_request_def by (metis (no_types))
  qed
  with u show ?thesis by auto
qed

end

context fair_arbiter
begin

lemma rank_ask:
  assumes "asking s" and "legal_requests (width s) rs" and "\<forall>r \<in> set rs. reqs s (fst r) = None"
    and "arb_ask C rs s = Some t" and "i < width s"
  shows "rank t i = rank s i"
  using assms
proof (induction rs arbitrary: s)
  case Nil
  then show ?case by (simp add: arb_ask_def)
next
  case (Cons r rs)
  obtain j l p where r: "r = (j, l, p)" by (cases r)
  from Cons.prems have j: "j < width s" "reqs s j = None" by (auto simp: r legal_requests_def)
  from add [OF Cons.prems(1) this, of l p] obtain u
    where u: "arb_AddRequest C j l p s = Some u" "asking u" "width u = width s"
      "reqs u = (reqs s)(j \<mapsto> (l, p))" by auto
  have "legal_requests (width u) rs" "\<forall>x \<in> set rs. reqs u (fst x) = None"
    using Cons.prems u by (force simp: r legal_requests_def)+
  with Cons.IH [OF u(2)] Cons.prems(4,5) u(1,3) have "rank t i = rank u i" by (simp add: arb_ask_def r)
  with rank_add [OF Cons.prems(1) j(1) u(1) Cons.prems(5)] show ?case by simp
qed

lemma lost_round:
  assumes "asking s \<or> decided s" and "legal_requests (width s) rs" and "top_request i rs"
    and "arb_round C rs s = Some (u, w)" and "w \<noteq> int i"
  shows "rank u i < rank s i"
proof -
  from round [OF assms(1,2)] assms(4) obtain a t r
    where a: "arb_ask C rs (arb_Clear C s) = Some a" "asking a" "reqs a = map_of rs"
      and t: "arb_Arbitrate C a = Some (t, w, r)" "arb_UpdateState C t = Some u"
        "picks (map_of rs) w r" by auto
  from assms(3) obtain l p where i: "(i, l, p) \<in> set rs" "\<forall>x \<in> set rs. snd (snd x) \<le> p"
    by (auto simp: top_request_def)
  have ri: "map_of rs i = Some (l, p)" using i(1) assms(2) by (simp add: legal_requests_def)
  then have "map_of rs \<noteq> Map.empty" by (metis option.distinct(1))
  with t(3) obtain q where q: "r = Some q" "map_of rs (nat w) = Some q" "p \<le> snd q"
    using ri by (fastforce simp: picks_def)
  have "snd q \<le> p" using i(2) map_of_SomeD [OF q(2)] by force
  with q(3) have "snd q = p" by simp
  with rank_loser [OF a(2), of t w q u i "(l, p)"] t ri a(3) q(1) assms(5)
  have "rank u i < rank a i" by simp
  moreover have i': "i < width s" using i(1) assms(2) by (auto simp: legal_requests_def)
  moreover from this have "rank a i = rank (arb_Clear C s) i"
    using clear [OF assms(1)] assms(2) a(1) by (intro rank_ask [of _ rs]) auto
  ultimately show ?thesis using rank_clear [OF assms(1)] by simp
qed

text \<open>No starvation: an input that asks in every round, with no higher priority among the others,
  wins within as many rounds as there are inputs.\<close>

lemma no_starvation:
  assumes "asking s \<or> decided s" and "i < width s"
    and "\<forall>rs \<in> set rss. legal_requests (width s) rs \<and> top_request i rs"
    and "rank s i < length rss"
  shows "\<exists>u ws. arb_rounds C rss s = Some (u, ws) \<and> int i \<in> set ws"
proof -
  have run: "\<exists>u ws. arb_rounds C rss s = Some (u, ws)"
    if "asking s \<or> decided s" "\<forall>rs \<in> set rss. legal_requests (width s) rs" for rss s
    using that
  proof (induction rss arbitrary: s)
    case (Cons rs rss)
    then have "legal_requests (width s) rs" by simp
    from round [OF Cons.prems(1) this] obtain u w
      where u: "arb_round C rs s = Some (u, w)" "decided u" "width u = width s" by auto
    with Cons.IH [of u] Cons.prems(2) show ?case by auto
  qed simp
  show ?thesis using assms
  proof (induction rss arbitrary: s)
    case (Cons rs rss)
    then have legal: "legal_requests (width s) rs" and top: "top_request i rs" by auto
    from round [OF Cons.prems(1) legal] obtain u w
      where u: "arb_round C rs s = Some (u, w)" "decided u" "width u = width s" by auto
    from run [of u rss] u Cons.prems(3) obtain v ws where v: "arb_rounds C rss u = Some (v, ws)"
      by auto
    show ?case
    proof (cases "w = int i")
      case True
      with u v show ?thesis by auto
    next
      case False
      from lost_round [OF Cons.prems(1) legal top u(1) False] Cons.prems(4)
      have "rank u i < length rss" by simp
      from Cons.IH [OF _ _ _ this] u Cons.prems(2,3) show ?thesis by auto
    qed
  qed simp
qed

text \<open>The same after any history of legal rounds.\<close>

lemma no_starvation_after:
  assumes "asking s \<or> decided s" and "i < width s"
    and "\<forall>rs \<in> set (past @ future). legal_requests (width s) rs"
    and "\<forall>rs \<in> set future. top_request i rs" and "width s \<le> length future"
  shows "\<exists>u ws1 ws2. arb_rounds C (past @ future) s = Some (u, ws1 @ ws2) \<and>
    length ws1 = length past \<and> int i \<in> set ws2"
  using assms
proof (induction past arbitrary: s)
  case Nil
  then have "rank s i < length future" using rank_bound [OF Nil(1,2)] by simp
  with no_starvation [OF Nil(1,2) _ this] Nil(3,4) obtain u ws
    where "arb_rounds C future s = Some (u, ws)" "int i \<in> set ws" by auto
  then have "arb_rounds C ([] @ future) s = Some (u, [] @ ws)" by simp
  with \<open>int i \<in> set ws\<close> show ?case by (metis list.size(3))
next
  case (Cons rs past)
  then have "legal_requests (width s) rs" by simp
  from round [OF Cons.prems(1) this] obtain v w
    where v: "arb_round C rs s = Some (v, w)" "decided v" "width v = width s" by auto
  with Cons.IH [of v] Cons.prems obtain u ws1 ws2
    where "arb_rounds C (past @ future) v = Some (u, ws1 @ ws2)" "length ws1 = length past"
      "int i \<in> set ws2" by auto
  then have "arb_rounds C ((rs # past) @ future) s = Some (u, (w # ws1) @ ws2)"
    using v by simp
  with \<open>length ws1 = length past\<close> \<open>int i \<in> set ws2\<close> show ?case by (metis length_Cons)
qed

end

subsection \<open>The base class\<close>

definition base_reqs :: "'a arbiter_base_scheme \<Rightarrow> nat \<rightharpoonup> int \<times> int" where
  "base_reqs a i =
     (if i < a_size a \<and> ae_valid (a_request a ! i)
      then Some (ae_id (a_request a ! i), ae_pri (a_request a ! i)) else None)"

definition base_ok :: "'a arbiter_base_scheme \<Rightarrow> bool" where
  "base_ok a \<longleftrightarrow> length (a_request a) = a_size a \<and> a_num_reqs a = card (dom (base_reqs a)) \<and>
     -1 \<le> a_selected a \<and> a_selected a < int (a_size a) \<and>
     (a_num_reqs a = 0 \<longrightarrow> a_selected a = -1)"

lemma dom_base_reqs: "dom (base_reqs a) \<subseteq> {..<a_size a}"
  by (auto simp: base_reqs_def split: if_splits)

lemma finite_base_reqs [simp]: "finite (dom (base_reqs a))"
  by (rule finite_subset [OF dom_base_reqs]) simp

lemma base_no_reqs: "base_ok a \<Longrightarrow> a_num_reqs a = 0 \<longleftrightarrow> base_reqs a = Map.empty"
  by (simp add: base_ok_def dom_eq_empty_conv)

lemma base_in_range: "base_reqs a i \<noteq> None \<Longrightarrow> i < a_size a"
  by (auto simp: base_reqs_def split: if_splits)

lemma base_reqs_selected [simp]: "base_reqs (a\<lparr>a_selected := w\<rparr>) = base_reqs a"
  by (simp add: base_reqs_def fun_eq_iff)

lemma base_update_selected:
  "base_ok a \<Longrightarrow> -1 \<le> w \<Longrightarrow> w < int (a_size a) \<Longrightarrow> (a_num_reqs a = 0 \<longrightarrow> w = -1) \<Longrightarrow>
    base_ok (a\<lparr>a_selected := w\<rparr>)"
  by (simp add: base_ok_def)

lemma base_AddRequest:
  assumes "base_ok a" and "i < a_size a" and "base_reqs a i = None"
  shows "\<exists>t. Arbiter_AddRequest i l p a = Some t \<and> base_ok t \<and>
    base_reqs t = (base_reqs a)(i \<mapsto> (l, p)) \<and>
    t = a\<lparr>a_num_reqs := a_num_reqs a + 1,
          a_request := (a_request a)[i := \<lparr>ae_valid = True, ae_id = l, ae_pri = p\<rparr>]\<rparr>"
proof -
  let ?t = "a\<lparr>a_num_reqs := a_num_reqs a + 1,
    a_request := (a_request a)[i := \<lparr>ae_valid = True, ae_id = l, ae_pri = p\<rparr>]\<rparr>"
  have invalid: "\<not> ae_valid (a_request a ! i)"
    using assms(2,3) by (auto simp: base_reqs_def split: if_splits)
  have r: "base_reqs ?t = (base_reqs a)(i \<mapsto> (l, p))"
    using assms(1,2) by (auto simp: base_reqs_def base_ok_def fun_eq_iff nth_list_update)
  have "i \<notin> dom (base_reqs a)" using assms(3) by auto
  then have "base_ok ?t"
    using assms(1,2) unfolding base_ok_def r by (auto simp: card_insert_if)
  with r invalid assms(2) show ?thesis by (auto simp: Arbiter_AddRequest_def assertion_def)
qed

lemma base_Arbitrate:
  assumes "base_ok a" and "a_num_reqs a \<noteq> 0 \<longrightarrow> base_reqs a (nat (a_selected a)) \<noteq> None \<and> 0 \<le> a_selected a"
  shows "Arbiter_Arbitrate a = Some (a, a_selected a,
    if a_num_reqs a = 0 then None else base_reqs a (nat (a_selected a)))"
  using assms by (auto simp: Arbiter_Arbitrate_def base_ok_def base_reqs_def split: if_splits)

lemma base_Clear:
  assumes "base_ok a"
  shows "base_ok (Arbiter_Clear a)" and "base_reqs (Arbiter_Clear a) = Map.empty"
    and "a_num_reqs (Arbiter_Clear a) = 0" and "a_size (Arbiter_Clear a) = a_size a"
proof -
  have c: "base_reqs (a\<lparr>a_request := map (\<lambda>e. e\<lparr>ae_valid := False\<rparr>) (a_request a),
      a_num_reqs := 0, a_selected := -1\<rparr>) = Map.empty"
    using assms by (auto simp: base_reqs_def base_ok_def fun_eq_iff)
  show r: "base_reqs (Arbiter_Clear a) = Map.empty"
    using c base_no_reqs [OF assms] by (simp add: Arbiter_Clear_def)
  show "a_num_reqs (Arbiter_Clear a) = 0" "a_size (Arbiter_Clear a) = a_size a"
    by (simp_all add: Arbiter_Clear_def)
  then show "base_ok (Arbiter_Clear a)"
    using assms r by (auto simp: base_ok_def Arbiter_Clear_def)
qed

text \<open>Nothing but the fields of the base class matters.\<close>

lemma base_reqs_cong:
  "a_size a = a_size b \<Longrightarrow> a_request a = a_request b \<Longrightarrow> base_reqs a = base_reqs b"
  by (simp add: base_reqs_def fun_eq_iff)

lemma base_ok_cong:
  "a_size a = a_size b \<Longrightarrow> a_request a = a_request b \<Longrightarrow> a_num_reqs a = a_num_reqs b \<Longrightarrow>
    a_selected a = a_selected b \<Longrightarrow> base_ok a = base_ok b"
  using base_reqs_cong [of a b] by (simp add: base_ok_def)

lemma base_init: "base_ok (Arbiter_init n) \<and> base_reqs (Arbiter_init n) = Map.empty"
proof -
  have "base_reqs (Arbiter_init n) = Map.empty"
    by (auto simp: base_reqs_def fun_eq_iff Arbiter_init_def no_entry_def)
  then show ?thesis by (simp add: base_ok_def) (simp add: Arbiter_init_def)
qed

end
