(* ===== verification/Round_Robin.thy ===== *)
theory Round_Robin
  imports Arbiter_Properties
begin

text \<open>
  The round-robin arbiter (src/booksim2/src/arbiters/roundrobin_arb.cpp) meets the contract of an
  arbiter and is fair: among the requests of the highest priority the first at or after the pointer
  wins, and the pointer moves past the winner.
\<close>

definition rr_key :: "nat \<Rightarrow> nat \<Rightarrow> nat \<Rightarrow> nat" where
  "rr_key n ptr i = (if ptr \<le> i then i - ptr else i + n - ptr)"

lemma rr_key_mod:
  assumes "i < n" and "ptr < n"
  shows "(int i - int ptr + int n) mod int n = int (rr_key n ptr i)"
proof -
  have eq: "int i - int ptr + int n = int (i + n - ptr)" using assms by simp
  have "(i + n - ptr) mod n = rr_key n ptr i"
  proof (cases "ptr \<le> i")
    case True
    then have "(i + n - ptr) mod n = (i - ptr + n) mod n" by (simp only: Nat.add_diff_assoc2)
    also have "\<dots> = i - ptr" using assms by (simp only: mod_add_self2) simp
    finally show ?thesis using True by (simp add: rr_key_def)
  next
    case False
    with assms show ?thesis by (simp add: rr_key_def)
  qed
  then show ?thesis unfolding eq by (simp only: of_nat_mod [symmetric])
qed

lemma rr_key_inj: "i < n \<Longrightarrow> j < n \<Longrightarrow> ptr < n \<Longrightarrow> rr_key n ptr i = rr_key n ptr j \<Longrightarrow> i = j"
  by (auto simp: rr_key_def split: if_splits)

lemma rr_key_bound: "i < n \<Longrightarrow> ptr < n \<Longrightarrow> rr_key n ptr i < n"
  by (auto simp: rr_key_def)

text \<open>The pointer moves just past the winner \<open>w\<close>, and every other key drops.\<close>

lemma rr_key_next:
  "i < n \<Longrightarrow> w < n \<Longrightarrow> ptr < n \<Longrightarrow> rr_key n ptr w < rr_key n ptr i \<Longrightarrow>
    rr_key n (Suc w mod n) i < rr_key n ptr i"
  by (cases "Suc w = n") (auto simp: rr_key_def split: if_splits)

definition rr_ok :: "rr_arbiter \<Rightarrow> bool" where
  "rr_ok a \<longleftrightarrow> base_ok a \<and> (rr_pointer a < a_size a \<or> a_size a = 0)"

definition rr_asking :: "rr_arbiter \<Rightarrow> bool" where
  "rr_asking a \<longleftrightarrow> rr_ok a \<and>
     (if a_num_reqs a = 0 then a_best_input a = -1
      else 0 \<le> a_best_input a \<and>
        map_option snd (base_reqs a (nat (a_best_input a))) = Some (a_highest_pri a) \<and>
        (\<forall>j m' q. base_reqs a j = Some (m', q) \<longrightarrow> q < a_highest_pri a \<or>
           q = a_highest_pri a \<and>
           rr_key (a_size a) (rr_pointer a) (nat (a_best_input a))
             \<le> rr_key (a_size a) (rr_pointer a) j))"

definition rr_rank :: "rr_arbiter \<Rightarrow> nat \<Rightarrow> nat" where
  "rr_rank a i = rr_key (a_size a) (rr_pointer a) i"

lemma rr_best:
  assumes "rr_asking a" and "a_num_reqs a \<noteq> 0"
  obtains b l where "a_best_input a = int b" "b < a_size a"
    "base_reqs a b = Some (l, a_highest_pri a)"
    "\<forall>j m' q. base_reqs a j = Some (m', q) \<longrightarrow> q < a_highest_pri a \<or>
       q = a_highest_pri a \<and> rr_rank a b \<le> rr_rank a j"
proof -
  from assms obtain l where best: "0 \<le> a_best_input a"
    "base_reqs a (nat (a_best_input a)) = Some (l, a_highest_pri a)"
    by (auto simp: rr_asking_def)
  have "nat (a_best_input a) < a_size a" using best(2) by (intro base_in_range) auto
  moreover have "\<forall>j m' q. base_reqs a j = Some (m', q) \<longrightarrow> q < a_highest_pri a \<or>
      q = a_highest_pri a \<and> rr_rank a (nat (a_best_input a)) \<le> rr_rank a j"
    using assms unfolding rr_asking_def rr_rank_def by simp
  moreover have "a_best_input a = int (nat (a_best_input a))" using best(1) by simp
  ultimately show ?thesis using best(2) that by blast
qed

lemma rr_askingI:
  assumes "rr_ok a" and "a_num_reqs a \<noteq> 0" and "a_best_input a = int b"
    and "base_reqs a b = Some (m, a_highest_pri a)"
    and "\<forall>j m' q. base_reqs a j = Some (m', q) \<longrightarrow> q < a_highest_pri a \<or>
       q = a_highest_pri a \<and> rr_rank a b \<le> rr_rank a j"
  shows "rr_asking a"
  using assms unfolding rr_asking_def rr_rank_def by simp

lemma rr_base_reqs [simp]:
  "base_reqs (a\<lparr>a_highest_pri := p\<rparr>) = base_reqs a"
  "base_reqs (a\<lparr>a_best_input := b\<rparr>) = base_reqs a"
  "base_reqs ((a'::rr_arbiter)\<lparr>rr_pointer := q\<rparr>) = base_reqs a'"
  by (simp_all add: base_reqs_def fun_eq_iff)

lemma rr_base_ok [simp]:
  "base_ok (a\<lparr>a_highest_pri := p\<rparr>) = base_ok a"
  "base_ok (a\<lparr>a_best_input := b\<rparr>) = base_ok a"
  "base_ok ((a'::rr_arbiter)\<lparr>rr_pointer := q\<rparr>) = base_ok a'"
  by (simp_all add: base_ok_def)

lemma rr_Supersedes:
  assumes "i < n" and "b < n" and "ptr < n"
  shows "Supersedes (int i) p (int b) h (int ptr) n \<longleftrightarrow>
    p > h \<or> p = h \<and> rr_key n ptr i < rr_key n ptr b"
  using rr_key_mod [OF assms(1,3)] rr_key_mod [OF assms(2,3)]
  unfolding Supersedes_def by (simp only: of_nat_less_iff)

lemma RoundRobin_add:
  assumes "rr_asking a" and "i < a_size a" and "base_reqs a i = None"
  shows "\<exists>t. RoundRobin_AddRequest i l p a = Some t \<and> rr_asking t \<and> a_size t = a_size a \<and>
    base_reqs t = (base_reqs a)(i \<mapsto> (l, p)) \<and> rr_pointer t = rr_pointer a"
proof -
  define better where "better \<longleftrightarrow> a_num_reqs a = 0 \<or>
    Supersedes (int i) p (a_best_input a) (a_highest_pri a) (int (rr_pointer a)) (a_size a)"
  define a1 where "a1 = (if better then a\<lparr>a_highest_pri := p, a_best_input := int i\<rparr> else a)"
  have ok: "base_ok a" "rr_pointer a < a_size a" using assms by (auto simp: rr_asking_def rr_ok_def)
  have invalid: "\<not> ae_valid (a_request a ! i)"
    using assms(2,3) by (auto simp: base_reqs_def split: if_splits)
  have a1: "base_ok a1" "base_reqs a1 = base_reqs a" "a_size a1 = a_size a" "i < a_size a1"
    "base_reqs a1 i = None" "rr_pointer a1 = rr_pointer a"
    using ok assms by (auto simp: a1_def)
  have add: "RoundRobin_AddRequest i l p a = Arbiter_AddRequest i l p a1"
    using invalid by (simp add: RoundRobin_AddRequest_def Let_def a1_def better_def)
  from base_AddRequest [OF a1(1,4,5), of l p] obtain t
    where t: "Arbiter_AddRequest i l p a1 = Some t" "base_ok t"
      "base_reqs t = (base_reqs a)(i \<mapsto> (l, p))" "a_num_reqs t = a_num_reqs a1 + 1"
      "a_best_input t = a_best_input a1" "a_highest_pri t = a_highest_pri a1"
      "rr_pointer t = rr_pointer a" "a_size t = a_size a"
    using a1 by auto
  have "rr_asking t"
  proof (cases better)
    case True
    then have best: "a_best_input t = int i" "a_highest_pri t = p"
      using t by (auto simp: a1_def)
    have "q < p \<or> q = p \<and> rr_key (a_size a) (rr_pointer a) i \<le> rr_key (a_size a) (rr_pointer a) j"
      if "base_reqs t j = Some (m', q)" for j m' q
    proof (cases "j = i")
      case True
      with that t(3) have "q = p" by simp
      with True show ?thesis by simp
    next
      case False
      with that t(3) have q: "base_reqs a j = Some (m', q)" by simp
      then have "a_num_reqs a \<noteq> 0" using base_no_reqs [OF ok(1)] by auto
      then obtain b m where b: "a_best_input a = int b" "b < a_size a"
        "\<forall>j m' q. base_reqs a j = Some (m', q) \<longrightarrow> q < a_highest_pri a \<or>
          q = a_highest_pri a \<and> rr_rank a b \<le> rr_rank a j"
        by (rule rr_best [OF assms(1)])
      have "q < a_highest_pri a \<or> q = a_highest_pri a \<and> rr_rank a b \<le> rr_rank a j"
        using b(3) q by blast
      moreover have "p > a_highest_pri a \<or> p = a_highest_pri a \<and> rr_rank a i < rr_rank a b"
        using \<open>better\<close> \<open>a_num_reqs a \<noteq> 0\<close> rr_Supersedes [OF assms(2) b(2) ok(2)] b(1)
        by (simp add: better_def rr_rank_def)
      ultimately show ?thesis unfolding rr_rank_def by linarith
    qed
    then have "\<forall>j m' q. base_reqs t j = Some (m', q) \<longrightarrow> q < a_highest_pri t \<or>
        q = a_highest_pri t \<and> rr_rank t i \<le> rr_rank t j"
      using t(7,8) best(2) unfolding rr_rank_def by simp
    then show ?thesis
      using t ok best by (intro rr_askingI [of t i l]) (simp_all add: rr_ok_def)
  next
    case False
    then have n: "a_num_reqs a \<noteq> 0" by (simp add: better_def)
    obtain b m where b: "a_best_input a = int b" "b < a_size a"
      "base_reqs a b = Some (m, a_highest_pri a)"
      "\<forall>j m' q. base_reqs a j = Some (m', q) \<longrightarrow> q < a_highest_pri a \<or>
         q = a_highest_pri a \<and> rr_rank a b \<le> rr_rank a j"
      by (rule rr_best [OF assms(1) n])
    have new: "p < a_highest_pri a \<or> p = a_highest_pri a \<and> rr_rank a b \<le> rr_rank a i"
      using False n rr_Supersedes [OF assms(2) b(2) ok(2)] b(1)
      by (auto simp: better_def rr_rank_def)
    have "q < a_highest_pri a \<or> q = a_highest_pri a \<and> rr_rank a b \<le> rr_rank a j"
      if "base_reqs t j = Some (m', q)" for j m' q
      using that new b(4) t(3) by (cases "j = i") auto
    moreover have "b \<noteq> i" using b(3) assms(3) by auto
    moreover have "a_best_input t = int b" "a_highest_pri t = a_highest_pri a"
      using t b False by (auto simp: a1_def)
    ultimately show ?thesis
      using t b(3) ok by (intro rr_askingI [of t b m]) (simp_all add: rr_ok_def rr_rank_def)
  qed
  with t add show ?thesis by auto
qed

lemma RoundRobin_arbitrate:
  assumes "rr_asking a"
  shows "\<exists>t w r. RoundRobin_Arbitrate a = Some (t, w, r) \<and> rr_ok t \<and> a_size t = a_size a \<and>
    base_reqs t = base_reqs a \<and> a_selected t = w \<and> picks (base_reqs a) w r \<and>
    w = a_best_input a \<and> rr_pointer t = rr_pointer a"
proof (cases "a_num_reqs a = 0")
  case True
  with assms have "a_best_input a = -1" "base_ok a" "base_reqs a = Map.empty"
    using base_no_reqs by (auto simp: rr_asking_def rr_ok_def)
  with True assms show ?thesis
    by (auto simp: RoundRobin_Arbitrate_def Arbiter_Arbitrate_def picks_def rr_asking_def rr_ok_def
        base_ok_def assertion_def)
next
  case False
  obtain b m where b: "a_best_input a = int b" "b < a_size a"
    "base_reqs a b = Some (m, a_highest_pri a)"
    "\<forall>j m' q. base_reqs a j = Some (m', q) \<longrightarrow> q < a_highest_pri a \<or>
       q = a_highest_pri a \<and> rr_rank a b \<le> rr_rank a j"
    using assms False by (rule rr_best)
  let ?t = "a\<lparr>a_selected := int b\<rparr>"
  have ok: "base_ok ?t" using assms b(2) False
    by (intro base_update_selected) (auto simp: rr_asking_def rr_ok_def)
  have "RoundRobin_Arbitrate a = Some (?t, int b, Some (m, a_highest_pri a))"
    using base_Arbitrate [OF ok] b False by (simp add: RoundRobin_Arbitrate_def)
  moreover have "base_reqs a \<noteq> Map.empty" using b(3) by (metis option.distinct(1))
  moreover have "q \<le> a_highest_pri a" if "base_reqs a j = Some (m', q)" for j m' q
    using b(4) that by fastforce
  ultimately show ?thesis
    using assms ok b by (auto simp: picks_def rr_asking_def rr_ok_def)
qed

lemma RoundRobin_update:
  assumes "rr_ok a"
  shows "\<exists>t. RoundRobin_UpdateState a = Some t \<and> rr_ok t \<and> a_size t = a_size a \<and>
    base_reqs t = base_reqs a \<and> a_selected t = a_selected a \<and>
    rr_pointer t = (if a_selected a = -1 then rr_pointer a
                    else Suc (nat (a_selected a)) mod a_size a)"
proof (cases "a_selected a = -1")
  case True
  with assms show ?thesis by (auto simp: RoundRobin_UpdateState_def)
next
  case False
  with assms obtain w where w: "a_selected a = int w" "w < a_size a"
    by (auto simp: rr_ok_def base_ok_def intro!: that [of "nat (a_selected a)"])
  have "nat ((int w + 1) mod int (a_size a)) = Suc w mod a_size a"
    by (metis nat_int of_nat_Suc of_nat_mod add.commute)
  with w assms show ?thesis by (auto simp: RoundRobin_UpdateState_def rr_ok_def)
qed

lemma RoundRobin_clear:
  assumes "rr_ok a"
  shows "rr_asking (RoundRobin_Clear a) \<and> a_size (RoundRobin_Clear a) = a_size a \<and>
    base_reqs (RoundRobin_Clear a) = Map.empty \<and> rr_pointer (RoundRobin_Clear a) = rr_pointer a"
proof -
  let ?b = "a\<lparr>a_highest_pri := int_min, a_best_input := -1\<rparr>"
  have "base_ok ?b" using assms by (simp add: rr_ok_def)
  from base_Clear [OF this] assms show ?thesis
    by (auto simp: RoundRobin_Clear_def rr_asking_def rr_ok_def) (auto simp: Arbiter_Clear_def)
qed

lemma rr_asking_ok: "rr_asking a \<Longrightarrow> rr_ok a"
  by (simp add: rr_asking_def)

lemma RoundRobin_init_asking: "rr_asking (RoundRobin_init n) \<and> a_size (RoundRobin_init n) = n"
proof -
  have "base_ok (RoundRobin_init n) \<and> base_reqs (RoundRobin_init n) = Map.empty"
    using base_init [of n] base_ok_cong [of "RoundRobin_init n" "Arbiter_init n"]
      base_reqs_cong [of "RoundRobin_init n" "Arbiter_init n"]
    by (simp add: RoundRobin_init_def arbiter_base.defs)
  then show ?thesis
    by (auto simp: rr_asking_def rr_ok_def RoundRobin_init_def arbiter_base.defs Arbiter_init_def)
qed

interpretation rr: fair_arbiter RoundRobinArbiter a_size base_reqs rr_asking rr_ok rr_rank
proof
  fix s :: rr_arbiter and i j l p t w r u q
  show "rr_asking s \<Longrightarrow> i < a_size s \<Longrightarrow> base_reqs s i = None \<Longrightarrow>
    \<exists>t. arb_AddRequest RoundRobinArbiter i l p s = Some t \<and> rr_asking t \<and> a_size t = a_size s \<and>
      base_reqs t = (base_reqs s)(i \<mapsto> (l, p))"
    using RoundRobin_add by (force simp: RoundRobinArbiter_def)
  show "rr_asking s \<Longrightarrow> \<exists>t w r. arb_Arbitrate RoundRobinArbiter s = Some (t, w, r) \<and> rr_ok t \<and>
    a_size t = a_size s \<and> base_reqs t = base_reqs s \<and>
    arb_LastWinner RoundRobinArbiter t = w \<and> picks (base_reqs s) w r"
    using RoundRobin_arbitrate by (force simp: RoundRobinArbiter_def)
  show "rr_ok s \<Longrightarrow> \<exists>t. arb_UpdateState RoundRobinArbiter s = Some t \<and> rr_ok t \<and>
    a_size t = a_size s \<and> base_reqs t = base_reqs s \<and>
    arb_LastWinner RoundRobinArbiter t = arb_LastWinner RoundRobinArbiter s"
    using RoundRobin_update by (force simp: RoundRobinArbiter_def)
  show "rr_asking s \<or> rr_ok s \<Longrightarrow> rr_asking (arb_Clear RoundRobinArbiter s) \<and>
    a_size (arb_Clear RoundRobinArbiter s) = a_size s \<and>
    base_reqs (arb_Clear RoundRobinArbiter s) = Map.empty"
    using RoundRobin_clear rr_asking_ok by (force simp: RoundRobinArbiter_def)
  show "rr_asking s \<or> rr_ok s \<Longrightarrow>
    arb_num_reqs RoundRobinArbiter s = 0 \<longleftrightarrow> base_reqs s = Map.empty"
    using base_no_reqs [of s] by (auto simp: RoundRobinArbiter_def rr_asking_def rr_ok_def)
  show "base_reqs s i \<noteq> None \<Longrightarrow> i < a_size s" by (rule base_in_range)
  show "rr_asking s \<or> rr_ok s \<Longrightarrow> i < a_size s \<Longrightarrow> rr_rank s i < a_size s"
    by (auto simp: rr_rank_def rr_asking_def rr_ok_def rr_key_bound)
  show "rr_asking s \<Longrightarrow> j < a_size s \<Longrightarrow> arb_AddRequest RoundRobinArbiter j l p s = Some t \<Longrightarrow>
    i < a_size s \<Longrightarrow> rr_rank t i = rr_rank s i"
    by (auto simp: RoundRobinArbiter_def rr_rank_def RoundRobin_AddRequest_def Let_def
        Arbiter_AddRequest_def split: if_splits)
  show "rr_asking s \<Longrightarrow> arb_Arbitrate RoundRobinArbiter s = Some (t, w, r') \<Longrightarrow>
    i < a_size s \<Longrightarrow> rr_rank t i = rr_rank s i" for r'
    using RoundRobin_arbitrate by (force simp: RoundRobinArbiter_def rr_rank_def)
  show "rr_asking s \<or> rr_ok s \<Longrightarrow> i < a_size s \<Longrightarrow>
    rr_rank (arb_Clear RoundRobinArbiter s) i = rr_rank s i"
    using RoundRobin_clear rr_asking_ok by (force simp: RoundRobinArbiter_def rr_rank_def)
  show "rr_rank u i < rr_rank s i"
    if "rr_asking s" "arb_Arbitrate RoundRobinArbiter s = Some (t, w, Some r)"
      "arb_UpdateState RoundRobinArbiter t = Some u" "base_reqs s i = Some q" "snd q = snd r"
      "w \<noteq> int i"
  proof -
    have asking: "rr_asking s" using that(1) .
    have n: "a_num_reqs s \<noteq> 0"
      using that(1,4) base_no_reqs [of s] by (auto simp: rr_asking_def rr_ok_def)
    obtain b m where b: "a_best_input s = int b" "b < a_size s"
      "base_reqs s b = Some (m, a_highest_pri s)"
      "\<forall>j m' q. base_reqs s j = Some (m', q) \<longrightarrow> q < a_highest_pri s \<or>
         q = a_highest_pri s \<and> rr_rank s b \<le> rr_rank s j"
      using asking n by (rule rr_best)
    from RoundRobin_arbitrate [OF that(1)] that(2) b(1)
    have t: "rr_ok t" "a_size t = a_size s" "a_selected t = int b" "w = int b"
      "rr_pointer t = rr_pointer s" "base_reqs s b = Some r"
      by (auto simp: RoundRobinArbiter_def picks_def split: if_splits)
    from RoundRobin_update [OF t(1)] that(3) t
    have u: "rr_pointer u = Suc b mod a_size s" "a_size u = a_size s"
      by (auto simp: RoundRobinArbiter_def)
    have i: "i < a_size s" using that(4) by (intro base_in_range) simp
    have ptr: "rr_pointer s < a_size s" using that(1) i by (auto simp: rr_asking_def rr_ok_def)
    have "base_reqs s i = Some (fst q, a_highest_pri s)"
      using b(3) t(6) that(4,5) by (cases q) simp
    then have "rr_rank s b \<le> rr_rank s i" using b(4) by blast
    moreover have "rr_rank s b \<noteq> rr_rank s i"
      using rr_key_inj [OF b(2) i ptr] that(6) t(4) by (auto simp: rr_rank_def)
    ultimately show ?thesis
      using rr_key_next [OF i b(2) ptr] u by (simp add: rr_rank_def)
  qed
qed

text \<open>C32: round robin does not starve anyone. After any history of rounds, an input that asks in as
  many further rounds as there are inputs, never with a lower priority than another request of the
  round, wins one of them; no round fails.\<close>

theorem round_robin_no_starvation:
  assumes "i < n" and "\<forall>rs \<in> set (past @ future). legal_requests n rs"
    and "\<forall>rs \<in> set future. top_request i rs" and "n \<le> length future"
  shows "\<exists>u ws1 ws2. arb_rounds RoundRobinArbiter (past @ future) (RoundRobin_init n) =
      Some (u, ws1 @ ws2) \<and> length ws1 = length past \<and> int i \<in> set ws2"
  using rr.no_starvation_after [of "RoundRobin_init n" i past future] assms
    RoundRobin_init_asking [of n] by simp

lemma round_robin_no_starvation_witness:
  "\<exists>u ws1 ws2. arb_rounds RoundRobinArbiter ([[(2, 7, 0)]] @
      [[(0, 1, 5), (1, 2, 5)], [(0, 1, 5), (2, 3, 5)], [(1, 2, 6), (0, 4, 6)]]) (RoundRobin_init 3) =
      Some (u, ws1 @ ws2) \<and> length ws1 = length [[(2::nat, 7::int, 0::int)]] \<and> int 0 \<in> set ws2"
  by (rule round_robin_no_starvation) (auto simp: legal_requests_def top_request_def)

end
