(* ===== verification/Matrix_Precedence.thy ===== *)
theory Matrix_Precedence
  imports Arbiter_Properties
begin

text \<open>
  The matrix arbiter (src/booksim2/src/arbiters/matrix_arb.cpp) refines a queue of its inputs, least
  recently served first: the precedence matrix always describes the order of such a queue, the
  winner is the first input in it whose request has the highest priority, and the update moves the
  winner to the end.  The laws of an arbiter and its fairness follow.
\<close>

subsection \<open>Positions in a queue\<close>

definition pos :: "nat list \<Rightarrow> nat \<Rightarrow> nat" where
  "pos q i = length (takeWhile (\<lambda>x. x \<noteq> i) q)"

lemma pos_Cons [simp]: "pos (x # q) i = (if x = i then 0 else Suc (pos q i))"
  by (simp add: pos_def)

lemma pos_append: "pos (xs @ ys) i = (if i \<in> set xs then pos xs i else length xs + pos ys i)"
  by (induction xs) (auto simp: pos_def)

lemma pos_less: "i \<in> set q \<Longrightarrow> pos q i < length q"
  by (induction q) (auto simp: pos_def)

lemma pos_nth: "i \<in> set q \<Longrightarrow> q ! pos q i = i"
  by (induction q) (auto simp: pos_def)

lemma pos_inj: "i \<in> set q \<Longrightarrow> j \<in> set q \<Longrightarrow> pos q i = pos q j \<Longrightarrow> i = j"
  by (metis pos_nth)

lemma pos_rev_upt: "i < n \<Longrightarrow> pos (rev [0..<n]) i = n - Suc i"
  by (induction n) (auto simp: pos_def less_Suc_eq)

text \<open>Moving \<open>w\<close> to the end.\<close>

definition to_back :: "nat \<Rightarrow> nat list \<Rightarrow> nat list" where
  "to_back w q = remove1 w q @ [w]"

lemma set_to_back: "distinct q \<Longrightarrow> w \<in> set q \<Longrightarrow> set (to_back w q) = set q"
  by (auto simp: to_back_def)

lemma distinct_to_back: "distinct q \<Longrightarrow> distinct (to_back w q)"
  by (auto simp: to_back_def)

lemma pos_to_back:
  assumes "distinct q" and "w \<in> set q" and "i \<in> set q"
  shows "pos (to_back w q) i =
    (if i = w then length q - 1 else if pos q i < pos q w then pos q i else pos q i - 1)"
proof -
  from assms(2) obtain xs ys where q: "q = xs @ w # ys" by (meson split_list)
  with assms(1) have "w \<notin> set xs" "w \<notin> set ys" "set xs \<inter> set ys = {}" by auto
  then have moved: "to_back w q = xs @ ys @ [w]" by (simp add: to_back_def q remove1_append)
  consider "i = w" | "i \<in> set xs" | "i \<in> set ys" using assms(3) by (auto simp: q)
  then show ?thesis
  proof cases
    case 1
    with \<open>w \<notin> set xs\<close> \<open>w \<notin> set ys\<close> show ?thesis unfolding moved by (simp add: pos_append q)
  next
    case 2
    then have "pos xs i < length xs" by (rule pos_less)
    with 2 \<open>w \<notin> set xs\<close> show ?thesis unfolding moved by (auto simp: pos_append q)
  next
    case 3
    then have "i \<notin> set xs" "i \<noteq> w" using \<open>set xs \<inter> set ys = {}\<close> \<open>w \<notin> set ys\<close> by auto
    with 3 \<open>w \<notin> set xs\<close> show ?thesis unfolding moved by (auto simp: pos_append q)
  qed
qed

subsection \<open>The matrix and the queue\<close>

definition mx_square :: "nat \<Rightarrow> int list list \<Rightarrow> bool" where
  "mx_square n m \<longleftrightarrow> length m = n \<and> (\<forall>i<n. length (m ! i) = n)"

definition lrs_queue :: "nat list \<Rightarrow> mx_arbiter \<Rightarrow> bool" where
  "lrs_queue q a \<longleftrightarrow> distinct q \<and> set q = {..<a_size a} \<and> mx_square (a_size a) (mx_matrix a) \<and>
     (\<forall>i<a_size a. \<forall>j<a_size a. mx_matrix a ! i ! j \<noteq> 0 \<longleftrightarrow> pos q i < pos q j)"

lemma mx_put_square: "mx_square n m \<Longrightarrow> mx_square n (mx_put i j x m)"
  unfolding mx_square_def mx_put_def by (metis length_list_update nth_list_update_eq nth_list_update_neq)

lemma mx_put_nth:
  "mx_square n m \<Longrightarrow> i < n \<Longrightarrow> j < n \<Longrightarrow> k < n \<Longrightarrow> l < n \<Longrightarrow>
    mx_put i j x m ! k ! l = (if k = i \<and> l = j then x else m ! k ! l)"
  by (auto simp: mx_square_def mx_put_def nth_list_update)

abbreviation mx_demote :: "nat \<Rightarrow> nat \<Rightarrow> int list list \<Rightarrow> int list list" where
  "mx_demote sel i m \<equiv> (if sel \<noteq> i then mx_put i sel 1 (mx_put sel i 0 m) else m)"

lemma mx_demote_nth:
  assumes "mx_square n m" and "sel < n" and "i < n" and "k < n" and "l < n"
  shows "mx_demote sel i m ! k ! l =
    (if k = sel \<and> l = i \<and> l \<noteq> sel then 0 else if l = sel \<and> k = i \<and> k \<noteq> sel then 1 else m ! k ! l)"
  using assms mx_put_square [OF assms(1), of sel i 0] by (simp add: mx_put_nth)

lemma mx_update_loop:
  assumes "mx_square n m" and "sel < n" and "N \<le> n"
  shows "mx_square n (fold (mx_demote sel) [0..<N] m) \<and>
    (\<forall>k<n. \<forall>l<n. fold (mx_demote sel) [0..<N] m ! k ! l =
      (if k = sel \<and> l < N \<and> l \<noteq> sel then 0 else if l = sel \<and> k < N \<and> k \<noteq> sel then 1 else m ! k ! l))"
  using assms(3)
proof (induction N)
  case 0
  with assms show ?case by simp
next
  case (Suc N)
  define m' where "m' = fold (mx_demote sel) [0..<N] m"
  from Suc have m': "mx_square n m'" and nth: "\<forall>k<n. \<forall>l<n. m' ! k ! l =
      (if k = sel \<and> l < N \<and> l \<noteq> sel then 0 else if l = sel \<and> k < N \<and> k \<noteq> sel then 1 else m ! k ! l)"
    by (simp_all add: m'_def)
  have "N < n" using Suc.prems by simp
  have step: "fold (mx_demote sel) [0..<Suc N] m = mx_demote sel N m'" by (simp add: m'_def)
  have "mx_square n (mx_demote sel N m')" using m' by (simp add: mx_put_square)
  moreover have "mx_demote sel N m' ! k ! l =
      (if k = sel \<and> l < Suc N \<and> l \<noteq> sel then 0
       else if l = sel \<and> k < Suc N \<and> k \<noteq> sel then 1 else m ! k ! l)" if "k < n" "l < n" for k l
  proof -
    have "m' ! k ! l = (if k = sel \<and> l < N \<and> l \<noteq> sel then 0
        else if l = sel \<and> k < N \<and> k \<noteq> sel then 1 else m ! k ! l)" using nth that by blast
    then show ?thesis
      unfolding mx_demote_nth [OF m' assms(2) \<open>N < n\<close> that] less_Suc_eq
      by (cases "k = sel"; cases "l = sel"; simp)
  qed
  ultimately show ?case unfolding step by blast
qed

lemma lrs_init: "lrs_queue (rev [0..<n]) (Matrix_init n)"
  by (auto simp: lrs_queue_def Matrix_init_def arbiter_base.defs Arbiter_init_def mx_square_def
      pos_rev_upt)

lemma lrs_update:
  assumes "lrs_queue q a" and "w < a_size a"
  shows "lrs_queue (to_back w q) (a\<lparr>mx_matrix :=
    fold (mx_demote w) [0..<a_size a] (mx_matrix a)\<rparr>)"
proof -
  let ?m = "fold (mx_demote w) [0..<a_size a] (mx_matrix a)"
  from assms have q: "distinct q" "set q = {..<a_size a}" "w \<in> set q"
    "mx_square (a_size a) (mx_matrix a)"
    "\<forall>i<a_size a. \<forall>j<a_size a. mx_matrix a ! i ! j \<noteq> 0 \<longleftrightarrow> pos q i < pos q j"
    by (auto simp: lrs_queue_def)
  have len: "length q = a_size a" using q(1,2) distinct_card [of q] by simp
  from mx_update_loop [OF q(4) assms(2) le_refl] have m: "mx_square (a_size a) ?m"
    "\<forall>k<a_size a. \<forall>l<a_size a. ?m ! k ! l =
      (if k = w \<and> l \<noteq> w then 0 else if l = w \<and> k \<noteq> w then 1 else mx_matrix a ! k ! l)"
    by auto
  have "?m ! i ! j \<noteq> 0 \<longleftrightarrow> pos (to_back w q) i < pos (to_back w q) j"
    if "i < a_size a" "j < a_size a" for i j
  proof -
    have "i \<in> set q" "j \<in> set q" using that q(2) by auto
    moreover from this have "pos q i < a_size a" "pos q j < a_size a" using pos_less len by metis+
    moreover have "i \<noteq> w \<Longrightarrow> pos q i \<noteq> pos q w" "j \<noteq> w \<Longrightarrow> pos q j \<noteq> pos q w"
      using pos_inj calculation(1,2) q(3) by metis+
    moreover have "pos q w < a_size a" using pos_less [OF q(3)] len by simp
    ultimately show ?thesis
      using m(2) q(5) that q(1,3) len by (auto simp: pos_to_back)
  qed
  with m q show ?thesis
    by (auto simp: lrs_queue_def distinct_to_back set_to_back)
qed

subsection \<open>Operations\<close>

definition mx_ok :: "mx_arbiter \<Rightarrow> bool" where
  "mx_ok a \<longleftrightarrow> base_ok a \<and> (\<exists>q. lrs_queue q a)"

definition mx_asking :: "mx_arbiter \<Rightarrow> bool" where
  "mx_asking a \<longleftrightarrow> mx_ok a \<and> (a_num_reqs a = 0 \<longrightarrow> mx_last_req a = -1) \<and>
     (a_num_reqs a = 1 \<longrightarrow> 0 \<le> mx_last_req a \<and> base_reqs a (nat (mx_last_req a)) \<noteq> None)"

text \<open>The first input in the queue whose request has the highest priority.\<close>

definition top_pri :: "(nat \<rightharpoonup> int \<times> int) \<Rightarrow> nat \<Rightarrow> bool" where
  "top_pri rs i \<longleftrightarrow> (\<exists>l p. rs i = Some (l, p) \<and> (\<forall>j m p'. rs j = Some (m, p') \<longrightarrow> p' \<le> p))"

definition lrs_winner :: "nat list \<Rightarrow> (nat \<rightharpoonup> int \<times> int) \<Rightarrow> int" where
  "lrs_winner q rs = (case List.find (top_pri rs) q of None \<Rightarrow> -1 | Some i \<Rightarrow> int i)"

lemma lrs_same [simp]:
  "lrs_queue q (a\<lparr>a_selected := w\<rparr>) = lrs_queue q a"
  "lrs_queue q (a\<lparr>mx_last_req := l\<rparr>) = lrs_queue q a"
  "lrs_queue q (a\<lparr>a_num_reqs := n, a_request := r\<rparr>) = lrs_queue q a"
  by (simp_all add: lrs_queue_def)

lemma lrs_cong:
  "a_size a = a_size b \<Longrightarrow> mx_matrix a = mx_matrix b \<Longrightarrow> lrs_queue q a = lrs_queue q b"
  by (simp add: lrs_queue_def)

lemma Matrix_grant_iff:
  assumes "lrs_queue q a" and "i < a_size a"
  shows "Matrix_grant a i \<longleftrightarrow> top_pri (base_reqs a) i \<and>
    (\<forall>j. top_pri (base_reqs a) j \<longrightarrow> pos q i \<le> pos q j)"
proof -
  have m: "mx_matrix a ! j ! i \<noteq> 0 \<longleftrightarrow> pos q j < pos q i" if "j < a_size a" for j
    using assms that by (auto simp: lrs_queue_def)
  have r: "base_reqs a j = Some (l, p) \<longleftrightarrow> j < a_size a \<and> ae_valid (a_request a ! j) \<and>
      ae_id (a_request a ! j) = l \<and> ae_pri (a_request a ! j) = p" for j l p
    by (auto simp: base_reqs_def)
  have "Matrix_grant a i \<longleftrightarrow> ae_valid (a_request a ! i) \<and>
      (\<forall>j<a_size a. ae_valid (a_request a ! j) \<longrightarrow>
         ae_pri (a_request a ! j) < ae_pri (a_request a ! i) \<or>
         ae_pri (a_request a ! j) = ae_pri (a_request a ! i) \<and> pos q i \<le> pos q j)"
    using m by (auto simp: Matrix_grant_def list_ex_iff)
  also have "\<dots> \<longleftrightarrow> top_pri (base_reqs a) i \<and> (\<forall>j. top_pri (base_reqs a) j \<longrightarrow> pos q i \<le> pos q j)"
    (is "?L \<longleftrightarrow> ?R")
  proof
    assume ?L
    then show ?R using assms(2) by (auto simp: top_pri_def r) (metis leD)
  next
    assume R: ?R
    then have v: "ae_valid (a_request a ! i)" by (auto simp: top_pri_def r)
    have top: "ae_pri (a_request a ! j) \<le> ae_pri (a_request a ! i)"
      if "j < a_size a" "ae_valid (a_request a ! j)" for j
      using R that by (auto simp: top_pri_def r)
    have "top_pri (base_reqs a) j"
      if "j < a_size a" "ae_valid (a_request a ! j)"
        "ae_pri (a_request a ! j) = ae_pri (a_request a ! i)" for j
      using top that by (auto simp: top_pri_def r)
    with R v top show ?L by (metis order_le_less)
  qed
  finally show ?thesis .
qed

lemma lrs_winner_eqI:
  assumes "distinct q" and "i \<in> set q" and "P i" and "\<forall>j \<in> set q. P j \<longrightarrow> pos q i \<le> pos q j"
  shows "List.find P q = Some i"
  using assms
proof (induction q)
  case (Cons x q)
  then show ?case by (cases "x = i") (auto split: if_splits)
qed simp

lemma find_unique:
  "i \<in> set xs \<Longrightarrow> \<forall>j \<in> set xs. P j \<longleftrightarrow> j = i \<Longrightarrow> List.find P xs = Some i"
  by (induction xs) auto

lemma top_exists:
  assumes "finite (dom rs)" and "rs \<noteq> Map.empty"
  shows "\<exists>i. top_pri rs i"
proof -
  let ?P = "(\<lambda>j. snd (the (rs j))) ` dom rs"
  have "finite ?P" "?P \<noteq> {}" using assms by auto
  then have "Max ?P \<in> ?P" by (rule Max_in)
  then obtain i where i: "i \<in> dom rs" "Max ?P = snd (the (rs i))" by (rule imageE) simp
  have "p' \<le> snd (the (rs i))" if "rs j = Some (m, p')" for j m p'
  proof -
    from that have "p' \<in> ?P" by (force simp: dom_def image_iff)
    with \<open>finite ?P\<close> have "p' \<le> Max ?P" by (rule Max_ge)
    with i(2) show ?thesis by simp
  qed
  moreover from i(1) obtain l p where "rs i = Some (l, p)" by auto
  ultimately have "top_pri rs i" unfolding top_pri_def by fastforce
  then show ?thesis ..
qed

lemma top_first_exists:
  assumes "lrs_queue q a" and "base_reqs a \<noteq> Map.empty"
  obtains i where "i < a_size a" "top_pri (base_reqs a) i"
    "\<forall>j. top_pri (base_reqs a) j \<longrightarrow> pos q i \<le> pos q j"
proof -
  have ex: "\<exists>i. top_pri (base_reqs a) i" using assms(2) by (intro top_exists) auto
  then obtain i where i: "is_arg_min (pos q) (top_pri (base_reqs a)) i"
    using ex_is_arg_min_if_finite by (metis (no_types, lifting) ex_has_least_nat is_arg_min_linorder)
  then have "top_pri (base_reqs a) i" "\<forall>j. top_pri (base_reqs a) j \<longrightarrow> pos q i \<le> pos q j"
    by (auto simp: is_arg_min_linorder)
  moreover from this have "i < a_size a" by (intro base_in_range) (auto simp: top_pri_def)
  ultimately show ?thesis using that by blast
qed

lemma Matrix_find:
  assumes "lrs_queue q a"
  shows "(case List.find (Matrix_grant a) [0..<a_size a] of None \<Rightarrow> -1 | Some i \<Rightarrow> int i) =
    lrs_winner q (base_reqs a)"
proof (cases "base_reqs a = Map.empty")
  case True
  then have "\<not> top_pri (base_reqs a) i" for i by (simp add: top_pri_def)
  then have "List.find (top_pri (base_reqs a)) q = None"
    "List.find (Matrix_grant a) [0..<a_size a] = None"
    using Matrix_grant_iff [OF assms] by (auto simp: find_None_iff)
  then show ?thesis by (simp add: lrs_winner_def)
next
  case False
  with assms obtain i where i: "i < a_size a" "top_pri (base_reqs a) i"
    "\<forall>j. top_pri (base_reqs a) j \<longrightarrow> pos q i \<le> pos q j" by (rule top_first_exists)
  have q: "distinct q" "set q = {..<a_size a}" using assms by (auto simp: lrs_queue_def)
  have "List.find (top_pri (base_reqs a)) q = Some i"
    using i q by (intro lrs_winner_eqI) auto
  moreover have "List.find (Matrix_grant a) [0..<a_size a] = Some i"
  proof -
    have unique: "j = i" if "Matrix_grant a j" "j < a_size a" for j
    proof -
      from that Matrix_grant_iff [OF assms that(2)] i have "pos q j = pos q i" by (metis le_antisym)
      with i(1) that(2) q(2) show ?thesis by (intro pos_inj [of j q i]) auto
    qed
    have "Matrix_grant a i" using i Matrix_grant_iff [OF assms i(1)] by simp
    with unique have "\<forall>j \<in> set [0..<a_size a]. Matrix_grant a j \<longleftrightarrow> j = i" by auto
    then show ?thesis using i(1) by (intro find_unique) simp_all
  qed
  ultimately show ?thesis by (simp add: lrs_winner_def)
qed

lemma single_request:
  assumes "base_ok a" and "a_num_reqs a = 1" and "base_reqs a i \<noteq> None" and "base_reqs a j \<noteq> None"
  shows "i = j"
proof -
  from assms(1,2) have "card (dom (base_reqs a)) = 1" by (simp add: base_ok_def)
  then obtain k where "dom (base_reqs a) = {k}" by (auto simp: card_1_singleton_iff)
  with assms(3,4) show ?thesis by (metis domIff singletonD)
qed

text \<open>One request bypasses the search, with the same result.\<close>

lemma Matrix_arbitrate:
  assumes "mx_asking a" and q: "lrs_queue q a"
  shows "\<exists>t r. Matrix_Arbitrate a = Some (t, lrs_winner q (base_reqs a), r) \<and>
    t = a\<lparr>a_selected := lrs_winner q (base_reqs a)\<rparr> \<and> mx_ok t \<and>
    picks (base_reqs a) (lrs_winner q (base_reqs a)) r"
proof -
  let ?w = "lrs_winner q (base_reqs a)"
  have ok: "base_ok a" using assms(1) by (simp add: mx_asking_def mx_ok_def)
  show ?thesis
  proof (cases "base_reqs a = Map.empty")
    case True
    then have n: "a_num_reqs a = 0" using base_no_reqs [OF ok] by simp
    have "?w = -1" using True by (auto simp: lrs_winner_def find_None_iff top_pri_def split: option.splits)
    moreover have "base_ok (a\<lparr>a_selected := -1\<rparr>)"
      using ok n by (intro base_update_selected) (auto simp: base_ok_def)
    ultimately show ?thesis
      using n True assms by (auto simp: Matrix_Arbitrate_def Arbiter_Arbitrate_def mx_asking_def
          mx_ok_def picks_def assertion_def)
  next
    case False
    with q obtain i where i: "i < a_size a" "top_pri (base_reqs a) i"
      "\<forall>j. top_pri (base_reqs a) j \<longrightarrow> pos q i \<le> pos q j" by (rule top_first_exists)
    have qs: "distinct q" "set q = {..<a_size a}" using q by (auto simp: lrs_queue_def)
    then have w: "?w = int i"
      using i by (auto simp: lrs_winner_def lrs_winner_eqI [of q i])
    have n: "a_num_reqs a \<noteq> 0" using False base_no_reqs [OF ok] by simp
    have ri: "base_reqs a i \<noteq> None" using i(2) by (auto simp: top_pri_def)
    have "mx_last_req a = int i" if "a_num_reqs a < 2"
    proof -
      from that n have one: "a_num_reqs a = 1" by simp
      with assms(1) have "0 \<le> mx_last_req a" "base_reqs a (nat (mx_last_req a)) \<noteq> None"
        by (auto simp: mx_asking_def)
      with single_request [OF ok one this(2) ri] show ?thesis by simp
    qed
    then have sel: "(if a_num_reqs a < 2 then mx_last_req a
        else case List.find (Matrix_grant a) [0..<a_size a] of None \<Rightarrow> -1 | Some i \<Rightarrow> int i) = int i"
      using Matrix_find [OF q] w by simp
    have ok': "base_ok (a\<lparr>a_selected := int i\<rparr>)"
      using ok i(1) n by (intro base_update_selected) auto
    have "Matrix_Arbitrate a = Some (a\<lparr>a_selected := int i\<rparr>, int i, base_reqs a i)"
      unfolding Matrix_Arbitrate_def sel using base_Arbitrate [OF ok'] ri n by simp
    moreover have "picks (base_reqs a) (int i) (base_reqs a i)"
      using i(2) False by (auto simp: picks_def top_pri_def)
    moreover have "mx_ok (a\<lparr>a_selected := int i\<rparr>)" using ok' q by (auto simp: mx_ok_def)
    ultimately show ?thesis by (simp add: w)
  qed
qed

lemma mx_base_reqs [simp]:
  "base_reqs ((a::mx_arbiter)\<lparr>mx_last_req := l\<rparr>) = base_reqs a"
  "base_reqs ((a::mx_arbiter)\<lparr>mx_matrix := m\<rparr>) = base_reqs a"
  "base_ok ((a::mx_arbiter)\<lparr>mx_last_req := l\<rparr>) = base_ok a"
  "base_ok ((a::mx_arbiter)\<lparr>mx_matrix := m\<rparr>) = base_ok a"
  by (rule base_reqs_cong base_ok_cong; simp)+

lemma Matrix_add:
  assumes "mx_asking a" and "i < a_size a" and "base_reqs a i = None"
  shows "\<exists>t. Matrix_AddRequest i l p a = Some t \<and> mx_asking t \<and> a_size t = a_size a \<and>
    base_reqs t = (base_reqs a)(i \<mapsto> (l, p)) \<and> mx_matrix t = mx_matrix a"
proof -
  let ?a = "a\<lparr>mx_last_req := int i\<rparr>"
  have "base_ok ?a" "base_reqs ?a i = None" using assms by (auto simp: mx_asking_def mx_ok_def)
  from base_AddRequest [OF this(1) _ this(2), of l p] assms(2) obtain t
    where t: "Arbiter_AddRequest i l p ?a = Some t" "base_ok t"
      "base_reqs t = (base_reqs a)(i \<mapsto> (l, p))"
      "a_size t = a_size a" "mx_matrix t = mx_matrix a" "mx_last_req t = int i"
      "a_num_reqs t = a_num_reqs a + 1" by auto
  moreover have "mx_asking t"
    using t assms lrs_cong [OF t(4,5)] by (auto simp: mx_asking_def mx_ok_def)
  ultimately show ?thesis by (auto simp: Matrix_AddRequest_def)
qed

lemma Matrix_update:
  assumes "base_ok a" and "lrs_queue q a"
  shows "\<exists>t. Matrix_UpdateState a = Some t \<and> base_ok t \<and> a_size t = a_size a \<and>
    base_reqs t = base_reqs a \<and> a_selected t = a_selected a \<and>
    lrs_queue (if a_selected a = -1 then q else to_back (nat (a_selected a)) q) t"
proof (cases "a_selected a = -1")
  case True
  with assms show ?thesis by (auto simp: Matrix_UpdateState_def)
next
  case False
  with assms(1) have w: "nat (a_selected a) < a_size a" "a_selected a > -1"
    by (auto simp: base_ok_def)
  from lrs_update [OF assms(2) w(1)] show ?thesis
    using assms(1) False w(2) by (simp add: Matrix_UpdateState_def Let_def)
qed

lemma Matrix_clear:
  assumes "mx_ok a"
  shows "mx_asking (Matrix_Clear a) \<and> a_size (Matrix_Clear a) = a_size a \<and>
    base_reqs (Matrix_Clear a) = Map.empty \<and> mx_matrix (Matrix_Clear a) = mx_matrix a"
proof -
  have "base_ok (a\<lparr>mx_last_req := -1\<rparr>)" using assms by (simp add: mx_ok_def)
  note c = base_Clear [OF this]
  have "mx_matrix (Matrix_Clear a) = mx_matrix a" "mx_last_req (Matrix_Clear a) = -1"
    by (simp_all add: Matrix_Clear_def Arbiter_Clear_def)
  with c assms lrs_cong [of "Matrix_Clear a" a] show ?thesis
    by (auto simp: Matrix_Clear_def mx_asking_def mx_ok_def)
qed

lemma Matrix_init_asking:
  "mx_asking (Matrix_init n) \<and> a_size (Matrix_init n) = n \<and> base_reqs (Matrix_init n) = Map.empty"
proof -
  have "base_ok (Matrix_init n) \<and> base_reqs (Matrix_init n) = Map.empty"
    using base_init [of n] base_ok_cong [of "Matrix_init n" "Arbiter_init n"]
      base_reqs_cong [of "Matrix_init n" "Arbiter_init n"]
    by (simp add: Matrix_init_def arbiter_base.defs)
  with lrs_init [of n] show ?thesis
    by (auto simp: mx_asking_def mx_ok_def) (auto simp: Matrix_init_def arbiter_base.defs Arbiter_init_def)
qed

subsection \<open>Fairness\<close>

definition mx_rank :: "mx_arbiter \<Rightarrow> nat \<Rightarrow> nat" where
  "mx_rank a i = card {j. j < a_size a \<and> mx_matrix a ! j ! i \<noteq> 0}"

lemma card_before:
  assumes "distinct q" and "k \<le> length q"
  shows "card {j \<in> set q. pos q j < k} = k"
proof -
  have inj: "inj_on (pos q) (set q)" by (auto intro: inj_onI pos_inj)
  have "pos q ` set q \<subseteq> {..<length q}" using pos_less by auto
  then have img: "pos q ` set q = {..<length q}"
    using card_image [OF inj] distinct_card [OF assms(1)] by (intro card_subset_eq) auto
  have "pos q ` {j \<in> set q. pos q j < k} = {..<k}"
  proof
    show "{..<k} \<subseteq> pos q ` {j \<in> set q. pos q j < k}"
    proof
      fix x assume "x \<in> {..<k}"
      with assms(2) img have "x \<in> pos q ` set q" by auto
      with \<open>x \<in> {..<k}\<close> show "x \<in> pos q ` {j \<in> set q. pos q j < k}" by auto
    qed
  qed auto
  moreover have "inj_on (pos q) {j \<in> set q. pos q j < k}" using inj by (rule inj_on_subset) auto
  ultimately show ?thesis by (metis card_image card_lessThan)
qed

lemma mx_rank_pos:
  assumes "lrs_queue q a" and "i < a_size a"
  shows "mx_rank a i = pos q i"
proof -
  from assms have "{j. j < a_size a \<and> mx_matrix a ! j ! i \<noteq> 0} = {j \<in> set q. pos q j < pos q i}"
    by (auto simp: lrs_queue_def)
  moreover have "i \<in> set q" "distinct q" using assms by (auto simp: lrs_queue_def)
  ultimately show ?thesis
    using card_before [of q "pos q i"] pos_less [of i q] by (simp add: mx_rank_def)
qed

lemma mx_asking_ok: "mx_asking a \<Longrightarrow> mx_ok a"
  by (simp add: mx_asking_def)

interpretation mx: fair_arbiter MatrixArbiter a_size base_reqs mx_asking mx_ok mx_rank
proof
  fix s :: mx_arbiter and i j l p t w r u p'
  show "mx_asking s \<Longrightarrow> i < a_size s \<Longrightarrow> base_reqs s i = None \<Longrightarrow>
    \<exists>t. arb_AddRequest MatrixArbiter i l p s = Some t \<and> mx_asking t \<and> a_size t = a_size s \<and>
      base_reqs t = (base_reqs s)(i \<mapsto> (l, p))"
    using Matrix_add by (force simp: MatrixArbiter_def)
  show "mx_asking s \<Longrightarrow> \<exists>t w r. arb_Arbitrate MatrixArbiter s = Some (t, w, r) \<and> mx_ok t \<and>
    a_size t = a_size s \<and> base_reqs t = base_reqs s \<and>
    arb_LastWinner MatrixArbiter t = w \<and> picks (base_reqs s) w r"
    using Matrix_arbitrate by (fastforce simp: MatrixArbiter_def mx_asking_def mx_ok_def)
  show "mx_ok s \<Longrightarrow> \<exists>t. arb_UpdateState MatrixArbiter s = Some t \<and> mx_ok t \<and>
    a_size t = a_size s \<and> base_reqs t = base_reqs s \<and>
    arb_LastWinner MatrixArbiter t = arb_LastWinner MatrixArbiter s"
    using Matrix_update by (force simp: MatrixArbiter_def mx_ok_def)
  show "mx_asking s \<or> mx_ok s \<Longrightarrow> mx_asking (arb_Clear MatrixArbiter s) \<and>
    a_size (arb_Clear MatrixArbiter s) = a_size s \<and>
    base_reqs (arb_Clear MatrixArbiter s) = Map.empty"
    using Matrix_clear mx_asking_ok by (force simp: MatrixArbiter_def)
  show "mx_asking s \<or> mx_ok s \<Longrightarrow> arb_num_reqs MatrixArbiter s = 0 \<longleftrightarrow> base_reqs s = Map.empty"
    using base_no_reqs [of s] by (auto simp: MatrixArbiter_def mx_asking_def mx_ok_def)
  show "base_reqs s i \<noteq> None \<Longrightarrow> i < a_size s" by (rule base_in_range)
  show "mx_rank s i < a_size s" if "mx_asking s \<or> mx_ok s" "i < a_size s"
  proof -
    from that obtain q where q: "lrs_queue q s" by (auto simp: mx_asking_def mx_ok_def)
    then have "length q = a_size s" "i \<in> set q"
      using that(2) distinct_card [of q] by (auto simp: lrs_queue_def)
    with mx_rank_pos [OF q that(2)] pos_less show ?thesis by metis
  qed
  show "mx_asking s \<Longrightarrow> j < a_size s \<Longrightarrow> arb_AddRequest MatrixArbiter j l p s = Some t \<Longrightarrow>
    i < a_size s \<Longrightarrow> mx_rank t i = mx_rank s i"
    by (auto simp: MatrixArbiter_def mx_rank_def Matrix_AddRequest_def Arbiter_AddRequest_def)
  show "mx_asking s \<Longrightarrow> arb_Arbitrate MatrixArbiter s = Some (t, w, r') \<Longrightarrow>
    i < a_size s \<Longrightarrow> mx_rank t i = mx_rank s i" for r'
    using Matrix_arbitrate by (fastforce simp: MatrixArbiter_def mx_rank_def mx_asking_def mx_ok_def)
  show "mx_asking s \<or> mx_ok s \<Longrightarrow> i < a_size s \<Longrightarrow>
    mx_rank (arb_Clear MatrixArbiter s) i = mx_rank s i"
    using Matrix_clear mx_asking_ok by (force simp: MatrixArbiter_def mx_rank_def)
  show "mx_rank u i < mx_rank s i"
    if "mx_asking s" "arb_Arbitrate MatrixArbiter s = Some (t, w, Some r)"
      "arb_UpdateState MatrixArbiter t = Some u" "base_reqs s i = Some p'" "snd p' = snd r"
      "w \<noteq> int i"
  proof -
    from that(1) obtain q where q: "lrs_queue q s" by (auto simp: mx_asking_def mx_ok_def)
    have i: "i < a_size s" using that(4) by (intro base_in_range) simp
    have ne: "base_reqs s \<noteq> Map.empty" using that(4) by auto
    with q obtain k where k: "k < a_size s" "top_pri (base_reqs s) k"
      "\<forall>j. top_pri (base_reqs s) j \<longrightarrow> pos q k \<le> pos q j" by (rule top_first_exists)
    have qs: "distinct q" "set q = {..<a_size s}" using q by (auto simp: lrs_queue_def)
    then have w: "lrs_winner q (base_reqs s) = int k"
      using k by (auto simp: lrs_winner_def lrs_winner_eqI [of q k])
    from Matrix_arbitrate [OF that(1) q] that(2) w
    have t: "w = int k" "t = s\<lparr>a_selected := int k\<rparr>" "mx_ok t" "base_reqs s k = Some r"
      by (auto simp: MatrixArbiter_def picks_def split: if_splits)
    have "lrs_queue q t" using q t(2) by simp
    from Matrix_update [OF _ this] t(3) that(3) t(2)
    have u: "lrs_queue (to_back k q) u" "a_size u = a_size s"
      by (auto simp: MatrixArbiter_def mx_ok_def)
    have "top_pri (base_reqs s) i"
      using k(2) t(4) that(4,5) by (cases p'; cases r) (auto simp: top_pri_def)
    then have "pos q k \<le> pos q i" using k(3) by blast
    moreover have "pos q k \<noteq> pos q i" using pos_inj [of k q i] that(6) t(1) k(1) i qs(2) by auto
    ultimately have "pos q k < pos q i" by simp
    moreover have "i \<in> set q" "k \<in> set q" using i k(1) qs(2) by auto
    ultimately have "pos (to_back k q) i < pos q i" using qs(1) by (auto simp: pos_to_back)
    with mx_rank_pos [OF u(1)] mx_rank_pos [OF q i] i u(2) show ?thesis by simp
  qed
qed

subsection \<open>Refinement\<close>

text \<open>The abstract machine: a queue of the inputs.\<close>

definition lrs_round :: "(nat \<times> int \<times> int) list \<Rightarrow> nat list \<Rightarrow> nat list \<times> int" where
  "lrs_round rs q =
     (let w = lrs_winner q (map_of rs) in (if w = -1 then q else to_back (nat w) q, w))"

fun lrs_rounds :: "(nat \<times> int \<times> int) list list \<Rightarrow> nat list \<Rightarrow> nat list \<times> int list" where
  "lrs_rounds [] q = (q, [])"
| "lrs_rounds (rs # rss) q =
     (let (q1, w) = lrs_round rs q; (q2, ws) = lrs_rounds rss q1 in (q2, w # ws))"

lemma matrix_round_refines:
  assumes "mx_ok a" and "lrs_queue q a" and "legal_requests (a_size a) rs"
  shows "\<exists>u. arb_round MatrixArbiter rs a = Some (u, snd (lrs_round rs q)) \<and> mx_ok u \<and>
    a_size u = a_size a \<and> lrs_queue (fst (lrs_round rs q)) u"
proof -
  have c: "mx_asking (Matrix_Clear a)" "a_size (Matrix_Clear a) = a_size a"
    "base_reqs (Matrix_Clear a) = Map.empty" "lrs_queue q (Matrix_Clear a)"
    using Matrix_clear [OF assms(1)] lrs_cong [of "Matrix_Clear a" a q] assms(2) by auto
  have ask: "lrs_queue q b" if "arb_ask MatrixArbiter rs s = Some b" "lrs_queue q s" for s b rs
    using that
  proof (induction rs arbitrary: s)
    case (Cons r rs)
    then obtain v where v: "Matrix_AddRequest (fst r) (fst (snd r)) (snd (snd r)) s = Some v"
      "arb_ask MatrixArbiter rs v = Some b"
      by (auto simp: arb_ask_def MatrixArbiter_def split: option.splits)
    from v(1) have "a_size v = a_size s" "mx_matrix v = mx_matrix s"
      by (auto simp: Matrix_AddRequest_def Arbiter_AddRequest_def)
    then have "lrs_queue q v" using Cons.prems(2) lrs_cong [of v s q] by simp
    with Cons.IH v(2) show ?case by blast
  qed (simp add: arb_ask_def)
  from mx.ask [OF c(1)] c(2,3) assms(3) obtain b
    where b: "arb_ask MatrixArbiter rs (Matrix_Clear a) = Some b" "mx_asking b"
      "a_size b = a_size a" "base_reqs b = map_of rs"
    by (auto simp: MatrixArbiter_def)
  note qb = ask [OF b(1) c(4)]
  let ?w = "lrs_winner q (map_of rs)"
  from Matrix_arbitrate [OF b(2) qb] b(3,4) obtain t r
    where t: "Matrix_Arbitrate b = Some (t, ?w, r)" "t = b\<lparr>a_selected := ?w\<rparr>" "mx_ok t" by auto
  have "lrs_queue q t" and sel: "a_selected t = ?w" using qb t(2) by simp_all
  from Matrix_update [OF _ this(1), unfolded sel] t(3) obtain u where u: "Matrix_UpdateState t = Some u"
    "base_ok u" "a_size u = a_size t" "lrs_queue (if ?w = -1 then q else to_back (nat ?w) q) u"
    by (auto simp: mx_ok_def)
  have "arb_round MatrixArbiter rs a = Some (u, ?w)"
    using b(1) t(1) u(1) by (simp add: arb_round_def MatrixArbiter_def)
  then show ?thesis using u t(2) b(3) by (auto simp: lrs_round_def Let_def mx_ok_def)
qed

text \<open>C33: the matrix arbiter refines a queue of its inputs, least recently served first. Over any
  sequence of rounds it picks exactly the winners the queue machine picks, namely in each round the
  first input in the queue whose request has the highest priority (none if there is no request),
  which then goes to the end of the queue; the queue starts with the highest input in front, and
  the precedence matrix describes the order of the queue throughout.\<close>

theorem matrix_refines_queue:
  assumes "\<forall>rs \<in> set rss. legal_requests n rs"
  shows "\<exists>u. arb_rounds MatrixArbiter rss (Matrix_init n) =
      Some (u, snd (lrs_rounds rss (rev [0..<n]))) \<and>
    lrs_queue (fst (lrs_rounds rss (rev [0..<n]))) u"
proof -
  have "\<exists>u. arb_rounds MatrixArbiter rss a = Some (u, snd (lrs_rounds rss q)) \<and>
    lrs_queue (fst (lrs_rounds rss q)) u"
    if "mx_ok a" "lrs_queue q a" "a_size a = n" "\<forall>rs \<in> set rss. legal_requests n rs" for a q rss
    using that
  proof (induction rss arbitrary: a q)
    case (Cons rs rss)
    from matrix_round_refines [OF Cons.prems(1,2), of rs] Cons.prems(3,4) obtain u
      where "arb_round MatrixArbiter rs a = Some (u, snd (lrs_round rs q))" "mx_ok u"
        "a_size u = n" "lrs_queue (fst (lrs_round rs q)) u" by auto
    with Cons.IH [of u "fst (lrs_round rs q)"] Cons.prems(4) show ?case
      by (auto split: prod.splits)
  qed simp
  from this [OF mx_asking_ok lrs_init _ assms] Matrix_init_asking [of n] show ?thesis by blast
qed

lemma matrix_refines_queue_witness:
  "\<exists>u. arb_rounds MatrixArbiter [[(0, 1, 5), (1, 2, 5)], [(0, 1, 5), (1, 2, 5), (2, 3, 4)]]
      (Matrix_init 3) = Some (u, [1, 0]) \<and> lrs_queue [2, 1, 0] u"
proof -
  let ?r1 = "[(0, 1, 5), (1, 2, 5)] :: (nat \<times> int \<times> int) list"
  let ?r2 = "[(0, 1, 5), (1, 2, 5), (2, 3, 4)] :: (nat \<times> int \<times> int) list"
  have w: "lrs_winner [2, 1, 0] (map_of ?r1) = 1" "lrs_winner [2, 0, 1] (map_of ?r2) = 0"
    by (auto simp: lrs_winner_def top_pri_def intro!: exI [of _ "0::nat"])
  have "lrs_round ?r1 [2, 1, 0] = ([2, 0, 1], 1)" "lrs_round ?r2 [2, 0, 1] = ([2, 1, 0], 0)"
    unfolding lrs_round_def Let_def w by (simp_all add: to_back_def)
  moreover have "rev [0..<3] = [2, 1, 0::nat]" by (simp add: upt_rec)
  ultimately have "lrs_rounds [?r1, ?r2] (rev [0..<3]) = ([2, 1, 0], [1, 0])"
    by (simp only: lrs_rounds.simps) simp
  with matrix_refines_queue [of "[?r1, ?r2]" 3] show ?thesis by (simp add: legal_requests_def)
qed

end
