(* ===== verification/Tree_Fairness.thy ===== *)
theory Tree_Fairness
  imports Round_Robin Matrix_Precedence
begin

text \<open>
  A tree of arbiters (src/booksim2/src/arbiters/tree_arb.cpp) is a fair arbiter whenever the arbiters
  it is built of are: the contract is inherited by a sublocale, and interpreted on trees of
  round-robin and of matrix arbiters.
\<close>

subsection \<open>Well-formed trees\<close>

text \<open>The requests of group \<open>g\<close>.\<close>

definition group_view :: "nat \<Rightarrow> nat \<Rightarrow> (nat \<rightharpoonup> 'r) \<Rightarrow> nat \<rightharpoonup> 'r" where
  "group_view gs g rs k = (if k < gs then rs (g * gs + k) else None)"

definition tree_shape ::
  "('s \<Rightarrow> nat) \<Rightarrow> ('s \<Rightarrow> nat \<rightharpoonup> int \<times> int) \<Rightarrow> 's tree_arbiter \<Rightarrow> bool" where
  "tree_shape width reqs a \<longleftrightarrow> base_ok a \<and>
     a_size a = length (t_groups a) * t_group_size a \<and>
     length (t_group_reqs a) = length (t_groups a) \<and> width (t_global a) = length (t_groups a) \<and>
     (\<forall>g<length (t_groups a). width (t_groups a ! g) = t_group_size a \<and>
        reqs (t_groups a ! g) = group_view (t_group_size a) g (base_reqs a) \<and>
        (t_group_reqs a ! g = 0 \<longleftrightarrow> reqs (t_groups a ! g) = Map.empty))"

definition tree_asking ::
  "('s \<Rightarrow> nat) \<Rightarrow> ('s \<Rightarrow> nat \<rightharpoonup> int \<times> int) \<Rightarrow> ('s \<Rightarrow> bool) \<Rightarrow> 's tree_arbiter \<Rightarrow> bool" where
  "tree_asking width reqs asking a \<longleftrightarrow> tree_shape width reqs a \<and>
     (\<forall>g<length (t_groups a). asking (t_groups a ! g)) \<and>
     asking (t_global a) \<and> reqs (t_global a) = Map.empty"

definition tree_decided ::
  "'s arbiter_class \<Rightarrow> ('s \<Rightarrow> nat) \<Rightarrow> ('s \<Rightarrow> nat \<rightharpoonup> int \<times> int) \<Rightarrow> ('s \<Rightarrow> bool) \<Rightarrow> ('s \<Rightarrow> bool)
     \<Rightarrow> 's tree_arbiter \<Rightarrow> bool" where
  "tree_decided C width reqs asking decided a \<longleftrightarrow>
     (if a_num_reqs a = 0 then tree_asking width reqs asking a
      else tree_shape width reqs a \<and>
        (\<forall>g<length (t_groups a). asking (t_groups a ! g) \<or> decided (t_groups a ! g)) \<and>
        decided (t_global a) \<and>
        (\<exists>g<length (t_groups a). arb_LastWinner C (t_global a) = int g \<and> decided (t_groups a ! g)))"

definition tree_rank :: "('s \<Rightarrow> nat \<Rightarrow> nat) \<Rightarrow> 's tree_arbiter \<Rightarrow> nat \<Rightarrow> nat" where
  "tree_rank rank a i =
     rank (t_groups a ! (i div t_group_size a)) (i mod t_group_size a) * length (t_groups a) +
     rank (t_global a) (i div t_group_size a)"

lemma tree_base_fields [simp]:
  "base_reqs ((a::'s tree_arbiter)\<lparr>t_groups := x\<rparr>) = base_reqs a"
  "base_reqs ((a::'s tree_arbiter)\<lparr>t_global := y\<rparr>) = base_reqs a"
  "base_reqs ((a::'s tree_arbiter)\<lparr>t_group_reqs := z\<rparr>) = base_reqs a"
  "base_ok ((a::'s tree_arbiter)\<lparr>t_groups := x\<rparr>) = base_ok a"
  "base_ok ((a::'s tree_arbiter)\<lparr>t_global := y\<rparr>) = base_ok a"
  "base_ok ((a::'s tree_arbiter)\<lparr>t_group_reqs := z\<rparr>) = base_ok a"
  by (rule base_reqs_cong base_ok_cong; simp)+

lemma group_index:
  fixes i :: nat
  assumes "i < G * gs"
  shows "i div gs < G" and "i mod gs < gs" and "i div gs * gs + i mod gs = i" and "0 < gs"
proof -
  show "0 < gs" using assms by (cases gs) auto
  then show "i mod gs < gs" by simp
  show "i div gs < G" using assms by (simp add: less_mult_imp_div_less)
qed simp

lemma group_index_back: "k < gs \<Longrightarrow> (g * gs + k) div gs = g \<and> (g * gs + k) mod gs = (k::nat)"
  by simp

lemma group_index_less: "g < G \<Longrightarrow> k < gs \<Longrightarrow> g * gs + k < G * (gs::nat)"
proof -
  assume "g < G" "k < gs"
  then have "g * gs + k < Suc g * gs" by simp
  also have "\<dots> \<le> G * gs" using \<open>g < G\<close> by (intro mult_le_mono1) simp
  finally show ?thesis .
qed

lemma group_view_upd:
  assumes "i < G * gs"
  shows "group_view gs g (rs(i \<mapsto> v)) =
    (if g = i div gs then (group_view gs g rs)(i mod gs \<mapsto> v) else group_view gs g rs)"
proof
  fix k
  note gi = group_index [OF assms]
  show "group_view gs g (rs(i \<mapsto> v)) k =
    (if g = i div gs then (group_view gs g rs)(i mod gs \<mapsto> v) else group_view gs g rs) k"
  proof (cases "k < gs \<and> g * gs + k = i")
    case True
    then have "g = i div gs" "k = i mod gs" using group_index_back [of k gs g] by auto
    with True show ?thesis using gi by (simp add: group_view_def)
  next
    case False
    then have "\<not> (g = i div gs \<and> k = i mod gs)" using gi(2,3) by auto
    with False show ?thesis by (auto simp: group_view_def)
  qed
qed

lemma group_view_empty [simp]: "group_view gs g Map.empty = Map.empty"
  by (simp add: group_view_def fun_eq_iff)

locale arbiter_tree = fair_arbiter C width reqs asking decided rank
  for C :: "'s arbiter_class" and width reqs asking decided rank
begin

lemma tree_add:
  assumes a: "tree_asking width reqs asking a" and i: "i < a_size a" and free: "base_reqs a i = None"
  shows "\<exists>t. Tree_AddRequest C i l p a = Some t \<and> tree_asking width reqs asking t \<and>
    a_size t = a_size a \<and> base_reqs t = (base_reqs a)(i \<mapsto> (l, p)) \<and>
    (\<forall>j < a_size a. tree_rank rank t j = tree_rank rank a j)"
proof -
  let ?gs = "t_group_size a" and ?G = "length (t_groups a)"
  let ?g = "i div ?gs" and ?k = "i mod ?gs"
  from a have shape: "tree_shape width reqs a" by (simp add: tree_asking_def)
  then have size: "a_size a = ?G * ?gs" and ok: "base_ok a" by (auto simp: tree_shape_def)
  note gi = group_index [OF i [unfolded size]]
  from base_AddRequest [OF ok i free, of l p] obtain b where b: "Arbiter_AddRequest i l p a = Some b"
    "base_ok b" "base_reqs b = (base_reqs a)(i \<mapsto> (l, p))" "t_groups b = t_groups a"
    "t_global b = t_global a" "t_group_reqs b = t_group_reqs a" "t_group_size b = ?gs"
    "a_size b = a_size a" by auto
  have "asking (t_groups a ! ?g)" "width (t_groups a ! ?g) = ?gs"
    "reqs (t_groups a ! ?g) = group_view ?gs ?g (base_reqs a)"
    using a gi(1) by (auto simp: tree_asking_def tree_shape_def)
  moreover from this have "reqs (t_groups a ! ?g) ?k = None"
    using free gi(3) by (simp add: group_view_def)
  ultimately obtain h where h: "arb_AddRequest C ?k l p (t_groups a ! ?g) = Some h" "asking h"
    "width h = ?gs" "reqs h = (group_view ?gs ?g (base_reqs a))(?k \<mapsto> (l, p))"
    "\<forall>j < ?gs. rank h j = rank (t_groups a ! ?g) j"
    using add [of "t_groups a ! ?g" ?k l p] rank_add [of "t_groups a ! ?g" ?k l p] gi(2) by auto
  let ?t = "b\<lparr>t_groups := (t_groups a)[?g := h],
    t_group_reqs := (t_group_reqs a)[?g := t_group_reqs a ! ?g + 1]\<rparr>"
  have t: "Tree_AddRequest C i l p a = Some ?t"
    using b h(1) by (simp add: Tree_AddRequest_def Let_def)
  have reqs_t: "base_reqs ?t = (base_reqs a)(i \<mapsto> (l, p))" using b(3) by simp
  have "tree_shape width reqs ?t"
    unfolding tree_shape_def reqs_t
    using shape b(2) h(3,4) gi(1) size
    by (auto simp: tree_shape_def b(4-8) nth_list_update group_view_upd [OF i [unfolded size]])
  moreover have "\<forall>g<?G. asking ((t_groups a)[?g := h] ! g)"
    using a h(2) gi(1) by (auto simp: tree_asking_def nth_list_update)
  ultimately have "tree_asking width reqs asking ?t"
    using a by (simp add: tree_asking_def b)
  moreover have "tree_rank rank ?t j = tree_rank rank a j" if "j < a_size a" for j
    using h(5) gi(1) group_index(2) [OF that [unfolded size]]
    by (cases "j div ?gs = ?g") (simp_all add: tree_rank_def b)
  ultimately show ?thesis using t reqs_t b(8) by auto
qed

text \<open>The loop of \<open>Arbitrate\<close> after \<open>N\<close> groups.\<close>

definition asked_groups :: "nat \<Rightarrow> 's tree_arbiter \<Rightarrow> 's list \<Rightarrow> 's \<Rightarrow> bool" where
  "asked_groups N a hs gl \<longleftrightarrow> length hs = length (t_groups a) \<and> asking gl \<and>
     width gl = length (t_groups a) \<and>
     (\<forall>j<length (t_groups a). rank gl j = rank (t_global a) j) \<and>
     (\<forall>g<length (t_groups a). width (hs ! g) = t_group_size a \<and>
        reqs (hs ! g) = reqs (t_groups a ! g) \<and>
        (\<forall>j<t_group_size a. rank (hs ! g) j = rank (t_groups a ! g) j) \<and>
        (if g < N \<and> t_group_reqs a ! g \<noteq> 0
         then decided (hs ! g) \<and> (\<exists>r. arb_Arbitrate C (t_groups a ! g) =
              Some (hs ! g, arb_LastWinner C (hs ! g), Some r) \<and> picks (reqs (t_groups a ! g)) (arb_LastWinner C (hs ! g)) (Some r)
            \<and> reqs gl g = Some r)
         else hs ! g = t_groups a ! g \<and> reqs gl g = None))"

lemma ask_groups:
  assumes a: "tree_asking width reqs asking a" and "N \<le> length (t_groups a)"
  shows "\<exists>hs gl. foldM (Tree_ask_group C) [0..<N] a = Some (a\<lparr>t_groups := hs, t_global := gl\<rparr>) \<and>
    asked_groups N a hs gl"
  using assms(2)
proof (induction N)
  case 0
  then show ?case using a
    by (auto simp: asked_groups_def tree_asking_def tree_shape_def intro!: exI [of _ "t_groups a"]
        exI [of _ "t_global a"])
next
  case (Suc N)
  then obtain hs gl where fold: "foldM (Tree_ask_group C) [0..<N] a =
      Some (a\<lparr>t_groups := hs, t_global := gl\<rparr>)" and inv: "asked_groups N a hs gl" by auto
  let ?b = "a\<lparr>t_groups := hs, t_global := gl\<rparr>"
  have N: "N < length (t_groups a)" using Suc.prems by simp
  have g: "hs ! N = t_groups a ! N" "reqs gl N = None" "length hs = length (t_groups a)"
    "asking gl" "width gl = length (t_groups a)"
    using inv N by (auto simp: asked_groups_def)
  have shape: "tree_shape width reqs a" "asking (t_groups a ! N)"
    using a N by (auto simp: tree_asking_def)
  show ?case
  proof (cases "t_group_reqs a ! N = 0")
    case True
    then have "Tree_ask_group C N ?b = Some ?b" by (simp add: Tree_ask_group_def)
    moreover have "asked_groups (Suc N) a hs gl"
      using inv True N unfolding asked_groups_def by (metis less_Suc_eq)
    ultimately show ?thesis using fold by (auto simp: foldM_append)
  next
    case False
    with shape N have ne: "reqs (t_groups a ! N) \<noteq> Map.empty" by (auto simp: tree_shape_def)
    from arbitrate [OF shape(2)] obtain h w r' where h: "arb_Arbitrate C (t_groups a ! N) = Some (h, w, r')"
      "decided h" "width h = width (t_groups a ! N)" "reqs h = reqs (t_groups a ! N)"
      "arb_LastWinner C h = w" "picks (reqs (t_groups a ! N)) w r'" by blast
    from h(6) ne obtain i p where r: "r' = Some (i, p)" by (auto simp: picks_def)
    from add [OF g(4) _ g(2), of i p] N g(5) obtain gl'
      where gl': "arb_AddRequest C N i p gl = Some gl'" "asking gl'" "width gl' = width gl"
        "reqs gl' = (reqs gl)(N \<mapsto> (i, p))" by auto
    have rank_gl: "rank gl' j = rank gl j" if "j < length (t_groups a)" for j
      using rank_add [OF g(4) _ gl'(1)] N g(5) that by simp
    have rank_h: "rank h j = rank (t_groups a ! N) j" if "j < t_group_size a" for j
      using rank_arbitrate [OF shape(2) h(1)] shape(1) N that by (simp add: tree_shape_def)
    have "Tree_ask_group C N ?b = Some (a\<lparr>t_groups := hs[N := h], t_global := gl'\<rparr>)"
      using False g(1) h(1) r gl'(1) by (simp add: Tree_ask_group_def)
    moreover have "asked_groups (Suc N) a (hs[N := h]) gl'"
      unfolding asked_groups_def
    proof (intro conjI allI impI)
      fix j assume "j < length (t_groups a)"
      then show "rank gl' j = rank (t_global a) j" using inv rank_gl by (simp add: asked_groups_def)
    next
      fix k assume k: "k < length (t_groups a)"
      have wN: "width (t_groups a ! N) = t_group_size a" using shape(1) N by (simp add: tree_shape_def)
      show "width (hs[N := h] ! k) = t_group_size a" "reqs (hs[N := h] ! k) = reqs (t_groups a ! k)"
        using inv k N h(3,4) wN by (auto simp: asked_groups_def nth_list_update)
      show "rank (hs[N := h] ! k) j = rank (t_groups a ! k) j" if "j < t_group_size a" for j
        using inv k N rank_h that by (auto simp: asked_groups_def nth_list_update)
      show "if k < Suc N \<and> t_group_reqs a ! k \<noteq> 0
        then decided (hs[N := h] ! k) \<and> (\<exists>r. arb_Arbitrate C (t_groups a ! k) =
          Some (hs[N := h] ! k, arb_LastWinner C (hs[N := h] ! k), Some r) \<and> picks (reqs (t_groups a ! k))
          (arb_LastWinner C (hs[N := h] ! k)) (Some r) \<and> reqs gl' k = Some r)
        else hs[N := h] ! k = t_groups a ! k \<and> reqs gl' k = None"
      proof (cases "k = N")
        case True
        with False g(3) N h r gl'(4) show ?thesis by simp
      next
        case False
        then have "k < Suc N \<longleftrightarrow> k < N" "hs[N := h] ! k = hs ! k" "reqs gl' k = reqs gl k"
          using gl'(4) by auto
        moreover have "if k < N \<and> t_group_reqs a ! k \<noteq> 0
          then decided (hs ! k) \<and> (\<exists>r. arb_Arbitrate C (t_groups a ! k) =
            Some (hs ! k, arb_LastWinner C (hs ! k), Some r) \<and> picks (reqs (t_groups a ! k)) (arb_LastWinner C (hs ! k)) (Some r)
            \<and> reqs gl k = Some r)
          else hs ! k = t_groups a ! k \<and> reqs gl k = None"
          using inv k unfolding asked_groups_def by blast
        ultimately show ?thesis by (simp only:)
      qed
    qed (use gl' g in auto)
    ultimately show ?thesis using fold by (auto simp: foldM_append)
  qed
qed

text \<open>What an asked group's arbiter did.\<close>

lemma ask_one:
  assumes "tree_asking width reqs asking a" and "g < length (t_groups a)"
    and "t_group_reqs a ! g \<noteq> 0" and "asked_groups (length (t_groups a)) a hs gl"
  shows "\<exists>r. arb_Arbitrate C (t_groups a ! g) = Some (hs ! g, arb_LastWinner C (hs ! g), Some r) \<and>
    picks (reqs (t_groups a ! g)) (arb_LastWinner C (hs ! g)) (Some r)"
  using assms unfolding asked_groups_def by (metis (no_types, lifting))

lemma tree_arbitrate:
  assumes a: "tree_asking width reqs asking a" and n: "a_num_reqs a \<noteq> 0"
  shows "\<exists>hs gl gl' g k x. asked_groups (length (t_groups a)) a hs gl \<and>
    arb_Arbitrate C gl = Some (gl', int g, Some x) \<and> g < length (t_groups a) \<and>
    k < t_group_size a \<and> arb_LastWinner C (hs ! g) = int k \<and>
    Tree_Arbitrate C a = Some (a\<lparr>t_groups := hs, t_global := gl',
      a_selected := int (g * t_group_size a + k)\<rparr>, int (g * t_group_size a + k), Some x) \<and>
    decided gl' \<and> decided (hs ! g) \<and> width gl' = length (t_groups a) \<and>
    arb_LastWinner C gl' = int g \<and>
    picks (reqs (t_groups a ! g)) (int k) (Some x) \<and>
    picks (base_reqs a) (int (g * t_group_size a + k)) (Some x)"
proof -
  let ?gs = "t_group_size a" and ?G = "length (t_groups a)"
  have shape: "tree_shape width reqs a" using a by (simp add: tree_asking_def)
  then have ok: "base_ok a" and size: "a_size a = ?G * ?gs" by (auto simp: tree_shape_def)
  from ask_groups [OF a le_refl] obtain hs gl where fold: "foldM (Tree_ask_group C) [0..<?G] a =
      Some (a\<lparr>t_groups := hs, t_global := gl\<rparr>)" and inv: "asked_groups ?G a hs gl" by auto
  have group: "reqs (t_groups a ! g) = group_view ?gs g (base_reqs a)"
    "t_group_reqs a ! g = 0 \<longleftrightarrow> reqs (t_groups a ! g) = Map.empty" if "g < ?G" for g
    using shape that by (auto simp: tree_shape_def)
  have asked: "decided (hs ! g)" "\<exists>y. picks (reqs (t_groups a ! g)) (arb_LastWinner C (hs ! g)) (Some y) \<and>
      reqs gl g = Some y" if "g < ?G" "t_group_reqs a ! g \<noteq> 0" for g
    using inv that unfolding asked_groups_def by (metis (no_types, lifting))+
  have idle: "reqs gl g = None" if "g < ?G" "t_group_reqs a ! g = 0" for g
    using inv that by (auto simp: asked_groups_def)
  have in_group: "\<exists>y. reqs gl (i div ?gs) = Some y \<and> p \<le> snd y" if "base_reqs a i = Some (l, p)" for i l p
  proof -
    from that have "i < ?G * ?gs" using base_in_range [of a i] size by simp
    note gi = group_index [OF this]
    have r: "reqs (t_groups a ! (i div ?gs)) (i mod ?gs) = Some (l, p)"
      using group(1) [OF gi(1)] gi that by (simp add: group_view_def)
    then have ne: "reqs (t_groups a ! (i div ?gs)) \<noteq> Map.empty" by (metis option.distinct(1))
    with group(2) [OF gi(1)] asked(2) [OF gi(1)] obtain y
      where "picks (reqs (t_groups a ! (i div ?gs))) (arb_LastWinner C (hs ! (i div ?gs))) (Some y)"
        "reqs gl (i div ?gs) = Some y" by auto
    with ne r show ?thesis by (auto simp: picks_def)
  qed
  obtain i l p where "base_reqs a i = Some (l, p)"
    using n base_no_reqs [OF ok] by (auto simp: fun_eq_iff)
  with in_group have ne: "reqs gl \<noteq> Map.empty" by fastforce
  have gl: "asking gl" "width gl = ?G" "length hs = ?G" using inv by (auto simp: asked_groups_def)
  from arbitrate [OF gl(1)] obtain gl' w r where w: "arb_Arbitrate C gl = Some (gl', w, r)"
    "decided gl'" "width gl' = width gl" "arb_LastWinner C gl' = w" "picks (reqs gl) w r" by blast
  from w(5) ne obtain x where x: "0 \<le> w" "r = Some x" "reqs gl (nat w) = Some x"
    "\<forall>j l p. reqs gl j = Some (l, p) \<longrightarrow> p \<le> snd x" by (auto simp: picks_def)
  define g where "g = nat w"
  have g: "w = int g" "g < ?G" "reqs gl g = Some x"
    using x in_range [of gl g] gl by (auto simp: g_def)
  with idle have "t_group_reqs a ! g \<noteq> 0" by fastforce
  with asked [OF g(2)] g(3) have d: "decided (hs ! g)"
    "picks (reqs (t_groups a ! g)) (arb_LastWinner C (hs ! g)) (Some x)" by auto
  then have "reqs (t_groups a ! g) \<noteq> Map.empty" by (auto simp: picks_def)
  with d(2) have k0: "0 \<le> arb_LastWinner C (hs ! g)"
    "reqs (t_groups a ! g) (nat (arb_LastWinner C (hs ! g))) = Some x" by (auto simp: picks_def)
  define k where "k = nat (arb_LastWinner C (hs ! g))"
  have k: "arb_LastWinner C (hs ! g) = int k" "k < ?gs" "base_reqs a (g * ?gs + k) = Some x"
    using k0 group(1) [OF g(2)] by (auto simp: k_def group_view_def split: if_splits)
  have sel: "g * ?gs + k < a_size a" using group_index_less [OF g(2) k(2)] size by simp
  let ?t = "a\<lparr>t_groups := hs, t_global := gl', a_selected := int (g * ?gs + k)\<rparr>"
  have "base_ok ?t" using base_update_selected [of "a\<lparr>t_groups := hs, t_global := gl'\<rparr>"] ok sel n
    by (simp del: of_nat_add of_nat_mult)
  from base_Arbitrate [OF this] k(3) n
  have "Arbiter_Arbitrate ?t = Some (?t, int (g * ?gs + k), Some x)"
    by (simp del: of_nat_add of_nat_mult)
  moreover have "int g * int ?gs + int k = int (g * ?gs + k)" by simp
  ultimately have run: "Tree_Arbitrate C a = Some (?t, int (g * ?gs + k), Some x)"
    using n fold w(1) g k sel gl(3)
    by (simp add: Tree_Arbitrate_def Let_def del: of_nat_add of_nat_mult)
  have "base_reqs a \<noteq> Map.empty" using k(3) by (metis option.distinct(1))
  moreover have "p \<le> snd x" if "base_reqs a j = Some (l, p)" for j l p
    using in_group [OF that] x(4) by fastforce
  ultimately have "picks (base_reqs a) (int (g * ?gs + k)) (Some x)"
    using k(3) by (auto simp: picks_def simp del: of_nat_add of_nat_mult)
  moreover have "arb_Arbitrate C gl = Some (gl', int g, Some x)" "arb_LastWinner C gl' = int g"
    "width gl' = ?G" "picks (reqs (t_groups a ! g)) (int k) (Some x)"
    using w(1,3,4) g(1) x(2) gl(2) d(2) k(1) by simp_all
  ultimately show ?thesis using inv w(2) g(2) k(1,2) d(1) run by blast
qed

lemma tree_arbitrate_idle:
  "a_num_reqs a = 0 \<Longrightarrow> Tree_Arbitrate C a = Some (a, -1, None)"
  by (simp add: Tree_Arbitrate_def)

lemma tree_shape_update:
  assumes "tree_shape width reqs a" and "g < length (t_groups a)"
    and "width h = width (t_groups a ! g)" and "reqs h = reqs (t_groups a ! g)"
    and "width gl = width (t_global a)"
  shows "tree_shape width reqs (a\<lparr>t_groups := (t_groups a)[g := h], t_global := gl\<rparr>)"
  using assms by (auto simp: tree_shape_def nth_list_update)

lemma tree_update:
  assumes "tree_decided C width reqs asking decided a"
  shows "\<exists>t. Tree_UpdateState C a = Some t \<and> tree_decided C width reqs asking decided t \<and>
    a_size t = a_size a \<and> base_reqs t = base_reqs a \<and> a_selected t = a_selected a"
proof (cases "a_num_reqs a = 0")
  case True
  with assms have "base_ok a" by (simp add: tree_decided_def tree_asking_def tree_shape_def)
  with True have "a_selected a = -1" by (simp add: base_ok_def)
  then have "Tree_UpdateState C a = Some a" by (simp add: Tree_UpdateState_def)
  with assms show ?thesis by simp
next
  case False
  from assms False obtain g where d: "tree_shape width reqs a"
    "\<forall>g<length (t_groups a). asking (t_groups a ! g) \<or> decided (t_groups a ! g)"
    "decided (t_global a)" and g: "g < length (t_groups a)"
    "arb_LastWinner C (t_global a) = int g" "decided (t_groups a ! g)"
    by (auto simp: tree_decided_def)
  from update [OF g(3)] obtain h where h: "arb_UpdateState C (t_groups a ! g) = Some h" "decided h"
    "width h = width (t_groups a ! g)" "reqs h = reqs (t_groups a ! g)" by auto
  from update [OF d(3)] obtain gl where gl: "arb_UpdateState C (t_global a) = Some gl" "decided gl"
    "width gl = width (t_global a)" "arb_LastWinner C gl = int g" using g(2) by auto
  show ?thesis
  proof (cases "a_selected a > -1")
    case sel: True
    let ?t = "a\<lparr>t_groups := (t_groups a)[g := h], t_global := gl\<rparr>"
    have "Tree_UpdateState C a = Some ?t"
      using sel g h(1) gl(1) by (simp add: Tree_UpdateState_def Let_def)
    moreover have "tree_decided C width reqs asking decided ?t"
      using False d(2) g(1) h(2) gl(2,4) tree_shape_update [OF d(1) g(1) h(3,4) gl(3)]
      by (auto simp: tree_decided_def nth_list_update intro!: exI [of _ g])
    ultimately show ?thesis by simp
  next
    case False
    with assms show ?thesis by (simp add: Tree_UpdateState_def)
  qed
qed

lemma tree_clear:
  assumes "tree_asking width reqs asking a \<or> tree_decided C width reqs asking decided a"
  shows "tree_asking width reqs asking (Tree_Clear C a) \<and> a_size (Tree_Clear C a) = a_size a \<and>
    base_reqs (Tree_Clear C a) = Map.empty \<and>
    (\<forall>i<a_size a. tree_rank rank (Tree_Clear C a) i = tree_rank rank a i)"
proof (cases "a_num_reqs a = 0")
  case True
  with assms have "tree_asking width reqs asking a" by (auto simp: tree_decided_def)
  moreover from this have "base_ok a" by (simp add: tree_asking_def tree_shape_def)
  with True have "base_reqs a = Map.empty" by (simp only: base_no_reqs)
  ultimately show ?thesis using True by (simp add: Tree_Clear_def)
next
  case False
  from assms False have shape: "tree_shape width reqs a"
    and groups: "\<forall>g<length (t_groups a). asking (t_groups a ! g) \<or> decided (t_groups a ! g)"
    and global: "asking (t_global a) \<or> decided (t_global a)"
    by (auto simp: tree_decided_def tree_asking_def)
  let ?b = "a\<lparr>t_groups := map (arb_Clear C) (t_groups a),
    t_group_reqs := map (\<lambda>_. 0) (t_group_reqs a), t_global := arb_Clear C (t_global a)\<rparr>"
  have t: "Tree_Clear C a = Arbiter_Clear ?b" using False by (simp add: Tree_Clear_def)
  have "base_ok ?b" using shape by (simp add: tree_shape_def)
  note c = base_Clear [OF this]
  have f: "t_groups (Arbiter_Clear ?b) = map (arb_Clear C) (t_groups a)"
    "t_global (Arbiter_Clear ?b) = arb_Clear C (t_global a)"
    "t_group_reqs (Arbiter_Clear ?b) = map (\<lambda>_. 0) (t_group_reqs a)"
    "t_group_size (Arbiter_Clear ?b) = t_group_size a"
    by (simp_all add: Arbiter_Clear_def)
  have g: "asking (arb_Clear C (t_groups a ! g))" "reqs (arb_Clear C (t_groups a ! g)) = Map.empty"
    "width (arb_Clear C (t_groups a ! g)) = t_group_size a" if "g < length (t_groups a)" for g
    using clear groups shape that by (auto simp: tree_shape_def)
  have "tree_shape width reqs (Arbiter_Clear ?b)"
    using c g shape clear [OF global] by (simp add: tree_shape_def f)
  then have "tree_asking width reqs asking (Arbiter_Clear ?b)"
    using g clear [OF global] by (simp add: tree_asking_def f)
  moreover have "tree_rank rank (Arbiter_Clear ?b) i = tree_rank rank a i" if "i < a_size a" for i
  proof -
    from shape have "a_size a = length (t_groups a) * t_group_size a" by (simp add: tree_shape_def)
    note gi = group_index [OF that [unfolded this]]
    with shape groups global rank_clear show ?thesis by (simp add: tree_rank_def f tree_shape_def)
  qed
  ultimately show ?thesis using c t by simp
qed

lemma tree_fair_loser:
  assumes a: "tree_asking width reqs asking a"
    and arb: "Tree_Arbitrate C a = Some (t, w, Some r)" and upd: "Tree_UpdateState C t = Some u"
    and i: "base_reqs a i = Some q" "snd q = snd r" "w \<noteq> int i"
  shows "tree_rank rank u i < tree_rank rank a i"
proof -
  let ?gs = "t_group_size a" and ?G = "length (t_groups a)"
  have shape: "tree_shape width reqs a" using a by (simp add: tree_asking_def)
  then have size: "a_size a = ?G * ?gs" and ok: "base_ok a" by (auto simp: tree_shape_def)
  have "i < ?G * ?gs" using base_in_range [of a i] i(1) size by simp
  note gi = group_index [OF this]
  have n: "a_num_reqs a \<noteq> 0" using i(1) base_no_reqs [OF ok] by auto
  from tree_arbitrate [OF a n] arb obtain hs gl gl' g k
    where inv: "asked_groups ?G a hs gl"
      and gl: "arb_Arbitrate C gl = Some (gl', int g, Some r)" "g < ?G" "decided gl'"
        "arb_LastWinner C gl' = int g"
      and k: "k < ?gs" "arb_LastWinner C (hs ! g) = int k" "decided (hs ! g)" "w = int (g * ?gs + k)"
      and t: "t = a\<lparr>t_groups := hs, t_global := gl', a_selected := int (g * ?gs + k)\<rparr>"
      and picked: "picks (reqs (t_groups a ! g)) (int k) (Some r)" "picks (base_reqs a) w (Some r)"
    by (auto simp del: of_nat_add of_nat_mult)
  from update [OF k(3)] obtain h where h: "arb_UpdateState C (hs ! g) = Some h" by auto
  from update [OF gl(3)] obtain gl'' where gl'': "arb_UpdateState C gl' = Some gl''" by auto
  have len: "length hs = ?G" "asking gl" "width gl = ?G" using inv by (auto simp: asked_groups_def)
  have u: "u = t\<lparr>t_groups := hs[g := h], t_global := gl''\<rparr>"
    using upd t gl k(1) h gl'' len by (simp add: Tree_UpdateState_def Let_def del: of_nat_add of_nat_mult)
  let ?g = "i div ?gs" and ?k = "i mod ?gs"
  have old: "rank (hs ! ?g) ?k = rank (t_groups a ! ?g) ?k" "rank gl ?g = rank (t_global a) ?g"
    using inv gi by (auto simp: asked_groups_def)
  have req: "reqs (t_groups a ! ?g) ?k = Some q"
    using shape gi i(1) by (simp add: tree_shape_def group_view_def)
  then have "reqs (t_groups a ! ?g) \<noteq> Map.empty" by auto
  with shape gi(1) have asked: "t_group_reqs a ! ?g \<noteq> 0" by (simp add: tree_shape_def)
  have new: "tree_rank rank u i = rank (hs[g := h] ! ?g) ?k * ?G + rank gl'' ?g"
    using len by (simp add: tree_rank_def u t)
  show ?thesis
  proof (cases "g = ?g")
    case True
    have "k \<noteq> ?k"
    proof
      assume "k = ?k"
      with True gi(3) have "g * ?gs + k = i" by simp
      with i(3) k(4) show False by simp
    qed
    have hsg: "asking (t_groups a ! g)" "t_group_reqs a ! g \<noteq> 0"
      using a gl(2) asked True by (auto simp: tree_asking_def)
    have "rank h ?k < rank (t_groups a ! g) ?k"
    proof -
      from ask_one [OF a gl(2) hsg(2) inv] obtain r' where
        "arb_Arbitrate C (t_groups a ! g) = Some (hs ! g, arb_LastWinner C (hs ! g), Some r')"
        "picks (reqs (t_groups a ! g)) (arb_LastWinner C (hs ! g)) (Some r')" by blast
      moreover from this(2) picked(1) k(2) have "r' = r" by (auto simp: picks_def split: if_splits)
      ultimately show ?thesis
        using rank_loser [OF hsg(1), of "hs ! g" "int k" r h ?k q] h k(2) req True i(2) \<open>k \<noteq> ?k\<close>
        by simp
    qed
    moreover have "rank gl'' ?g < ?G"
    proof -
      from update [OF gl(3)] gl'' have "decided gl''" "width gl'' = width gl'" by auto
      moreover have "width gl' = ?G" using arbitrate [OF len(2)] gl(1) len(3) by auto
      ultimately show ?thesis using rank_bound [of gl'' ?g] gi(1) by simp
    qed
    ultimately have "rank h ?k * ?G + rank gl'' ?g < rank (t_groups a ! g) ?k * ?G"
      by (rule group_index_less)
    then show ?thesis using new True len gl(2) by (simp add: tree_rank_def)
  next
    case False
    from asked obtain y where y: "reqs gl ?g = Some y"
      "picks (reqs (t_groups a ! ?g)) (arb_LastWinner C (hs ! ?g)) (Some y)"
      using inv gi(1) unfolding asked_groups_def by (metis (no_types, lifting))
    have "snd y = snd r"
    proof (rule antisym)
      have "reqs (t_groups a ! ?g) \<noteq> Map.empty" using req by auto
      then show "snd r \<le> snd y" using y(2) req i(2) by (cases q) (auto simp: picks_def)
      have "picks (reqs gl) (int g) (Some r)" using arbitrate [OF len(2)] gl(1) by auto
      then show "snd y \<le> snd r" using y(1) by (cases y) (auto simp: picks_def split: if_splits)
    qed
    with rank_loser [OF len(2) gl(1) gl'' y(1)] False have "rank gl'' ?g < rank gl ?g" by simp
    with new old False show ?thesis by (simp add: tree_rank_def)
  qed
qed

lemma tree_rank_arbitrate:
  assumes a: "tree_asking width reqs asking a" and arb: "Tree_Arbitrate C a = Some (t, w, r)"
    and i: "i < a_size a"
  shows "tree_rank rank t i = tree_rank rank a i"
proof (cases "a_num_reqs a = 0")
  case True
  with arb show ?thesis by (simp add: tree_arbitrate_idle)
next
  case False
  have "a_size a = length (t_groups a) * t_group_size a"
    using a by (simp add: tree_asking_def tree_shape_def)
  note gi = group_index [OF i [unfolded this]]
  from tree_arbitrate [OF a False] arb obtain hs gl gl' g k x
    where inv: "asked_groups (length (t_groups a)) a hs gl"
      and gl: "arb_Arbitrate C gl = Some (gl', int g, Some x)"
      and t: "t_groups t = hs" "t_global t = gl'" "t_group_size t = t_group_size a"
    by (auto simp del: of_nat_add of_nat_mult)
  have "asking gl" "width gl = length (t_groups a)" using inv by (auto simp: asked_groups_def)
  from rank_arbitrate [OF this(1) gl] this(2) gi inv show ?thesis
    by (simp add: tree_rank_def t asked_groups_def)
qed

lemma tree_rank_bound:
  assumes "tree_asking width reqs asking a \<or> tree_decided C width reqs asking decided a"
    and i: "i < a_size a"
  shows "tree_rank rank a i < a_size a"
proof -
  let ?gs = "t_group_size a" and ?G = "length (t_groups a)"
  from assms(1) have shape: "tree_shape width reqs a"
    and st: "\<forall>g<?G. asking (t_groups a ! g) \<or> decided (t_groups a ! g)"
      "asking (t_global a) \<or> decided (t_global a)"
    by (auto simp: tree_asking_def tree_decided_def split: if_splits)
  then have size: "a_size a = ?G * ?gs" by (simp add: tree_shape_def)
  note gi = group_index [OF i [unfolded size]]
  have "rank (t_groups a ! (i div ?gs)) (i mod ?gs) < ?gs"
    using rank_bound [of "t_groups a ! (i div ?gs)" "i mod ?gs"] st(1) shape gi
    by (simp add: tree_shape_def)
  moreover have "rank (t_global a) (i div ?gs) < ?G"
    using rank_bound [of "t_global a" "i div ?gs"] st(2) shape gi by (simp add: tree_shape_def)
  ultimately show ?thesis
    unfolding tree_rank_def size mult.commute [of ?G] by (rule group_index_less)
qed

lemma tree_arbitrate_contract:
  assumes "tree_asking width reqs asking a"
  shows "\<exists>t w r. Tree_Arbitrate C a = Some (t, w, r) \<and> tree_decided C width reqs asking decided t \<and>
    a_size t = a_size a \<and> base_reqs t = base_reqs a \<and> a_selected t = w \<and> picks (base_reqs a) w r"
proof (cases "a_num_reqs a = 0")
  case True
  have ok: "base_ok a" using assms by (simp add: tree_asking_def tree_shape_def)
  with True have "base_reqs a = Map.empty" by (simp only: base_no_reqs)
  with True ok assms show ?thesis
    by (auto simp: tree_arbitrate_idle picks_def tree_decided_def base_ok_def)
next
  case False
  have shape: "tree_shape width reqs a" using assms by (simp add: tree_asking_def)
  from tree_arbitrate [OF assms False] obtain hs gl gl' g k x
    where inv: "asked_groups (length (t_groups a)) a hs gl" and g: "g < length (t_groups a)"
      and k: "k < t_group_size a" "decided gl'" "decided (hs ! g)" "width gl' = length (t_groups a)"
        "arb_LastWinner C gl' = int g"
      and run: "Tree_Arbitrate C a = Some (a\<lparr>t_groups := hs, t_global := gl',
        a_selected := int (g * t_group_size a + k)\<rparr>, int (g * t_group_size a + k), Some x)"
      and p: "picks (base_reqs a) (int (g * t_group_size a + k)) (Some x)" by blast
  let ?t = "a\<lparr>t_groups := hs, t_global := gl', a_selected := int (g * t_group_size a + k)\<rparr>"
  have sel: "g * t_group_size a + k < a_size a"
    using group_index_less [OF g k(1)] shape by (simp add: tree_shape_def)
  have "base_ok ?t"
    using base_update_selected [of "a\<lparr>t_groups := hs, t_global := gl'\<rparr>"] sel shape False
    by (simp add: tree_shape_def del: of_nat_add of_nat_mult)
  then have "tree_shape width reqs ?t"
    using shape inv k(4) by (simp add: tree_shape_def asked_groups_def)
  moreover have "asking (hs ! h) \<or> decided (hs ! h)" if "h < length (t_groups a)" for h
  proof (cases "t_group_reqs a ! h = 0")
    case True
    with inv that assms show ?thesis by (simp add: asked_groups_def tree_asking_def)
  next
    case False
    with inv that show ?thesis unfolding asked_groups_def by (metis (no_types, lifting))
  qed
  ultimately have "tree_decided C width reqs asking decided ?t"
    using False k g inv by (auto simp: tree_decided_def asked_groups_def simp del: of_nat_add of_nat_mult)
  with run p show ?thesis by (simp del: of_nat_add of_nat_mult)
qed

end

sublocale arbiter_tree \<subseteq> tree: fair_arbiter "TreeArbiter C" a_size base_reqs
  "tree_asking width reqs asking" "tree_decided C width reqs asking decided" "tree_rank rank"
proof
  let ?C = "TreeArbiter C" and ?asking = "tree_asking width reqs asking"
  let ?decided = "tree_decided C width reqs asking decided"
  fix s :: "'s tree_arbiter" and i j l p t w r r' u q
  show "?asking s \<Longrightarrow> i < a_size s \<Longrightarrow> base_reqs s i = None \<Longrightarrow>
    \<exists>t. arb_AddRequest ?C i l p s = Some t \<and> ?asking t \<and> a_size t = a_size s \<and>
      base_reqs t = (base_reqs s)(i \<mapsto> (l, p))"
    using tree_add by (force simp: TreeArbiter_def)
  show "?asking s \<Longrightarrow> \<exists>t w r. arb_Arbitrate ?C s = Some (t, w, r) \<and> ?decided t \<and>
    a_size t = a_size s \<and> base_reqs t = base_reqs s \<and> arb_LastWinner ?C t = w \<and>
    picks (base_reqs s) w r"
    using tree_arbitrate_contract by (simp add: TreeArbiter_def)
  show "?decided s \<Longrightarrow> \<exists>t. arb_UpdateState ?C s = Some t \<and> ?decided t \<and> a_size t = a_size s \<and>
    base_reqs t = base_reqs s \<and> arb_LastWinner ?C t = arb_LastWinner ?C s"
    using tree_update by (simp add: TreeArbiter_def)
  show "?asking s \<or> ?decided s \<Longrightarrow> ?asking (arb_Clear ?C s) \<and>
    a_size (arb_Clear ?C s) = a_size s \<and> base_reqs (arb_Clear ?C s) = Map.empty"
    using tree_clear by (simp add: TreeArbiter_def)
  show "?asking s \<or> ?decided s \<Longrightarrow> arb_num_reqs ?C s = 0 \<longleftrightarrow> base_reqs s = Map.empty"
    using base_no_reqs [of s]
    by (auto simp: TreeArbiter_def tree_asking_def tree_decided_def tree_shape_def split: if_splits)
  show "base_reqs s i \<noteq> None \<Longrightarrow> i < a_size s" by (rule base_in_range)
  show "?asking s \<or> ?decided s \<Longrightarrow> i < a_size s \<Longrightarrow> tree_rank rank s i < a_size s"
    by (rule tree_rank_bound)
  show "?asking s \<Longrightarrow> j < a_size s \<Longrightarrow> arb_AddRequest ?C j l p s = Some t \<Longrightarrow> i < a_size s \<Longrightarrow>
    tree_rank rank t i = tree_rank rank s i"
    using tree_add [of s j l p]
    by (auto simp: TreeArbiter_def Tree_AddRequest_def Arbiter_AddRequest_def base_reqs_def
        split: if_splits)
  show "?asking s \<Longrightarrow> arb_Arbitrate ?C s = Some (t, w, r') \<Longrightarrow> i < a_size s \<Longrightarrow>
    tree_rank rank t i = tree_rank rank s i"
    using tree_rank_arbitrate by (simp add: TreeArbiter_def)
  show "?asking s \<or> ?decided s \<Longrightarrow> i < a_size s \<Longrightarrow>
    tree_rank rank (arb_Clear ?C s) i = tree_rank rank s i"
    using tree_clear by (simp add: TreeArbiter_def)
  show "?asking s \<Longrightarrow> arb_Arbitrate ?C s = Some (t, w, Some r) \<Longrightarrow>
    arb_UpdateState ?C t = Some u \<Longrightarrow> base_reqs s i = Some q \<Longrightarrow> snd q = snd r \<Longrightarrow>
    w \<noteq> int i \<Longrightarrow> tree_rank rank u i < tree_rank rank s i"
    using tree_fair_loser by (simp add: TreeArbiter_def)
qed

subsection \<open>Trees of round-robin and of matrix arbiters\<close>

interpretation rr_tree: arbiter_tree RoundRobinArbiter a_size base_reqs rr_asking rr_ok rr_rank
  by unfold_locales

interpretation mx_tree: arbiter_tree MatrixArbiter a_size base_reqs mx_asking mx_ok mx_rank
  by unfold_locales

lemma Tree_init_asking:
  assumes "Tree_init new_arbiter n groups = Some a"
    and "\<forall>m. asking (new_arbiter m) \<and> width (new_arbiter m) = m \<and> reqs (new_arbiter m) = Map.empty"
  shows "tree_asking width reqs asking a \<and> a_size a = n"
proof -
  from assms(1) have n: "n mod groups = 0"
    and a: "a_size a = n" "t_group_size a = n div groups" "length (t_groups a) = groups"
      "length (t_group_reqs a) = groups" "t_global a = new_arbiter groups"
      "\<forall>g<groups. t_groups a ! g = new_arbiter (n div groups) \<and> t_group_reqs a ! g = 0"
    by (auto simp: Tree_init_def arbiter_base.defs Arbiter_init_def)
  have "base_ok a = base_ok (Arbiter_init n)" "base_reqs a = base_reqs (Arbiter_init n)"
    by (rule base_ok_cong base_reqs_cong;
        use assms(1) in \<open>auto simp: Tree_init_def arbiter_base.defs\<close>)+
  moreover have "n = groups * (n div groups)" using n by auto
  ultimately show ?thesis
    using base_init [of n] a assms(2) by (simp add: tree_asking_def tree_shape_def)
qed

text \<open>C34: a tree of round-robin arbiters does not starve anyone either. Whatever the number of groups
  that divides the inputs, after any history of rounds an input that asks in as many further rounds
  as there are inputs, never with a lower priority than another request of the round, wins one of
  them; no round fails an assertion.\<close>

theorem tree_no_starvation:
  assumes "Tree_init RoundRobin_init n groups = Some a" and "i < n"
    and "\<forall>rs \<in> set (past @ future). legal_requests n rs"
    and "\<forall>rs \<in> set future. top_request i rs" and "n \<le> length future"
  shows "\<exists>u ws1 ws2. arb_rounds (TreeArbiter RoundRobinArbiter) (past @ future) a =
      Some (u, ws1 @ ws2) \<and> length ws1 = length past \<and> int i \<in> set ws2"
proof -
  have "\<forall>m. rr_asking (RoundRobin_init m) \<and> a_size (RoundRobin_init m) = m \<and>
      base_reqs (RoundRobin_init m) = Map.empty"
    using RoundRobin_init_asking base_no_reqs
    by (auto simp: rr_asking_def rr_ok_def) (auto simp: RoundRobin_init_def arbiter_base.defs Arbiter_init_def)
  from Tree_init_asking [OF assms(1) this]
  have "tree_asking a_size base_reqs rr_asking a" "a_size a = n" by auto
  with rr_tree.tree.no_starvation_after [of a i past future] assms(2-5) show ?thesis by simp
qed

lemma tree_no_starvation_witness:
  "\<exists>a. Tree_init RoundRobin_init 2 2 = Some a \<and>
    (\<exists>u ws1 ws2. arb_rounds (TreeArbiter RoundRobinArbiter) ([] @
       [[(0, 1, 5), (1, 2, 5)], [(1, 3, 5), (0, 1, 4)]]) a = Some (u, ws1 @ ws2) \<and>
     length ws1 = length ([]::(nat \<times> int \<times> int) list list) \<and> int 1 \<in> set ws2)"
proof -
  obtain a where a: "Tree_init RoundRobin_init 2 2 = Some a" by (simp add: Tree_init_def)
  have "\<exists>u ws1 ws2. arb_rounds (TreeArbiter RoundRobinArbiter) ([] @
       [[(0, 1, 5), (1, 2, 5)], [(1, 3, 5), (0, 1, 4)]]) a = Some (u, ws1 @ ws2) \<and>
     length ws1 = length ([]::(nat \<times> int \<times> int) list list) \<and> int 1 \<in> set ws2"
    by (rule tree_no_starvation [OF a]) (auto simp: legal_requests_def top_request_def)
  with a show ?thesis by blast
qed

end
