(* ===== verification/Allocators.thy ===== *)
theory Allocators
  imports Arbiters
begin

text \<open>
  The allocators of src/booksim2/src/allocators: the base classes (allocator.cpp), wavefront,
  LOA, PIM and maximum size matching.  An allocator matches inputs with the outputs they request;
  \<open>_inmatch\<close> and \<open>_outmatch\<close> are the grants, -1 for none.  \<open>_in_req\<close> and \<open>_out_req\<close> of a sparse
  allocator are ordered maps; the allocators built on it are in Sparse_Allocators.
  A failed assertion is \<open>None\<close>.  Code under \<open>DEBUG_\<close> symbols is left out.
\<close>

subsection \<open>Requests and grants\<close>

record alloc_request =
  sr_port :: nat
  sr_label :: int
  sr_in_pri :: int
  sr_out_pri :: int

record alloc_base =
  al_inputs :: nat
  al_outputs :: nat
  al_dirty :: bool
  inmatch :: "int list"
  outmatch :: "int list"

definition Allocator_init :: "nat \<Rightarrow> nat \<Rightarrow> alloc_base" where
  "Allocator_init ins outs = \<lparr>al_inputs = ins, al_outputs = outs, al_dirty = False,
     inmatch = replicate ins (-1), outmatch = replicate outs (-1)\<rparr>"

definition Allocator_Clear :: "'a alloc_base_scheme \<Rightarrow> 'a alloc_base_scheme" where
  "Allocator_Clear a =
     (if al_dirty a
      then a\<lparr>inmatch := replicate (al_inputs a) (-1), outmatch := replicate (al_outputs a) (-1),
             al_dirty := False\<rparr>
      else a)"

definition Allocator_AddRequest ::
  "nat \<Rightarrow> nat \<Rightarrow> int \<Rightarrow> 'a alloc_base_scheme \<Rightarrow> 'a alloc_base_scheme option" where
  "Allocator_AddRequest i j label a = do {
     assertion (i < al_inputs a);
     assertion (j < al_outputs a);
     assertion (label \<ge> 0);
     Some (a\<lparr>al_dirty := True\<rparr>)
   }"

definition OutputAssigned :: "nat \<Rightarrow> 'a alloc_base_scheme \<Rightarrow> int option" where
  "OutputAssigned i a = do { assertion (i < al_inputs a); Some (inmatch a ! i) }"

definition InputAssigned :: "nat \<Rightarrow> 'a alloc_base_scheme \<Rightarrow> int option" where
  "InputAssigned j a = do { assertion (j < al_outputs a); Some (outmatch a ! j) }"

text \<open>The two assignments every allocator grants with.\<close>

definition grant :: "nat \<Rightarrow> nat \<Rightarrow> 'a alloc_base_scheme \<Rightarrow> 'a alloc_base_scheme" where
  "grant i j a = a\<lparr>inmatch := (inmatch a)[i := int j], outmatch := (outmatch a)[j := int i]\<rparr>"

text \<open>What the router calls.\<close>

record 's alloc_class =
  alloc_Clear :: "'s \<Rightarrow> 's"
  alloc_AddRequest :: "nat \<Rightarrow> nat \<Rightarrow> int \<Rightarrow> int \<Rightarrow> int \<Rightarrow> 's \<Rightarrow> 's option"
  alloc_Allocate :: "'s \<Rightarrow> 's option"

subsection \<open>Dense allocators\<close>

record dense_alloc = alloc_base +
  d_request :: "alloc_request list list"

definition blank_request :: alloc_request where
  "blank_request = \<lparr>sr_port = 0, sr_label = -1, sr_in_pri = 0, sr_out_pri = 0\<rparr>"

definition Dense_init :: "nat \<Rightarrow> nat \<Rightarrow> dense_alloc" where
  "Dense_init ins outs = alloc_base.extend (Allocator_init ins outs)
     \<lparr>d_request = replicate ins (replicate outs blank_request)\<rparr>"

definition Dense_Clear :: "'a dense_alloc_scheme \<Rightarrow> 'a dense_alloc_scheme" where
  "Dense_Clear a =
     Allocator_Clear (a\<lparr>d_request := map (map (\<lambda>r. r\<lparr>sr_label := -1\<rparr>)) (d_request a)\<rparr>)"

definition Dense_ReadRequest :: "nat \<Rightarrow> nat \<Rightarrow> 'a dense_alloc_scheme \<Rightarrow> int option" where
  "Dense_ReadRequest i j a = do {
     assertion (i < al_inputs a); assertion (j < al_outputs a);
     Some (sr_label (d_request a ! i ! j))
   }"

text \<open>\<open>ReadRequest(sRequest &, in, out)\<close>: an inner \<open>None\<close> is the result \<open>false\<close>.\<close>

definition Dense_ReadRequest_at ::
  "nat \<Rightarrow> nat \<Rightarrow> 'a dense_alloc_scheme \<Rightarrow> alloc_request option option" where
  "Dense_ReadRequest_at i j a = do {
     assertion (i < al_inputs a); assertion (j < al_outputs a);
     Some (if sr_label (d_request a ! i ! j) \<ge> 0 then Some (d_request a ! i ! j) else None)
   }"

definition Dense_AddRequest ::
  "nat \<Rightarrow> nat \<Rightarrow> int \<Rightarrow> int \<Rightarrow> int \<Rightarrow> 'a dense_alloc_scheme \<Rightarrow> 'a dense_alloc_scheme option" where
  "Dense_AddRequest i j label in_pri out_pri a0 = do {
     a \<leftarrow> Allocator_AddRequest i j label a0;
     assertion (sr_label (d_request a ! i ! j) = -1);
     Some (a\<lparr>d_request := (d_request a)[i := (d_request a ! i)
       [j := (d_request a ! i ! j)\<lparr>sr_label := label, sr_in_pri := in_pri, sr_out_pri := out_pri\<rparr>]]\<rparr>)
   }"

definition Dense_RemoveRequest ::
  "nat \<Rightarrow> nat \<Rightarrow> 'a dense_alloc_scheme \<Rightarrow> 'a dense_alloc_scheme option" where
  "Dense_RemoveRequest i j a = do {
     assertion (i < al_inputs a); assertion (j < al_outputs a);
     Some (a\<lparr>d_request := (d_request a)[i := (d_request a ! i)
       [j := (d_request a ! i ! j)\<lparr>sr_label := -1\<rparr>]]\<rparr>)
   }"

definition Dense_NumInputRequests :: "nat \<Rightarrow> 'a dense_alloc_scheme \<Rightarrow> nat" where
  "Dense_NumInputRequests i a =
     length (filter (\<lambda>j. sr_label (d_request a ! i ! j) \<ge> 0) [0..<al_outputs a])"

definition Dense_NumOutputRequests :: "nat \<Rightarrow> 'a dense_alloc_scheme \<Rightarrow> nat" where
  "Dense_NumOutputRequests j a =
     length (filter (\<lambda>i. sr_label (d_request a ! i ! j) \<ge> 0) [0..<al_inputs a])"

definition Dense_InputHasRequests :: "nat \<Rightarrow> 'a dense_alloc_scheme \<Rightarrow> bool" where
  "Dense_InputHasRequests i a = list_ex (\<lambda>j. sr_label (d_request a ! i ! j) \<ge> 0) [0..<al_outputs a]"

definition Dense_OutputHasRequests :: "nat \<Rightarrow> 'a dense_alloc_scheme \<Rightarrow> bool" where
  "Dense_OutputHasRequests j a = list_ex (\<lambda>i. sr_label (d_request a ! i ! j) \<ge> 0) [0..<al_inputs a]"

subsection \<open>Sparse allocators\<close>

record sparse_alloc = alloc_base +
  in_occ :: "nat list"
  out_occ :: "nat list"
  in_req :: "alloc_request omap list"
  out_req :: "alloc_request omap list"

definition Sparse_init :: "nat \<Rightarrow> nat \<Rightarrow> sparse_alloc" where
  "Sparse_init ins outs = alloc_base.extend (Allocator_init ins outs)
     \<lparr>in_occ = [], out_occ = [], in_req = replicate ins [], out_req = replicate outs []\<rparr>"

definition Sparse_Clear :: "'a sparse_alloc_scheme \<Rightarrow> 'a sparse_alloc_scheme" where
  "Sparse_Clear a = Allocator_Clear (a\<lparr>in_req := map (\<lambda>_. []) (in_req a),
     out_req := map (\<lambda>_. []) (out_req a), in_occ := [], out_occ := []\<rparr>)"

definition Sparse_ReadRequest ::
  "nat \<Rightarrow> nat \<Rightarrow> 'a sparse_alloc_scheme \<Rightarrow> alloc_request option option" where
  "Sparse_ReadRequest i j a = do {
     assertion (i < al_inputs a); assertion (j < al_outputs a);
     Some (map_of (in_req a ! i) j)
   }"

definition Sparse_AddRequest ::
  "nat \<Rightarrow> nat \<Rightarrow> int \<Rightarrow> int \<Rightarrow> int \<Rightarrow> 'a sparse_alloc_scheme \<Rightarrow> 'a sparse_alloc_scheme option" where
  "Sparse_AddRequest i j label in_pri out_pri a0 = do {
     a \<leftarrow> Allocator_AddRequest i j label a0;
     assertion (\<not> om_count j (in_req a ! i));
     assertion (\<not> om_count i (out_req a ! j));
     (let req = \<lparr>sr_port = j, sr_label = label, sr_in_pri = in_pri, sr_out_pri = out_pri\<rparr>
      in Some (a\<lparr>in_occ := (if in_req a ! i = [] then os_insert i (in_occ a) else in_occ a),
                 out_occ := (if out_req a ! j = [] then os_insert j (out_occ a) else out_occ a),
                 in_req := (in_req a)[i := om_put j req (in_req a ! i)],
                 out_req := (out_req a)[j := om_put i (req\<lparr>sr_port := i\<rparr>) (out_req a ! j)]\<rparr>))
   }"

definition om_erase :: "nat \<Rightarrow> 'v omap \<Rightarrow> 'v omap" where
  "om_erase k m = filter (\<lambda>e. fst e \<noteq> k) m"

definition Sparse_RemoveRequest ::
  "nat \<Rightarrow> nat \<Rightarrow> int \<Rightarrow> 'a sparse_alloc_scheme \<Rightarrow> 'a sparse_alloc_scheme option" where
  "Sparse_RemoveRequest i j label a = do {
     assertion (i < al_inputs a); assertion (j < al_outputs a);
     assertion (map_option sr_label (map_of (in_req a ! i) j) = Some label);
     assertion (map_option sr_label (map_of (out_req a ! j) i) = Some label);
     (let ins = om_erase j (in_req a ! i); outs = om_erase i (out_req a ! j)
      in Some (a\<lparr>in_req := (in_req a)[i := ins], out_req := (out_req a)[j := outs],
                 in_occ := (if ins = [] then filter (\<lambda>x. x \<noteq> i) (in_occ a) else in_occ a),
                 out_occ := (if outs = [] then filter (\<lambda>x. x \<noteq> j) (out_occ a) else out_occ a)\<rparr>))
   }"

definition Sparse_ReadLabel :: "nat \<Rightarrow> nat \<Rightarrow> 'a sparse_alloc_scheme \<Rightarrow> int option" where
  "Sparse_ReadLabel i j a = do {
     r \<leftarrow> Sparse_ReadRequest i j a;
     Some (case r of None \<Rightarrow> -1 | Some req \<Rightarrow> sr_label req)
   }"

definition Sparse_InputHasRequests :: "nat \<Rightarrow> 'a sparse_alloc_scheme \<Rightarrow> bool" where
  "Sparse_InputHasRequests i a \<longleftrightarrow> i \<in> set (in_occ a)"

definition Sparse_OutputHasRequests :: "nat \<Rightarrow> 'a sparse_alloc_scheme \<Rightarrow> bool" where
  "Sparse_OutputHasRequests j a \<longleftrightarrow> j \<in> set (out_occ a)"

text \<open>Unlike those of a dense allocator, these count a port, not its requests.\<close>

definition Sparse_NumInputRequests :: "nat \<Rightarrow> 'a sparse_alloc_scheme \<Rightarrow> nat" where
  "Sparse_NumInputRequests i a = (if i \<in> set (in_occ a) then 1 else 0)"

definition Sparse_NumOutputRequests :: "nat \<Rightarrow> 'a sparse_alloc_scheme \<Rightarrow> nat" where
  "Sparse_NumOutputRequests j a = (if j \<in> set (out_occ a) then 1 else 0)"

subsection \<open>Wavefront\<close>

record wavefront = dense_alloc +
  wf_last_in :: int
  wf_last_out :: int
  wf_skip_diags :: bool
  wf_square :: nat
  wf_pri :: nat
  wf_num_requests :: nat
  wf_priorities :: "(int \<times> int) list"

definition Wavefront_init :: "nat \<Rightarrow> nat \<Rightarrow> bool \<Rightarrow> wavefront" where
  "Wavefront_init ins outs skip_diags = dense_alloc.extend (Dense_init ins outs)
     \<lparr>wf_last_in = -1, wf_last_out = -1, wf_skip_diags = skip_diags, wf_square = max ins outs,
      wf_pri = 0, wf_num_requests = 0, wf_priorities = []\<rparr>"

text \<open>\<open>_priorities\<close>, a set of pairs in increasing order.\<close>

fun pri_insert :: "int \<times> int \<Rightarrow> (int \<times> int) list \<Rightarrow> (int \<times> int) list" where
  "pri_insert p [] = [p]"
| "pri_insert p (q # ps) =
     (if fst p < fst q \<or> fst p = fst q \<and> snd p < snd q then p # q # ps
      else if p = q then q # ps else q # pri_insert p ps)"

definition Wavefront_AddRequest ::
  "nat \<Rightarrow> nat \<Rightarrow> int \<Rightarrow> int \<Rightarrow> int \<Rightarrow> wavefront \<Rightarrow> wavefront option" where
  "Wavefront_AddRequest i j label in_pri out_pri a0 = do {
     a \<leftarrow> Dense_AddRequest i j label in_pri out_pri a0;
     Some (a\<lparr>wf_num_requests := wf_num_requests a + 1, wf_last_in := int i, wf_last_out := int j,
             wf_priorities := pri_insert (out_pri, in_pri) (wf_priorities a)\<rparr>)
   }"

text \<open>One cell of the sweep: diagonal \<open>p\<close>, column \<open>output\<close>, for requests of priority \<open>pr\<close>.  The
  second component is \<open>first_diag\<close>.\<close>

definition Wavefront_cell ::
  "int \<times> int \<Rightarrow> nat \<Rightarrow> nat \<Rightarrow> wavefront \<times> int \<Rightarrow> wavefront \<times> int" where
  "Wavefront_cell pr p output s =
     (let a = fst s;
          input = ((wf_pri a + p) + (wf_square a - output)) mod wf_square a
      in if input < al_inputs a \<and> output < al_outputs a \<and>
            inmatch a ! input = -1 \<and> outmatch a ! output = -1 \<and>
            sr_label (d_request a ! input ! output) \<noteq> -1 \<and>
            sr_in_pri (d_request a ! input ! output) = snd pr \<and>
            sr_out_pri (d_request a ! input ! output) = fst pr
         then (grant input output a, if snd s < 0 then int (input + output) else snd s)
         else s)"

definition Wavefront_sweep :: "int \<times> int \<Rightarrow> wavefront \<times> int \<Rightarrow> wavefront \<times> int" where
  "Wavefront_sweep pr s =
     fold (\<lambda>p s. fold (Wavefront_cell pr p) [0..<wf_square (fst s)] s) [0..<wf_square (fst s)] s"

definition Wavefront_Allocate :: "wavefront \<Rightarrow> wavefront option" where
  "Wavefront_Allocate a0 =
     (if wf_num_requests a0 = 0 then Some a0
      else let (a, first_diag) =
             (if wf_num_requests a0 = 1
              then (grant (nat (wf_last_in a0)) (nat (wf_last_out a0)) a0,
                    wf_last_in a0 + wf_last_out a0)
              else fold Wavefront_sweep (rev (wf_priorities a0)) (a0, -1))
      in do {
        assertion (first_diag \<ge> 0);
        Some (a\<lparr>wf_num_requests := 0, wf_last_in := -1, wf_last_out := -1, wf_priorities := [],
                wf_pri := nat (((if wf_skip_diags a then first_diag else int (wf_pri a)) + 1)
                  mod int (wf_square a))\<rparr>)
      })"

definition Wavefront :: "wavefront alloc_class" where
  "Wavefront = \<lparr>alloc_Clear = Dense_Clear, alloc_AddRequest = Wavefront_AddRequest,
     alloc_Allocate = Wavefront_Allocate\<rparr>"

subsection \<open>LOA\<close>

text \<open>Lonely output allocation: an input asks for the output that the fewest inputs request.\<close>

record loa = dense_alloc +
  loa_rptr :: "nat list"
  loa_gptr :: "nat list"

definition LOA_init :: "nat \<Rightarrow> nat \<Rightarrow> loa" where
  "LOA_init ins outs = dense_alloc.extend (Dense_init ins outs)
     \<lparr>loa_rptr = replicate ins 0, loa_gptr = replicate outs 0\<rparr>"

definition loa_count :: "loa \<Rightarrow> nat \<Rightarrow> nat" where
  "loa_count a j = length (filter (\<lambda>i. sr_label (d_request a ! i ! j) \<noteq> -1) [0..<al_inputs a])"

definition loa_lonely :: "loa \<Rightarrow> nat list \<Rightarrow> nat \<Rightarrow> int" where
  "loa_lonely a counts input = fst (fold (\<lambda>k (lonely, lonely_cnt).
       let output = (k + loa_rptr a ! input) mod al_outputs a
       in if sr_label (d_request a ! input ! output) \<noteq> -1 \<and> counts ! output < lonely_cnt
          then (int output, counts ! output) else (lonely, lonely_cnt))
     [0..<al_outputs a] (-1, al_inputs a + 1))"

definition loa_grant :: "int list \<Rightarrow> nat \<Rightarrow> loa \<Rightarrow> loa" where
  "loa_grant req output a =
     (case List.find (\<lambda>input. req ! input = int output)
         (map (\<lambda>i. (i + loa_gptr a ! output) mod al_inputs a) [0..<al_inputs a]) of
        None \<Rightarrow> a
      | Some input \<Rightarrow> (grant input output a)\<lparr>
          loa_rptr := (loa_rptr a)[input := (loa_rptr a ! input + 1) mod al_outputs a],
          loa_gptr := (loa_gptr a)[output := (loa_gptr a ! output + 1) mod al_inputs a]\<rparr>)"

definition LOA_Allocate :: "loa \<Rightarrow> loa option" where
  "LOA_Allocate a =
     (let counts = map (loa_count a) [0..<al_outputs a];
          req = map (loa_lonely a counts) [0..<al_inputs a]
      in Some (fold (loa_grant req) [0..<al_outputs a] a))"

definition LOA :: "loa alloc_class" where
  "LOA = \<lparr>alloc_Clear = Dense_Clear, alloc_AddRequest = Dense_AddRequest,
     alloc_Allocate = LOA_Allocate\<rparr>"

subsection \<open>PIM\<close>

text \<open>Parallel iterative matching.  The draws of an iteration, one per output and one per input, are
  functions \<open>g\<close> and \<open>h\<close>: \<open>RandomInt\<close> returns a number between 0 and its argument.\<close>

record pim = dense_alloc +
  pim_iter :: nat

definition PIM_init :: "nat \<Rightarrow> nat \<Rightarrow> nat \<Rightarrow> pim" where
  "PIM_init ins outs iters = dense_alloc.extend (Dense_init ins outs) \<lparr>pim_iter = iters\<rparr>"

definition pim_grant :: "nat \<Rightarrow> pim \<Rightarrow> nat \<Rightarrow> int" where
  "pim_grant input_offset a output =
     (case List.find (\<lambda>input. sr_label (d_request a ! input ! output) \<noteq> -1 \<and>
           inmatch a ! input = -1 \<and> outmatch a ! output = -1)
         (map (\<lambda>i. (i + input_offset) mod al_inputs a) [0..<al_inputs a]) of
        None \<Rightarrow> -1 | Some input \<Rightarrow> int input)"

definition pim_accept :: "int list \<Rightarrow> nat \<Rightarrow> nat \<Rightarrow> pim \<Rightarrow> pim" where
  "pim_accept grants output_offset input a =
     (case List.find (\<lambda>output. grants ! output = int input)
         (map (\<lambda>k. (k + output_offset) mod al_outputs a) [0..<al_outputs a]) of
        None \<Rightarrow> a | Some output \<Rightarrow> grant input output a)"

definition pim_iteration :: "(nat \<Rightarrow> nat) \<Rightarrow> (nat \<Rightarrow> nat) \<Rightarrow> pim \<Rightarrow> pim" where
  "pim_iteration g h a =
     (let grants = map (\<lambda>output. pim_grant (g output) a output) [0..<al_outputs a]
      in fold (\<lambda>input. pim_accept grants (h input) input) [0..<al_inputs a] a)"

definition PIM_Allocate :: "(nat \<Rightarrow> nat \<Rightarrow> nat) \<Rightarrow> (nat \<Rightarrow> nat \<Rightarrow> nat) \<Rightarrow> pim \<Rightarrow> pim option" where
  "PIM_Allocate g h a = Some (fold (\<lambda>iter. pim_iteration (g iter) (h iter)) [0..<pim_iter a] a)"

definition PIM :: "(nat \<Rightarrow> nat \<Rightarrow> nat) \<Rightarrow> (nat \<Rightarrow> nat \<Rightarrow> nat) \<Rightarrow> pim alloc_class" where
  "PIM g h = \<lparr>alloc_Clear = Dense_Clear, alloc_AddRequest = Dense_AddRequest,
     alloc_Allocate = PIM_Allocate g h\<rparr>"

subsection \<open>Maximum size matching\<close>

text \<open>\<open>_from\<close> has one entry per input after the \<open>assign\<close> in \<open>_ShortestAugmenting\<close>, but is read by
  output; a read behind its end is a failure here.  The two stacks are the lists \<open>s\<close> and \<open>ns\<close>.
  \<open>Inl j\<close> is the jump to \<open>found_augmenting\<close> with that \<open>j\<close>.\<close>

record maxsize = dense_alloc +
  ms_from :: "int list"
  ms_prio :: nat

definition MaxSize_init :: "nat \<Rightarrow> nat \<Rightarrow> maxsize" where
  "MaxSize_init ins outs = dense_alloc.extend (Dense_init ins outs)
     \<lparr>ms_from = replicate outs 0, ms_prio = 0\<rparr>"

fun ms_edges ::
  "maxsize \<Rightarrow> nat \<Rightarrow> nat list \<Rightarrow> int list \<Rightarrow> nat list \<Rightarrow> (int list \<times> (nat + nat list)) option" where
  "ms_edges a i [] from ns = Some (from, Inr ns)"
| "ms_edges a i (j # js) from ns =
     (if sr_label (d_request a ! i ! j) \<noteq> -1 \<and> inmatch a ! i \<noteq> int j
      then do {
        assertion (j < length from);
        (if from ! j = -1
         then if outmatch a ! j = -1 then Some (from[j := int i], Inl j)
              else ms_edges a i js (from[j := int i]) (ns @ [nat (outmatch a ! j)])
         else ms_edges a i js from ns)
      }
      else ms_edges a i js from ns)"

fun ms_layer ::
  "maxsize \<Rightarrow> nat list \<Rightarrow> int list \<Rightarrow> nat list \<Rightarrow> (int list \<times> (nat + nat list)) option" where
  "ms_layer a [] from ns = Some (from, Inr ns)"
| "ms_layer a (i # s) from ns = do {
     (from', r) \<leftarrow> ms_edges a i [0..<al_outputs a] from ns;
     (case r of Inl j \<Rightarrow> Some (from', Inl j) | Inr ns' \<Rightarrow> ms_layer a s from' ns')
   }"

fun ms_search ::
  "maxsize \<Rightarrow> nat \<Rightarrow> nat list \<Rightarrow> int list \<Rightarrow> (int list \<times> nat option) option" where
  "ms_search a 0 s from = Some (from, None)"
| "ms_search a (Suc n) s from = do {
     (from', r) \<leftarrow> ms_layer a s from [];
     (case r of Inl j \<Rightarrow> Some (from', Some j) | Inr ns \<Rightarrow> ms_search a n ns from')
   }"

definition ms_roots :: "maxsize \<Rightarrow> nat list" where
  "ms_roots a = filter (\<lambda>i. inmatch a ! i = -1)
     (map (\<lambda>i. (i + ms_prio a) mod al_inputs a) [0..<al_inputs a])"

text \<open>The loop that flips the path, entered with \<open>_outmatch[j] = i\<close> written.\<close>

partial_function (option) ms_flip :: "nat \<Rightarrow> nat \<Rightarrow> maxsize \<Rightarrow> maxsize option" where
  "ms_flip i j a =
     (let jn = inmatch a ! i; a1 = a\<lparr>inmatch := (inmatch a)[i := int j]\<rparr> in
      if jn = -1 then Some a1
      else let i' = nat (ms_from a ! nat jn)
           in ms_flip i' (nat jn) (a1\<lparr>outmatch := (outmatch a)[nat jn := int i']\<rparr>))"

definition ShortestAugmenting :: "maxsize \<Rightarrow> (maxsize \<times> bool) option" where
  "ShortestAugmenting a = do {
     (from, r) \<leftarrow> ms_search a (al_inputs a) (ms_roots a) (replicate (al_inputs a) (-1));
     (case r of
        None \<Rightarrow> Some (a\<lparr>ms_from := from\<rparr>, False)
      | Some j \<Rightarrow> do {
          a' \<leftarrow> ms_flip (nat (from ! j)) j
            (a\<lparr>ms_from := from, outmatch := (outmatch a)[j := from ! j]\<rparr>);
          Some (a', True)
        })
   }"

partial_function (option) ms_augment_all :: "maxsize \<Rightarrow> maxsize option" where
  "ms_augment_all a = do {
     (a', found) \<leftarrow> ShortestAugmenting a;
     (if found then ms_augment_all a' else Some a')
   }"

definition MaxSize_Allocate :: "maxsize \<Rightarrow> maxsize option" where
  "MaxSize_Allocate a0 = do {
     a \<leftarrow> ms_augment_all a0;
     Some (a\<lparr>ms_prio := (ms_prio a + 1) mod al_inputs a\<rparr>)
   }"

definition MaxSizeMatch :: "maxsize alloc_class" where
  "MaxSizeMatch = \<lparr>alloc_Clear = Dense_Clear, alloc_AddRequest = Dense_AddRequest,
     alloc_Allocate = MaxSize_Allocate\<rparr>"

end
