(* ===== verification/Allocator_Properties.thy ===== *)
theory Allocator_Properties
  imports Allocators
begin

text \<open>
  What an allocator promises to the router: after a \<open>Clear\<close> and any distinct requests,
  \<open>Allocate\<close> does not fail and its grants are a matching of the requests; and a promise of its own
  about how good the matching is.  The contract is a locale, interpreted on every allocator but
  SelAlloc, which does not keep it.
\<close>

subsection \<open>Matchings\<close>

definition matching :: "nat \<Rightarrow> nat \<Rightarrow> (nat \<Rightarrow> nat \<Rightarrow> bool) \<Rightarrow> int list \<Rightarrow> int list \<Rightarrow> bool" where
  "matching m n R im om \<longleftrightarrow> length im = m \<and> length om = n \<and>
     (\<forall>i<m. im ! i = -1 \<or> (\<exists>j<n. im ! i = int j \<and> om ! j = int i \<and> R i j)) \<and>
     (\<forall>j<n. om ! j = -1 \<or> (\<exists>i<m. om ! j = int i \<and> im ! i = int j \<and> R i j))"

definition maximal :: "nat \<Rightarrow> nat \<Rightarrow> (nat \<Rightarrow> nat \<Rightarrow> bool) \<Rightarrow> int list \<Rightarrow> int list \<Rightarrow> bool" where
  "maximal m n R im om \<longleftrightarrow> (\<forall>i<m. \<forall>j<n. R i j \<longrightarrow> im ! i \<noteq> -1 \<or> om ! j \<noteq> -1)"

text \<open>Of the outputs an input requests one is granted, to it or to another.\<close>

definition some_output_granted :: "nat \<Rightarrow> nat \<Rightarrow> (nat \<Rightarrow> nat \<Rightarrow> bool) \<Rightarrow> int list \<Rightarrow> bool" where
  "some_output_granted m n R om \<longleftrightarrow> (\<forall>i<m. (\<exists>j<n. R i j) \<longrightarrow> (\<exists>j<n. R i j \<and> om ! j \<noteq> -1))"

definition granted :: "int list \<Rightarrow> nat set" where
  "granted im = {i. i < length im \<and> im ! i \<noteq> -1}"

lemma finite_granted [simp]: "finite (granted im)"
  by (rule finite_subset [of _ "{..<length im}"]) (auto simp: granted_def)

lemma card_granted_le: "card (granted im) \<le> length im"
  using card_mono [of "{..<length im}" "granted im"] by (auto simp: granted_def)

lemma granted_update:
  "i < length im \<Longrightarrow> granted (im[i := int j]) = insert i (granted im)"
  by (auto simp: granted_def nth_list_update)

lemma matching_lengths: "matching m n R im om \<Longrightarrow> length im = m \<and> length om = n"
  by (simp add: matching_def)

lemma matching_inD:
  "matching m n R im om \<Longrightarrow> i < m \<Longrightarrow> im ! i \<noteq> -1 \<Longrightarrow>
    \<exists>j<n. im ! i = int j \<and> om ! j = int i \<and> R i j"
  by (auto simp: matching_def)

lemma matching_outD:
  "matching m n R im om \<Longrightarrow> j < n \<Longrightarrow> om ! j \<noteq> -1 \<Longrightarrow>
    \<exists>i<m. om ! j = int i \<and> im ! i = int j \<and> R i j"
  by (auto simp: matching_def)

lemma matching_none: "matching m n R (replicate m (-1)) (replicate n (-1))"
  by (simp add: matching_def)

lemma matching_grant:
  assumes "matching m n R im om" and "i < m" and "j < n" and "im ! i = -1" and "om ! j = -1" and "R i j"
  shows "matching m n R (im[i := int j]) (om[j := int i])"
proof -
  have len: "length im = m" "length om = n" using assms(1) by (auto simp: matching_def)
  have "\<exists>l<n. (im[i := int j]) ! k = int l \<and> (om[j := int i]) ! l = int k \<and> R k l"
    if k: "k < m" "(im[i := int j]) ! k \<noteq> -1" for k
  proof (cases "k = i")
    case True
    with assms len show ?thesis by auto
  next
    case False
    with k len have "im ! k \<noteq> -1" by simp
    from matching_inD [OF assms(1) k(1) this] obtain l
      where l: "l < n" "im ! k = int l" "om ! l = int k" "R k l" by auto
    with assms(5) have "l \<noteq> j" by auto
    with l False len k(1) show ?thesis by auto
  qed
  moreover have "\<exists>k<m. (om[j := int i]) ! l = int k \<and> (im[i := int j]) ! k = int l \<and> R k l"
    if l: "l < n" "(om[j := int i]) ! l \<noteq> -1" for l
  proof (cases "l = j")
    case True
    with assms len show ?thesis by auto
  next
    case False
    with l len have "om ! l \<noteq> -1" by simp
    from matching_outD [OF assms(1) l(1) this] obtain k
      where k: "k < m" "om ! l = int k" "im ! k = int l" "R k l" by auto
    with assms(4) have "k \<noteq> i" by auto
    with k False len l(1) show ?thesis by auto
  qed
  ultimately show ?thesis using len unfolding matching_def by (metis length_list_update)
qed

lemma matching_mono:
  "matching m n R im om \<Longrightarrow> (\<And>i j. i < m \<Longrightarrow> j < n \<Longrightarrow> R i j \<Longrightarrow> S i j) \<Longrightarrow> matching m n S im om"
  unfolding matching_def by blast

text \<open>A step that extends a matching unless it is maximal gives a maximal one after enough steps.\<close>

lemma iterations_progress:
  assumes "I s"
    and "\<And>k s. I s \<Longrightarrow> I (f k s) \<and>
      (good s \<longrightarrow> good (f k s)) \<and> (\<not> good s \<longrightarrow> c s < (c (f k s) :: nat))"
  shows "I (fold f ks s) \<and> (good (fold f ks s) \<or> c s + length ks \<le> c (fold f ks s)) \<and>
    (good s \<longrightarrow> good (fold f ks s))"
  using assms(1)
proof (induction ks arbitrary: s)
  case (Cons k ks)
  from assms(2) [OF Cons.prems] have s: "I (f k s)" "good s \<longrightarrow> good (f k s)"
    "\<not> good s \<longrightarrow> c s < c (f k s)" by auto
  from Cons.IH [OF s(1)] s(2,3) show ?case by (cases "good s") auto
qed simp

subsection \<open>The contract\<close>

text \<open>A request is an input, an output, a label, and the priorities at the input and the output.\<close>

type_synonym areq = "(nat \<times> nat) \<times> int \<times> int \<times> int"

definition alloc_ask :: "'s alloc_class \<Rightarrow> areq list \<Rightarrow> 's \<Rightarrow> 's option" where
  "alloc_ask A rs s = foldM (\<lambda>r. alloc_AddRequest A (fst (fst r)) (snd (fst r))
     (fst (snd r)) (fst (snd (snd r))) (snd (snd (snd r)))) rs s"

definition alloc_round :: "'s alloc_class \<Rightarrow> areq list \<Rightarrow> 's \<Rightarrow> 's option" where
  "alloc_round A rs s = do { t \<leftarrow> alloc_ask A rs (alloc_Clear A s); alloc_Allocate A t }"

fun alloc_rounds :: "'s alloc_class \<Rightarrow> areq list list \<Rightarrow> 's \<Rightarrow> 's list option" where
  "alloc_rounds A [] s = Some []"
| "alloc_rounds A (rs # rss) s =
     do { t \<leftarrow> alloc_round A rs s; ts \<leftarrow> alloc_rounds A rss t; Some (t # ts) }"

definition legal_areqs :: "nat \<Rightarrow> nat \<Rightarrow> areq list \<Rightarrow> bool" where
  "legal_areqs m n rs \<longleftrightarrow> distinct (map fst rs) \<and>
     (\<forall>r \<in> set rs. fst (fst r) < m \<and> snd (fst r) < n \<and> 0 \<le> fst (snd r))"

definition asked :: "((nat \<times> nat) \<rightharpoonup> int \<times> int \<times> int) \<Rightarrow> nat \<Rightarrow> nat \<Rightarrow> bool" where
  "asked Q i j \<longleftrightarrow> Q (i, j) \<noteq> None"

locale allocator =
  fixes A :: "'s alloc_class"
    and ins :: "'s \<Rightarrow> nat" and outs :: "'s \<Rightarrow> nat"
    and im :: "'s \<Rightarrow> int list" and om :: "'s \<Rightarrow> int list"
    and areqs :: "'s \<Rightarrow> (nat \<times> nat) \<rightharpoonup> int \<times> int \<times> int"
    and ready :: "'s \<Rightarrow> bool" and finished :: "'s \<Rightarrow> bool"
    and promise :: "'s \<Rightarrow> ((nat \<times> nat) \<rightharpoonup> int \<times> int \<times> int) \<Rightarrow> bool"
  assumes clear: "finished s \<Longrightarrow> ready (alloc_Clear A s) \<and> areqs (alloc_Clear A s) = Map.empty \<and>
      ins (alloc_Clear A s) = ins s \<and> outs (alloc_Clear A s) = outs s"
    and add: "ready s \<Longrightarrow> i < ins s \<Longrightarrow> j < outs s \<Longrightarrow> areqs s (i, j) = None \<Longrightarrow> 0 \<le> l \<Longrightarrow>
      \<exists>t. alloc_AddRequest A i j l p q s = Some t \<and> ready t \<and>
        areqs t = (areqs s)((i, j) \<mapsto> (l, p, q)) \<and> ins t = ins s \<and> outs t = outs s"
    and allocate: "ready s \<Longrightarrow> \<exists>t. alloc_Allocate A s = Some t \<and> finished t \<and>
      ins t = ins s \<and> outs t = outs s \<and>
      matching (ins s) (outs s) (asked (areqs s)) (im t) (om t) \<and> promise t (areqs s)"
begin

lemma ask:
  assumes "ready s" and "legal_areqs (ins s) (outs s) rs" and "\<forall>r \<in> set rs. areqs s (fst r) = None"
  shows "\<exists>t. alloc_ask A rs s = Some t \<and> ready t \<and> ins t = ins s \<and> outs t = outs s \<and>
    areqs t = areqs s ++ map_of rs"
  using assms
proof (induction rs arbitrary: s)
  case Nil
  then show ?case by (simp add: alloc_ask_def)
next
  case (Cons r rs)
  obtain i j l p q where r: "r = ((i, j), l, p, q)" by (metis prod.collapse)
  from Cons.prems have "i < ins s" "j < outs s" "areqs s (i, j) = None" "0 \<le> l"
    by (auto simp: r legal_areqs_def)
  from add [OF Cons.prems(1) this, of p q] obtain t
    where t: "alloc_AddRequest A i j l p q s = Some t" "ready t" "ins t = ins s" "outs t = outs s"
      "areqs t = (areqs s)((i, j) \<mapsto> (l, p, q))" by auto
  have new: "(i, j) \<notin> fst ` set rs" using Cons.prems(2) by (auto simp: r legal_areqs_def)
  have "legal_areqs (ins t) (outs t) rs" using Cons.prems(2) t by (simp add: r legal_areqs_def)
  moreover have "\<forall>x \<in> set rs. areqs t (fst x) = None"
    using Cons.prems(3) new t(5) by (auto simp: r image_iff)
  ultimately obtain u where u: "alloc_ask A rs t = Some u" "ready u" "ins u = ins t"
    "outs u = outs t" "areqs u = areqs t ++ map_of rs" using Cons.IH [OF t(2)] by auto
  from new have "map_of rs (i, j) = None" by (simp add: map_of_eq_None_iff)
  then have "areqs u x = (areqs s ++ map_of (r # rs)) x" for x
    unfolding u(5) t(5) r map_add_def by (cases "x = (i, j)") (auto split: option.split)
  then have new: "areqs u = areqs s ++ map_of (r # rs)" ..
  have "alloc_ask A (r # rs) s = alloc_ask A rs t" by (simp add: alloc_ask_def r t(1))
  with u(1,3,4) t(3,4) have "alloc_ask A (r # rs) s = Some u" "ins u = ins s" "outs u = outs s"
    by simp_all
  with u(2) new show ?case by blast
qed

lemma round:
  assumes "finished s" and "legal_areqs (ins s) (outs s) rs"
  shows "\<exists>t. alloc_round A rs s = Some t \<and> finished t \<and> ins t = ins s \<and> outs t = outs s \<and>
    matching (ins s) (outs s) (asked (map_of rs)) (im t) (om t) \<and> promise t (map_of rs)"
proof -
  from clear [OF assms(1)] assms(2) ask [of "alloc_Clear A s" rs] obtain u
    where u: "alloc_ask A rs (alloc_Clear A s) = Some u" "ready u" "ins u = ins s" "outs u = outs s"
      "areqs u = map_of rs" by auto
  with allocate [OF u(2)] show ?thesis by (auto simp: alloc_round_def)
qed

text \<open>Every round of a run grants a matching of its requests, as good as promised.\<close>

lemma rounds:
  assumes "finished s" and "\<forall>rs \<in> set rss. legal_areqs (ins s) (outs s) rs"
  shows "\<exists>ts. alloc_rounds A rss s = Some ts \<and>
    list_all2 (\<lambda>rs t. ins t = ins s \<and> outs t = outs s \<and>
      matching (ins s) (outs s) (asked (map_of rs)) (im t) (om t) \<and> promise t (map_of rs)) rss ts"
  using assms
proof (induction rss arbitrary: s)
  case (Cons rs rss)
  then obtain t where t: "alloc_round A rs s = Some t" "finished t" "ins t = ins s" "outs t = outs s"
    "matching (ins s) (outs s) (asked (map_of rs)) (im t) (om t)" "promise t (map_of rs)"
    using round [of s rs] by auto
  with Cons.IH [of t] Cons.prems(2) show ?case by auto
qed simp

end

subsection \<open>The base classes\<close>

lemma grant_simps [simp]:
  "al_inputs (grant i j a) = al_inputs a" "al_outputs (grant i j a) = al_outputs a"
  "al_dirty (grant i j a) = al_dirty a" "inmatch (grant i j a) = (inmatch a)[i := int j]"
  "outmatch (grant i j a) = (outmatch a)[j := int i]"
  by (simp_all add: grant_def)

lemma grant_more [simp]: "alloc_base.more (grant i j a) = alloc_base.more a"
  by (simp add: grant_def)

text \<open>\<open>base_clean\<close>: no grants; the flag \<open>_dirty\<close> is set when there may be some.\<close>

definition base_shape :: "'a alloc_base_scheme \<Rightarrow> bool" where
  "base_shape a \<longleftrightarrow> length (inmatch a) = al_inputs a \<and> length (outmatch a) = al_outputs a \<and>
     (\<not> al_dirty a \<longrightarrow> inmatch a = replicate (al_inputs a) (-1) \<and>
        outmatch a = replicate (al_outputs a) (-1))"

definition base_clean :: "'a alloc_base_scheme \<Rightarrow> bool" where
  "base_clean a \<longleftrightarrow> inmatch a = replicate (al_inputs a) (-1) \<and>
     outmatch a = replicate (al_outputs a) (-1)"

lemma base_clean_shape: "base_clean a \<Longrightarrow> base_shape a"
  by (simp add: base_clean_def base_shape_def)

lemma base_clean_matching: "base_clean a \<Longrightarrow> matching (al_inputs a) (al_outputs a) R (inmatch a) (outmatch a)"
  by (simp add: base_clean_def matching_none)

lemma Allocator_Clear_clean: "base_shape a \<Longrightarrow> base_clean (Allocator_Clear a)"
  by (simp add: base_clean_def base_shape_def Allocator_Clear_def)

lemma Allocator_Clear_simps [simp]:
  "al_inputs (Allocator_Clear a) = al_inputs a" "al_outputs (Allocator_Clear a) = al_outputs a"
  "alloc_base.more (Allocator_Clear a) = alloc_base.more a"
  by (simp_all add: Allocator_Clear_def)

lemma Allocator_init_clean: "base_clean (Allocator_init m n)"
  by (simp add: base_clean_def Allocator_init_def)

text \<open>Dense allocators.\<close>

definition dense_areqs :: "'a dense_alloc_scheme \<Rightarrow> (nat \<times> nat) \<rightharpoonup> int \<times> int \<times> int" where
  "dense_areqs a = (\<lambda>(i, j). if i < al_inputs a \<and> j < al_outputs a \<and> sr_label (d_request a ! i ! j) \<noteq> -1
     then Some (sr_label (d_request a ! i ! j), sr_in_pri (d_request a ! i ! j), sr_out_pri (d_request a ! i ! j))
     else None)"

definition dense_shape :: "'a dense_alloc_scheme \<Rightarrow> bool" where
  "dense_shape a \<longleftrightarrow> length (d_request a) = al_inputs a \<and>
     (\<forall>i<al_inputs a. length (d_request a ! i) = al_outputs a)"

lemma asked_dense:
  "i < al_inputs a \<Longrightarrow> j < al_outputs a \<Longrightarrow>
    asked (dense_areqs a) i j \<longleftrightarrow> sr_label (d_request a ! i ! j) \<noteq> -1"
  by (simp add: asked_def dense_areqs_def)

lemma dense_areqs_cong:
  "al_inputs a = al_inputs b \<Longrightarrow> al_outputs a = al_outputs b \<Longrightarrow> d_request a = d_request b \<Longrightarrow>
    dense_areqs a = dense_areqs b"
  by (simp only: dense_areqs_def)

lemma dense_shape_cong:
  "al_inputs a = al_inputs b \<Longrightarrow> al_outputs a = al_outputs b \<Longrightarrow> d_request a = d_request b \<Longrightarrow>
    dense_shape a = dense_shape b"
  by (simp add: dense_shape_def)

lemma dense_Clear_simps [simp]:
  "al_inputs (Dense_Clear a) = al_inputs a" "al_outputs (Dense_Clear a) = al_outputs a"
  "dense_alloc.more (Dense_Clear a) = dense_alloc.more a"
  "d_request (Dense_Clear a) = map (map (\<lambda>r. r\<lparr>sr_label := -1\<rparr>)) (d_request a)"
  by (simp_all add: Dense_Clear_def Allocator_Clear_def)

lemma Dense_Clear:
  assumes "base_shape a" and "dense_shape a"
  shows "base_clean (Dense_Clear a)" and "dense_shape (Dense_Clear a)"
    and "dense_areqs (Dense_Clear a) = Map.empty"
proof -
  show "base_clean (Dense_Clear a)"
    unfolding Dense_Clear_def using assms(1) by (intro Allocator_Clear_clean) (simp add: base_shape_def)
  show "dense_shape (Dense_Clear a)" using assms(2) by (simp add: dense_shape_def)
  show "dense_areqs (Dense_Clear a) = Map.empty"
    using assms(2) by (auto simp: dense_areqs_def dense_shape_def fun_eq_iff)
qed

lemma Dense_AddRequest:
  assumes "dense_shape a" and "i < al_inputs a" and "j < al_outputs a" and "dense_areqs a (i, j) = None"
    and "0 \<le> l"
  shows "\<exists>t. Dense_AddRequest i j l p q a = Some t \<and> dense_shape t \<and>
    dense_areqs t = (dense_areqs a)((i, j) \<mapsto> (l, p, q)) \<and>
    (base_clean a \<longrightarrow> base_clean t) \<and> al_inputs t = al_inputs a \<and> al_outputs t = al_outputs a \<and>
    dense_alloc.more t = dense_alloc.more a \<and> inmatch t = inmatch a \<and> outmatch t = outmatch a"
proof -
  have lab: "sr_label (d_request a ! i ! j) = -1"
    using assms(2-4) by (auto simp: dense_areqs_def split: if_splits)
  then obtain t where t: "Dense_AddRequest i j l p q a = Some t"
    "t = a\<lparr>al_dirty := True, d_request := (d_request a)[i := (d_request a ! i)
       [j := (d_request a ! i ! j)\<lparr>sr_label := l, sr_in_pri := p, sr_out_pri := q\<rparr>]]\<rparr>"
    using assms(2,3,5) by (simp add: Dense_AddRequest_def Allocator_AddRequest_def)
  have "dense_areqs t = (dense_areqs a)((i, j) \<mapsto> (l, p, q))"
    using assms(1-3,5) t(2) by (auto simp: dense_areqs_def dense_shape_def fun_eq_iff nth_list_update)
  moreover have "dense_shape t"
    using assms(1,2) t(2) by (auto simp: dense_shape_def nth_list_update)
  ultimately show ?thesis using t by (simp add: base_clean_def)
qed

definition dense_ready :: "'a dense_alloc_scheme \<Rightarrow> bool" where
  "dense_ready a \<longleftrightarrow> base_clean a \<and> dense_shape a \<and> (al_dirty a \<or> dense_areqs a = Map.empty)"

definition dense_finished :: "'a dense_alloc_scheme \<Rightarrow> bool" where
  "dense_finished a \<longleftrightarrow> base_shape a \<and> dense_shape a"

lemma dense_clear:
  "dense_finished a \<Longrightarrow> dense_ready (Dense_Clear a) \<and> dense_areqs (Dense_Clear a) = Map.empty"
  using Dense_Clear [of a] by (simp add: dense_ready_def dense_finished_def)

lemma dense_add:
  assumes "dense_ready a" and "i < al_inputs a" and "j < al_outputs a" and "dense_areqs a (i, j) = None"
    and "0 \<le> l"
  shows "\<exists>t. Dense_AddRequest i j l p q a = Some t \<and> dense_ready t \<and>
    dense_areqs t = (dense_areqs a)((i, j) \<mapsto> (l, p, q)) \<and> al_inputs t = al_inputs a \<and>
    al_outputs t = al_outputs a \<and> dense_alloc.more t = dense_alloc.more a"
proof -
  from Dense_AddRequest [of a i j l p q] assms obtain t
    where t: "Dense_AddRequest i j l p q a = Some t" "dense_shape t" "base_clean t"
      "dense_areqs t = (dense_areqs a)((i, j) \<mapsto> (l, p, q))" "al_inputs t = al_inputs a"
      "al_outputs t = al_outputs a" "dense_alloc.more t = dense_alloc.more a"
    by (auto simp: dense_ready_def)
  then have "al_dirty t" by (auto simp: Dense_AddRequest_def Allocator_AddRequest_def)
  with t show ?thesis by (auto simp: dense_ready_def)
qed

lemma no_requests_no_grants:
  assumes "matching m n (asked Map.empty) im om"
  shows "im = replicate m (-1) \<and> om = replicate n (-1)"
  using assms by (auto simp: matching_def asked_def intro!: nth_equalityI)

lemma dense_done:
  assumes "dense_ready a" and "d_request t = d_request a" and "al_inputs t = al_inputs a"
    and "al_outputs t = al_outputs a" and "al_dirty t = al_dirty a"
    and "matching (al_inputs a) (al_outputs a) (asked (dense_areqs a)) (inmatch t) (outmatch t)"
  shows "dense_finished t"
  using assms no_requests_no_grants matching_lengths [OF assms(6)]
  by (auto simp: dense_ready_def dense_finished_def base_shape_def dense_shape_def)

lemma Dense_init:
  "base_clean (Dense_init m n)" "dense_shape (Dense_init m n)"
  "al_inputs (Dense_init m n) = m" "al_outputs (Dense_init m n) = n"
  by (simp_all add: Dense_init_def alloc_base.defs Allocator_init_def base_clean_def dense_shape_def)

lemma Dense_init_finished: "dense_finished (Dense_init m n)"
  by (simp add: dense_finished_def base_clean_shape Dense_init)

lemma dense_finished_cong:
  "alloc_base.truncate a = alloc_base.truncate b \<Longrightarrow> d_request a = d_request b \<Longrightarrow>
    dense_finished a = dense_finished b"
  by (simp add: dense_finished_def base_shape_def dense_shape_def alloc_base.defs)

end
