(* ===== verification/Maximum_Matching.thy ===== *)
theory Maximum_Matching
  imports Allocator_Properties
begin

text \<open>
  The maximum size allocator (maxsize.cpp) grants a matching that no other matching of the requests
  exceeds.  The search from the unmatched inputs builds a forest of alternating paths
  (\<open>forest\<close>); a free output it reaches ends an augmenting path, which \<open>ms_flip\<close> turns around; if
  it reaches none, the reached outputs and the inputs not reached cover all requests.
\<close>

abbreviation ms_edge :: "maxsize \<Rightarrow> nat \<Rightarrow> nat \<Rightarrow> bool" where
  "ms_edge a i j \<equiv> sr_label (d_request a ! i ! j) \<noteq> -1"

abbreviation ms_matched :: "maxsize \<Rightarrow> bool" where
  "ms_matched a \<equiv> matching (al_inputs a) (al_outputs a) (ms_edge a) (inmatch a) (outmatch a)"

subsection \<open>The forest\<close>

definition forest :: "maxsize \<Rightarrow> (nat \<Rightarrow> nat) \<Rightarrow> int list \<Rightarrow> bool" where
  "forest a d from \<longleftrightarrow> length from = al_inputs a \<and>
     (\<forall>j<al_outputs a. from ! j \<noteq> -1 \<longrightarrow>
       (\<exists>i<al_inputs a. from ! j = int i \<and> ms_edge a i j \<and> inmatch a ! i \<noteq> int j \<and>
         (inmatch a ! i = -1 \<or>
          (\<exists>k<al_outputs a. inmatch a ! i = int k \<and> from ! k \<noteq> -1 \<and> d k < d j))))"

definition in_forest :: "maxsize \<Rightarrow> int list \<Rightarrow> nat \<Rightarrow> bool" where
  "in_forest a from i \<longleftrightarrow> i < al_inputs a \<and>
     (inmatch a ! i = -1 \<or> (\<exists>k<al_outputs a. inmatch a ! i = int k \<and> from ! k \<noteq> -1))"

definition search_inv :: "maxsize \<Rightarrow> int list \<Rightarrow> nat list \<Rightarrow> bool" where
  "search_inv a from v \<longleftrightarrow> (\<exists>d. forest a d from) \<and>
     (\<forall>j<al_outputs a. from ! j \<noteq> -1 \<longrightarrow> outmatch a ! j \<noteq> -1) \<and>
     distinct v \<and> set v = {i. in_forest a from i}"

definition explored :: "maxsize \<Rightarrow> int list \<Rightarrow> nat list \<Rightarrow> nat \<Rightarrow> bool" where
  "explored a from js i \<longleftrightarrow> (\<forall>j \<in> set js. ms_edge a i j \<longrightarrow> inmatch a ! i = int j \<or> from ! j \<noteq> -1)"

definition extends :: "int list \<Rightarrow> int list \<Rightarrow> bool" where
  "extends from from' \<longleftrightarrow> (\<forall>j<length from. from ! j \<noteq> -1 \<longrightarrow> from' ! j \<noteq> -1)"

definition found :: "maxsize \<Rightarrow> int list \<Rightarrow> nat \<Rightarrow> bool" where
  "found a from j \<longleftrightarrow> j < al_outputs a \<and> (\<exists>d. forest a d from) \<and> from ! j \<noteq> -1 \<and> outmatch a ! j = -1"

lemma extends_refl: "extends from from"
  by (simp add: extends_def)

lemma forest_add:
  assumes "forest a d from" and "in_forest a from i" and "j < al_outputs a" and "from ! j = -1"
    and "ms_edge a i j" and "inmatch a ! i \<noteq> int j" and "al_outputs a \<le> al_inputs a"
  shows "\<exists>e. forest a e (from[j := int i])"
proof -
  let ?e = "d(j := if inmatch a ! i = -1 then 0 else Suc (d (nat (inmatch a ! i))))"
  have len: "length from = al_inputs a" and j: "j < length from"
    using assms(1,3,7) by (auto simp: forest_def)
  have "\<exists>i'<al_inputs a. from[j := int i] ! l = int i' \<and> ms_edge a i' l \<and> inmatch a ! i' \<noteq> int l \<and>
      (inmatch a ! i' = -1 \<or> (\<exists>k<al_outputs a. inmatch a ! i' = int k \<and>
        from[j := int i] ! k \<noteq> -1 \<and> ?e k < ?e l))"
    if l: "l < al_outputs a" "from[j := int i] ! l \<noteq> -1" for l
  proof (cases "l = j")
    case True
    from assms(2) have i: "i < al_inputs a"
      "inmatch a ! i = -1 \<or> (\<exists>k<al_outputs a. inmatch a ! i = int k \<and> from ! k \<noteq> -1)"
      by (auto simp: in_forest_def)
    from i(2) show ?thesis
    proof
      assume "inmatch a ! i = -1"
      with i(1) assms(5) j show ?thesis unfolding True by auto
    next
      assume "\<exists>k<al_outputs a. inmatch a ! i = int k \<and> from ! k \<noteq> -1"
      then obtain k where k: "k < al_outputs a" "inmatch a ! i = int k" "from ! k \<noteq> -1" by auto
      then have "k \<noteq> j" using assms(4) by auto
      then have "from[j := int i] ! k \<noteq> -1" "?e k < ?e j" using k by simp_all
      with i(1) assms(5,6) j k(1,2) show ?thesis unfolding True by auto
    qed
  next
    case False
    with l have "from ! l \<noteq> -1" by simp
    with assms(1) l(1) obtain i' where i': "i' < al_inputs a" "from ! l = int i'" "ms_edge a i' l"
      "inmatch a ! i' \<noteq> int l"
      and up: "inmatch a ! i' = -1 \<or>
        (\<exists>k<al_outputs a. inmatch a ! i' = int k \<and> from ! k \<noteq> -1 \<and> d k < d l)"
      unfolding forest_def by blast
    have "inmatch a ! i' = -1 \<or> (\<exists>k<al_outputs a. inmatch a ! i' = int k \<and>
        from[j := int i] ! k \<noteq> -1 \<and> ?e k < ?e l)"
      using up
    proof
      assume "\<exists>k<al_outputs a. inmatch a ! i' = int k \<and> from ! k \<noteq> -1 \<and> d k < d l"
      then obtain k where k: "k < al_outputs a" "inmatch a ! i' = int k" "from ! k \<noteq> -1" "d k < d l"
        by auto
      then have "k \<noteq> j" using assms(4) by auto
      with k False have "from[j := int i] ! k \<noteq> -1" "?e k < ?e l" by simp_all
      with k(1,2) show ?thesis by blast
    qed simp
    moreover have "from[j := int i] ! l = int i'" using False i'(2) by simp
    ultimately show ?thesis using i'(1,3,4) by blast
  qed
  then have "forest a ?e (from[j := int i])" using len unfolding forest_def by simp
  then show ?thesis by blast
qed

lemma search_inv_add:
  assumes "ms_matched a" and "search_inv a from v" and "in_forest a from i" and "j < al_outputs a"
    and "from ! j = -1" and "ms_edge a i j" and "inmatch a ! i \<noteq> int j"
    and "al_outputs a \<le> al_inputs a" and "outmatch a ! j \<noteq> -1"
  shows "search_inv a (from[j := int i]) (v @ [nat (outmatch a ! j)])"
proof -
  from matching_outD [OF assms(1,4,9)] obtain k where k: "k < al_inputs a" "outmatch a ! j = int k"
    "inmatch a ! k = int j" by auto
  from assms(2) obtain d where d: "forest a d from" by (auto simp: search_inv_def)
  then have j: "j < length from" using assms(4,8) by (auto simp: forest_def)
  have "\<not> in_forest a from k" using k assms(5) by (auto simp: in_forest_def)
  moreover have "in_forest a (from[j := int i]) x \<longleftrightarrow> x = k \<or> in_forest a from x" for x
  proof -
    have "(\<exists>l<al_outputs a. inmatch a ! x = int l \<and> from[j := int i] ! l \<noteq> -1) \<longleftrightarrow>
        inmatch a ! x = int j \<or> (\<exists>l<al_outputs a. inmatch a ! x = int l \<and> from ! l \<noteq> -1)"
      using j assms(4,5) by (auto simp: nth_list_update)
    moreover have "x < al_inputs a \<Longrightarrow> inmatch a ! x = int j \<longleftrightarrow> x = k"
      using matching_inD [OF assms(1), of x] k by force
    ultimately show ?thesis using k(1) by (auto simp: in_forest_def)
  qed
  ultimately show ?thesis
    using forest_add [OF d assms(3-8)] assms(2,9) k(2) j
    by (auto simp: search_inv_def nth_list_update)
qed

subsection \<open>The search\<close>

lemma extends_trans: "extends f g \<Longrightarrow> extends g h \<Longrightarrow> length g = length f \<Longrightarrow> extends f h"
  by (simp add: extends_def)

lemma explored_mono:
  "explored a from js i \<Longrightarrow> extends from from' \<Longrightarrow> \<forall>j \<in> set js. j < length from \<Longrightarrow>
    explored a from' js i"
  by (auto simp: explored_def extends_def)

lemma in_forest_mono:
  "in_forest a from i \<Longrightarrow> extends from from' \<Longrightarrow> al_outputs a \<le> length from \<Longrightarrow> in_forest a from' i"
  by (fastforce simp: in_forest_def extends_def)

lemma search_inv_length: "search_inv a from v \<Longrightarrow> length from = al_inputs a"
  by (auto simp: search_inv_def forest_def)

lemma ms_edges:
  assumes "ms_matched a" and "al_outputs a \<le> al_inputs a" and "search_inv a from (w @ ns)"
    and "in_forest a from i" and "\<forall>j \<in> set js. j < al_outputs a"
  shows "\<exists>from' r. ms_edges a i js from ns = Some (from', r) \<and>
    (case r of
       Inl j \<Rightarrow> found a from' j
     | Inr ns' \<Rightarrow> search_inv a from' (w @ ns') \<and> extends from from' \<and> explored a from' js i)"
  using assms(3-5)
proof (induction js arbitrary: "from" ns)
  case Nil
  then show ?case by (simp add: extends_refl explored_def)
next
  case (Cons j js)
  have j: "j < al_outputs a" and js: "\<forall>l \<in> set js. l < al_outputs a" using Cons.prems(3) by auto
  have len: "length from = al_inputs a" using search_inv_length [OF Cons.prems(1)] .
  with j assms(2) have jl: "j < length from" by simp
  show ?case
  proof (cases "ms_edge a i j \<and> inmatch a ! i \<noteq> int j \<and> from ! j = -1")
    case False
    then have "ms_edges a i (j # js) from ns = ms_edges a i js from ns" using jl by auto
    moreover from Cons.IH [OF Cons.prems(1,2) js] obtain from' r
      where r: "ms_edges a i js from ns = Some (from', r)"
        "case r of Inl j \<Rightarrow> found a from' j
         | Inr ns' \<Rightarrow> search_inv a from' (w @ ns') \<and> extends from from' \<and> explored a from' js i" by auto
    moreover have "explored a from' (j # js) i" if "explored a from' js i" "extends from from'"
      using that False jl by (auto simp: explored_def extends_def)
    ultimately show ?thesis by (cases r) auto
  next
    case new: True
    let ?from = "from[j := int i]"
    have ext: "extends from ?from" using jl by (auto simp: extends_def nth_list_update)
    show ?thesis
    proof (cases "outmatch a ! j = -1")
      case True
      have "\<exists>d. forest a d ?from"
        using Cons.prems(1) forest_add [OF _ Cons.prems(2) j] new assms(2) by (auto simp: search_inv_def)
      with True new j jl show ?thesis by (simp add: found_def)
    next
      case False
      let ?ns = "ns @ [nat (outmatch a ! j)]"
      have "search_inv a ?from ((w @ ns) @ [nat (outmatch a ! j)])"
        using search_inv_add [OF assms(1) Cons.prems(1,2) j] new assms(2) False by blast
      then have inv: "search_inv a ?from (w @ ?ns)" by simp
      have "in_forest a ?from i"
        using in_forest_mono [OF Cons.prems(2) ext] assms(2) len by simp
      from Cons.IH [OF inv this js] obtain from' r
        where r: "ms_edges a i js ?from ?ns = Some (from', r)"
          "case r of Inl j \<Rightarrow> found a from' j
           | Inr ns' \<Rightarrow> search_inv a from' (w @ ns') \<and> extends ?from from' \<and> explored a from' js i" by auto
      moreover have "explored a from' (j # js) i \<and> extends from from'"
        if "explored a from' js i" "extends ?from from'"
        using that jl extends_trans [OF ext that(2)] by (auto simp: explored_def extends_def)
      moreover have "ms_edges a i (j # js) from ns = ms_edges a i js ?from ?ns"
        using new False jl by simp
      ultimately show ?thesis by (cases r) auto
    qed
  qed
qed

lemma ms_layer:
  assumes "ms_matched a" and "al_outputs a \<le> al_inputs a" and "search_inv a from (p @ s @ ns)"
    and "\<forall>i \<in> set p. explored a from [0..<al_outputs a] i"
  shows "\<exists>from' r. ms_layer a s from ns = Some (from', r) \<and>
    (case r of
       Inl j \<Rightarrow> found a from' j
     | Inr ns' \<Rightarrow> search_inv a from' (p @ s @ ns') \<and>
         (\<forall>i \<in> set (p @ s). explored a from' [0..<al_outputs a] i))"
  using assms(3,4)
proof (induction s arbitrary: "from" ns p)
  case (Cons i s)
  have "in_forest a from i" using Cons.prems(1) by (auto simp: search_inv_def)
  with ms_edges [OF assms(1,2), of "from" "p @ i # s" ns i "[0..<al_outputs a]"] Cons.prems(1)
  obtain from1 r1 where r1: "ms_edges a i [0..<al_outputs a] from ns = Some (from1, r1)"
    "case r1 of Inl j \<Rightarrow> found a from1 j
     | Inr ns' \<Rightarrow> search_inv a from1 ((p @ i # s) @ ns') \<and> extends from from1 \<and>
         explored a from1 [0..<al_outputs a] i" by auto
  show ?case
  proof (cases r1)
    case (Inl j)
    with r1 show ?thesis by simp
  next
    case (Inr ns1)
    with r1(2) have inv: "search_inv a from1 ((p @ [i]) @ s @ ns1)" by simp
    have "\<forall>k \<in> set (p @ [i]). explored a from1 [0..<al_outputs a] k"
      using Cons.prems(2) r1(2) Inr explored_mono [of a "from" "[0..<al_outputs a]" _ from1]
        search_inv_length [OF Cons.prems(1)] assms(2) by auto
    from Cons.IH [OF inv this] obtain from' r where "ms_layer a s from1 ns1 = Some (from', r)"
      "case r of Inl j \<Rightarrow> found a from' j
       | Inr ns' \<Rightarrow> search_inv a from' ((p @ [i]) @ s @ ns') \<and>
           (\<forall>k \<in> set ((p @ [i]) @ s). explored a from' [0..<al_outputs a] k)" by auto
    with r1(1) Inr show ?thesis by (cases r) auto
  qed
qed (auto split: sum.splits)

lemma ms_search:
  assumes "ms_matched a" and "al_outputs a \<le> al_inputs a" and "search_inv a from (p @ s)"
    and "\<forall>i \<in> set p. explored a from [0..<al_outputs a] i" and "s = [] \<or> al_inputs a \<le> length p + n"
  shows "\<exists>from' r. ms_search a n s from = Some (from', r) \<and>
    (case r of
       Some j \<Rightarrow> found a from' j
     | None \<Rightarrow> \<exists>v. search_inv a from' v \<and> (\<forall>i \<in> set v. explored a from' [0..<al_outputs a] i))"
  using assms(3-5)
proof (induction n arbitrary: "from" p s)
  case 0
  have "set (p @ s) \<subseteq> {..<al_inputs a}" "distinct (p @ s)"
    using 0(1) by (auto simp: search_inv_def in_forest_def)
  then have "length (p @ s) \<le> al_inputs a"
    by (metis card_lessThan card_mono distinct_card finite_lessThan)
  with 0(3) have "s = []" by (cases s) auto
  with 0 show ?case by auto
next
  case (Suc n)
  from ms_layer [OF assms(1,2), of "from" p s "[]"] Suc.prems obtain from1 r1
    where r1: "ms_layer a s from [] = Some (from1, r1)"
      "case r1 of Inl j \<Rightarrow> found a from1 j
       | Inr ns \<Rightarrow> search_inv a from1 (p @ s @ ns) \<and>
           (\<forall>i \<in> set (p @ s). explored a from1 [0..<al_outputs a] i)" by auto
  show ?case
  proof (cases r1)
    case (Inl j)
    with r1 show ?thesis by simp
  next
    case (Inr ns)
    have "ns = [] \<or> al_inputs a \<le> length (p @ s) + n"
      using Suc.prems(3) r1(1) Inr by (cases s) auto
    with Suc.IH [of from1 "p @ s" ns] r1 Inr show ?thesis by auto
  qed
qed

subsection \<open>No path: the matching is maximum\<close>

definition maximum :: "nat \<Rightarrow> nat \<Rightarrow> (nat \<Rightarrow> nat \<Rightarrow> bool) \<Rightarrow> int list \<Rightarrow> bool" where
  "maximum m n R im \<longleftrightarrow>
     (\<forall>im' om'. matching m n R im' om' \<longrightarrow> card (granted im') \<le> card (granted im))"

lemma no_path_maximum:
  assumes "ms_matched a" and "search_inv a from v"
    and "\<forall>i \<in> set v. explored a from [0..<al_outputs a] i"
  shows "maximum (al_inputs a) (al_outputs a) (ms_edge a) (inmatch a)"
  unfolding maximum_def
proof (intro allI impI)
  fix im' om' assume other: "matching (al_inputs a) (al_outputs a) (ms_edge a) im' om'"
  let ?F = "in_forest a from"
  let ?f = "\<lambda>i. if ?F i then nat (outmatch a ! nat (im' ! i)) else i"
  have len: "length (inmatch a) = al_inputs a" "length im' = al_inputs a"
    using matching_lengths [OF assms(1)] matching_lengths [OF other] by auto
  have reach: "\<exists>j<al_outputs a. im' ! i = int j \<and> om' ! j = int i \<and>
      (\<exists>k<al_inputs a. outmatch a ! j = int k \<and> inmatch a ! k = int j \<and> ?F k)"
    if i: "i \<in> granted im'" "?F i" for i
  proof -
    from matching_inD [OF other, of i] i len obtain j
      where j: "j < al_outputs a" "im' ! i = int j" "om' ! j = int i" "ms_edge a i j"
      by (auto simp: granted_def)
    have "explored a from [0..<al_outputs a] i" using assms(2,3) i(2) by (simp add: search_inv_def)
    then have "inmatch a ! i = int j \<or> from ! j \<noteq> -1" using j by (auto simp: explored_def)
    then have r: "from ! j \<noteq> -1"
      using i(2) by (auto simp: in_forest_def)
    then have "outmatch a ! j \<noteq> -1" using assms(2) j(1) by (simp add: search_inv_def)
    from matching_outD [OF assms(1) j(1) this] r j show ?thesis
      by (auto simp: in_forest_def)
  qed
  have "inj_on ?f (granted im')"
  proof (rule inj_onI)
    fix x y assume xy: "x \<in> granted im'" "y \<in> granted im'" "?f x = ?f y"
    show "x = y"
    proof (cases "?F x")
      case True
      from reach [OF xy(1) True] obtain j k where x: "im' ! x = int j" "om' ! j = int x"
        "outmatch a ! j = int k" "inmatch a ! k = int j" "?F k" by auto
      then have fx: "?f x = k" using True by simp
      have "?F y" using fx x(5) xy(3) by (cases "?F y") auto
      from reach [OF xy(2) this] obtain j' k' where y: "im' ! y = int j'" "om' ! j' = int y"
        "outmatch a ! j' = int k'" "inmatch a ! k' = int j'" by auto
      then have "?f y = k'" using \<open>?F y\<close> by simp
      with fx xy(3) x y show ?thesis by auto
    next
      case False
      have "\<not> ?F y"
      proof
        assume "?F y"
        from reach [OF xy(2) this] \<open>?F y\<close> have "?F (?f y)" by auto
        moreover have "?f x = x" using False by simp
        ultimately show False using False xy(3) by metis
      qed
      with False xy(3) show ?thesis by simp
    qed
  qed
  moreover have "?f ` granted im' \<subseteq> granted (inmatch a)"
  proof
    fix k assume "k \<in> ?f ` granted im'"
    then obtain i where i: "i \<in> granted im'" "k = ?f i" by auto
    show "k \<in> granted (inmatch a)"
    proof (cases "?F i")
      case True
      from reach [OF i(1) True] True i(2) len show ?thesis by (auto simp: granted_def)
    next
      case False
      with i len show ?thesis by (auto simp: granted_def in_forest_def)
    qed
  qed
  ultimately show "card (granted im') \<le> card (granted (inmatch a))"
    by (rule card_inj_on_le) simp
qed

subsection \<open>A path: one grant more\<close>

text \<open>What an allocation round keeps.\<close>

definition same_requests :: "maxsize \<Rightarrow> maxsize \<Rightarrow> bool" where
  "same_requests a t \<longleftrightarrow> al_inputs t = al_inputs a \<and> al_outputs t = al_outputs a \<and>
     d_request t = d_request a \<and> al_dirty t = al_dirty a \<and> ms_prio t = ms_prio a"

text \<open>\<open>flipping a0 d i j a\<close>: on the way up the path in the matching of \<open>a0\<close>, the output \<open>j\<close> has been
  given to the input \<open>i\<close>, which still has its old output.\<close>

definition flipping :: "maxsize \<Rightarrow> (nat \<Rightarrow> nat) \<Rightarrow> nat \<Rightarrow> nat \<Rightarrow> maxsize \<Rightarrow> bool" where
  "flipping a0 d i j a \<longleftrightarrow> same_requests a0 a \<and> forest a0 d (ms_from a) \<and>
     length (inmatch a) = al_inputs a0 \<and> length (outmatch a) = al_outputs a0 \<and>
     i < al_inputs a0 \<and> j < al_outputs a0 \<and> ms_from a ! j = int i \<and> outmatch a ! j = int i \<and>
     (\<forall>k<al_inputs a0. inmatch a ! k \<noteq> -1 \<longrightarrow>
       (\<exists>l<al_outputs a0. inmatch a ! k = int l \<and> outmatch a ! l = int k \<and> ms_edge a0 k l)) \<and>
     (\<forall>l<al_outputs a0. l \<noteq> j \<longrightarrow> outmatch a ! l \<noteq> -1 \<longrightarrow>
       (\<exists>k<al_inputs a0. outmatch a ! l = int k \<and> inmatch a ! k = int l)) \<and>
     (\<forall>k<al_inputs a0. inmatch a0 ! k = -1 \<or> (\<exists>l. inmatch a0 ! k = int l \<and> d l < d j) \<longrightarrow>
       inmatch a ! k = inmatch a0 ! k)"

lemma flipping_parent:
  assumes "flipping a0 d i j a"
  shows "ms_edge a0 i j" and "inmatch a ! i \<noteq> int j"
    and "inmatch a ! i = -1 \<or> (\<exists>k<al_outputs a0. inmatch a ! i = int k \<and> ms_from a ! k \<noteq> -1 \<and>
      d k < d j)"
proof -
  from assms have f: "forest a0 d (ms_from a)" "j < al_outputs a0" "ms_from a ! j = int i"
    "i < al_inputs a0"
    and old: "inmatch a0 ! i = -1 \<or> (\<exists>l. inmatch a0 ! i = int l \<and> d l < d j) \<longrightarrow>
      inmatch a ! i = inmatch a0 ! i" by (auto simp: flipping_def)
  then have p: "ms_edge a0 i j \<and> inmatch a0 ! i \<noteq> int j \<and> (inmatch a0 ! i = -1 \<or>
      (\<exists>k<al_outputs a0. inmatch a0 ! i = int k \<and> ms_from a ! k \<noteq> -1 \<and> d k < d j))"
    unfolding forest_def by fastforce
  with old show "ms_edge a0 i j" "inmatch a ! i \<noteq> int j" "inmatch a ! i = -1 \<or>
    (\<exists>k<al_outputs a0. inmatch a ! i = int k \<and> ms_from a ! k \<noteq> -1 \<and> d k < d j)" by auto
qed

lemma flipping_up:
  assumes "flipping a0 d i j a" and "inmatch a ! i = int k" and "k < al_outputs a0" and "d k < d j"
    and "ms_from a ! k \<noteq> -1"
  shows "flipping a0 d (nat (ms_from a ! k)) k
      (a\<lparr>inmatch := (inmatch a)[i := int j], outmatch := (outmatch a)[k := ms_from a ! k]\<rparr>)"
    and "granted ((inmatch a)[i := int j]) = granted (inmatch a)"
    and "0 \<le> ms_from a ! k"
proof -
  let ?t = "a\<lparr>inmatch := (inmatch a)[i := int j], outmatch := (outmatch a)[k := ms_from a ! k]\<rparr>"
  have h: "same_requests a0 a" "forest a0 d (ms_from a)"
    "length (inmatch a) = al_inputs a0" "length (outmatch a) = al_outputs a0"
    "i < al_inputs a0" "j < al_outputs a0" "ms_from a ! j = int i" "outmatch a ! j = int i"
    and ins: "\<forall>k<al_inputs a0. inmatch a ! k \<noteq> -1 \<longrightarrow>
       (\<exists>l<al_outputs a0. inmatch a ! k = int l \<and> outmatch a ! l = int k \<and> ms_edge a0 k l)"
    and outs: "\<forall>l<al_outputs a0. l \<noteq> j \<longrightarrow> outmatch a ! l \<noteq> -1 \<longrightarrow>
       (\<exists>k<al_inputs a0. outmatch a ! l = int k \<and> inmatch a ! k = int l)"
    and old: "\<forall>k<al_inputs a0. inmatch a0 ! k = -1 \<or> (\<exists>l. inmatch a0 ! k = int l \<and> d l < d j) \<longrightarrow>
       inmatch a ! k = inmatch a0 ! k"
    using assms(1) unfolding flipping_def by blast+
  have kj: "k \<noteq> j" using assms(4) by auto
  have ok: "outmatch a ! k = int i" using ins h(5) assms(2) by force
  from h(2) assms(3,5) obtain i' where i': "i' < al_inputs a0" "ms_from a ! k = int i'"
    unfolding forest_def by blast
  then show "0 \<le> ms_from a ! k" by simp
  have "i \<in> granted (inmatch a)" using h(3,5) assms(2) by (simp add: granted_def)
  then show "granted ((inmatch a)[i := int j]) = granted (inmatch a)"
    using granted_update [of i "inmatch a" j] h(3,5) by auto
  have "\<exists>l<al_outputs a0. inmatch ?t ! x = int l \<and> outmatch ?t ! l = int x \<and> ms_edge a0 x l"
    if x: "x < al_inputs a0" "inmatch ?t ! x \<noteq> -1" for x
  proof (cases "x = i")
    case True
    with h kj flipping_parent(1) [OF assms(1)] show ?thesis by auto
  next
    case False
    with x ins obtain l where l: "l < al_outputs a0" "inmatch a ! x = int l" "outmatch a ! l = int x"
      "ms_edge a0 x l" by auto
    with False ok have "l \<noteq> k" by auto
    with l False show ?thesis by auto
  qed
  moreover have "\<exists>x<al_inputs a0. outmatch ?t ! l = int x \<and> inmatch ?t ! x = int l"
    if l: "l < al_outputs a0" "l \<noteq> k" "outmatch ?t ! l \<noteq> -1" for l
  proof (cases "l = j")
    case True
    with h kj show ?thesis by auto
  next
    case False
    with l outs obtain x where x: "x < al_inputs a0" "outmatch a ! l = int x" "inmatch a ! x = int l"
      by auto
    then have "x \<noteq> i" using l(2) assms(2) by auto
    with x l(2) show ?thesis by auto
  qed
  moreover have "inmatch ?t ! x = inmatch a0 ! x"
    if x: "x < al_inputs a0" "inmatch a0 ! x = -1 \<or> (\<exists>l. inmatch a0 ! x = int l \<and> d l < d k)" for x
  proof -
    have same: "inmatch a ! x = inmatch a0 ! x" using old x assms(4) by fastforce
    have "x \<noteq> i" using same x(2) assms(2) by auto
    with same show ?thesis by simp
  qed
  ultimately show "flipping a0 d (nat (ms_from a ! k)) k ?t"
    using h(1-4) i' assms(3) unfolding flipping_def same_requests_def by simp
qed

lemma ms_flip:
  assumes "flipping a0 d i j a"
  shows "\<exists>t. ms_flip i j a = Some t \<and> ms_matched t \<and> same_requests a0 t \<and>
    card (granted (inmatch t)) = Suc (card (granted (inmatch a)))"
  using assms
proof (induction "d j" arbitrary: i j a rule: less_induct)
  case less
  from flipping_parent(3) [OF less.prems] show ?case
  proof
    assume free: "inmatch a ! i = -1"
    let ?t = "a\<lparr>inmatch := (inmatch a)[i := int j]\<rparr>"
    have h: "same_requests a0 a" "length (inmatch a) = al_inputs a0" "length (outmatch a) = al_outputs a0"
      "i < al_inputs a0" "j < al_outputs a0" "outmatch a ! j = int i"
      and ins: "\<forall>k<al_inputs a0. inmatch a ! k \<noteq> -1 \<longrightarrow>
         (\<exists>l<al_outputs a0. inmatch a ! k = int l \<and> outmatch a ! l = int k \<and> ms_edge a0 k l)"
      and outs: "\<forall>l<al_outputs a0. l \<noteq> j \<longrightarrow> outmatch a ! l \<noteq> -1 \<longrightarrow>
         (\<exists>k<al_inputs a0. outmatch a ! l = int k \<and> inmatch a ! k = int l)"
      using less.prems unfolding flipping_def by blast+
    have new: "\<exists>l<al_outputs a0. inmatch ?t ! x = int l \<and> outmatch ?t ! l = int x \<and> ms_edge a0 x l"
      if x: "x < al_inputs a0" "inmatch ?t ! x \<noteq> -1" for x
      using x h ins flipping_parent(1) [OF less.prems] by (cases "x = i") auto
    moreover have "\<exists>x<al_inputs a0. outmatch ?t ! l = int x \<and> inmatch ?t ! x = int l \<and> ms_edge a0 x l"
      if l: "l < al_outputs a0" "outmatch ?t ! l \<noteq> -1" for l
    proof -
      have "\<exists>x<al_inputs a0. outmatch ?t ! l = int x \<and> inmatch ?t ! x = int l"
      proof (cases "l = j")
        case True
        with h show ?thesis by auto
      next
        case False
        with l outs obtain x where x: "x < al_inputs a0" "outmatch a ! l = int x" "inmatch a ! x = int l"
          by auto
        then have "x \<noteq> i" using free by auto
        with x show ?thesis by auto
      qed
      then obtain x where x: "x < al_inputs a0" "outmatch ?t ! l = int x" "inmatch ?t ! x = int l" by auto
      with new [of x] show ?thesis by auto
    qed
    ultimately have "ms_matched ?t" using h(1-3) unfolding matching_def same_requests_def by auto
    moreover have "i \<notin> granted (inmatch a)" using free by (simp add: granted_def)
    moreover have "ms_flip i j a = Some ?t" using free by (simp add: ms_flip.simps)
    ultimately show ?thesis
      using h granted_update [of i "inmatch a" j] by (auto simp: same_requests_def)
  next
    assume "\<exists>k<al_outputs a0. inmatch a ! i = int k \<and> ms_from a ! k \<noteq> -1 \<and> d k < d j"
    then obtain k where k: "inmatch a ! i = int k" "k < al_outputs a0" "d k < d j" "ms_from a ! k \<noteq> -1"
      by auto
    note up = flipping_up [OF less.prems k]
    let ?t = "a\<lparr>inmatch := (inmatch a)[i := int j], outmatch := (outmatch a)[k := ms_from a ! k]\<rparr>"
    have "ms_flip i j a = ms_flip (nat (ms_from a ! k)) k ?t"
      by (subst ms_flip.simps) (simp add: k(1) up(3) Let_def)
    moreover from less.hyps [OF k(3) up(1)] up(2) obtain t
      where "ms_flip (nat (ms_from a ! k)) k ?t = Some t" "ms_matched t" "same_requests a0 t"
        "card (granted (inmatch t)) = Suc (card (granted (inmatch a)))" by auto
    ultimately show ?thesis by auto
  qed
qed

lemma search_start:
  assumes "ms_matched a" and "al_outputs a \<le> al_inputs a"
  shows "search_inv a (replicate (al_inputs a) (-1)) (ms_roots a)"
proof -
  have "distinct (ms_roots a)" "set (ms_roots a) = {i. i < al_inputs a \<and> inmatch a ! i = -1}"
    using distinct_round_robin [of "ms_prio a" "al_inputs a"] set_round_robin [of "ms_prio a" "al_inputs a"]
    by (auto simp: ms_roots_def)
  moreover have "in_forest a (replicate (al_inputs a) (-1)) i \<longleftrightarrow> i < al_inputs a \<and> inmatch a ! i = -1" for i
    using assms(2) by (auto simp: in_forest_def)
  moreover have "\<not> replicate (al_inputs a) (-1) ! j \<noteq> (-1::int)" if "j < al_outputs a" for j
    using that assms(2) by simp
  ultimately show ?thesis unfolding search_inv_def forest_def by auto
qed

lemma ShortestAugmenting:
  assumes "ms_matched a" and "al_outputs a \<le> al_inputs a"
  shows "\<exists>t found. ShortestAugmenting a = Some (t, found) \<and> ms_matched t \<and> same_requests a t \<and>
    (if found then card (granted (inmatch t)) = Suc (card (granted (inmatch a)))
     else maximum (al_inputs a) (al_outputs a) (ms_edge a) (inmatch t))"
proof -
  from ms_search [OF assms, of _ "[]"] search_start [OF assms] obtain f r
    where r: "ms_search a (al_inputs a) (ms_roots a) (replicate (al_inputs a) (-1)) = Some (f, r)"
      "case r of Some j \<Rightarrow> found a f j
       | None \<Rightarrow> \<exists>v. search_inv a f v \<and> (\<forall>i \<in> set v. explored a f [0..<al_outputs a] i)" by fastforce
  show ?thesis
  proof (cases r)
    case None
    with r(2) no_path_maximum [OF assms(1)] have "maximum (al_inputs a) (al_outputs a) (ms_edge a) (inmatch a)"
      by auto
    with None r(1) assms(1) show ?thesis
      by (intro exI [of _ "a\<lparr>ms_from := f\<rparr>"] exI [of _ False])
        (simp add: ShortestAugmenting_def same_requests_def)
  next
    case (Some j)
    with r(2) obtain d where d: "j < al_outputs a" "forest a d f" "f ! j \<noteq> -1" "outmatch a ! j = -1"
      by (auto simp: found_def)
    then obtain i where i: "i < al_inputs a" "f ! j = int i" unfolding forest_def by blast
    let ?s = "a\<lparr>ms_from := f, outmatch := (outmatch a)[j := f ! j]\<rparr>"
    have len: "length (inmatch a) = al_inputs a" "length (outmatch a) = al_outputs a"
      using matching_lengths [OF assms(1)] by auto
    have "\<exists>l<al_outputs a. inmatch a ! k = int l \<and> (outmatch a)[j := f ! j] ! l = int k \<and> ms_edge a k l"
      if k: "k < al_inputs a" "inmatch a ! k \<noteq> -1" for k
    proof -
      from matching_inD [OF assms(1) k] obtain l where l: "l < al_outputs a" "inmatch a ! k = int l"
        "outmatch a ! l = int k" "ms_edge a k l" by auto
      with d(4) have "l \<noteq> j" by auto
      with l show ?thesis by auto
    qed
    moreover have "\<exists>k<al_inputs a. (outmatch a)[j := f ! j] ! l = int k \<and> inmatch a ! k = int l"
      if "l < al_outputs a" "l \<noteq> j" "(outmatch a)[j := f ! j] ! l \<noteq> -1" for l
      using matching_outD [OF assms(1), of l] that by auto
    ultimately have "flipping a d i j ?s"
      using d(1,2) i len by (simp add: flipping_def same_requests_def)
    from ms_flip [OF this] obtain t where t: "ms_flip i j ?s = Some t" "ms_matched t" "same_requests a t"
      "card (granted (inmatch t)) = Suc (card (granted (inmatch a)))" by auto
    have "ShortestAugmenting a = Some (t, True)"
      using t(1) Some r(1) i(2) by (simp add: ShortestAugmenting_def)
    with t(2-4) show ?thesis by (intro exI [of _ t] exI [of _ True]) simp
  qed
qed

lemma ms_augment_all:
  assumes "ms_matched a" and "al_outputs a \<le> al_inputs a"
  shows "\<exists>t. ms_augment_all a = Some t \<and> ms_matched t \<and> same_requests a t \<and>
    maximum (al_inputs a) (al_outputs a) (ms_edge a) (inmatch t)"
  using assms
proof (induction "al_inputs a - card (granted (inmatch a))" arbitrary: a rule: less_induct)
  case less
  from ShortestAugmenting [OF less.prems] obtain t found
    where t: "ShortestAugmenting a = Some (t, found)" "ms_matched t" "same_requests a t"
      and r: "if found then card (granted (inmatch t)) = Suc (card (granted (inmatch a)))
        else maximum (al_inputs a) (al_outputs a) (ms_edge a) (inmatch t)" by blast
  show ?case
  proof (cases found)
    case False
    with t r show ?thesis by (subst ms_augment_all.simps) simp
  next
    case True
    with r have more: "card (granted (inmatch t)) = Suc (card (granted (inmatch a)))" by simp
    have dims: "al_inputs t = al_inputs a" "al_outputs t = al_outputs a" "d_request t = d_request a"
      using t(3) by (auto simp: same_requests_def)
    have "card (granted (inmatch t)) \<le> al_inputs a"
      using card_granted_le [of "inmatch t"] matching_lengths [OF t(2)] dims by simp
    then have "al_inputs t - card (granted (inmatch t)) < al_inputs a - card (granted (inmatch a))"
      using more dims by simp
    from less.hyps [OF this t(2)] less.prems(2) dims obtain u
      where u: "ms_augment_all t = Some u" "ms_matched u" "same_requests t u"
        "maximum (al_inputs a) (al_outputs a) (ms_edge a) (inmatch u)" by auto
    have "ms_augment_all a = ms_augment_all t"
      by (subst ms_augment_all.simps) (simp add: t(1) True)
    with u t(3) show ?thesis by (auto simp: same_requests_def)
  qed
qed

subsection \<open>The allocator\<close>

lemma MaxSize_Allocate:
  assumes "dense_ready a" and "al_outputs a \<le> al_inputs a"
  shows "\<exists>t. MaxSize_Allocate a = Some t \<and> dense_finished t \<and> al_inputs t = al_inputs a \<and>
    al_outputs t = al_outputs a \<and>
    matching (al_inputs a) (al_outputs a) (asked (dense_areqs a)) (inmatch t) (outmatch t) \<and>
    maximum (al_inputs a) (al_outputs a) (asked (dense_areqs a)) (inmatch t)"
proof -
  have same: "matching (al_inputs a) (al_outputs a) (ms_edge a) =
      matching (al_inputs a) (al_outputs a) (asked (dense_areqs a))"
    by (intro ext) (auto simp: matching_def asked_dense)
  have "ms_matched a" using assms(1) by (simp add: dense_ready_def base_clean_matching)
  from ms_augment_all [OF this assms(2)] obtain t where t: "ms_augment_all a = Some t" "ms_matched t"
    "same_requests a t" "maximum (al_inputs a) (al_outputs a) (ms_edge a) (inmatch t)" by auto
  let ?u = "t\<lparr>ms_prio := (ms_prio t + 1) mod al_inputs t\<rparr>"
  have m: "matching (al_inputs a) (al_outputs a) (asked (dense_areqs a)) (inmatch ?u) (outmatch ?u)"
    using t(2,3) by (simp add: same_requests_def flip: same)
  have "dense_finished ?u"
    by (rule dense_done [OF assms(1) _ _ _ _ m]) (use t(3) in \<open>simp_all add: same_requests_def\<close>)
  with m t(1,3,4) show ?thesis
    by (simp add: MaxSize_Allocate_def same_requests_def maximum_def same)
qed

interpretation max_size: allocator MaxSizeMatch al_inputs al_outputs inmatch outmatch dense_areqs
  "\<lambda>a. dense_ready a \<and> al_outputs a \<le> al_inputs a"
  "\<lambda>a. dense_finished a \<and> al_outputs a \<le> al_inputs a"
  "\<lambda>t Q. maximum (al_inputs t) (al_outputs t) (asked Q) (inmatch t)"
proof (unfold_locales, goal_cases)
  case (1 s)
  then show ?case using dense_clear [of s] by (simp add: MaxSizeMatch_def)
next
  case (2 s i j l p q)
  then show ?case using dense_add [of s i j l p q] by (auto simp: MaxSizeMatch_def)
next
  case (3 s)
  then show ?case using MaxSize_Allocate [of s] by (auto simp: MaxSizeMatch_def)
qed

text \<open>C28: the maximum size allocator grants a maximum matching. With at most as many outputs as
  inputs, and whatever is requested in a run of allocation rounds, no round fails, its search and
  its loops end, its grants are pairs that were requested with no input or output granted twice, and
  no other such set of grants is larger.\<close>

theorem max_size_is_maximum:
  assumes "n \<le> m" and "\<forall>rs \<in> set rss. legal_areqs m n rs"
  shows "\<exists>ts. alloc_rounds MaxSizeMatch rss (MaxSize_init m n) = Some ts \<and>
    list_all2 (\<lambda>rs t. matching m n (asked (map_of rs)) (inmatch t) (outmatch t) \<and>
      (\<forall>im' om'. matching m n (asked (map_of rs)) im' om' \<longrightarrow>
        card (granted im') \<le> card (granted (inmatch t)))) rss ts"
proof -
  have i: "dense_finished (MaxSize_init m n)" "al_inputs (MaxSize_init m n) = m"
    "al_outputs (MaxSize_init m n) = n"
    using Dense_init_finished [of m n] dense_finished_cong [of "MaxSize_init m n" "Dense_init m n"] Dense_init [of m n]
    by (simp_all add: MaxSize_init_def dense_alloc.defs alloc_base.defs)
  from max_size.rounds [of "MaxSize_init m n" rss] i assms obtain ts
    where ts: "alloc_rounds MaxSizeMatch rss (MaxSize_init m n) = Some ts"
      "list_all2 (\<lambda>rs t. al_inputs t = m \<and> al_outputs t = n \<and>
        matching m n (asked (map_of rs)) (inmatch t) (outmatch t) \<and>
        maximum (al_inputs t) (al_outputs t) (asked (map_of rs)) (inmatch t)) rss ts" by auto
  from ts(2) have "list_all2 (\<lambda>rs t. matching m n (asked (map_of rs)) (inmatch t) (outmatch t) \<and>
      (\<forall>im' om'. matching m n (asked (map_of rs)) im' om' \<longrightarrow>
        card (granted im') \<le> card (granted (inmatch t)))) rss ts"
    by (rule list_all2_mono) (simp add: maximum_def)
  with ts(1) show ?thesis by blast
qed

lemma max_size_is_maximum_witness:
  "\<exists>ts. alloc_rounds MaxSizeMatch [[((0, 0), 1, 0, 0), ((0, 1), 1, 0, 0), ((1, 0), 1, 0, 0)]]
      (MaxSize_init 2 2) = Some ts \<and>
    list_all2 (\<lambda>rs t. matching 2 2 (asked (map_of rs)) (inmatch t) (outmatch t) \<and>
      (\<forall>im' om'. matching 2 2 (asked (map_of rs)) im' om' \<longrightarrow>
        card (granted im') \<le> card (granted (inmatch t))))
      [[((0, 0), 1, 0, 0), ((0, 1), 1, 0, 0), ((1, 0), 1, 0, 0)]] ts"
  by (rule max_size_is_maximum) (simp_all add: legal_areqs_def)

text \<open>With more outputs than inputs, \<open>_from\<close> is too short for the outputs.\<close>

lemma max_size_few_inputs:
  "alloc_round MaxSizeMatch [((0, 1), 1, 0, 0)] (MaxSize_init 1 2) = None"
  apply (simp add: alloc_round_def alloc_ask_def MaxSizeMatch_def Dense_AddRequest_def
      Allocator_AddRequest_def MaxSize_init_def Dense_init_def Allocator_init_def dense_alloc.defs
      alloc_base.defs Dense_Clear_def Allocator_Clear_def blank_request_def numeral_2_eq_2
      MaxSize_Allocate_def)
  apply (subst ms_augment_all.simps)
  apply (simp add: ShortestAugmenting_def ms_roots_def)
  done

end
