(* ===== verification/Wavefront_Stability.thy ===== *)
theory Wavefront_Stability
  imports Allocator_Properties
begin

text \<open>
  The wavefront allocator (wavefront.cpp) grants in the order of priorities: a request that gets
  nothing meets a grant of at least its priority at its input or at its output.  In particular the
  matching is maximal.
\<close>

lemma fold_establish:
  assumes "P s" and "x \<in> set xs" and "\<And>y s. P s \<Longrightarrow> P (f y s)"
    and "\<And>s. P s \<Longrightarrow> G (f x s)" and "\<And>y s. P s \<Longrightarrow> G s \<Longrightarrow> G (f y s)"
  shows "G (fold f xs s)"
proof -
  have keep: "G (fold f ys s)" if "P s" "G s" for ys s
    using that assms(3,5) by (induction ys arbitrary: s) auto
  show ?thesis using assms(1,2)
  proof (induction xs arbitrary: s)
    case (Cons y ys)
    show ?case
    proof (cases "y = x")
      case True
      with keep [of "f x s" ys] Cons.prems(1) assms(3,4) show ?thesis by simp
    next
      case False
      with Cons assms(3) show ?thesis by simp
    qed
  qed simp
qed

subsection \<open>Ranks\<close>

text \<open>Priorities are compared first at the output, then at the input.\<close>

definition outranks ::
  "((nat \<times> nat) \<rightharpoonup> int \<times> int \<times> int) \<Rightarrow> nat \<times> nat \<Rightarrow> int \<times> int \<Rightarrow> bool" where
  "outranks Q x pr \<longleftrightarrow> (\<exists>l p q. Q x = Some (l, p, q) \<and> (fst pr < q \<or> fst pr = q \<and> snd pr \<le> p))"

definition rank_stable ::
  "nat \<Rightarrow> nat \<Rightarrow> ((nat \<times> nat) \<rightharpoonup> int \<times> int \<times> int) \<Rightarrow> int list \<Rightarrow> int list \<Rightarrow> bool" where
  "rank_stable m n Q im om \<longleftrightarrow> (\<forall>i<m. \<forall>j<n. \<forall>l p q. Q (i, j) = Some (l, p, q) \<longrightarrow>
     (\<exists>j'<n. im ! i = int j' \<and> outranks Q (i, j') (q, p)) \<or>
     (\<exists>i'<m. om ! j = int i' \<and> outranks Q (i', j) (q, p)))"

lemma rank_stable_maximal: "rank_stable m n Q im om \<Longrightarrow> maximal m n (asked Q) im om"
  unfolding rank_stable_def maximal_def asked_def by fastforce

text \<open>The set of priorities, as the sorted list it is.\<close>

abbreviation pri_less :: "int \<times> int \<Rightarrow> int \<times> int \<Rightarrow> bool" where
  "pri_less x y \<equiv> fst x < fst y \<or> fst x = fst y \<and> snd x < snd y"

lemma set_pri_insert [simp]: "set (pri_insert x ps) = insert x (set ps)"
  by (induction ps) auto

lemma sorted_pri_insert: "sorted_wrt pri_less ps \<Longrightarrow> sorted_wrt pri_less (pri_insert x ps)"
proof (induction ps)
  case (Cons y ps)
  then show ?case by (auto simp: prod_eq_iff)
qed simp

subsection \<open>The sweep\<close>

definition sweep_inv :: "wavefront \<Rightarrow> int \<times> int \<Rightarrow> wavefront \<times> int \<Rightarrow> bool" where
  "sweep_inv a0 pr s \<longleftrightarrow> (\<exists>im om. fst s = a0\<lparr>inmatch := im, outmatch := om\<rparr> \<and>
     matching (al_inputs a0) (al_outputs a0) (asked (dense_areqs a0)) im om \<and>
     (\<forall>i<al_inputs a0. im ! i \<noteq> -1 \<longrightarrow> outranks (dense_areqs a0) (i, nat (im ! i)) pr) \<and>
     (snd s < 0 \<longrightarrow> granted im = {}))"

definition settled :: "nat \<Rightarrow> nat \<Rightarrow> wavefront \<times> int \<Rightarrow> bool" where
  "settled i j s \<longleftrightarrow> inmatch (fst s) ! i \<noteq> -1 \<or> outmatch (fst s) ! j \<noteq> -1"

definition keeps_grants :: "wavefront \<Rightarrow> wavefront \<times> int \<Rightarrow> wavefront \<times> int \<Rightarrow> bool" where
  "keeps_grants a0 s t \<longleftrightarrow>
     (\<forall>i<al_inputs a0. inmatch (fst s) ! i \<noteq> -1 \<longrightarrow> inmatch (fst t) ! i = inmatch (fst s) ! i) \<and>
     (\<forall>j<al_outputs a0. outmatch (fst s) ! j \<noteq> -1 \<longrightarrow> outmatch (fst t) ! j = outmatch (fst s) ! j)"

lemma keeps_grants_refl: "keeps_grants a0 s s"
  by (simp add: keeps_grants_def)

lemma keeps_grants_trans: "keeps_grants a0 s t \<Longrightarrow> keeps_grants a0 t u \<Longrightarrow> keeps_grants a0 s u"
  by (simp add: keeps_grants_def)

lemma settled_keeps:
  "settled k l s \<Longrightarrow> keeps_grants a0 s t \<Longrightarrow> k < al_inputs a0 \<Longrightarrow> l < al_outputs a0 \<Longrightarrow> settled k l t"
  by (auto simp: settled_def keeps_grants_def)

lemma sweep_inv_weaken:
  assumes "sweep_inv a0 pr s" and "pri_less pr' pr"
  shows "sweep_inv a0 pr' s"
proof -
  have "outranks Q x pr \<Longrightarrow> outranks Q x pr'" for Q x using assms(2) by (auto simp: outranks_def)
  with assms(1) show ?thesis unfolding sweep_inv_def by blast
qed

text \<open>What a cell does: nothing, or grant a request of the priority of the sweep to a free pair.\<close>

lemma Wavefront_cell_cases:
  fixes s :: "wavefront \<times> int"
  defines "i \<equiv> \<lambda>p j. ((wf_pri (fst s) + p) + (wf_square (fst s) - j)) mod wf_square (fst s)"
  shows "Wavefront_cell pr p j s = s \<and>
      (i p j < al_inputs (fst s) \<and> j < al_outputs (fst s) \<and>
        sr_label (d_request (fst s) ! i p j ! j) \<noteq> -1 \<and>
        sr_in_pri (d_request (fst s) ! i p j ! j) = snd pr \<and>
        sr_out_pri (d_request (fst s) ! i p j ! j) = fst pr \<longrightarrow> settled (i p j) j s) \<or>
    Wavefront_cell pr p j s =
      (grant (i p j) j (fst s), if snd s < 0 then int (i p j + j) else snd s) \<and>
      i p j < al_inputs (fst s) \<and> j < al_outputs (fst s) \<and> \<not> settled (i p j) j s \<and>
      sr_label (d_request (fst s) ! i p j ! j) \<noteq> -1 \<and>
      sr_in_pri (d_request (fst s) ! i p j ! j) = snd pr \<and>
      sr_out_pri (d_request (fst s) ! i p j ! j) = fst pr"
  unfolding Wavefront_cell_def Let_def settled_def i_def by auto

lemma Wavefront_cell_inv:
  assumes "sweep_inv a0 pr s"
  shows "sweep_inv a0 pr (Wavefront_cell pr p j s)"
    and "keeps_grants a0 s (Wavefront_cell pr p j s)"
proof -
  let ?Q = "dense_areqs a0"
  from assms obtain im om where s: "fst s = a0\<lparr>inmatch := im, outmatch := om\<rparr>"
    "matching (al_inputs a0) (al_outputs a0) (asked ?Q) im om"
    "\<forall>i<al_inputs a0. im ! i \<noteq> -1 \<longrightarrow> outranks ?Q (i, nat (im ! i)) pr"
    "snd s < 0 \<longrightarrow> granted im = {}" by (auto simp: sweep_inv_def)
  let ?i = "((wf_pri (fst s) + p) + (wf_square (fst s) - j)) mod wf_square (fst s)"
  note len = matching_lengths [OF s(2)]
  have "sweep_inv a0 pr (Wavefront_cell pr p j s) \<and> keeps_grants a0 s (Wavefront_cell pr p j s)"
    using Wavefront_cell_cases [of pr p j s]
  proof (elim disjE conjE)
    assume "Wavefront_cell pr p j s = s"
    with assms keeps_grants_refl show ?thesis by simp
  next
    assume c: "Wavefront_cell pr p j s = (grant ?i j (fst s), if snd s < 0 then int (?i + j) else snd s)"
      "?i < al_inputs (fst s)" "j < al_outputs (fst s)" "\<not> settled ?i j s"
      "sr_label (d_request (fst s) ! ?i ! j) \<noteq> -1" "sr_in_pri (d_request (fst s) ! ?i ! j) = snd pr"
      "sr_out_pri (d_request (fst s) ! ?i ! j) = fst pr"
    define i where "i = ?i"
    from c(2-7) have d: "i < al_inputs a0" "j < al_outputs a0" "im ! i = -1" "om ! j = -1"
      "asked ?Q i j" "outranks ?Q (i, j) pr"
      unfolding i_def [symmetric] by (auto simp: s(1) settled_def asked_def outranks_def dense_areqs_def)
    from matching_grant [OF s(2) d(1-5)]
    have m: "matching (al_inputs a0) (al_outputs a0) (asked ?Q) (im[i := int j]) (om[j := int i])" .
    have o: "\<forall>k<al_inputs a0. im[i := int j] ! k \<noteq> -1 \<longrightarrow> outranks ?Q (k, nat (im[i := int j] ! k)) pr"
      using s(3) d len by (auto simp: nth_list_update)
    have f: "fst (Wavefront_cell pr p j s) = a0\<lparr>inmatch := im[i := int j], outmatch := om[j := int i]\<rparr>"
      unfolding c(1) i_def [symmetric] by (simp add: s(1) grant_def)
    have "\<not> snd (Wavefront_cell pr p j s) < 0" unfolding c(1) by auto
    with m o f have "sweep_inv a0 pr (Wavefront_cell pr p j s)" unfolding sweep_inv_def by blast
    moreover have "keeps_grants a0 s (Wavefront_cell pr p j s)"
      unfolding keeps_grants_def f s(1) using d(3,4) by simp (metis nth_list_update_neq)
    ultimately show ?thesis by blast
  qed
  then show "sweep_inv a0 pr (Wavefront_cell pr p j s)" "keeps_grants a0 s (Wavefront_cell pr p j s)"
    by blast+
qed

lemma diagonal:
  fixes i j sq pri :: nat
  assumes "i < sq" and "j < sq"
  shows "\<exists>p<sq. ((pri + p) + (sq - j)) mod sq = i"
proof (intro exI conjI)
  let ?p = "(i + j + (sq - pri mod sq)) mod sq"
  show "?p < sq" using assms by simp
  have r: "pri mod sq < sq" using assms by simp
  have "((pri + ?p) + (sq - j)) mod sq = ((pri + (i + j + (sq - pri mod sq))) + (sq - j)) mod sq"
    by (metis mod_add_left_eq mod_add_right_eq)
  also have "(pri + (i + j + (sq - pri mod sq))) + (sq - j) = i + sq * (pri div sq + 2)"
    using assms r mult_div_mod_eq [of sq pri] unfolding distrib_left by linarith
  also have "\<dots> mod sq = i" using assms by (simp only: mod_mult_self2 mod_less)
  finally show "((pri + ?p) + (sq - j)) mod sq = i" .
qed

lemma Wavefront_row:
  assumes "sweep_inv a0 pr s"
  shows "sweep_inv a0 pr (fold (Wavefront_cell pr p) js s) \<and>
    keeps_grants a0 s (fold (Wavefront_cell pr p) js s)"
  by (rule fold_invariant')
    (use assms keeps_grants_refl Wavefront_cell_inv keeps_grants_trans in blast)+

lemma Wavefront_sweep_inv:
  assumes "sweep_inv a0 pr s"
  shows "sweep_inv a0 pr (Wavefront_sweep pr s) \<and> keeps_grants a0 s (Wavefront_sweep pr s)"
  unfolding Wavefront_sweep_def
  by (rule fold_invariant') (use assms keeps_grants_refl Wavefront_row keeps_grants_trans in blast)+

lemma Wavefront_sweep_settles:
  assumes "sweep_inv a0 pr s" and "wf_square a0 = max (al_inputs a0) (al_outputs a0)"
    and "dense_areqs a0 (k, l) = Some (lab, snd pr, fst pr)"
  shows "settled k l (Wavefront_sweep pr s)"
proof -
  have kl: "k < al_inputs a0" "l < al_outputs a0"
    and r: "sr_label (d_request a0 ! k ! l) \<noteq> -1" "sr_in_pri (d_request a0 ! k ! l) = snd pr"
      "sr_out_pri (d_request a0 ! k ! l) = fst pr"
    using assms(3) by (auto simp: dense_areqs_def split: if_splits)
  have sq: "wf_square (fst t) = wf_square a0" "wf_pri (fst t) = wf_pri a0"
    "al_inputs (fst t) = al_inputs a0" "al_outputs (fst t) = al_outputs a0"
    "d_request (fst t) = d_request a0" if "sweep_inv a0 pr t" for t
    using that by (auto simp: sweep_inv_def)
  have "k < wf_square a0" "l < wf_square a0" using assms(2) kl by auto
  from diagonal [OF this, of "wf_pri a0"] obtain p
    where p: "p < wf_square a0" "((wf_pri a0 + p) + (wf_square a0 - l)) mod wf_square a0 = k" by blast
  have hit: "settled k l (Wavefront_cell pr p l t)" if t: "sweep_inv a0 pr t" for t
  proof -
    have len: "length (inmatch (fst t)) = al_inputs a0" using t matching_lengths by (force simp: sweep_inv_def)
    show ?thesis
      using Wavefront_cell_cases [of pr p l t] unfolding sq [OF t] p(2)
    proof (elim disjE conjE)
      assume "Wavefront_cell pr p l t = t"
        "k < al_inputs a0 \<and> l < al_outputs a0 \<and> sr_label (d_request a0 ! k ! l) \<noteq> -1 \<and>
          sr_in_pri (d_request a0 ! k ! l) = snd pr \<and> sr_out_pri (d_request a0 ! k ! l) = fst pr \<longrightarrow>
          settled k l t"
      with kl r show ?thesis by simp
    next
      assume "Wavefront_cell pr p l t = (grant k l (fst t), if snd t < 0 then int (k + l) else snd t)"
      with kl len show ?thesis by (simp add: settled_def)
    qed
  qed
  show ?thesis
    unfolding Wavefront_sweep_def
  proof (rule fold_establish [where P = "sweep_inv a0 pr" and x = p])
    show "p \<in> set [0..<wf_square (fst s)]" using p(1) sq(1) [OF assms(1)] by simp
    fix t q assume t: "sweep_inv a0 pr t"
    show "sweep_inv a0 pr (fold (Wavefront_cell pr q) [0..<wf_square (fst t)] t)"
      using Wavefront_row [OF t] by blast
    show "settled k l t \<Longrightarrow> settled k l (fold (Wavefront_cell pr q) [0..<wf_square (fst t)] t)"
      using Wavefront_row [OF t] settled_keeps kl by blast
    show "settled k l (fold (Wavefront_cell pr p) [0..<wf_square (fst t)] t)"
    proof (rule fold_establish [where P = "sweep_inv a0 pr" and x = l])
      show "l \<in> set [0..<wf_square (fst t)]" using kl(2) assms(2) sq(1) [OF t] by simp
      fix u x assume u: "sweep_inv a0 pr u"
      show "sweep_inv a0 pr (Wavefront_cell pr p x u)" by (rule Wavefront_cell_inv(1) [OF u])
      show "settled k l (Wavefront_cell pr p l u)" by (rule hit [OF u])
      show "settled k l u \<Longrightarrow> settled k l (Wavefront_cell pr p x u)"
        using Wavefront_cell_inv(2) [OF u] settled_keeps kl by blast
    qed (rule t)
  qed (rule assms(1))
qed

text \<open>All sweeps, from the highest priority down.\<close>

definition blocked :: "wavefront \<Rightarrow> nat \<Rightarrow> nat \<Rightarrow> int \<times> int \<Rightarrow> wavefront \<times> int \<Rightarrow> bool" where
  "blocked a0 k l pr t \<longleftrightarrow>
     (inmatch (fst t) ! k \<noteq> -1 \<and> outranks (dense_areqs a0) (k, nat (inmatch (fst t) ! k)) pr) \<or>
     (outmatch (fst t) ! l \<noteq> -1 \<and> outranks (dense_areqs a0) (nat (outmatch (fst t) ! l), l) pr)"

lemma settled_blocked:
  assumes "sweep_inv a0 pr t" and "settled k l t" and "k < al_inputs a0" and "l < al_outputs a0"
  shows "blocked a0 k l pr t"
proof -
  from assms(1) obtain im om where s: "inmatch (fst t) = im" "outmatch (fst t) = om"
    "matching (al_inputs a0) (al_outputs a0) (asked (dense_areqs a0)) im om"
    "\<forall>i<al_inputs a0. im ! i \<noteq> -1 \<longrightarrow> outranks (dense_areqs a0) (i, nat (im ! i)) pr"
    by (auto simp: sweep_inv_def)
  show ?thesis
  proof (cases "im ! k = -1")
    case True
    with assms(2) s have "om ! l \<noteq> -1" by (simp add: settled_def)
    with matching_outD [OF s(3) assms(4)] s(4) show ?thesis
      unfolding blocked_def s(1,2) by fastforce
  next
    case False
    with s assms(3) show ?thesis by (simp add: blocked_def)
  qed
qed

lemma Wavefront_sweeps:
  assumes "sorted_wrt (\<lambda>x y. pri_less y x) prs" and "\<forall>pr \<in> set prs. sweep_inv a0 pr s"
    and "wf_square a0 = max (al_inputs a0) (al_outputs a0)"
  shows "keeps_grants a0 s (fold Wavefront_sweep prs s) \<and>
    (prs \<noteq> [] \<longrightarrow> (\<exists>pr. sweep_inv a0 pr (fold Wavefront_sweep prs s))) \<and>
    (\<forall>k l lab p q. dense_areqs a0 (k, l) = Some (lab, p, q) \<longrightarrow> (q, p) \<in> set prs \<longrightarrow>
      blocked a0 k l (q, p) (fold Wavefront_sweep prs s))"
  using assms(1,2)
proof (induction prs arbitrary: s)
  case Nil
  then show ?case by (simp add: keeps_grants_refl)
next
  case (Cons pr prs)
  let ?s = "Wavefront_sweep pr s" and ?t = "fold Wavefront_sweep prs (Wavefront_sweep pr s)"
  from Cons.prems(2) have "sweep_inv a0 pr s" by simp
  then have s: "sweep_inv a0 pr ?s" "keeps_grants a0 s ?s" using Wavefront_sweep_inv by blast+
  have set_s: "settled k l ?s" if "dense_areqs a0 (k, l) = Some (lab, snd pr, fst pr)" for k l lab
    using Wavefront_sweep_settles [OF \<open>sweep_inv a0 pr s\<close> assms(3) that] .
  have "\<forall>pr' \<in> set prs. sweep_inv a0 pr' ?s"
    using Cons.prems(1) sweep_inv_weaken [OF s(1)] by simp
  with Cons.IH [of ?s] Cons.prems(1) have t: "keeps_grants a0 ?s ?t"
    "prs \<noteq> [] \<longrightarrow> (\<exists>pr. sweep_inv a0 pr ?t)"
    "\<forall>k l lab p q. dense_areqs a0 (k, l) = Some (lab, p, q) \<longrightarrow> (q, p) \<in> set prs \<longrightarrow>
      blocked a0 k l (q, p) ?t" by auto
  have "blocked a0 k l (q, p) ?t"
    if r: "dense_areqs a0 (k, l) = Some (lab, p, q)" "pr = (q, p)" for k l lab p q
  proof -
    have kl: "k < al_inputs a0" "l < al_outputs a0"
      using r(1) by (auto simp: dense_areqs_def split: if_splits)
    have "blocked a0 k l (q, p) ?s"
      using settled_blocked [OF s(1) _ kl] set_s r by auto
    with t(1) kl show ?thesis unfolding blocked_def keeps_grants_def by metis
  qed
  moreover have "\<exists>pr. sweep_inv a0 pr ?t" using t(2) s(1) by (metis fold_simps(1))
  moreover have "keeps_grants a0 s ?t" using keeps_grants_trans [OF s(2) t(1)] .
  ultimately show ?case using t(3) by auto
qed

subsection \<open>The allocator\<close>

lemma finite_dense_areqs [simp]: "finite (dom (dense_areqs a))"
  by (rule finite_subset [of _ "{..<al_inputs a} \<times> {..<al_outputs a}"])
    (auto simp: dense_areqs_def split: if_splits)

definition wf_counts :: "wavefront \<Rightarrow> bool" where
  "wf_counts a \<longleftrightarrow> wf_square a = max (al_inputs a) (al_outputs a) \<and>
     wf_num_requests a = card (dom (dense_areqs a)) \<and> sorted_wrt pri_less (wf_priorities a) \<and>
     set (wf_priorities a) = {(q, p). \<exists>x l. dense_areqs a x = Some (l, p, q)} \<and>
     (wf_num_requests a \<noteq> 0 \<longrightarrow> 0 \<le> wf_last_in a \<and> 0 \<le> wf_last_out a \<and>
       dense_areqs a (nat (wf_last_in a), nat (wf_last_out a)) \<noteq> None)"

definition wf_ready :: "wavefront \<Rightarrow> bool" where
  "wf_ready a \<longleftrightarrow> dense_ready a \<and> wf_counts a"

definition wf_finished :: "wavefront \<Rightarrow> bool" where
  "wf_finished a \<longleftrightarrow> dense_finished a \<and> wf_square a = max (al_inputs a) (al_outputs a) \<and>
     wf_num_requests a = 0 \<and> wf_priorities a = []"

lemma priorities_upd:
  assumes "Q x = None"
  shows "{(q, p). \<exists>y l. (Q(x \<mapsto> (l0, p0, q0))) y = Some (l, p, q)} =
    insert (q0, p0) {(q, p). \<exists>y l. Q y = Some (l, p, q)}"
proof (intro set_eqI)
  fix r :: "'c \<times> 'b"
  have "(\<exists>y l. (Q(x \<mapsto> (l0, p0, q0))) y = Some (l, snd r, fst r)) \<longleftrightarrow>
      r = (q0, p0) \<or> (\<exists>y l. Q y = Some (l, snd r, fst r))"
    using assms by (cases r) (auto; metis option.distinct(1))
  then show "r \<in> {(q, p). \<exists>y l. (Q(x \<mapsto> (l0, p0, q0))) y = Some (l, p, q)} \<longleftrightarrow>
      r \<in> insert (q0, p0) {(q, p). \<exists>y l. Q y = Some (l, p, q)}"
    by (simp add: case_prod_beta)
qed

lemma Wavefront_add:
  assumes "wf_ready a" and "i < al_inputs a" and "j < al_outputs a" and "dense_areqs a (i, j) = None"
    and "0 \<le> l"
  shows "\<exists>t. Wavefront_AddRequest i j l p q a = Some t \<and> wf_ready t \<and>
    dense_areqs t = (dense_areqs a)((i, j) \<mapsto> (l, p, q)) \<and> al_inputs t = al_inputs a \<and>
    al_outputs t = al_outputs a"
proof -
  from dense_add [of a i j l p q] assms obtain u
    where u: "Dense_AddRequest i j l p q a = Some u" "dense_ready u"
      "dense_areqs u = (dense_areqs a)((i, j) \<mapsto> (l, p, q))" "al_inputs u = al_inputs a"
      "al_outputs u = al_outputs a" "dense_alloc.more u = dense_alloc.more a"
    by (auto simp: wf_ready_def)
  have w: "wf_square u = wf_square a" "wf_num_requests u = wf_num_requests a"
    "wf_priorities u = wf_priorities a"
    using u(6) by (cases u; cases a; simp)+
  let ?t = "u\<lparr>wf_num_requests := wf_num_requests u + 1, wf_last_in := int i, wf_last_out := int j,
             wf_priorities := pri_insert (q, p) (wf_priorities u)\<rparr>"
  have areqs: "dense_areqs ?t = dense_areqs u" by (rule dense_areqs_cong) simp_all
  have "dense_ready ?t" using u(2) areqs
    by (simp add: dense_ready_def base_clean_def dense_shape_def)
  moreover have "set (wf_priorities ?t) = {(q, p). \<exists>x l. dense_areqs ?t x = Some (l, p, q)}"
    using assms(1) w areqs u(3) priorities_upd [of "dense_areqs a" "(i, j)" l p q] assms(4)
    by (simp add: wf_ready_def wf_counts_def)
  ultimately have "wf_ready ?t"
    using assms(1,4) u(4,5) w unfolding wf_ready_def wf_counts_def areqs u(3)
    by (auto simp: card_insert_if sorted_pri_insert)
  with u areqs show ?thesis by (simp add: Wavefront_AddRequest_def)
qed

lemma Wavefront_clear:
  assumes "wf_finished a"
  shows "wf_ready (Dense_Clear a) \<and> dense_areqs (Dense_Clear a) = Map.empty"
proof -
  from assms have "dense_finished a" by (simp add: wf_finished_def)
  from dense_clear [OF this] have d: "dense_ready (Dense_Clear a)"
    "dense_areqs (Dense_Clear a) = Map.empty" by auto
  have "wf_square (Dense_Clear a) = wf_square a" "wf_num_requests (Dense_Clear a) = wf_num_requests a"
    "wf_priorities (Dense_Clear a) = wf_priorities a"
    by (simp_all add: Dense_Clear_def Allocator_Clear_def)
  with assms d show ?thesis by (simp add: wf_ready_def wf_counts_def wf_finished_def)
qed

lemma blocked_stable:
  assumes "matching (al_inputs a) (al_outputs a) R (inmatch (fst t)) (outmatch (fst t))"
    and "\<forall>k l lab p q. dense_areqs a (k, l) = Some (lab, p, q) \<longrightarrow> blocked a k l (q, p) t"
  shows "rank_stable (al_inputs a) (al_outputs a) (dense_areqs a) (inmatch (fst t)) (outmatch (fst t))"
  unfolding rank_stable_def
proof (intro allI impI)
  fix i j l p q
  assume ij: "i < al_inputs a" "j < al_outputs a" and r: "dense_areqs a (i, j) = Some (l, p, q)"
  from assms(2) r have "blocked a i j (q, p) t" by blast
  then show "(\<exists>j'<al_outputs a. inmatch (fst t) ! i = int j' \<and> outranks (dense_areqs a) (i, j') (q, p)) \<or>
    (\<exists>i'<al_inputs a. outmatch (fst t) ! j = int i' \<and> outranks (dense_areqs a) (i', j) (q, p))"
    using matching_inD [OF assms(1) ij(1)] matching_outD [OF assms(1) ij(2)]
    unfolding blocked_def by fastforce
qed

lemma Wavefront_single:
  assumes "wf_ready a" and "wf_num_requests a = 1"
  defines "i \<equiv> nat (wf_last_in a)" and "j \<equiv> nat (wf_last_out a)"
  shows "matching (al_inputs a) (al_outputs a) (asked (dense_areqs a)) ((inmatch a)[i := int j])
      ((outmatch a)[j := int i])"
    and "rank_stable (al_inputs a) (al_outputs a) (dense_areqs a) ((inmatch a)[i := int j])
      ((outmatch a)[j := int i])"
    and "0 \<le> wf_last_in a + wf_last_out a"
proof -
  from assms have q: "dense_areqs a (i, j) \<noteq> None" "0 \<le> wf_last_in a" "0 \<le> wf_last_out a"
    "card (dom (dense_areqs a)) = 1" by (auto simp: wf_ready_def wf_counts_def)
  then show "0 \<le> wf_last_in a + wf_last_out a" by simp
  have ij: "i < al_inputs a" "j < al_outputs a"
    using q(1) by (auto simp: dense_areqs_def split: if_splits)
  have base: "base_clean a" using assms(1) by (simp add: wf_ready_def dense_ready_def)
  then have free: "inmatch a ! i = -1" "outmatch a ! j = -1" "length (inmatch a) = al_inputs a"
    "length (outmatch a) = al_outputs a"
    using ij by (simp_all add: base_clean_def)
  show "matching (al_inputs a) (al_outputs a) (asked (dense_areqs a)) ((inmatch a)[i := int j])
      ((outmatch a)[j := int i])"
    using matching_grant [OF base_clean_matching [OF base] ij free(1,2)] q(1) by (simp add: asked_def)
  have "dom (dense_areqs a) = {(i, j)}"
    using q(1,4) by (metis card_1_singletonE domIff singletonD)
  then have only: "dense_areqs a x = Some r \<Longrightarrow> x = (i, j)" for x r by auto
  then show "rank_stable (al_inputs a) (al_outputs a) (dense_areqs a) ((inmatch a)[i := int j])
      ((outmatch a)[j := int i])"
    unfolding rank_stable_def
  proof (intro allI impI disjI1)
    fix k l lab p q
    assume r: "dense_areqs a (k, l) = Some (lab, p, q)"
    then have "k = i" "l = j" using only by auto
    with r ij free show "\<exists>j'<al_outputs a. (inmatch a)[i := int j] ! k = int j' \<and>
        outranks (dense_areqs a) (k, j') (q, p)"
      by (auto simp: outranks_def)
  qed
qed

lemma Wavefront_all:
  assumes "wf_ready a" and "wf_num_requests a \<noteq> 0"
  obtains im om fd where "fold Wavefront_sweep (rev (wf_priorities a)) (a, -1) =
      (a\<lparr>inmatch := im, outmatch := om\<rparr>, fd)" and "0 \<le> fd"
    and "matching (al_inputs a) (al_outputs a) (asked (dense_areqs a)) im om"
    and "rank_stable (al_inputs a) (al_outputs a) (dense_areqs a) im om"
proof -
  let ?prs = "rev (wf_priorities a)" and ?t = "fold Wavefront_sweep (rev (wf_priorities a)) (a, -1)"
  have c: "base_clean a" "wf_counts a" using assms(1) by (auto simp: wf_ready_def dense_ready_def)
  have "granted (replicate (al_inputs a) (-1)) = {}" by (auto simp: granted_def)
  then have start: "sweep_inv a pr (a, -1)" for pr
    using c(1) base_clean_matching [OF c(1)] unfolding sweep_inv_def
    by (intro exI [of _ "inmatch a"] exI [of _ "outmatch a"]) (simp add: base_clean_def)
  have sorted: "sorted_wrt (\<lambda>x y. pri_less y x) ?prs" using c(2) by (simp add: wf_counts_def sorted_wrt_rev)
  from assms(2) c(2) have "dense_areqs a (nat (wf_last_in a), nat (wf_last_out a)) \<noteq> None"
    unfolding wf_counts_def by blast
  then obtain k l lab p q where x: "dense_areqs a (k, l) = Some (lab, p, q)" by fast
  have prios: "(q, p) \<in> set ?prs" if "dense_areqs a (k, l) = Some (lab, p, q)" for k l lab p q
    using that c(2) by (auto simp: wf_counts_def)
  then have "?prs \<noteq> []" using x by force
  with Wavefront_sweeps [OF sorted, of a "(a, -1)"] start c(2) obtain pr
    where t: "sweep_inv a pr ?t"
      and b: "\<forall>k l lab p q. dense_areqs a (k, l) = Some (lab, p, q) \<longrightarrow> (q, p) \<in> set ?prs \<longrightarrow>
        blocked a k l (q, p) ?t" by (auto simp: wf_counts_def)
  from t obtain im om where m: "fst ?t = a\<lparr>inmatch := im, outmatch := om\<rparr>"
    "matching (al_inputs a) (al_outputs a) (asked (dense_areqs a)) im om"
    "snd ?t < 0 \<longrightarrow> granted im = {}" by (auto simp: sweep_inv_def)
  from b prios have b': "\<forall>k l lab p q. dense_areqs a (k, l) = Some (lab, p, q) \<longrightarrow>
      blocked a k l (q, p) ?t" by blast
  have st: "rank_stable (al_inputs a) (al_outputs a) (dense_areqs a) im om"
    using blocked_stable [of a _ ?t] m(1,2) b' by simp
  have "granted im \<noteq> {}"
  proof -
    have kl: "k < al_inputs a" "l < al_outputs a" using x by (auto simp: dense_areqs_def split: if_splits)
    with rank_stable_maximal [OF st] x have "im ! k \<noteq> -1 \<or> om ! l \<noteq> -1"
      by (auto simp: maximal_def asked_def)
    then obtain i where "i < al_inputs a" "im ! i \<noteq> -1"
      using kl matching_outD [OF m(2) kl(2)] by force
    with matching_lengths [OF m(2)] show ?thesis by (auto simp: granted_def)
  qed
  with m(3) have "0 \<le> snd ?t" by auto
  moreover have "?t = (a\<lparr>inmatch := im, outmatch := om\<rparr>, snd ?t)" by (simp add: prod_eq_iff m(1))
  ultimately show thesis using that [OF _ _ m(2) st] by blast
qed

lemma Wavefront_Allocate:
  assumes "wf_ready a"
  shows "\<exists>t. Wavefront_Allocate a = Some t \<and> wf_finished t \<and> al_inputs t = al_inputs a \<and>
    al_outputs t = al_outputs a \<and>
    matching (al_inputs a) (al_outputs a) (asked (dense_areqs a)) (inmatch t) (outmatch t) \<and>
    rank_stable (al_inputs a) (al_outputs a) (dense_areqs a) (inmatch t) (outmatch t)"
proof (cases "wf_num_requests a = 0")
  case True
  have c: "dense_ready a" "wf_counts a" using assms by (auto simp: wf_ready_def)
  with True have none: "dense_areqs a = Map.empty" "wf_priorities a = []" by (auto simp: wf_counts_def)
  have m: "matching (al_inputs a) (al_outputs a) (asked (dense_areqs a)) (inmatch a) (outmatch a)"
    using c(1) by (simp add: dense_ready_def base_clean_matching)
  have "dense_finished a" by (rule dense_done [OF c(1) _ _ _ _ m]) simp_all
  with c True none m show ?thesis
    by (simp add: Wavefront_Allocate_def wf_finished_def wf_counts_def rank_stable_def)
next
  case False
  have c: "dense_ready a" "wf_counts a" using assms by (auto simp: wf_ready_def)
  obtain im om fd where r: "(if wf_num_requests a = 1
      then (grant (nat (wf_last_in a)) (nat (wf_last_out a)) a, wf_last_in a + wf_last_out a)
      else fold Wavefront_sweep (rev (wf_priorities a)) (a, -1)) =
        (a\<lparr>inmatch := im, outmatch := om\<rparr>, fd)" "0 \<le> fd"
    "matching (al_inputs a) (al_outputs a) (asked (dense_areqs a)) im om"
    "rank_stable (al_inputs a) (al_outputs a) (dense_areqs a) im om"
  proof (cases "wf_num_requests a = 1")
    case True
    from Wavefront_single [OF assms True] True that show thesis by (simp add: grant_def)
  next
    case multi: False
    show thesis by (rule Wavefront_all [OF assms False]) (use multi that in simp)
  qed
  let ?t = "a\<lparr>inmatch := im, outmatch := om, wf_num_requests := 0, wf_last_in := -1, wf_last_out := -1,
    wf_priorities := [],
    wf_pri := nat (((if wf_skip_diags a then fd else int (wf_pri a)) + 1) mod int (wf_square a))\<rparr>"
  have "Wavefront_Allocate a = Some ?t" using False r(1,2) by (simp add: Wavefront_Allocate_def)
  moreover have "dense_finished ?t" by (rule dense_done [OF c(1)]) (use r(3) in simp_all)
  ultimately show ?thesis using r(3,4) c(2) by (simp add: wf_finished_def wf_counts_def)
qed

interpretation wave: allocator Wavefront al_inputs al_outputs inmatch outmatch dense_areqs
  wf_ready wf_finished "\<lambda>t Q. rank_stable (al_inputs t) (al_outputs t) Q (inmatch t) (outmatch t)"
proof (unfold_locales, goal_cases)
  case (1 s)
  then show ?case using Wavefront_clear [of s] by (simp add: Wavefront_def)
next
  case (2 s i j l p q)
  then show ?case using Wavefront_add [of s i j l p q] by (auto simp: Wavefront_def)
next
  case (3 s)
  then show ?case using Wavefront_Allocate [of s] by (auto simp: Wavefront_def)
qed

text \<open>C29: the wavefront allocator serves the highest priorities first. Whatever is requested in a run
  of allocation rounds, no round fails, its grants are pairs that were requested with no input or
  output granted twice, and a request that is not granted meets, at its input or at its output, a
  grant of a request of at least its priority (the priority at the output counts first, then the
  one at the input). This holds for the round-robin pointer over the diagonals and for the
  variant that skips diagonals.\<close>

theorem wavefront_is_stable:
  assumes "\<forall>rs \<in> set rss. legal_areqs m n rs"
  shows "\<exists>ts. alloc_rounds Wavefront rss (Wavefront_init m n skip) = Some ts \<and>
    list_all2 (\<lambda>rs t. matching m n (asked (map_of rs)) (inmatch t) (outmatch t) \<and>
      rank_stable m n (map_of rs) (inmatch t) (outmatch t)) rss ts"
proof -
  have "dense_finished (Wavefront_init m n skip) = dense_finished (Dense_init m n)"
    by (rule dense_finished_cong) (simp_all add: Wavefront_init_def dense_alloc.defs alloc_base.defs)
  then have i: "wf_finished (Wavefront_init m n skip)" "al_inputs (Wavefront_init m n skip) = m"
    "al_outputs (Wavefront_init m n skip) = n"
    using Dense_init_finished [of m n] Dense_init [of m n]
    by (simp_all add: wf_finished_def) (simp_all add: Wavefront_init_def dense_alloc.defs)
  from wave.rounds [OF i(1), of rss] i(2,3) assms obtain ts
    where ts: "alloc_rounds Wavefront rss (Wavefront_init m n skip) = Some ts"
      "list_all2 (\<lambda>rs t. al_inputs t = m \<and> al_outputs t = n \<and>
        matching m n (asked (map_of rs)) (inmatch t) (outmatch t) \<and>
        rank_stable (al_inputs t) (al_outputs t) (map_of rs) (inmatch t) (outmatch t)) rss ts" by auto
  from ts(2) have "list_all2 (\<lambda>rs t. matching m n (asked (map_of rs)) (inmatch t) (outmatch t) \<and>
      rank_stable m n (map_of rs) (inmatch t) (outmatch t)) rss ts"
    by (rule list_all2_mono) auto
  with ts(1) show ?thesis by blast
qed

lemma wavefront_is_stable_witness:
  "\<exists>ts. alloc_rounds Wavefront [[((0, 0), 1, 0, 3), ((1, 0), 1, 0, 5)], [((1, 1), 1, 0, 0)]]
      (Wavefront_init 2 2 True) = Some ts \<and>
    list_all2 (\<lambda>rs t. matching 2 2 (asked (map_of rs)) (inmatch t) (outmatch t) \<and>
      rank_stable 2 2 (map_of rs) (inmatch t) (outmatch t))
      [[((0, 0), 1, 0, 3), ((1, 0), 1, 0, 5)], [((1, 1), 1, 0, 0)]] ts"
  by (rule wavefront_is_stable) (simp_all add: legal_areqs_def)

end
