(* ===== verification/Sparse_Allocators.thy ===== *)
theory Sparse_Allocators
  imports Allocators
begin

text \<open>
  The allocators of src/booksim2/src/allocators that keep their requests in ordered maps: separable
  input first and output first (separable*.cpp), which own an arbiter per port, iSLIP (islip.cpp)
  and SelAlloc (selalloc.cpp).  A separable allocator is defined over the class of its arbiters.
\<close>

subsection \<open>Separable allocators\<close>

record 's separable = sparse_alloc +
  input_arb :: "'s list"
  output_arb :: "'s list"

text \<open>\<open>mk\<close> is \<open>Arbiter::NewArbiter\<close> for the configured type.\<close>

definition Separable_init :: "(nat \<Rightarrow> 's) \<Rightarrow> nat \<Rightarrow> nat \<Rightarrow> 's separable" where
  "Separable_init mk ins outs = sparse_alloc.extend (Sparse_init ins outs)
     \<lparr>input_arb = replicate ins (mk outs), output_arb = replicate outs (mk ins)\<rparr>"

definition Separable_Clear :: "'s arbiter_class \<Rightarrow> 's separable \<Rightarrow> 's separable" where
  "Separable_Clear C a =
     (let clear = (\<lambda>s. if arb_num_reqs C s \<noteq> 0 then arb_Clear C s else s)
      in Sparse_Clear (a\<lparr>input_arb := map clear (input_arb a),
                         output_arb := map clear (output_arb a)\<rparr>))"

text \<open>\<open>m[k]\<close> of a \<open>std::map\<close>: it inserts a zero element when there is none.\<close>

definition req_at :: "nat \<Rightarrow> alloc_request omap \<Rightarrow> alloc_request omap \<times> alloc_request" where
  "req_at k m = (let zero = \<lparr>sr_port = 0, sr_label = 0, sr_in_pri = 0, sr_out_pri = 0\<rparr> in
     case map_of m k of Some r \<Rightarrow> (m, r) | None \<Rightarrow> (om_put k zero m, zero))"

text \<open>Input first: each input picks one of its requests, each output one of the picks.  A winner
  outside the other side would be an access behind the end of its vectors, a failure here.\<close>

definition input_first_request ::
  "'s arbiter_class \<Rightarrow> nat \<Rightarrow> 's separable \<Rightarrow> 's separable option" where
  "input_first_request C input a = do {
     ia0 \<leftarrow> foldM (\<lambda>e. arb_AddRequest C (sr_port (snd e)) (sr_label (snd e)) (sr_in_pri (snd e)))
       (in_req a ! input) (input_arb a ! input);
     (ia, output, res) \<leftarrow> arb_Arbitrate C ia0;
     assertion (output > -1);
     assertion (nat output < al_outputs a);
     (let (m, req) = req_at input (out_req a ! nat output);
          label = (case res of None \<Rightarrow> -1 | Some (l, p) \<Rightarrow> l)
      in do {
        assertion (sr_port req = input \<and> sr_label req = label);
        oa \<leftarrow> arb_AddRequest C (sr_port req) (sr_label req) (sr_out_pri req) (output_arb a ! nat output);
        Some (a\<lparr>out_req := (out_req a)[nat output := m], input_arb := (input_arb a)[input := ia],
                output_arb := (output_arb a)[nat output := oa]\<rparr>)
      })
   }"

definition input_first_grant ::
  "'s arbiter_class \<Rightarrow> nat \<Rightarrow> 's separable \<Rightarrow> 's separable option" where
  "input_first_grant C output a = do {
     (oa, input, res) \<leftarrow> arb_Arbitrate C (output_arb a ! output);
     (if input > -1
      then do {
        assertion (nat input < al_inputs a);
        assertion (inmatch a ! nat input = -1 \<and> outmatch a ! output = -1);
        ia \<leftarrow> arb_UpdateState C (input_arb a ! nat input);
        ob \<leftarrow> arb_UpdateState C oa;
        Some (grant (nat input) output (a\<lparr>input_arb := (input_arb a)[nat input := ia],
                                           output_arb := (output_arb a)[output := ob]\<rparr>))
      }
      else Some (a\<lparr>output_arb := (output_arb a)[output := oa]\<rparr>))
   }"

definition InputFirst_Allocate :: "'s arbiter_class \<Rightarrow> 's separable \<Rightarrow> 's separable option" where
  "InputFirst_Allocate C a0 = do {
     a \<leftarrow> foldM (input_first_request C) (in_occ a0) a0;
     foldM (input_first_grant C) (out_occ a) a
   }"

definition SeparableInputFirst :: "'s arbiter_class \<Rightarrow> 's separable alloc_class" where
  "SeparableInputFirst C = \<lparr>alloc_Clear = Separable_Clear C, alloc_AddRequest = Sparse_AddRequest,
     alloc_Allocate = InputFirst_Allocate C\<rparr>"

text \<open>Output first: the same with the sides exchanged.\<close>

definition output_first_request ::
  "'s arbiter_class \<Rightarrow> nat \<Rightarrow> 's separable \<Rightarrow> 's separable option" where
  "output_first_request C output a = do {
     oa0 \<leftarrow> foldM (\<lambda>e. arb_AddRequest C (sr_port (snd e)) (sr_label (snd e)) (sr_out_pri (snd e)))
       (out_req a ! output) (output_arb a ! output);
     (oa, input, res) \<leftarrow> arb_Arbitrate C oa0;
     assertion (input > -1);
     assertion (nat input < al_inputs a);
     (let (m, req) = req_at output (in_req a ! nat input);
          label = (case res of None \<Rightarrow> -1 | Some (l, p) \<Rightarrow> l)
      in do {
        assertion (sr_port req = output \<and> sr_label req = label);
        ia \<leftarrow> arb_AddRequest C (sr_port req) (sr_label req) (sr_in_pri req) (input_arb a ! nat input);
        Some (a\<lparr>in_req := (in_req a)[nat input := m], output_arb := (output_arb a)[output := oa],
                input_arb := (input_arb a)[nat input := ia]\<rparr>)
      })
   }"

definition output_first_grant ::
  "'s arbiter_class \<Rightarrow> nat \<Rightarrow> 's separable \<Rightarrow> 's separable option" where
  "output_first_grant C input a = do {
     (ia, output, res) \<leftarrow> arb_Arbitrate C (input_arb a ! input);
     (if output > -1
      then do {
        assertion (nat output < al_outputs a);
        assertion (inmatch a ! input = -1 \<and> outmatch a ! nat output = -1);
        ib \<leftarrow> arb_UpdateState C ia;
        ob \<leftarrow> arb_UpdateState C (output_arb a ! nat output);
        Some (grant input (nat output) (a\<lparr>input_arb := (input_arb a)[input := ib],
                                           output_arb := (output_arb a)[nat output := ob]\<rparr>))
      }
      else Some (a\<lparr>input_arb := (input_arb a)[input := ia]\<rparr>))
   }"

definition OutputFirst_Allocate :: "'s arbiter_class \<Rightarrow> 's separable \<Rightarrow> 's separable option" where
  "OutputFirst_Allocate C a0 = do {
     a \<leftarrow> foldM (output_first_request C) (out_occ a0) a0;
     foldM (output_first_grant C) (in_occ a) a
   }"

definition SeparableOutputFirst :: "'s arbiter_class \<Rightarrow> 's separable alloc_class" where
  "SeparableOutputFirst C = \<lparr>alloc_Clear = Separable_Clear C, alloc_AddRequest = Sparse_AddRequest,
     alloc_Allocate = OutputFirst_Allocate C\<rparr>"

subsection \<open>iSLIP\<close>

record islip = sparse_alloc +
  is_iter :: nat
  is_gptrs :: "nat list"
  is_aptrs :: "nat list"

definition iSLIP_init :: "nat \<Rightarrow> nat \<Rightarrow> nat \<Rightarrow> islip" where
  "iSLIP_init ins outs iters = sparse_alloc.extend (Sparse_init ins outs)
     \<lparr>is_iter = iters, is_gptrs = replicate outs 0, is_aptrs = replicate ins 0\<rparr>"

definition islip_grant :: "islip \<Rightarrow> nat \<Rightarrow> int" where
  "islip_grant a output =
     (if out_req a ! output = [] \<or> outmatch a ! output \<noteq> -1 then -1
      else case List.find (\<lambda>r. inmatch a ! sr_port r = -1)
          (scan_from sr_port (is_gptrs a ! output) (map snd (out_req a ! output))) of
        None \<Rightarrow> -1 | Some r \<Rightarrow> int (sr_port r))"

definition islip_accept :: "bool \<Rightarrow> int list \<Rightarrow> nat \<Rightarrow> islip \<Rightarrow> islip" where
  "islip_accept is_first grants input a =
     (if in_req a ! input = [] then a
      else case List.find (\<lambda>r. grants ! sr_port r = int input)
          (scan_from sr_port (is_aptrs a ! input) (map snd (in_req a ! input))) of
        None \<Rightarrow> a
      | Some r \<Rightarrow>
          let output = sr_port r; a1 = grant input output a
          in if is_first
             then a1\<lparr>is_gptrs := (is_gptrs a)[output := (input + 1) mod al_inputs a],
                     is_aptrs := (is_aptrs a)[input := (output + 1) mod al_outputs a]\<rparr>
             else a1)"

definition islip_iteration :: "bool \<Rightarrow> islip \<Rightarrow> islip" where
  "islip_iteration is_first a =
     fold (islip_accept is_first (map (islip_grant a) [0..<al_outputs a])) [0..<al_inputs a] a"

definition iSLIP_Allocate :: "islip \<Rightarrow> islip option" where
  "iSLIP_Allocate a = Some (fold (\<lambda>iter. islip_iteration (iter = 0)) [0..<is_iter a] a)"

definition iSLIP_Sparse :: "islip alloc_class" where
  "iSLIP_Sparse = \<lparr>alloc_Clear = Sparse_Clear, alloc_AddRequest = Sparse_AddRequest,
     alloc_Allocate = iSLIP_Allocate\<rparr>"

subsection \<open>SelAlloc\<close>

record selalloc = sparse_alloc +
  sel_iter :: nat
  sel_gptrs :: "nat list"
  sel_aptrs :: "nat list"
  sel_outmask :: "int list"

definition SelAlloc_init :: "nat \<Rightarrow> nat \<Rightarrow> nat \<Rightarrow> selalloc" where
  "SelAlloc_init ins outs iters = sparse_alloc.extend (Sparse_init ins outs)
     \<lparr>sel_iter = iters, sel_gptrs = replicate outs 0, sel_aptrs = replicate ins 0,
      sel_outmask = replicate outs 0\<rparr>"

text \<open>The loop over the requests: the first of the highest priority among the eligible ones.\<close>

definition sel_max :: "(alloc_request \<Rightarrow> bool) \<Rightarrow> (alloc_request \<Rightarrow> int) \<Rightarrow> alloc_request list \<Rightarrow> int" where
  "sel_max eligible pri rs = fst (fold (\<lambda>r (max_index, max_pri).
       if eligible r \<and> (pri r > max_pri \<or> max_index = -1) then (int (sr_port r), pri r)
       else (max_index, max_pri)) rs (-1, 0))"

text \<open>\<open>grants\<close> is declared outside the loop over the iterations, so an entry stays until another
  grant replaces it.\<close>

definition sel_grant :: "selalloc \<Rightarrow> nat \<Rightarrow> int list \<Rightarrow> int list" where
  "sel_grant a output grants =
     (if out_req a ! output = [] \<or> outmatch a ! output \<noteq> -1 \<or> sel_outmask a ! output \<noteq> 0
      then grants
      else let m = sel_max (\<lambda>r. inmatch a ! sr_port r = -1) sr_out_pri
             (scan_from sr_port (sel_gptrs a ! output) (map snd (out_req a ! output)))
           in if m \<noteq> -1 then grants[output := m] else grants)"

definition sel_accept :: "bool \<Rightarrow> int list \<Rightarrow> nat \<Rightarrow> selalloc \<Rightarrow> selalloc" where
  "sel_accept is_first grants input a =
     (if in_req a ! input = [] then a
      else let m = sel_max (\<lambda>r. grants ! sr_port r = int input \<and> out_req a ! sr_port r \<noteq> []) sr_in_pri
             (scan_from sr_port (sel_aptrs a ! input) (map snd (in_req a ! input)))
           in if m \<noteq> -1
              then let output = nat m; a1 = grant input output a
                   in if is_first
                      then a1\<lparr>sel_gptrs := (sel_gptrs a)[output := (input + 1) mod al_inputs a],
                              sel_aptrs := (sel_aptrs a)[input := (output + 1) mod al_outputs a]\<rparr>
                      else a1
              else a)"

definition sel_iteration :: "bool \<Rightarrow> int list \<times> selalloc \<Rightarrow> int list \<times> selalloc" where
  "sel_iteration is_first s =
     (let a = snd s; grants = fold (sel_grant a) (out_occ a) (fst s)
      in (grants, fold (sel_accept is_first grants) (in_occ a) a))"

definition SelAlloc_Allocate :: "selalloc \<Rightarrow> selalloc option" where
  "SelAlloc_Allocate a =
     Some (snd (fold (\<lambda>iter. sel_iteration (iter = 0)) [0..<sel_iter a] (replicate (al_outputs a) (-1), a)))"

definition MaskOutput :: "nat \<Rightarrow> int \<Rightarrow> selalloc \<Rightarrow> selalloc option" where
  "MaskOutput out v a = do {
     assertion (out < al_outputs a);
     Some (a\<lparr>sel_outmask := (sel_outmask a)[out := v]\<rparr>)
   }"

definition SelAlloc :: "selalloc alloc_class" where
  "SelAlloc = \<lparr>alloc_Clear = Sparse_Clear, alloc_AddRequest = Sparse_AddRequest,
     alloc_Allocate = SelAlloc_Allocate\<rparr>"

end
