(* ===== verification/Sparse_Contract.thy ===== *)
theory Sparse_Contract
  imports Sparse_Allocators Allocator_Properties
begin

text \<open>
  The invariant of a sparse allocator: its requests are kept twice, by input and by output, and the
  sets of occupied ports say which of the maps are not empty.
\<close>

definition sparse_areqs :: "'a sparse_alloc_scheme \<Rightarrow> (nat \<times> nat) \<rightharpoonup> int \<times> int \<times> int" where
  "sparse_areqs a = (\<lambda>(i, j). if i < al_inputs a
     then map_option (\<lambda>r. (sr_label r, sr_in_pri r, sr_out_pri r)) (map_of (in_req a ! i) j) else None)"

text \<open>One side: \<open>ms ! i\<close> holds the requests of port \<open>i\<close> for ports below \<open>n\<close> of the other side.\<close>

definition side_ok :: "nat \<Rightarrow> nat \<Rightarrow> alloc_request omap list \<Rightarrow> nat list \<Rightarrow> bool" where
  "side_ok m n ms occ \<longleftrightarrow> length ms = m \<and>
     (\<forall>i<m. om_sorted (ms ! i) \<and> (\<forall>(j, r) \<in> set (ms ! i). j < n \<and> sr_port r = j)) \<and>
     sorted_wrt (<) occ \<and> set occ = {i. i < m \<and> ms ! i \<noteq> []}"

definition sparse_shape :: "'a sparse_alloc_scheme \<Rightarrow> bool" where
  "sparse_shape a \<longleftrightarrow> side_ok (al_inputs a) (al_outputs a) (in_req a) (in_occ a) \<and>
     side_ok (al_outputs a) (al_inputs a) (out_req a) (out_occ a) \<and>
     (\<forall>i<al_inputs a. \<forall>j<al_outputs a.
       map_of (out_req a ! j) i = map_option (\<lambda>r. r\<lparr>sr_port := i\<rparr>) (map_of (in_req a ! i) j))"

definition sparse_ready :: "'a sparse_alloc_scheme \<Rightarrow> bool" where
  "sparse_ready a \<longleftrightarrow> base_clean a \<and> sparse_shape a \<and> (al_dirty a \<or> sparse_areqs a = Map.empty)"

definition sparse_finished :: "'a sparse_alloc_scheme \<Rightarrow> bool" where
  "sparse_finished a \<longleftrightarrow> base_shape a \<and> length (in_req a) = al_inputs a \<and> length (out_req a) = al_outputs a"

lemma om_put_entries: "om_sorted m \<Longrightarrow> set (om_put k v m) = insert (k, v) {e \<in> set m. fst e \<noteq> k}"
  by (induction k v m rule: om_put.induct) force+

lemma side_ok_put:
  assumes "side_ok m n ms occ" and "i < m" and "j < n" and "sr_port r = j"
  shows "side_ok m n (ms[i := om_put j r (ms ! i)]) (if ms ! i = [] then os_insert i occ else occ)"
  using assms om_put_sorted [of "ms ! i" j r] os_insert_sorted [of occ i]
  unfolding side_ok_def by (auto simp: nth_list_update om_put_entries)

lemma sparse_areqs_cong:
  "al_inputs a = al_inputs b \<Longrightarrow> in_req a = in_req b \<Longrightarrow> sparse_areqs a = sparse_areqs b"
  by (simp only: sparse_areqs_def)

lemma sparse_shape_cong:
  "al_inputs a = al_inputs b \<Longrightarrow> al_outputs a = al_outputs b \<Longrightarrow> in_req a = in_req b \<Longrightarrow>
    out_req a = out_req b \<Longrightarrow> in_occ a = in_occ b \<Longrightarrow> out_occ a = out_occ b \<Longrightarrow>
    sparse_shape a = sparse_shape b"
  by (simp only: sparse_shape_def)

text \<open>A request seen from either side.\<close>

lemma asked_in:
  assumes "sparse_shape a" and "i < al_inputs a"
  shows "asked (sparse_areqs a) i j \<longleftrightarrow> (\<exists>r. (j, r) \<in> set (in_req a ! i))"
    and "(k, r) \<in> set (in_req a ! i) \<Longrightarrow> sr_port r = k \<and> k < al_outputs a"
proof -
  have "distinct (map fst (in_req a ! i))"
    using assms strict_sorted_iff [of "map fst (in_req a ! i)"] by (auto simp: sparse_shape_def side_ok_def)
  then show "asked (sparse_areqs a) i j \<longleftrightarrow> (\<exists>r. (j, r) \<in> set (in_req a ! i))"
    using assms(2) by (auto simp: asked_def sparse_areqs_def dest: map_of_SomeD)
  show "(k, r) \<in> set (in_req a ! i) \<Longrightarrow> sr_port r = k \<and> k < al_outputs a"
    using assms by (fastforce simp: sparse_shape_def side_ok_def)
qed

lemma asked_out:
  assumes "sparse_shape a" and "i < al_inputs a" and "j < al_outputs a"
  shows "asked (sparse_areqs a) i j \<longleftrightarrow> (\<exists>r. (i, r) \<in> set (out_req a ! j))"
    and "(k, r) \<in> set (out_req a ! j) \<Longrightarrow> sr_port r = k \<and> k < al_inputs a"
proof -
  have "distinct (map fst (out_req a ! j))"
    using assms strict_sorted_iff [of "map fst (out_req a ! j)"] by (auto simp: sparse_shape_def side_ok_def)
  moreover have "map_of (out_req a ! j) i = map_option (\<lambda>r. r\<lparr>sr_port := i\<rparr>) (map_of (in_req a ! i) j)"
    using assms by (simp add: sparse_shape_def)
  ultimately show "asked (sparse_areqs a) i j \<longleftrightarrow> (\<exists>r. (i, r) \<in> set (out_req a ! j))"
    using assms(2) by (cases "map_of (in_req a ! i) j")
      (auto simp: asked_def sparse_areqs_def map_of_eq_None_iff image_iff dest: map_of_SomeD)
  show "(k, r) \<in> set (out_req a ! j) \<Longrightarrow> sr_port r = k \<and> k < al_inputs a"
    using assms by (fastforce simp: sparse_shape_def side_ok_def)
qed

lemma asked_in_range:
  "sparse_shape a \<Longrightarrow> asked (sparse_areqs a) i j \<Longrightarrow> i < al_inputs a \<and> j < al_outputs a"
  using asked_in [of a i] by (auto simp: asked_def sparse_areqs_def split: if_splits)

lemma Sparse_Clear_simps [simp]:
  "al_inputs (Sparse_Clear a) = al_inputs a" "al_outputs (Sparse_Clear a) = al_outputs a"
  "sparse_alloc.more (Sparse_Clear a) = sparse_alloc.more a"
  "in_req (Sparse_Clear a) = map (\<lambda>_. []) (in_req a)"
  "out_req (Sparse_Clear a) = map (\<lambda>_. []) (out_req a)"
  "in_occ (Sparse_Clear a) = []" "out_occ (Sparse_Clear a) = []"
  by (simp_all add: Sparse_Clear_def Allocator_Clear_def)

lemma sparse_clear:
  assumes "sparse_finished a"
  shows "sparse_ready (Sparse_Clear a) \<and> sparse_areqs (Sparse_Clear a) = Map.empty"
proof -
  have "base_clean (Sparse_Clear a)"
    unfolding Sparse_Clear_def using assms
    by (intro Allocator_Clear_clean) (simp add: base_shape_def sparse_finished_def)
  moreover have "sparse_shape (Sparse_Clear a)"
    using assms by (simp add: sparse_shape_def side_ok_def sparse_finished_def)
  moreover have "sparse_areqs (Sparse_Clear a) = Map.empty"
    using assms by (auto simp: sparse_areqs_def sparse_finished_def fun_eq_iff)
  ultimately show ?thesis by (simp add: sparse_ready_def)
qed

lemma sparse_add:
  assumes "sparse_ready a" and "i < al_inputs a" and "j < al_outputs a" and "sparse_areqs a (i, j) = None"
    and "0 \<le> l"
  shows "\<exists>t. Sparse_AddRequest i j l p q a = Some t \<and> sparse_ready t \<and>
    sparse_areqs t = (sparse_areqs a)((i, j) \<mapsto> (l, p, q)) \<and> al_inputs t = al_inputs a \<and>
    al_outputs t = al_outputs a \<and> sparse_alloc.more t = sparse_alloc.more a"
proof -
  let ?r = "\<lparr>sr_port = j, sr_label = l, sr_in_pri = p, sr_out_pri = q\<rparr>"
  let ?t = "a\<lparr>al_dirty := True,
    in_occ := (if in_req a ! i = [] then os_insert i (in_occ a) else in_occ a),
    out_occ := (if out_req a ! j = [] then os_insert j (out_occ a) else out_occ a),
    in_req := (in_req a)[i := om_put j ?r (in_req a ! i)],
    out_req := (out_req a)[j := om_put i (?r\<lparr>sr_port := i\<rparr>) (out_req a ! j)]\<rparr>"
  have s: "side_ok (al_inputs a) (al_outputs a) (in_req a) (in_occ a)"
    "side_ok (al_outputs a) (al_inputs a) (out_req a) (out_occ a)"
    and twice: "\<forall>i<al_inputs a. \<forall>j<al_outputs a.
       map_of (out_req a ! j) i = map_option (\<lambda>r. r\<lparr>sr_port := i\<rparr>) (map_of (in_req a ! i) j)"
    using assms(1) by (auto simp: sparse_ready_def sparse_shape_def)
  have none: "map_of (in_req a ! i) j = None" using assms(2,4) by (simp add: sparse_areqs_def)
  then have none': "map_of (out_req a ! j) i = None" using twice assms(2,3) by simp
  have sorted: "om_sorted (in_req a ! i)" "om_sorted (out_req a ! j)"
    and len: "length (in_req a) = al_inputs a" "length (out_req a) = al_outputs a"
    using s assms(2,3) by (auto simp: side_ok_def)
  have add: "Sparse_AddRequest i j l p q a = Some ?t"
    using assms(2,3,5) none none'
    by (simp add: Sparse_AddRequest_def Allocator_AddRequest_def om_count_def)
  have q: "sparse_areqs ?t = (sparse_areqs a)((i, j) \<mapsto> (l, p, q))"
    using assms(2) len sorted
    by (auto simp: sparse_areqs_def fun_eq_iff nth_list_update om_put_lookup)
  have "sparse_shape ?t"
  proof -
    have "side_ok (al_inputs ?t) (al_outputs ?t) (in_req ?t) (in_occ ?t)"
      "side_ok (al_outputs ?t) (al_inputs ?t) (out_req ?t) (out_occ ?t)"
      using side_ok_put [OF s(1) assms(2,3), of ?r] side_ok_put [OF s(2) assms(3,2), of "?r\<lparr>sr_port := i\<rparr>"]
      by simp_all
    moreover have "map_of (out_req ?t ! h) k = map_option (\<lambda>r. r\<lparr>sr_port := k\<rparr>) (map_of (in_req ?t ! k) h)"
      if "k < al_inputs a" "h < al_outputs a" for k h
      using that twice len sorted assms(2,3)
      by (cases "k = i"; cases "h = j") (auto simp: om_put_lookup)
    ultimately show ?thesis by (simp add: sparse_shape_def)
  qed
  moreover have "base_clean ?t" using assms(1) by (simp add: sparse_ready_def base_clean_def)
  ultimately show ?thesis using add q by (simp add: sparse_ready_def)
qed

lemma sparse_done:
  assumes "sparse_ready a" and "length (in_req t) = al_inputs a" and "length (out_req t) = al_outputs a"
    and "al_inputs t = al_inputs a" and "al_outputs t = al_outputs a" and "al_dirty t = al_dirty a"
    and "matching (al_inputs a) (al_outputs a) (asked (sparse_areqs a)) (inmatch t) (outmatch t)"
  shows "sparse_finished t"
  using assms no_requests_no_grants matching_lengths [OF assms(7)]
  by (auto simp: sparse_ready_def sparse_finished_def base_shape_def)

lemma Sparse_init:
  "sparse_finished (Sparse_init m n)" "al_inputs (Sparse_init m n) = m" "al_outputs (Sparse_init m n) = n"
  by (simp_all add: Sparse_init_def alloc_base.defs Allocator_init_def base_shape_def sparse_finished_def)

lemma sparse_finished_cong:
  "alloc_base.truncate a = alloc_base.truncate b \<Longrightarrow> in_req a = in_req b \<Longrightarrow> out_req a = out_req b \<Longrightarrow>
    sparse_finished a = sparse_finished b"
  by (simp add: sparse_finished_def base_shape_def alloc_base.defs)

subsection \<open>Requests added, read and removed\<close>

lemma om_erase_put:
  "om_sorted m \<Longrightarrow> map_of m k = None \<Longrightarrow> om_erase k (om_put k v m) = m"
proof (induction k v m rule: om_put.induct)
  case (2 k v j w m)
  have "om_erase k m = m" if "k < j"
    using 2(2) that by (auto simp: om_erase_def filter_id_conv)
  with 2 show ?case by (auto simp: om_erase_def split: if_splits)
qed (simp add: om_erase_def)

lemma os_remove_insert: "k \<notin> set s \<Longrightarrow> filter (\<lambda>x. x \<noteq> k) (os_insert k s) = s"
  by (induction s) (auto simp: filter_id_conv)

text \<open>C40: the request tables of a sparse allocator keep what is put in. A request that is added can be
  read back, its label, priorities and port unchanged, from both sides; and removing it again leaves
  both tables and both sets of occupied ports exactly as they were before.\<close>

theorem sparse_requests_round_trip:
  assumes "sparse_ready a" and "i < al_inputs a" and "j < al_outputs a"
    and "Sparse_ReadRequest i j a = Some None" and "0 \<le> l"
  shows "\<exists>t. Sparse_AddRequest i j l p q a = Some t \<and> sparse_ready t \<and>
    Sparse_ReadRequest i j t =
      Some (Some \<lparr>sr_port = j, sr_label = l, sr_in_pri = p, sr_out_pri = q\<rparr>) \<and>
    Sparse_InputHasRequests i t \<and> Sparse_OutputHasRequests j t \<and>
    Sparse_RemoveRequest i j l t = Some (a\<lparr>al_dirty := True\<rparr>)"
proof -
  have none: "map_of (in_req a ! i) j = None" using assms(2-4) by (simp add: Sparse_ReadRequest_def)
  then have areq: "sparse_areqs a (i, j) = None" by (simp add: sparse_areqs_def)
  from sparse_add [OF assms(1-3) areq assms(5), of p q] obtain t
    where t: "Sparse_AddRequest i j l p q a = Some t" "sparse_ready t" by auto
  have s: "side_ok (al_inputs a) (al_outputs a) (in_req a) (in_occ a)"
    "side_ok (al_outputs a) (al_inputs a) (out_req a) (out_occ a)"
    and none': "map_of (out_req a ! j) i = None"
    using assms(1-3) none by (auto simp: sparse_ready_def sparse_shape_def)
  let ?r = "\<lparr>sr_port = j, sr_label = l, sr_in_pri = p, sr_out_pri = q\<rparr>"
  let ?t = "a\<lparr>al_dirty := True,
    in_occ := (if in_req a ! i = [] then os_insert i (in_occ a) else in_occ a),
    out_occ := (if out_req a ! j = [] then os_insert j (out_occ a) else out_occ a),
    in_req := (in_req a)[i := om_put j ?r (in_req a ! i)],
    out_req := (out_req a)[j := om_put i (?r\<lparr>sr_port := i\<rparr>) (out_req a ! j)]\<rparr>"
  have "Sparse_AddRequest i j l p q a = Some ?t"
    using assms(2,3,5) none none'
    by (simp add: Sparse_AddRequest_def Allocator_AddRequest_def om_count_def)
  then have t': "t = ?t" using t(1) by (metis option.inject)
  from s assms(2,3) have m: "om_sorted (in_req a ! i)" "om_sorted (out_req a ! j)"
    "length (in_req a) = al_inputs a" "length (out_req a) = al_outputs a"
    "in_req a ! i = [] \<longleftrightarrow> i \<notin> set (in_occ a)" "out_req a ! j = [] \<longleftrightarrow> j \<notin> set (out_occ a)"
    by (auto simp: side_ok_def)
  have "Sparse_ReadRequest i j t = Some (Some ?r)"
    using m(1,3) assms(2,3) by (simp add: Sparse_ReadRequest_def t' om_put_lookup)
  moreover have "Sparse_InputHasRequests i t \<and> Sparse_OutputHasRequests j t"
    using m(5,6) by (simp add: Sparse_InputHasRequests_def Sparse_OutputHasRequests_def t')
  moreover have "Sparse_RemoveRequest i j l t = Some (a\<lparr>al_dirty := True\<rparr>)"
    using m assms(2,3) none none' om_erase_put [OF m(1) none] om_erase_put [OF m(2) none']
    by (simp add: Sparse_RemoveRequest_def t' om_put_lookup os_remove_insert Let_def)
  ultimately show ?thesis using t by blast
qed

lemma sparse_requests_round_trip_witness:
  "\<exists>t. Sparse_AddRequest 1 0 7 2 3 (Sparse_init 2 2) = Some t \<and> sparse_ready t \<and>
    Sparse_ReadRequest 1 0 t = Some (Some \<lparr>sr_port = 0, sr_label = 7, sr_in_pri = 2, sr_out_pri = 3\<rparr>) \<and>
    Sparse_InputHasRequests 1 t \<and> Sparse_OutputHasRequests 0 t \<and>
    Sparse_RemoveRequest 1 0 7 t = Some ((Sparse_init 2 2)\<lparr>al_dirty := True\<rparr>)"
proof (rule sparse_requests_round_trip)
  show "sparse_ready (Sparse_init 2 2)"
    by (auto simp: sparse_ready_def base_clean_def sparse_shape_def side_ok_def sparse_areqs_def
        Sparse_init_def alloc_base.defs Allocator_init_def fun_eq_iff)
qed (simp_all add: Sparse_init_def alloc_base.defs Allocator_init_def Sparse_ReadRequest_def)

end
