(* ===== verification/Iterative_Matching.thy ===== *)
theory Iterative_Matching
  imports Sparse_Contract
begin

text \<open>
  PIM and iSLIP (pim.cpp, islip.cpp) iterate: the free outputs grant one of the free inputs that
  request them, and each input accepts one of its grants.  An iteration extends the matching unless
  it is maximal already, so after \<open>k\<close> iterations it is maximal or has \<open>k\<close> grants.  LOA (loa.cpp)
  has one iteration with the sides exchanged: an input asks for one of its outputs, and an output that
  is asked for is granted.
\<close>

subsection \<open>One iteration\<close>

definition good_grants ::
  "nat \<Rightarrow> nat \<Rightarrow> (nat \<Rightarrow> nat \<Rightarrow> bool) \<Rightarrow> int list \<Rightarrow> int list \<Rightarrow> int list \<Rightarrow> bool" where
  "good_grants m n R g im om \<longleftrightarrow> (\<forall>j<n.
     if om ! j = -1 \<and> (\<exists>i<m. R i j \<and> im ! i = -1)
     then \<exists>i<m. g ! j = int i \<and> R i j \<and> im ! i = -1 else g ! j = -1)"

definition accepts ::
  "nat \<Rightarrow> int list \<Rightarrow> nat \<Rightarrow> int list \<times> int list \<Rightarrow> int list \<times> int list \<Rightarrow> bool" where
  "accepts n g i x y \<longleftrightarrow>
     (\<exists>j<n. g ! j = int i \<and> y = ((fst x)[i := int j], (snd x)[j := int i])) \<or>
     (y = x \<and> (\<forall>j<n. g ! j \<noteq> int i))"

lemma accept_phase:
  fixes f :: "nat \<Rightarrow> 's \<Rightarrow> 's" and im om :: "'s \<Rightarrow> int list"
  assumes "matching m n R (im s) (om s)" and "good_grants m n R g (im s) (om s)" and "I s"
    and "\<And>i t. i < m \<Longrightarrow> I t \<Longrightarrow> I (f i t) \<and> accepts n g i (im t, om t) (im (f i t), om (f i t))"
  shows "I (fold f [0..<m] s) \<and>
    matching m n R (im (fold f [0..<m] s)) (om (fold f [0..<m] s)) \<and>
    (if maximal m n R (im s) (om s) then maximal m n R (im (fold f [0..<m] s)) (om (fold f [0..<m] s))
     else card (granted (im s)) < card (granted (im (fold f [0..<m] s))))"
proof -
  have gr: "g ! j = -1 \<or> (\<exists>i<m. g ! j = int i \<and> R i j \<and> im s ! i = -1 \<and> om s ! j = -1)"
    if "j < n" for j
    using assms(2) that unfolding good_grants_def by (metis (full_types))
  have run: "I (fold f [0..<k] s) \<and>
      matching m n R (im (fold f [0..<k] s)) (om (fold f [0..<k] s)) \<and>
      (\<forall>i. k \<le> i \<longrightarrow> i < m \<longrightarrow> im (fold f [0..<k] s) ! i = im s ! i) \<and>
      (\<forall>j<n. om (fold f [0..<k] s) ! j = om s ! j \<or> (\<exists>i<k. g ! j = int i)) \<and>
      granted (im (fold f [0..<k] s)) = granted (im s) \<union> {i. i < k \<and> (\<exists>j<n. g ! j = int i)} \<and>
      ((\<forall>j<n. g ! j = -1) \<longrightarrow> im (fold f [0..<k] s) = im s \<and> om (fold f [0..<k] s) = om s)"
    if "k \<le> m" for k
    using that
  proof (induction k)
    case 0
    then show ?case using assms(1,3) by simp
  next
    case (Suc k)
    let ?t = "fold f [0..<k] s" and ?u = "fold f [0..<Suc k] s"
    have u: "?u = f k ?t" by simp
    from Suc have IH: "I ?t" "matching m n R (im ?t) (om ?t)"
      "\<forall>i. k \<le> i \<longrightarrow> i < m \<longrightarrow> im ?t ! i = im s ! i"
      "\<forall>j<n. om ?t ! j = om s ! j \<or> (\<exists>i<k. g ! j = int i)"
      "granted (im ?t) = granted (im s) \<union> {i. i < k \<and> (\<exists>j<n. g ! j = int i)}"
      "(\<forall>j<n. g ! j = -1) \<longrightarrow> im ?t = im s \<and> om ?t = om s" and k: "k < m" by auto
    from assms(4) [OF k IH(1)] have I: "I ?u" and a: "accepts n g k (im ?t, om ?t) (im ?u, om ?u)"
      unfolding u by auto
    from a show ?case unfolding accepts_def
    proof (elim disjE exE conjE)
      fix j assume j: "j < n" "g ! j = int k"
        "(im ?u, om ?u) = ((fst (im ?t, om ?t))[k := int j], (snd (im ?t, om ?t))[j := int k])"
      from gr [OF j(1)] j(2) have free: "R k j" "im s ! k = -1" "om s ! j = -1" by auto
      have len: "length (im ?t) = m" "length (om ?t) = n" using matching_lengths [OF IH(2)] by auto
      have "im ?t ! k = -1" "om ?t ! j = -1" using IH(3,4) j(1,2) k free by auto
      from matching_grant [OF IH(2) k j(1) this free(1)] j(3)
      have "matching m n R (im ?u) (om ?u)" by simp
      moreover have "granted (im ?u) = granted (im s) \<union> {i. i < Suc k \<and> (\<exists>j<n. g ! j = int i)}"
        using granted_update [of k "im ?t" j] len k j IH(5) by (auto simp: less_Suc_eq)
      moreover have "om ?u ! l = om s ! l \<or> (\<exists>i<Suc k. g ! l = int i)" if "l < n" for l
        using that IH(4) j len by (cases "l = j") (auto simp: less_Suc_eq)
      moreover have "\<forall>i. Suc k \<le> i \<longrightarrow> i < m \<longrightarrow> im ?u ! i = im s ! i"
        using IH(3) j(3) by auto
      ultimately show ?thesis using I j(1,2) by auto
    next
      assume "(im ?u, om ?u) = (im ?t, om ?t)" and none: "\<forall>j<n. g ! j \<noteq> int k"
      moreover from this have "{i. i < Suc k \<and> (\<exists>j<n. g ! j = int i)} =
        {i. i < k \<and> (\<exists>j<n. g ! j = int i)}" by (auto simp: less_Suc_eq)
      ultimately show ?thesis using I IH by (auto simp: less_Suc_eq)
    qed
  qed
  show ?thesis
  proof (cases "maximal m n R (im s) (om s)")
    case True
    then have "\<forall>j<n. g ! j = -1"
      using gr unfolding maximal_def by blast
    with run [of m] True show ?thesis by auto
  next
    case False
    then obtain i j where ij: "i < m" "j < n" "R i j" "im s ! i = -1" "om s ! j = -1"
      by (auto simp: maximal_def)
    with assms(2) obtain k where k: "k < m" "g ! j = int k" "im s ! k = -1"
      unfolding good_grants_def by (metis (full_types))
    have "k \<notin> granted (im s)" using k(3) by (simp add: granted_def)
    moreover have "insert k (granted (im s)) \<subseteq> granted (im (fold f [0..<m] s))"
      using run [of m] k ij(2) by auto
    ultimately have "card (granted (im s)) < card (granted (im (fold f [0..<m] s)))"
      by (metis Suc_le_eq card_insert_disjoint card_mono finite_granted)
    with run [of m] False show ?thesis by simp
  qed
qed

text \<open>\<open>k\<close> iterations.\<close>

definition nearly_maximal :: "nat \<Rightarrow> nat \<Rightarrow> nat \<Rightarrow> (nat \<Rightarrow> nat \<Rightarrow> bool) \<Rightarrow> int list \<Rightarrow> int list \<Rightarrow> bool" where
  "nearly_maximal k m n R im om \<longleftrightarrow> maximal m n R im om \<or> k \<le> card (granted im)"

lemma nearly_maximal_enough:
  assumes "matching m n R im om" and "nearly_maximal k m n R im om" and "m \<le> k \<or> n \<le> k"
  shows "maximal m n R im om"
proof (rule ccontr)
  assume "\<not> maximal m n R im om"
  then obtain i j where ij: "i < m" "j < n" "im ! i = -1" "om ! j = -1" by (auto simp: maximal_def)
  have len: "length im = m" using matching_lengths [OF assms(1)] by simp
  have "granted im \<subseteq> {..<m} - {i}" using ij len by (auto simp: granted_def)
  then have "card (granted im) \<le> m - 1"
    using card_mono [of "{..<m} - {i}" "granted im"] ij(1) by simp
  moreover have "card (granted im) \<le> n - 1"
  proof -
    have "card (granted im) \<le> card ({..<n} - {j})"
    proof (rule card_inj_on_le [where f = "\<lambda>k. nat (im ! k)"])
      show "inj_on (\<lambda>k. nat (im ! k)) (granted im)"
      proof (rule inj_onI)
        fix x y assume "x \<in> granted im" "y \<in> granted im" "nat (im ! x) = nat (im ! y)"
        with matching_inD [OF assms(1), of x] matching_inD [OF assms(1), of y] len
        show "x = y" by (auto simp: granted_def)
      qed
      show "(\<lambda>k. nat (im ! k)) ` granted im \<subseteq> {..<n} - {j}"
        using matching_inD [OF assms(1)] len ij(4) by (force simp: granted_def)
    qed simp
    with ij(2) show ?thesis by simp
  qed
  ultimately have "k \<le> m - 1 \<and> k \<le> n - 1"
    using assms(2) \<open>\<not> maximal m n R im om\<close> by (simp add: nearly_maximal_def)
  with assms(3) ij(1,2) show False by auto
qed

subsection \<open>PIM\<close>

lemma find_Some_iff_ex: "(\<exists>x. List.find P xs = Some x) \<longleftrightarrow> (\<exists>x \<in> set xs. P x)"
  by (metis find_None_iff not_None_eq)

lemma find_SomeD: "List.find P xs = Some x \<Longrightarrow> x \<in> set xs \<and> P x"
  by (metis find_Some_iff nth_mem)

text \<open>What stays during \<open>Allocate\<close>.\<close>

definition pim_same :: "pim \<Rightarrow> pim \<Rightarrow> bool" where
  "pim_same a t \<longleftrightarrow> (\<exists>im om. t = a\<lparr>inmatch := im, outmatch := om\<rparr>)"

lemma pim_same_grant:
  assumes "pim_same a t"
  shows "pim_same a (grant i j t)"
proof -
  from assms obtain im om where "t = a\<lparr>inmatch := im, outmatch := om\<rparr>" by (auto simp: pim_same_def)
  then have "grant i j t = a\<lparr>inmatch := im[i := int j], outmatch := om[j := int i]\<rparr>"
    by (simp add: grant_def)
  then show ?thesis unfolding pim_same_def by blast
qed

lemma pim_iteration:
  fixes g h :: "nat \<Rightarrow> nat"
  assumes "pim_same a s"
    and "matching (al_inputs a) (al_outputs a) (asked (dense_areqs a)) (inmatch s) (outmatch s)"
  defines "R \<equiv> asked (dense_areqs a)" and "t \<equiv> pim_iteration g h s"
  shows "pim_same a t \<and> matching (al_inputs a) (al_outputs a) R (inmatch t) (outmatch t) \<and>
    (if maximal (al_inputs a) (al_outputs a) R (inmatch s) (outmatch s)
     then maximal (al_inputs a) (al_outputs a) R (inmatch t) (outmatch t)
     else card (granted (inmatch s)) < card (granted (inmatch t)))"
proof -
  let ?g = "map (\<lambda>output. pim_grant (g output) s output) [0..<al_outputs s]"
  from assms(1) have same: "al_inputs s = al_inputs a" "al_outputs s = al_outputs a"
    "d_request s = d_request a" by (auto simp: pim_same_def)
  have good: "good_grants (al_inputs a) (al_outputs a) R ?g (inmatch s) (outmatch s)"
    unfolding good_grants_def
  proof (intro allI impI)
    fix j assume j: "j < al_outputs a"
    let ?P = "\<lambda>i. sr_label (d_request a ! i ! j) \<noteq> -1 \<and> inmatch s ! i = -1 \<and> outmatch s ! j = -1"
    have P: "?P i \<longleftrightarrow> R i j \<and> inmatch s ! i = -1 \<and> outmatch s ! j = -1" if "i < al_inputs a" for i
      using that j by (simp add: R_def asked_dense)
    let ?xs = "map (\<lambda>i. (i + g j) mod al_inputs a) [0..<al_inputs a]"
    have g: "?g ! j = (case List.find ?P ?xs of None \<Rightarrow> -1 | Some i \<Rightarrow> int i)"
      using j same by (simp add: pim_grant_def)
    have "set ?xs = {..<al_inputs a}" by (rule set_round_robin)
    then have ex: "(\<exists>i. List.find ?P ?xs = Some i) \<longleftrightarrow>
        outmatch s ! j = -1 \<and> (\<exists>i<al_inputs a. R i j \<and> inmatch s ! i = -1)"
      unfolding find_Some_iff_ex using P by blast
    show "if outmatch s ! j = -1 \<and> (\<exists>i<al_inputs a. R i j \<and> inmatch s ! i = -1)
        then \<exists>i<al_inputs a. ?g ! j = int i \<and> R i j \<and> inmatch s ! i = -1 else ?g ! j = -1"
    proof (cases "List.find ?P ?xs")
      case None
      with ex g show ?thesis by auto
    next
      case (Some i)
      from find_SomeD [OF this] \<open>set ?xs = _\<close> have "i < al_inputs a" "?P i" by auto
      with P Some ex g show ?thesis by auto
    qed
  qed
  have step: "pim_same a (pim_accept ?g (h i) i u) \<and>
      accepts (al_outputs a) ?g i (inmatch u, outmatch u)
        (inmatch (pim_accept ?g (h i) i u), outmatch (pim_accept ?g (h i) i u))"
    if "pim_same a u" for i u
  proof -
    let ?ys = "map (\<lambda>k. (k + h i) mod al_outputs a) [0..<al_outputs a]"
    have d: "al_outputs u = al_outputs a" using that by (auto simp: pim_same_def)
    have ys: "set ?ys = {..<al_outputs a}" by (rule set_round_robin)
    show ?thesis
    proof (cases "List.find (\<lambda>j. ?g ! j = int i) ?ys")
      case None
      then have "\<forall>j \<in> set ?ys. ?g ! j \<noteq> int i" unfolding find_None_iff by blast
      then have "\<forall>j<al_outputs a. ?g ! j \<noteq> int i" unfolding ys Ball_def lessThan_iff .
      with None that d show ?thesis by (simp add: pim_accept_def accepts_def)
    next
      case (Some j)
      from find_SomeD [OF Some] ys have "j < al_outputs a" "?g ! j = int i" by auto
      with Some that d show ?thesis
        by (auto simp: pim_accept_def accepts_def pim_same_grant)
    qed
  qed
  have t: "t = fold (\<lambda>i. pim_accept ?g (h i) i) [0..<al_inputs a] s"
    by (simp add: t_def pim_iteration_def same Let_def)
  show ?thesis
    unfolding t
  proof (rule accept_phase [where I = "pim_same a"])
    show "matching (al_inputs a) (al_outputs a) R (inmatch s) (outmatch s)"
      unfolding R_def by (rule assms(2))
  qed (rule good assms(1) step, assumption?)+
qed

text \<open>What the draws give does not matter.\<close>

lemma PIM_Allocate:
  assumes "dense_ready a"
  shows "\<exists>t. PIM_Allocate g h a = Some t \<and> dense_finished t \<and> pim_same a t \<and>
    matching (al_inputs a) (al_outputs a) (asked (dense_areqs a)) (inmatch t) (outmatch t) \<and>
    nearly_maximal (pim_iter a) (al_inputs a) (al_outputs a) (asked (dense_areqs a)) (inmatch t) (outmatch t)"
proof -
  let ?R = "asked (dense_areqs a)"
  let ?m = "\<lambda>t. matching (al_inputs a) (al_outputs a) ?R (inmatch t) (outmatch t)"
  let ?good = "\<lambda>t. maximal (al_inputs a) (al_outputs a) ?R (inmatch t) (outmatch t)"
  let ?t = "fold (\<lambda>k. pim_iteration (g k) (h k)) [0..<pim_iter a] a"
  have "a = a\<lparr>inmatch := inmatch a, outmatch := outmatch a\<rparr>" by simp
  then have refl: "pim_same a a" unfolding pim_same_def by blast
  have m0: "?m a" using assms by (simp add: dense_ready_def base_clean_matching)
  have r: "(pim_same a ?t \<and> ?m ?t) \<and>
      (?good ?t \<or> card (granted (inmatch a)) + length [0..<pim_iter a] \<le> card (granted (inmatch ?t))) \<and>
      (?good a \<longrightarrow> ?good ?t)"
  proof (rule iterations_progress [where I = "\<lambda>t. pim_same a t \<and> ?m t" and good = ?good
        and c = "\<lambda>t. card (granted (inmatch t))"])
    show "pim_same a a \<and> ?m a" using refl m0 by blast
    fix k s assume "pim_same a s \<and> ?m s"
    with pim_iteration [of a s "g k" "h k"]
    show "(pim_same a (pim_iteration (g k) (h k) s) \<and> ?m (pim_iteration (g k) (h k) s)) \<and>
      (?good s \<longrightarrow> ?good (pim_iteration (g k) (h k) s)) \<and>
      (\<not> ?good s \<longrightarrow> card (granted (inmatch s)) < card (granted (inmatch (pim_iteration (g k) (h k) s))))"
      by (simp split: if_splits)
  qed
  have "dense_finished ?t"
    by (rule dense_done [OF assms]) (use r in \<open>auto simp: pim_same_def\<close>)
  with r show ?thesis by (auto simp: PIM_Allocate_def nearly_maximal_def)
qed

interpretation pim: allocator "PIM g h" al_inputs al_outputs inmatch outmatch dense_areqs
  "\<lambda>a. dense_ready a \<and> pim_iter a = k" "\<lambda>a. dense_finished a \<and> pim_iter a = k"
  "\<lambda>t Q. nearly_maximal k (al_inputs t) (al_outputs t) (asked Q) (inmatch t) (outmatch t)"
  for g h :: "nat \<Rightarrow> nat \<Rightarrow> nat" and k
proof (unfold_locales, goal_cases)
  case (1 s)
  then show ?case using dense_clear [of s] by (simp add: PIM_def Dense_Clear_def Allocator_Clear_def)
next
  case (2 s i j l p q)
  then have s: "dense_ready s" by simp
  from dense_add [OF s 2(2-5), of p q] obtain t where t: "Dense_AddRequest i j l p q s = Some t"
    "dense_ready t" "dense_areqs t = (dense_areqs s)((i, j) \<mapsto> (l, p, q))"
    "al_inputs t = al_inputs s" "al_outputs t = al_outputs s" "dense_alloc.more t = dense_alloc.more s"
    by blast
  have "pim_iter t = pim_iter s" using t(6) by (cases t; cases s) simp
  with t 2(1) show ?case by (simp add: PIM_def)
next
  case (3 s)
  from 3 PIM_Allocate [of s g h] show ?case by (auto simp: PIM_def pim_same_def)
qed

text \<open>PIM converges whatever it draws. In a run of allocation rounds no round fails, the grants
  are pairs that were requested with no input or output granted twice, and after \<open>k\<close> iterations the
  matching is maximal (no free input requests a free output) or has at least \<open>k\<close> grants; so it is
  maximal when there are as many iterations as inputs, or as outputs.\<close>

theorem pim_converges:
  assumes "\<forall>rs \<in> set rss. legal_areqs m n rs"
  shows "\<exists>ts. alloc_rounds (PIM g h) rss (PIM_init m n k) = Some ts \<and>
    list_all2 (\<lambda>rs t. matching m n (asked (map_of rs)) (inmatch t) (outmatch t) \<and>
      (maximal m n (asked (map_of rs)) (inmatch t) (outmatch t) \<or>
       k < m \<and> k < n \<and> k \<le> card (granted (inmatch t)))) rss ts"
proof -
  have "dense_finished (PIM_init m n k) = dense_finished (Dense_init m n)"
    by (rule dense_finished_cong) (simp_all add: PIM_init_def dense_alloc.defs alloc_base.defs)
  then have i: "dense_finished (PIM_init m n k) \<and> pim_iter (PIM_init m n k) = k"
    "al_inputs (PIM_init m n k) = m" "al_outputs (PIM_init m n k) = n"
    using Dense_init_finished [of m n] Dense_init [of m n] by (simp_all add: PIM_init_def dense_alloc.defs)
  from pim.rounds [OF i(1), of rss g h] i(2,3) assms obtain ts
    where ts: "alloc_rounds (PIM g h) rss (PIM_init m n k) = Some ts"
      "list_all2 (\<lambda>rs t. al_inputs t = m \<and> al_outputs t = n \<and>
        matching m n (asked (map_of rs)) (inmatch t) (outmatch t) \<and>
        nearly_maximal k (al_inputs t) (al_outputs t) (asked (map_of rs)) (inmatch t) (outmatch t)) rss ts"
    by auto
  from ts(2) have "list_all2 (\<lambda>rs t. matching m n (asked (map_of rs)) (inmatch t) (outmatch t) \<and>
      (maximal m n (asked (map_of rs)) (inmatch t) (outmatch t) \<or>
       k < m \<and> k < n \<and> k \<le> card (granted (inmatch t)))) rss ts"
    by (rule list_all2_mono) (use nearly_maximal_enough in \<open>force simp: nearly_maximal_def\<close>)
  with ts(1) show ?thesis by blast
qed

lemma pim_converges_witness:
  "\<exists>ts. alloc_rounds (PIM (\<lambda>_ _. 1) (\<lambda>_ _. 0)) [[((0, 0), 1, 0, 0), ((0, 1), 1, 0, 0), ((1, 0), 1, 0, 0)]]
      (PIM_init 2 2 1) = Some ts \<and>
    list_all2 (\<lambda>rs t. matching 2 2 (asked (map_of rs)) (inmatch t) (outmatch t) \<and>
      (maximal 2 2 (asked (map_of rs)) (inmatch t) (outmatch t) \<or>
       (1::nat) < 2 \<and> (1::nat) < 2 \<and> 1 \<le> card (granted (inmatch t))))
      [[((0, 0), 1, 0, 0), ((0, 1), 1, 0, 0), ((1, 0), 1, 0, 0)]] ts"
  by (rule pim_converges) (simp_all add: legal_areqs_def)

subsection \<open>iSLIP\<close>

definition islip_same :: "islip \<Rightarrow> islip \<Rightarrow> bool" where
  "islip_same a t \<longleftrightarrow> al_inputs t = al_inputs a \<and> al_outputs t = al_outputs a \<and>
     al_dirty t = al_dirty a \<and> in_req t = in_req a \<and> out_req t = out_req a \<and> is_iter t = is_iter a"

lemma islip_grant_good:
  assumes "sparse_shape a" and "islip_same a s"
  shows "good_grants (al_inputs a) (al_outputs a) (asked (sparse_areqs a))
    (map (islip_grant s) [0..<al_outputs s]) (inmatch s) (outmatch s)"
  unfolding good_grants_def
proof (intro allI impI)
  fix j assume j: "j < al_outputs a"
  let ?R = "asked (sparse_areqs a)" and ?g = "map (islip_grant s) [0..<al_outputs s]"
  let ?xs = "scan_from sr_port (is_gptrs s ! j) (map snd (out_req a ! j))"
  let ?f = "List.find (\<lambda>r. inmatch s ! sr_port r = -1) ?xs"
  have same: "al_outputs s = al_outputs a" "out_req s = out_req a"
    using assms(2) by (auto simp: islip_same_def)
  have xs: "r \<in> set ?xs \<longleftrightarrow> (\<exists>k. (k, r) \<in> set (out_req a ! j))" for r by force
  have req: "?R i j \<longleftrightarrow> (\<exists>r. (i, r) \<in> set (out_req a ! j))" if "i < al_inputs a" for i
    using asked_out(1) [OF assms(1) that j] .
  have port: "(k, r) \<in> set (out_req a ! j) \<Longrightarrow> sr_port r = k \<and> k < al_inputs a" for k r
    using assms(1) j by (fastforce simp: sparse_shape_def side_ok_def)
  have g: "?g ! j = (if out_req a ! j = [] \<or> outmatch s ! j \<noteq> -1 then -1
      else case ?f of None \<Rightarrow> -1 | Some r \<Rightarrow> int (sr_port r))"
    using j same by (simp add: islip_grant_def)
  show "if outmatch s ! j = -1 \<and> (\<exists>i<al_inputs a. ?R i j \<and> inmatch s ! i = -1)
      then \<exists>i<al_inputs a. ?g ! j = int i \<and> ?R i j \<and> inmatch s ! i = -1 else ?g ! j = -1"
  proof (cases ?f)
    case None
    then have "inmatch s ! sr_port r \<noteq> -1" if "(k, r) \<in> set (out_req a ! j)" for k r
      using xs that unfolding find_None_iff by blast
    then have "\<not> (\<exists>i<al_inputs a. ?R i j \<and> inmatch s ! i = -1)" using req port by blast
    with g None show ?thesis by simp
  next
    case (Some r)
    from find_SomeD [OF this] xs obtain k where k: "(k, r) \<in> set (out_req a ! j)"
      "inmatch s ! sr_port r = -1" by blast
    then have "out_req a ! j \<noteq> []" by auto
    with g Some have "outmatch s ! j = -1 \<longrightarrow> ?g ! j = int k" "outmatch s ! j \<noteq> -1 \<longrightarrow> ?g ! j = -1"
      using port [OF k(1)] by simp_all
    with k port [OF k(1)] req show ?thesis by auto
  qed
qed

lemma islip_accept:
  assumes "sparse_shape a" and "islip_same a t" and "i < al_inputs a"
    and "\<And>j. j < al_outputs a \<Longrightarrow> g ! j = int i \<Longrightarrow> asked (sparse_areqs a) i j"
  shows "islip_same a (islip_accept is_first g i t) \<and>
    accepts (al_outputs a) g i (inmatch t, outmatch t)
      (inmatch (islip_accept is_first g i t), outmatch (islip_accept is_first g i t))"
proof -
  let ?xs = "scan_from sr_port (is_aptrs t ! i) (map snd (in_req a ! i))"
  let ?f = "List.find (\<lambda>r. g ! sr_port r = int i) ?xs"
  have same: "in_req t = in_req a" using assms(2) by (auto simp: islip_same_def)
  have xs: "r \<in> set ?xs \<longleftrightarrow> (\<exists>k. (k, r) \<in> set (in_req a ! i))" for r by force
  note req = asked_in [OF assms(1,3)]
  show ?thesis
  proof (cases ?f)
    case None
    then have "islip_accept is_first g i t = t" by (simp add: islip_accept_def same)
    moreover have "g ! j \<noteq> int i" if "j < al_outputs a" for j
    proof
      assume "g ! j = int i"
      with assms(4) that req(1) obtain r where "(j, r) \<in> set (in_req a ! i)" by blast
      with None xs req(2) \<open>g ! j = int i\<close> show False unfolding find_None_iff by blast
    qed
    ultimately show ?thesis using assms(2) by (simp add: accepts_def)
  next
    case (Some r)
    from find_SomeD [OF this] xs obtain k where k: "(k, r) \<in> set (in_req a ! i)"
      "g ! sr_port r = int i" by blast
    with req(2) have j: "sr_port r = k" "k < al_outputs a" "in_req a ! i \<noteq> []" by auto
    with Some k assms(2) show ?thesis
      by (auto simp: islip_accept_def same islip_same_def accepts_def Let_def grant_def)
  qed
qed

lemma islip_iteration:
  assumes "sparse_shape a" and "islip_same a s"
    and "matching (al_inputs a) (al_outputs a) (asked (sparse_areqs a)) (inmatch s) (outmatch s)"
  shows "islip_same a (islip_iteration is_first s) \<and>
    matching (al_inputs a) (al_outputs a) (asked (sparse_areqs a)) (inmatch (islip_iteration is_first s))
      (outmatch (islip_iteration is_first s)) \<and>
    (if maximal (al_inputs a) (al_outputs a) (asked (sparse_areqs a)) (inmatch s) (outmatch s)
     then maximal (al_inputs a) (al_outputs a) (asked (sparse_areqs a))
       (inmatch (islip_iteration is_first s)) (outmatch (islip_iteration is_first s))
     else card (granted (inmatch s)) < card (granted (inmatch (islip_iteration is_first s))))"
proof -
  let ?g = "map (islip_grant s) [0..<al_outputs s]"
  note good = islip_grant_good [OF assms(1,2)]
  have R: "asked (sparse_areqs a) i j" if "j < al_outputs a" "?g ! j = int i" for i j
    using good that unfolding good_grants_def by (force split: if_splits)
  have t: "islip_iteration is_first s = fold (islip_accept is_first ?g) [0..<al_inputs a] s"
    using assms(2) by (simp add: islip_iteration_def islip_same_def)
  show ?thesis
    unfolding t
  proof (rule accept_phase [where I = "islip_same a"])
    fix i u assume "i < al_inputs a" "islip_same a u"
    from islip_accept [OF assms(1) this(2,1) R]
    show "islip_same a (islip_accept is_first ?g i u) \<and> accepts (al_outputs a) ?g i (inmatch u, outmatch u)
      (inmatch (islip_accept is_first ?g i u), outmatch (islip_accept is_first ?g i u))" .
  qed (rule assms(3) good assms(2))+
qed

lemma iSLIP_Allocate:
  assumes "sparse_ready a"
  shows "\<exists>t. iSLIP_Allocate a = Some t \<and> sparse_finished t \<and> islip_same a t \<and>
    matching (al_inputs a) (al_outputs a) (asked (sparse_areqs a)) (inmatch t) (outmatch t) \<and>
    nearly_maximal (is_iter a) (al_inputs a) (al_outputs a) (asked (sparse_areqs a)) (inmatch t) (outmatch t)"
proof -
  let ?R = "asked (sparse_areqs a)"
  let ?m = "\<lambda>t. matching (al_inputs a) (al_outputs a) ?R (inmatch t) (outmatch t)"
  let ?good = "\<lambda>t. maximal (al_inputs a) (al_outputs a) ?R (inmatch t) (outmatch t)"
  let ?t = "fold (\<lambda>k. islip_iteration (k = 0)) [0..<is_iter a] a"
  have shape: "sparse_shape a" using assms by (simp add: sparse_ready_def)
  have r: "(islip_same a ?t \<and> ?m ?t) \<and>
      (?good ?t \<or> card (granted (inmatch a)) + length [0..<is_iter a] \<le> card (granted (inmatch ?t))) \<and>
      (?good a \<longrightarrow> ?good ?t)"
  proof (rule iterations_progress [where I = "\<lambda>t. islip_same a t \<and> ?m t" and good = ?good
        and c = "\<lambda>t. card (granted (inmatch t))"])
    show "islip_same a a \<and> ?m a"
      using assms by (simp add: islip_same_def sparse_ready_def base_clean_matching)
    fix k :: nat and s assume "islip_same a s \<and> ?m s"
    with islip_iteration [OF shape, of s "k = 0"]
    show "(islip_same a (islip_iteration (k = 0) s) \<and> ?m (islip_iteration (k = 0) s)) \<and>
      (?good s \<longrightarrow> ?good (islip_iteration (k = 0) s)) \<and>
      (\<not> ?good s \<longrightarrow> card (granted (inmatch s)) < card (granted (inmatch (islip_iteration (k = 0) s))))"
      by (simp split: if_splits)
  qed
  have "sparse_finished ?t"
    by (rule sparse_done [OF assms])
      (use r shape in \<open>auto simp: islip_same_def sparse_shape_def side_ok_def\<close>)
  with r show ?thesis by (auto simp: iSLIP_Allocate_def nearly_maximal_def)
qed

interpretation islip: allocator iSLIP_Sparse al_inputs al_outputs inmatch outmatch sparse_areqs
  "\<lambda>a. sparse_ready a \<and> is_iter a = k" "\<lambda>a. sparse_finished a \<and> is_iter a = k"
  "\<lambda>t Q. nearly_maximal k (al_inputs t) (al_outputs t) (asked Q) (inmatch t) (outmatch t)"
  for k
proof (unfold_locales, goal_cases)
  case (1 s)
  then show ?case using sparse_clear [of s]
    by (simp add: iSLIP_Sparse_def Sparse_Clear_def Allocator_Clear_def)
next
  case (2 s i j l p q)
  then have s: "sparse_ready s" by simp
  from sparse_add [OF s 2(2-5), of p q] obtain t where t: "Sparse_AddRequest i j l p q s = Some t"
    "sparse_ready t" "sparse_areqs t = (sparse_areqs s)((i, j) \<mapsto> (l, p, q))"
    "al_inputs t = al_inputs s" "al_outputs t = al_outputs s" "sparse_alloc.more t = sparse_alloc.more s"
    by blast
  have "is_iter t = is_iter s" using t(6) by (cases t; cases s) simp
  with t 2(1) show ?case by (simp add: iSLIP_Sparse_def)
next
  case (3 s)
  from 3 iSLIP_Allocate [of s] show ?case by (auto simp: iSLIP_Sparse_def islip_same_def)
qed

text \<open>C31: iSLIP converges. In a run of allocation rounds, whatever the pointers have become, no round
  fails, the grants are pairs that were requested with no input or output granted twice, and after
  \<open>k\<close> iterations the matching is maximal (no free input requests a free output) or has at least
  \<open>k\<close> grants; so it is maximal when there are as many iterations as inputs, or as outputs.\<close>

theorem islip_converges:
  assumes "\<forall>rs \<in> set rss. legal_areqs m n rs"
  shows "\<exists>ts. alloc_rounds iSLIP_Sparse rss (iSLIP_init m n k) = Some ts \<and>
    list_all2 (\<lambda>rs t. matching m n (asked (map_of rs)) (inmatch t) (outmatch t) \<and>
      (maximal m n (asked (map_of rs)) (inmatch t) (outmatch t) \<or>
       k < m \<and> k < n \<and> k \<le> card (granted (inmatch t)))) rss ts"
proof -
  have "sparse_finished (iSLIP_init m n k) = sparse_finished (Sparse_init m n)"
    by (rule sparse_finished_cong) (simp_all add: iSLIP_init_def sparse_alloc.defs alloc_base.defs)
  then have i: "sparse_finished (iSLIP_init m n k) \<and> is_iter (iSLIP_init m n k) = k"
    "al_inputs (iSLIP_init m n k) = m" "al_outputs (iSLIP_init m n k) = n"
    using Sparse_init [of m n] by (simp_all add: iSLIP_init_def sparse_alloc.defs)
  from islip.rounds [OF i(1), of rss] i(2,3) assms obtain ts
    where ts: "alloc_rounds iSLIP_Sparse rss (iSLIP_init m n k) = Some ts"
      "list_all2 (\<lambda>rs t. al_inputs t = m \<and> al_outputs t = n \<and>
        matching m n (asked (map_of rs)) (inmatch t) (outmatch t) \<and>
        nearly_maximal k (al_inputs t) (al_outputs t) (asked (map_of rs)) (inmatch t) (outmatch t)) rss ts"
    by auto
  from ts(2) have "list_all2 (\<lambda>rs t. matching m n (asked (map_of rs)) (inmatch t) (outmatch t) \<and>
      (maximal m n (asked (map_of rs)) (inmatch t) (outmatch t) \<or>
       k < m \<and> k < n \<and> k \<le> card (granted (inmatch t)))) rss ts"
    by (rule list_all2_mono) (use nearly_maximal_enough in \<open>force simp: nearly_maximal_def\<close>)
  with ts(1) show ?thesis by blast
qed

lemma islip_converges_witness:
  "\<exists>ts. alloc_rounds iSLIP_Sparse [[((0, 0), 1, 0, 0), ((0, 1), 1, 0, 0), ((1, 0), 1, 0, 0)], [((1, 0), 1, 0, 0)]]
      (iSLIP_init 2 2 1) = Some ts \<and>
    list_all2 (\<lambda>rs t. matching 2 2 (asked (map_of rs)) (inmatch t) (outmatch t) \<and>
      (maximal 2 2 (asked (map_of rs)) (inmatch t) (outmatch t) \<or>
       (1::nat) < 2 \<and> (1::nat) < 2 \<and> 1 \<le> card (granted (inmatch t))))
      [[((0, 0), 1, 0, 0), ((0, 1), 1, 0, 0), ((1, 0), 1, 0, 0)], [((1, 0), 1, 0, 0)]] ts"
  by (rule islip_converges) (simp_all add: legal_areqs_def)

subsection \<open>LOA\<close>

definition loa_same :: "loa \<Rightarrow> loa \<Rightarrow> bool" where
  "loa_same a t \<longleftrightarrow> al_inputs t = al_inputs a \<and> al_outputs t = al_outputs a \<and>
     al_dirty t = al_dirty a \<and> d_request t = d_request a"

lemma loa_lonely:
  assumes "i < al_inputs a"
  defines "x \<equiv> loa_lonely a (map (loa_count a) [0..<al_outputs a]) i" and "R \<equiv> asked (dense_areqs a)"
  shows "if \<exists>j<al_outputs a. R i j then \<exists>j<al_outputs a. x = int j \<and> R i j else x = -1"
proof -
  let ?n = "al_outputs a" and ?counts = "map (loa_count a) [0..<al_outputs a]"
  let ?o = "\<lambda>k. (k + loa_rptr a ! i) mod al_outputs a"
  let ?f = "\<lambda>k (lonely, lonely_cnt). let output = ?o k
       in if sr_label (d_request a ! i ! output) \<noteq> -1 \<and> ?counts ! output < lonely_cnt
          then (int output, ?counts ! output) else (lonely, lonely_cnt)"
  have R: "R i j \<longleftrightarrow> sr_label (d_request a ! i ! j) \<noteq> -1" if "j < ?n" for j
    using assms(1) that by (simp add: R_def asked_dense)
  have few: "?counts ! j < al_inputs a + 1" if "j < ?n" for j
    using that length_filter_le [of _ "[0..<al_inputs a]"] by (simp add: loa_count_def less_Suc_eq_le)
  have run: "(case fold ?f ks (-1, al_inputs a + 1) of (l, c) \<Rightarrow>
      if \<exists>k \<in> set ks. R i (?o k) then \<exists>j<?n. l = int j \<and> R i j else l = -1 \<and> c = al_inputs a + 1)"
    if "0 < ?n" for ks
  proof (induction ks rule: rev_induct)
    case (snoc k ks)
    obtain l c where lc: "fold ?f ks (-1, al_inputs a + 1) = (l, c)" by fastforce
    have ok: "?o k < ?n" using that by simp
    have step: "fold ?f (ks @ [k]) (-1, al_inputs a + 1) =
        (if R i (?o k) \<and> ?counts ! ?o k < c then (int (?o k), ?counts ! ?o k) else (l, c))"
      using lc R [OF ok] by (simp add: Let_def)
    show ?case
      using snoc.IH few [OF ok] ok unfolding step lc by (auto split: if_splits)
  qed simp
  show ?thesis
  proof (cases "?n = 0")
    case True
    then show ?thesis by (simp add: x_def loa_lonely_def)
  next
    case False
    have "(\<exists>k \<in> set [0..<?n]. R i (?o k)) \<longleftrightarrow> (\<exists>j \<in> set (map ?o [0..<?n]). R i j)" by simp
    also have "\<dots> \<longleftrightarrow> (\<exists>j<?n. R i j)" unfolding set_round_robin by auto
    finally have "(\<exists>k \<in> set [0..<?n]. R i (?o k)) \<longleftrightarrow> (\<exists>j<?n. R i j)" .
    moreover have "x = fst (fold ?f [0..<?n] (-1, al_inputs a + 1))"
      by (simp add: x_def loa_lonely_def)
    ultimately show ?thesis using run [of "[0..<?n]"] False by (auto split: prod.splits)
  qed
qed

lemma loa_grant:
  assumes "loa_same a t"
  shows "(loa_grant req j t = t \<and> (\<forall>i<al_inputs a. req ! i \<noteq> int j)) \<or>
    (\<exists>i<al_inputs a. req ! i = int j \<and> loa_same a (loa_grant req j t) \<and>
      inmatch (loa_grant req j t) = (inmatch t)[i := int j] \<and>
      outmatch (loa_grant req j t) = (outmatch t)[j := int i])"
proof -
  let ?xs = "map (\<lambda>i. (i + loa_gptr t ! j) mod al_inputs a) [0..<al_inputs a]"
  have xs: "set ?xs = {..<al_inputs a}" by (rule set_round_robin)
  have same: "al_inputs t = al_inputs a" using assms by (simp add: loa_same_def)
  show ?thesis
  proof (cases "List.find (\<lambda>i. req ! i = int j) ?xs")
    case None
    then have "\<forall>i \<in> set ?xs. req ! i \<noteq> int j" unfolding find_None_iff by blast
    then have "\<forall>i<al_inputs a. req ! i \<noteq> int j" unfolding xs Ball_def lessThan_iff .
    with None show ?thesis by (simp add: loa_grant_def same)
  next
    case (Some i)
    from find_SomeD [OF this] xs have i: "i < al_inputs a" "req ! i = int j" by auto
    with Some assms have "loa_same a (loa_grant req j t) \<and>
      inmatch (loa_grant req j t) = (inmatch t)[i := int j] \<and>
      outmatch (loa_grant req j t) = (outmatch t)[j := int i]"
      by (simp add: loa_grant_def loa_same_def grant_def)
    with i show ?thesis by blast
  qed
qed

lemma LOA_Allocate:
  assumes "dense_ready a"
  shows "\<exists>t. LOA_Allocate a = Some t \<and> dense_finished t \<and> al_inputs t = al_inputs a \<and>
    al_outputs t = al_outputs a \<and>
    matching (al_inputs a) (al_outputs a) (asked (dense_areqs a)) (inmatch t) (outmatch t) \<and>
    some_output_granted (al_inputs a) (al_outputs a) (asked (dense_areqs a)) (outmatch t)"
proof -
  let ?R = "asked (dense_areqs a)" and ?m = "al_inputs a" and ?n = "al_outputs a"
  define req where "req = map (loa_lonely a (map (loa_count a) [0..<?n])) [0..<?m]"
  have req: "if \<exists>j<?n. ?R i j then \<exists>j<?n. req ! i = int j \<and> ?R i j else req ! i = -1" if "i < ?m" for i
    using loa_lonely [OF that] that by (simp add: req_def)
  let ?t = "\<lambda>k. fold (loa_grant req) [0..<k] a"
  have run: "loa_same a (?t k) \<and> matching ?m ?n ?R (inmatch (?t k)) (outmatch (?t k)) \<and>
      (\<forall>i<?m. inmatch (?t k) ! i \<noteq> -1 \<longrightarrow> (\<exists>j<k. req ! i = int j)) \<and>
      (\<forall>j<?n. k \<le> j \<longrightarrow> outmatch (?t k) ! j = -1) \<and>
      (\<forall>j<k. (\<exists>i<?m. req ! i = int j) \<longrightarrow> outmatch (?t k) ! j \<noteq> -1)" if "k \<le> ?n" for k
    using that
  proof (induction k)
    case 0
    then show ?case using assms
      by (simp add: loa_same_def dense_ready_def base_clean_def matching_none)
  next
    case (Suc k)
    then have IH: "loa_same a (?t k)" "matching ?m ?n ?R (inmatch (?t k)) (outmatch (?t k))"
      "\<forall>i<?m. inmatch (?t k) ! i \<noteq> -1 \<longrightarrow> (\<exists>j<k. req ! i = int j)"
      "\<forall>j<?n. k \<le> j \<longrightarrow> outmatch (?t k) ! j = -1"
      "\<forall>j<k. (\<exists>i<?m. req ! i = int j) \<longrightarrow> outmatch (?t k) ! j \<noteq> -1" and k: "k < ?n" by auto
    have u: "?t (Suc k) = loa_grant req k (?t k)" by simp
    from loa_grant [OF IH(1), of req k] show ?case
    proof (elim disjE exE conjE, goal_cases)
      case 1
      with IH k show ?thesis unfolding u by (auto simp: less_Suc_eq)
    next
      case (2 i)
      have len: "length (inmatch (?t k)) = ?m" "length (outmatch (?t k)) = ?n"
        using matching_lengths [OF IH(2)] by auto
      have free: "inmatch (?t k) ! i = -1" "outmatch (?t k) ! k = -1"
        using IH(3,4) 2(1,2) k by auto
      have "?R i k" using req [OF 2(1)] 2(2) by (auto split: if_splits)
      from matching_grant [OF IH(2) 2(1) k free this] 2
      have "matching ?m ?n ?R (inmatch (?t (Suc k))) (outmatch (?t (Suc k)))" unfolding u by simp
      moreover have "\<forall>j<Suc k. (\<exists>i<?m. req ! i = int j) \<longrightarrow> outmatch (?t (Suc k)) ! j \<noteq> -1"
        unfolding u 2(5) using IH(5) len k by (auto simp: less_Suc_eq nth_list_update)
      moreover have "\<forall>x<?m. inmatch (?t (Suc k)) ! x \<noteq> -1 \<longrightarrow> (\<exists>j<Suc k. req ! x = int j)"
        unfolding u 2(4) using IH(3) len 2(1,2) by (auto simp: less_Suc_eq nth_list_update)
      ultimately show ?thesis using 2(3,5) IH(4) unfolding u by auto
    qed
  qed
  have "dense_finished (?t ?n)"
    by (rule dense_done [OF assms]) (use run [of ?n] in \<open>auto simp: loa_same_def\<close>)
  moreover have "some_output_granted ?m ?n ?R (outmatch (?t ?n))"
    unfolding some_output_granted_def
  proof (intro allI impI)
    fix i assume i: "i < ?m" "\<exists>j<?n. ?R i j"
    with req [OF i(1)] obtain j where "j < ?n" "req ! i = int j" "?R i j" by auto
    with run [of ?n] i(1) show "\<exists>j<?n. ?R i j \<and> outmatch (?t ?n) ! j \<noteq> -1" by blast
  qed
  moreover have "LOA_Allocate a = Some (?t ?n)" by (simp add: LOA_Allocate_def req_def Let_def)
  ultimately show ?thesis using run [of ?n] by (auto simp: loa_same_def)
qed

interpretation loa: allocator LOA al_inputs al_outputs inmatch outmatch dense_areqs
  dense_ready dense_finished "\<lambda>t Q. some_output_granted (al_inputs t) (al_outputs t) (asked Q) (outmatch t)"
proof (unfold_locales, goal_cases)
  case (1 s)
  then show ?case using dense_clear [of s] by (simp add: LOA_def)
next
  case (2 s i j l p q)
  then show ?case using dense_add [of s i j l p q] by (auto simp: LOA_def)
next
  case (3 s)
  then show ?case using LOA_Allocate [of s] by (auto simp: LOA_def)
qed

end
