(* ===== verification/Separable_Grants.thy ===== *)
theory Separable_Grants
  imports Sparse_Contract Round_Robin Matrix_Precedence
begin

text \<open>
  The separable allocators keep the contract of an allocator with any arbiters that keep the contract
  of an arbiter: every input picks one of its requests, and every output that is picked is granted to
  one of the inputs that picked it.  None of the assertions on the way fails.
\<close>

lemma arbs_Sparse_Clear:
  "input_arb (Sparse_Clear a) = input_arb a" "output_arb (Sparse_Clear a) = output_arb a"
  by (simp_all add: Sparse_Clear_def Allocator_Clear_def)

subsection \<open>The arbiters between rounds\<close>

text \<open>An arbiter that was asked to decide without requests is left as it was, so it need not be cleared.\<close>

locale idle_arbiter = arbiter C width reqs asking decided
  for C :: "'s arbiter_class" and width reqs asking decided +
  assumes idle: "asking s \<Longrightarrow> reqs s = Map.empty \<Longrightarrow> arb_Arbitrate C s = Some (t, w, r) \<Longrightarrow>
    asking t \<and> reqs t = Map.empty"
begin

definition fresh :: "nat \<Rightarrow> 's \<Rightarrow> bool" where
  "fresh n s \<longleftrightarrow> asking s \<and> width s = n \<and> reqs s = Map.empty"

definition used :: "nat \<Rightarrow> 's \<Rightarrow> bool" where
  "used n s \<longleftrightarrow> (asking s \<or> decided s) \<and> width s = n \<and> (reqs s = Map.empty \<longrightarrow> asking s)"

definition arbs_fresh :: "'s separable \<Rightarrow> bool" where
  "arbs_fresh a \<longleftrightarrow> length (input_arb a) = al_inputs a \<and> length (output_arb a) = al_outputs a \<and>
     (\<forall>i<al_inputs a. fresh (al_outputs a) (input_arb a ! i)) \<and>
     (\<forall>j<al_outputs a. fresh (al_inputs a) (output_arb a ! j))"

definition arbs_used :: "'s separable \<Rightarrow> bool" where
  "arbs_used a \<longleftrightarrow> length (input_arb a) = al_inputs a \<and> length (output_arb a) = al_outputs a \<and>
     (\<forall>i<al_inputs a. used (al_outputs a) (input_arb a ! i)) \<and>
     (\<forall>j<al_outputs a. used (al_inputs a) (output_arb a ! j))"

lemma cleared: "used n s \<Longrightarrow> fresh n (if arb_num_reqs C s \<noteq> 0 then arb_Clear C s else s)"
  using clear [of s] num_reqs [of s] by (auto simp: used_def fresh_def)

lemma separable_clear:
  assumes "sparse_finished a" and "arbs_used a"
  shows "sparse_ready (Separable_Clear C a) \<and> sparse_areqs (Separable_Clear C a) = Map.empty \<and>
    arbs_fresh (Separable_Clear C a) \<and> al_inputs (Separable_Clear C a) = al_inputs a \<and>
    al_outputs (Separable_Clear C a) = al_outputs a"
proof -
  let ?c = "\<lambda>s. if arb_num_reqs C s \<noteq> 0 then arb_Clear C s else s"
  let ?a = "a\<lparr>input_arb := map ?c (input_arb a), output_arb := map ?c (output_arb a)\<rparr>"
  have c: "Separable_Clear C a = Sparse_Clear ?a" by (simp add: Separable_Clear_def Let_def)
  have "sparse_finished ?a" using assms(1) by (simp add: sparse_finished_def base_shape_def)
  moreover have "arbs_fresh ?a"
    using assms(2) cleared unfolding arbs_used_def arbs_fresh_def by simp
  then have "arbs_fresh (Sparse_Clear ?a)"
    unfolding arbs_fresh_def Sparse_Clear_simps arbs_Sparse_Clear .
  ultimately show ?thesis using sparse_clear [of ?a] unfolding c by simp
qed

subsection \<open>Input first: the picks\<close>

text \<open>The request of an input as its arbiter gets them.\<close>

abbreviation entries :: "alloc_request omap \<Rightarrow> (nat \<times> int \<times> int) list" where
  "entries m \<equiv> map (\<lambda>e. (sr_port (snd e), sr_label (snd e), sr_in_pri (snd e))) m"

lemma map_of_entries:
  assumes "\<forall>(j, r) \<in> set m. sr_port r = j"
  shows "map_of (entries m) = (\<lambda>j. map_option (\<lambda>r. (sr_label r, sr_in_pri r)) (map_of m j))"
  using assms by (induction m) (auto simp: fun_eq_iff)

text \<open>\<open>picked a0 P ia oa\<close>: the inputs in \<open>P\<close> have picked an output, and ask it for a grant.\<close>

definition picked :: "'s separable \<Rightarrow> nat set \<Rightarrow> 's list \<Rightarrow> 's list \<Rightarrow> bool" where
  "picked a0 P ia oa \<longleftrightarrow> length ia = al_inputs a0 \<and> length oa = al_outputs a0 \<and>
     (\<forall>i<al_inputs a0. if i \<in> P
       then decided (ia ! i) \<and> width (ia ! i) = al_outputs a0 \<and> reqs (ia ! i) \<noteq> Map.empty \<and>
         (\<exists>j<al_outputs a0. arb_LastWinner C (ia ! i) = int j \<and> asked (sparse_areqs a0) i j)
       else fresh (al_outputs a0) (ia ! i)) \<and>
     (\<forall>j<al_outputs a0. asking (oa ! j) \<and> width (oa ! j) = al_inputs a0 \<and>
       dom (reqs (oa ! j)) = {i \<in> P. arb_LastWinner C (ia ! i) = int j})"

lemma input_first_request:
  assumes "sparse_shape a0" and "picked a0 P ia oa" and "i \<in> set (in_occ a0)" and "i \<notin> P"
  shows "\<exists>ia' oa'. input_first_request C i (a0\<lparr>input_arb := ia, output_arb := oa\<rparr>) =
      Some (a0\<lparr>input_arb := ia', output_arb := oa'\<rparr>) \<and> picked a0 (insert i P) ia' oa'"
proof -
  from assms(2) have len: "length ia = al_inputs a0" "length oa = al_outputs a0"
    and ins: "\<forall>i<al_inputs a0. if i \<in> P
          then decided (ia ! i) \<and> width (ia ! i) = al_outputs a0 \<and> reqs (ia ! i) \<noteq> Map.empty \<and>
            (\<exists>j<al_outputs a0. arb_LastWinner C (ia ! i) = int j \<and> asked (sparse_areqs a0) i j)
          else fresh (al_outputs a0) (ia ! i)"
    and outs: "\<forall>j<al_outputs a0. asking (oa ! j) \<and> width (oa ! j) = al_inputs a0 \<and>
          dom (reqs (oa ! j)) = {i \<in> P. arb_LastWinner C (ia ! i) = int j}"
    unfolding picked_def by blast+
  let ?m = "in_req a0 ! i"
  have i: "i < al_inputs a0" "?m \<noteq> []"
    using assms(1,3) by (auto simp: sparse_shape_def side_ok_def)
  have m: "om_sorted ?m" "\<forall>(j, r) \<in> set ?m. j < al_outputs a0 \<and> sr_port r = j"
    using assms(1) i(1) by (auto simp: sparse_shape_def side_ok_def)
  have fresh: "asking (ia ! i)" "width (ia ! i) = al_outputs a0" "reqs (ia ! i) = Map.empty"
    using ins i(1) assms(4) by (auto simp: fresh_def)
  have keys: "map fst (entries ?m) = map fst ?m" using m(2) by (auto simp: comp_def)
  have "legal_requests (al_outputs a0) (entries ?m)"
    unfolding legal_requests_def keys using m strict_sorted_iff [of "map fst ?m"] by auto
  with ask [OF fresh(1), of "entries ?m"] fresh obtain b
    where b: "arb_ask C (entries ?m) (ia ! i) = Some b" "asking b" "width b = al_outputs a0"
      "reqs b = map_of (entries ?m)" by auto
  have ask_b: "foldM (\<lambda>e. arb_AddRequest C (sr_port (snd e)) (sr_label (snd e)) (sr_in_pri (snd e)))
       ?m (ia ! i) = Some b"
    using b(1) unfolding arb_ask_def by (simp add: foldM_map)
  have rb: "reqs b = (\<lambda>j. map_option (\<lambda>r. (sr_label r, sr_in_pri r)) (map_of ?m j))"
    unfolding b(4) by (rule map_of_entries) (use m(2) in auto)
  have "reqs b \<noteq> Map.empty" unfolding b(4) using i(2) by simp
  with arbitrate [OF b(2)] obtain c w r
    where c: "arb_Arbitrate C b = Some (c, w, r)" "decided c" "width c = al_outputs a0"
      "reqs c = reqs b" "arb_LastWinner C c = w" "0 \<le> w" "reqs b (nat w) = r" "r \<noteq> None"
    using b(3) by (auto simp: picks_def)
  from c(7,8) rb obtain q where q: "map_of ?m (nat w) = Some q" "r = Some (sr_label q, sr_in_pri q)"
    by (auto simp: option.map_comp)
  define j where "j = nat w"
  have wj: "w = int j" using c(6) by (simp add: j_def)
  have "(j, q) \<in> set ?m" using q(1) by (simp add: j_def map_of_SomeD)
  with m(2) have j: "j < al_outputs a0" by auto
  have out: "map_of (out_req a0 ! j) i = Some (q\<lparr>sr_port := i\<rparr>)"
    using assms(1) i(1) j q(1) by (simp add: sparse_shape_def j_def)
  have askd: "asked (sparse_areqs a0) i j"
    using q(1) i(1) by (simp add: asked_def sparse_areqs_def j_def)
  have "reqs (oa ! j) i = None" using outs j assms(4) by (auto simp: domIff [symmetric])
  from add [OF _ _ this, of "sr_label q" "sr_out_pri q"] outs j i(1) obtain d
    where d: "arb_AddRequest C i (sr_label q) (sr_out_pri q) (oa ! j) = Some d" "asking d"
      "width d = al_inputs a0" "reqs d = (reqs (oa ! j))(i \<mapsto> (sr_label q, sr_out_pri q))" by auto
  have "input_first_request C i (a0\<lparr>input_arb := ia, output_arb := oa\<rparr>) =
      Some (a0\<lparr>input_arb := ia[i := c], output_arb := oa[j := d]\<rparr>)"
    unfolding input_first_request_def using ask_b c(1) wj out d(1) q(2) i(1) j
    by (simp add: req_at_def)
  moreover have "picked a0 (insert i P) (ia[i := c]) (oa[j := d])"
    unfolding picked_def
  proof (intro conjI)
    show "\<forall>k<al_inputs a0. if k \<in> insert i P
        then decided (ia[i := c] ! k) \<and> width (ia[i := c] ! k) = al_outputs a0 \<and>
          reqs (ia[i := c] ! k) \<noteq> Map.empty \<and>
          (\<exists>j<al_outputs a0. arb_LastWinner C (ia[i := c] ! k) = int j \<and> asked (sparse_areqs a0) k j)
        else fresh (al_outputs a0) (ia[i := c] ! k)"
    proof (intro allI impI)
      fix k assume "k < al_inputs a0"
      with ins c(2-5) wj j askd \<open>reqs b \<noteq> Map.empty\<close> len
      show "if k \<in> insert i P
        then decided (ia[i := c] ! k) \<and> width (ia[i := c] ! k) = al_outputs a0 \<and>
          reqs (ia[i := c] ! k) \<noteq> Map.empty \<and>
          (\<exists>j<al_outputs a0. arb_LastWinner C (ia[i := c] ! k) = int j \<and> asked (sparse_areqs a0) k j)
        else fresh (al_outputs a0) (ia[i := c] ! k)" by (cases "k = i") auto
    qed
    show "\<forall>l<al_outputs a0. asking (oa[j := d] ! l) \<and> width (oa[j := d] ! l) = al_inputs a0 \<and>
        dom (reqs (oa[j := d] ! l)) = {k \<in> insert i P. arb_LastWinner C (ia[i := c] ! k) = int l}"
    proof (intro allI impI)
      fix l assume l: "l < al_outputs a0"
      have "{k \<in> insert i P. arb_LastWinner C (ia[i := c] ! k) = int l} =
          (if l = j then {i} else {}) \<union> {k \<in> P. arb_LastWinner C (ia ! k) = int l}"
        using assms(4) c(5) wj i(1) len by (auto simp: nth_list_update)
      then show "asking (oa[j := d] ! l) \<and> width (oa[j := d] ! l) = al_inputs a0 \<and>
        dom (reqs (oa[j := d] ! l)) = {k \<in> insert i P. arb_LastWinner C (ia[i := c] ! k) = int l}"
        using outs l d(2-4) len by (cases "l = j") auto
    qed
  qed (simp_all add: len)
  ultimately show ?thesis by blast
qed

lemma input_first_requests:
  assumes "sparse_shape a0" and "picked a0 P ia oa" and "distinct xs" and "set xs \<subseteq> set (in_occ a0)"
    and "set xs \<inter> P = {}"
  shows "\<exists>ia' oa'. foldM (input_first_request C) xs (a0\<lparr>input_arb := ia, output_arb := oa\<rparr>) =
      Some (a0\<lparr>input_arb := ia', output_arb := oa'\<rparr>) \<and> picked a0 (P \<union> set xs) ia' oa'"
  using assms(2-5)
proof (induction xs arbitrary: P ia oa)
  case Nil
  then have "foldM (input_first_request C) [] (a0\<lparr>input_arb := ia, output_arb := oa\<rparr>) =
      Some (a0\<lparr>input_arb := ia, output_arb := oa\<rparr>) \<and> picked a0 (P \<union> set []) ia oa" by simp
  then show ?case by blast
next
  case (Cons i xs)
  from input_first_request [OF assms(1) Cons.prems(1), of i] Cons.prems obtain ia1 oa1
    where 1: "input_first_request C i (a0\<lparr>input_arb := ia, output_arb := oa\<rparr>) =
      Some (a0\<lparr>input_arb := ia1, output_arb := oa1\<rparr>)" "picked a0 (insert i P) ia1 oa1" by auto
  from Cons.IH [OF 1(2)] Cons.prems obtain ia' oa'
    where "foldM (input_first_request C) xs (a0\<lparr>input_arb := ia1, output_arb := oa1\<rparr>) =
      Some (a0\<lparr>input_arb := ia', output_arb := oa'\<rparr>)" "picked a0 (insert i P \<union> set xs) ia' oa'" by auto
  with 1(1) have "foldM (input_first_request C) (i # xs) (a0\<lparr>input_arb := ia, output_arb := oa\<rparr>) =
      Some (a0\<lparr>input_arb := ia', output_arb := oa'\<rparr>) \<and> picked a0 (P \<union> set (i # xs)) ia' oa'" by simp
  then show ?case by blast
qed

subsection \<open>Input first: the grants\<close>

text \<open>\<open>granting a0 D pick a\<close>: the outputs in \<open>D\<close> have granted one of the inputs that picked them.\<close>

definition granting :: "'s separable \<Rightarrow> nat set \<Rightarrow> (nat \<Rightarrow> int) \<Rightarrow> 's separable \<Rightarrow> bool" where
  "granting a0 D pick a \<longleftrightarrow>
     al_inputs a = al_inputs a0 \<and> al_outputs a = al_outputs a0 \<and> al_dirty a = al_dirty a0 \<and>
     in_req a = in_req a0 \<and> out_req a = out_req a0 \<and> in_occ a = in_occ a0 \<and> out_occ a = out_occ a0 \<and>
     length (input_arb a) = al_inputs a0 \<and> length (output_arb a) = al_outputs a0 \<and>
     (\<forall>i<al_inputs a0. if i \<in> set (in_occ a0)
       then decided (input_arb a ! i) \<and> width (input_arb a ! i) = al_outputs a0 \<and>
         reqs (input_arb a ! i) \<noteq> Map.empty \<and>
         (\<exists>j<al_outputs a0. pick i = int j \<and> asked (sparse_areqs a0) i j)
       else fresh (al_outputs a0) (input_arb a ! i)) \<and>
     (\<forall>j<al_outputs a0. if j \<in> D then used (al_inputs a0) (output_arb a ! j)
       else asking (output_arb a ! j) \<and> width (output_arb a ! j) = al_inputs a0 \<and>
         dom (reqs (output_arb a ! j)) = {i \<in> set (in_occ a0). pick i = int j}) \<and>
     matching (al_inputs a0) (al_outputs a0) (asked (sparse_areqs a0)) (inmatch a) (outmatch a) \<and>
     (\<forall>i<al_inputs a0. inmatch a ! i \<noteq> -1 \<longrightarrow> (\<exists>j \<in> D. pick i = int j)) \<and>
     (\<forall>j<al_outputs a0. j \<notin> D \<longrightarrow> outmatch a ! j = -1) \<and>
     (\<forall>j \<in> D. (\<exists>i \<in> set (in_occ a0). pick i = int j) \<longrightarrow> outmatch a ! j \<noteq> -1)"

lemma granting_start:
  assumes "sparse_ready a0" and "picked a0 (set (in_occ a0)) ia oa"
  shows "granting a0 {} (\<lambda>i. arb_LastWinner C (ia ! i)) (a0\<lparr>input_arb := ia, output_arb := oa\<rparr>)"
  using assms(2) assms(1) base_clean_matching [of a0]
  unfolding granting_def picked_def sparse_ready_def base_clean_def by simp

lemma granting_idle:
  assumes "granting a0 D pick a" and "j < al_outputs a0" and "j \<notin> D"
    and "{i \<in> set (in_occ a0). pick i = int j} = {}"
  shows "\<exists>oa. input_first_grant C j a = Some (a\<lparr>output_arb := (output_arb a)[j := oa]\<rparr>) \<and>
    granting a0 (insert j D) pick (a\<lparr>output_arb := (output_arb a)[j := oa]\<rparr>)"
proof -
  from assms(1) have "\<forall>j<al_outputs a0. if j \<in> D then used (al_inputs a0) (output_arb a ! j)
       else asking (output_arb a ! j) \<and> width (output_arb a ! j) = al_inputs a0 \<and>
         dom (reqs (output_arb a ! j)) = {i \<in> set (in_occ a0). pick i = int j}"
    and len: "length (output_arb a) = al_outputs a0" unfolding granting_def by blast+
  with assms(2,3) have "asking (output_arb a ! j)" "width (output_arb a ! j) = al_inputs a0"
    "dom (reqs (output_arb a ! j)) = {i \<in> set (in_occ a0). pick i = int j}" by auto
  moreover from this(3) assms(4) have "reqs (output_arb a ! j) = Map.empty"
    by (simp only: dom_eq_empty_conv)
  ultimately have o: "asking (output_arb a ! j)" "width (output_arb a ! j) = al_inputs a0"
    "reqs (output_arb a ! j) = Map.empty" "length (output_arb a) = al_outputs a0" using len by auto
  from arbitrate [OF o(1)] o(2,3) obtain oa w r where oa: "arb_Arbitrate C (output_arb a ! j) = Some (oa, w, r)"
    "width oa = al_inputs a0" "picks (reqs (output_arb a ! j)) w r" by auto
  then have w: "w = -1" using o(3) by (simp add: picks_def)
  from idle [OF o(1,3) oa(1)] oa(2) have u: "used (al_inputs a0) oa" by (simp add: used_def)
  have "input_first_grant C j a = Some (a\<lparr>output_arb := (output_arb a)[j := oa]\<rparr>)"
    using oa(1) w by (simp add: input_first_grant_def)
  moreover have "granting a0 (insert j D) pick (a\<lparr>output_arb := (output_arb a)[j := oa]\<rparr>)"
  proof -
    have "if l \<in> insert j D then used (al_inputs a0) ((output_arb a)[j := oa] ! l)
       else asking ((output_arb a)[j := oa] ! l) \<and> width ((output_arb a)[j := oa] ! l) = al_inputs a0 \<and>
         dom (reqs ((output_arb a)[j := oa] ! l)) = {i \<in> set (in_occ a0). pick i = int l}"
      if "l < al_outputs a0" for l
      using assms(1) that u o(4) by (cases "l = j") (auto simp: granting_def)
    moreover have "\<forall>l \<in> insert j D. (\<exists>i \<in> set (in_occ a0). pick i = int l) \<longrightarrow> outmatch a ! l \<noteq> -1"
      using assms(1,4) unfolding granting_def by blast
    ultimately show ?thesis using assms(1) unfolding granting_def by simp
  qed
  ultimately show ?thesis by blast
qed

lemma granting_grant:
  assumes "granting a0 D pick a" and "j < al_outputs a0" and "j \<notin> D"
    and "{i \<in> set (in_occ a0). pick i = int j} \<noteq> {}" and "set (in_occ a0) \<subseteq> {..<al_inputs a0}"
  shows "\<exists>t. input_first_grant C j a = Some t \<and> granting a0 (insert j D) pick t"
proof -
  let ?R = "asked (sparse_areqs a0)"
  from assms(1) have dims: "al_inputs a = al_inputs a0" "al_outputs a = al_outputs a0"
    and len: "length (input_arb a) = al_inputs a0" "length (output_arb a) = al_outputs a0"
    and m: "matching (al_inputs a0) (al_outputs a0) ?R (inmatch a) (outmatch a)"
    and im: "\<forall>i<al_inputs a0. inmatch a ! i \<noteq> -1 \<longrightarrow> (\<exists>j \<in> D. pick i = int j)"
    and om: "\<forall>j<al_outputs a0. j \<notin> D \<longrightarrow> outmatch a ! j = -1"
    and ia: "\<forall>i<al_inputs a0. if i \<in> set (in_occ a0)
       then decided (input_arb a ! i) \<and> width (input_arb a ! i) = al_outputs a0 \<and>
         reqs (input_arb a ! i) \<noteq> Map.empty \<and> (\<exists>j<al_outputs a0. pick i = int j \<and> ?R i j)
       else fresh (al_outputs a0) (input_arb a ! i)"
    and oas: "\<forall>j<al_outputs a0. if j \<in> D then used (al_inputs a0) (output_arb a ! j)
       else asking (output_arb a ! j) \<and> width (output_arb a ! j) = al_inputs a0 \<and>
         dom (reqs (output_arb a ! j)) = {i \<in> set (in_occ a0). pick i = int j}"
    unfolding granting_def by blast+
  have o: "asking (output_arb a ! j)" "width (output_arb a ! j) = al_inputs a0"
    "dom (reqs (output_arb a ! j)) = {i \<in> set (in_occ a0). pick i = int j}"
    using oas assms(2,3) by auto
  then have ne: "reqs (output_arb a ! j) \<noteq> Map.empty" using assms(4) by auto
  from arbitrate [OF o(1)] o(2) ne obtain oa w r where oa: "arb_Arbitrate C (output_arb a ! j) = Some (oa, w, r)"
    "decided oa" "width oa = al_inputs a0" "reqs oa = reqs (output_arb a ! j)" "0 \<le> w"
    "reqs (output_arb a ! j) (nat w) \<noteq> None" by (auto simp: picks_def)
  define i where "i = nat w"
  have wi: "w = int i" using oa(5) by (simp add: i_def)
  have i: "i \<in> set (in_occ a0)" "pick i = int j" using oa(6) o(3) unfolding i_def by blast+
  then have im_i: "i < al_inputs a0" using assms(5) by auto
  have free: "inmatch a ! i = -1" "outmatch a ! j = -1"
    using im om im_i i(2) assms(2,3) by auto
  from ia im_i i have di: "decided (input_arb a ! i)" "width (input_arb a ! i) = al_outputs a0"
    "reqs (input_arb a ! i) \<noteq> Map.empty" "?R i j" by auto
  from update [OF di(1)] di(2) obtain ib where ib: "arb_UpdateState C (input_arb a ! i) = Some ib"
    "decided ib" "width ib = al_outputs a0" "reqs ib = reqs (input_arb a ! i)" by auto
  from update [OF oa(2)] oa(3,4) obtain ob where ob: "arb_UpdateState C oa = Some ob" "decided ob"
    "width ob = al_inputs a0" "reqs ob = reqs (output_arb a ! j)" by auto
  let ?t = "grant i j (a\<lparr>input_arb := (input_arb a)[i := ib], output_arb := (output_arb a)[j := ob]\<rparr>)"
  have t: "input_first_grant C j a = Some ?t"
    using oa(1) wi free ib(1) ob(1) im_i dims by (simp add: input_first_grant_def)
  have lm: "length (inmatch a) = al_inputs a0" "length (outmatch a) = al_outputs a0"
    using matching_lengths [OF m] by auto
  have "if k \<in> set (in_occ a0)
       then decided ((input_arb a)[i := ib] ! k) \<and> width ((input_arb a)[i := ib] ! k) = al_outputs a0 \<and>
         reqs ((input_arb a)[i := ib] ! k) \<noteq> Map.empty \<and> (\<exists>j<al_outputs a0. pick k = int j \<and> ?R k j)
       else fresh (al_outputs a0) ((input_arb a)[i := ib] ! k)" if "k < al_inputs a0" for k
    using ia that i(1) ib(2-4) di(3) len by (cases "k = i") auto
  moreover have "if l \<in> insert j D then used (al_inputs a0) ((output_arb a)[j := ob] ! l)
       else asking ((output_arb a)[j := ob] ! l) \<and> width ((output_arb a)[j := ob] ! l) = al_inputs a0 \<and>
         dom (reqs ((output_arb a)[j := ob] ! l)) = {i \<in> set (in_occ a0). pick i = int l}"
    if "l < al_outputs a0" for l
    using oas that ob(2-4) ne len by (cases "l = j") (auto simp: used_def)
  moreover have "matching (al_inputs a0) (al_outputs a0) ?R ((inmatch a)[i := int j]) ((outmatch a)[j := int i])"
    by (rule matching_grant [OF m im_i assms(2) free di(4)])
  moreover have "\<forall>k<al_inputs a0. (inmatch a)[i := int j] ! k \<noteq> -1 \<longrightarrow> (\<exists>l \<in> insert j D. pick k = int l)"
    using im i(2) lm im_i by (auto simp: nth_list_update)
  moreover have "\<forall>l<al_outputs a0. l \<notin> insert j D \<longrightarrow> (outmatch a)[j := int i] ! l = -1"
    using om by auto
  moreover have "\<forall>l \<in> insert j D. (\<exists>i \<in> set (in_occ a0). pick i = int l) \<longrightarrow> (outmatch a)[j := int i] ! l \<noteq> -1"
  proof -
    have "\<forall>l \<in> D. (\<exists>i \<in> set (in_occ a0). pick i = int l) \<longrightarrow> outmatch a ! l \<noteq> -1"
      using assms(1) unfolding granting_def by blast
    then show ?thesis using lm assms(2) by (auto simp: nth_list_update)
  qed
  ultimately have "granting a0 (insert j D) pick ?t"
    using assms(1) len unfolding granting_def by (simp add: grant_def)
  with t show ?thesis by blast
qed

lemma input_first_grants:
  assumes "granting a0 D pick a" and "distinct xs" and "set xs \<subseteq> {..<al_outputs a0}"
    and "set xs \<inter> D = {}" and "set (in_occ a0) \<subseteq> {..<al_inputs a0}"
  shows "\<exists>t. foldM (input_first_grant C) xs a = Some t \<and> granting a0 (D \<union> set xs) pick t"
  using assms(1-4)
proof (induction xs arbitrary: D a)
  case (Cons j xs)
  have "\<exists>t. input_first_grant C j a = Some t \<and> granting a0 (insert j D) pick t"
  proof (cases "{i \<in> set (in_occ a0). pick i = int j} = {}")
    case True
    with granting_idle [OF Cons.prems(1), of j] Cons.prems(3,4) show ?thesis by auto
  next
    case False
    with granting_grant [OF Cons.prems(1), of j] Cons.prems(3,4) assms(5) show ?thesis by auto
  qed
  then obtain t where t: "input_first_grant C j a = Some t" "granting a0 (insert j D) pick t" by auto
  from Cons.IH [OF t(2)] Cons.prems(2-4) t(1) show ?case by auto
qed simp

lemma InputFirst_Allocate:
  assumes "sparse_ready a" and "arbs_fresh a"
  shows "\<exists>t. InputFirst_Allocate C a = Some t \<and> sparse_finished t \<and> arbs_used t \<and>
    al_inputs t = al_inputs a \<and> al_outputs t = al_outputs a \<and>
    matching (al_inputs a) (al_outputs a) (asked (sparse_areqs a)) (inmatch t) (outmatch t) \<and>
    some_output_granted (al_inputs a) (al_outputs a) (asked (sparse_areqs a)) (outmatch t)"
proof -
  have shape: "sparse_shape a" using assms(1) by (simp add: sparse_ready_def)
  then have occ: "distinct (in_occ a)" "set (in_occ a) = {i. i < al_inputs a \<and> in_req a ! i \<noteq> []}"
    "distinct (out_occ a)" "set (out_occ a) = {j. j < al_outputs a \<and> out_req a ! j \<noteq> []}"
    "length (in_req a) = al_inputs a" "length (out_req a) = al_outputs a"
    using strict_sorted_iff [of "in_occ a"] strict_sorted_iff [of "out_occ a"]
    by (auto simp: sparse_shape_def side_ok_def)
  have "picked a {} (input_arb a) (output_arb a)"
    using assms(2) by (simp add: picked_def arbs_fresh_def fresh_def)
  from input_first_requests [OF shape this occ(1)] obtain ia oa
    where 1: "foldM (input_first_request C) (in_occ a) a = Some (a\<lparr>input_arb := ia, output_arb := oa\<rparr>)"
      "picked a (set (in_occ a)) ia oa" by auto
  let ?b = "a\<lparr>input_arb := ia, output_arb := oa\<rparr>" and ?pick = "\<lambda>i. arb_LastWinner C (ia ! i)"
  from input_first_grants [OF granting_start [OF assms(1) 1(2)] occ(3)] occ(2,4) obtain t
    where t: "foldM (input_first_grant C) (out_occ a) ?b = Some t" "granting a (set (out_occ a)) ?pick t"
    by auto
  have "InputFirst_Allocate C a = Some t" using 1(1) t(1) by (simp add: InputFirst_Allocate_def)
  moreover have m: "matching (al_inputs a) (al_outputs a) (asked (sparse_areqs a)) (inmatch t) (outmatch t)"
    and same: "al_inputs t = al_inputs a" "al_outputs t = al_outputs a" "al_dirty t = al_dirty a"
      "in_req t = in_req a" "out_req t = out_req a"
    and arbs: "length (input_arb t) = al_inputs a" "length (output_arb t) = al_outputs a"
      "\<forall>i<al_inputs a. if i \<in> set (in_occ a)
       then decided (input_arb t ! i) \<and> width (input_arb t ! i) = al_outputs a \<and>
         reqs (input_arb t ! i) \<noteq> Map.empty \<and>
         (\<exists>j<al_outputs a. ?pick i = int j \<and> asked (sparse_areqs a) i j)
       else fresh (al_outputs a) (input_arb t ! i)"
      "\<forall>j<al_outputs a. if j \<in> set (out_occ a) then used (al_inputs a) (output_arb t ! j)
       else asking (output_arb t ! j) \<and> width (output_arb t ! j) = al_inputs a \<and>
         dom (reqs (output_arb t ! j)) = {i \<in> set (in_occ a). ?pick i = int j}"
    and won: "\<forall>j \<in> set (out_occ a). (\<exists>i \<in> set (in_occ a). ?pick i = int j) \<longrightarrow> outmatch t ! j \<noteq> -1"
    using t(2) unfolding granting_def by blast+
  moreover have "sparse_finished t" by (rule sparse_done [OF assms(1) _ _ same(1-3) m]) (simp_all add: same occ)
  moreover have "arbs_used t"
    unfolding arbs_used_def same
  proof (intro conjI allI impI)
    fix i assume "i < al_inputs a"
    with arbs(3) show "used (al_outputs a) (input_arb t ! i)"
      by (cases "i \<in> set (in_occ a)") (auto simp: used_def fresh_def)
  next
    fix j assume "j < al_outputs a"
    with arbs(4) show "used (al_inputs a) (output_arb t ! j)"
      by (cases "j \<in> set (out_occ a)") (auto simp: used_def)
  qed (fact arbs(1,2))+
  moreover have "some_output_granted (al_inputs a) (al_outputs a) (asked (sparse_areqs a)) (outmatch t)"
    unfolding some_output_granted_def
  proof (intro allI impI)
    fix i assume i: "i < al_inputs a" "\<exists>j<al_outputs a. asked (sparse_areqs a) i j"
    then have occ_i: "i \<in> set (in_occ a)"
      using occ(2) asked_in(1) [OF shape i(1)] by auto
    from arbs(3) [THEN spec, THEN mp, OF i(1), unfolded if_P [OF occ_i]] obtain j
      where j: "j < al_outputs a" "?pick i = int j" "asked (sparse_areqs a) i j" by blast
    have "out_req a ! j \<noteq> []" using asked_out(1) [OF shape i(1) j(1)] j(3) by force
    then have "j \<in> set (out_occ a)" using occ(4) j(1) by simp
    with won occ_i j show "\<exists>j<al_outputs a. asked (sparse_areqs a) i j \<and> outmatch t ! j \<noteq> -1" by blast
  qed
  ultimately show ?thesis by blast
qed

end

sublocale idle_arbiter < input_first: allocator "SeparableInputFirst C" al_inputs al_outputs inmatch outmatch
  sparse_areqs "\<lambda>a. sparse_ready a \<and> arbs_fresh a" "\<lambda>a. sparse_finished a \<and> arbs_used a"
  "\<lambda>t Q. some_output_granted (al_inputs t) (al_outputs t) (asked Q) (outmatch t)"
proof (unfold_locales, goal_cases)
  case (1 s)
  then show ?case using separable_clear [of s] by (simp add: SeparableInputFirst_def)
next
  case (2 s i j l p q)
  then have s: "sparse_ready s" "arbs_fresh s" by auto
  from sparse_add [OF s(1) 2(2-5), of p q] obtain t where t: "Sparse_AddRequest i j l p q s = Some t"
    "sparse_ready t" "sparse_areqs t = (sparse_areqs s)((i, j) \<mapsto> (l, p, q))"
    "al_inputs t = al_inputs s" "al_outputs t = al_outputs s" "sparse_alloc.more t = sparse_alloc.more s"
    by blast
  have "input_arb t = input_arb s" "output_arb t = output_arb s" using t(6) by (cases t; cases s; simp)+
  with t s(2) show ?case by (simp add: SeparableInputFirst_def arbs_fresh_def)
next
  case (3 s)
  then show ?case using InputFirst_Allocate [of s] by (auto simp: SeparableInputFirst_def)
qed

subsection \<open>Output first\<close>

text \<open>Output first is input first seen from the other side.  \<open>swap\<close> exchanges the sides of the state.\<close>

definition swap_req :: "alloc_request \<Rightarrow> alloc_request" where
  "swap_req r = r\<lparr>sr_in_pri := sr_out_pri r, sr_out_pri := sr_in_pri r\<rparr>"

abbreviation swap_map :: "alloc_request omap \<Rightarrow> alloc_request omap" where
  "swap_map \<equiv> map (map_prod id swap_req)"

definition swap_sides :: "'s separable \<Rightarrow> 's separable" where
  "swap_sides a = a\<lparr>al_inputs := al_outputs a, al_outputs := al_inputs a,
     inmatch := outmatch a, outmatch := inmatch a, in_occ := out_occ a, out_occ := in_occ a,
     in_req := map swap_map (out_req a), out_req := map swap_map (in_req a),
     input_arb := output_arb a, output_arb := input_arb a\<rparr>"

lemma swap_req_swap_req [simp]: "swap_req (swap_req r) = r"
  by (simp add: swap_req_def)

lemma swap_entry [simp]: "map_prod id swap_req (map_prod id swap_req e) = e"
  by (cases e) simp

lemma swap_map_swap_map [simp]: "swap_map (swap_map m) = m"
  by (induction m) auto

lemma swap_sides_swap_sides [simp]: "swap_sides (swap_sides a) = a"
  by (simp add: swap_sides_def comp_def)

lemma om_put_swap: "om_put k (swap_req r) (swap_map m) = swap_map (om_put k r m)"
  by (induction k r m rule: om_put.induct) auto

lemma map_of_swap: "map_of (swap_map m) k = map_option swap_req (map_of m k)"
  by (induction m) auto

lemma req_at_swap:
  "req_at k (swap_map m) = (case req_at k m of (m', r) \<Rightarrow> (swap_map m', swap_req r))"
proof -
  let ?z = "\<lparr>sr_port = 0, sr_label = 0, sr_in_pri = 0, sr_out_pri = 0\<rparr>"
  have zero: "swap_req ?z = ?z" by (simp add: swap_req_def)
  have "om_put k ?z (swap_map m) = swap_map (om_put k ?z m)"
    using om_put_swap [of k ?z m] unfolding zero .
  then show ?thesis
    by (cases "map_of m k") (simp_all add: req_at_def map_of_swap zero Let_def)
qed

lemma map_option_bind: "map_option f (x \<bind> g) = x \<bind> (\<lambda>y. map_option f (g y))"
  by (cases x) simp_all

text \<open>One step of either phase.\<close>

definition sides_sized :: "'s separable \<Rightarrow> bool" where
  "sides_sized a \<longleftrightarrow> length (in_req a) = al_inputs a \<and> length (out_req a) = al_outputs a"

lemma output_first_request_swap:
  assumes "sides_sized a" and "j < al_outputs a"
  shows "output_first_request C j a = map_option swap_sides (input_first_request C j (swap_sides a))"
proof -
  let ?add = "\<lambda>pri e. arb_AddRequest C (sr_port (snd e)) (sr_label (snd e)) (pri (snd e))"
  have add: "foldM (?add sr_in_pri) (in_req (swap_sides a) ! j) (input_arb (swap_sides a) ! j) =
      foldM (?add sr_out_pri) (out_req a ! j) (output_arb a ! j)"
    using assms by (simp add: swap_sides_def sides_sized_def foldM_map swap_req_def)
  have out: "out_req (swap_sides a) ! k = swap_map (in_req a ! k)" if "k < al_inputs a" for k
    using assms that by (simp add: swap_sides_def sides_sized_def)
  have upd: "swap_sides ((swap_sides a)\<lparr>out_req := (out_req (swap_sides a))[k := swap_map m],
      input_arb := (input_arb (swap_sides a))[j := x], output_arb := (input_arb a)[k := y]\<rparr>) =
    a\<lparr>in_req := (in_req a)[k := m], output_arb := (output_arb a)[j := x],
      input_arb := (input_arb a)[k := y]\<rparr>" for k m x y
    by (simp add: swap_sides_def map_update comp_def)
  have sides: "output_arb (swap_sides a) = input_arb a" "al_outputs (swap_sides a) = al_inputs a"
    by (simp_all add: swap_sides_def)
  have swapped: "sr_port (swap_req r) = sr_port r" "sr_label (swap_req r) = sr_label r"
    "sr_out_pri (swap_req r) = sr_in_pri r" for r by (simp_all add: swap_req_def)
  show ?thesis
  proof (cases "foldM (?add sr_out_pri) (out_req a ! j) (output_arb a ! j)")
    case None
    then show ?thesis by (simp add: output_first_request_def input_first_request_def add)
  next
    case x: (Some x)
    show ?thesis
    proof (cases "arb_Arbitrate C x")
      case None
      with x show ?thesis by (simp add: output_first_request_def input_first_request_def add)
    next
      case (Some y)
      obtain oa w r where y: "y = (oa, w, r)" by (cases y)
      note x = x Some [unfolded y]
      show ?thesis
      proof (cases "w > -1 \<and> nat w < al_inputs a")
        case False
        with x show ?thesis by (auto simp: output_first_request_def input_first_request_def add sides)
      next
        case w: True
        obtain m q where q: "req_at j (in_req a ! nat w) = (m, q)" by fastforce
        show ?thesis
          using x w q
          by (cases "arb_AddRequest C (sr_port q) (sr_label q) (sr_in_pri q) (input_arb a ! nat w)";
              cases "sr_port q = j \<and> sr_label q = (case r of None \<Rightarrow> -1 | Some (l, p) \<Rightarrow> l)")
            (simp_all add: output_first_request_def input_first_request_def add sides out req_at_swap
              swapped assertion_def upd)
      qed
    qed
  qed
qed

lemma output_first_grant_swap:
  assumes "i < al_inputs a"
  shows "output_first_grant C i a = map_option swap_sides (input_first_grant C i (swap_sides a))"
proof -
  have sides: "output_arb (swap_sides a) = input_arb a" "input_arb (swap_sides a) = output_arb a"
    "al_inputs (swap_sides a) = al_outputs a" "inmatch (swap_sides a) = outmatch a"
    "outmatch (swap_sides a) = inmatch a"
    by (simp_all add: swap_sides_def)
  have upd: "swap_sides (grant j i ((swap_sides a)\<lparr>input_arb := x, output_arb := y\<rparr>)) =
      grant i j (a\<lparr>input_arb := y, output_arb := x\<rparr>)" for j x y
    by (simp add: swap_sides_def grant_def comp_def)
  have upd0: "swap_sides ((swap_sides a)\<lparr>output_arb := y\<rparr>) = a\<lparr>input_arb := y\<rparr>" for y
    by (simp add: swap_sides_def comp_def)
  show ?thesis
  proof (cases "arb_Arbitrate C (input_arb a ! i)")
    case None
    then show ?thesis by (simp add: output_first_grant_def input_first_grant_def sides)
  next
    case (Some y)
    obtain ia w r where y: "y = (ia, w, r)" by (cases y)
    note x = Some [unfolded y]
    show ?thesis
    proof (cases "w > -1")
      case False
      with x show ?thesis by (simp add: output_first_grant_def input_first_grant_def sides upd0)
    next
      case True
      with x show ?thesis
        by (cases "arb_UpdateState C ia"; cases "arb_UpdateState C (output_arb a ! nat w)";
            cases "nat w < al_outputs a"; cases "inmatch a ! i = -1 \<and> outmatch a ! nat w = -1")
          (auto simp: output_first_grant_def input_first_grant_def sides upd assertion_def)
    qed
  qed
qed

lemma foldM_conjugate:
  assumes "P a" and "\<And>a. sw (sw a) = a" and "\<And>x a. P a \<Longrightarrow> x \<in> set xs \<Longrightarrow> g x a = map_option sw (f x (sw a))"
    and "\<And>x a t. P a \<Longrightarrow> x \<in> set xs \<Longrightarrow> g x a = Some t \<Longrightarrow> P t"
  shows "foldM g xs a = map_option sw (foldM f xs (sw a))"
  using assms(1,3,4)
proof (induction xs arbitrary: a)
  case Nil
  then show ?case by (simp add: assms(2))
next
  case (Cons x xs)
  have g: "g x a = map_option sw (f x (sw a))" using Cons.prems by simp
  show ?case
  proof (cases "f x (sw a)")
    case None
    with g show ?thesis by simp
  next
    case (Some b)
    with g have gx: "g x a = Some (sw b)" by simp
    have P: "P (sw b)" by (rule Cons.prems(3) [OF Cons.prems(1) _ gx]) simp
    have "foldM g xs (sw b) = map_option sw (foldM f xs (sw (sw b)))"
    proof (rule Cons.IH [OF P])
      fix y c assume c: "P c" "y \<in> set xs"
      then show "g y c = map_option sw (f y (sw c))" by (intro Cons.prems(2)) simp_all
      fix t assume "g y c = Some t"
      with c show "P t" by (intro Cons.prems(3) [of c y t]) simp_all
    qed
    then show ?thesis by (simp only: foldM.simps gx Some option.case assms(2))
  qed
qed

definition sides_ok :: "'s separable \<Rightarrow> bool" where
  "sides_ok a \<longleftrightarrow> sides_sized a \<and> set (in_occ a) \<subseteq> {..<al_inputs a} \<and> set (out_occ a) \<subseteq> {..<al_outputs a}"

lemma output_first_request_frame:
  assumes "output_first_request C j a = Some t" and "sides_ok a"
  shows "sides_ok t \<and> in_occ t = in_occ a \<and> out_occ t = out_occ a \<and> al_outputs t = al_outputs a"
  using assms
  by (auto simp: output_first_request_def sides_ok_def sides_sized_def Option.bind_eq_Some_conv
      Let_def case_prod_beta)

lemma output_first_grant_frame:
  assumes "output_first_grant C i a = Some t" and "sides_ok a"
  shows "sides_ok t \<and> al_inputs t = al_inputs a"
  using assms
  by (auto simp: output_first_grant_def sides_ok_def sides_sized_def Option.bind_eq_Some_conv grant_def
      split: prod.splits if_splits)

text \<open>Output first is input first with the sides exchanged, before and after.\<close>

lemma OutputFirst_swap:
  assumes "sides_ok a"
  shows "OutputFirst_Allocate C a = map_option swap_sides (InputFirst_Allocate C (swap_sides a))"
proof -
  let ?n = "al_outputs a"
  let ?P = "\<lambda>b. sides_ok b \<and> in_occ b = in_occ a \<and> al_outputs b = ?n"
  have requests: "foldM (output_first_request C) (out_occ a) a =
      map_option swap_sides (foldM (input_first_request C) (out_occ a) (swap_sides a))"
  proof (rule foldM_conjugate [where P = ?P])
    fix j and b :: "'a separable" assume b: "?P b" "j \<in> set (out_occ a)"
    then have "j < al_outputs b" using assms by (auto simp: sides_ok_def)
    with b(1) show "output_first_request C j b = map_option swap_sides (input_first_request C j (swap_sides b))"
      by (intro output_first_request_swap) (simp_all add: sides_ok_def)
    fix u assume "output_first_request C j b = Some u"
    with b(1) output_first_request_frame [of C j b u] show "?P u" by simp
  qed (use assms in simp_all)
  have grants: "foldM (output_first_grant C) (in_occ b) b =
      map_option swap_sides (foldM (input_first_grant C) (in_occ b) (swap_sides b))" if b: "sides_ok b" for b :: "'a separable"
  proof (rule foldM_conjugate [where P = "\<lambda>c. sides_ok c \<and> al_inputs c = al_inputs b"])
    fix i and c :: "'a separable" assume c: "sides_ok c \<and> al_inputs c = al_inputs b" "i \<in> set (in_occ b)"
    then have "i < al_inputs c" using b by (auto simp: sides_ok_def)
    then show "output_first_grant C i c = map_option swap_sides (input_first_grant C i (swap_sides c))"
      by (rule output_first_grant_swap)
    fix u assume "output_first_grant C i c = Some u"
    with c(1) output_first_grant_frame [of C i c u] show "sides_ok u \<and> al_inputs u = al_inputs b" by simp
  qed (use b in simp_all)
  have occ: "in_occ (swap_sides b) = out_occ b" for b :: "'a separable"
    by (simp add: swap_sides_def)
  show ?thesis
  proof (cases "foldM (input_first_request C) (out_occ a) (swap_sides a)")
    case None
    with requests show ?thesis by (simp add: OutputFirst_Allocate_def InputFirst_Allocate_def occ)
  next
    case (Some b)
    with requests have r: "foldM (output_first_request C) (out_occ a) a = Some (swap_sides b)" by simp
    have "?P (swap_sides b)"
    proof (rule foldM_invariant [OF r])
      show "?P a" using assms by simp
      fix x and s s' :: "'a separable" assume "?P s" "output_first_request C x s = Some s'"
      with output_first_request_frame [of C x s s'] show "?P s'" by simp
    qed
    then have "foldM (output_first_grant C) (in_occ (swap_sides b)) (swap_sides b) =
        map_option swap_sides (foldM (input_first_grant C) (out_occ b) b)"
      using grants [of "swap_sides b"] by (simp add: occ)
    with r Some show ?thesis by (simp add: OutputFirst_Allocate_def InputFirst_Allocate_def occ)
  qed
qed

subsection \<open>Output first: the contract\<close>

lemma side_ok_swap: "side_ok m n ms occ \<Longrightarrow> side_ok m n (map swap_map ms) occ"
  by (fastforce simp: side_ok_def comp_def swap_req_def)

lemma swap_shape:
  assumes "sparse_shape a"
  shows "sparse_shape (swap_sides a)" and "sides_ok a"
    and "i < al_inputs a \<Longrightarrow> j < al_outputs a \<Longrightarrow>
      asked (sparse_areqs (swap_sides a)) j i \<longleftrightarrow> asked (sparse_areqs a) i j"
proof -
  have s: "side_ok (al_inputs a) (al_outputs a) (in_req a) (in_occ a)"
    "side_ok (al_outputs a) (al_inputs a) (out_req a) (out_occ a)"
    and twice: "\<forall>i<al_inputs a. \<forall>j<al_outputs a.
       map_of (out_req a ! j) i = map_option (\<lambda>r. r\<lparr>sr_port := i\<rparr>) (map_of (in_req a ! i) j)"
    using assms by (auto simp: sparse_shape_def)
  from s have len: "length (in_req a) = al_inputs a" "length (out_req a) = al_outputs a"
    by (auto simp: side_ok_def)
  have mirrored: "map_of (map swap_map (in_req a) ! i) j =
      map_option (\<lambda>r. r\<lparr>sr_port := j\<rparr>) (map_of (map swap_map (out_req a) ! j) i)"
    if ij: "i < al_inputs a" "j < al_outputs a" for i j
  proof (cases "map_of (in_req a ! i) j")
    case None
    with twice ij len show ?thesis by (simp add: map_of_swap)
  next
    case (Some r)
    then have "(j, r) \<in> set (in_req a ! i)" by (rule map_of_SomeD)
    then have "sr_port r = j" using asked_in(2) [OF assms ij(1)] by blast
    with twice ij len Some show ?thesis by (simp add: map_of_swap swap_req_def)
  qed
  show "sparse_shape (swap_sides a)"
    using side_ok_swap [OF s(1)] side_ok_swap [OF s(2)] mirrored
    unfolding sparse_shape_def by (simp add: swap_sides_def)
  show "sides_ok a" using s by (auto simp: sides_ok_def sides_sized_def side_ok_def)
  show "asked (sparse_areqs (swap_sides a)) j i \<longleftrightarrow> asked (sparse_areqs a) i j"
    if "i < al_inputs a" "j < al_outputs a"
    using that twice len by (simp add: asked_def sparse_areqs_def swap_sides_def map_of_swap)
qed

lemma matching_swap: "matching m n R im om \<Longrightarrow> matching n m (\<lambda>j i. R i j) om im"
  unfolding matching_def by blast

lemma sparse_finished_swap: "sparse_finished a \<Longrightarrow> sparse_finished (swap_sides a)"
  by (auto simp: sparse_finished_def base_shape_def swap_sides_def)

lemma sparse_ready_swap:
  assumes "sparse_ready a"
  shows "sparse_ready (swap_sides a)"
proof -
  have s: "sparse_shape a" "base_clean a" "al_dirty a \<or> sparse_areqs a = Map.empty"
    using assms by (auto simp: sparse_ready_def)
  have "sparse_areqs (swap_sides a) = Map.empty" if "sparse_areqs a = Map.empty"
  proof (rule ext)
    fix x :: "nat \<times> nat"
    obtain j i where x: "x = (j, i)" by (cases x)
    have "\<not> asked (sparse_areqs (swap_sides a)) j i"
    proof
      assume h: "asked (sparse_areqs (swap_sides a)) j i"
      then have "i < al_inputs a" "j < al_outputs a"
        using asked_in_range [OF swap_shape(1) [OF s(1)] h] by (simp_all add: swap_sides_def)
      with h swap_shape(3) [OF s(1)] that show False by (simp add: asked_def)
    qed
    then show "sparse_areqs (swap_sides a) x = Map.empty x" by (simp only: x asked_def not_not)
  qed
  with s swap_shape(1) [OF s(1)] show ?thesis
    by (auto simp: sparse_ready_def base_clean_def swap_sides_def)
qed

context idle_arbiter
begin

lemma arbs_swap:
  "arbs_fresh a \<Longrightarrow> arbs_fresh (swap_sides a)" "arbs_used a \<Longrightarrow> arbs_used (swap_sides a)"
  by (simp_all add: arbs_fresh_def arbs_used_def swap_sides_def)

lemma OutputFirst_Allocate:
  assumes "sparse_ready a" and "arbs_fresh a"
  shows "\<exists>t. OutputFirst_Allocate C a = Some t \<and> sparse_finished t \<and> arbs_used t \<and>
    al_inputs t = al_inputs a \<and> al_outputs t = al_outputs a \<and>
    matching (al_inputs a) (al_outputs a) (asked (sparse_areqs a)) (inmatch t) (outmatch t) \<and>
    some_output_granted (al_outputs a) (al_inputs a) (\<lambda>j i. asked (sparse_areqs a) i j) (inmatch t)"
proof -
  let ?R = "asked (sparse_areqs a)" and ?S = "asked (sparse_areqs (swap_sides a))"
  have shape: "sparse_shape a" using assms(1) by (simp add: sparse_ready_def)
  have dims: "al_inputs (swap_sides a) = al_outputs a" "al_outputs (swap_sides a) = al_inputs a"
    by (simp_all add: swap_sides_def)
  from InputFirst_Allocate [OF sparse_ready_swap [OF assms(1)] arbs_swap(1) [OF assms(2)]] obtain t
    where t: "InputFirst_Allocate C (swap_sides a) = Some t" "sparse_finished t" "arbs_used t"
      "al_inputs t = al_outputs a" "al_outputs t = al_inputs a"
      "matching (al_outputs a) (al_inputs a) ?S (inmatch t) (outmatch t)"
      "some_output_granted (al_outputs a) (al_inputs a) ?S (outmatch t)" unfolding dims by blast
  let ?t = "swap_sides t"
  have "OutputFirst_Allocate C a = Some ?t"
    using OutputFirst_swap [OF swap_shape(2) [OF shape]] t(1) by simp
  moreover have "matching (al_outputs a) (al_inputs a) (\<lambda>j i. ?R i j) (inmatch t) (outmatch t)"
    by (rule matching_mono [OF t(6)]) (simp add: swap_shape(3) [OF shape])
  from matching_swap [OF this] have "matching (al_inputs a) (al_outputs a) ?R (inmatch ?t) (outmatch ?t)"
    by (simp add: swap_sides_def)
  moreover have s: "inmatch ?t = outmatch t" "al_inputs ?t = al_inputs a" "al_outputs ?t = al_outputs a"
    using t(4,5) by (simp_all add: swap_sides_def)
  moreover have "some_output_granted (al_outputs a) (al_inputs a) (\<lambda>j i. ?R i j) (inmatch ?t)"
    using t(7) unfolding some_output_granted_def s(1) by (simp add: swap_shape(3) [OF shape] cong: conj_cong)
  ultimately show ?thesis
    using sparse_finished_swap [OF t(2)] arbs_swap(2) [OF t(3)] by blast
qed

end

sublocale idle_arbiter < output_first: allocator "SeparableOutputFirst C" al_inputs al_outputs inmatch outmatch
  sparse_areqs "\<lambda>a. sparse_ready a \<and> arbs_fresh a" "\<lambda>a. sparse_finished a \<and> arbs_used a"
  "\<lambda>t Q. some_output_granted (al_outputs t) (al_inputs t) (\<lambda>j i. asked Q i j) (inmatch t)"
proof (unfold_locales, goal_cases)
  case (1 s)
  then show ?case using separable_clear [of s] by (simp add: SeparableOutputFirst_def)
next
  case (2 s i j l p q)
  then show ?case using input_first.add [of s i j l p q]
    by (simp add: SeparableOutputFirst_def SeparableInputFirst_def)
next
  case (3 s)
  then show ?case using OutputFirst_Allocate [of s] by (auto simp: SeparableOutputFirst_def)
qed

subsection \<open>With the arbiters of the simulator\<close>

interpretation rr_sep: idle_arbiter RoundRobinArbiter a_size base_reqs rr_asking rr_ok
proof unfold_locales
  fix s t w r
  assume s: "rr_asking s" "base_reqs s = Map.empty" "arb_Arbitrate RoundRobinArbiter s = Some (t, w, r)"
  then have "a_num_reqs s = 0" by (simp add: rr_asking_def rr_ok_def base_no_reqs)
  with s show "rr_asking t \<and> base_reqs t = Map.empty"
    by (auto simp: RoundRobinArbiter_def RoundRobin_Arbitrate_def Arbiter_Arbitrate_def rr_asking_def
        rr_ok_def base_update_selected)
qed

interpretation mx_sep: idle_arbiter MatrixArbiter a_size base_reqs mx_asking mx_ok
proof unfold_locales
  fix s t w r
  assume s: "mx_asking s" "base_reqs s = Map.empty" "arb_Arbitrate MatrixArbiter s = Some (t, w, r)"
  then have "a_num_reqs s = 0" by (simp add: mx_asking_def mx_ok_def base_no_reqs)
  with s show "mx_asking t \<and> base_reqs t = Map.empty"
    by (auto simp: MatrixArbiter_def Matrix_Arbitrate_def Arbiter_Arbitrate_def mx_asking_def
        mx_ok_def base_update_selected lrs_queue_def)
qed

text \<open>C30: the separable allocators work with round-robin arbiters. In a run of allocation rounds, in
  which every arbiter is used again and again, none of their assertions fails; the grants are pairs
  that were requested with no input or output granted twice; and input first, of the outputs an
  input requests one is granted (to it or to another), output first, of the inputs that request an
  output one is granted.\<close>

theorem separable_grants:
  assumes "\<forall>rs \<in> set rss. legal_areqs m n rs"
  shows "\<exists>ts us. alloc_rounds (SeparableInputFirst RoundRobinArbiter) rss
      (Separable_init RoundRobin_init m n) = Some ts \<and>
    alloc_rounds (SeparableOutputFirst RoundRobinArbiter) rss
      (Separable_init RoundRobin_init m n) = Some us \<and>
    list_all2 (\<lambda>rs t. matching m n (asked (map_of rs)) (inmatch t) (outmatch t) \<and>
      (\<forall>i<m. (\<exists>j<n. asked (map_of rs) i j) \<longrightarrow> (\<exists>j<n. asked (map_of rs) i j \<and> outmatch t ! j \<noteq> -1))) rss ts \<and>
    list_all2 (\<lambda>rs t. matching m n (asked (map_of rs)) (inmatch t) (outmatch t) \<and>
      (\<forall>j<n. (\<exists>i<m. asked (map_of rs) i j) \<longrightarrow> (\<exists>i<m. asked (map_of rs) i j \<and> inmatch t ! i \<noteq> -1))) rss us"
proof -
  let ?s = "Separable_init RoundRobin_init m n"
  have "sparse_finished ?s = sparse_finished (Sparse_init m n)"
    by (rule sparse_finished_cong) (simp_all add: Separable_init_def sparse_alloc.defs alloc_base.defs)
  then have i: "sparse_finished ?s" "al_inputs ?s = m" "al_outputs ?s = n"
    using Sparse_init [of m n] by (simp_all add: Separable_init_def sparse_alloc.defs)
  have "rr_sep.used k (RoundRobin_init k)" for k
    using RoundRobin_init_asking [of k] by (simp add: rr_sep.used_def)
  then have u: "rr_sep.arbs_used ?s"
    by (simp add: rr_sep.arbs_used_def i) (simp add: Separable_init_def sparse_alloc.defs)
  from rr_sep.input_first.rounds [of ?s rss] i u assms obtain ts
    where ts: "alloc_rounds (SeparableInputFirst RoundRobinArbiter) rss ?s = Some ts"
      "list_all2 (\<lambda>rs t. al_inputs t = m \<and> al_outputs t = n \<and>
        matching m n (asked (map_of rs)) (inmatch t) (outmatch t) \<and>
        some_output_granted (al_inputs t) (al_outputs t) (asked (map_of rs)) (outmatch t)) rss ts" by auto
  from rr_sep.output_first.rounds [of ?s rss] i u assms obtain us
    where us: "alloc_rounds (SeparableOutputFirst RoundRobinArbiter) rss ?s = Some us"
      "list_all2 (\<lambda>rs t. al_inputs t = m \<and> al_outputs t = n \<and>
        matching m n (asked (map_of rs)) (inmatch t) (outmatch t) \<and>
        some_output_granted (al_outputs t) (al_inputs t) (\<lambda>j i. asked (map_of rs) i j) (inmatch t)) rss us"
    by auto
  have "list_all2 (\<lambda>rs t. matching m n (asked (map_of rs)) (inmatch t) (outmatch t) \<and>
      (\<forall>i<m. (\<exists>j<n. asked (map_of rs) i j) \<longrightarrow> (\<exists>j<n. asked (map_of rs) i j \<and> outmatch t ! j \<noteq> -1))) rss ts"
    by (rule list_all2_mono [OF ts(2)]) (auto simp: some_output_granted_def)
  moreover have "list_all2 (\<lambda>rs t. matching m n (asked (map_of rs)) (inmatch t) (outmatch t) \<and>
      (\<forall>j<n. (\<exists>i<m. asked (map_of rs) i j) \<longrightarrow> (\<exists>i<m. asked (map_of rs) i j \<and> inmatch t ! i \<noteq> -1))) rss us"
    by (rule list_all2_mono [OF us(2)]) (auto simp: some_output_granted_def)
  ultimately show ?thesis using ts(1) us(1) by blast
qed

lemma separable_grants_witness:
  "\<exists>ts us. alloc_rounds (SeparableInputFirst RoundRobinArbiter) [[((0, 0), 1, 0, 0), ((0, 1), 2, 5, 0), ((1, 0), 1, 0, 0)], [((1, 1), 1, 0, 0)]]
      (Separable_init RoundRobin_init 2 2) = Some ts \<and>
    alloc_rounds (SeparableOutputFirst RoundRobinArbiter) [[((0, 0), 1, 0, 0), ((0, 1), 2, 5, 0), ((1, 0), 1, 0, 0)], [((1, 1), 1, 0, 0)]]
      (Separable_init RoundRobin_init 2 2) = Some us \<and>
    list_all2 (\<lambda>rs t. matching 2 2 (asked (map_of rs)) (inmatch t) (outmatch t) \<and>
      (\<forall>i<2. (\<exists>j<2. asked (map_of rs) i j) \<longrightarrow> (\<exists>j<2. asked (map_of rs) i j \<and> outmatch t ! j \<noteq> -1)))
      [[((0, 0), 1, 0, 0), ((0, 1), 2, 5, 0), ((1, 0), 1, 0, 0)], [((1, 1), 1, 0, 0)]] ts \<and>
    list_all2 (\<lambda>rs t. matching 2 2 (asked (map_of rs)) (inmatch t) (outmatch t) \<and>
      (\<forall>j<2. (\<exists>i<2. asked (map_of rs) i j) \<longrightarrow> (\<exists>i<2. asked (map_of rs) i j \<and> inmatch t ! i \<noteq> -1)))
      [[((0, 0), 1, 0, 0), ((0, 1), 2, 5, 0), ((1, 0), 1, 0, 0)], [((1, 1), 1, 0, 0)]] us"
  by (rule separable_grants) (simp_all add: legal_areqs_def)

end
