(* ===== verification/Select_Allocator.thy ===== *)
theory Select_Allocator
  imports Iterative_Matching
begin

text \<open>
  SelAlloc (selalloc.cpp) grants and accepts by priority.  With one iteration it keeps the contract of
  an allocator; with two it does not, because grants of the first iteration stay in force in the
  second.
\<close>

subsection \<open>One iteration\<close>

lemma sel_max:
  "if \<exists>r \<in> set rs. ok r
   then \<exists>r \<in> set rs. ok r \<and> sel_max ok pri rs = int (sr_port r) \<and>
     (\<forall>r' \<in> set rs. ok r' \<longrightarrow> pri r' \<le> pri r)
   else sel_max ok pri rs = -1"
proof -
  let ?f = "\<lambda>r (max_index, max_pri). if ok r \<and> (pri r > max_pri \<or> max_index = -1)
    then (int (sr_port r), pri r) else (max_index, max_pri)"
  define best where "best = (\<lambda>rs mi mp. if \<exists>r \<in> set rs. ok r
    then \<exists>r \<in> set rs. ok r \<and> mi = int (sr_port r) \<and> mp = pri r \<and>
      (\<forall>r' \<in> set rs. ok r' \<longrightarrow> pri r' \<le> pri r)
    else mi = -1)"
  have "case fold ?f rs (-1, 0) of (mi, mp) \<Rightarrow> best rs mi mp"
  proof (induction rs rule: rev_induct)
    case (snoc x xs)
    obtain mi mp where s: "fold ?f xs (-1, 0) = (mi, mp)" by fastforce
    have step: "fold ?f (xs @ [x]) (-1, 0) =
        (if ok x \<and> (pri x > mp \<or> mi = -1) then (int (sr_port x), pri x) else (mi, mp))"
      using s by simp
    have IH: "best xs mi mp" using snoc.IH unfolding s by simp
    show ?case
    proof (cases "\<exists>r \<in> set xs. ok r")
      case True
      with IH obtain r where r: "r \<in> set xs" "ok r" "mi = int (sr_port r)" "mp = pri r"
        "\<forall>r' \<in> set xs. ok r' \<longrightarrow> pri r' \<le> pri r" by (auto simp: best_def)
      show ?thesis
      proof (cases "ok x \<and> pri x > mp")
        case True
        then have "\<exists>r \<in> set (xs @ [x]). ok r \<and> int (sr_port x) = int (sr_port r) \<and> pri x = pri r \<and>
            (\<forall>r' \<in> set (xs @ [x]). ok r' \<longrightarrow> pri r' \<le> pri r)"
          using r by (intro bexI [of _ x]) auto
        with True show ?thesis unfolding step by (simp add: best_def)
      next
        case False
        then have "\<exists>r \<in> set (xs @ [x]). ok r \<and> mi = int (sr_port r) \<and> mp = pri r \<and>
            (\<forall>r' \<in> set (xs @ [x]). ok r' \<longrightarrow> pri r' \<le> pri r)"
          using r by (intro bexI [of _ r]) auto
        with False r show ?thesis unfolding step by (auto simp: best_def)
      qed
    next
      case False
      with IH show ?thesis unfolding step by (cases "ok x") (auto simp: best_def)
    qed
  qed (simp add: best_def)
  then show ?thesis unfolding sel_max_def best_def by (auto split: prod.splits if_splits)
qed

definition sel_same :: "selalloc \<Rightarrow> selalloc \<Rightarrow> bool" where
  "sel_same a t \<longleftrightarrow> al_inputs t = al_inputs a \<and> al_outputs t = al_outputs a \<and>
     al_dirty t = al_dirty a \<and> in_req t = in_req a \<and> out_req t = out_req a \<and>
     in_occ t = in_occ a \<and> out_occ t = out_occ a \<and> sel_iter t = sel_iter a \<and>
     sel_outmask t = sel_outmask a"

text \<open>Masked outputs take no part.\<close>

abbreviation unmasked :: "selalloc \<Rightarrow> nat \<Rightarrow> nat \<Rightarrow> bool" where
  "unmasked a i j \<equiv> asked (sparse_areqs a) i j \<and> sel_outmask a ! j = 0"

lemma sel_grants_nth:
  "j < length g \<Longrightarrow> distinct xs \<Longrightarrow> length (fold (sel_grant a) xs g) = length g \<and>
    fold (sel_grant a) xs g ! j = (if j \<in> set xs then sel_grant a j g ! j else g ! j)"
proof (induction xs arbitrary: g)
  case (Cons x xs)
  have "length (sel_grant a x g) = length g" by (simp add: sel_grant_def Let_def)
  moreover have "x \<noteq> j \<Longrightarrow> sel_grant a x g ! j = g ! j \<and> sel_grant a j (sel_grant a x g) ! j = sel_grant a j g ! j"
    using Cons.prems(1) by (auto simp: sel_grant_def Let_def)
  ultimately show ?case using Cons by auto
qed simp

lemma sel_grants_good:
  assumes "sparse_shape a" and "\<forall>j<al_outputs a. outmatch a ! j = -1"
  shows "good_grants (al_inputs a) (al_outputs a) (unmasked a)
    (fold (sel_grant a) (out_occ a) (replicate (al_outputs a) (-1))) (inmatch a) (outmatch a)"
  unfolding good_grants_def
proof (intro allI impI)
  fix j assume j: "j < al_outputs a"
  let ?g = "fold (sel_grant a) (out_occ a) (replicate (al_outputs a) (-1))"
  let ?xs = "scan_from sr_port (sel_gptrs a ! j) (map snd (out_req a ! j))"
  let ?ok = "\<lambda>r. inmatch a ! sr_port r = -1"
  let ?m = "sel_max ?ok sr_out_pri ?xs"
  have occ: "distinct (out_occ a)" "set (out_occ a) = {j. j < al_outputs a \<and> out_req a ! j \<noteq> []}"
    using assms(1) strict_sorted_iff [of "out_occ a"] by (auto simp: sparse_shape_def side_ok_def)
  have xs: "r \<in> set ?xs \<longleftrightarrow> (\<exists>k. (k, r) \<in> set (out_req a ! j))" for r by force
  have req: "asked (sparse_areqs a) i j \<longleftrightarrow> (\<exists>r. (i, r) \<in> set (out_req a ! j))" if "i < al_inputs a" for i
    using asked_out(1) [OF assms(1) that j] .
  have port: "(k, r) \<in> set (out_req a ! j) \<Longrightarrow> sr_port r = k \<and> k < al_inputs a" for k r
    using assms(1) j by (fastforce simp: sparse_shape_def side_ok_def)
  have g: "?g ! j = (if out_req a ! j = [] \<or> sel_outmask a ! j \<noteq> 0 \<or> ?m = -1 then -1 else ?m)"
    using sel_grants_nth [of j "replicate (al_outputs a) (-1)" "out_occ a" a] j occ assms(2)
    by (auto simp: sel_grant_def Let_def)
  have ex: "(\<exists>r \<in> set ?xs. ?ok r) \<longleftrightarrow> (\<exists>i<al_inputs a. asked (sparse_areqs a) i j \<and> inmatch a ! i = -1)"
    using xs req port by blast
  show "if outmatch a ! j = -1 \<and> (\<exists>i<al_inputs a. unmasked a i j \<and> inmatch a ! i = -1)
      then \<exists>i<al_inputs a. ?g ! j = int i \<and> unmasked a i j \<and> inmatch a ! i = -1 else ?g ! j = -1"
  proof (cases "\<exists>r \<in> set ?xs. ?ok r")
    case True
    with sel_max [of ?xs ?ok sr_out_pri] obtain r where r: "r \<in> set ?xs" "?ok r" "?m = int (sr_port r)"
      by auto
    then obtain k where k: "(k, r) \<in> set (out_req a ! j)" using xs by blast
    have ne: "out_req a ! j \<noteq> []" using k by auto
    have "sr_port r < al_inputs a" "asked (sparse_areqs a) (sr_port r) j"
      using port [OF k] req k by auto
    with g ne r ex True assms(2) j show ?thesis by auto
  next
    case False
    with sel_max [of ?xs ?ok sr_out_pri] have "?m = -1" by simp
    with g ex False show ?thesis by auto
  qed
qed

lemma sel_accept:
  assumes "sparse_shape a" and "sel_same a t" and "i < al_inputs a"
    and "\<And>j. j < al_outputs a \<Longrightarrow> g ! j = int i \<Longrightarrow> unmasked a i j"
  shows "sel_same a (sel_accept is_first g i t) \<and>
    accepts (al_outputs a) g i (inmatch t, outmatch t)
      (inmatch (sel_accept is_first g i t), outmatch (sel_accept is_first g i t))"
proof -
  let ?xs = "scan_from sr_port (sel_aptrs t ! i) (map snd (in_req a ! i))"
  let ?ok = "\<lambda>r. g ! sr_port r = int i \<and> out_req a ! sr_port r \<noteq> []"
  let ?m = "sel_max ?ok sr_in_pri ?xs"
  have same: "in_req t = in_req a" "out_req t = out_req a" using assms(2) by (auto simp: sel_same_def)
  have xs: "r \<in> set ?xs \<longleftrightarrow> (\<exists>k. (k, r) \<in> set (in_req a ! i))" for r by force
  note req = asked_in [OF assms(1,3)]
  show ?thesis
  proof (cases "\<exists>r \<in> set ?xs. ?ok r")
    case False
    with sel_max [of ?xs ?ok sr_in_pri] have "?m = -1" by simp
    then have "sel_accept is_first g i t = t" by (simp add: sel_accept_def same Let_def)
    moreover have "g ! j \<noteq> int i" if j: "j < al_outputs a" for j
    proof
      assume gj: "g ! j = int i"
      with assms(4) j have askd: "asked (sparse_areqs a) i j" by auto
      with req(1) obtain r where r: "(j, r) \<in> set (in_req a ! i)" by blast
      moreover have "out_req a ! j \<noteq> []" using asked_out(1) [OF assms(1,3) j] askd by force
      ultimately show False using False xs req(2) gj by blast
    qed
    ultimately show ?thesis using assms(2) by (simp add: accepts_def)
  next
    case True
    with sel_max [of ?xs ?ok sr_in_pri] obtain r where r: "r \<in> set ?xs" "?ok r" "?m = int (sr_port r)"
      by auto
    then obtain k where k: "(k, r) \<in> set (in_req a ! i)" using xs by blast
    with req(2) have j: "sr_port r = k" "k < al_outputs a" "in_req a ! i \<noteq> []" by auto
    with r assms(2) show ?thesis
      by (auto simp: sel_accept_def same sel_same_def accepts_def Let_def grant_def)
  qed
qed

lemma sel_iteration:
  fixes is_first :: bool
  assumes "sparse_ready a"
  defines "g \<equiv> fold (sel_grant a) (out_occ a) (replicate (al_outputs a) (-1))"
  defines "t \<equiv> fold (sel_accept is_first g) (in_occ a) a"
  shows "sel_same a t \<and> matching (al_inputs a) (al_outputs a) (unmasked a) (inmatch t) (outmatch t) \<and>
    nearly_maximal 1 (al_inputs a) (al_outputs a) (unmasked a) (inmatch t) (outmatch t)"
proof -
  let ?m = "al_inputs a" and ?n = "al_outputs a"
  have shape: "sparse_shape a" and clean: "base_clean a" using assms(1) by (auto simp: sparse_ready_def)
  have m0: "matching ?m ?n (unmasked a) (inmatch a) (outmatch a)" by (rule base_clean_matching [OF clean])
  have good: "good_grants ?m ?n (unmasked a) g (inmatch a) (outmatch a)"
    unfolding g_def by (rule sel_grants_good [OF shape]) (use clean in \<open>simp add: base_clean_def\<close>)
  have R: "unmasked a i j" if "j < ?n" "g ! j = int i" for i j
    using good that unfolding good_grants_def by (force split: if_splits)
  let ?P = "\<lambda>i. in_req a ! i \<noteq> []"
  let ?f = "\<lambda>i u. if ?P i then sel_accept is_first g i u else u"
  have "in_occ a = filter ?P [0..<?m]"
    by (rule strict_sorted_equal) (use shape in \<open>auto simp: sparse_shape_def side_ok_def sorted_wrt_filter\<close>)
  then have t: "t = fold ?f [0..<?m] a" by (simp only: t_def fold_filter_skip)
  have r: "sel_same a t \<and> matching ?m ?n (unmasked a) (inmatch t) (outmatch t) \<and>
      (if maximal ?m ?n (unmasked a) (inmatch a) (outmatch a)
       then maximal ?m ?n (unmasked a) (inmatch t) (outmatch t)
       else card (granted (inmatch a)) < card (granted (inmatch t)))"
    unfolding t
  proof (rule accept_phase [where I = "sel_same a"])
    show "matching ?m ?n (unmasked a) (inmatch a) (outmatch a)" by (rule m0)
    show "good_grants ?m ?n (unmasked a) g (inmatch a) (outmatch a)" by (rule good)
    show "sel_same a a" by (simp add: sel_same_def)
    fix i u assume i: "i < ?m" and u: "sel_same a u"
    have "sel_accept is_first g i u = u" if "in_req a ! i = []"
      using u that by (simp add: sel_accept_def sel_same_def)
    then have "?f i u = sel_accept is_first g i u" by simp
    with sel_accept [OF shape u i R, where is_first = is_first]
    show "sel_same a (?f i u) \<and> accepts ?n g i (inmatch u, outmatch u) (inmatch (?f i u), outmatch (?f i u))"
      by simp
  qed
  moreover have "nearly_maximal 1 ?m ?n (unmasked a) (inmatch t) (outmatch t)"
    using r by (auto simp: nearly_maximal_def split: if_splits)
  ultimately show ?thesis by blast
qed

lemma SelAlloc_Allocate:
  assumes "sparse_ready a" and "sel_iter a \<le> 1"
  shows "\<exists>t. SelAlloc_Allocate a = Some t \<and> sparse_finished t \<and> sel_same a t \<and>
    matching (al_inputs a) (al_outputs a) (unmasked a) (inmatch t) (outmatch t) \<and>
    nearly_maximal (sel_iter a) (al_inputs a) (al_outputs a) (unmasked a) (inmatch t) (outmatch t)"
proof -
  have shape: "sparse_shape a" and clean: "base_clean a" using assms(1) by (auto simp: sparse_ready_def)
  have fin: "sparse_finished t" if "sel_same a t"
    "matching (al_inputs a) (al_outputs a) (unmasked a) (inmatch t) (outmatch t)" for t
  proof (rule sparse_done [OF assms(1)])
    show "matching (al_inputs a) (al_outputs a) (asked (sparse_areqs a)) (inmatch t) (outmatch t)"
      by (rule matching_mono [OF that(2)]) simp
  qed (use that(1) shape in \<open>simp_all add: sel_same_def sparse_shape_def side_ok_def\<close>)
  show ?thesis
  proof (cases "sel_iter a = 0")
    case True
    have "sel_same a a" "matching (al_inputs a) (al_outputs a) (unmasked a) (inmatch a) (outmatch a)"
      using base_clean_matching [OF clean] by (simp_all add: sel_same_def)
    with fin True show ?thesis by (simp add: SelAlloc_Allocate_def nearly_maximal_def)
  next
    case False
    with assms(2) have one: "sel_iter a = 1" by simp
    have "SelAlloc_Allocate a = Some (fold (sel_accept True
        (fold (sel_grant a) (out_occ a) (replicate (al_outputs a) (-1)))) (in_occ a) a)"
      by (simp add: SelAlloc_Allocate_def one sel_iteration_def Let_def)
    with sel_iteration [OF assms(1), of True] fin one show ?thesis by simp
  qed
qed

interpretation sel: allocator SelAlloc al_inputs al_outputs inmatch outmatch sparse_areqs
  "\<lambda>a. sparse_ready a \<and> sel_iter a \<le> 1" "\<lambda>a. sparse_finished a \<and> sel_iter a \<le> 1"
  "\<lambda>t Q. matching (al_inputs t) (al_outputs t) (\<lambda>i j. asked Q i j \<and> sel_outmask t ! j = 0)
      (inmatch t) (outmatch t) \<and>
    nearly_maximal (sel_iter t) (al_inputs t) (al_outputs t)
      (\<lambda>i j. asked Q i j \<and> sel_outmask t ! j = 0) (inmatch t) (outmatch t)"
proof (unfold_locales, goal_cases)
  case (1 s)
  then show ?case using sparse_clear [of s]
    by (simp add: SelAlloc_def Sparse_Clear_def Allocator_Clear_def)
next
  case (2 s i j l p q)
  then have s: "sparse_ready s" by simp
  from sparse_add [OF s 2(2-5), of p q] obtain t where t: "Sparse_AddRequest i j l p q s = Some t"
    "sparse_ready t" "sparse_areqs t = (sparse_areqs s)((i, j) \<mapsto> (l, p, q))"
    "al_inputs t = al_inputs s" "al_outputs t = al_outputs s" "sparse_alloc.more t = sparse_alloc.more s"
    by blast
  have "sel_iter t = sel_iter s" using t(6) by (cases t; cases s) simp
  with t 2(1) show ?case by (simp add: SelAlloc_def)
next
  case (3 s)
  then have s: "sparse_ready s" "sel_iter s \<le> 1" by auto
  from SelAlloc_Allocate [OF s] obtain t where t: "SelAlloc_Allocate s = Some t" "sparse_finished t"
    "sel_same s t" "matching (al_inputs s) (al_outputs s) (unmasked s) (inmatch t) (outmatch t)"
    "nearly_maximal (sel_iter s) (al_inputs s) (al_outputs s) (unmasked s) (inmatch t) (outmatch t)" by auto
  have "matching (al_inputs s) (al_outputs s) (asked (sparse_areqs s)) (inmatch t) (outmatch t)"
    by (rule matching_mono [OF t(4)]) simp
  with t s(2) show ?case by (auto simp: SelAlloc_def sel_same_def)
qed

subsection \<open>Two iterations\<close>

text \<open>Input 0 requests both outputs and is granted by both.  It accepts output 0 in the first
  iteration, and output 1 in the second, whose grant is still in \<open>grants\<close>: it then holds output 1
  while both outputs are taken to be its own.\<close>

lemma selalloc_grants_twice:
  "\<exists>t. alloc_round SelAlloc [((0, 0), 1, 0, 0), ((0, 1), 1, 0, 0)] (SelAlloc_init 2 2 2) = Some t \<and>
    inmatch t = [1, -1] \<and> outmatch t = [0, 0]"
  by (simp add: alloc_round_def alloc_ask_def SelAlloc_def Sparse_AddRequest_def om_count_def
      Allocator_AddRequest_def SelAlloc_init_def Sparse_init_def Allocator_init_def sparse_alloc.defs
      alloc_base.defs Sparse_Clear_def Allocator_Clear_def SelAlloc_Allocate_def sel_iteration_def
      sel_grant_def sel_accept_def sel_max_def scan_from_def numeral_2_eq_2 grant_def Let_def)

end
