(* ===== verification/Router_Allocators.thy ===== *)
theory Router_Allocators
  imports Sparse_Allocators
begin

text \<open>
  The part of the \<open>Allocator\<close> interface (src/booksim2/src/allocators/allocator.hpp) the router
  pipeline calls, as a record of methods, for dense and for sparse allocators.  The router holds
  \<open>Allocator *\<close>, so its stages are defined over such a record and the state of the object.
\<close>

record 's router_alloc = "'s alloc_class" +
  alloc_OutputAssigned :: "nat \<Rightarrow> 's \<Rightarrow> int option"
  alloc_InputAssigned :: "nat \<Rightarrow> 's \<Rightarrow> int option"
  alloc_ReadRequest :: "nat \<Rightarrow> nat \<Rightarrow> 's \<Rightarrow> alloc_request option option"
  alloc_ReadLabel :: "nat \<Rightarrow> nat \<Rightarrow> 's \<Rightarrow> int option"
  alloc_RemoveRequest :: "nat \<Rightarrow> nat \<Rightarrow> int \<Rightarrow> 's \<Rightarrow> 's option"
  alloc_OutputHasRequests :: "nat \<Rightarrow> 's \<Rightarrow> bool"

definition dense_router_alloc ::
  "'a dense_alloc_scheme alloc_class \<Rightarrow> 'a dense_alloc_scheme router_alloc" where
  "dense_router_alloc C = alloc_class.extend C
     \<lparr>alloc_OutputAssigned = OutputAssigned, alloc_InputAssigned = InputAssigned,
      alloc_ReadRequest = Dense_ReadRequest_at, alloc_ReadLabel = Dense_ReadRequest,
      alloc_RemoveRequest = (\<lambda>i j label. Dense_RemoveRequest i j),
      alloc_OutputHasRequests = Dense_OutputHasRequests\<rparr>"

definition sparse_router_alloc ::
  "'a sparse_alloc_scheme alloc_class \<Rightarrow> 'a sparse_alloc_scheme router_alloc" where
  "sparse_router_alloc C = alloc_class.extend C
     \<lparr>alloc_OutputAssigned = OutputAssigned, alloc_InputAssigned = InputAssigned,
      alloc_ReadRequest = Sparse_ReadRequest, alloc_ReadLabel = Sparse_ReadLabel,
      alloc_RemoveRequest = Sparse_RemoveRequest,
      alloc_OutputHasRequests = Sparse_OutputHasRequests\<rparr>"

text \<open>The object a router makes for the configured allocator type; \<open>'s\<close> is the class of its state.\<close>

definition select_alloc :: "nat \<Rightarrow> nat \<Rightarrow> selalloc router_alloc \<times> selalloc" where
  "select_alloc ins outs = (sparse_router_alloc SelAlloc, SelAlloc_init ins outs 1)"

definition islip_alloc :: "nat \<Rightarrow> nat \<Rightarrow> islip router_alloc \<times> islip" where
  "islip_alloc ins outs = (sparse_router_alloc iSLIP_Sparse, iSLIP_init ins outs 1)"

definition separable_alloc ::
  "nat \<Rightarrow> nat \<Rightarrow> rr_arbiter separable router_alloc \<times> rr_arbiter separable" where
  "separable_alloc ins outs =
     (sparse_router_alloc (SeparableInputFirst RoundRobinArbiter),
      Separable_init RoundRobin_init ins outs)"

definition wavefront_alloc :: "nat \<Rightarrow> nat \<Rightarrow> wavefront router_alloc \<times> wavefront" where
  "wavefront_alloc ins outs = (dense_router_alloc Wavefront, Wavefront_init ins outs False)"

end
