(* ===== verification/Pipeline.thy ===== *)
theory Pipeline
  imports Routers Router_Allocators "HOL-Library.Signed_Division"
begin

text \<open>
  The router pipeline before the switch: \<open>IQRouter\<close> (src/booksim2/src/routers/iq_router.cpp) and
  what \<open>FLOVRouter\<close> (flov_router.cpp) changes in it.  Every stage keeps a queue of VCs with a
  time, -1 until the stage's \<open>Evaluate\<close> has seen the entry and then the cycle in which its
  \<open>Update\<close> acts on it.  What lies outside the router is the record \<open>router_env\<close>: the
  routers behind its output channels, the routing function applied to this router and applied to
  the router behind an output.  \<open>now\<close> is \<open>GetSimTime()\<close>.  \<open>vca\<close> is "\<open>_vc_allocator\<close> is not
  null".  A failed assertion, a null pointer that is followed and an index outside a vector are
  \<open>None\<close>.  The buffer and switch monitors, which only count, and the code under \<open>TRACK_FLOWS\<close>
  and \<open>TRACK_STALLS\<close>, which no build enables, are left out.  A lookahead route set is copied to
  the VC that uses it; the code keeps a pointer to the flit's.
\<close>

record 'r router_env =
  e_k :: nat
  e_nodes :: nat
  e_sink :: "nat \<Rightarrow> nat option"
  e_sink_port :: "nat \<Rightarrow> nat"
  e_sink_outputs :: "nat \<Rightarrow> nat"
  e_route :: "'r \<Rightarrow> flit \<Rightarrow> nat \<Rightarrow> output_set \<Rightarrow> output_set option"
  e_look_ahead :: "nat \<Rightarrow> flit \<Rightarrow> nat \<Rightarrow> output_set \<Rightarrow> output_set option"

definition STALL_BUFFER_BUSY :: int where "STALL_BUFFER_BUSY = -2"
definition STALL_BUFFER_CONFLICT :: int where "STALL_BUFFER_CONFLICT = -3"
definition STALL_BUFFER_FULL :: int where "STALL_BUFFER_FULL = -4"
definition STALL_BUFFER_RESERVED :: int where "STALL_BUFFER_RESERVED = -5"
definition STALL_CROSSBAR_CONFLICT :: int where "STALL_CROSSBAR_CONFLICT = -6"

lemmas STALL_defs = STALL_BUFFER_BUSY_def STALL_BUFFER_CONFLICT_def STALL_BUFFER_FULL_def
  STALL_BUFFER_RESERVED_def STALL_CROSSBAR_CONFLICT_def

subsection \<open>Configuration\<close>

text \<open>The options \<open>Router::Router\<close> and \<open>IQRouter::IQRouter\<close> read.\<close>

record iq_config =
  cfg_classes :: nat
  cfg_prepare_delay :: int
  cfg_final_delay :: int
  cfg_credit_delay :: int
  cfg_input_speedup :: nat
  cfg_vc_busy_when_full :: int
  cfg_vc_prioritize_empty :: int
  cfg_vc_shuffle_requests :: int
  cfg_speculative :: int
  cfg_spec_check_elig :: int
  cfg_spec_check_cred :: int
  cfg_spec_mask_by_reqs :: int
  cfg_routing_delay :: int
  cfg_vc_alloc_delay :: int
  cfg_sw_alloc_delay :: int
  cfg_piggyback :: bool
  cfg_noq :: int
  cfg_output_buffer_size :: int
  cfg_hold_switch_for_packet :: int

text \<open>The constructor: \<open>None\<close> is a call of \<open>Error\<close>.\<close>

definition configure :: "iq_config \<Rightarrow> 'a iq_router_scheme \<Rightarrow> 'a iq_router_scheme option" where
  "configure c r = do {
     assertion (cfg_vc_alloc_delay c \<noteq> 0);
     assertion (cfg_sw_alloc_delay c \<noteq> 0);
     assertion (cfg_piggyback c \<longrightarrow> cfg_speculative c > 0);
     assertion (cfg_noq c > 0 \<longrightarrow> cfg_routing_delay c = 0);
     assertion (cfg_noq c > 0 \<longrightarrow> outputs r \<le> vcs r);
     (let n = inputs r * cfg_input_speedup c in
      Some (r\<lparr>classes := cfg_classes c,
              crossbar_delay := cfg_prepare_delay c + cfg_final_delay c,
              credit_delay := cfg_credit_delay c, input_speedup := cfg_input_speedup c,
              vc_busy_when_full := cfg_vc_busy_when_full c > 0,
              vc_prioritize_empty := cfg_vc_prioritize_empty c > 0,
              vc_shuffle_requests := cfg_vc_shuffle_requests c > 0,
              speculative := cfg_speculative c > 0,
              spec_check_elig := cfg_spec_check_elig c > 0,
              spec_check_cred := cfg_spec_check_cred c > 0,
              spec_mask_by_reqs := cfg_spec_mask_by_reqs c > 0,
              routing_delay := cfg_routing_delay c,
              vc_alloc_delay := cfg_vc_alloc_delay c, sw_alloc_delay := cfg_sw_alloc_delay c,
              vc_rr_offset := (if cfg_piggyback c then replicate (outputs r * cfg_classes c) (-1) else []),
              sw_rr_offset := map (\<lambda>i. int (i mod cfg_input_speedup c)) [0..<n],
              output_buffer_size := cfg_output_buffer_size c,
              hold_switch_for_packet := cfg_hold_switch_for_packet c > 0,
              switch_hold_in := replicate n (-1),
              switch_hold_out := replicate (outputs r * output_speedup r) (-1),
              switch_hold_vc := replicate n (-1), noq := cfg_noq c > 0,
              noq_next_output_port := replicate (inputs r) (replicate (vcs r) (-1)),
              noq_next_vc_start := replicate (inputs r) (replicate (vcs r) (-1)),
              noq_next_vc_end := replicate (inputs r) (replicate (vcs r) (-1))\<rparr>))
   }"

text \<open>The latency \<open>AddOutputChannel\<close> tells the buffer state of the channel.\<close>

definition channel_min_latency :: "int \<Rightarrow> int \<Rightarrow> 'a iq_router_scheme \<Rightarrow> int" where
  "channel_min_latency latency back_latency r =
     (let alloc_delay = (if speculative r then max (vc_alloc_delay r) (sw_alloc_delay r)
                         else vc_alloc_delay r + sw_alloc_delay r)
      in 1 + crossbar_delay r + latency + routing_delay r + alloc_delay + back_latency + credit_delay r)"

subsection \<open>Reading the channels\<close>

definition receive_flit :: "nat \<times> flit option \<Rightarrow> flit omap \<Rightarrow> flit omap" where
  "receive_flit x m = (case snd x of None \<Rightarrow> m | Some f \<Rightarrow> om_insert (fst x) f m)"

definition ReceiveFlits :: "flit option list \<Rightarrow> 'a iq_router_scheme \<Rightarrow> 'a iq_router_scheme \<times> bool" where
  "ReceiveFlits fs r =
     (r\<lparr>in_queue_flits := fold receive_flit (zip [0..<inputs r] fs) (in_queue_flits r)\<rparr>,
      list_ex (\<lambda>x. snd x \<noteq> None) (zip [0..<inputs r] fs))"

definition ReceiveCredits ::
  "int \<Rightarrow> credit option list \<Rightarrow> 'a iq_router_scheme \<Rightarrow> 'a iq_router_scheme \<times> bool" where
  "ReceiveCredits now cs r =
     (let got = [(now + credit_delay r, the c, out). (out, c) \<leftarrow> zip [0..<outputs r] cs, c \<noteq> None]
      in (r\<lparr>proc_credits := proc_credits r @ got\<rparr>, got \<noteq> []))"

subsection \<open>Access to the VCs\<close>

definition upd_buf :: "nat \<Rightarrow> (buffer \<Rightarrow> buffer) \<Rightarrow> 'a iq_router_scheme \<Rightarrow> 'a iq_router_scheme" where
  "upd_buf input g r = r\<lparr>buf := (buf r)[input := g (buf r ! input)]\<rparr>"

text \<open>The checks in front of every access to the VC of a queue entry; the result is its front
  flit.\<close>

definition front_at :: "(vc_state \<Rightarrow> bool) \<Rightarrow> nat \<Rightarrow> nat \<Rightarrow> 'a iq_router_scheme \<Rightarrow> flit option" where
  "front_at ok input vc r = do {
     assertion (input < inputs r);
     assertion (vc < vcs r);
     f \<leftarrow> Buffer_FrontFlit vc (buf r ! input);
     assertion (ok (GetState vc (buf r ! input)));
     assertion (f_vc f = int vc);
     Some f
   }"

definition hold_index :: "nat \<Rightarrow> nat \<Rightarrow> 'a iq_router_scheme \<Rightarrow> nat" where
  "hold_index input vc r = input * input_speedup r + vc mod input_speedup r"

definition input_and_vc :: "nat \<Rightarrow> nat \<Rightarrow> 'a iq_router_scheme \<Rightarrow> nat" where
  "input_and_vc input vc r =
     (if vc_shuffle_requests r then vc * inputs r + input else input * vcs r + vc)"

text \<open>\<open>push_back(make_pair(-1, ...))\<close> on the queues.\<close>

definition push_route :: "nat \<Rightarrow> nat \<Rightarrow> 'a iq_router_scheme \<Rightarrow> 'a iq_router_scheme" where
  "push_route input vc r = r\<lparr>route_vcs := route_vcs r @ [(-1, input, vc)]\<rparr>"

definition pop_route :: "'a iq_router_scheme \<Rightarrow> 'a iq_router_scheme" where
  "pop_route r = r\<lparr>route_vcs := tl (route_vcs r)\<rparr>"

definition push_vc_alloc :: "nat \<Rightarrow> nat \<Rightarrow> 'a iq_router_scheme \<Rightarrow> 'a iq_router_scheme" where
  "push_vc_alloc input vc r = r\<lparr>vc_alloc_vcs := vc_alloc_vcs r @ [(-1, (input, vc), -1)]\<rparr>"

definition push_sw_hold :: "nat \<Rightarrow> nat \<Rightarrow> 'a iq_router_scheme \<Rightarrow> 'a iq_router_scheme" where
  "push_sw_hold input vc r = r\<lparr>sw_hold_vcs := sw_hold_vcs r @ [(-1, (input, vc), -1)]\<rparr>"

definition push_sw_alloc :: "nat \<Rightarrow> nat \<Rightarrow> 'a iq_router_scheme \<Rightarrow> 'a iq_router_scheme" where
  "push_sw_alloc input vc r = r\<lparr>sw_alloc_vcs := sw_alloc_vcs r @ [(-1, (input, vc), -1)]\<rparr>"

subsection \<open>Loops over the queues\<close>

text \<open>\<open>for\<close> over the entries of a queue that have no time yet, which rewrites them in place.\<close>

fun fresh_loop ::
  "(int \<times> 'i \<Rightarrow> 's \<Rightarrow> ((int \<times> 'i) \<times> 's) option) \<Rightarrow> (int \<times> 'i) list \<Rightarrow> 's
     \<Rightarrow> ((int \<times> 'i) list \<times> 's) option" where
  "fresh_loop body [] s = Some ([], s)"
| "fresh_loop body (it # its) s =
     (if fst it \<ge> 0 then Some (it # its, s)
      else case body it s of
             None \<Rightarrow> None
           | Some (it', s1) \<Rightarrow> map_option (apfst ((#) it')) (fresh_loop body its s1))"

text \<open>\<open>for\<close> over the entries that are due; it asserts that an entry has been given a time.\<close>

fun due_loop ::
  "int \<Rightarrow> (int \<times> 'i \<Rightarrow> (int \<times> 'i) option) \<Rightarrow> (int \<times> 'i) list \<Rightarrow> (int \<times> 'i) list option" where
  "due_loop now body [] = Some []"
| "due_loop now body (it # its) =
     (if fst it < 0 then None
      else if now < fst it then Some (it # its)
      else case body it of
             None \<Rightarrow> None
           | Some it' \<Rightarrow> map_option ((#) it') (due_loop now body its))"

text \<open>\<open>while(!q.empty())\<close> with \<open>q.front()\<close> at the top and \<open>q.pop_front()\<close> at the end of the body.
  What the body appends to \<open>q\<close> has time -1, where the loop stops, so it visits the entries that
  were there at the start.  \<open>stop\<close> is the test that leaves the loop.\<close>

fun drain_loop ::
  "(int \<Rightarrow> bool) \<Rightarrow> int \<Rightarrow> ('i \<Rightarrow> 's \<Rightarrow> 's option) \<Rightarrow> (int \<times> 'i) list \<Rightarrow> 's \<Rightarrow> 's option" where
  "drain_loop stop now body [] s = Some s"
| "drain_loop stop now body ((time, x) # its) s =
     (if stop time then Some s
      else if time \<noteq> now then None
      else case body x s of None \<Rightarrow> None | Some s1 \<Rightarrow> drain_loop stop now body its s1)"

abbreviation not_due :: "int \<Rightarrow> int \<Rightarrow> bool" where
  "not_due now time \<equiv> time < 0 \<or> now < time"

lemma fresh_loop_invariant:
  assumes "fresh_loop body its s = Some (its', s')" and "P s"
    and "\<And>it s it' s'. it \<in> set its \<Longrightarrow> body it s = Some (it', s') \<Longrightarrow> P s \<Longrightarrow> P s' \<and> h it' = h it"
  shows "P s' \<and> map h its' = map h its"
  using assms
proof (induction its arbitrary: s its')
  case (Cons it its)
  show ?case
  proof (cases "fst it \<ge> 0")
    case True
    with Cons.prems show ?thesis by simp
  next
    case False
    with Cons.prems(1) obtain it1 s1 its1 where step: "body it s = Some (it1, s1)"
      and rest: "fresh_loop body its s1 = Some (its1, s')" and its': "its' = it1 # its1"
      by (auto split: option.splits)
    have here: "P s1 \<and> h it1 = h it" using Cons.prems(3) [OF _ step Cons.prems(2)] by simp
    have "P s' \<and> map h its1 = map h its"
      by (rule Cons.IH [OF rest conjunct1 [OF here]]) (use Cons.prems(3) in \<open>meson list.set_intros(2)\<close>)
    with here show ?thesis by (simp add: its')
  qed
qed simp

lemma due_loop_map:
  assumes "due_loop now body its = Some its'" and "\<And>it it'. body it = Some it' \<Longrightarrow> h it' = h it"
  shows "map h its' = map h its"
  using assms(1) by (induction its arbitrary: its') (auto split: if_splits option.splits dest: assms(2))

subsection \<open>Lookahead over two hops\<close>

text \<open>The VCs of a route set element, or those \<open>_UpdateNOQ\<close> has chosen.\<close>

definition vc_range :: "nat \<Rightarrow> nat \<Rightarrow> set_element \<Rightarrow> 'a iq_router_scheme \<Rightarrow> (nat \<times> nat) option" where
  "vc_range input vc e r =
     (let use_noq = noq r \<and> noq_next_output_port r ! input ! vc \<ge> 0;
          (b, l) = (if use_noq then (noq_next_vc_start r ! input ! vc, noq_next_vc_end r ! input ! vc)
                    else (vc_start e, vc_end e))
      in do {
        assertion (use_noq \<longrightarrow> routing_delay r = 0);
        assertion (0 \<le> b \<and> b < int (vcs r));
        assertion (0 \<le> l \<and> l < int (vcs r));
        assertion (b \<le> l);
        Some (nat b, nat l)
      })"

definition UpdateNOQ ::
  "'a iq_router_scheme router_env \<Rightarrow> nat \<Rightarrow> nat \<Rightarrow> flit \<Rightarrow> 'a iq_router_scheme
     \<Rightarrow> 'a iq_router_scheme option" where
  "UpdateNOQ env input vc f r = do {
     assertion (routing_delay r = 0);
     assertion (f_vc f = int vc);
     assertion (f_head f);
     assertion (length (f_la_route_set f) = 1);
     (let port = output_port (hd (f_la_route_set f)); out = nat port in do {
        assertion (0 \<le> port \<and> out < outputs r);
        (if e_sink env out = None then Some r
         else do {
           nos \<leftarrow> e_look_ahead env out f (e_sink_port env out) [];
           assertion (length nos = 1);
           (let se = hd nos; next_port = output_port se;
                count = (vc_end se - vc_start se + 1) sdiv int (e_sink_outputs env out);
                first = vc_start se + next_port * count;
                last = vc_start se + (next_port + 1) * count - 1
            in do {
              assertion (next_port \<ge> 0);
              assertion (noq_next_output_port r ! input ! vc < 0);
              assertion (0 \<le> first \<and> first < int (vcs r));
              assertion (noq_next_vc_start r ! input ! vc < 0);
              assertion (0 \<le> last \<and> last < int (vcs r));
              assertion (noq_next_vc_end r ! input ! vc < 0);
              assertion (first \<le> last);
              Some (r\<lparr>noq_next_output_port := put2 input vc next_port (noq_next_output_port r),
                      noq_next_vc_start := put2 input vc first (noq_next_vc_start r),
                      noq_next_vc_end := put2 input vc last (noq_next_vc_end r)\<rparr>)
            })
         })
      })
   }"

subsection \<open>Input queuing\<close>

text \<open>A head flit at the front of a VC starts its way through the pipeline.\<close>

definition start_packet ::
  "'a iq_router_scheme router_env \<Rightarrow> bool \<Rightarrow> nat \<Rightarrow> nat \<Rightarrow> flit \<Rightarrow> 'a iq_router_scheme
     \<Rightarrow> 'a iq_router_scheme option" where
  "start_packet env vca input vc f r =
     (if routing_delay r \<noteq> 0
      then Some (push_route input vc (upd_buf input (Buffer_SetState vc routing) r))
      else
        let r1 = upd_buf input (Buffer_SetState vc vc_alloc \<circ>
                   Buffer_SetRouteSet vc (Some (f_la_route_set f))) r;
            r2 = (if speculative r then push_sw_alloc input vc r1 else r1);
            r3 = (if vca then push_vc_alloc input vc r2 else r2)
        in if noq r then UpdateNOQ env input vc f r3 else Some r3)"

text \<open>\<open>FrontFlit(vc) == f\<close> for the flit just added: it is the only one.\<close>

definition queue_flit ::
  "'a iq_router_scheme router_env \<Rightarrow> bool \<Rightarrow> int \<Rightarrow> nat \<times> flit \<Rightarrow> 'a iq_router_scheme
     \<Rightarrow> 'a iq_router_scheme option" where
  "queue_flit env vca now x r =
     (let input = fst x; f = snd x; vc = nat (f_vc f) in do {
        assertion (input < inputs r);
        assertion (0 \<le> f_vc f \<and> vc < vcs r);
        b \<leftarrow> Buffer_AddFlit now vc f (buf r ! input);
        (let r1 = upd_buf input (\<lambda>_. b) r; alone = (VC_GetOccupancy vc b = 1) in
         if GetState vc b = idle then do {
           assertion alone;
           assertion (f_head f);
           assertion (switch_hold_vc r ! hold_index input vc r \<noteq> int vc);
           g \<leftarrow> Buffer_FrontFlit vc b;
           start_packet env vca input vc g r1
         }
         else if GetState vc b = active \<and> alone
         then Some (if switch_hold_vc r ! hold_index input vc r = int vc
                    then push_sw_hold input vc r1 else push_sw_alloc input vc r1)
         else Some r1)
      })"

fun process_credits ::
  "int \<Rightarrow> (int \<times> credit \<times> nat) list \<Rightarrow> 'a iq_router_scheme \<Rightarrow> 'a iq_router_scheme option" where
  "process_credits now [] r = Some (r\<lparr>proc_credits := []\<rparr>)"
| "process_credits now ((time, c, output) # cs) r =
     (if now < time then Some (r\<lparr>proc_credits := (time, c, output) # cs\<rparr>)
      else if \<not> output < outputs r then None
      else case ProcessCredit now c (next_buf r ! output) of
             None \<Rightarrow> None
           | Some d \<Rightarrow> process_credits now cs (r\<lparr>next_buf := (next_buf r)[output := d]\<rparr>))"

definition IQ_InputQueuing ::
  "'a iq_router_scheme router_env \<Rightarrow> bool \<Rightarrow> int \<Rightarrow> 'a iq_router_scheme
     \<Rightarrow> 'a iq_router_scheme option" where
  "IQ_InputQueuing env vca now r = do {
     r1 \<leftarrow> foldM (queue_flit env vca now) (in_queue_flits r) r;
     process_credits now (proc_credits r1) (r1\<lparr>in_queue_flits := []\<rparr>)
   }"

text \<open>FLOV writes down when a flit came in.\<close>

definition flov_queue_flit ::
  "'a iq_router_scheme router_env \<Rightarrow> bool \<Rightarrow> int \<Rightarrow> nat \<times> flit \<Rightarrow> 'a iq_router_scheme
     \<Rightarrow> 'a iq_router_scheme option" where
  "flov_queue_flit env vca now x = queue_flit env vca now (fst x, (snd x)\<lparr>f_rtime := now\<rparr>)"

definition FLOV_InputQueuing ::
  "'a iq_router_scheme router_env \<Rightarrow> bool \<Rightarrow> int \<Rightarrow> 'a iq_router_scheme
     \<Rightarrow> 'a iq_router_scheme option" where
  "FLOV_InputQueuing env vca now r = do {
     r1 \<leftarrow> foldM (flov_queue_flit env vca now) (in_queue_flits r) r;
     process_credits now (proc_credits r1) (r1\<lparr>in_queue_flits := []\<rparr>)
   }"

subsection \<open>Routing\<close>

definition begin_route ::
  "int \<Rightarrow> int \<times> nat \<times> nat \<Rightarrow> 'a iq_router_scheme \<Rightarrow> ((int \<times> nat \<times> nat) \<times> 'a iq_router_scheme) option" where
  "begin_route now it r =
     (case it of (time, input, vc) \<Rightarrow> do {
        f \<leftarrow> front_at (\<lambda>s. s = routing) input vc r;
        assertion (f_head f);
        Some ((now + routing_delay r - 1, input, vc), r)
      })"

definition RouteEvaluate :: "int \<Rightarrow> 'a iq_router_scheme \<Rightarrow> 'a iq_router_scheme option" where
  "RouteEvaluate now r = do {
     assertion (routing_delay r \<noteq> 0);
     (q, r1) \<leftarrow> fresh_loop (begin_route now) (route_vcs r) r;
     Some (r1\<lparr>route_vcs := q\<rparr>)
   }"

text \<open>The routing function and the state change; \<open>check\<close> is what the class does in between.\<close>

definition finish_route ::
  "('a iq_router_scheme \<Rightarrow> flit \<Rightarrow> output_set \<Rightarrow> bool) \<Rightarrow> (flit \<Rightarrow> flit)
     \<Rightarrow> 'a iq_router_scheme router_env \<Rightarrow> bool \<Rightarrow> nat \<times> nat \<Rightarrow> 'a iq_router_scheme
     \<Rightarrow> 'a iq_router_scheme option" where
  "finish_route check mark env vca iv r =
     (case iv of (input, vc) \<Rightarrow> do {
        f \<leftarrow> front_at (\<lambda>s. s = routing) input vc r;
        assertion (f_head f);
        os \<leftarrow> GetRouteSet vc (buf r ! input);
        os' \<leftarrow> e_route env r f input os;
        b \<leftarrow> Buffer_Route vc (\<lambda>_. os') (buf r ! input);
        assertion (check r f os');
        (let r1 = upd_buf input (\<lambda>_. write_front vc mark (Buffer_SetState vc vc_alloc b)) r;
             r2 = (if speculative r then push_sw_alloc input vc r1 else r1);
             r3 = (if vca then push_vc_alloc input vc r2 else r2)
         in Some (pop_route r3))
      })"

definition IQ_RouteUpdate ::
  "'a iq_router_scheme router_env \<Rightarrow> bool \<Rightarrow> int \<Rightarrow> 'a iq_router_scheme
     \<Rightarrow> 'a iq_router_scheme option" where
  "IQ_RouteUpdate env vca now r = do {
     assertion (routing_delay r \<noteq> 0);
     drain_loop (not_due now) now (finish_route (\<lambda>_ _ _. True) id env vca) (route_vcs r) r
   }"

text \<open>FLOV stops the run when a packet with a single choice is routed to its destination router and
  that router is not known to be on.\<close>

definition last_hop_on :: "'a iq_router_scheme router_env \<Rightarrow> 'a iq_router_scheme \<Rightarrow> flit \<Rightarrow> output_set \<Rightarrow> bool" where
  "last_hop_on env r f os \<longleftrightarrow>
     f_dest f \<noteq> int (rid r) \<and> length os = 1 \<longrightarrow>
       (let port = output_port (hd os); out = nat port in
        0 \<le> port \<and> out < outputs r \<and>
        (case e_sink env out of
           None \<Rightarrow> False
         | Some s \<Rightarrow> f_dest f = int s \<longrightarrow> neighbor_states r ! out = power_on))"

definition FLOV_RouteUpdate ::
  "'a iq_router_scheme router_env \<Rightarrow> bool \<Rightarrow> int \<Rightarrow> 'a iq_router_scheme
     \<Rightarrow> 'a iq_router_scheme option" where
  "FLOV_RouteUpdate env vca now r = do {
     assertion (routing_delay r \<noteq> 0);
     drain_loop (not_due now) now
       (finish_route (last_hop_on env) (\<lambda>f. f\<lparr>f_rtime := now\<rparr>) env vca) (route_vcs r) r
   }"

end
