(* ===== verification/VC_Allocation.thy ===== *)
theory VC_Allocation
  imports Pipeline
begin

text \<open>
  The VC allocation stage: \<open>_VCAllocEvaluate\<close> and \<open>_VCAllocUpdate\<close> of \<open>IQRouter\<close>
  (src/booksim2/src/routers/iq_router.cpp) and \<open>_VCAllocUpdate\<close> of \<open>FLOVRouter\<close>
  (flov_router.cpp), which sends a packet back to routing when the router it was going to is
  draining, asleep or waking up, or when it has waited for 300 cycles.
\<close>

subsection \<open>Requests\<close>

text \<open>What the loops gather for one entry: is a VC free, is one with credit, is there shared space
  left behind a full one; and the allocator.\<close>

record 's request_state =
  rq_elig :: bool
  rq_cred :: bool
  rq_reserved :: bool
  rq_alloc :: 's

definition request_vc ::
  "'s router_alloc \<Rightarrow> int \<Rightarrow> 'a iq_router_scheme \<Rightarrow> nat \<Rightarrow> nat \<Rightarrow> nat \<Rightarrow> int \<Rightarrow> nat
     \<Rightarrow> 's request_state \<Rightarrow> 's request_state option" where
  "request_vc C now r input vc out pri out_vc s =
     (let d = next_buf r ! out; lowered = vc_prioritize_empty r \<and> \<not> IsEmptyFor out_vc d in do {
        assertion (lowered \<longrightarrow> pri \<ge> 0);
        (if \<not> IsAvailableFor out_vc d then Some s
         else do {
           full \<leftarrow> (if vc_busy_when_full r then IsFullFor now out_vc d else Some False);
           (if full
            then do {
              b \<leftarrow> BS_IsFull d;
              Some (s\<lparr>rq_elig := True, rq_reserved := rq_reserved s \<or> \<not> b\<rparr>)
            }
            else do {
              a \<leftarrow> alloc_AddRequest C (input_and_vc input vc r) (out * vcs r + out_vc) 0
                     (if lowered then pri + int_min else pri) (GetPriority vc (buf r ! input))
                     (rq_alloc s);
              Some (s\<lparr>rq_elig := True, rq_cred := True, rq_alloc := a\<rparr>)
            })
         })
      })"

definition request_element ::
  "'s router_alloc \<Rightarrow> int \<Rightarrow> 'a iq_router_scheme \<Rightarrow> nat \<Rightarrow> nat \<Rightarrow> set_element
     \<Rightarrow> 's request_state \<Rightarrow> 's request_state option" where
  "request_element C now r input vc e s =
     (let out = nat (output_port e) in do {
        assertion (0 \<le> output_port e \<and> out < outputs r);
        (b, l) \<leftarrow> vc_range input vc e r;
        foldM (request_vc C now r input vc out (se_pri e)) [b..<Suc l] s
      })"

definition vc_request ::
  "'s router_alloc \<Rightarrow> int \<Rightarrow> 'a iq_router_scheme \<Rightarrow> int \<times> (nat \<times> nat) \<times> int \<Rightarrow> 's
     \<Rightarrow> ((int \<times> (nat \<times> nat) \<times> int) \<times> 's) option" where
  "vc_request C now r it a =
     (case it of (time, (input, vc), res) \<Rightarrow> do {
        assertion (res = -1);
        f \<leftarrow> front_at (\<lambda>s. s = vc_alloc) input vc r;
        assertion (f_head f);
        os \<leftarrow> GetRouteSet vc (buf r ! input);
        assertion (noq r \<longrightarrow> length os = 1);
        s \<leftarrow> foldM (request_element C now r input vc) os
               \<lparr>rq_elig = False, rq_cred = False, rq_reserved = False, rq_alloc = a\<rparr>;
        (let stall = (if \<not> rq_elig s then STALL_BUFFER_BUSY
                      else if vc_busy_when_full r \<and> \<not> rq_cred s
                      then (if rq_reserved s then STALL_BUFFER_RESERVED else STALL_BUFFER_FULL)
                      else res)
         in Some ((time, (input, vc), stall), rq_alloc s))
      })"

subsection \<open>Grants\<close>

definition vc_grant ::
  "'s router_alloc \<Rightarrow> int \<Rightarrow> 'a iq_router_scheme \<Rightarrow> int \<times> (nat \<times> nat) \<times> int \<Rightarrow> 's
     \<Rightarrow> ((int \<times> (nat \<times> nat) \<times> int) \<times> 's) option" where
  "vc_grant C now r it a =
     (case it of (_, (input, vc), res) \<Rightarrow> let time = now + vc_alloc_delay r - 1 in do {
        assertion (input < inputs r \<and> vc < vcs r);
        (if res < -1 then Some ((time, (input, vc), res), a)
         else do {
           assertion (res = -1);
           f \<leftarrow> front_at (\<lambda>s. s = vc_alloc) input vc r;
           assertion (f_head f);
           g \<leftarrow> alloc_OutputAssigned C (input_and_vc input vc r) a;
           assertion (g \<ge> 0 \<longrightarrow> nat g div vcs r < outputs r \<and> nat g mod vcs r < vcs r);
           Some ((time, (input, vc), if g \<ge> 0 then g else STALL_BUFFER_CONFLICT), a)
         })
      })"

text \<open>A grant of an earlier cycle is checked again when it is due.\<close>

definition vc_recheck ::
  "int \<Rightarrow> 'a iq_router_scheme \<Rightarrow> int \<times> (nat \<times> nat) \<times> int
     \<Rightarrow> (int \<times> (nat \<times> nat) \<times> int) option" where
  "vc_recheck now r it =
     (case it of (time, (input, vc), res) \<Rightarrow> do {
        assertion (res \<noteq> -1);
        (if res < 0 then Some it
         else let out = nat res div vcs r; out_vc = nat res mod vcs r; d = next_buf r ! out in do {
           assertion (out < outputs r \<and> out_vc < vcs r);
           f \<leftarrow> front_at (\<lambda>s. s = vc_alloc) input vc r;
           assertion (f_head f);
           (if \<not> IsAvailableFor out_vc d then Some (time, (input, vc), STALL_BUFFER_BUSY)
            else do {
              full \<leftarrow> (if vc_busy_when_full r then IsFullFor now out_vc d else Some False);
              (if full
               then do {
                 b \<leftarrow> BS_IsFull d;
                 Some (time, (input, vc), if b then STALL_BUFFER_FULL else STALL_BUFFER_RESERVED)
               }
               else Some it)
            })
         })
      })"

definition VCAllocEvaluate ::
  "'s router_alloc \<Rightarrow> int \<Rightarrow> 'a iq_router_scheme \<times> 's \<Rightarrow> ('a iq_router_scheme \<times> 's) option" where
  "VCAllocEvaluate C now ra =
     (case ra of (r, a) \<Rightarrow> do {
        (q1, a1) \<leftarrow> fresh_loop (vc_request C now r) (vc_alloc_vcs r) a;
        a2 \<leftarrow> alloc_Allocate C a1;
        (q2, a3) \<leftarrow> fresh_loop (vc_grant C now r) q1 a2;
        q3 \<leftarrow> (if vc_alloc_delay r \<le> 1 then Some q2 else due_loop now (vc_recheck now r) q2);
        Some (r\<lparr>vc_alloc_vcs := q3\<rparr>, a3)
      })"

subsection \<open>Taking the VC\<close>

text \<open>The checks at the top of \<open>_VCAllocUpdate\<close>.\<close>

definition vc_entry_front :: "nat \<Rightarrow> nat \<Rightarrow> int \<Rightarrow> 'a iq_router_scheme \<Rightarrow> flit option" where
  "vc_entry_front input vc res r = do {
     assertion (res \<noteq> -1);
     f \<leftarrow> front_at (\<lambda>s. s = vc_alloc) input vc r;
     assertion (f_head f);
     Some f
   }"

definition take_vc ::
  "nat \<Rightarrow> nat \<Rightarrow> nat \<Rightarrow> nat \<Rightarrow> 'a iq_router_scheme \<Rightarrow> 'a iq_router_scheme option" where
  "take_vc input vc out out_vc r = do {
     d \<leftarrow> TakeBuffer out_vc (int (input * vcs r + vc)) (next_buf r ! out);
     (let r1 = upd_buf input (Buffer_SetState vc active \<circ>
                 Buffer_SetOutput vc (int out) (int out_vc)) (r\<lparr>next_buf := (next_buf r)[out := d]\<rparr>)
      in Some (if \<not> speculative r then push_sw_alloc input vc r1 else r1))
   }"

definition pop_vc_alloc :: "'a iq_router_scheme \<Rightarrow> 'a iq_router_scheme" where
  "pop_vc_alloc r = r\<lparr>vc_alloc_vcs := tl (vc_alloc_vcs r)\<rparr>"

definition iq_vc_update ::
  "(nat \<times> nat) \<times> int \<Rightarrow> 'a iq_router_scheme \<Rightarrow> 'a iq_router_scheme option" where
  "iq_vc_update x r =
     (case x of ((input, vc), res) \<Rightarrow> do {
        f \<leftarrow> vc_entry_front input vc res r;
        r1 \<leftarrow> (if res \<ge> 0
               then do {
                 assertion (nat res div vcs r < outputs r);
                 take_vc input vc (nat res div vcs r) (nat res mod vcs r) r
               }
               else Some (push_vc_alloc input vc r));
        Some (pop_vc_alloc r1)
      })"

definition IQ_VCAllocUpdate :: "int \<Rightarrow> 'a iq_router_scheme \<Rightarrow> 'a iq_router_scheme option" where
  "IQ_VCAllocUpdate now r = drain_loop (not_due now) now iq_vc_update (vc_alloc_vcs r) r"

subsection \<open>Back to routing\<close>

text \<open>The router behind \<open>out\<close> is not on: it is in the set of states, and it is not one of the bottom
  row, where the memory controllers are and no router is gated.\<close>

definition behind_gated ::
  "power_state set \<Rightarrow> 'a iq_router_scheme router_env \<Rightarrow> 'a iq_router_scheme \<Rightarrow> nat \<Rightarrow> bool" where
  "behind_gated S env r out \<longleftrightarrow>
     (case e_sink env out of
        None \<Rightarrow> False
      | Some s \<Rightarrow> s < e_nodes env - e_k env \<and> downstream_states r ! out \<in> S)"

definition not_on :: "power_state set" where
  "not_on = {draining, wakeup, power_off}"

text \<open>The loop that looks for a choice whose router is on.  \<open>delete_route\<close> is never reset, so the
  choices behind one that is deleted are deleted as well.  The result is \<open>setlist\<close>.\<close>

fun usable_routes ::
  "'a iq_router_scheme router_env \<Rightarrow> 'a iq_router_scheme \<Rightarrow> bool \<Rightarrow> output_set \<Rightarrow> output_set option" where
  "usable_routes env r delete_route [] = Some []"
| "usable_routes env r delete_route (e # es) =
     (if \<not> (0 \<le> output_port e \<and> nat (output_port e) < outputs r) then None
      else let del = delete_route \<or> behind_gated not_on env r (nat (output_port e))
           in if del then usable_routes env r del es
              else map_option ((#) e) (usable_routes env r del es))"

text \<open>\<open>erase\<close> without a \<open>break\<close>: the loop goes on one entry further than the one erased, and so
  skips the one that has moved up.\<close>

fun erase_skipping ::
  "nat \<times> nat \<Rightarrow> (int \<times> (nat \<times> nat) \<times> int) list \<Rightarrow> (int \<times> (nat \<times> nat) \<times> int) list" where
  "erase_skipping iv [] = []"
| "erase_skipping iv (x # xs) =
     (if fst (snd x) = iv
      then (case xs of [] \<Rightarrow> [] | y # ys \<Rightarrow> y # erase_skipping iv ys)
      else x # erase_skipping iv xs)"

fun erase_first ::
  "nat \<times> nat \<Rightarrow> (int \<times> (nat \<times> nat) \<times> int) list \<Rightarrow> (int \<times> (nat \<times> nat) \<times> int) list" where
  "erase_first iv [] = []"
| "erase_first iv (x # xs) = (if fst (snd x) = iv then xs else x # erase_first iv xs)"

definition to_routing :: "nat \<Rightarrow> nat \<Rightarrow> 'a iq_router_scheme \<Rightarrow> 'a iq_router_scheme" where
  "to_routing input vc r = push_route input vc (upd_buf input (Buffer_SetState vc routing) r)"

definition back_to_route ::
  "nat \<Rightarrow> nat \<Rightarrow> 'a iq_router_scheme \<Rightarrow> 'a iq_router_scheme option" where
  "back_to_route input vc r = do {
     b \<leftarrow> ClearRouteSet vc (buf r ! input);
     Some (to_routing input vc (upd_buf input (\<lambda>_. b) r))
   }"

definition unspeculate ::
  "((int \<times> (nat \<times> nat) \<times> int) list \<Rightarrow> (int \<times> (nat \<times> nat) \<times> int) list)
     \<Rightarrow> 'a iq_router_scheme \<Rightarrow> 'a iq_router_scheme" where
  "unspeculate erase r =
     (if speculative r then r\<lparr>sw_alloc_vcs := erase (sw_alloc_vcs r)\<rparr> else r)"

definition flov_vc_granted ::
  "'a iq_router_scheme router_env \<Rightarrow> nat \<Rightarrow> nat \<Rightarrow> nat \<Rightarrow> nat \<Rightarrow> 'a iq_router_scheme
     \<Rightarrow> 'a iq_router_scheme option" where
  "flov_vc_granted env input vc out out_vc r =
     (if behind_gated not_on env r out
      then map_option (unspeculate (erase_skipping (input, vc))) (back_to_route input vc r)
      else take_vc input vc out out_vc r)"

definition flov_vc_refused ::
  "'a iq_router_scheme router_env \<Rightarrow> int \<Rightarrow> nat \<Rightarrow> nat \<Rightarrow> flit \<Rightarrow> 'a iq_router_scheme
     \<Rightarrow> 'a iq_router_scheme option" where
  "flov_vc_refused env now input vc f r = do {
     os \<leftarrow> GetRouteSet vc (buf r ! input);
     usable \<leftarrow> usable_routes env r False os;
     (if usable = []
      then map_option (unspeculate (erase_skipping (input, vc))) (back_to_route input vc r)
      else if now - f_rtime f = 300
      then Some (unspeculate (erase_first (input, vc)) (to_routing input vc r))
      else Some (push_vc_alloc input vc r))
   }"

definition flov_vc_update ::
  "'a iq_router_scheme router_env \<Rightarrow> int \<Rightarrow> (nat \<times> nat) \<times> int \<Rightarrow> 'a iq_router_scheme
     \<Rightarrow> 'a iq_router_scheme option" where
  "flov_vc_update env now x r =
     (case x of ((input, vc), res) \<Rightarrow> do {
        f \<leftarrow> vc_entry_front input vc res r;
        r1 \<leftarrow> (if res \<ge> 0
               then do {
                 assertion (nat res div vcs r < outputs r);
                 flov_vc_granted env input vc (nat res div vcs r) (nat res mod vcs r) r
               }
               else flov_vc_refused env now input vc f r);
        Some (pop_vc_alloc r1)
      })"

definition FLOV_VCAllocUpdate ::
  "'a iq_router_scheme router_env \<Rightarrow> int \<Rightarrow> 'a iq_router_scheme \<Rightarrow> 'a iq_router_scheme option" where
  "FLOV_VCAllocUpdate env now r =
     drain_loop (not_due now) now (flov_vc_update env now) (vc_alloc_vcs r) r"

end
