(* ===== verification/Switching.thy ===== *)
theory Switching
  imports VC_Allocation Bypass
begin

text \<open>
  Held switch connections: \<open>_SWHoldEvaluate\<close> and \<open>_SWHoldUpdate\<close> of \<open>IQRouter\<close>
  (src/booksim2/src/routers/iq_router.cpp) and the update \<open>FLOVRouter\<close> overrides
  (flov_router.cpp), with what a flit that leaves its buffer takes along.  An input \<open>i\<close> of the router is
  \<open>_input_speedup\<close> inputs of the switch, an output \<open>_output_speedup\<close> outputs of it; they are
  called expanded.
\<close>

subsection \<open>A flit leaves its buffer\<close>

text \<open>The lookahead route of a head flit, from the two-hop lookahead where that is used.\<close>

definition look_ahead ::
  "'a iq_router_scheme router_env \<Rightarrow> nat \<Rightarrow> nat \<Rightarrow> nat \<Rightarrow> flit \<Rightarrow> 'a iq_router_scheme
     \<Rightarrow> (flit \<times> 'a iq_router_scheme) option" where
  "look_ahead env input vc out f r =
     (if \<not> (routing_delay r = 0 \<and> f_head f) then Some (f, r)
      else if e_sink env out = None then Some (f\<lparr>f_la_route_set := []\<rparr>, r)
      else if noq r then
        (let port = noq_next_output_port r ! input ! vc; b = noq_next_vc_start r ! input ! vc;
             l = noq_next_vc_end r ! input ! vc in do {
           assertion (port \<ge> 0);
           assertion (0 \<le> b \<and> b < int (vcs r));
           assertion (0 \<le> l \<and> l < int (vcs r));
           Some (f\<lparr>f_la_route_set := AddRange port b l 0 []\<rparr>,
                 r\<lparr>noq_next_output_port := put2 input vc (-1) (noq_next_output_port r),
                   noq_next_vc_start := put2 input vc (-1) (noq_next_vc_start r),
                   noq_next_vc_end := put2 input vc (-1) (noq_next_vc_end r)\<rparr>)
         })
      else do {
        os \<leftarrow> e_look_ahead env out f (e_sink_port env out) (f_la_route_set f);
        Some (f\<lparr>f_la_route_set := os\<rparr>, r)
      })"

text \<open>\<open>_out_queue_credits[input]->vc.insert(vc)\<close>, with a new credit when there is none.\<close>

definition add_credit :: "nat \<Rightarrow> nat \<Rightarrow> credit omap \<Rightarrow> credit omap" where
  "add_credit input vc m =
     (let q = om_insert input Credit_New m; c = the (map_of q input)
      in om_put input (c\<lparr>c_vc := os_insert vc (c_vc c)\<rparr>) q)"

text \<open>From \<open>RemoveFlit\<close> to the credit; \<open>adv\<close> is what the class does to the flit.  The result is the
  flit as it goes into the crossbar.\<close>

definition depart ::
  "(flit \<Rightarrow> flit option) \<Rightarrow> 'a iq_router_scheme router_env \<Rightarrow> int \<Rightarrow> nat \<Rightarrow> nat \<Rightarrow> nat \<Rightarrow> nat \<Rightarrow> nat \<Rightarrow> nat
     \<Rightarrow> 'a iq_router_scheme \<Rightarrow> (flit \<times> 'a iq_router_scheme) option" where
  "depart adv env now input vc out out_vc ein eout r = do {
     (f, b) \<leftarrow> Buffer_RemoveFlit vc (buf r ! input);
     g \<leftarrow> adv (f\<lparr>f_hops := f_hops f + 1, f_vc := int out_vc\<rparr>);
     (h, r1) \<leftarrow> look_ahead env input vc out g (upd_buf input (\<lambda>_. b) r);
     d \<leftarrow> SendingFlit now h (next_buf r1 ! out);
     Some (h, r1\<lparr>next_buf := (next_buf r1)[out := d],
                 crossbar_flits := crossbar_flits r1 @ [(-1, h, ein, eout)],
                 out_queue_credits := add_credit input vc (out_queue_credits r1)\<rparr>)
   }"

text \<open>FLOV counts a head flit that is off the shortest path.  A flit that came in from a terminal has
  no previous router, and that test is then skipped: it fails for the router itself.\<close>

definition flov_advance ::
  "'a iq_router_scheme router_env \<Rightarrow> nat \<Rightarrow> 'a iq_router_scheme \<Rightarrow> flit \<Rightarrow> flit option" where
  "flov_advance env input r f =
     (if \<not> f_head f then Some f
      else do {
        prev \<leftarrow> (if input < 4 then e_sink env input else Some (rid r));
        Some (if f_hops f \<ge> shortest_hops (e_k env) (f_src f) (f_dest f) \<or>
                 detour (e_k env) (f_src f) (f_dest f) (int prev) (int (rid r))
              then f\<lparr>f_misroute_hops := f_misroute_hops f + 1\<rparr> else f)
      })"

text \<open>The connection of a switch input that is held for the rest of a packet.\<close>

definition set_hold :: "nat \<Rightarrow> nat \<Rightarrow> nat \<Rightarrow> 'a iq_router_scheme \<Rightarrow> 'a iq_router_scheme" where
  "set_hold ein eout vc r = r\<lparr>switch_hold_vc := (switch_hold_vc r)[ein := int vc],
     switch_hold_in := (switch_hold_in r)[ein := int eout],
     switch_hold_out := (switch_hold_out r)[eout := int ein]\<rparr>"

definition cancel_hold :: "nat \<Rightarrow> nat \<Rightarrow> 'a iq_router_scheme \<Rightarrow> 'a iq_router_scheme" where
  "cancel_hold ein eout r = r\<lparr>switch_hold_vc := (switch_hold_vc r)[ein := -1],
     switch_hold_in := (switch_hold_in r)[ein := -1],
     switch_hold_out := (switch_hold_out r)[eout := -1]\<rparr>"

text \<open>What is next for the VC after flit \<open>f\<close> has left it: nothing, the next packet, or \<open>rest\<close> for the
  rest of this one.\<close>

definition next_in_vc ::
  "'a iq_router_scheme router_env \<Rightarrow> bool \<Rightarrow> (flit \<Rightarrow> flit) \<Rightarrow> nat \<Rightarrow> nat \<Rightarrow> flit
     \<Rightarrow> ('a iq_router_scheme \<Rightarrow> 'a iq_router_scheme) \<Rightarrow> ('a iq_router_scheme \<Rightarrow> 'a iq_router_scheme)
     \<Rightarrow> 'a iq_router_scheme \<Rightarrow> 'a iq_router_scheme option" where
  "next_in_vc env vca mark input vc f release rest r =
     (case Buffer_FrontFlit vc (buf r ! input) of
        None \<Rightarrow> Some (if f_tail f then upd_buf input (Buffer_SetState vc idle) (release r)
                       else release r)
      | Some nf \<Rightarrow> do {
          assertion (f_vc nf = int vc);
          (if f_tail f
           then do {
             assertion (f_head nf);
             start_packet env vca input vc nf
               (if routing_delay r \<noteq> 0 then upd_buf input (write_front vc mark) (release r) else release r)
           }
           else Some (rest r))
        })"

subsection \<open>Held connections\<close>

definition evaluate_hold ::
  "int \<Rightarrow> int \<times> (nat \<times> nat) \<times> int \<Rightarrow> 'a iq_router_scheme
     \<Rightarrow> ((int \<times> (nat \<times> nat) \<times> int) \<times> 'a iq_router_scheme) option" where
  "evaluate_hold now it r =
     (case it of (_, (input, vc), res) \<Rightarrow> do {
        assertion (res = -1);
        f \<leftarrow> front_at (\<lambda>s. s = active) input vc r;
        assertion (switch_hold_vc r ! hold_index input vc r = int vc);
        (let port = GetOutputPort vc (buf r ! input); out_vc = GetOutputVC vc (buf r ! input);
             eout = port * int (output_speedup r) + int (input mod output_speedup r) in do {
           assertion (0 \<le> port \<and> nat port < outputs r);
           assertion (0 \<le> out_vc \<and> nat out_vc < vcs r);
           assertion (switch_hold_in r ! hold_index input vc r = eout);
           full \<leftarrow> IsFullFor now (nat out_vc) (next_buf r ! nat port);
           (if full
            then do {
              b \<leftarrow> BS_IsFull (next_buf r ! nat port);
              Some ((now, (input, vc), if b then STALL_BUFFER_FULL else STALL_BUFFER_RESERVED), r)
            }
            else Some ((now, (input, vc), eout), r))
         })
      })"

definition SWHoldEvaluate :: "int \<Rightarrow> 'a iq_router_scheme \<Rightarrow> 'a iq_router_scheme option" where
  "SWHoldEvaluate now r = do {
     assertion (hold_switch_for_packet r);
     (q, r1) \<leftarrow> fresh_loop (evaluate_hold now) (sw_hold_vcs r) r;
     Some (r1\<lparr>sw_hold_vcs := q\<rparr>)
   }"

text \<open>Is there room in output buffer \<open>n\<close>?  A size below -1 is a large number as \<open>size_t\<close>.\<close>

definition output_room :: "nat \<Rightarrow> 'a iq_router_scheme \<Rightarrow> bool option" where
  "output_room n r =
     (if output_buffer_size r = -1 then Some True
      else if n < length (output_buffer r)
      then Some (output_buffer_size r < 0 \<or> int (length (output_buffer r ! n)) < output_buffer_size r)
      else None)"

text \<open>The code asks for room in \<open>_output_buffer[expanded_output]\<close>, where the vector has an entry per
  output.\<close>

definition use_hold ::
  "(flit \<Rightarrow> flit option) \<Rightarrow> (flit \<Rightarrow> flit) \<Rightarrow> 'a iq_router_scheme router_env \<Rightarrow> bool \<Rightarrow> int
     \<Rightarrow> nat \<Rightarrow> nat \<Rightarrow> nat \<Rightarrow> nat \<Rightarrow> 'a iq_router_scheme \<Rightarrow> 'a iq_router_scheme option" where
  "use_hold adv mark env vca now input vc ein eout r =
     (let out = eout div output_speedup r; out_vc = GetOutputVC vc (buf r ! input) in do {
        assertion (switch_hold_in r ! ein = int eout);
        assertion (switch_hold_out r ! eout = int ein);
        assertion (out < outputs r);
        assertion (GetOutputPort vc (buf r ! input) = int out);
        assertion (0 \<le> out_vc \<and> nat out_vc < vcs r);
        (f, r1) \<leftarrow> depart adv env now input vc out (nat out_vc) ein eout r;
        next_in_vc env vca mark input vc f (cancel_hold ein eout) (push_sw_hold input vc) r1
      })"

definition lose_hold ::
  "nat \<Rightarrow> nat \<Rightarrow> nat \<Rightarrow> int \<Rightarrow> 'a iq_router_scheme \<Rightarrow> 'a iq_router_scheme option" where
  "lose_hold input vc ein res r = do {
     no_room \<leftarrow> (if res = STALL_BUFFER_FULL \<or> res = STALL_BUFFER_RESERVED then Some True
                 else if res < 0 then None
                 else map_option Not (output_room (nat res) r));
     assertion no_room;
     assertion (switch_hold_in r ! ein \<ge> 0);
     Some (push_sw_alloc input vc (cancel_hold ein (nat (switch_hold_in r ! ein)) r))
   }"

definition pop_sw_hold :: "'a iq_router_scheme \<Rightarrow> 'a iq_router_scheme" where
  "pop_sw_hold r = r\<lparr>sw_hold_vcs := tl (sw_hold_vcs r)\<rparr>"

definition hold_update ::
  "('a iq_router_scheme \<Rightarrow> nat \<Rightarrow> flit \<Rightarrow> flit option) \<Rightarrow> (flit \<Rightarrow> flit)
     \<Rightarrow> 'a iq_router_scheme router_env \<Rightarrow> bool \<Rightarrow> int \<Rightarrow> (nat \<times> nat) \<times> int
     \<Rightarrow> 'a iq_router_scheme \<Rightarrow> 'a iq_router_scheme option" where
  "hold_update adv mark env vca now x r =
     (case x of ((input, vc), res) \<Rightarrow> let ein = hold_index input vc r in do {
        assertion (res \<noteq> -1);
        f \<leftarrow> front_at (\<lambda>s. s = active) input vc r;
        assertion (switch_hold_vc r ! ein = int vc);
        room \<leftarrow> (if res \<ge> 0 then output_room (nat res) r else Some False);
        r1 \<leftarrow> (if room then use_hold (adv r input) mark env vca now input vc ein (nat res) r
               else lose_hold input vc ein res r);
        Some (pop_sw_hold r1)
      })"

definition IQ_SWHoldUpdate ::
  "'a iq_router_scheme router_env \<Rightarrow> bool \<Rightarrow> int \<Rightarrow> 'a iq_router_scheme \<Rightarrow> 'a iq_router_scheme option" where
  "IQ_SWHoldUpdate env vca now r = do {
     assertion (hold_switch_for_packet r);
     drain_loop (\<lambda>t. t < 0) now (hold_update (\<lambda>_ _. Some) id env vca now) (sw_hold_vcs r) r
   }"

definition FLOV_SWHoldUpdate ::
  "'a iq_router_scheme router_env \<Rightarrow> bool \<Rightarrow> int \<Rightarrow> 'a iq_router_scheme \<Rightarrow> 'a iq_router_scheme option" where
  "FLOV_SWHoldUpdate env vca now r = do {
     assertion (hold_switch_for_packet r);
     drain_loop (\<lambda>t. t < 0) now
       (hold_update (\<lambda>r input. flov_advance env input r) (\<lambda>f. f\<lparr>f_rtime := now\<rparr>) env vca now)
       (sw_hold_vcs r) r
   }"

end
