(* ===== verification/Switch_Allocation.thy ===== *)
theory Switch_Allocation
  imports Switching
begin

text \<open>
  Switch allocation: \<open>_SWAllocAddReq\<close> and \<open>_SWAllocEvaluate\<close> of \<open>IQRouter\<close>
  (src/booksim2/src/routers/iq_router.cpp), with speculative requests and the second look at a grant.
\<close>

record ('v, 'w, 'x) allocators =
  vc_allocator :: "'v option"
  sw_allocator :: 'w
  spec_allocator :: "'x option"

record ('v, 'w, 'x) alloc_methods =
  vc_methods :: "'v router_alloc"
  sw_methods :: "'w router_alloc"
  spec_methods :: "'x router_alloc"

definition bids :: "'a iq_router_scheme \<Rightarrow> vc_state \<Rightarrow> bool" where
  "bids r s \<longleftrightarrow> s = active \<or> (speculative r \<and> s = vc_alloc)"

subsection \<open>Requests\<close>

text \<open>One request per pair of expanded ports: a later VC replaces an earlier one that it supersedes.\<close>

definition add_switch_request ::
  "'s router_alloc \<Rightarrow> 'a iq_router_scheme \<Rightarrow> nat \<Rightarrow> nat \<Rightarrow> nat \<Rightarrow> int \<Rightarrow> 's \<Rightarrow> 's option" where
  "add_switch_request C r ein eout vc prio a = do {
     q \<leftarrow> alloc_ReadRequest C ein eout a;
     (case q of
        None \<Rightarrow> alloc_AddRequest C ein eout (int vc) prio prio a
      | Some req \<Rightarrow>
          if Supersedes (int vc) prio (sr_label req) (sr_in_pri req) (sw_rr_offset r ! ein) (vcs r)
          then do {
            a1 \<leftarrow> alloc_RemoveRequest C ein eout (sr_label req) a;
            alloc_AddRequest C ein eout (int vc) prio prio a1
          }
          else Some a)
   }"

definition SWAllocAddReq ::
  "('v, 'w, 'x) alloc_methods \<Rightarrow> 'a iq_router_scheme \<Rightarrow> nat \<Rightarrow> nat \<Rightarrow> nat
     \<Rightarrow> ('v, 'w, 'x) allocators \<Rightarrow> ('v, 'w, 'x) allocators option" where
  "SWAllocAddReq M r input vc out s =
     (let ein = hold_index input vc r; eout = out * output_speedup r + input mod output_speedup r;
          prio = GetPriority vc (buf r ! input) in do {
        assertion (out < outputs r);
        f \<leftarrow> front_at (bids r) input vc r;
        (if switch_hold_in r ! ein < 0 \<and> switch_hold_out r ! eout < 0
         then
           (if speculative r \<and> GetState vc (buf r ! input) = vc_alloc
            then (case spec_allocator s of
                    Some a \<Rightarrow> map_option (\<lambda>a. s\<lparr>spec_allocator := Some a\<rparr>)
                      (add_switch_request (spec_methods M) r ein eout vc prio a)
                  | None \<Rightarrow> do {
                      assertion (prio \<ge> 0);
                      map_option (\<lambda>a. s\<lparr>sw_allocator := a\<rparr>)
                        (add_switch_request (sw_methods M) r ein eout vc (prio + int_min) (sw_allocator s))
                    })
            else map_option (\<lambda>a. s\<lparr>sw_allocator := a\<rparr>)
                   (add_switch_request (sw_methods M) r ein eout vc prio (sw_allocator s)))
         else Some s)
      })"

text \<open>Is a VC of a choice free, and is one free with credit?\<close>

fun spec_scan ::
  "int \<Rightarrow> 'a iq_router_scheme \<Rightarrow> nat \<Rightarrow> nat list \<Rightarrow> bool \<Rightarrow> (bool \<times> bool) option" where
  "spec_scan now r out [] elig = Some (elig, False)"
| "spec_scan now r out (v # vs) elig =
     (if \<not> IsAvailableFor v (next_buf r ! out) then spec_scan now r out vs elig
      else do {
        room \<leftarrow> output_room out r;
        (if \<not> room then spec_scan now r out vs elig
         else do {
           full \<leftarrow> (if spec_check_cred r then IsFullFor now v (next_buf r ! out) else Some False);
           (if full then spec_scan now r out vs True else Some (True, True))
         })
      })"

definition full_stall :: "buffer_state \<Rightarrow> int option" where
  "full_stall d = do {
     b \<leftarrow> BS_IsFull d;
     Some (if b then STALL_BUFFER_FULL else STALL_BUFFER_RESERVED)
   }"

definition spec_element ::
  "('v, 'w, 'x) alloc_methods \<Rightarrow> int \<Rightarrow> 'a iq_router_scheme \<Rightarrow> nat \<Rightarrow> nat \<Rightarrow> set_element
     \<Rightarrow> int \<times> ('v, 'w, 'x) allocators \<Rightarrow> (int \<times> ('v, 'w, 'x) allocators) option" where
  "spec_element M now r input vc e rs =
     (let out = nat (output_port e) in do {
        assertion (0 \<le> output_port e \<and> out < outputs r);
        (elig, cred) \<leftarrow> (if spec_check_elig r
                         then do {
                           (b, l) \<leftarrow> vc_range input vc e r;
                           spec_scan now r out [b..<Suc l] False
                         }
                         else Some (False, False));
        (if spec_check_elig r \<and> \<not> elig then Some (STALL_BUFFER_BUSY, snd rs)
         else if spec_check_cred r \<and> \<not> cred
         then map_option (\<lambda>st. (st, snd rs)) (full_stall (next_buf r ! out))
         else map_option (Pair (fst rs)) (SWAllocAddReq M r input vc out (snd rs)))
      })"

definition sw_request ::
  "('v, 'w, 'x) alloc_methods \<Rightarrow> int \<Rightarrow> 'a iq_router_scheme \<Rightarrow> int \<times> (nat \<times> nat) \<times> int
     \<Rightarrow> ('v, 'w, 'x) allocators
     \<Rightarrow> ((int \<times> (nat \<times> nat) \<times> int) \<times> ('v, 'w, 'x) allocators) option" where
  "sw_request M now r it s =
     (case it of (time, (input, vc), res) \<Rightarrow> do {
        assertion (res = -1);
        f \<leftarrow> front_at (bids r) input vc r;
        assertion (switch_hold_vc r ! hold_index input vc r \<noteq> int vc);
        (if GetState vc (buf r ! input) = active
         then (let port = GetOutputPort vc (buf r ! input); out_vc = GetOutputVC vc (buf r ! input);
                   d = next_buf r ! nat port in do {
                 assertion (0 \<le> port \<and> nat port < outputs r);
                 assertion (0 \<le> out_vc \<and> nat out_vc < vcs r);
                 full \<leftarrow> IsFullFor now (nat out_vc) d;
                 room \<leftarrow> (if full then Some False else output_room (nat port) r);
                 (if full \<or> \<not> room
                  then map_option (\<lambda>st. ((time, (input, vc), st), s)) (full_stall d)
                  else map_option (Pair it) (SWAllocAddReq M r input vc (nat port) s))
               })
         else do {
           assertion (f_head f);
           os \<leftarrow> GetRouteSet vc (buf r ! input);
           assertion (noq r \<longrightarrow> length os = 1);
           (st, s1) \<leftarrow> foldM (spec_element M now r input vc) os (res, s);
           Some ((time, (input, vc), st), s1)
         })
      })"

subsection \<open>Grants\<close>

text \<open>What \<open>vc\<close> gets when its expanded input was granted output \<open>g\<close> by an allocator: the output, if
  the request granted was its own.\<close>

definition own_grant ::
  "'s router_alloc \<Rightarrow> nat \<Rightarrow> nat \<Rightarrow> nat \<Rightarrow> nat \<Rightarrow> 's \<Rightarrow> 'a iq_router_scheme
     \<Rightarrow> (int \<times> 'a iq_router_scheme) option" where
  "own_grant C input vc ein g a r = do {
     label \<leftarrow> alloc_ReadLabel C ein g a;
     Some (if label = int vc
           then (int g, r\<lparr>sw_rr_offset := (sw_rr_offset r)[ein := int ((vc + input_speedup r) mod vcs r)]\<rparr>)
           else (STALL_CROSSBAR_CONFLICT, r))
   }"

definition spec_grant ::
  "('v, 'w, 'x) alloc_methods \<Rightarrow> ('v, 'w, 'x) allocators \<Rightarrow> 'x \<Rightarrow> nat \<Rightarrow> nat \<Rightarrow> nat
     \<Rightarrow> 'a iq_router_scheme \<Rightarrow> (int \<times> 'a iq_router_scheme) option" where
  "spec_grant M s x input vc ein r = do {
     g \<leftarrow> alloc_OutputAssigned (spec_methods M) ein x;
     (if g < 0 then Some (STALL_CROSSBAR_CONFLICT, r)
      else do {
        assertion (nat g mod output_speedup r = input mod output_speedup r);
        masked \<leftarrow> (if spec_mask_by_reqs r
                   then Some (alloc_OutputHasRequests (sw_methods M) (nat g) (sw_allocator s))
                   else map_option (\<lambda>i. i \<ge> 0)
                     (alloc_InputAssigned (sw_methods M) (nat g) (sw_allocator s)));
        (if masked then Some (STALL_CROSSBAR_CONFLICT, r)
         else own_grant (spec_methods M) input vc ein (nat g) x r)
      })
   }"

definition sw_grant ::
  "('v, 'w, 'x) alloc_methods \<Rightarrow> int \<Rightarrow> ('v, 'w, 'x) allocators \<Rightarrow> int \<times> (nat \<times> nat) \<times> int
     \<Rightarrow> 'a iq_router_scheme
     \<Rightarrow> ((int \<times> (nat \<times> nat) \<times> int) \<times> 'a iq_router_scheme) option" where
  "sw_grant M now s it r =
     (case it of (_, (input, vc), res) \<Rightarrow>
        let time = now + sw_alloc_delay r - 1; ein = hold_index input vc r in do {
          assertion (input < inputs r \<and> vc < vcs r);
          (if res < -1 then Some ((time, (input, vc), res), r)
           else do {
             assertion (res = -1);
             f \<leftarrow> front_at (bids r) input vc r;
             g \<leftarrow> alloc_OutputAssigned (sw_methods M) ein (sw_allocator s);
             (st, r1) \<leftarrow>
               (if g \<ge> 0
                then do {
                  assertion (nat g mod output_speedup r = input mod output_speedup r);
                  own_grant (sw_methods M) input vc ein (nat g) (sw_allocator s) r
                }
                else case spec_allocator s of
                       None \<Rightarrow> Some (STALL_CROSSBAR_CONFLICT, r)
                     | Some x \<Rightarrow> spec_grant M s x input vc ein r);
             Some ((time, (input, vc), st), r1)
           })
        })"

subsection \<open>Second thoughts\<close>

text \<open>Piggybacked VC allocation looks for a free VC with credit at the output granted; the state is
  (\<open>busy\<close>, \<open>full\<close>, \<open>reserved\<close>).\<close>

fun piggyback_scan ::
  "int \<Rightarrow> buffer_state \<Rightarrow> nat list \<Rightarrow> bool \<times> bool \<times> bool \<Rightarrow> (bool \<times> bool \<times> bool) option" where
  "piggyback_scan now d [] st = Some st"
| "piggyback_scan now d (v # vs) (busy, full, reserved) =
     (if \<not> IsAvailableFor v d then piggyback_scan now d vs (busy, full, reserved)
      else do {
        f \<leftarrow> IsFullFor now v d;
        (if \<not> f then Some (False, False, reserved)
         else do {
           b \<leftarrow> BS_IsFull d;
           piggyback_scan now d vs (False, full, reserved \<or> \<not> b)
         })
      })"

fun piggyback_check ::
  "int \<Rightarrow> 'a iq_router_scheme \<Rightarrow> nat \<Rightarrow> nat \<Rightarrow> nat \<Rightarrow> output_set \<Rightarrow> bool \<times> bool \<times> bool
     \<Rightarrow> (bool \<times> bool \<times> bool) option" where
  "piggyback_check now r input vc out [] st = Some st"
| "piggyback_check now r input vc out (e # es) st =
     (if output_port e \<noteq> int out then piggyback_check now r input vc out es st
      else do {
        (b, l) \<leftarrow> vc_range input vc e r;
        st' \<leftarrow> piggyback_scan now (next_buf r ! out) [b..<Suc l] st;
        (if \<not> fst (snd st') then Some st' else piggyback_check now r input vc out es st')
      })"

text \<open>The result of a grant that is looked at again in the cycle it is due.\<close>

definition spec_recheck ::
  "('v, 'w, 'x) alloc_methods \<Rightarrow> int \<Rightarrow> 'v option \<Rightarrow> 'a iq_router_scheme \<Rightarrow> nat \<Rightarrow> nat \<Rightarrow> nat \<Rightarrow> int
     \<Rightarrow> int option" where
  "spec_recheck M now va r input vc out res =
     (case va of
        Some a \<Rightarrow> do {
          g \<leftarrow> alloc_OutputAssigned (vc_methods M) (input_and_vc input vc r) a;
          (if g < 0 then Some (-1)
           else if nat g div vcs r \<noteq> out then Some STALL_BUFFER_CONFLICT
           else do {
             full \<leftarrow> IsFullFor now (nat g mod vcs r) (next_buf r ! out);
             (if full then full_stall (next_buf r ! out) else Some res)
           })
        }
      | None \<Rightarrow> do {
          os \<leftarrow> GetRouteSet vc (buf r ! input);
          assertion (noq r \<longrightarrow> length os = 1);
          (busy, full, reserved) \<leftarrow> piggyback_check now r input vc out os (True, True, False);
          Some (if busy then STALL_BUFFER_BUSY
                else if full then (if reserved then STALL_BUFFER_RESERVED else STALL_BUFFER_FULL)
                else res)
        })"

definition sw_recheck ::
  "('v, 'w, 'x) alloc_methods \<Rightarrow> int \<Rightarrow> 'v option \<Rightarrow> 'a iq_router_scheme
     \<Rightarrow> int \<times> (nat \<times> nat) \<times> int \<Rightarrow> (int \<times> (nat \<times> nat) \<times> int) option" where
  "sw_recheck M now va r it =
     (case it of (time, (input, vc), res) \<Rightarrow> do {
        assertion (res \<noteq> -1);
        (if res < 0 then Some it
         else let out = nat res div output_speedup r; ein = hold_index input vc r in do {
           assertion (out < outputs r);
           assertion (input mod output_speedup r = nat res mod output_speedup r);
           f \<leftarrow> front_at (bids r) input vc r;
           assertion (switch_hold_vc r ! ein \<noteq> int vc);
           st \<leftarrow>
             (if switch_hold_in r ! ein \<ge> 0 \<or> switch_hold_out r ! nat res \<ge> 0
              then Some STALL_CROSSBAR_CONFLICT
              else if speculative r \<and> GetState vc (buf r ! input) = vc_alloc
              then do { assertion (f_head f); spec_recheck M now va r input vc out res }
              else let out_vc = GetOutputVC vc (buf r ! input) in do {
                assertion (GetOutputPort vc (buf r ! input) = int out);
                assertion (0 \<le> out_vc \<and> nat out_vc < vcs r);
                full \<leftarrow> IsFullFor now (nat out_vc) (next_buf r ! out);
                (if full then full_stall (next_buf r ! out) else Some res)
              });
           Some (time, (input, vc), st)
         })
      })"

definition SWAllocEvaluate ::
  "('v, 'w, 'x) alloc_methods \<Rightarrow> int \<Rightarrow> 'a iq_router_scheme \<times> ('v, 'w, 'x) allocators
     \<Rightarrow> ('a iq_router_scheme \<times> ('v, 'w, 'x) allocators) option" where
  "SWAllocEvaluate M now rs =
     (case rs of (r, s) \<Rightarrow> do {
        (q1, s1) \<leftarrow> fresh_loop (sw_request M now r) (sw_alloc_vcs r) s;
        w \<leftarrow> alloc_Allocate (sw_methods M) (sw_allocator s1);
        x \<leftarrow> (case spec_allocator s1 of
                None \<Rightarrow> Some None
              | Some x \<Rightarrow> map_option Some (alloc_Allocate (spec_methods M) x));
        (let s2 = s1\<lparr>sw_allocator := w, spec_allocator := x\<rparr> in do {
           (q2, r1) \<leftarrow> fresh_loop (sw_grant M now s2) q1 r;
           q3 \<leftarrow> (if \<not> speculative r \<and> sw_alloc_delay r \<le> 1 then Some q2
                  else due_loop now (sw_recheck M now (vc_allocator s2) r1) q2);
           Some (r1\<lparr>sw_alloc_vcs := q3\<rparr>, s2)
         })
      })"

end
