(* ===== verification/Switch_Traversal.thy ===== *)
theory Switch_Traversal
  imports Switch_Allocation
begin

text \<open>
  What happens to the winners of switch allocation: \<open>_SWAllocUpdate\<close> of \<open>IQRouter\<close>
  (src/booksim2/src/routers/iq_router.cpp) and of \<open>FLOVRouter\<close> (flov_router.cpp), the crossbar
  (\<open>_SwitchEvaluate\<close>, \<open>_SwitchUpdate\<close>) and the output side (\<open>_OutputQueuing\<close>, \<open>_SendFlits\<close>,
  \<open>_SendCredits\<close>).
\<close>

subsection \<open>Piggybacked VC allocation\<close>

text \<open>The best VC so far, with its priority; -1 for none.\<close>

definition better_vc ::
  "int \<Rightarrow> 'a iq_router_scheme \<Rightarrow> buffer_state \<Rightarrow> int \<Rightarrow> int \<Rightarrow> nat \<Rightarrow> int \<times> int \<Rightarrow> (int \<times> int) option" where
  "better_vc now r d offset pri v best =
     (let lowered = vc_prioritize_empty r \<and> \<not> IsEmptyFor v d;
          prio = (if lowered then pri + int_min else pri) in do {
        assertion (lowered \<longrightarrow> pri \<ge> 0);
        (if \<not> IsAvailableFor v d then Some best
         else do {
           full \<leftarrow> IsFullFor now v d;
           Some (if \<not> full \<and>
                    (fst best < 0 \<or> Supersedes (int v) prio (fst best) (snd best) offset (vcs r))
                 then (int v, prio) else best)
         })
      })"

definition better_element ::
  "int \<Rightarrow> 'a iq_router_scheme \<Rightarrow> nat \<Rightarrow> nat \<Rightarrow> nat \<Rightarrow> int \<Rightarrow> set_element \<Rightarrow> int \<times> int
     \<Rightarrow> (int \<times> int) option" where
  "better_element now r input vc out offset e best =
     (if output_port e \<noteq> int out then Some best
      else do {
        (b, l) \<leftarrow> vc_range input vc e r;
        foldM (better_vc now r (next_buf r ! out) offset (se_pri e)) [b..<Suc l] best
      })"

definition piggyback_take ::
  "int \<Rightarrow> nat \<Rightarrow> nat \<Rightarrow> nat \<Rightarrow> flit \<Rightarrow> 'a iq_router_scheme \<Rightarrow> (nat \<times> 'a iq_router_scheme) option" where
  "piggyback_take now input vc out f r =
     (let i = out * classes r + nat (f_cl f) in do {
        assertion (f_head f);
        assertion (0 \<le> f_cl f \<and> nat (f_cl f) < classes r);
        os \<leftarrow> GetRouteSet vc (buf r ! input);
        assertion (noq r \<longrightarrow> length os = 1);
        (v, prio) \<leftarrow> foldM (better_element now r input vc out (vc_rr_offset r ! i)) os (-1, int_min);
        assertion (v \<ge> 0);
        d \<leftarrow> TakeBuffer (nat v) (int (input * vcs r + vc)) (next_buf r ! out);
        Some (nat v, (upd_buf input (Buffer_SetOutput vc (int out) v \<circ> Buffer_SetState vc active) r)
                \<lparr>next_buf := (next_buf r)[out := d],
                 vc_rr_offset := (vc_rr_offset r)[i := int ((nat v + 1) mod vcs r)]\<rparr>)
      })"

subsection \<open>Winners\<close>

definition pop_sw_alloc :: "'a iq_router_scheme \<Rightarrow> 'a iq_router_scheme" where
  "pop_sw_alloc r = r\<lparr>sw_alloc_vcs := tl (sw_alloc_vcs r)\<rparr>"

text \<open>The VC has its output VC and the switch: the flit goes.\<close>

definition traverse ::
  "(flit \<Rightarrow> flit option) \<Rightarrow> 'a iq_router_scheme router_env \<Rightarrow> bool \<Rightarrow> int \<Rightarrow> nat \<Rightarrow> nat \<Rightarrow> nat \<Rightarrow> nat
     \<Rightarrow> 'a iq_router_scheme \<Rightarrow> 'a iq_router_scheme option" where
  "traverse adv env vca now input vc out_vc eout r =
     (let ein = hold_index input vc r; out = eout div output_speedup r in do {
        assertion (out_vc < vcs r);
        (f, r1) \<leftarrow> depart adv env now input vc out out_vc ein eout r;
        next_in_vc env vca id input vc f id
          (\<lambda>r. if hold_switch_for_packet r then push_sw_hold input vc (set_hold ein eout vc r)
               else push_sw_alloc input vc r) r1
      })"

text \<open>The checks on an entry and on the connection it was granted.\<close>

definition switch_free :: "nat \<Rightarrow> nat \<Rightarrow> 'a iq_router_scheme \<Rightarrow> bool" where
  "switch_free ein eout r \<longleftrightarrow> switch_hold_vc r ! ein < 0 \<and> switch_hold_in r ! ein < 0 \<and>
     switch_hold_out r ! eout < 0 \<and> eout div output_speedup r < outputs r"

text \<open>The output VC the VC was allocated, which must be at the output granted.\<close>

definition allocated_vc :: "nat \<Rightarrow> nat \<Rightarrow> nat \<Rightarrow> 'a iq_router_scheme \<Rightarrow> int option" where
  "allocated_vc input vc out r = do {
     assertion (GetOutputPort vc (buf r ! input) = int out);
     Some (GetOutputVC vc (buf r ! input))
   }"

definition iq_sw_update ::
  "'a iq_router_scheme router_env \<Rightarrow> bool \<Rightarrow> int \<Rightarrow> (nat \<times> nat) \<times> int \<Rightarrow> 'a iq_router_scheme
     \<Rightarrow> 'a iq_router_scheme option" where
  "iq_sw_update env vca now x r =
     (case x of ((input, vc), res) \<Rightarrow> do {
        f \<leftarrow> front_at (bids r) input vc r;
        r1 \<leftarrow>
          (if res < 0 then Some (push_sw_alloc input vc r)
           else let out = nat res div output_speedup r in do {
             assertion (switch_free (hold_index input vc r) (nat res) r);
             (v, r0) \<leftarrow>
               (if \<not> vca \<and> GetState vc (buf r ! input) = vc_alloc
                then piggyback_take now input vc out f r
                else do { v \<leftarrow> allocated_vc input vc out r; assertion (v \<ge> 0); Some (nat v, r) });
             traverse Some env vca now input vc v (nat res) r0
           });
        Some (pop_sw_alloc r1)
      })"

definition IQ_SWAllocUpdate ::
  "'a iq_router_scheme router_env \<Rightarrow> bool \<Rightarrow> int \<Rightarrow> 'a iq_router_scheme \<Rightarrow> 'a iq_router_scheme option" where
  "IQ_SWAllocUpdate env vca now r =
     drain_loop (not_due now) now (iq_sw_update env vca now) (sw_alloc_vcs r) r"

subsection \<open>FLOV: back to routing from the switch\<close>

definition forget_vc_entry :: "nat \<Rightarrow> nat \<Rightarrow> 'a iq_router_scheme \<Rightarrow> 'a iq_router_scheme" where
  "forget_vc_entry input vc r = r\<lparr>vc_alloc_vcs := erase_first (input, vc) (vc_alloc_vcs r)\<rparr>"

definition give_back :: "nat \<Rightarrow> int \<Rightarrow> 'a iq_router_scheme \<Rightarrow> 'a iq_router_scheme option" where
  "give_back out out_vc r = do {
     assertion (0 \<le> out_vc);
     d \<leftarrow> ReturnBuffer (nat out_vc) (next_buf r ! out);
     Some (r\<lparr>next_buf := (next_buf r)[out := d]\<rparr>)
   }"

text \<open>A winner whose router has gone: the switch is left unused.\<close>

definition withdraw ::
  "nat \<Rightarrow> nat \<Rightarrow> nat \<Rightarrow> int \<Rightarrow> 'a iq_router_scheme \<Rightarrow> 'a iq_router_scheme option" where
  "withdraw input vc out out_vc r = do {
     r1 \<leftarrow> (if GetState vc (buf r ! input) = vc_alloc
            then do { assertion (speculative r); Some (forget_vc_entry input vc r) }
            else give_back out out_vc r);
     back_to_route input vc r1
   }"

definition flov_sw_granted ::
  "'a iq_router_scheme router_env \<Rightarrow> bool \<Rightarrow> int \<Rightarrow> nat \<Rightarrow> nat \<Rightarrow> flit \<Rightarrow> nat \<Rightarrow> 'a iq_router_scheme
     \<Rightarrow> 'a iq_router_scheme option" where
  "flov_sw_granted env vca now input vc f eout r =
     (let out = eout div output_speedup r; adv = flov_advance env input r in do {
        assertion (switch_free (hold_index input vc r) eout r);
        (if \<not> vca \<and> GetState vc (buf r ! input) = vc_alloc
         then do {
           (v, r0) \<leftarrow> piggyback_take now input vc out f r;
           traverse adv env vca now input vc v eout r0
         }
         else do {
           v \<leftarrow> allocated_vc input vc out r;
           (if f_head f \<and> behind_gated not_on env r out
            then withdraw input vc out v r
            else do {
              assertion (v \<ge> 0);
              traverse adv env vca now input vc (nat v) eout r
            })
         })
      })"

text \<open>A loser whose router has gone; the result tells whether it went back to routing.  A VC that
  holds an output VC stays when the router is already off.\<close>

definition flov_reroute ::
  "'a iq_router_scheme router_env \<Rightarrow> nat \<Rightarrow> nat \<Rightarrow> 'a iq_router_scheme
     \<Rightarrow> ('a iq_router_scheme \<times> bool) option" where
  "flov_reroute env input vc r =
     (let port = GetOutputPort vc (buf r ! input); out_vc = GetOutputVC vc (buf r ! input) in
      if GetState vc (buf r ! input) = vc_alloc
      then do {
        assertion (speculative r \<and> port = -1 \<and> out_vc = -1);
        os \<leftarrow> GetRouteSet vc (buf r ! input);
        usable \<leftarrow> usable_routes env r False os;
        (if usable = []
         then map_option (\<lambda>r. (r, True)) (back_to_route input vc (forget_vc_entry input vc r))
         else Some (r, False))
      }
      else do {
        assertion (0 \<le> port \<and> nat port < outputs r);
        assertion (0 \<le> out_vc \<and> nat out_vc < vcs r);
        (if behind_gated {draining, wakeup} env r (nat port)
         then do {
           r1 \<leftarrow> give_back (nat port) out_vc r;
           map_option (\<lambda>r. (r, True)) (back_to_route input vc r1)
         }
         else Some (r, False))
      })"

text \<open>A loser that has waited for 300 cycles, unless it holds VC 0; its route set stays.\<close>

definition flov_sw_timeout ::
  "nat \<Rightarrow> nat \<Rightarrow> 'a iq_router_scheme \<Rightarrow> 'a iq_router_scheme option" where
  "flov_sw_timeout input vc r =
     (let port = GetOutputPort vc (buf r ! input); out_vc = GetOutputVC vc (buf r ! input) in
      if GetState vc (buf r ! input) = active
      then do {
        assertion (0 \<le> port \<and> nat port < outputs r);
        assertion (0 \<le> out_vc \<and> nat out_vc < vcs r);
        map_option (to_routing input vc) (give_back (nat port) out_vc r)
      }
      else do {
        assertion (port = -1 \<and> out_vc = -1);
        Some (to_routing input vc (forget_vc_entry input vc r))
      })"

definition flov_sw_refused ::
  "'a iq_router_scheme router_env \<Rightarrow> int \<Rightarrow> nat \<Rightarrow> nat \<Rightarrow> flit \<Rightarrow> 'a iq_router_scheme
     \<Rightarrow> 'a iq_router_scheme option" where
  "flov_sw_refused env now input vc f r = do {
     (r1, back) \<leftarrow> (if f_head f then flov_reroute env input vc r else Some (r, False));
     (if back then Some r1
      else if now - f_rtime f = 300 \<and> f_head f \<and> GetOutputVC vc (buf r1 ! input) \<noteq> 0
      then flov_sw_timeout input vc r1
      else Some (push_sw_alloc input vc r1))
   }"

definition flov_sw_update ::
  "'a iq_router_scheme router_env \<Rightarrow> bool \<Rightarrow> int \<Rightarrow> (nat \<times> nat) \<times> int \<Rightarrow> 'a iq_router_scheme
     \<Rightarrow> 'a iq_router_scheme option" where
  "flov_sw_update env vca now x r =
     (case x of ((input, vc), res) \<Rightarrow> do {
        f \<leftarrow> front_at (bids r) input vc r;
        r1 \<leftarrow> (if res \<ge> 0 then flov_sw_granted env vca now input vc f (nat res) r
               else flov_sw_refused env now input vc f r);
        Some (pop_sw_alloc r1)
      })"

definition FLOV_SWAllocUpdate ::
  "'a iq_router_scheme router_env \<Rightarrow> bool \<Rightarrow> int \<Rightarrow> 'a iq_router_scheme \<Rightarrow> 'a iq_router_scheme option" where
  "FLOV_SWAllocUpdate env vca now r =
     drain_loop (not_due now) now (flov_sw_update env vca now) (sw_alloc_vcs r) r"

subsection \<open>The crossbar\<close>

definition begin_traversal ::
  "int \<Rightarrow> int \<times> flit \<times> nat \<times> nat \<Rightarrow> 'a iq_router_scheme
     \<Rightarrow> ((int \<times> flit \<times> nat \<times> nat) \<times> 'a iq_router_scheme) option" where
  "begin_traversal now it r = Some ((now + crossbar_delay r - 1, snd it), r)"

definition SwitchEvaluate :: "int \<Rightarrow> 'a iq_router_scheme \<Rightarrow> 'a iq_router_scheme option" where
  "SwitchEvaluate now r = do {
     (q, r1) \<leftarrow> fresh_loop (begin_traversal now) (crossbar_flits r) r;
     Some (r1\<lparr>crossbar_flits := q\<rparr>)
   }"

text \<open>The bound on the output buffer is computed with \<open>size_t\<close>, that is modulo \<open>2 ^ 64\<close>.\<close>

definition finish_traversal :: "flit \<times> nat \<times> nat \<Rightarrow> 'a iq_router_scheme \<Rightarrow> 'a iq_router_scheme option" where
  "finish_traversal x r =
     (case x of (f, ein, eout) \<Rightarrow>
        let out = eout div output_speedup r; q = output_buffer r ! out @ [f];
            bound = output_buffer_size r + crossbar_delay r * int (output_speedup r) +
                    (int (output_speedup r) - 1) in do {
          assertion (ein div input_speedup r < inputs r);
          assertion (out < outputs r);
          assertion (int (length q) \<le> bound mod 2 ^ 64 \<or> output_buffer_size r = -1);
          Some (r\<lparr>output_buffer := (output_buffer r)[out := q],
                  crossbar_flits := tl (crossbar_flits r)\<rparr>)
        })"

definition SwitchUpdate :: "int \<Rightarrow> 'a iq_router_scheme \<Rightarrow> 'a iq_router_scheme option" where
  "SwitchUpdate now r = drain_loop (not_due now) now finish_traversal (crossbar_flits r) r"

subsection \<open>The output side\<close>

definition IQ_queue_credit ::
  "nat \<times> credit \<Rightarrow> 'a iq_router_scheme \<Rightarrow> 'a iq_router_scheme option" where
  "IQ_queue_credit ic r = do {
     assertion (fst ic < inputs r);
     assertion (c_vc (snd ic) \<noteq> []);
     Some (r\<lparr>credit_buffer := (credit_buffer r)[fst ic := credit_buffer r ! fst ic @ [snd ic]]\<rparr>)
   }"

definition IQ_OutputQueuing :: "'a iq_router_scheme \<Rightarrow> 'a iq_router_scheme option" where
  "IQ_OutputQueuing r =
     map_option (\<lambda>r. r\<lparr>out_queue_credits := []\<rparr>) (foldM IQ_queue_credit (out_queue_credits r) r)"

text \<open>The front of every queue of a list of queues, and the queues without it.\<close>

definition pop_fronts :: "'d list list \<Rightarrow> 'd option list \<times> 'd list list" where
  "pop_fronts qs = (map (\<lambda>q. case q of [] \<Rightarrow> None | x # _ \<Rightarrow> Some x) qs, map tl qs)"

definition SendFlits :: "'a iq_router_scheme \<Rightarrow> flit option list \<times> 'a iq_router_scheme" where
  "SendFlits r = (case pop_fronts (take (outputs r) (output_buffer r)) of (fs, qs) \<Rightarrow>
     (fs, r\<lparr>output_buffer := qs @ drop (outputs r) (output_buffer r)\<rparr>))"

definition SendCredits :: "'a iq_router_scheme \<Rightarrow> credit option list \<times> 'a iq_router_scheme" where
  "SendCredits r = (case pop_fronts (take (inputs r) (credit_buffer r)) of (cs, qs) \<Rightarrow>
     (cs, r\<lparr>credit_buffer := qs @ drop (inputs r) (credit_buffer r)\<rparr>))"

end
