(* ===== verification/Router_Step.thy ===== *)
theory Router_Step
  imports Switch_Traversal Handshakes
begin

text \<open>
  A clock cycle of a router: \<open>ReadInputs\<close>, \<open>_InternalStep\<close> and \<open>WriteOutputs\<close> of \<open>IQRouter\<close>
  (src/booksim2/src/routers/iq_router.cpp) and \<open>FLOVRouter\<close> (flov_router.cpp).  The stages a
  subclass overrides are the fields of \<open>stage_updates\<close>, which stands for the virtual calls.
\<close>

record 'r stage_updates =
  u_input :: "'r router_env \<Rightarrow> bool \<Rightarrow> int \<Rightarrow> 'r \<Rightarrow> 'r option"
  u_route :: "'r router_env \<Rightarrow> bool \<Rightarrow> int \<Rightarrow> 'r \<Rightarrow> 'r option"
  u_vc_alloc :: "'r router_env \<Rightarrow> int \<Rightarrow> 'r \<Rightarrow> 'r option"
  u_sw_hold :: "'r router_env \<Rightarrow> bool \<Rightarrow> int \<Rightarrow> 'r \<Rightarrow> 'r option"
  u_sw_alloc :: "'r router_env \<Rightarrow> bool \<Rightarrow> int \<Rightarrow> 'r \<Rightarrow> 'r option"

definition IQ_updates :: "'a iq_router_scheme stage_updates" where
  "IQ_updates = \<lparr>u_input = IQ_InputQueuing, u_route = IQ_RouteUpdate,
     u_vc_alloc = (\<lambda>_. IQ_VCAllocUpdate), u_sw_hold = IQ_SWHoldUpdate,
     u_sw_alloc = IQ_SWAllocUpdate\<rparr>"

definition FLOV_updates :: "'a iq_router_scheme stage_updates" where
  "FLOV_updates = \<lparr>u_input = FLOV_InputQueuing, u_route = FLOV_RouteUpdate,
     u_vc_alloc = FLOV_VCAllocUpdate, u_sw_hold = FLOV_SWHoldUpdate,
     u_sw_alloc = FLOV_SWAllocUpdate\<rparr>"

text \<open>A stage runs when its queue has entries.\<close>

definition stage :: "bool \<Rightarrow> ('s \<Rightarrow> 's option) \<Rightarrow> 's \<Rightarrow> 's option" where
  "stage c f s = (if c then f s else Some s)"

subsection \<open>Evaluate\<close>

definition vc_alloc_phase ::
  "('v, 'w, 'x) alloc_methods \<Rightarrow> int \<Rightarrow> 'a iq_router_scheme \<times> ('v, 'w, 'x) allocators
     \<Rightarrow> ('a iq_router_scheme \<times> ('v, 'w, 'x) allocators) option" where
  "vc_alloc_phase M now rs =
     (case rs of (r, s) \<Rightarrow>
        (case vc_allocator s of
           None \<Rightarrow> Some (r, s)
         | Some a \<Rightarrow> do {
             (r1, a1) \<leftarrow> stage (vc_alloc_vcs r \<noteq> []) (VCAllocEvaluate (vc_methods M) now)
                           (r, alloc_Clear (vc_methods M) a);
             Some (r1, s\<lparr>vc_allocator := Some a1\<rparr>)
           }))"

definition clear_switch ::
  "('v, 'w, 'x) alloc_methods \<Rightarrow> ('v, 'w, 'x) allocators \<Rightarrow> ('v, 'w, 'x) allocators" where
  "clear_switch M s = s\<lparr>sw_allocator := alloc_Clear (sw_methods M) (sw_allocator s),
     spec_allocator := map_option (alloc_Clear (spec_methods M)) (spec_allocator s)\<rparr>"

definition evaluate_stages ::
  "('v, 'w, 'x) alloc_methods \<Rightarrow> int \<Rightarrow> 'a iq_router_scheme \<times> ('v, 'w, 'x) allocators
     \<Rightarrow> ('a iq_router_scheme \<times> ('v, 'w, 'x) allocators) option" where
  "evaluate_stages M now rs =
     (case rs of (r, s) \<Rightarrow> do {
        r1 \<leftarrow> stage (route_vcs r \<noteq> []) (RouteEvaluate now) r;
        (r2, s2) \<leftarrow> vc_alloc_phase M now (r1, s);
        r3 \<leftarrow> stage (hold_switch_for_packet r2 \<and> sw_hold_vcs r2 \<noteq> []) (SWHoldEvaluate now) r2;
        (r4, s4) \<leftarrow> stage (sw_alloc_vcs r3 \<noteq> []) (SWAllocEvaluate M now) (r3, clear_switch M s2);
        r5 \<leftarrow> stage (crossbar_flits r4 \<noteq> []) (SwitchEvaluate now) r4;
        Some (r5, s4)
      })"

subsection \<open>Update\<close>

text \<open>The result's second component is \<open>activity\<close>: some stage that ran has entries left.\<close>

definition update_stages ::
  "'a iq_router_scheme stage_updates \<Rightarrow> 'a iq_router_scheme router_env \<Rightarrow> bool \<Rightarrow> int
     \<Rightarrow> 'a iq_router_scheme \<Rightarrow> ('a iq_router_scheme \<times> bool) option" where
  "update_stages U env vca now r = do {
     r1 \<leftarrow> stage (route_vcs r \<noteq> []) (u_route U env vca now) r;
     assertion (vc_alloc_vcs r1 \<noteq> [] \<longrightarrow> vca);
     r2 \<leftarrow> stage (vc_alloc_vcs r1 \<noteq> []) (u_vc_alloc U env now) r1;
     r3 \<leftarrow> stage (hold_switch_for_packet r2 \<and> sw_hold_vcs r2 \<noteq> []) (u_sw_hold U env vca now) r2;
     r4 \<leftarrow> stage (sw_alloc_vcs r3 \<noteq> []) (u_sw_alloc U env vca now) r3;
     r5 \<leftarrow> stage (crossbar_flits r4 \<noteq> []) (SwitchUpdate now) r4;
     Some (r5, route_vcs r1 \<noteq> [] \<or> vc_alloc_vcs r2 \<noteq> [] \<or>
               (hold_switch_for_packet r3 \<and> sw_hold_vcs r3 \<noteq> []) \<or>
               sw_alloc_vcs r4 \<noteq> [] \<or> crossbar_flits r5 \<noteq> [])
   }"

definition pipeline_step ::
  "'a iq_router_scheme stage_updates \<Rightarrow> 'a iq_router_scheme router_env
     \<Rightarrow> ('v, 'w, 'x) alloc_methods \<Rightarrow> int \<Rightarrow> 'a iq_router_scheme \<times> ('v, 'w, 'x) allocators
     \<Rightarrow> (('a iq_router_scheme \<times> bool) \<times> ('v, 'w, 'x) allocators) option" where
  "pipeline_step U env M now rs =
     (case rs of (r, s) \<Rightarrow> let vca = (vc_allocator s \<noteq> None) in do {
        r1 \<leftarrow> u_input U env vca now r;
        (r2, s2) \<leftarrow> evaluate_stages M now (r1, s);
        (r3, activity) \<leftarrow> update_stages U env vca now r2;
        Some ((r3, proc_credits r1 \<noteq> [] \<or> activity), s2)
      })"

subsection \<open>One cycle\<close>

definition IQ_InternalStep ::
  "'a iq_router_scheme router_env \<Rightarrow> ('v, 'w, 'x) alloc_methods \<Rightarrow> int
     \<Rightarrow> 'a iq_router_scheme \<times> ('v, 'w, 'x) allocators
     \<Rightarrow> ('a iq_router_scheme \<times> ('v, 'w, 'x) allocators) option" where
  "IQ_InternalStep env M now rs =
     (if \<not> r_active (fst rs) then Some rs
      else do {
        ((r, activity), s) \<leftarrow> pipeline_step IQ_updates env M now rs;
        r1 \<leftarrow> IQ_OutputQueuing (r\<lparr>r_active := activity\<rparr>);
        Some (r1, s)
      })"

definition sinks_of :: "'r router_env \<Rightarrow> nat \<Rightarrow> int" where
  "sinks_of env p = int (the (e_sink env p))"

definition FLOV_InternalStep ::
  "flov_router router_env \<Rightarrow> ('v, 'w, 'x) alloc_methods \<Rightarrow> int
     \<Rightarrow> flov_router \<times> ('v, 'w, 'x) allocators
     \<Rightarrow> (flov_router \<times> ('v, 'w, 'x) allocators) option" where
  "FLOV_InternalStep env M now rs =
     (case rs of (r, s) \<Rightarrow>
        if power_state r = power_off \<or> power_state r = wakeup
        then do {
          r1 \<leftarrow> FlovStep (e_k env) (sinks_of env) now r;
          r2 \<leftarrow> OutputQueuing r1;
          Some (r2\<lparr>r_active := proc_credits r2 \<noteq> [] \<or> in_queue_flits r2 \<noteq> []\<rparr>, s)
        }
        else if \<not> r_active r
        then do {
          r1 \<leftarrow> HandshakeResponse now r;
          r2 \<leftarrow> OutputQueuing r1;
          Some (r2, s)
        }
        else do {
          ((r1, activity), s1) \<leftarrow> pipeline_step FLOV_updates env M now rs;
          r2 \<leftarrow> HandshakeResponse now r1;
          r3 \<leftarrow> OutputQueuing (r2\<lparr>r_active := activity \<or> route_vcs r2 \<noteq> []\<rparr>);
          Some (r3, s1)
        })"

definition IQ_ReadInputs ::
  "int \<Rightarrow> flit option list \<Rightarrow> credit option list \<Rightarrow> 'a iq_router_scheme \<Rightarrow> 'a iq_router_scheme" where
  "IQ_ReadInputs now fs cs r =
     (let (r1, have_flits) = ReceiveFlits fs r; (r2, have_credits) = ReceiveCredits now cs r1
      in r2\<lparr>r_active := r_active r2 \<or> have_flits \<or> have_credits\<rparr>)"

definition FLOV_ReadInputs ::
  "nat \<Rightarrow> int \<Rightarrow> flit option list \<Rightarrow> credit option list \<Rightarrow> handshake option list
     \<Rightarrow> flov_router \<Rightarrow> flov_router option" where
  "FLOV_ReadInputs gK now fs cs hs r =
     (let (r1, have_flits) = ReceiveFlits fs r; (r2, have_credits) = ReceiveCredits now cs r1 in do {
        r3 \<leftarrow> HandshakeEvaluate gK (ReceiveHandshakes hs r2);
        assertion (proc_handshakes r3 = []);
        Some (r3\<lparr>r_active := r_active r3 \<or> have_flits \<or> have_credits\<rparr>)
      })"

definition IQ_WriteOutputs ::
  "'a iq_router_scheme \<Rightarrow> flit option list \<times> credit option list \<times> 'a iq_router_scheme" where
  "IQ_WriteOutputs r =
     (let (fs, r1) = SendFlits r; (cs, r2) = SendCredits r1 in (fs, cs, r2))"

definition FLOV_WriteOutputs ::
  "flov_router \<Rightarrow> flit option list \<times> credit option list \<times> handshake option list \<times> flov_router" where
  "FLOV_WriteOutputs r =
     (let (fs, r1) = SendFlits r; (cs, r2) = SendCredits r1; (r3, hs) = SendHandshakes r2
      in (fs, cs, hs, r3))"

subsection \<open>What routing functions and monitors read\<close>

definition GetFreeCredit :: "nat \<Rightarrow> 'a iq_router_scheme \<Rightarrow> int option" where
  "GetFreeCredit out r =
     (if out < outputs r then Some (bs_size (next_buf r ! out) - bs_occupancy (next_buf r ! out)) else None)"

definition GetUsedCredit :: "nat \<Rightarrow> 'a iq_router_scheme \<Rightarrow> int option" where
  "GetUsedCredit out r = (if out < outputs r then Some (bs_occupancy (next_buf r ! out)) else None)"

definition GetBufferOccupancy :: "nat \<Rightarrow> 'a iq_router_scheme \<Rightarrow> int option" where
  "GetBufferOccupancy i r = (if i < inputs r then Some (b_occupancy (buf r ! i)) else None)"

definition UsedCredits :: "'a iq_router_scheme \<Rightarrow> int list" where
  "UsedCredits r = [OccupancyFor v (next_buf r ! out). out \<leftarrow> [0..<outputs r], v \<leftarrow> [0..<vcs r]]"

definition FreeCredits :: "int \<Rightarrow> 'a iq_router_scheme \<Rightarrow> int list option" where
  "FreeCredits now r = those [AvailableFor now v (next_buf r ! out). out \<leftarrow> [0..<outputs r], v \<leftarrow> [0..<vcs r]]"

definition MaxCredits :: "int \<Rightarrow> 'a iq_router_scheme \<Rightarrow> int list option" where
  "MaxCredits now r = those [LimitFor now v (next_buf r ! out). out \<leftarrow> [0..<outputs r], v \<leftarrow> [0..<vcs r]]"

end
