(* ===== verification/Network.thy ===== *)
theory Network
  imports Router_Step Power_FSM Channels Topology
begin

text \<open>
  The network: \<open>Network\<close> (src/booksim2/src/networks/network.cpp) wired as a k-ary n-cube
  (kncube.cpp), with FLOV routers.  A network is the list of its routers, with the allocators each
  of them owns, and the channels \<open>_Alloc\<close> makes: a flit, a credit and a handshake channel per
  channel number and, per node, the channels of its terminal.  \<open>_BuildNet\<close> connects routers and
  channels; here a router's \<open>_input_channels\<close> are the entries of \<open>chan\<close> numbered
  \<open>input_channels k n v\<close>, followed by the injection channel, and so on.  The modules run in the
  order of \<open>_timed_modules\<close>, all channels before all routers.  With an \<open>internal_speedup\<close> of 1,
  the default, \<open>Evaluate\<close> is one internal step.
\<close>

record ('v, 'w, 'x) network =
  radix :: nat
  dimensions :: nat
  routers :: "flov_router list"
  units :: "('v, 'w, 'x) allocators list"
  chan :: "flit_channel list"
  chan_cred :: "credit channel list"
  chan_handshake :: "handshake channel list"
  inject :: "flit_channel list"
  inject_cred :: "credit channel list"
  eject :: "flit_channel list"
  eject_cred :: "credit channel list"

definition node_count :: "('v, 'w, 'x) network \<Rightarrow> nat" where
  "node_count net = fst (ComputeSize (radix net) (dimensions net))"

text \<open>What \<open>GetSink()\<close> and \<open>GetSinkPort()\<close> of a router's output channels return once \<open>_BuildNet\<close> has
  run; the ejection channel has no sink.  The routing function is the caller's.\<close>

definition mesh_env ::
  "nat \<Rightarrow> nat \<Rightarrow> (flov_router \<Rightarrow> flit \<Rightarrow> nat \<Rightarrow> output_set \<Rightarrow> output_set option)
     \<Rightarrow> (nat \<Rightarrow> nat \<Rightarrow> flit \<Rightarrow> nat \<Rightarrow> output_set \<Rightarrow> output_set option) \<Rightarrow> nat \<Rightarrow> flov_router router_env" where
  "mesh_env k n rf la v =
     \<lparr>e_k = k, e_nodes = fst (ComputeSize k n),
      e_sink = (\<lambda>p. if p < 2 * n then Some (next_node k v p) else None),
      e_sink_port = opp, e_sink_outputs = (\<lambda>_. 2 * n + 1),
      e_route = rf, e_look_ahead = la v\<rparr>"

subsection \<open>Construction\<close>

text \<open>\<open>_Alloc\<close> and \<open>_BuildNet\<close>: \<open>latency\<close> is 2 in a torus with \<open>use_noc_latency\<close> and 1 otherwise;
  channels to and from terminals have latency 1, their credit channels the default.  A router
  whose entry in \<open>_router_states\<close> is false is told so.\<close>

definition channel_with :: "nat \<Rightarrow> 'd channel" where
  "channel_with latency = Channel_init\<lparr>delay := latency\<rparr>"

definition link :: "nat \<Rightarrow> nat \<Rightarrow> nat \<Rightarrow> nat \<Rightarrow> nat \<Rightarrow> flit_channel" where
  "link num_classes latency k n c =
     (let v = c div (2 * n); p = c mod (2 * n)
      in SetSink (next_node k v p) (opp p)
           (SetSource v p ((FlitChannel_init num_classes)\<lparr>delay := latency\<rparr>)))"

definition BuildNet ::
  "nat \<Rightarrow> nat \<Rightarrow> nat \<Rightarrow> nat \<Rightarrow> (nat \<Rightarrow> flov_router) \<Rightarrow> (nat \<Rightarrow> ('v, 'w, 'x) allocators)
     \<Rightarrow> bool list \<Rightarrow> ('v, 'w, 'x) network" where
  "BuildNet k n num_classes latency make_router make_units router_states =
     (case ComputeSize k n of (nodes, channels) \<Rightarrow>
      \<lparr>radix = k, dimensions = n,
       routers = map (\<lambda>v. (if router_states ! v then id else SetRouterState False) (make_router v)) [0..<nodes],
       units = map make_units [0..<nodes],
       chan = map (link num_classes latency k n) [0..<channels],
       chan_cred = replicate channels (channel_with latency),
       chan_handshake = replicate channels (channel_with latency),
       inject = map (\<lambda>v. SetSink v (2 * n) (FlitChannel_init num_classes)) [0..<nodes],
       inject_cred = replicate nodes Channel_init,
       eject = map (\<lambda>v. SetSource v (2 * n) (FlitChannel_init num_classes)) [0..<nodes],
       eject_cred = replicate nodes Channel_init\<rparr>)"

subsection \<open>One cycle of the modules\<close>

text \<open>What the channels of router \<open>v\<close> deliver.\<close>

definition flits_to :: "('v, 'w, 'x) network \<Rightarrow> nat \<Rightarrow> flit option list" where
  "flits_to net v =
     map (\<lambda>c. Receive (chan net ! c)) (input_channels (radix net) (dimensions net) v) @
     [Receive (inject net ! v)]"

definition credits_to :: "('v, 'w, 'x) network \<Rightarrow> nat \<Rightarrow> credit option list" where
  "credits_to net v =
     map (\<lambda>c. Receive (chan_cred net ! c)) (output_channels (dimensions net) v) @
     [Receive (eject_cred net ! v)]"

definition handshakes_to :: "('v, 'w, 'x) network \<Rightarrow> nat \<Rightarrow> handshake option list" where
  "handshakes_to net v =
     map (\<lambda>c. Receive (chan_handshake net ! c)) (input_channels (radix net) (dimensions net) v)"

definition clock_in :: "nat \<Rightarrow> ('v, 'w, 'x) network \<Rightarrow> ('v, 'w, 'x) network" where
  "clock_in now net = net\<lparr>chan := map (Channel_ReadInputs now) (chan net),
     chan_cred := map (Channel_ReadInputs now) (chan_cred net),
     chan_handshake := map (Channel_ReadInputs now) (chan_handshake net),
     inject := map (Channel_ReadInputs now) (inject net),
     inject_cred := map (Channel_ReadInputs now) (inject_cred net),
     eject := map (Channel_ReadInputs now) (eject net),
     eject_cred := map (Channel_ReadInputs now) (eject_cred net)\<rparr>"

text \<open>A loop over the routers: \<open>those\<close> is \<open>None\<close> as soon as one of them stops the run.\<close>

definition each_router ::
  "(nat \<Rightarrow> flov_router \<Rightarrow> flov_router option) \<Rightarrow> ('v, 'w, 'x) network \<Rightarrow> ('v, 'w, 'x) network option" where
  "each_router f net =
     map_option (\<lambda>rs. net\<lparr>routers := rs\<rparr>)
       (those (map (\<lambda>(v, r). f v r) (zip [0..<length (routers net)] (routers net))))"

definition Network_ReadInputs :: "nat \<Rightarrow> ('v, 'w, 'x) network \<Rightarrow> ('v, 'w, 'x) network option" where
  "Network_ReadInputs now net0 =
     (let net = clock_in now net0
      in each_router (\<lambda>v. FLOV_ReadInputs (radix net) (int now) (flits_to net v) (credits_to net v)
                            (handshakes_to net v)) net)"

definition Network_PowerStateEvaluate ::
  "nat \<Rightarrow> ('v, 'w, 'x) network \<Rightarrow> ('v, 'w, 'x) network option" where
  "Network_PowerStateEvaluate now net =
     each_router (\<lambda>_. PowerStateEvaluate (radix net) (node_count net) (int now)) net"

definition Network_Evaluate ::
  "(nat \<Rightarrow> flov_router router_env) \<Rightarrow> ('v, 'w, 'x) alloc_methods \<Rightarrow> nat \<Rightarrow> ('v, 'w, 'x) network
     \<Rightarrow> ('v, 'w, 'x) network option" where
  "Network_Evaluate env M now net =
     map_option (\<lambda>rs. net\<lparr>routers := map fst rs, units := map snd rs\<rparr>)
       (those (map (\<lambda>(v, rs). FLOV_InternalStep (env v) M (int now) rs)
          (zip [0..<length (routers net)] (zip (routers net) (units net)))))"

text \<open>The channels' \<open>WriteOutputs\<close>, and what a router puts on the channels with the numbers \<open>cs\<close>.\<close>

definition clock_out ::
  "nat \<Rightarrow> ('d, 'm) channel_scheme list \<Rightarrow> ('d, 'm) channel_scheme list option" where
  "clock_out now chs = those (map (Channel_WriteOutputs now) chs)"

definition send_flits ::
  "nat list \<Rightarrow> flit option list \<Rightarrow> flit_channel list \<Rightarrow> flit_channel list option" where
  "send_flits cs xs chs =
     foldM (\<lambda>(c, x) chs. case x of None \<Rightarrow> Some chs
              | Some f \<Rightarrow> map_option (\<lambda>ch. chs[c := ch]) (FlitChannel_Send (Some f) (chs ! c)))
       (zip cs xs) chs"

definition send_others :: "nat list \<Rightarrow> 'd option list \<Rightarrow> 'd channel list \<Rightarrow> 'd channel list" where
  "send_others cs xs chs =
     fold (\<lambda>(c, x) chs. case x of None \<Rightarrow> chs | Some d \<Rightarrow> chs[c := Send (Some d) (chs ! c)])
       (zip cs xs) chs"

definition write_router :: "nat \<Rightarrow> ('v, 'w, 'x) network \<Rightarrow> ('v, 'w, 'x) network option" where
  "write_router v net =
     (case FLOV_WriteOutputs (routers net ! v) of (fs, cs, hs, r) \<Rightarrow>
        let n = dimensions net; outs = output_channels n v;
            ins = input_channels (radix net) n v in do {
          ch \<leftarrow> send_flits outs (take (2 * n) fs) (chan net);
          ej \<leftarrow> send_flits [v] (drop (2 * n) fs) (eject net);
          Some (net\<lparr>routers := (routers net)[v := r], chan := ch, eject := ej,
                    chan_cred := send_others ins (take (2 * n) cs) (chan_cred net),
                    inject_cred := send_others [v] (drop (2 * n) cs) (inject_cred net),
                    chan_handshake := send_others outs hs (chan_handshake net)\<rparr>)
        })"

definition Network_WriteOutputs :: "nat \<Rightarrow> ('v, 'w, 'x) network \<Rightarrow> ('v, 'w, 'x) network option" where
  "Network_WriteOutputs now net = do {
     ch \<leftarrow> clock_out now (chan net);
     cc \<leftarrow> clock_out now (chan_cred net);
     hc \<leftarrow> clock_out now (chan_handshake net);
     ij \<leftarrow> clock_out now (inject net);
     ic \<leftarrow> clock_out now (inject_cred net);
     ej \<leftarrow> clock_out now (eject net);
     ec \<leftarrow> clock_out now (eject_cred net);
     foldM write_router [0..<length (routers net)]
       (net\<lparr>chan := ch, chan_cred := cc, chan_handshake := hc, inject := ij, inject_cred := ic,
            eject := ej, eject_cred := ec\<rparr>)
   }"

subsection \<open>The terminals' side\<close>

definition WriteFlit :: "flit option \<Rightarrow> nat \<Rightarrow> ('v, 'w, 'x) network \<Rightarrow> ('v, 'w, 'x) network option" where
  "WriteFlit f src net = do {
     assertion (src < node_count net);
     ch \<leftarrow> FlitChannel_Send f (inject net ! src);
     Some (net\<lparr>inject := (inject net)[src := ch]\<rparr>)
   }"

definition ReadFlit :: "nat \<Rightarrow> ('v, 'w, 'x) network \<Rightarrow> flit option" where
  "ReadFlit dest net = Receive (eject net ! dest)"

definition WriteCredit :: "credit option \<Rightarrow> nat \<Rightarrow> ('v, 'w, 'x) network \<Rightarrow> ('v, 'w, 'x) network option" where
  "WriteCredit c dest net = do {
     assertion (dest < node_count net);
     Some (net\<lparr>eject_cred := (eject_cred net)[dest := Send c (eject_cred net ! dest)]\<rparr>)
   }"

definition ReadCredit :: "nat \<Rightarrow> ('v, 'w, 'x) network \<Rightarrow> credit option" where
  "ReadCredit src net = Receive (inject_cred net ! src)"

end
