(* ===== verification/Flit_Conservation.thy ===== *)
theory Flit_Conservation
  imports Router_Step "HOL-Library.Multiset"
begin

text \<open>
  No stage of the pipeline loses a flit, makes a second one of it, or changes the dimensions of the
  router: \<open>flits_of\<close> is the multiset of the flits in a router, each by the fields that identify it and \<open>dims\<close> the lengths of
  its vectors, and every operation is shown to keep both.
\<close>

subsection \<open>The flits in a router\<close>

text \<open>A flit without what routers and terminals write in it on its way.\<close>

definition who :: "flit \<Rightarrow> flit" where
  "who f = f\<lparr>f_vc := 0, f_itime := 0, f_atime := 0, f_rtime := 0, f_pri := 0, f_flov_hops := 0,
     f_misroute_hops := 0, f_hops := 0, f_intm := 0, f_ph := 0, f_la_route_set := []\<rparr>"

lemma who_updates [simp]:
  "who (f\<lparr>f_vc := i\<rparr>) = who f" "who (f\<lparr>f_itime := i\<rparr>) = who f" "who (f\<lparr>f_atime := i\<rparr>) = who f"
  "who (f\<lparr>f_rtime := i\<rparr>) = who f" "who (f\<lparr>f_pri := i\<rparr>) = who f" "who (f\<lparr>f_hops := i\<rparr>) = who f"
  "who (f\<lparr>f_flov_hops := i\<rparr>) = who f" "who (f\<lparr>f_misroute_hops := i\<rparr>) = who f"
  "who (f\<lparr>f_la_route_set := os\<rparr>) = who f"
  by (simp_all add: who_def)

definition ids :: "flit list \<Rightarrow> flit multiset" where
  "ids fs = mset (map who fs)"

definition buffer_flits :: "buffer \<Rightarrow> flit multiset" where
  "buffer_flits b = (\<Sum>v\<leftarrow>b_vc b. ids (v_buffer v))"

definition flits_of :: "'a iq_router_scheme \<Rightarrow> flit multiset" where
  "flits_of r = ids (map snd (in_queue_flits r)) + (\<Sum>b\<leftarrow>buf r. buffer_flits b) +
     ids (map (fst \<circ> snd) (crossbar_flits r)) + (\<Sum>q\<leftarrow>output_buffer r. ids q)"

definition dims :: "'a iq_router_scheme \<Rightarrow>
    (nat \<times> nat \<times> nat \<times> nat \<times> nat) \<times> nat list \<times> nat \<times> nat \<times> nat" where
  "dims r = ((inputs r, outputs r, vcs r, input_speedup r, output_speedup r),
     map (length \<circ> b_vc) (buf r), length (next_buf r), length (output_buffer r),
     length (credit_buffer r))"

text \<open>Every input has a buffer with a VC per \<open>_vcs\<close>, every output a buffer state, and so on.\<close>

definition sized :: "'a iq_router_scheme \<Rightarrow> bool" where
  "sized r \<longleftrightarrow> map (length \<circ> b_vc) (buf r) = replicate (inputs r) (vcs r) \<and>
     length (next_buf r) = outputs r \<and> length (output_buffer r) = outputs r \<and>
     length (credit_buffer r) = inputs r"

lemma sized_lengths:
  assumes "sized r"
  shows "length (buf r) = inputs r" and "i < inputs r \<Longrightarrow> length (b_vc (buf r ! i)) = vcs r"
    and "length (next_buf r) = outputs r" and "length (output_buffer r) = outputs r"
proof -
  have m: "map (length \<circ> b_vc) (buf r) = replicate (inputs r) (vcs r)"
    using assms by (simp add: sized_def)
  then have "length (map (length \<circ> b_vc) (buf r)) = inputs r" by (metis length_replicate)
  then show len: "length (buf r) = inputs r" by simp
  show "length (b_vc (buf r ! i)) = vcs r" if "i < inputs r"
    using arg_cong [OF m, of "\<lambda>xs. xs ! i"] that len by simp
qed (use assms in \<open>simp_all add: sized_def\<close>)

lemma sized_dims: "dims r' = dims r \<Longrightarrow> sized r \<Longrightarrow> sized r'"
  by (simp add: sized_def dims_def)

text \<open>What an operation does with a well sized router: it adds flits \<open>X\<close> and keeps the dimensions, and
  leaves the flits that have just come in where they are.\<close>

definition adds :: "flit multiset \<Rightarrow> 'a iq_router_scheme \<Rightarrow> 'a iq_router_scheme \<Rightarrow> bool" where
  "adds X r r' \<longleftrightarrow> in_queue_flits r' = in_queue_flits r \<and>
     (sized r \<longrightarrow> dims r' = dims r \<and> flits_of r' = flits_of r + X)"

abbreviation keeps_flits :: "'a iq_router_scheme \<Rightarrow> 'a iq_router_scheme \<Rightarrow> bool" where
  "keeps_flits \<equiv> adds {#}"

lemma keeps_refl [simp]: "keeps_flits r r"
  by (simp add: adds_def)

lemma adds_trans: "adds X r s \<Longrightarrow> adds Y s t \<Longrightarrow> adds (X + Y) r t"
  unfolding adds_def using sized_dims by (auto simp: add.assoc)

lemma keeps_trans [trans]: "keeps_flits r s \<Longrightarrow> keeps_flits s t \<Longrightarrow> keeps_flits r t"
  using adds_trans [of "{#}" r s "{#}" t] by simp

lemma adds_keeps: "adds X r s \<Longrightarrow> keeps_flits s t \<Longrightarrow> adds X r t"
  using adds_trans [of X r s "{#}" t] by simp

lemma drain_loop_keeps:
  assumes "drain_loop stop now body its r = Some r'"
    and "\<And>x r r'. body x r = Some r' \<Longrightarrow> keeps_flits r r'"
  shows "keeps_flits r r'"
  using assms(1)
proof (induction its arbitrary: r)
  case (Cons it its)
  obtain t x where it: "it = (t, x)" by (cases it)
  show ?case
  proof (cases "stop t")
    case True
    with Cons.prems it show ?thesis by simp
  next
    case False
    with Cons.prems it obtain s where "body x r = Some s" "drain_loop stop now body its s = Some r'"
      by (auto split: if_splits option.splits)
    with Cons.IH assms(2) keeps_trans show ?thesis by blast
  qed
qed simp

lemma foldM_keeps:
  assumes "foldM f xs r = Some r'" and "\<And>x r r'. f x r = Some r' \<Longrightarrow> keeps_flits r r'"
  shows "keeps_flits r r'"
  by (rule foldM_invariant [OF assms(1), where P = "keeps_flits r"])
    (auto intro: keeps_trans assms(2))

subsection \<open>Updates of one element of a sum\<close>

lemma sum_list_update_add:
  fixes g :: "'a \<Rightarrow> 'b :: comm_monoid_add"
  shows "i < length xs \<Longrightarrow> (\<Sum>x\<leftarrow>xs[i := y]. g x) + g (xs ! i) = (\<Sum>x\<leftarrow>xs. g x) + g y"
proof (induction xs arbitrary: i)
  case (Cons x xs)
  show ?case
  proof (cases i)
    case 0
    then show ?thesis by (simp add: ac_simps)
  next
    case (Suc j)
    have "(\<Sum>z\<leftarrow>xs[j := y]. g z) + g (xs ! j) = (\<Sum>z\<leftarrow>xs. g z) + g y"
      using Cons Suc by simp
    then show ?thesis by (simp add: Suc add.assoc)
  qed
qed simp

lemma sum_list_update_same:
  fixes g :: "'a \<Rightarrow> 'b :: comm_monoid_add"
  assumes "g y = g (xs ! i)"
  shows "(\<Sum>x\<leftarrow>xs[i := y]. g x) = (\<Sum>x\<leftarrow>xs. g x)"
  using assms by (induction xs arbitrary: i) (auto split: nat.splits)

lemma map_update_same: "g y = g (xs ! i) \<Longrightarrow> map g (xs[i := y]) = map g xs"
  by (induction xs arbitrary: i) (auto split: nat.splits)

text \<open>Operations on one VC that leave its queue alone.\<close>

definition quiet :: "(buffer \<Rightarrow> buffer) \<Rightarrow> bool" where
  "quiet g \<longleftrightarrow> (\<forall>b. buffer_flits (g b) = buffer_flits b \<and> length (b_vc (g b)) = length (b_vc b))"

lemma buffer_flits_update:
  "ids (v_buffer v) = ids (v_buffer (b_vc b ! i)) \<Longrightarrow>
     buffer_flits (b\<lparr>b_vc := (b_vc b)[i := v]\<rparr>) = buffer_flits b"
  by (simp add: buffer_flits_def sum_list_update_same)

lemma quiet_intros:
  "quiet (Buffer_SetState vc s)" "quiet (Buffer_SetRouteSet vc os)" "quiet (Buffer_SetOutput vc p v)"
  "quiet g \<Longrightarrow> quiet h \<Longrightarrow> quiet (g \<circ> h)" "quiet id"
  "(\<And>f. who (m f) = who f) \<Longrightarrow> quiet (write_front vc m)"
proof -
  show "quiet (write_front vc m)" if "\<And>f. who (m f) = who f"
    using that by (auto simp: quiet_def write_front_def ids_def intro!: buffer_flits_update
        split: list.splits)
qed (auto simp: quiet_def Buffer_SetState_def Buffer_SetRouteSet_def Buffer_SetOutput_def
    VC_SetState_def VC_SetRouteSet_def VC_SetOutput_def buffer_flits_update)

lemma Buffer_Route_quiet:
  "Buffer_Route vc rf b = Some b' \<Longrightarrow>
     buffer_flits b' = buffer_flits b \<and> length (b_vc b') = length (b_vc b)"
  by (auto simp: Buffer_Route_def VC_Route_def buffer_flits_update split: option.splits)

lemma ClearRouteSet_quiet:
  "ClearRouteSet vc b = Some b' \<Longrightarrow>
     buffer_flits b' = buffer_flits b \<and> length (b_vc b') = length (b_vc b)"
  by (auto simp: ClearRouteSet_def buffer_flits_update split: option.splits)

lemma upd_buf_keeps:
  assumes "buffer_flits (g (buf r ! i)) = buffer_flits (buf r ! i)"
    and "length (b_vc (g (buf r ! i))) = length (b_vc (buf r ! i))"
  shows "keeps_flits r (upd_buf i g r)"
  using assms by (simp add: adds_def upd_buf_def flits_of_def dims_def sum_list_update_same
      map_update_same)

lemma upd_buf_quiet: "quiet g \<Longrightarrow> keeps_flits r (upd_buf i g r)"
  by (rule upd_buf_keeps) (auto simp: quiet_def)

lemma upd_buwho: "buf r ! i = b \<Longrightarrow> i < length (buf r) \<Longrightarrow> upd_buf i (\<lambda>_. b) r = r"
  by (auto simp: upd_buf_def)

lemma upd_buf_to:
  "buffer_flits b = buffer_flits (buf r ! i) \<Longrightarrow> length (b_vc b) = length (b_vc (buf r ! i)) \<Longrightarrow>
     keeps_flits r (upd_buf i (\<lambda>_. b) r)"
  by (rule upd_buf_keeps)

lemma push_keeps [simp]:
  "keeps_flits r (push_route i v r)" "keeps_flits r (push_vc_alloc i v r)"
  "keeps_flits r (push_sw_hold i v r)" "keeps_flits r (push_sw_alloc i v r)"
  by (simp_all add: push_route_def push_vc_alloc_def push_sw_hold_def push_sw_alloc_def adds_def
      dims_def flits_of_def)

lemma keeps_push:
  "keeps_flits r s \<Longrightarrow> keeps_flits r (push_route i v s)"
  "keeps_flits r s \<Longrightarrow> keeps_flits r (push_vc_alloc i v s)"
  "keeps_flits r s \<Longrightarrow> keeps_flits r (push_sw_hold i v s)"
  "keeps_flits r s \<Longrightarrow> keeps_flits r (push_sw_alloc i v s)"
  by (blast intro: keeps_trans push_keeps)+

subsection \<open>Input queuing\<close>

lemma UpdateNOQ_keeps: "UpdateNOQ env input vc f r = Some r' \<Longrightarrow> keeps_flits r r'"
  by (auto simp: UpdateNOQ_def Let_def adds_def dims_def flits_of_def
      split: if_splits Option.bind_splits)

lemma start_packet_keeps:
  assumes "start_packet env vca input vc f r = Some r'"
  shows "keeps_flits r r'"
proof (cases "routing_delay r \<noteq> 0")
  case True
  with assms have "r' = push_route input vc (upd_buf input (Buffer_SetState vc routing) r)"
    by (simp add: start_packet_def)
  then show ?thesis
    using keeps_trans [OF upd_buf_quiet [OF quiet_intros(1)] push_keeps(1)] by simp
next
  case False
  let ?r1 = "upd_buf input (Buffer_SetState vc vc_alloc \<circ>
    Buffer_SetRouteSet vc (Some (f_la_route_set f))) r"
  let ?r2 = "if speculative r then push_sw_alloc input vc ?r1 else ?r1"
  let ?r3 = "if vca then push_vc_alloc input vc ?r2 else ?r2"
  have "keeps_flits r ?r1" by (intro upd_buf_quiet quiet_intros)
  then have "keeps_flits r ?r2" by (auto intro: keeps_push)
  then have k: "keeps_flits r ?r3" by (auto intro: keeps_push)
  have "(if noq r then UpdateNOQ env input vc f ?r3 else Some ?r3) = Some r'"
    using assms False by (simp add: start_packet_def Let_def)
  then have "keeps_flits ?r3 r'"
    by (cases "noq r") (simp_all only: if_True if_False UpdateNOQ_keeps option.inject keeps_refl)
  with k show ?thesis by (rule keeps_trans)
qed

lemma VC_AddFlit_ids:
  "VC_AddFlit now f v = Some v' \<Longrightarrow> ids (v_buffer v') = ids (v_buffer v) + {# who f #}"
  using VC_AddFlit_queue [of now f v v'] by (auto simp: ids_def)

lemma Buffer_AddFlit_flits:
  assumes "Buffer_AddFlit now vc f b = Some b'"
  shows "buffer_flits b' = buffer_flits b + {# who f #}" and "length (b_vc b') = length (b_vc b)"
proof -
  from assms obtain v where v: "VC_AddFlit now f (b_vc b ! vc) = Some v" "vc < length (b_vc b)"
    "b_vc b' = (b_vc b)[vc := v]"
    by (auto simp: Buffer_AddFlit_def split: Option.bind_splits)
  then show "length (b_vc b') = length (b_vc b)" by simp
  have "(\<Sum>x\<leftarrow>(b_vc b)[vc := v]. ids (v_buffer x)) + ids (v_buffer (b_vc b ! vc)) =
      (\<Sum>x\<leftarrow>b_vc b. ids (v_buffer x)) + ids (v_buffer v)"
    by (rule sum_list_update_add [OF v(2)])
  with VC_AddFlit_ids [OF v(1)] show "buffer_flits b' = buffer_flits b + {# who f #}"
    by (simp add: buffer_flits_def v(3))
qed

lemma upd_buf_adds:
  assumes "input < inputs r" and "buffer_flits b = buffer_flits (buf r ! input) + X"
    and "length (b_vc b) = length (b_vc (buf r ! input))"
  shows "adds X r (upd_buf input (\<lambda>_. b) r)"
proof -
  have "(\<Sum>x\<leftarrow>(buf r)[input := b]. buffer_flits x) + buffer_flits (buf r ! input) =
      (\<Sum>x\<leftarrow>buf r. buffer_flits x) + buffer_flits b" if "sized r"
    using sum_list_update_add [of input "buf r" buffer_flits b] sized_lengths(1) [OF that] assms(1)
    by simp
  with assms show ?thesis
    by (auto simp: adds_def upd_buf_def flits_of_def dims_def map_update_same)
qed

lemma queue_flit_adds:
  assumes "queue_flit env vca now x r = Some r'"
  shows "adds {# who (snd x) #} r r'"
proof -
  obtain input f where x: "x = (input, f)" by (cases x)
  define vc where "vc = nat (f_vc f)"
  from assms obtain b where input: "input < inputs r"
    and b: "Buffer_AddFlit now vc f (buf r ! input) = Some b"
    and rest: "keeps_flits (upd_buf input (\<lambda>_. b) r) r'"
    by (auto simp: x queue_flit_def Let_def vc_def split: Option.bind_splits if_splits
        dest!: start_packet_keeps)
  have "adds {# who f #} r (upd_buf input (\<lambda>_. b) r)"
    by (rule upd_buf_adds [OF input]) (use Buffer_AddFlit_flits [OF b] in auto)
  with rest show ?thesis unfolding x by (auto intro: adds_keeps)
qed

lemma foldM_adds:
  assumes "foldM f xs r = Some r'" and "\<And>x r r'. f x r = Some r' \<Longrightarrow> adds {# h x #} r r'"
  shows "adds (mset (map h xs)) r r'"
  using assms(1)
proof (induction xs arbitrary: r)
  case (Cons x xs)
  then obtain s where "f x r = Some s" "foldM f xs s = Some r'" by (auto split: option.splits)
  from adds_trans [OF assms(2) [OF this(1)] Cons.IH [OF this(2)]] show ?case by simp
qed simp

lemma process_credits_keeps:
  "process_credits now cs r = Some r' \<Longrightarrow> keeps_flits r r'"
proof (induction now cs r rule: process_credits.induct)
  case (2 now time c out cs r)
  show ?case
  proof (cases "now < time")
    case True
    with 2(2) show ?thesis by (auto simp: adds_def dims_def flits_of_def)
  next
    case False
    with 2(2) obtain d where d: "out < outputs r" "ProcessCredit now c (next_buf r ! out) = Some d"
      "process_credits now cs (r\<lparr>next_buf := (next_buf r)[out := d]\<rparr>) = Some r'"
      by (auto split: if_splits option.splits)
    have "keeps_flits r (r\<lparr>next_buf := (next_buf r)[out := d]\<rparr>)"
      by (simp add: adds_def dims_def flits_of_def)
    with 2(1) [OF False _ d(2,3)] d(1) show ?thesis using keeps_trans by blast
  qed
qed (auto simp: adds_def dims_def flits_of_def)

lemma input_queuing_flits:
  assumes "foldM f (in_queue_flits r) r = Some r1"
    and "process_credits now (proc_credits r1) (r1\<lparr>in_queue_flits := []\<rparr>) = Some r'" and "sized r"
    and "\<And>x r r'. f x r = Some r' \<Longrightarrow> adds {# who (snd x) #} r r'"
  shows "dims r' = dims r \<and> flits_of r' = flits_of r \<and> in_queue_flits r' = []"
proof -
  have a: "adds (ids (map snd (in_queue_flits r))) r r1"
    using foldM_adds [OF assms(1), of "who \<circ> snd"] assms(4) by (simp add: ids_def comp_def)
  let ?r2 = "r1\<lparr>in_queue_flits := []\<rparr>"
  have "dims ?r2 = dims r" "flits_of ?r2 + ids (map snd (in_queue_flits r)) = flits_of r1"
    using a assms(3) by (auto simp: adds_def dims_def flits_of_def ids_def)
  moreover have "dims r' = dims ?r2 \<and> flits_of r' = flits_of ?r2 \<and> in_queue_flits r' = []"
    using process_credits_keeps [OF assms(2)] sized_dims [OF \<open>dims ?r2 = dims r\<close> assms(3)]
    by (simp add: adds_def)
  ultimately show ?thesis using a assms(3) by (auto simp: adds_def)
qed

lemma FLOV_InputQueuing_flits:
  assumes "FLOV_InputQueuing env vca now r = Some r'" and "sized r"
  shows "dims r' = dims r \<and> flits_of r' = flits_of r \<and> in_queue_flits r' = []"
proof -
  from assms(1) obtain r1 where
    "foldM (flov_queue_flit env vca now) (in_queue_flits r) r = Some r1"
    "process_credits now (proc_credits r1) (r1\<lparr>in_queue_flits := []\<rparr>) = Some r'"
    by (auto simp: FLOV_InputQueuing_def split: Option.bind_splits)
  then show ?thesis using assms(2)
    by (rule input_queuing_flits) (auto simp: flov_queue_flit_def dest!: queue_flit_adds)
qed

lemma IQ_InputQueuing_flits:
  assumes "IQ_InputQueuing env vca now r = Some r'" and "sized r"
  shows "dims r' = dims r \<and> flits_of r' = flits_of r \<and> in_queue_flits r' = []"
proof -
  from assms(1) obtain r1 where
    "foldM (queue_flit env vca now) (in_queue_flits r) r = Some r1"
    "process_credits now (proc_credits r1) (r1\<lparr>in_queue_flits := []\<rparr>) = Some r'"
    by (auto simp: IQ_InputQueuing_def split: Option.bind_splits)
  then show ?thesis using assms(2) by (rule input_queuing_flits) (rule queue_flit_adds)
qed

subsection \<open>Evaluate\<close>

lemma RouteEvaluate_keeps: "RouteEvaluate now r = Some r' \<Longrightarrow> keeps_flits r r'"
proof -
  assume "RouteEvaluate now r = Some r'"
  then obtain q r1 where q: "fresh_loop (begin_route now) (route_vcs r) r = Some (q, r1)"
    and r': "r' = r1\<lparr>route_vcs := q\<rparr>"
    by (auto simp: RouteEvaluate_def split: Option.bind_splits)
  have "r1 = r \<and> map (\<lambda>_. ()) q = map (\<lambda>_. ()) (route_vcs r)"
    by (rule fresh_loop_invariant [OF q])
      (auto simp: begin_route_def split: Option.bind_splits prod.splits)
  then show ?thesis by (simp add: r' adds_def dims_def flits_of_def)
qed

lemma VCAllocEvaluate_keeps:
  "VCAllocEvaluate C now (r, a) = Some (r', a') \<Longrightarrow> keeps_flits r r'"
  by (auto simp: VCAllocEvaluate_def adds_def dims_def flits_of_def split: Option.bind_splits)

lemma SWHoldEvaluate_keeps: "SWHoldEvaluate now r = Some r' \<Longrightarrow> keeps_flits r r'"
proof -
  assume "SWHoldEvaluate now r = Some r'"
  then obtain q r1 where q: "fresh_loop (evaluate_hold now) (sw_hold_vcs r) r = Some (q, r1)"
    and r': "r' = r1\<lparr>sw_hold_vcs := q\<rparr>"
    by (auto simp: SWHoldEvaluate_def split: Option.bind_splits)
  have "r1 = r \<and> map (\<lambda>_. ()) q = map (\<lambda>_. ()) (sw_hold_vcs r)"
    by (rule fresh_loop_invariant [OF q])
      (auto simp: evaluate_hold_def Let_def split: Option.bind_splits if_splits prod.splits)
  then show ?thesis by (simp add: r' adds_def dims_def flits_of_def)
qed

lemma own_grant_keeps: "own_grant C i v ein g a r = Some (st, r') \<Longrightarrow> keeps_flits r r'"
  by (auto simp: own_grant_def adds_def dims_def flits_of_def split: Option.bind_splits if_splits)

lemma spec_grant_keeps: "spec_grant M s x i v ein r = Some (st, r') \<Longrightarrow> keeps_flits r r'"
  by (auto simp: spec_grant_def split: Option.bind_splits if_splits dest: own_grant_keeps)

lemma sw_grant_keeps:
  assumes "sw_grant M now s it r = Some (it', r')"
  shows "keeps_flits r r'"
proof -
  obtain t input vc res where "it = (t, (input, vc), res)" by (cases it) auto
  with assms show ?thesis
    by (auto simp: sw_grant_def Let_def split: Option.bind_splits if_splits option.splits
        dest: own_grant_keeps spec_grant_keeps)
qed

lemma SWAllocEvaluate_keeps:
  assumes "SWAllocEvaluate M now (r, s) = Some (r', s')"
  shows "keeps_flits r r'"
proof -
  from assms obtain s2 q1 q2 r1 q3 where q: "fresh_loop (sw_grant M now s2) q1 r = Some (q2, r1)"
    and r': "r' = r1\<lparr>sw_alloc_vcs := q3\<rparr>"
    by (auto simp: SWAllocEvaluate_def Let_def split: Option.bind_splits)
  have "keeps_flits r r1 \<and> map (\<lambda>_. ()) q2 = map (\<lambda>_. ()) q1"
    by (rule fresh_loop_invariant [OF q]) (auto dest!: sw_grant_keeps intro: keeps_trans)
  moreover have "keeps_flits r1 r'" by (simp add: r' adds_def dims_def flits_of_def)
  ultimately show ?thesis by (blast intro: keeps_trans)
qed

lemma SwitchEvaluate_keeps: "SwitchEvaluate now r = Some r' \<Longrightarrow> keeps_flits r r'"
proof -
  assume "SwitchEvaluate now r = Some r'"
  then obtain q r1 where q: "fresh_loop (begin_traversal now) (crossbar_flits r) r = Some (q, r1)"
    and r': "r' = r1\<lparr>crossbar_flits := q\<rparr>"
    by (auto simp: SwitchEvaluate_def split: Option.bind_splits)
  have "r1 = r \<and> map snd q = map snd (crossbar_flits r)"
    by (rule fresh_loop_invariant [OF q]) (auto simp: begin_traversal_def)
  then have "r1 = r" "map (fst \<circ> snd) q = map (fst \<circ> snd) (crossbar_flits r)"
    by (simp_all flip: map_map)
  then show ?thesis by (simp add: r' adds_def dims_def flits_of_def)
qed

lemma stage_keeps:
  assumes "stage c f r = Some r'" and "\<And>r'. f r = Some r' \<Longrightarrow> keeps_flits r r'"
  shows "keeps_flits r r'"
  using assms by (auto simp: stage_def split: if_splits)

lemma vc_alloc_phase_keeps:
  "vc_alloc_phase M now (r, s) = Some (r', s') \<Longrightarrow> keeps_flits r r'"
  by (auto simp: vc_alloc_phase_def stage_def split: option.splits Option.bind_splits if_splits
      dest: VCAllocEvaluate_keeps)

lemma evaluate_stages_keeps:
  assumes "evaluate_stages M now (r, s) = Some (r', s')"
  shows "keeps_flits r r'"
proof -
  from assms obtain r1 r2 s2 r3 r4 where
    "stage (route_vcs r \<noteq> []) (RouteEvaluate now) r = Some r1"
    "vc_alloc_phase M now (r1, s) = Some (r2, s2)"
    "stage (hold_switch_for_packet r2 \<and> sw_hold_vcs r2 \<noteq> []) (SWHoldEvaluate now) r2 = Some r3"
    "stage (sw_alloc_vcs r3 \<noteq> []) (SWAllocEvaluate M now) (r3, clear_switch M s2) = Some (r4, s')"
    "stage (crossbar_flits r4 \<noteq> []) (SwitchEvaluate now) r4 = Some r'"
    by (auto simp: evaluate_stages_def split: Option.bind_splits)
  then have "keeps_flits r r1" "keeps_flits r1 r2" "keeps_flits r2 r3" "keeps_flits r3 r4"
    "keeps_flits r4 r'"
    by (auto simp: stage_def split: if_splits intro: RouteEvaluate_keeps SWHoldEvaluate_keeps
        SwitchEvaluate_keeps dest: vc_alloc_phase_keeps SWAllocEvaluate_keeps)
  then show ?thesis by (blast intro: keeps_trans)
qed

subsection \<open>Update\<close>

lemma small_keeps:
  "keeps_flits r (pop_route r)" "keeps_flits r (pop_vc_alloc r)" "keeps_flits r (pop_sw_hold r)"
  "keeps_flits r (pop_sw_alloc r)" "keeps_flits r (unspeculate erase r)"
  "keeps_flits r (forget_vc_entry input vc r)" "keeps_flits r (set_hold ein eout vc r)"
  "keeps_flits r (cancel_hold ein eout r)" "keeps_flits r (to_routing input vc r)"
proof -
  show "keeps_flits r (to_routing input vc r)"
    unfolding to_routing_def by (intro keeps_push upd_buf_quiet quiet_intros)
qed (simp_all add: pop_route_def pop_vc_alloc_def pop_sw_hold_def unspeculate_def pop_sw_alloc_def
    forget_vc_entry_def set_hold_def cancel_hold_def adds_def dims_def flits_of_def)

lemmas keeps_after = small_keeps [THEN keeps_trans [rotated]]

lemma finish_route_keeps:
  assumes "finish_route check mark env vca iv r = Some r'" and "\<And>f. who (mark f) = who f"
  shows "keeps_flits r r'"
proof -
  obtain input vc where iv: "iv = (input, vc)" by (cases iv)
  from assms(1) obtain os b where b: "Buffer_Route vc (\<lambda>_. os) (buf r ! input) = Some b"
    and r': "r' = (let r1 = upd_buf input (\<lambda>_. write_front vc mark (Buffer_SetState vc vc_alloc b)) r;
             r2 = (if speculative r then push_sw_alloc input vc r1 else r1);
             r3 = (if vca then push_vc_alloc input vc r2 else r2)
         in pop_route r3)"
    by (auto simp: iv finish_route_def Let_def split: Option.bind_splits)
  have "quiet (write_front vc mark \<circ> Buffer_SetState vc vc_alloc)"
    using assms(2) by (intro quiet_intros)
  then have "keeps_flits r (upd_buf input (\<lambda>_. write_front vc mark (Buffer_SetState vc vc_alloc b)) r)"
    using Buffer_Route_quiet [OF b] by (intro upd_buf_to) (auto simp: quiet_def)
  then show ?thesis unfolding r' Let_def by (auto intro: keeps_push keeps_after)
qed

lemma take_vc_keeps:
  assumes "take_vc input vc out out_vc r = Some r'"
  shows "keeps_flits r r'"
proof -
  from assms obtain d where r': "r' = (let r1 = upd_buf input (Buffer_SetState vc active \<circ>
        Buffer_SetOutput vc (int out) (int out_vc)) (r\<lparr>next_buf := (next_buf r)[out := d]\<rparr>)
      in if \<not> speculative r then push_sw_alloc input vc r1 else r1)"
    by (auto simp: take_vc_def Let_def split: Option.bind_splits)
  have "keeps_flits r (r\<lparr>next_buf := (next_buf r)[out := d]\<rparr>)"
    by (simp add: adds_def dims_def flits_of_def)
  moreover have "quiet (Buffer_SetState vc active \<circ> Buffer_SetOutput vc (int out) (int out_vc))"
    by (intro quiet_intros)
  ultimately have "keeps_flits r (upd_buf input (Buffer_SetState vc active \<circ>
        Buffer_SetOutput vc (int out) (int out_vc)) (r\<lparr>next_buf := (next_buf r)[out := d]\<rparr>))"
    by (blast intro: keeps_trans upd_buf_quiet)
  then show ?thesis unfolding r' Let_def by (auto intro: keeps_push)
qed

lemma back_to_route_keeps:
  assumes "back_to_route input vc r = Some r'"
  shows "keeps_flits r r'"
proof -
  from assms obtain b where b: "ClearRouteSet vc (buf r ! input) = Some b"
    and r': "r' = to_routing input vc (upd_buf input (\<lambda>_. b) r)"
    by (auto simp: back_to_route_def split: Option.bind_splits)
  have "keeps_flits r (upd_buf input (\<lambda>_. b) r)"
    using ClearRouteSet_quiet [OF b] by (intro upd_buf_to) auto
  then show ?thesis unfolding r' to_routing_def
    by (intro keeps_push) (blast intro: keeps_trans upd_buf_quiet quiet_intros)
qed

lemma iq_vc_update_keeps: "iq_vc_update x r = Some r' \<Longrightarrow> keeps_flits r r'"
  by (cases x) (auto simp: iq_vc_update_def split: Option.bind_splits if_splits prod.splits
      intro!: keeps_after keeps_push dest: take_vc_keeps)

lemma flov_vc_update_keeps:
  assumes "flov_vc_update env now x r = Some r'"
  shows "keeps_flits r r'"
proof -
  obtain input vc res where x: "x = ((input, vc), res)" by (cases x) auto
  have granted: "keeps_flits r s" if "flov_vc_granted env input vc out v r = Some s" for out v s
    using that by (auto simp: flov_vc_granted_def split: if_splits intro!: keeps_after
        dest: take_vc_keeps back_to_route_keeps)
  have refused: "keeps_flits r s" if "flov_vc_refused env now input vc f r = Some s" for f s
    using that by (auto simp: flov_vc_refused_def split: if_splits Option.bind_splits
        intro!: keeps_after keeps_push dest: back_to_route_keeps)
  from assms show ?thesis
    by (auto simp: x flov_vc_update_def split: Option.bind_splits if_splits
        intro!: keeps_after dest: granted refused)
qed

subsection \<open>Departure\<close>

lemma Buffer_RemoveFlit_flits:
  assumes "Buffer_RemoveFlit vc b = Some (f, b')"
  shows "buffer_flits b = buffer_flits b' + {# who f #}" and "length (b_vc b') = length (b_vc b)"
proof -
  from assms obtain v where v: "VC_RemoveFlit (b_vc b ! vc) = Some (f, v)" "vc < length (b_vc b)"
    "b_vc b' = (b_vc b)[vc := v]"
    by (auto simp: Buffer_RemoveFlit_def split: Option.bind_splits)
  then show "length (b_vc b') = length (b_vc b)" by simp
  have "ids (v_buffer (b_vc b ! vc)) = ids (v_buffer v) + {# who f #}"
    using v(1) by (cases "v_buffer (b_vc b ! vc)") (auto simp: VC_RemoveFlit_queue ids_def)
  moreover have "(\<Sum>x\<leftarrow>(b_vc b)[vc := v]. ids (v_buffer x)) + ids (v_buffer (b_vc b ! vc)) =
      (\<Sum>x\<leftarrow>b_vc b. ids (v_buffer x)) + ids (v_buffer v)"
    by (rule sum_list_update_add [OF v(2)])
  ultimately show "buffer_flits b = buffer_flits b' + {# who f #}"
    by (simp add: buffer_flits_def v(3))
qed

lemma look_ahead_keeps:
  "look_ahead env input vc out f r = Some (g, r') \<Longrightarrow> who g = who f \<and> keeps_flits r r'"
  by (auto simp: look_ahead_def Let_def adds_def dims_def flits_of_def
      split: if_splits Option.bind_splits)

definition advances :: "(flit \<Rightarrow> flit option) \<Rightarrow> bool" where
  "advances adv \<longleftrightarrow> (\<forall>f g. adv f = Some g \<longrightarrow> who g = who f)"

lemma advances_intros: "advances Some" "advances (flov_advance env input r)"
  by (auto simp: advances_def flov_advance_def split: if_splits Option.bind_splits)

lemma depart_keeps:
  assumes "depart adv env now input vc out out_vc ein eout r = Some (f, r')"
    and "advances adv" and "input < inputs r"
  shows "keeps_flits r r'"
proof -
  from assms(1) obtain f0 b g r1 d where b: "Buffer_RemoveFlit vc (buf r ! input) = Some (f0, b)"
    and g: "adv (f0\<lparr>f_hops := f_hops f0 + 1, f_vc := int out_vc\<rparr>) = Some g"
    and la: "look_ahead env input vc out g (upd_buf input (\<lambda>_. b) r) = Some (f, r1)"
    and r': "r' = r1\<lparr>next_buf := (next_buf r1)[out := d],
                 crossbar_flits := crossbar_flits r1 @ [(-1, f, ein, eout)],
                 out_queue_credits := add_credit input vc (out_queue_credits r1)\<rparr>"
    by (auto simp: depart_def split: Option.bind_splits)
  have "who g = who f0" using g assms(2) unfolding advances_def by fastforce
  then have fid: "who f = who f0" and r1: "keeps_flits (upd_buf input (\<lambda>_. b) r) r1"
    using look_ahead_keeps [OF la] by auto
  have add: "adds {# who f0 #} r1 r'"
    by (simp add: adds_def r' dims_def flits_of_def ids_def fid)
  have sub: "dims (upd_buf input (\<lambda>_. b) r) = dims r \<and>
      flits_of (upd_buf input (\<lambda>_. b) r) + {# who f0 #} = flits_of r" if s: "sized r"
  proof -
    have len: "input < length (buf r)" using sized_lengths(1) [OF s] assms(3) by simp
    have "(\<Sum>x\<leftarrow>(buf r)[input := b]. buffer_flits x) + {# who f0 #} = (\<Sum>x\<leftarrow>buf r. buffer_flits x)"
      using sum_list_update_add [OF len, of buffer_flits b] Buffer_RemoveFlit_flits(1) [OF b]
      by (simp add: ac_simps)
    then show ?thesis using Buffer_RemoveFlit_flits(2) [OF b]
      by (auto simp: upd_buf_def dims_def flits_of_def map_update_same)
  qed
  show ?thesis
  proof (cases "sized r")
    case True
    let ?u = "upd_buf input (\<lambda>_. b) r"
    have u: "dims ?u = dims r" "flits_of ?u + {# who f0 #} = flits_of r" using sub [OF True] by auto
    have su: "sized ?u" by (rule sized_dims [OF u(1) True])
    then have "dims r1 = dims ?u" "flits_of r1 = flits_of ?u" using r1 by (auto simp: adds_def)
    moreover from this su have "sized r1" using sized_dims by blast
    ultimately show ?thesis using add u r1 by (auto simp: adds_def upd_buf_def)
  next
    case False
    then show ?thesis using add r1 by (auto simp: adds_def upd_buf_def)
  qed
qed

lemma next_in_vc_keeps:
  assumes "next_in_vc env vca mark input vc f release rest r = Some r'"
    and "\<And>f. who (mark f) = who f"
    and "\<And>r. keeps_flits r (release r)" and "\<And>r. keeps_flits r (rest r)"
  shows "keeps_flits r r'"
proof -
  have m: "keeps_flits r (upd_buf input (write_front vc mark) (release r))"
    by (rule keeps_trans [OF assms(3) upd_buf_quiet]) (use assms(2) in \<open>intro quiet_intros\<close>)
  have i: "keeps_flits r (upd_buf input (Buffer_SetState vc idle) (release r))"
    by (rule keeps_trans [OF assms(3) upd_buf_quiet]) (intro quiet_intros)
  show ?thesis
    using assms(1,3,4) m i
    by (auto simp: next_in_vc_def split: option.splits if_splits dest!: start_packet_keeps
        intro: keeps_trans)
qed

lemma use_hold_keeps:
  assumes "use_hold adv mark env vca now input vc ein eout r = Some r'"
    and "advances adv" and "input < inputs r" and "\<And>f. who (mark f) = who f"
  shows "keeps_flits r r'"
proof -
  from assms(1) obtain out_vc f r1 where
    d: "depart adv env now input vc (eout div output_speedup r) out_vc ein eout r = Some (f, r1)"
    and n: "next_in_vc env vca mark input vc f (cancel_hold ein eout) (push_sw_hold input vc) r1 = Some r'"
    by (auto simp: use_hold_def Let_def split: Option.bind_splits)
  have "keeps_flits r1 r'" by (rule next_in_vc_keeps [OF n assms(4)]) (rule small_keeps push_keeps)+
  then show ?thesis by (rule keeps_trans [OF depart_keeps [OF d assms(2,3)]])
qed

lemma hold_update_keeps:
  assumes "hold_update adv mark env vca now x r = Some r'"
    and "\<And>r i. advances (adv r i)" and "\<And>f. who (mark f) = who f"
  shows "keeps_flits r r'"
proof -
  obtain input vc res where x: "x = ((input, vc), res)" by (cases x) auto
  from assms(1) obtain r1 where i: "input < inputs r" and r': "r' = pop_sw_hold r1"
    and "use_hold (adv r input) mark env vca now input vc (hold_index input vc r) (nat res) r = Some r1 \<or>
      lose_hold input vc (hold_index input vc r) res r = Some r1"
    by (auto simp: x hold_update_def Let_def front_at_def split: Option.bind_splits if_splits)
  then have "keeps_flits r r1"
    using use_hold_keeps [OF _ assms(2) i assms(3)]
    by (auto simp: lose_hold_def split: Option.bind_splits intro: keeps_push small_keeps)
  then show ?thesis unfolding r' by (rule keeps_after)
qed

lemma traverse_keeps:
  assumes "traverse adv env vca now input vc v eout r = Some r'"
    and "advances adv" and "input < inputs r"
  shows "keeps_flits r r'"
proof -
  from assms(1) obtain f r1 where
    d: "depart adv env now input vc (eout div output_speedup r) v (hold_index input vc r) eout r = Some (f, r1)"
    and n: "next_in_vc env vca id input vc f id
        (\<lambda>s. if hold_switch_for_packet s
             then push_sw_hold input vc (set_hold (hold_index input vc r) eout vc s)
             else push_sw_alloc input vc s) r1 = Some r'"
    by (auto simp: traverse_def Let_def split: Option.bind_splits)
  have "keeps_flits r1 r'"
    by (rule next_in_vc_keeps [OF n]) (auto intro: keeps_push small_keeps)
  then show ?thesis by (rule keeps_trans [OF depart_keeps [OF d assms(2,3)]])
qed

lemma piggyback_take_keeps:
  assumes "piggyback_take now input vc out f r = Some (v, r')"
  shows "keeps_flits r r' \<and> inputs r' = inputs r"
proof -
  from assms obtain w d o' where r': "r' = (upd_buf input (Buffer_SetOutput vc (int out) w \<circ>
      Buffer_SetState vc active) r)\<lparr>next_buf := (next_buf r)[out := d], vc_rr_offset := o'\<rparr>"
    by (auto simp: piggyback_take_def Let_def split: Option.bind_splits)
  let ?u = "upd_buf input (Buffer_SetOutput vc (int out) w \<circ> Buffer_SetState vc active) r"
  have "keeps_flits r ?u" by (intro upd_buf_quiet quiet_intros)
  moreover have "keeps_flits ?u r'" by (simp add: r' adds_def dims_def flits_of_def upd_buf_def)
  ultimately show ?thesis by (auto intro: keeps_trans simp: r' upd_buf_def)
qed

lemma front_at_input: "front_at ok input vc r = Some f \<Longrightarrow> input < inputs r"
  by (auto simp: front_at_def split: Option.bind_splits)

lemma iq_sw_update_keeps:
  assumes "iq_sw_update env vca now x r = Some r'"
  shows "keeps_flits r r'"
proof -
  obtain input vc res where x: "x = ((input, vc), res)" by (cases x) auto
  have go: "keeps_flits r s" if "traverse Some env vca now input vc v eout r0 = Some s"
    "keeps_flits r r0 \<and> inputs r0 = inputs r" "input < inputs r" for v eout r0 s
    using that traverse_keeps [OF that(1) advances_intros(1)] by (auto intro: keeps_trans)
  from assms show ?thesis
    by (auto simp: x iq_sw_update_def Let_def split: Option.bind_splits if_splits
        intro!: keeps_after keeps_push dest!: piggyback_take_keeps front_at_input intro: go)
qed

lemma give_back_keeps: "give_back out v r = Some r' \<Longrightarrow> keeps_flits r r'"
  by (auto simp: give_back_def adds_def dims_def flits_of_def split: Option.bind_splits)

lemma withdraw_keeps: "withdraw input vc out v r = Some r' \<Longrightarrow> keeps_flits r r'"
  by (auto simp: withdraw_def split: Option.bind_splits if_splits
      dest!: back_to_route_keeps give_back_keeps intro: keeps_trans small_keeps)

lemma flov_reroute_keeps: "flov_reroute env input vc r = Some (r', b) \<Longrightarrow> keeps_flits r r'"
  by (auto simp: flov_reroute_def Let_def split: Option.bind_splits if_splits
      dest!: back_to_route_keeps give_back_keeps intro: keeps_trans small_keeps)

lemma flov_sw_timeout_keeps: "flov_sw_timeout input vc r = Some r' \<Longrightarrow> keeps_flits r r'"
  by (auto simp: flov_sw_timeout_def Let_def split: Option.bind_splits if_splits
      intro!: keeps_after small_keeps(6) dest!: give_back_keeps)

lemma flov_sw_refused_keeps:
  "flov_sw_refused env now input vc f r = Some r' \<Longrightarrow> keeps_flits r r'"
  by (auto simp: flov_sw_refused_def split: Option.bind_splits if_splits
      dest!: flov_sw_timeout_keeps flov_reroute_keeps intro: keeps_trans keeps_push)

lemma flov_sw_granted_keeps:
  assumes "flov_sw_granted env vca now input vc f eout r = Some r'" and "input < inputs r"
  shows "keeps_flits r r'"
proof -
  have go: "keeps_flits r s"
    if "traverse (flov_advance env input r) env vca now input vc v eout r0 = Some s"
    "keeps_flits r r0 \<and> inputs r0 = inputs r" for v r0 s
    using that traverse_keeps [OF that(1) advances_intros(2)] assms(2) by (auto intro: keeps_trans)
  from assms show ?thesis
    by (auto simp: flov_sw_granted_def Let_def split: Option.bind_splits if_splits
        dest!: piggyback_take_keeps withdraw_keeps intro: go)
qed

lemma flov_sw_update_keeps:
  "flov_sw_update env vca now x r = Some r' \<Longrightarrow> keeps_flits r r'"
  by (cases x) (auto simp: flov_sw_update_def split: Option.bind_splits if_splits prod.splits
      intro!: keeps_after dest: front_at_input intro: flov_sw_granted_keeps flov_sw_refused_keeps)

subsection \<open>The crossbar\<close>

text \<open>The loop carries the entries it has still to visit, so that the one it pops is known.\<close>

lemma drain_loop_rest:
  assumes "drain_loop stop now body its s = Some t" and "P its s"
    and "\<And>x its s s'. P ((now, x) # its) s \<Longrightarrow> body x s = Some s' \<Longrightarrow> P its s'"
  shows "\<exists>rest. P rest t"
  using assms(1,2)
proof (induction its arbitrary: s)
  case (Cons it its)
  obtain time x where it: "it = (time, x)" by (cases it)
  show ?case
  proof (cases "stop time")
    case True
    with Cons.prems it show ?thesis by auto
  next
    case False
    with Cons.prems(1) it obtain s' where s': "time = now" "body x s = Some s'"
      "drain_loop stop now body its s' = Some t"
      by (auto split: if_splits option.splits)
    have "P its s'" using assms(3) Cons.prems(2) s'(1,2) it by blast
    then show ?thesis using Cons.IH [OF s'(3)] by blast
  qed
qed auto

lemma finish_traversal_keeps:
  assumes "finish_traversal (f, ein, eout) r = Some r'" and "crossbar_flits r = (time, f, ein, eout) # its"
  shows "keeps_flits r r' \<and> crossbar_flits r' = its"
proof -
  define out where "out = eout div output_speedup r"
  from assms(1) have out: "out < outputs r"
    and r': "r' = r\<lparr>output_buffer := (output_buffer r)[out := output_buffer r ! out @ [f]],
      crossbar_flits := tl (crossbar_flits r)\<rparr>"
    by (auto simp: finish_traversal_def Let_def out_def split: Option.bind_splits)
  have "flits_of r' = flits_of r" if s: "sized r"
  proof -
    have "(\<Sum>q\<leftarrow>(output_buffer r)[out := output_buffer r ! out @ [f]]. ids q) =
        (\<Sum>q\<leftarrow>output_buffer r. ids q) + {# who f #}"
      using sum_list_update_add [of out "output_buffer r" ids "output_buffer r ! out @ [f]"]
        sized_lengths(4) [OF s] out by (simp add: ids_def ac_simps)
    then show ?thesis by (simp add: r' flits_of_def assms(2) ids_def)
  qed
  then show ?thesis by (simp add: r' adds_def dims_def assms(2))
qed

lemma SwitchUpdate_keeps:
  assumes "SwitchUpdate now r = Some r'"
  shows "keeps_flits r r'"
proof -
  have "\<exists>rest. keeps_flits r r' \<and> crossbar_flits r' = rest"
  proof (rule drain_loop_rest [OF assms [unfolded SwitchUpdate_def]])
    show "keeps_flits r t \<and> crossbar_flits t = its"
      if "keeps_flits r s \<and> crossbar_flits s = (now, x) # its" "finish_traversal x s = Some t"
      for x its s t
      using finish_traversal_keeps [of "fst x" "fst (snd x)" "snd (snd x)" s t] that
      by (auto intro: keeps_trans)
  qed simp
  then show ?thesis by blast
qed

lemma FLOV_updates_keep:
  "FLOV_RouteUpdate env vca now r = Some r' \<Longrightarrow> keeps_flits r r'"
  "FLOV_VCAllocUpdate env now r = Some r' \<Longrightarrow> keeps_flits r r'"
  "FLOV_SWHoldUpdate env vca now r = Some r' \<Longrightarrow> keeps_flits r r'"
  "FLOV_SWAllocUpdate env vca now r = Some r' \<Longrightarrow> keeps_flits r r'"
  by (auto simp: FLOV_RouteUpdate_def FLOV_VCAllocUpdate_def FLOV_SWHoldUpdate_def
      FLOV_SWAllocUpdate_def elim!: drain_loop_keeps
      dest: finish_route_keeps flov_vc_update_keeps hold_update_keeps flov_sw_update_keeps
      intro: advances_intros)

lemma IQ_updates_keep:
  "IQ_RouteUpdate env vca now r = Some r' \<Longrightarrow> keeps_flits r r'"
  "IQ_VCAllocUpdate now r = Some r' \<Longrightarrow> keeps_flits r r'"
  "IQ_SWHoldUpdate env vca now r = Some r' \<Longrightarrow> keeps_flits r r'"
  "IQ_SWAllocUpdate env vca now r = Some r' \<Longrightarrow> keeps_flits r r'"
  by (auto simp: IQ_RouteUpdate_def IQ_VCAllocUpdate_def IQ_SWHoldUpdate_def
      IQ_SWAllocUpdate_def elim!: drain_loop_keeps
      dest: finish_route_keeps iq_vc_update_keeps hold_update_keeps iq_sw_update_keeps
      intro: advances_intros)

subsection \<open>A cycle of the pipeline\<close>

text \<open>The stages of a class that take part.\<close>

locale conserving_stages =
  fixes U :: "'a iq_router_scheme stage_updates"
  assumes input_flits: "u_input U env vca now r = Some r' \<Longrightarrow> sized r \<Longrightarrow>
      dims r' = dims r \<and> flits_of r' = flits_of r \<and> in_queue_flits r' = []"
    and route_keeps: "u_route U env vca now r = Some r' \<Longrightarrow> keeps_flits r r'"
    and vc_alloc_keeps: "u_vc_alloc U env now r = Some r' \<Longrightarrow> keeps_flits r r'"
    and sw_hold_keeps: "u_sw_hold U env vca now r = Some r' \<Longrightarrow> keeps_flits r r'"
    and sw_alloc_keeps: "u_sw_alloc U env vca now r = Some r' \<Longrightarrow> keeps_flits r r'"
begin

lemma update_stages_keeps:
  assumes "update_stages U env vca now r = Some (r', b)"
  shows "keeps_flits r r'"
proof -
  from assms obtain r1 r2 r3 r4 where
    "stage (route_vcs r \<noteq> []) (u_route U env vca now) r = Some r1"
    "stage (vc_alloc_vcs r1 \<noteq> []) (u_vc_alloc U env now) r1 = Some r2"
    "stage (hold_switch_for_packet r2 \<and> sw_hold_vcs r2 \<noteq> []) (u_sw_hold U env vca now) r2 = Some r3"
    "stage (sw_alloc_vcs r3 \<noteq> []) (u_sw_alloc U env vca now) r3 = Some r4"
    "stage (crossbar_flits r4 \<noteq> []) (SwitchUpdate now) r4 = Some r'"
    by (auto simp: update_stages_def split: Option.bind_splits)
  then have "keeps_flits r r1" "keeps_flits r1 r2" "keeps_flits r2 r3" "keeps_flits r3 r4"
    "keeps_flits r4 r'"
    by (auto elim!: stage_keeps intro: route_keeps vc_alloc_keeps sw_hold_keeps sw_alloc_keeps
        SwitchUpdate_keeps)
  then show ?thesis by (blast intro: keeps_trans)
qed

lemma pipeline_flits:
  assumes "pipeline_step U env M now (r, s) = Some ((r', b), s')" and "sized r"
  shows "dims r' = dims r \<and> flits_of r' = flits_of r \<and> in_queue_flits r' = []"
proof -
  define vca where "vca \<longleftrightarrow> vc_allocator s \<noteq> None"
  have "\<exists>rb. pipeline_step U env M now (r, s) = Some (rb, s') \<and> fst rb = r'" using assms(1) by simp
  then obtain r1 r2 c where i: "u_input U env vca now r = Some r1"
    and e: "evaluate_stages M now (r1, s) = Some (r2, s')"
    and u: "update_stages U env vca now r2 = Some (r', c)"
    by (auto simp: pipeline_step_def vca_def Let_def split: Option.bind_splits)
  have r1: "dims r1 = dims r" "flits_of r1 = flits_of r" "in_queue_flits r1 = []"
    using input_flits [OF i assms(2)] by auto
  have "sized r1" by (rule sized_dims [OF r1(1) assms(2)])
  moreover have "keeps_flits r1 r'"
    using evaluate_stages_keeps [OF e] update_stages_keeps [OF u] by (rule keeps_trans)
  ultimately show ?thesis using r1 by (simp add: adds_def)
qed

end

interpretation iq: conserving_stages IQ_updates
  by unfold_locales (auto simp: IQ_updates_def dest: IQ_InputQueuing_flits IQ_updates_keep)

interpretation flov: conserving_stages FLOV_updates
  by unfold_locales (auto simp: FLOV_updates_def dest: FLOV_InputQueuing_flits FLOV_updates_keep)

end
