(* ===== verification/Router_Flits.thy ===== *)
theory Router_Flits
  imports Flit_Conservation Handshake_Properties
begin

text \<open>
  Conservation of flits over whole cycles of a FLOV router
  (src/booksim2/src/routers/flov_router.cpp), awake and asleep: the handshake code does not touch
  them, a sleeping router passes them on, and what comes in through the input channels is what is
  inside or has gone out.
\<close>

subsection \<open>Handshakes do not touch flits\<close>

definition flit_frame :: "flov_router \<Rightarrow> flov_router \<Rightarrow> bool" where
  "flit_frame r r' \<longleftrightarrow> in_queue_flits r' = in_queue_flits r \<and> buf r' = buf r \<and>
     crossbar_flits r' = crossbar_flits r \<and> output_buffer r' = output_buffer r \<and>
     dims r' = dims r \<and> rid r' = rid r \<and> r_active r' = r_active r"

lemma flit_frame_refl [simp]: "flit_frame r r"
  by (simp add: flit_frame_def)

lemma flit_frame_trans: "flit_frame r s \<Longrightarrow> flit_frame s t \<Longrightarrow> flit_frame r t"
  by (simp add: flit_frame_def)

lemma flit_frame_keeps: "flit_frame r r' \<Longrightarrow> keeps_flits r r'"
  by (simp add: flit_frame_def adds_def flits_of_def)

lemma foldM_flit_frame:
  assumes "foldM f xs r = Some r'" and "\<And>x r r'. f x r = Some r' \<Longrightarrow> flit_frame r r'"
  shows "flit_frame r r'"
  by (rule foldM_invariant [OF assms(1), where P = "flit_frame r"])
    (auto intro: flit_frame_trans assms(2))

lemma effects_flit_frame [simp]:
  "flit_frame r (forget_sent i r)" "flit_frame r (full_credits i r)" "flit_frame r (clear_credits i r)"
  "flit_frame r (zero_counters i r)" "flit_frame r (note_hid i h r)"
  "flit_frame r (r\<lparr>drain_tags := t\<rparr>)" "flit_frame r (r\<lparr>neighbor_states := ns\<rparr>)"
  "flit_frame r (r\<lparr>logical_neighbors := ln\<rparr>)" "flit_frame r (r\<lparr>downstream_states := ds\<rparr>)"
  "flit_frame r (r\<lparr>proc_handshakes := ph\<rparr>)" "flit_frame r (r\<lparr>out_queue_handshakes := oq\<rparr>)"
  "flit_frame r (r\<lparr>out_queue_handshakes := oq, drain_done_sent := ds'\<rparr>)"
  using zero_counters_eq [of i r]
  by (auto simp: flit_frame_def dims_def forget_sent_def full_credits_def clear_credits_def note_hid_def)

lemma receive_flit_frame:
  "hs_power_on i h r = Some r' \<Longrightarrow> flit_frame r r'"
  "draining_state_change i h r = Some r' \<Longrightarrow> flit_frame r r'"
  "hs_power_off i h r = Some r' \<Longrightarrow> flit_frame r r'"
  "wakeup_state_change i h r = Some r' \<Longrightarrow> flit_frame r r'"
  by (auto simp: hs_power_on_def draining_state_change_def hs_power_off_def wakeup_state_change_def
      Let_def split: option.splits power_state.splits if_splits
      intro!: flit_frame_trans [OF _ effects_flit_frame(5)]
      intro: flit_frame_trans [OF effects_flit_frame(1) effects_flit_frame(3)]
        flit_frame_trans [OF effects_flit_frame(4) effects_flit_frame(2)]
        flit_frame_trans [OF effects_flit_frame(4) effects_flit_frame(3)]
        flit_frame_trans [OF effects_flit_frame(2) effects_flit_frame(1)])

lemma hs_receive_flit_frame:
  assumes "hs_receive i h r = Some r'"
  shows "flit_frame r r'"
  using assms
  by (auto simp: hs_receive_def hs_draining_def hs_wakeup_arm_def
      split: power_state.splits Option.bind_splits if_splits
      dest!: receive_flit_frame intro: flit_frame_trans)

lemma hs_turn_flit_frame:
  assumes "hs_turn gK ih s = Some s'"
  shows "flit_frame (fst s) (fst s')"
proof -
  from assms obtain u where u: "hs_receive (fst ih) (snd ih) (fst s) = Some u"
    and up: "hs_update gK (fst ih) (snd ih) u (snd s) = Some s'"
    by (auto simp: hs_turn_def split: if_splits Option.bind_splits)
  have "flit_frame u (fst s')"
    using up by (auto simp: hs_update_def Let_def flit_frame_def dims_def
        split: option.splits if_splits Option.bind_splits)
  then show ?thesis using hs_receive_flit_frame [OF u] by (rule flit_frame_trans [rotated])
qed

lemma relay_flit_frame: "relay_frame r r' \<Longrightarrow> flit_frame r r'"
  by (auto simp: relay_frame_def)

lemma HandshakeEvaluate_flit_frame:
  assumes "HandshakeEvaluate gK r = Some r'"
  shows "flit_frame r r'"
proof -
  from assms obtain r1 nds r2 where
    f1: "foldM (hs_turn gK) (proc_handshakes r) (r, downstream_states r) = Some (r1, nds)"
    and f2: "foldM (hs_relay gK) (proc_handshakes r1) (r1\<lparr>downstream_states := nds\<rparr>) = Some r2"
    and r': "r' = r2\<lparr>proc_handshakes := []\<rparr>"
    by (auto simp: HandshakeEvaluate_def split: Option.bind_splits)
  have "flit_frame r (fst (r1, nds))"
    by (rule foldM_invariant [OF f1, where P = "\<lambda>s. flit_frame r (fst s)"])
      (auto intro: flit_frame_trans dest: hs_turn_flit_frame)
  moreover have "flit_frame (r1\<lparr>downstream_states := nds\<rparr>) r2"
    by (rule relay_flit_frame [OF relay_loop_frame [OF f2]])
  ultimately show ?thesis unfolding r' by (simp add: flit_frame_def dims_def)
qed

lemma HandshakeResponse_flit_frame:
  assumes "HandshakeResponse now r = Some r'"
  shows "flit_frame r r'"
proof -
  have "foldM (respond_port now) [0..<4] r = Some r'"
    using assms by (auto simp: HandshakeResponse_def)
  then show ?thesis
    by (rule foldM_flit_frame)
      (auto simp: respond_port_def send_drain_tag_def Let_def split: if_splits Option.bind_splits)
qed

lemma OutputQueuing_flit_frame:
  assumes "OutputQueuing r = Some r'"
  shows "flit_frame r r'"
proof -
  from assms obtain r1 r2 where f: "foldM queue_credit (out_queue_credits r) r = Some r1"
    and g: "foldM queue_outgoing (out_queue_handshakes r1) (r1\<lparr>out_queue_credits := []\<rparr>) = Some r2"
    and r': "r' = r2\<lparr>out_queue_handshakes := []\<rparr>"
    by (auto simp: OutputQueuing_def OutputQueuing_handshakes_def split: Option.bind_splits)
  have "flit_frame r r1"
    by (rule foldM_flit_frame [OF f])
      (auto simp: queue_credit_def flit_frame_def dims_def split: Option.bind_splits)
  moreover have "flit_frame r1 (r1\<lparr>out_queue_credits := []\<rparr>)" by (simp add: flit_frame_def dims_def)
  moreover have "flit_frame (r1\<lparr>out_queue_credits := []\<rparr>) r2"
    by (rule foldM_flit_frame [OF g])
      (auto simp: queue_outgoing_def flit_frame_def dims_def split: Option.bind_splits)
  ultimately show ?thesis unfolding r' by (blast intro: flit_frame_trans effects_flit_frame)
qed

lemma IQ_OutputQueuing_keeps:
  assumes "IQ_OutputQueuing r = Some r'"
  shows "keeps_flits r r'"
proof -
  from assms obtain r1 where f: "foldM IQ_queue_credit (out_queue_credits r) r = Some r1"
    and r': "r' = r1\<lparr>out_queue_credits := []\<rparr>"
    by (auto simp: IQ_OutputQueuing_def)
  have "keeps_flits r r1"
    by (rule foldM_keeps [OF f])
      (auto simp: IQ_queue_credit_def adds_def dims_def flits_of_def split: Option.bind_splits)
  moreover have "keeps_flits r1 r'" by (simp add: r' adds_def dims_def flits_of_def)
  ultimately show ?thesis by (rule keeps_trans)
qed

subsection \<open>Power transitions do not touch flits\<close>

definition flit_view where
  "flit_view r = (in_queue_flits r, buf r, crossbar_flits r, output_buffer r, dims r, rid r, r_active r)"

lemma flit_frame_view: "flit_frame r r' \<longleftrightarrow> flit_view r' = flit_view r"
  by (simp add: flit_frame_def flit_view_def)

lemma flit_view_updates [simp]:
  "flit_view (r\<lparr>wakeup_signal := b\<rparr>) = flit_view r" "flit_view (r\<lparr>idle_timer := i\<rparr>) = flit_view r"
  "flit_view (r\<lparr>drain_timer := i\<rparr>) = flit_view r" "flit_view (r\<lparr>wakeup_timer := i\<rparr>) = flit_view r"
  "flit_view (r\<lparr>off_timer := i\<rparr>) = flit_view r" "flit_view (r\<lparr>power_state := s\<rparr>) = flit_view r"
  "flit_view (r\<lparr>drain_counter := i\<rparr>) = flit_view r" "flit_view (r\<lparr>off_counter := i\<rparr>) = flit_view r"
  "flit_view (r\<lparr>drain_timeout_counter := i\<rparr>) = flit_view r" "flit_view (r\<lparr>drain_tags := t\<rparr>) = flit_view r"
  "flit_view (r\<lparr>power_off_cycles := n\<rparr>) = flit_view r" "flit_view (r\<lparr>credit_counter := c\<rparr>) = flit_view r"
  "flit_view (r\<lparr>total_power_off_cycles := n\<rparr>) = flit_view r"
  "flit_view (record_drain_time r) = flit_view r" "flit_view (clear_drain_tags r) = flit_view r"
  by (simp_all add: flit_view_def dims_def record_drain_time_def clear_drain_tags_def)

lemma announce_view [simp]: "flit_view (announce gK ns r) = flit_view r"
  by (subst announce_only_queue [of r gK ns, unfolded only_queue_def])
    (simp add: flit_view_def dims_def)

lemma request_drain_view [simp]: "flit_view (request_drain gK s r) = flit_view r"
proof -
  obtain t where "request_drain gK s r = (announce gK (to_state s) r)\<lparr>drain_tags := t\<rparr>"
    using request_drain_eq by blast
  then show ?thesis by simp
qed

lemma power_steps_view:
  "abort_drain gK r = Some r' \<Longrightarrow> flit_view r' = flit_view r"
  "start_drain gK r = Some r' \<Longrightarrow> flit_view r' = flit_view r"
  "power_down gK now r = Some r' \<Longrightarrow> flit_view r' = flit_view r"
  "wakeup_arm gK r = Some r' \<Longrightarrow> flit_view r' = flit_view r"
  "flit_view (start_wakeup gK r) = flit_view r"
  by (auto simp: abort_drain_def start_drain_def power_down_def wakeup_arm_def finish_wakeup_def
      start_wakeup_def Let_def only_credits_def split: Option.bind_splits dest!: save_credits_frame)

lemma PowerStateEvaluate_flit_frame:
  assumes "PowerStateEvaluate gK gNodes now r = Some r'"
  shows "flit_frame r r'"
proof -
  have g: "flit_view s' = flit_view s" if "gflov_power_on gK s = Some s' \<or> rflov_power_on gK s = Some s' \<or>
      noflov_power_on s = Some s' \<or> gflov_power_off s = Some s'" for s s'
    using that by (auto simp: gflov_power_on_def rflov_power_on_def noflov_power_on_def
        gflov_power_off_def Let_def split: if_splits dest: power_steps_view(2))
  have d: "flit_view s' = flit_view s" if "gflov_draining gK now s = Some s' \<or>
      rflov_draining gK now s = Some s' \<or> noflov_draining gK s = Some s'" for s s'
    using that by (auto simp: gflov_draining_def rflov_draining_def noflov_draining_def
        Let_def split: if_splits dest!: power_steps_view(1,3))
  have o: "flit_view s' = flit_view s" if "rflov_power_off gK s = Some s' \<or>
      noflov_power_off gK s = Some s' \<or> rflov_wakeup gK s = Some s'" for s s'
    using that by (auto simp: rflov_power_off_def noflov_power_off_def rflov_wakeup_def Let_def
        power_steps_view(5) split: if_splits dest!: power_steps_view(4))
  show ?thesis using assms
    by (auto simp: flit_frame_view PowerStateEvaluate_def GFLOVPowerStateEvaluate_def
        RFLOVPowerStateEvaluate_def NoFLOVPowerStateEvaluate_def
        split: flov_policy.splits power_state.splits intro: g d o power_steps_view(4))
qed

subsection \<open>Asleep\<close>

lemma bypassed_id [simp]: "who (bypassed gK sinks i input f) = who f"
  by (simp add: bypassed_def Let_def)

lemma bypass_flit_adds:
  assumes "bypass_flit gK sinks now x r = Some r'" and "4 \<le> outputs r"
  shows "adds {# who (snd x) #} r r'"
proof -
  define out where "out = opp (fst x)"
  from assms(1) obtain d where i: "fst x < 4" and r': "r' = r\<lparr>next_buf := (next_buf r)[out := d],
      output_buffer := (output_buffer r)
        [out := output_buffer r ! out @ [bypassed gK sinks (rid r) (fst x) (snd x)]]\<rparr>"
    by (auto simp: bypass_flit_def Let_def out_def split: Option.bind_splits if_splits)
  have "flits_of r' = flits_of r + {# who (snd x) #}" if s: "sized r"
  proof -
    have "out < length (output_buffer r)"
      using i assms(2) sized_lengths(4) [OF s] opp_less_4 [of "fst x"] unfolding out_def by linarith
    then have "(\<Sum>q\<leftarrow>output_buffer r'. ids q) = (\<Sum>q\<leftarrow>output_buffer r. ids q) + {# who (snd x) #}"
      using sum_list_update_add [of out "output_buffer r" ids
          "output_buffer r ! out @ [bypassed gK sinks (rid r) (fst x) (snd x)]"]
      by (simp add: r' ids_def ac_simps)
    then show ?thesis by (simp add: flits_of_def r')
  qed
  then show ?thesis by (simp add: adds_def dims_def r')
qed

lemma bypass_flits_flits:
  assumes "bypass_flits gK sinks now r = Some r'" and "sized r" and "4 \<le> outputs r"
  shows "dims r' = dims r \<and> flits_of r' = flits_of r \<and> in_queue_flits r' = []"
proof -
  from assms(1) obtain r1 where f: "foldM (bypass_flit gK sinks now) (in_queue_flits r) r = Some r1"
    and r': "r' = r1\<lparr>in_queue_flits := []\<rparr>"
    by (auto simp: bypass_flits_def)
  have outs: "bypass_flit gK sinks now x s = Some t \<Longrightarrow> outputs t = outputs s" for x s t
    by (auto simp: bypass_flit_def Let_def split: Option.bind_splits if_splits)
  have a: "adds (mset (map (who \<circ> snd) xs)) s t"
    if "foldM (bypass_flit gK sinks now) xs s = Some t" "4 \<le> outputs s" for xs s t
    using that
  proof (induction xs arbitrary: s)
    case (Cons x xs)
    then obtain u where u: "bypass_flit gK sinks now x s = Some u"
      "foldM (bypass_flit gK sinks now) xs u = Some t" by (auto split: option.splits)
    have "4 \<le> outputs u" using outs [OF u(1)] Cons.prems(2) by simp
    from adds_trans [OF bypass_flit_adds [OF u(1) Cons.prems(2)] Cons.IH [OF u(2) this]]
    show ?case by simp
  qed simp
  then have "adds (ids (map snd (in_queue_flits r))) r r1"
    using f assms(3) by (simp add: ids_def)
  then show ?thesis using assms(2)
    by (auto simp: adds_def r' flits_of_def dims_def ids_def ac_simps)
qed

lemma relay_credits_keeps:
  "relay_credits gK now cs r = Some r' \<Longrightarrow> keeps_flits r r'"
proof (induction gK now cs r rule: relay_credits.induct)
  case (2 gK now time c out cs r)
  show ?case
  proof (cases "now < time")
    case True
    with 2(2) show ?thesis by (auto simp: adds_def dims_def flits_of_def)
  next
    case False
    with 2(2) obtain d where d: "out < outputs r" "ProcessCredit now c (next_buf r ! out) = Some d"
      "relay_credits gK now cs (relay_credit gK out c (r\<lparr>next_buf := (next_buf r)[out := d]\<rparr>)) = Some r'"
      by (auto split: if_splits option.splits)
    have "keeps_flits r (relay_credit gK out c (r\<lparr>next_buf := (next_buf r)[out := d]\<rparr>))"
      by (simp add: relay_credit_def adds_def dims_def flits_of_def)
    with 2(1) [OF False _ d(2,3)] d(1) show ?thesis using keeps_trans by blast
  qed
qed (auto simp: adds_def dims_def flits_of_def)

lemma hand_over_keeps: "keeps_flits r (hand_over r)"
proof -
  have one: "keeps_flits r (hand_over_vc i v r)" for i v r
    by (simp add: hand_over_vc_def Let_def adds_def dims_def flits_of_def)
  have port: "keeps_flits r (fold (hand_over_vc i) vs r)" for i vs r
    by (rule fold_invariant' [where P = "keeps_flits r"]) (auto intro: keeps_trans one)
  show ?thesis unfolding hand_over_def
    by (rule fold_invariant' [where P = "keeps_flits r"]) (auto intro: keeps_trans port)
qed

lemma FlovStep_flits:
  assumes "FlovStep gK sinks now r = Some r'" and "sized r" and "4 \<le> outputs r"
  shows "dims r' = dims r \<and> flits_of r' = flits_of r \<and> in_queue_flits r' = []"
proof -
  from assms(1) obtain r1 r2 where 1: "bypass_flits gK sinks now r = Some r1"
    and 2: "relay_credits gK now (proc_credits r1) r1 = Some r2" and 3: "r' = hand_over r2"
    by (auto simp: FlovStep_def split: Option.bind_splits)
  have b: "dims r1 = dims r" "flits_of r1 = flits_of r" "in_queue_flits r1 = []"
    using bypass_flits_flits [OF 1 assms(2,3)] by auto
  have "keeps_flits r1 r'" unfolding 3 using relay_credits_keeps [OF 2] hand_over_keeps
    by (rule keeps_trans)
  then show ?thesis using b sized_dims [OF b(1) assms(2)] by (simp add: adds_def)
qed

subsection \<open>One cycle\<close>

lemma active_flits [simp]: "dims (r\<lparr>r_active := b\<rparr>) = dims r" "flits_of (r\<lparr>r_active := b\<rparr>) = flits_of r"
  by (simp_all add: dims_def flits_of_def)

lemma frame_flits:
  "flit_frame r r' \<Longrightarrow> dims r' = dims r \<and> flits_of r' = flits_of r \<and> in_queue_flits r' = in_queue_flits r"
  by (simp add: flit_frame_def flits_of_def)

text \<open>A router that has just got flits is active, so that the step takes them out of the latches.\<close>

lemma InternalStep_flits:
  assumes "FLOV_InternalStep env M now (r, s) = Some (r', s')" and "sized r" and "4 \<le> outputs r"
  shows "flits_of r' = flits_of r \<and> dims r' = dims r \<and>
    ((in_queue_flits r \<noteq> [] \<longrightarrow> r_active r) \<longrightarrow> in_queue_flits r' = [])"
proof (cases "power_state r = power_off \<or> power_state r = wakeup")
  case True
  with assms(1) obtain r1 r2 where 1: "FlovStep (e_k env) (sinks_of env) now r = Some r1"
    and 2: "OutputQueuing r1 = Some r2" and r': "\<exists>b. r' = r2\<lparr>r_active := b\<rparr>"
    by (auto simp: FLOV_InternalStep_def split: Option.bind_splits)
  show ?thesis using FlovStep_flits [OF 1 assms(2,3)] frame_flits [OF OutputQueuing_flit_frame [OF 2]] r'
    by auto
next
  case awake: False
  show ?thesis
  proof (cases "r_active r")
    case False
    with awake assms(1) obtain r1 where 1: "HandshakeResponse now r = Some r1"
      and 2: "OutputQueuing r1 = Some r'"
      by (auto simp: FLOV_InternalStep_def split: Option.bind_splits)
    show ?thesis using frame_flits [OF HandshakeResponse_flit_frame [OF 1]]
        frame_flits [OF OutputQueuing_flit_frame [OF 2]] False by simp
  next
    case True
    with awake assms(1) obtain r1 a r2 b where 1: "pipeline_step FLOV_updates env M now (r, s) = Some ((r1, a), s')"
      and 2: "HandshakeResponse now r1 = Some r2" and 3: "OutputQueuing (r2\<lparr>r_active := b\<rparr>) = Some r'"
      by (auto simp: FLOV_InternalStep_def split: Option.bind_splits)
    show ?thesis using flov.pipeline_flits [OF 1 assms(2)]
        frame_flits [OF HandshakeResponse_flit_frame [OF 2]]
        frame_flits [OF OutputQueuing_flit_frame [OF 3]] by simp
  qed
qed

text \<open>C5: an internal step of a FLOV router, awake or asleep, neither loses nor duplicates a flit and
  keeps the dimensions of the router, its buffers, buffer states and output queues: if the step does not stop the simulator, the flits in the input
  latches, VC buffers, crossbar and output buffers are afterwards the ones that were there before, with
  the same packet, type, class, source and destination; only the VC, priority, hop counts, times and
  lookahead route may differ.\<close>

theorem FLOV_step_conserves_flits:
  assumes "FLOV_InternalStep env M now (r, s) = Some (r', s')" and "sized r" and "4 \<le> outputs r"
  shows "flits_of r' = flits_of r \<and> dims r' = dims r"
  using InternalStep_flits [OF assms] by simp

definition example_env :: "flov_router router_env" where
  "example_env = \<lparr>e_k = 3, e_nodes = 9, e_sink = (\<lambda>p. if p < 4 then Some (neighbor 3 4 p) else None),
     e_sink_port = opp, e_sink_outputs = (\<lambda>_. 5),
     e_route = (\<lambda>r f i os. Some (AddRange 0 0 0 0 [])), e_look_ahead = (\<lambda>_ _ _ _. None)\<rparr>"

definition example_methods :: "(selalloc, selalloc, selalloc) alloc_methods" where
  "example_methods = \<lparr>vc_methods = sparse_router_alloc SelAlloc, sw_methods = sparse_router_alloc SelAlloc,
     spec_methods = sparse_router_alloc SelAlloc\<rparr>"

definition example_allocators :: "(selalloc, selalloc, selalloc) allocators" where
  "example_allocators = \<lparr>vc_allocator = Some (SelAlloc_init 5 5 1), sw_allocator = SelAlloc_init 5 5 1,
     spec_allocator = None\<rparr>"

definition example_packet_flit :: flit where
  "example_packet_flit = (example_flit 1 7 True True)\<lparr>f_vc := 0, f_src := 3, f_dest := 5\<rparr>"

definition example_busy :: flov_router where
  "example_busy = (example_router gflov power_on)\<lparr>r_active := True,
     in_queue_flits := [(1, example_packet_flit)]\<rparr>"

lemma FLOV_step_conserves_flits_witness:
  "\<exists>r' s'. FLOV_InternalStep example_env example_methods 7 (example_busy, example_allocators) = Some (r', s') \<and>
     flits_of r' = {# who example_packet_flit #} \<and> in_queue_flits r' = [] \<and> route_vcs r' = [] \<and> vc_alloc_vcs r' \<noteq> []"
proof -
  have "(case FLOV_InternalStep example_env example_methods 7 (example_busy, example_allocators) of
      None \<Rightarrow> False | Some (r', s') \<Rightarrow>
        in_queue_flits r' = [] \<and> route_vcs r' = [] \<and> vc_alloc_vcs r' \<noteq> [])"
    by code_simp
  then obtain r' s' where
    s: "FLOV_InternalStep example_env example_methods 7 (example_busy, example_allocators) = Some (r', s')"
    and "in_queue_flits r' = [] \<and> route_vcs r' = [] \<and> vc_alloc_vcs r' \<noteq> []"
    by (auto split: option.splits)
  moreover have "sized example_busy" "4 \<le> outputs example_busy" "flits_of example_busy = {# who example_packet_flit #}"
    by code_simp+
  ultimately show ?thesis using FLOV_step_conserves_flits [OF s] by auto
qed

subsection \<open>Reading and writing the channels\<close>

text \<open>The flits on a list of channels, one place each.\<close>

definition carried :: "flit option list \<Rightarrow> flit multiset" where
  "carried xs = (\<Sum>x\<leftarrow>xs. case x of None \<Rightarrow> {#} | Some f \<Rightarrow> {# who f #})"

lemma carried_simps [simp]:
  "carried [] = {#}" "carried (None # xs) = carried xs" "carried (Some f # xs) = add_mset (who f) (carried xs)"
  "carried (xs @ ys) = carried xs + carried ys"
  by (simp_all add: carried_def)

lemma om_insert_new_mset:
  "map_of m k = None \<Longrightarrow> mset (om_insert k v m) = add_mset (k, v) (mset m)"
proof -
  have "map_of m k = None \<Longrightarrow> mset (om_put k v m) = add_mset (k, v) (mset m)"
    by (induction k v m rule: om_put.induct) (auto split: if_splits)
  then show "map_of m k = None \<Longrightarrow> mset (om_insert k v m) = add_mset (k, v) (mset m)"
    by (simp add: om_insert_def om_count_def)
qed

lemma om_insert_keys: "fst ` set (om_insert k v m) \<subseteq> insert k (fst ` set m)"
  by (simp add: om_insert_def om_put_keys subset_insertI)

lemma receive_fold:
  assumes "distinct (map fst xs)" and "fst ` set xs \<inter> fst ` set m = {}"
  shows "ids (map snd (fold receive_flit xs m)) = ids (map snd m) + carried (map snd xs)"
  using assms
proof (induction xs arbitrary: m)
  case Nil
  then show ?case by simp
next
  case (Cons x xs)
  obtain k y where x: "x = (k, y)" by (cases x)
  show ?case
  proof (cases y)
    case None
    with Cons x show ?thesis by (simp add: receive_flit_def)
  next
    case (Some f)
    have new: "map_of m k = None" using Cons.prems(2) x by (auto simp: map_of_eq_None_iff)
    have "ids (map snd (om_insert k f m)) = add_mset (who f) (ids (map snd m))"
      unfolding ids_def mset_map image_mset.compositionality om_insert_new_mset [OF new] by simp
    moreover have "fst ` set xs \<inter> fst ` set (om_insert k f m) = {}"
    proof -
      have "k \<notin> fst ` set xs" "fst ` set xs \<inter> fst ` set m = {}" using Cons.prems x by simp_all
      then show ?thesis using om_insert_keys [of k f m] by blast
    qed
    ultimately show ?thesis using Cons.IH [of "om_insert k f m"] Cons.prems(1)
      by (simp add: x Some receive_flit_def)
  qed
qed

lemma receive_fold_Nil: "fold receive_flit xs [] = [] \<or> list_ex (\<lambda>x. snd x \<noteq> None) xs"
proof (cases "list_ex (\<lambda>x. snd x \<noteq> None) xs")
  case False
  then have "fold receive_flit xs m = m" for m
    by (induction xs arbitrary: m) (auto simp: receive_flit_def)
  then show ?thesis by simp
qed simp

lemma ReceiveFlits_flits:
  assumes "ReceiveFlits fs r = (r', b)" and "in_queue_flits r = []" and "length fs = inputs r"
  shows "flits_of r' = flits_of r + carried fs" and "dims r' = dims r"
    and "in_queue_flits r' \<noteq> [] \<longrightarrow> b"
proof -
  let ?xs = "zip [0..<inputs r] fs"
  have r': "r' = r\<lparr>in_queue_flits := fold receive_flit ?xs []\<rparr>" and b: "b = list_ex (\<lambda>x. snd x \<noteq> None) ?xs"
    using assms(1,2) by (auto simp: ReceiveFlits_def)
  have "ids (map snd (fold receive_flit ?xs [])) = carried fs"
    using receive_fold [of ?xs "[]"] assms(3) by (simp add: ids_def)
  then show "flits_of r' = flits_of r + carried fs"
    by (simp add: r' flits_of_def assms(2) ids_def ac_simps)
  show "dims r' = dims r" by (simp add: r' dims_def)
  show "in_queue_flits r' \<noteq> [] \<longrightarrow> b" using receive_fold_Nil [of ?xs] by (auto simp: r' b)
qed

lemma ReadInputs_flits:
  assumes "FLOV_ReadInputs gK now fs cs hs r = Some r'" and "in_queue_flits r = []"
    and "length fs = inputs r"
  shows "flits_of r' = flits_of r + carried fs" and "dims r' = dims r"
    and "in_queue_flits r' \<noteq> [] \<longrightarrow> r_active r'"
proof -
  obtain r1 b where 1: "ReceiveFlits fs r = (r1, b)" by (cases "ReceiveFlits fs r")
  obtain r2 c where 2: "ReceiveCredits now cs r1 = (r2, c)" by (cases "ReceiveCredits now cs r1")
  from assms(1) obtain r3 where 3: "HandshakeEvaluate gK (ReceiveHandshakes hs r2) = Some r3"
    and r': "r' = r3\<lparr>r_active := r_active r3 \<or> b \<or> c\<rparr>"
    by (auto simp: FLOV_ReadInputs_def 1 2 split: Option.bind_splits)
  have f2: "flit_frame r1 r2"
    using 2 by (auto simp: ReceiveCredits_def Let_def flit_frame_def dims_def)
  have "flit_frame r2 (ReceiveHandshakes hs r2)"
    unfolding ReceiveHandshakes_def
    by (rule fold_invariant' [where P = "flit_frame r2"])
      (auto intro: flit_frame_trans split: option.split)
  then have f: "flit_frame r1 r3"
    using f2 HandshakeEvaluate_flit_frame [OF 3] by (blast intro: flit_frame_trans)
  note a = ReceiveFlits_flits [OF 1 assms(2,3)]
  show "flits_of r' = flits_of r + carried fs" "dims r' = dims r"
    "in_queue_flits r' \<noteq> [] \<longrightarrow> r_active r'"
    using frame_flits [OF f] a by (simp_all add: r')
qed

lemma WriteOutputs_flits:
  assumes "FLOV_WriteOutputs r = (fs, cs, hs, r')" and "sized r"
  shows "flits_of r' + carried fs = flits_of r" and "dims r' = dims r"
    and "in_queue_flits r' = in_queue_flits r" and "length fs = outputs r"
proof -
  obtain r1 where 1: "SendFlits r = (fs, r1)" and 2: "\<exists>r2. SendCredits r1 = (cs, r2) \<and> SendHandshakes r2 = (r', hs)"
    using assms(1) by (auto simp: FLOV_WriteOutputs_def Let_def split: prod.splits)
  have out: "length (output_buffer r) = outputs r" using assms(2) by (simp add: sized_def)
  have r1: "r1 = r\<lparr>output_buffer := map tl (output_buffer r)\<rparr>"
    and fs: "fs = map (\<lambda>q. case q of [] \<Rightarrow> None | x # _ \<Rightarrow> Some x) (output_buffer r)"
    using 1 out by (auto simp: SendFlits_def pop_fronts_def)
  have pop: "(\<Sum>q\<leftarrow>map tl qs. ids q) + carried (map (\<lambda>q. case q of [] \<Rightarrow> None | x # _ \<Rightarrow> Some x) qs) =
      (\<Sum>q\<leftarrow>qs. ids q)" for qs
    by (induction qs) (auto simp: ids_def carried_def ac_simps split: list.splits)
  have f: "flit_frame r1 r'"
  proof -
    obtain r2 where r2: "SendCredits r1 = (cs, r2)" "SendHandshakes r2 = (r', hs)" using 2 by blast
    have "length (credit_buffer r1) = inputs r1" using assms(2) by (simp add: r1 sized_def)
    then have "flit_frame r1 r2" using r2(1)
      by (auto simp: SendCredits_def pop_fronts_def flit_frame_def dims_def)
    moreover have "flit_frame r2 (fst (fold send_port xs (r2, ys)))" for xs ys
      by (rule fold_invariant' [where P = "\<lambda>s. flit_frame r2 (fst s)"])
        (auto simp: send_port_def flit_frame_def dims_def split: list.split)
    ultimately show ?thesis using r2(2) flit_frame_trans
      by (metis SendHandshakes_def fst_conv)
  qed
  have "flits_of r1 + carried fs = flits_of r"
    using pop [of "output_buffer r"] by (simp add: r1 flits_of_def fs ac_simps)
  then show "flits_of r' + carried fs = flits_of r" using frame_flits [OF f] by simp
  show "dims r' = dims r" "in_queue_flits r' = in_queue_flits r" "length fs = outputs r"
    using frame_flits [OF f] out by (simp_all add: r1 fs dims_def)
qed

end
