(* ===== verification/Network_Conservation.thy ===== *)
theory Network_Conservation
  imports Network Router_Flits
begin

text \<open>
  Conservation of flits in the whole network: over a cycle of all its modules, whatever the power
  states, the flits in routers and channels change only by those the terminals put in and take out.
\<close>

subsection \<open>Channels\<close>

definition wire :: "flit_channel \<Rightarrow> flit multiset" where
  "wire ch = carried [ch_input ch] + ids (map snd (wait_queue ch))"

definition wires :: "flit_channel list \<Rightarrow> flit multiset" where
  "wires chs = (\<Sum>ch\<leftarrow>chs. wire ch)"

definition arriving :: "flit_channel list \<Rightarrow> flit multiset" where
  "arriving chs = carried (map ch_output chs)"

lemma carried_sum: "carried xs = (\<Sum>x\<leftarrow>xs. carried [x])"
  by (simp add: carried_def)

lemma carried_Cons: "carried (x # xs) = carried [x] + carried xs"
  by (simp add: carried_def)

lemma clock_in_wire: "wire (Channel_ReadInputs now ch) = wire ch"
  "ch_output (Channel_ReadInputs now ch) = ch_output ch" "ch_input (Channel_ReadInputs now ch) = None"
  by (auto simp: wire_def Channel_ReadInputs_def ids_def split: option.splits)

lemma clock_in_wires:
  "wires (map (Channel_ReadInputs now) chs) = wires chs"
  "arriving (map (Channel_ReadInputs now) chs) = arriving chs"
  by (simp_all add: wires_def arriving_def comp_def clock_in_wire)

lemma those_eq_Some: "those xs = Some ys \<longleftrightarrow> xs = map Some ys"
proof (induction xs arbitrary: ys)
  case Nil
  show ?case by (cases ys) simp_all
next
  case (Cons x xs)
  show ?case using Cons by (cases ys) (auto split: option.splits)
qed

lemma clock_out_wire:
  assumes "Channel_WriteOutputs now ch = Some ch'"
  shows "wire ch' + carried [ch_output ch'] = wire ch" and "ch_input ch' = ch_input ch"
  using assms by (auto simp: Channel_WriteOutputs_def wire_def ids_def
      split: list.splits prod.splits if_splits)

lemma clock_out_wires:
  assumes "clock_out now chs = Some chs'"
  shows "wires chs' + arriving chs' = wires chs" and "map ch_input chs' = map ch_input chs"
    and "length chs' = length chs"
proof -
  have m: "map (Channel_WriteOutputs now) chs = map Some chs'"
    using assms by (simp add: clock_out_def those_eq_Some)
  have "wires chs' + arriving chs' = wires chs \<and> map ch_input chs' = map ch_input chs"
    using m
  proof (induction chs arbitrary: chs')
    case Nil
    then show ?case by (simp add: wires_def arriving_def)
  next
    case (Cons ch chs)
    then obtain ch' rest where chs': "chs' = ch' # rest" and one: "Channel_WriteOutputs now ch = Some ch'"
      and all: "map (Channel_WriteOutputs now) chs = map Some rest"
      by (cases chs') auto
    have e: "wires chs' + arriving chs' =
        (wire ch' + carried [ch_output ch']) + (wires rest + arriving rest)"
      using carried_Cons [of "ch_output ch'" "map ch_output rest"]
      by (simp add: chs' wires_def arriving_def ac_simps)
    have "wires chs' + arriving chs' = wires (ch # chs)"
      unfolding e clock_out_wire(1) [OF one] conjunct1 [OF Cons.IH [OF all]] by (simp add: wires_def)
    then show ?case using conjunct2 [OF Cons.IH [OF all]] clock_out_wire(2) [OF one] by (simp add: chs')
  qed
  then show "wires chs' + arriving chs' = wires chs" "map ch_input chs' = map ch_input chs" by auto
  show "length chs' = length chs" using arg_cong [OF m, of length] by simp
qed

text \<open>Putting flits on channels that carry none at their input.\<close>

lemma FlitChannel_Send_wire:
  assumes "FlitChannel_Send (Some f) ch = Some ch'" and "ch_input ch = None"
  shows "wire ch' = add_mset (who f) (wire ch)" and "ch_output ch' = ch_output ch"
  using assms by (auto simp: FlitChannel_Send_def Send_def wire_def split: if_splits)

lemma wires_update:
  "c < length chs \<Longrightarrow> wire ch = wire (chs ! c) + X \<Longrightarrow> wires (chs[c := ch]) = wires chs + X"
  using sum_list_update_add [of c chs wire ch] by (simp add: wires_def ac_simps)

lemma send_flits_wires:
  assumes "send_flits cs xs chs = Some chs'" and "distinct cs" and "length xs = length cs"
    and "\<forall>c \<in> set cs. c < length chs \<and> ch_input (chs ! c) = None"
  shows "wires chs' = wires chs + carried xs \<and> map ch_output chs' = map ch_output chs \<and>
    (\<forall>c. c \<notin> set cs \<longrightarrow> chs' ! c = chs ! c)"
  using assms
proof (induction cs arbitrary: xs chs)
  case Nil
  then show ?case by (simp add: send_flits_def)
next
  case (Cons c cs)
  then obtain x ys where xs: "xs = x # ys" by (cases xs) auto
  show ?case
  proof (cases x)
    case None
    with Cons.prems xs Cons.IH [of ys chs] show ?thesis by (simp add: send_flits_def)
  next
    case (Some f)
    with Cons.prems(1) xs obtain ch where ch: "FlitChannel_Send (Some f) (chs ! c) = Some ch"
      and rest: "send_flits cs ys (chs[c := ch]) = Some chs'"
      by (auto simp: send_flits_def split: option.splits)
    have c: "c < length chs" "ch_input (chs ! c) = None" using Cons.prems(4) by auto
    note w = FlitChannel_Send_wire [OF ch c(2)]
    have "wires chs' = wires (chs[c := ch]) + carried ys \<and>
        map ch_output chs' = map ch_output (chs[c := ch]) \<and>
        (\<forall>d. d \<notin> set cs \<longrightarrow> chs' ! d = chs[c := ch] ! d)"
      by (rule Cons.IH [OF rest]) (use Cons.prems xs in \<open>auto simp: nth_list_update\<close>)
    moreover have "wires (chs[c := ch]) = wires chs + {# who f #}"
      by (rule wires_update [OF c(1)]) (simp add: w)
    moreover have "map ch_output (chs[c := ch]) = map ch_output chs"
      by (rule map_update_same) (simp add: w)
    ultimately show ?thesis by (auto simp: xs Some)
  qed
qed

subsection \<open>The flits in a network\<close>

definition router_flits :: "('v, 'w, 'x) network \<Rightarrow> flit multiset" where
  "router_flits net = (\<Sum>r\<leftarrow>routers net. flits_of r)"

definition link_flits :: "('v, 'w, 'x) network \<Rightarrow> flit multiset" where
  "link_flits net = wires (chan net) + wires (inject net) + wires (eject net)"

text \<open>Between two cycles: what the channels deliver next is still in the network.\<close>

definition net_flits :: "('v, 'w, 'x) network \<Rightarrow> flit multiset" where
  "net_flits net = router_flits net + link_flits net +
     arriving (chan net) + arriving (inject net) + arriving (eject net)"

definition router_ok :: "nat \<Rightarrow> flov_router \<Rightarrow> bool" where
  "router_ok n r \<longleftrightarrow> sized r \<and> inputs r = 2 * n + 1 \<and> outputs r = 2 * n + 1"

definition net_ok :: "('v, 'w, 'x) network \<Rightarrow> bool" where
  "net_ok net \<longleftrightarrow> 0 < radix net \<and> 2 \<le> dimensions net \<and>
     length (routers net) = node_count net \<and> length (units net) = node_count net \<and>
     length (chan net) = snd (ComputeSize (radix net) (dimensions net)) \<and>
     length (inject net) = node_count net \<and> length (eject net) = node_count net \<and>
     (\<forall>r \<in> set (routers net). router_ok (dimensions net) r)"

definition latches_empty :: "('v, 'w, 'x) network \<Rightarrow> bool" where
  "latches_empty net \<longleftrightarrow> (\<forall>r \<in> set (routers net). in_queue_flits r = [])"

definition latches_seen :: "('v, 'w, 'x) network \<Rightarrow> bool" where
  "latches_seen net \<longleftrightarrow> (\<forall>r \<in> set (routers net). in_queue_flits r \<noteq> [] \<longrightarrow> r_active r)"

lemma router_ok_dims: "dims r' = dims r \<Longrightarrow> router_ok n r \<Longrightarrow> router_ok n r'"
  by (auto simp: router_ok_def dest: sized_dims) (simp_all add: dims_def)

lemma sum_indexed: "(\<Sum>x\<leftarrow>xs. g x) = (\<Sum>v\<leftarrow>[0..<length xs]. g (xs ! v))"
proof -
  have "map g xs = map (\<lambda>v. g (xs ! v)) [0..<length xs]" by (rule nth_equalityI) simp_all
  then show ?thesis by simp
qed

text \<open>A loop over the routers that adds \<open>X v\<close> to the flits of router \<open>v\<close>.\<close>

lemma each_router_flits:
  assumes "each_router f net = Some net'" and "net_ok net"
    and "\<And>v r r'. v < node_count net \<Longrightarrow> r = routers net ! v \<Longrightarrow> f v r = Some r' \<Longrightarrow>
      flits_of r' = flits_of r + X v \<and> dims r' = dims r \<and> P r'"
  shows "\<exists>rs. net' = net\<lparr>routers := rs\<rparr> \<and> router_flits net' = router_flits net + (\<Sum>v\<leftarrow>[0..<node_count net]. X v) \<and>
    net_ok net' \<and> (\<forall>r \<in> set rs. P r)"
proof -
  have len: "length (routers net) = node_count net" using assms(2) by (simp add: net_ok_def)
  from assms(1) obtain rs where net': "net' = net\<lparr>routers := rs\<rparr>"
    and m: "map (\<lambda>(v, r). f v r) (zip [0..<length (routers net)] (routers net)) = map Some rs"
    by (auto simp: each_router_def those_eq_Some)
  have rs: "length rs = node_count net" using arg_cong [OF m, of length] len by simp
  have one: "f v (routers net ! v) = Some (rs ! v)" if "v < node_count net" for v
    using arg_cong [OF m, of "\<lambda>xs. xs ! v"] that rs len by simp
  have st: "flits_of (rs ! v) = flits_of (routers net ! v) + X v \<and> dims (rs ! v) = dims (routers net ! v) \<and> P (rs ! v)"
    if "v < node_count net" for v
    by (rule assms(3) [OF that refl one [OF that]])
  have "router_flits net' = (\<Sum>v\<leftarrow>[0..<node_count net]. flits_of (rs ! v))"
    unfolding router_flits_def net' by (simp add: sum_indexed [of flits_of rs] rs)
  also have "\<dots> = (\<Sum>v\<leftarrow>[0..<node_count net]. flits_of (routers net ! v) + X v)"
    by (rule arg_cong [where f = sum_list]) (use st in auto)
  also have "\<dots> = router_flits net + (\<Sum>v\<leftarrow>[0..<node_count net]. X v)"
    unfolding router_flits_def by (simp add: sum_list_addf sum_indexed [of flits_of "routers net"] len)
  finally have sum: "router_flits net' = router_flits net + (\<Sum>v\<leftarrow>[0..<node_count net]. X v)" .
  have all: "\<exists>v < node_count net. r = rs ! v" if "r \<in> set rs" for r
    using that rs by (metis in_set_conv_nth)
  have "router_ok (dimensions net) r" if r: "r \<in> set rs" for r
  proof -
    obtain v where v: "v < node_count net" "r = rs ! v" using all [OF r] by blast
    then have "routers net ! v \<in> set (routers net)" using len by simp
    then show ?thesis using assms(2) st [OF v(1)] v(2) router_ok_dims by (simp add: net_ok_def)
  qed
  then have "net_ok net'" using assms(2) rs by (simp add: net_ok_def net' node_count_def)
  moreover have "\<forall>r \<in> set rs. P r" using all st by blast
  ultimately show ?thesis using sum net' by blast
qed

subsection \<open>The phases of a cycle\<close>

lemma net_okD:
  assumes "net_ok net"
  shows "length (routers net) = node_count net" "length (units net) = node_count net"
    "length (chan net) = 2 * dimensions net * node_count net" "0 < radix net" "2 \<le> dimensions net"
    "length (inject net) = node_count net" "length (eject net) = node_count net"
    "node_count net = radix net ^ dimensions net"
    and "v < node_count net \<Longrightarrow> router_ok (dimensions net) (routers net ! v)"
  using assms by (simp_all add: net_ok_def node_count_def ComputeSize_def)

lemma sum_concat:
  fixes h :: "'c \<Rightarrow> 'b :: comm_monoid_add"
  shows "(\<Sum>c\<leftarrow>concat xss. h c) = (\<Sum>xs\<leftarrow>xss. (\<Sum>c\<leftarrow>xs. h c))"
  by (induction xss) simp_all

lemma sum_image_mset: "sum_mset (image_mset h (mset xs)) = (\<Sum>c\<leftarrow>xs. h c)"
  by (metis mset_map sum_mset_sum_list)

lemma delivered_flits:
  assumes "net_ok net"
  shows "(\<Sum>v\<leftarrow>[0..<node_count net]. carried (flits_to net v)) = arriving (chan net) + arriving (inject net)"
proof -
  define h where "h c = carried [ch_output (chan net ! c)]" for c
  note ok = net_okD [OF assms]
  have in_: "(\<Sum>c\<leftarrow>cs. h c) = carried (map (\<lambda>c. Receive (chan net ! c)) cs)" for cs
    by (simp add: h_def carried_def Receive_def comp_def)
  have "(\<Sum>v\<leftarrow>[0..<node_count net]. carried (flits_to net v)) =
      (\<Sum>v\<leftarrow>[0..<node_count net]. (\<Sum>c\<leftarrow>input_channels (radix net) (dimensions net) v. h c)) +
      (\<Sum>v\<leftarrow>[0..<node_count net]. carried [ch_output (inject net ! v)])"
    unfolding in_ by (simp add: flits_to_def sum_list_addf Receive_def carried_def)
  also have "(\<Sum>v\<leftarrow>[0..<node_count net]. carried [ch_output (inject net ! v)]) = arriving (inject net)"
    unfolding arriving_def using sum_indexed [of "\<lambda>ch. carried [ch_output ch]" "inject net"] ok(6)
    by (simp add: carried_def comp_def)
  also have "(\<Sum>v\<leftarrow>[0..<node_count net]. (\<Sum>c\<leftarrow>input_channels (radix net) (dimensions net) v. h c)) =
      (\<Sum>c\<leftarrow>concat (map (input_channels (radix net) (dimensions net)) [0..<node_count net]). h c)"
    by (simp add: sum_concat comp_def)
  also have "\<dots> = sum_mset (image_mset h (mset
      (concat (map (input_channels (radix net) (dimensions net)) [0..<node_count net]))))"
    by (simp only: sum_image_mset)
  also have "\<dots> = sum_mset (image_mset h (mset [0..<2 * dimensions net * node_count net]))"
    using input_channels_all [OF ok(4), of "dimensions net"] ok(5,8) by (simp del: mset_upt)
  also have "\<dots> = (\<Sum>c\<leftarrow>[0..<length (chan net)]. h c)"
    by (simp only: sum_image_mset ok(3))
  also have "\<dots> = arriving (chan net)"
    unfolding arriving_def using sum_indexed [of "\<lambda>ch. carried [ch_output ch]" "chan net"]
    by (simp add: carried_def comp_def h_def)
  finally show ?thesis .
qed

lemma channels_exist:
  assumes "net_ok net" and "v < node_count net"
  shows "c \<in> set (input_channels (radix net) (dimensions net) v) \<Longrightarrow> c < length (chan net)"
    and "c \<in> set (output_channels (dimensions net) v) \<Longrightarrow> c < length (chan net) \<and> c div (2 * dimensions net) = v"
proof -
  note ok = net_okD [OF assms(1)]
  show "c < length (chan net)" if "c \<in> set (input_channels (radix net) (dimensions net) v)"
  proof -
    have "c \<in># mset (concat (map (input_channels (radix net) (dimensions net)) [0..<node_count net]))"
      using that assms(2) by auto
    then show ?thesis using input_channels_all [OF ok(4), of "dimensions net"] ok(3,5,8) by simp
  qed
  show "c < length (chan net) \<and> c div (2 * dimensions net) = v"
    if c: "c \<in> set (output_channels (dimensions net) v)"
  proof -
    let ?d = "2 * dimensions net"
    have r: "?d * v \<le> c" "c < ?d * Suc v" using c by (simp_all add: output_channels_upt)
    have "?d * Suc v \<le> ?d * node_count net" using assms(2) by (intro mult_le_mono2) simp
    then have "c < length (chan net)" using r(2) ok(3) by linarith
    moreover have "c div ?d = v" using r ok(5) by (intro div_nat_eqI) (simp_all add: mult.commute)
    ultimately show ?thesis ..
  qed
qed

lemma flits_to_clock_in:
  assumes "net_ok net" and "v < node_count net"
  shows "flits_to (clock_in now net) v = flits_to net v"
  using channels_exist(1) [OF assms] net_okD(6) [OF assms(1)] assms(2)
  by (simp add: flits_to_def clock_in_def Receive_def clock_in_wire)

lemma ReadInputs_phase:
  assumes "Network_ReadInputs now net = Some net'" and "net_ok net" and "latches_empty net"
  shows "net_ok net' \<and> latches_seen net' \<and> link_flits net' = link_flits net \<and>
    router_flits net' = router_flits net + arriving (chan net) + arriving (inject net) \<and>
    (\<forall>c < length (chan net'). ch_input (chan net' ! c) = None) \<and>
    (\<forall>v < node_count net'. ch_input (inject net' ! v) = None \<and> ch_input (eject net' ! v) = None) \<and>
    eject net' = map (Channel_ReadInputs now) (eject net)"
proof -
  let ?n = "clock_in now net"
  have eq: "node_count ?n = node_count net" "routers ?n = routers net" "dimensions ?n = dimensions net"
    "radix ?n = radix net"
    by (simp_all add: clock_in_def node_count_def)
  have ok: "net_ok ?n" using assms(2) by (simp add: net_ok_def clock_in_def node_count_def)
  have lw: "link_flits ?n = link_flits net"
    by (simp add: link_flits_def clock_in_def clock_in_wires)
  have "\<exists>rs. net' = ?n\<lparr>routers := rs\<rparr> \<and>
      router_flits net' = router_flits ?n + (\<Sum>v\<leftarrow>[0..<node_count ?n]. carried (flits_to net v)) \<and>
      net_ok net' \<and> (\<forall>r \<in> set rs. in_queue_flits r \<noteq> [] \<longrightarrow> r_active r)"
  proof (rule each_router_flits [OF _ ok])
    show "each_router (\<lambda>v. FLOV_ReadInputs (radix ?n) (int now) (flits_to ?n v) (credits_to ?n v)
        (handshakes_to ?n v)) ?n = Some net'"
      using assms(1) by (simp add: Network_ReadInputs_def Let_def)
  next
    fix v r r'
    assume v: "v < node_count ?n" and r: "r = routers ?n ! v"
      and st: "FLOV_ReadInputs (radix ?n) (int now) (flits_to ?n v) (credits_to ?n v) (handshakes_to ?n v) r = Some r'"
    have vl: "v < length (routers net)" using v net_okD(1) [OF assms(2)] by (simp add: eq)
    then have q: "in_queue_flits r = []" using assms(3) by (simp add: r eq latches_empty_def)
    have "router_ok (dimensions net) r" using net_okD(9) [OF assms(2)] v by (simp add: r eq)
    then have len: "length (flits_to ?n v) = inputs r" by (simp add: flits_to_def router_ok_def eq)
    have "flits_to ?n v = flits_to net v" by (rule flits_to_clock_in) (use assms(2) v eq in simp_all)
    then show "flits_of r' = flits_of r + carried (flits_to net v) \<and> dims r' = dims r \<and>
        (in_queue_flits r' \<noteq> [] \<longrightarrow> r_active r')"
      using ReadInputs_flits [OF st q len] by simp
  qed
  then obtain rs where net': "net' = ?n\<lparr>routers := rs\<rparr>" and ok': "net_ok net'"
    and sum: "router_flits net' = router_flits net + (arriving (chan net) + arriving (inject net))"
    and seen: "\<forall>r \<in> set rs. in_queue_flits r \<noteq> [] \<longrightarrow> r_active r"
    by (auto simp: eq delivered_flits [OF assms(2)] router_flits_def)
  show ?thesis
    using ok' sum seen lw net_okD(6,7) [OF assms(2)]
    by (simp add: net' latches_seen_def link_flits_def node_count_def clock_in_def clock_in_wire ac_simps)
qed

text \<open>What the middle of a cycle works on: the latches may hold flits, the inputs of the channels the
  routers write are free.\<close>

definition mid_cycle :: "('v, 'w, 'x) network \<Rightarrow> bool" where
  "mid_cycle net \<longleftrightarrow> net_ok net \<and> latches_seen net \<and>
     (\<forall>c < length (chan net). ch_input (chan net ! c) = None) \<and>
     (\<forall>v < node_count net. ch_input (eject net ! v) = None)"

lemma PowerState_phase:
  assumes "Network_PowerStateEvaluate now net = Some net'" and "mid_cycle net"
  shows "mid_cycle net' \<and> (\<exists>rs. net' = net\<lparr>routers := rs\<rparr>) \<and> router_flits net' = router_flits net"
proof -
  have ok: "net_ok net" using assms(2) by (simp add: mid_cycle_def)
  have "\<exists>rs. net' = net\<lparr>routers := rs\<rparr> \<and>
      router_flits net' = router_flits net + (\<Sum>v\<leftarrow>[0..<node_count net]. {#}) \<and>
      net_ok net' \<and> (\<forall>r \<in> set rs. in_queue_flits r \<noteq> [] \<longrightarrow> r_active r)"
  proof (rule each_router_flits [OF _ ok])
    show "each_router (\<lambda>_. PowerStateEvaluate (radix net) (node_count net) (int now)) net = Some net'"
      using assms(1) by (simp add: Network_PowerStateEvaluate_def)
  next
    fix v r r'
    assume v: "v < node_count net" and r: "r = routers net ! v"
      and st: "PowerStateEvaluate (radix net) (node_count net) (int now) r = Some r'"
    have "in_queue_flits r \<noteq> [] \<longrightarrow> r_active r"
      using assms(2) v net_okD(1) [OF ok] by (simp add: r mid_cycle_def latches_seen_def)
    moreover have f: "flit_frame r r'" by (rule PowerStateEvaluate_flit_frame [OF st])
    ultimately show "flits_of r' = flits_of r + {#} \<and> dims r' = dims r \<and>
        (in_queue_flits r' \<noteq> [] \<longrightarrow> r_active r')"
      using frame_flits [OF f] by (simp add: flit_frame_def)
  qed
  then show ?thesis using assms(2)
    by (auto simp: mid_cycle_def latches_seen_def node_count_def)
qed

lemma Evaluate_phase:
  assumes "Network_Evaluate env M now net = Some net'" and "mid_cycle net"
  shows "mid_cycle net' \<and> latches_empty net' \<and> router_flits net' = router_flits net \<and>
    (\<exists>rs us. net' = net\<lparr>routers := rs, units := us\<rparr>)"
proof -
  have ok: "net_ok net" using assms(2) by (simp add: mid_cycle_def)
  note len = net_okD(1,2) [OF ok]
  let ?ps = "zip [0..<length (routers net)] (zip (routers net) (units net))"
  from assms(1) obtain ps where net': "net' = net\<lparr>routers := map fst ps, units := map snd ps\<rparr>"
    and m: "map (\<lambda>(v, rs). FLOV_InternalStep (env v) M (int now) rs) ?ps = map Some ps"
    by (auto simp: Network_Evaluate_def those_eq_Some)
  have ps: "length ps = node_count net" using arg_cong [OF m, of length] len by simp
  have one: "FLOV_InternalStep (env v) M (int now) (routers net ! v, units net ! v) = Some (ps ! v)"
    if "v < node_count net" for v
    using arg_cong [OF m, of "\<lambda>xs. xs ! v"] that ps len by simp
  have ro: "each_router (\<lambda>v r. map_option fst (FLOV_InternalStep (env v) M (int now) (r, units net ! v))) net =
      Some (net\<lparr>routers := map fst ps\<rparr>)"
  proof -
    have "map (\<lambda>(v, r). map_option fst (FLOV_InternalStep (env v) M (int now) (r, units net ! v)))
        (zip [0..<length (routers net)] (routers net)) = map Some (map fst ps)"
      by (rule nth_equalityI) (use len ps one in auto)
    then show ?thesis unfolding each_router_def those_eq_Some [symmetric] by simp
  qed
  have "\<exists>rs. net\<lparr>routers := map fst ps\<rparr> = net\<lparr>routers := rs\<rparr> \<and>
      router_flits (net\<lparr>routers := map fst ps\<rparr>) = router_flits net + (\<Sum>v\<leftarrow>[0..<node_count net]. {#}) \<and>
      net_ok (net\<lparr>routers := map fst ps\<rparr>) \<and> (\<forall>r \<in> set rs. in_queue_flits r = [])"
  proof (rule each_router_flits [OF ro ok])
    fix v r r'
    assume v: "v < node_count net" and r: "r = routers net ! v"
      and "map_option fst (FLOV_InternalStep (env v) M (int now) (r, units net ! v)) = Some r'"
    then obtain s' where st: "FLOV_InternalStep (env v) M (int now) (r, units net ! v) = Some (r', s')"
      by auto
    have "router_ok (dimensions net) r" using net_okD(9) [OF ok v] by (simp add: r)
    then have "sized r" "4 \<le> outputs r" using net_okD(5) [OF ok] by (simp_all add: router_ok_def)
    moreover have "in_queue_flits r \<noteq> [] \<longrightarrow> r_active r"
      using assms(2) v len by (simp add: r mid_cycle_def latches_seen_def)
    ultimately show "flits_of r' = flits_of r + {#} \<and> dims r' = dims r \<and> in_queue_flits r' = []"
      using InternalStep_flits [OF st] by simp
  qed
  then obtain rs where e: "net\<lparr>routers := map fst ps\<rparr> = net\<lparr>routers := rs\<rparr>"
    and r: "router_flits (net\<lparr>routers := map fst ps\<rparr>) = router_flits net"
      "net_ok (net\<lparr>routers := map fst ps\<rparr>)" "\<forall>r \<in> set rs. in_queue_flits r = []"
    by auto
  have "rs = map fst ps" using arg_cong [OF e, of routers] by simp
  then have "router_flits net' = router_flits net" "latches_empty net'" "net_ok (net\<lparr>routers := map fst ps\<rparr>)"
    using r by (auto simp: net' router_flits_def latches_empty_def)
  moreover from this(3) have "net_ok net'" using ps by (simp add: net' net_ok_def node_count_def)
  ultimately show ?thesis using assms(2)
    by (auto simp: mid_cycle_def latches_seen_def latches_empty_def net' node_count_def)
qed

text \<open>The routers' writes, one after the other; a router finds the inputs of its channels free.\<close>

definition free_outputs :: "nat \<Rightarrow> ('v, 'w, 'x) network \<Rightarrow> bool" where
  "free_outputs v net \<longleftrightarrow> ch_input (eject net ! v) = None \<and>
     (\<forall>c \<in> set (output_channels (dimensions net) v). ch_input (chan net ! c) = None)"

lemma net_ok_cong:
  assumes "net_ok net" and "radix net' = radix net" "dimensions net' = dimensions net"
    and "length (routers net') = length (routers net)" "length (units net') = length (units net)"
    and "length (chan net') = length (chan net)" "length (inject net') = length (inject net)"
    and "length (eject net') = length (eject net)"
    and "\<forall>r \<in> set (routers net'). router_ok (dimensions net) r"
  shows "net_ok net'"
  using assms by (simp add: net_ok_def node_count_def)

lemma write_router_step:
  assumes "write_router v net = Some net'" and ok: "net_ok net" and v: "v < node_count net"
    and "free_outputs v net" and "latches_empty net"
  shows "net_ok net' \<and> latches_empty net' \<and> node_count net' = node_count net \<and>
    router_flits net' + link_flits net' = router_flits net + link_flits net \<and>
    arriving (chan net') = arriving (chan net) \<and> inject net' = inject net \<and>
    arriving (eject net') = arriving (eject net) \<and>
    (\<forall>w < node_count net. w \<noteq> v \<longrightarrow> free_outputs w net \<longrightarrow> free_outputs w net')"
proof -
  obtain fs cs hs r where w: "FLOV_WriteOutputs (routers net ! v) = (fs, cs, hs, r)"
    by (cases "FLOV_WriteOutputs (routers net ! v)")
  define n where "n = dimensions net"
  have rok: "router_ok n (routers net ! v)" using net_okD(9) [OF ok v] by (simp add: n_def)
  then have sz: "sized (routers net ! v)" "outputs (routers net ! v) = 2 * n + 1"
    by (simp_all add: router_ok_def)
  note wr = WriteOutputs_flits [OF w sz(1)]
  from assms(1) obtain ch ej cc ic hc where
    ch: "send_flits (output_channels n v) (take (2 * n) fs) (chan net) = Some ch"
    and ej: "send_flits [v] (drop (2 * n) fs) (eject net) = Some ej"
    and net': "net' = net\<lparr>routers := (routers net)[v := r], chan := ch, eject := ej,
        chan_cred := cc, inject_cred := ic, chan_handshake := hc\<rparr>"
    by (auto simp: write_router_def w Let_def n_def split: Option.bind_splits)
  note len = net_okD(1-7) [OF ok]
  have v': "v < length (routers net)" "v < length (eject net)" using v len by simp_all
  have sc: "wires ch = wires (chan net) + carried (take (2 * n) fs) \<and>
      map ch_output ch = map ch_output (chan net) \<and>
      (\<forall>c. c \<notin> set (output_channels n v) \<longrightarrow> ch ! c = chan net ! c)"
    by (rule send_flits_wires [OF ch]) (use assms(4) channels_exist(2) [OF ok v] wr(4) sz in
        \<open>auto simp: free_outputs_def n_def output_channels_upt\<close>)
  have se: "wires ej = wires (eject net) + carried (drop (2 * n) fs) \<and>
      map ch_output ej = map ch_output (eject net) \<and> (\<forall>c. c \<notin> set [v] \<longrightarrow> ej ! c = eject net ! c)"
    by (rule send_flits_wires [OF ej]) (use assms(4) v' wr(4) sz in \<open>auto simp: free_outputs_def\<close>)
  have lens: "length ch = length (chan net)" "length ej = length (eject net)"
    using sc se by (metis length_map)+
  have "net_ok net'"
  proof (rule net_ok_cong [OF ok])
    have "router_ok n r" using router_ok_dims [OF wr(2) rok] .
    then show "\<forall>r \<in> set (routers net'). router_ok (dimensions net) r"
      using ok set_update_subset_insert [of "routers net" v r] by (auto simp: net' net_ok_def n_def)
  qed (simp_all add: net' lens)
  moreover have "latches_empty net'"
    using assms(5) wr(3) v' set_update_subset_insert [of "routers net" v r]
    by (auto simp: latches_empty_def net')
  moreover have "router_flits net' + link_flits net' = router_flits net + link_flits net"
  proof -
    have "router_flits net' + flits_of (routers net ! v) = router_flits net + flits_of r"
      unfolding router_flits_def net' using sum_list_update_add [OF v'(1), of flits_of r] by simp
    moreover have "carried fs = carried (take (2 * n) fs) + carried (drop (2 * n) fs)"
      by (metis append_take_drop_id carried_simps(4))
    ultimately show ?thesis
      using wr(1) sc se by (simp add: link_flits_def net' ac_simps flip: wr(1))
  qed
  moreover have "free_outputs w net'" if w: "w < node_count net" "w \<noteq> v" "free_outputs w net" for w
  proof -
    have "c \<notin> set (output_channels n v)" if "c \<in> set (output_channels n w)" for c
      using that channels_exist(2) [OF ok v] channels_exist(2) [OF ok w(1)] w(2) by (auto simp: n_def)
    then show ?thesis using w sc se by (auto simp: free_outputs_def net' n_def)
  qed
  ultimately show ?thesis using sc se by (simp add: arriving_def net' node_count_def)
qed

lemma write_routers:
  assumes "foldM write_router vs net = Some net'" and "net_ok net" and "latches_empty net"
    and "distinct vs" and "\<forall>v \<in> set vs. v < node_count net \<and> free_outputs v net"
  shows "net_ok net' \<and> latches_empty net' \<and> node_count net' = node_count net \<and>
    router_flits net' + link_flits net' = router_flits net + link_flits net \<and>
    arriving (chan net') = arriving (chan net) \<and> inject net' = inject net \<and>
    arriving (eject net') = arriving (eject net)"
  using assms
proof (induction vs arbitrary: net)
  case (Cons v vs)
  then obtain net1 where 1: "write_router v net = Some net1" and 2: "foldM write_router vs net1 = Some net'"
    by (auto split: option.splits)
  have s: "net_ok net1 \<and> latches_empty net1 \<and> node_count net1 = node_count net \<and>
      router_flits net1 + link_flits net1 = router_flits net + link_flits net \<and>
      arriving (chan net1) = arriving (chan net) \<and> inject net1 = inject net \<and>
      arriving (eject net1) = arriving (eject net) \<and>
      (\<forall>w < node_count net. w \<noteq> v \<longrightarrow> free_outputs w net \<longrightarrow> free_outputs w net1)"
    by (rule write_router_step [OF 1]) (use Cons.prems in auto)
  have "net_ok net' \<and> latches_empty net' \<and> node_count net' = node_count net1 \<and>
      router_flits net' + link_flits net' = router_flits net1 + link_flits net1 \<and>
      arriving (chan net') = arriving (chan net1) \<and> inject net' = inject net1 \<and>
      arriving (eject net') = arriving (eject net1)"
    by (rule Cons.IH [OF 2]) (use s Cons.prems in auto)
  with s show ?case by simp
qed simp

lemma WriteOutputs_phase:
  assumes "Network_WriteOutputs now net = Some net'" and "mid_cycle net" and "latches_empty net"
  shows "net_ok net' \<and> latches_empty net' \<and> node_count net' = node_count net \<and>
    net_flits net' = router_flits net + link_flits net"
proof -
  have ok: "net_ok net" using assms(2) by (simp add: mid_cycle_def)
  from assms(1) obtain ch cc hc ij ic ej ec where
    1: "clock_out now (chan net) = Some ch" "clock_out now (inject net) = Some ij"
      "clock_out now (eject net) = Some ej"
    and 2: "foldM write_router [0..<length (routers net)]
       (net\<lparr>chan := ch, chan_cred := cc, chan_handshake := hc, inject := ij, inject_cred := ic,
            eject := ej, eject_cred := ec\<rparr>) = Some net'"
    by (auto simp: Network_WriteOutputs_def split: Option.bind_splits)
  let ?n = "net\<lparr>chan := ch, chan_cred := cc, chan_handshake := hc, inject := ij, inject_cred := ic,
            eject := ej, eject_cred := ec\<rparr>"
  note c = clock_out_wires [OF 1(1)] clock_out_wires [OF 1(2)] clock_out_wires [OF 1(3)]
  have in_: "ch_input (ch ! i) = ch_input (chan net ! i)" if "i < length (chan net)" for i
    using c(2,3) that by (metis nth_map)
  have ie: "ch_input (ej ! i) = ch_input (eject net ! i)" if "i < length (eject net)" for i
    using c(8,9) that by (metis nth_map)
  have okn: "net_ok ?n" by (rule net_ok_cong [OF ok]) (use c ok in \<open>simp_all add: net_ok_def\<close>)
  have free: "free_outputs v ?n" if v: "v < node_count net" for v
    using v assms(2) in_ ie channels_exist(2) [OF ok v] net_okD(7) [OF ok]
    by (auto simp: free_outputs_def mid_cycle_def)
  have "net_ok net' \<and> latches_empty net' \<and> node_count net' = node_count ?n \<and>
    router_flits net' + link_flits net' = router_flits ?n + link_flits ?n \<and>
    arriving (chan net') = arriving (chan ?n) \<and> inject net' = inject ?n \<and>
    arriving (eject net') = arriving (eject ?n)"
    by (rule write_routers [OF 2 okn])
      (use assms(3) free net_okD(1) [OF ok] in \<open>auto simp: latches_empty_def node_count_def\<close>)
  then have w: "net_ok net'" "latches_empty net'" "node_count net' = node_count net"
    "router_flits net' + link_flits net' = router_flits net + (wires ch + wires ij + wires ej)"
    "arriving (chan net') = arriving ch" "inject net' = ij" "arriving (eject net') = arriving ej"
    by (auto simp: node_count_def router_flits_def link_flits_def)
  have "net_flits net' = router_flits net + (wires ch + wires ij + wires ej) +
      arriving ch + arriving ij + arriving ej"
    using w(4-7) by (simp add: net_flits_def)
  also have "\<dots> = router_flits net + link_flits net"
    unfolding link_flits_def c(1,4,7) [symmetric] by (simp add: ac_simps)
  finally show ?thesis using w by blast
qed

subsection \<open>A cycle of the network\<close>

text \<open>What a terminal puts on its injection channel.\<close>

lemma WriteFlit_flits:
  assumes "WriteFlit (Some f) v net = Some net'" and "mid_cycle net" and "ch_input (inject net ! v) = None"
  shows "mid_cycle net' \<and> router_flits net' = router_flits net \<and> node_count net' = node_count net \<and>
    link_flits net' = add_mset (who f) (link_flits net) \<and>
    (\<forall>w. w \<noteq> v \<longrightarrow> inject net' ! w = inject net ! w)"
proof -
  from assms(1) obtain ch where v: "v < node_count net"
    and ch: "FlitChannel_Send (Some f) (inject net ! v) = Some ch"
    and net': "net' = net\<lparr>inject := (inject net)[v := ch]\<rparr>"
    by (auto simp: WriteFlit_def split: Option.bind_splits)
  have ok: "net_ok net" using assms(2) by (simp add: mid_cycle_def)
  have "wires ((inject net)[v := ch]) = wires (inject net) + {# who f #}"
    by (rule wires_update) (use v net_okD(6) [OF ok] FlitChannel_Send_wire(1) [OF ch assms(3)] in simp_all)
  moreover have "net_ok net'" by (rule net_ok_cong [OF ok]) (use ok in \<open>simp_all add: net' net_ok_def\<close>)
  ultimately show ?thesis using assms(2)
    by (simp add: mid_cycle_def latches_seen_def router_flits_def link_flits_def net' node_count_def)
qed

lemma WriteFlits_flits:
  assumes "foldM (\<lambda>(v, f). WriteFlit (Some f) v) new net = Some net'" and "mid_cycle net"
    and "distinct (map fst new)"
    and "\<forall>v < node_count net. v \<in> set (map fst new) \<longrightarrow> ch_input (inject net ! v) = None"
  shows "mid_cycle net' \<and> router_flits net' = router_flits net \<and>
    link_flits net' = link_flits net + ids (map snd new)"
  using assms
proof (induction new arbitrary: net)
  case (Cons x new)
  obtain v f where x: "x = (v, f)" by (cases x)
  from Cons.prems(1) obtain net1 where 1: "WriteFlit (Some f) v net = Some net1"
    and 2: "foldM (\<lambda>(v, f). WriteFlit (Some f) v) new net1 = Some net'"
    by (auto simp: x split: option.splits)
  have "v < node_count net" using 1 by (auto simp: WriteFlit_def split: Option.bind_splits)
  then have "ch_input (inject net ! v) = None" using Cons.prems(4) x by simp
  note w = WriteFlit_flits [OF 1 Cons.prems(2) this]
  have "v \<notin> set (map fst new)" using Cons.prems(3) x by simp
  then have "\<forall>u < node_count net1. u \<in> set (map fst new) \<longrightarrow> ch_input (inject net1 ! u) = None"
    using w Cons.prems(4) by (metis list.set_intros(2) list.simps(9))
  then have "mid_cycle net' \<and> router_flits net' = router_flits net1 \<and>
      link_flits net' = link_flits net1 + ids (map snd new)"
    by (intro Cons.IH [OF 2]) (use w Cons.prems(3) in auto)
  then show ?case using w by (simp add: x ids_def)
qed (simp add: ids_def)

text \<open>C4: flits are conserved in the network.  In a cycle of a k-ary n-cube of FLOV routers, in whatever
  power states they are and whichever of them change state, the flits in routers and channels afterwards
  are those before, and those the terminals injected, less those the ejection channels delivered; nothing
  is lost in a sleeping router, duplicated or left in an input latch.\<close>

theorem network_conserves_flits:
  assumes "Network_ReadInputs now net = Some net1"
    and "foldM (\<lambda>(v, f). WriteFlit (Some f) v) new net1 = Some net2" and "distinct (map fst new)"
    and "Network_PowerStateEvaluate now net2 = Some net3"
    and "Network_Evaluate env M now net3 = Some net4"
    and "Network_WriteOutputs now net4 = Some net5"
    and "net_ok net" and "latches_empty net"
  shows "net_flits net5 + carried (map (\<lambda>v. ReadFlit v net) [0..<node_count net]) =
      net_flits net + ids (map snd new) \<and> net_ok net5 \<and> latches_empty net5"
proof -
  have out: "carried (map (\<lambda>v. ReadFlit v net) [0..<node_count net]) = arriving (eject net)"
    using sum_indexed [of "\<lambda>ch. carried [ch_output ch]" "eject net"] net_okD(7) [OF assms(7)]
    by (simp add: arriving_def ReadFlit_def Receive_def carried_def comp_def)
  note 1 = ReadInputs_phase [OF assms(1,7,8)]
  then have m1: "mid_cycle net1" unfolding mid_cycle_def by blast
  have 2: "mid_cycle net2 \<and> router_flits net2 = router_flits net1 \<and>
      link_flits net2 = link_flits net1 + ids (map snd new)"
    by (rule WriteFlits_flits [OF assms(2) m1 assms(3)]) (use 1 in simp)
  note 3 = PowerState_phase [OF assms(4) conjunct1 [OF 2]]
  note 4 = Evaluate_phase [OF assms(5) conjunct1 [OF 3]]
  note 5 = WriteOutputs_phase [OF assms(6) conjunct1 [OF 4] conjunct1 [OF conjunct2 [OF 4]]]
  have "link_flits net3 = link_flits net2" "link_flits net4 = link_flits net3"
    using 3 4 by (auto simp: link_flits_def)
  then have "net_flits net5 = router_flits net + arriving (chan net) + arriving (inject net) +
      (link_flits net + ids (map snd new))"
    using 1 2 3 4 5 by simp
  then show ?thesis using 5 by (simp add: net_flits_def out ac_simps)
qed

definition example_mesh :: "(selalloc, selalloc, selalloc) network" where
  "example_mesh = BuildNet 2 2 1 1 (\<lambda>v. (example_router gflov power_on)\<lparr>rid := v\<rparr>)
     (\<lambda>_. example_allocators) [True, True, True, True]"

definition example_mesh_env :: "nat \<Rightarrow> flov_router router_env" where
  "example_mesh_env = mesh_env 2 2 (e_route example_env) (\<lambda>_. e_look_ahead example_env)"

lemma network_conserves_flits_witness:
  "\<exists>net1 net2 net3 net4 net5. Network_ReadInputs 0 example_mesh = Some net1 \<and>
     foldM (\<lambda>(v, f). WriteFlit (Some f) v) [(0, (example_flit 1 7 True True)\<lparr>f_dest := 1\<rparr>)] net1 = Some net2 \<and>
     Network_PowerStateEvaluate 0 net2 = Some net3 \<and>
     Network_Evaluate example_mesh_env example_methods 0 net3 = Some net4 \<and>
     Network_WriteOutputs 0 net4 = Some net5 \<and> net_flits net5 = {# who ((example_flit 1 7 True True)\<lparr>f_dest := 1\<rparr>) #}"
proof -
  let ?new = "[(0, (example_flit 1 7 True True)\<lparr>f_dest := 1\<rparr>)]"
  have "do {
     net1 \<leftarrow> Network_ReadInputs 0 example_mesh;
     net2 \<leftarrow> foldM (\<lambda>(v, f). WriteFlit (Some f) v) ?new net1;
     net3 \<leftarrow> Network_PowerStateEvaluate 0 net2;
     net4 \<leftarrow> Network_Evaluate example_mesh_env example_methods 0 net3;
     Network_WriteOutputs 0 net4 } \<noteq> None"
    by code_simp
  then obtain net1 net2 net3 net4 net5 where c: "Network_ReadInputs 0 example_mesh = Some net1"
    "foldM (\<lambda>(v, f). WriteFlit (Some f) v) ?new net1 = Some net2"
    "Network_PowerStateEvaluate 0 net2 = Some net3"
    "Network_Evaluate example_mesh_env example_methods 0 net3 = Some net4"
    "Network_WriteOutputs 0 net4 = Some net5"
    by (auto simp del: foldM.simps split: Option.bind_splits)
  have ok: "net_ok example_mesh" "latches_empty example_mesh" by code_simp+
  have "net_flits example_mesh = {#}" "map (\<lambda>v. ReadFlit v example_mesh) [0..<node_count example_mesh] =
      [None, None, None, None]"
    by code_simp+
  then have "net_flits net5 = {# who ((example_flit 1 7 True True)\<lparr>f_dest := 1\<rparr>) #}"
    using network_conserves_flits [OF c(1,2) _ c(3-5) ok] by (simp add: ids_def)
  with c show ?thesis by blast
qed

end
