(* ===== verification/Random_Utils.thy ===== *)
theory Random_Utils
  imports Complex_Main "HOL-Library.Signed_Division" Prelude
begin

text \<open>
  Random numbers (src/booksim2/src/random_utils.hpp) and the configuration strings that describe
  traffic (config_utils.cpp).  The generators themselves are Knuth's \<open>ran_array\<close> and
  \<open>ranf_array\<close>; a state \<open>rng\<close> holds the two sequences they go on to return, and how much of each
  has been used.  \<open>double\<close> values are rationals.
\<close>

record rng =
  ran_seq :: "nat \<Rightarrow> nat"
  ran_used :: nat
  ranf_seq :: "nat \<Rightarrow> rat"
  ranf_used :: nat

definition ran_next :: "rng \<Rightarrow> int \<times> rng" where
  "ran_next g = (int (ran_seq g (ran_used g)), g\<lparr>ran_used := Suc (ran_used g)\<rparr>)"

definition RandomFloat :: "rng \<Rightarrow> rat \<times> rng" where
  "RandomFloat g = (ranf_seq g (ranf_used g), g\<lparr>ranf_used := Suc (ranf_used g)\<rparr>)"

text \<open>\<open>ran_next() % (max+1)\<close>: a remainder by zero stops the run.\<close>

definition RandomInt :: "int \<Rightarrow> rng \<Rightarrow> (int \<times> rng) option" where
  "RandomInt m g =
     (if m + 1 = 0 then None
      else case ran_next g of (x, g') \<Rightarrow> Some (x smod (m + 1), g'))"

lemma smod_nonneg: "0 \<le> (a::int) \<Longrightarrow> 0 < b \<Longrightarrow> a smod b = a mod b"
  by (simp add: signed_modulo_int_def signed_divide_int_def minus_div_mult_eq_mod sgn_if)

lemma sdiv_nonneg: "0 \<le> (a::int) \<Longrightarrow> 0 < b \<Longrightarrow> a sdiv b = a div b"
  by (simp add: signed_divide_int_def sgn_if)

lemma RandomInt_range:
  assumes "RandomInt m g = Some (x, g')" and "0 \<le> m"
  shows "0 \<le> x \<and> x \<le> m" and "ranf_seq g' = ranf_seq g" and "ran_seq g' = ran_seq g"
    and "ran_used g' = Suc (ran_used g)" and "ranf_used g' = ranf_used g"
proof -
  have "x = int (ran_seq g (ran_used g)) smod (m + 1)"
    using assms by (auto simp: RandomInt_def ran_next_def split: if_splits)
  then have "x = int (ran_seq g (ran_used g)) mod (m + 1)" using assms(2) by (simp add: smod_nonneg)
  then show "0 \<le> x \<and> x \<le> m"
    using assms(2) pos_mod_bound [of "m + 1" "int (ran_seq g (ran_used g))"] by simp
qed (use assms in \<open>auto simp: RandomInt_def ran_next_def split: if_splits\<close>)

lemma RandomInt_succeeds: "0 \<le> m \<Longrightarrow> \<exists>x g'. RandomInt m g = Some (x, g')"
  by (simp add: RandomInt_def ran_next_def)

text \<open>The generator moves on by one number whatever is asked of it.\<close>

definition later :: "rng \<Rightarrow> rng \<Rightarrow> bool" where
  "later g g' \<longleftrightarrow> ran_seq g' = ran_seq g \<and> ranf_seq g' = ranf_seq g \<and>
     ran_used g \<le> ran_used g' \<and> ranf_used g \<le> ranf_used g'"

lemma later_refl [simp]: "later g g"
  by (simp add: later_def)

lemma later_trans: "later g g' \<Longrightarrow> later g' g'' \<Longrightarrow> later g g''"
  by (auto simp: later_def)

lemma RandomInt_later: "RandomInt m g = Some (x, g') \<Longrightarrow> later g g'"
  by (auto simp: RandomInt_def ran_next_def later_def split: if_splits)

lemma RandomFloat_later: "RandomFloat g = (x, g') \<Longrightarrow> later g g'"
  by (auto simp: RandomFloat_def later_def)

subsection \<open>Lists in configuration strings\<close>

text \<open>\<open>tokenize_str\<close>: the loop over the characters that follow the opening brace, with what has been
  read since \<open>start\<close> and the depth \<open>nested\<close>; characters other than braces and commas are skipped by
  \<open>find_first_of\<close>.  What follows the last separator is dropped.\<close>

fun tokens_loop :: "string \<Rightarrow> string \<Rightarrow> nat \<Rightarrow> string list \<Rightarrow> string list option" where
  "tokens_loop [] token nested vals = (if nested = 0 then Some vals else None)"
| "tokens_loop (c # cs) token nested vals =
     (if c = CHR ''{'' then tokens_loop cs (token @ [c]) (Suc nested) vals
      else if c = CHR ''}'' \<and> nested \<noteq> 0 then tokens_loop cs (token @ [c]) (nested - 1) vals
      else if (c = CHR ''}'' \<or> c = CHR '','') \<and> nested = 0
      then tokens_loop cs [] nested (if token \<noteq> [] then vals @ [token] else vals)
      else tokens_loop cs (token @ [c]) nested vals)"

definition tokenize_str :: "string \<Rightarrow> string list option" where
  "tokenize_str data =
     (case data of [] \<Rightarrow> Some []
      | c # cs \<Rightarrow> if c \<noteq> CHR ''{'' then Some [data] else tokens_loop cs [] 0 [])"

text \<open>\<open>atoi\<close>: white space, a sign, digits; what follows is ignored.\<close>

definition is_space :: "char \<Rightarrow> bool" where
  "is_space c \<longleftrightarrow> c = CHR '' '' \<or> (of_char c :: nat) \<in> {9, 10, 11, 12, 13}"

definition is_digit :: "char \<Rightarrow> bool" where
  "is_digit c \<longleftrightarrow> (48 :: nat) \<le> of_char c \<and> of_char c \<le> (57 :: nat)"

definition digits_value :: "string \<Rightarrow> int" where
  "digits_value cs = foldl (\<lambda>n c. 10 * n + (of_char c - 48)) 0 (takeWhile is_digit cs)"

definition atoi :: "string \<Rightarrow> int" where
  "atoi data =
     (case dropWhile is_space data of [] \<Rightarrow> 0
      | c # cs \<Rightarrow> if c = CHR ''-'' then - digits_value cs
                  else if c = CHR ''+'' then digits_value cs else digits_value (c # cs))"

definition tokenize_int :: "string \<Rightarrow> int list option" where
  "tokenize_int data =
     (case data of [] \<Rightarrow> Some []
      | c # cs \<Rightarrow> if c \<noteq> CHR ''{'' then Some [atoi data]
                  else map_option (map atoi) (tokens_loop cs [] 0 []))"

text \<open>What a list of tokens looks like in a configuration file.\<close>

fun between_commas :: "string list \<Rightarrow> string" where
  "between_commas [] = []"
| "between_commas [t] = t"
| "between_commas (t # u # ts) = t @ CHR '','' # between_commas (u # ts)"

definition braced :: "string list \<Rightarrow> string" where
  "braced ts = CHR ''{'' # between_commas ts @ ''}''"

text \<open>A token: its braces match, and its commas are inside braces.\<close>

fun balanced :: "nat \<Rightarrow> string \<Rightarrow> bool" where
  "balanced n [] \<longleftrightarrow> n = 0"
| "balanced n (c # cs) \<longleftrightarrow>
     (if c = CHR ''{'' then balanced (Suc n) cs
      else if c = CHR ''}'' then n \<noteq> 0 \<and> balanced (n - 1) cs
      else (c = CHR '','' \<longrightarrow> n \<noteq> 0) \<and> balanced n cs)"

lemma tokens_loop_token:
  "balanced n cs \<Longrightarrow> tokens_loop (cs @ rest) token n vals = tokens_loop rest (token @ cs) 0 vals"
  by (induction n cs arbitrary: token rule: balanced.induct) (auto split: if_splits)

lemma tokens_loop_list:
  "\<forall>t \<in> set ts. t \<noteq> [] \<and> balanced 0 t \<Longrightarrow> ts \<noteq> [] \<Longrightarrow>
   tokens_loop (between_commas ts @ ''}'') [] 0 vals = Some (vals @ ts)"
proof (induction ts arbitrary: vals rule: between_commas.induct)
  case (3 t u ts)
  then show ?case
    using tokens_loop_token [of 0 t "CHR '','' # between_commas (u # ts) @ ''}''" "[]" vals] by simp
next
  case (2 t)
  then show ?case using tokens_loop_token [of 0 t "''}''" "[]" vals] by simp
qed simp

text \<open>A list survives its notation.  A non-empty list of non-empty tokens, each with matching braces and
  no comma outside them (so that a token may be a list itself), written between braces with commas, is
  what \<open>tokenize_str\<close> reads back.\<close>

theorem tokenize_str_braced:
  assumes "ts \<noteq> []" and "\<forall>t \<in> set ts. t \<noteq> [] \<and> balanced 0 t"
  shows "tokenize_str (braced ts) = Some ts"
  using tokens_loop_list [OF assms(2,1)] by (simp add: tokenize_str_def braced_def)

lemma tokenize_str_braced_witness:
  "tokenize_str ''{{1,2},3,{}}'' = Some [''{1,2}'', ''3'', ''{}'']"
proof -
  have "braced [''{1,2}'', ''3'', ''{}''] = ''{{1,2},3,{}}''" by (simp add: braced_def)
  then show ?thesis using tokenize_str_braced [of "[''{1,2}'', ''3'', ''{}'']"] by simp
qed

end
