(* ===== verification/Core_Parking.thy ===== *)
theory Core_Parking
  imports Random_Utils Mesh "HOL-Library.Word"
begin

text \<open>
  Which cores and which routers are off: the power-gating part of \<open>Network::_Alloc\<close>
  (src/booksim2/src/networks/network.cpp).  With \<open>powergate_auto_config\<close> the cores are drawn at
  random; the routers are those of the cores (FLOV, NoRD), a set without two neighbours (conservative
  router parking, \<open>rpc\<close>), or as many as leave the others connected (aggressive router parking,
  \<open>rpa\<close>).  Router \<open>i\<close> of the mesh is in column \<open>i % gK\<close> and row \<open>i / gK\<close>.
\<close>

subsection \<open>Drawing the cores\<close>

text \<open>\<open>unsigned num_off_cores\<close>: 32 bits.  The product is one of \<open>int\<close>, which meshes of a realistic size do not
  overflow; what C++ leaves undefined beyond is not modelled.\<close>

definition num_off_cores :: "int \<Rightarrow> int \<Rightarrow> 32 word" where
  "num_off_cores nodes percentile = word_of_int (nodes * percentile sdiv 100)"

definition too_many_off :: "nat \<Rightarrow> int \<Rightarrow> 32 word \<Rightarrow> bool" where
  "too_many_off k nodes n \<longleftrightarrow> n + of_nat k > word_of_int nodes"

definition fabric_manager :: "nat \<Rightarrow> int \<Rightarrow> int \<Rightarrow> int" where
  "fabric_manager k n fm =
     (if fm < 0 \<or> fm \<ge> n then int k * int k sdiv 2 - int k sdiv 2 - 1 else fm)"

text \<open>The loop \<open>x = RandomInt(m); while (!ok(x)) x = RandomInt(m);\<close>, which need not end.\<close>

partial_function (option) draw_until :: "int \<Rightarrow> (int \<Rightarrow> bool) \<Rightarrow> rng \<Rightarrow> (int \<times> rng) option" where
  "draw_until m ok g = do {
     (x, g') \<leftarrow> RandomInt m g;
     (if ok x then Some (x, g') else draw_until m ok g')
   }"

declare draw_until.simps [code]

definition draw_off_core :: "int \<Rightarrow> int \<Rightarrow> nat \<Rightarrow> int list \<times> rng \<Rightarrow> (int list \<times> rng) option" where
  "draw_off_core m fm i s = (case s of (off_cores, g) \<Rightarrow> do {
     (cid, g') \<leftarrow> draw_until m (\<lambda>c. c \<notin> set off_cores \<and> c \<noteq> fm) g;
     Some (off_cores @ [cid], g')
   })"

definition draw_off_cores :: "nat \<Rightarrow> int \<Rightarrow> int \<Rightarrow> nat \<Rightarrow> rng \<Rightarrow> (int list \<times> rng) option" where
  "draw_off_cores k nodes fm n g = do {
     (off_cores, g') \<leftarrow> foldM (draw_off_core (nodes - 1 - int k) fm) [0..<n] ([], g);
     assertion (length off_cores = n);
     Some (sort off_cores, g')
   }"

text \<open>\<open>states[id] = false\<close> for every id of a list.\<close>

definition switch_off :: "int list \<Rightarrow> bool list \<Rightarrow> bool list" where
  "switch_off ids states = fold (\<lambda>c st. st[nat c := False]) ids states"

definition switch_on :: "nat list \<Rightarrow> bool list \<Rightarrow> bool list" where
  "switch_on ids states = fold (\<lambda>r st. st[r := True]) ids states"

subsection \<open>Conservative router parking\<close>

definition neighbors_parked :: "nat \<Rightarrow> bool list \<Rightarrow> nat \<Rightarrow> bool" where
  "neighbors_parked k st cid =
     (let cx = cid mod k; cy = cid div k in
      (1 \<le> cx \<and> \<not> st ! (cid - 1)) \<or> (cx + 1 < k \<and> \<not> st ! (cid + 1)) \<or>
      (1 \<le> cy \<and> \<not> st ! (cid - k)) \<or> (cy + 1 < k \<and> \<not> st ! (cid + k)) \<or>
      (1 \<le> cx \<and> 1 \<le> cy \<and> \<not> st ! (cid - k - 1)) \<or>
      (1 \<le> cx \<and> cy + 1 < k \<and> \<not> st ! (cid + k - 1)) \<or>
      (cx + 1 < k \<and> 1 \<le> cy \<and> \<not> st ! (cid - k + 1)) \<or>
      (cx + 1 < k \<and> cy + 1 < k \<and> \<not> st ! (cid + k + 1)))"

definition park_router :: "nat \<Rightarrow> nat \<Rightarrow> bool list \<Rightarrow> bool list" where
  "park_router k cid st = (if neighbors_parked k st cid then st else st[cid := False])"

definition conservative_parking :: "nat \<Rightarrow> nat \<Rightarrow> int list \<Rightarrow> bool list" where
  "conservative_parking k n off_cores =
     fold (\<lambda>c. park_router k (nat c)) off_cores (replicate n True)"

subsection \<open>Aggressive router parking\<close>

definition mesh_adjacent :: "nat \<Rightarrow> nat \<Rightarrow> nat \<Rightarrow> bool" where
  "mesh_adjacent k i j \<longleftrightarrow>
     (let ix = i mod k; iy = i div k; jx = j mod k; jy = j div k
      in (\<bar>int ix - int jx\<bar> = 1 \<and> iy = jy) \<or> (\<bar>int iy - int jy\<bar> = 1 \<and> ix = jx))"

definition adjacency :: "nat \<Rightarrow> bool list \<Rightarrow> int list list" where
  "adjacency k st =
     map (\<lambda>i. map (\<lambda>j. if \<not> st ! i \<or> \<not> st ! j then -1 else if i = j then 0
                       else if mesh_adjacent k i j then 1 else -1) [0..<length st]) [0..<length st]"

text \<open>The search for a component: the routers not seen before that are next to \<open>n\<close> go into the queue.\<close>

definition push_neighbor :: "int list \<Rightarrow> nat \<Rightarrow> bool list \<times> nat list \<Rightarrow> bool list \<times> nat list" where
  "push_neighbor row i s = (case s of (visited, q) \<Rightarrow>
     if i < length visited \<and> row ! i = 1 \<and> \<not> visited ! i then (visited[i := True], q @ [i]) else (visited, q))"

definition push_neighbors :: "int list \<Rightarrow> bool list \<times> nat list \<Rightarrow> bool list \<times> nat list" where
  "push_neighbors row s = fold (push_neighbor row) [0..<length (fst s)] s"

text \<open>How much the search has left to do.\<close>

definition bfs_work :: "bool list \<times> nat list \<Rightarrow> nat" where
  "bfs_work s = 2 * length (filter Not (fst s)) + length (snd s)"

lemma filter_Not_update:
  "i < length v \<Longrightarrow> \<not> v ! i \<Longrightarrow> Suc (length (filter Not (v[i := True]))) = length (filter Not v)"
proof (induction v arbitrary: i)
  case (Cons b v)
  then show ?case by (cases i) auto
qed simp

lemma push_neighbor_work: "bfs_work (push_neighbor row i s) \<le> bfs_work s"
proof (cases s)
  case (Pair v q)
  then show ?thesis
    using filter_Not_update [of i v] by (auto simp: push_neighbor_def bfs_work_def)
qed

lemma push_neighbors_work: "bfs_work (push_neighbors row s) \<le> bfs_work s"
proof -
  have "bfs_work (fold (push_neighbor row) xs s) \<le> bfs_work s" for xs
  proof (induction xs arbitrary: s)
    case (Cons x xs)
    show ?case using Cons.IH [of "push_neighbor row x s"] push_neighbor_work [of row x s] by simp
  qed simp
  then show ?thesis by (simp add: push_neighbors_def)
qed

function bfs :: "int list list \<Rightarrow> bool list \<times> nat list \<Rightarrow> nat list \<Rightarrow> nat list \<times> bool list" where
  "bfs adj s part =
     (case s of
        (visited, []) \<Rightarrow> (part, visited)
      | (visited, n # q) \<Rightarrow> bfs adj (push_neighbors (adj ! n) (visited, q)) (part @ [n]))"
  by pat_completeness auto
termination
proof (relation "measure (\<lambda>(adj, s, part). bfs_work s)", goal_cases)
  case (2 adj s part visited q' n q)
  then have "bfs_work (visited, q) < bfs_work s" by (auto simp: bfs_work_def)
  then show ?case using push_neighbors_work [of "adj ! n" "(visited, q)"] by simp
qed simp

declare bfs.simps [simp del]

definition find_component ::
  "bool list \<Rightarrow> int list list \<Rightarrow> nat \<Rightarrow> nat list list \<times> bool list \<Rightarrow> nat list list \<times> bool list" where
  "find_component st adj r s = (case s of (comps, visited) \<Rightarrow>
     if \<not> st ! r \<or> visited ! r then (comps, visited)
     else case bfs adj (visited[r := True], [r]) [] of (part, visited') \<Rightarrow> (comps @ [sort part], visited'))"

definition components :: "bool list \<Rightarrow> int list list \<Rightarrow> nat list list" where
  "components st adj =
     fst (fold (find_component st adj) [0..<length st] ([], replicate (length st) False))"

text \<open>A router that lacks a neighbour it could have.\<close>

definition is_edge_router :: "nat \<Rightarrow> int list list \<Rightarrow> nat \<Rightarrow> bool" where
  "is_edge_router k adj rid =
     (let n = length adj; num_neighbors = length (filter (\<lambda>x. x = 1) (adj ! rid)) in
      ((rid = 0 \<or> int rid = int k - 1 \<or> int rid = int n - 1 \<or> int rid = int n - int k) \<and> num_neighbors < 2) \<or>
      ((rid div k = 0 \<or> rid mod k = 0 \<or> rid div k + 1 = k \<or> rid mod k + 1 = k) \<and> num_neighbors < 3) \<or>
      (rid div k > 0 \<and> rid mod k > 0 \<and> rid div k + 1 < k \<and> rid mod k + 1 < k \<and> num_neighbors < 4))"

text \<open>The routers from \<open>r\<close> to the fabric manager, first along the row, then along the column.\<close>

definition row_leg :: "nat \<Rightarrow> nat \<Rightarrow> nat \<Rightarrow> nat list" where
  "row_leg k fm r =
     (let rx = r mod k; fx = fm mod k
      in if rx > fx then map (\<lambda>d. r - d) [1..<Suc (rx - fx)] else map (\<lambda>d. r + d) [1..<Suc (fx - rx)])"

definition column_leg :: "nat \<Rightarrow> nat \<Rightarrow> nat \<Rightarrow> nat \<Rightarrow> nat list" where
  "column_leg k fm ry r =
     (let fy = fm div k
      in if ry > fy then map (\<lambda>d. r - d * k) [1..<Suc (ry - fy)] else map (\<lambda>d. r + d * k) [1..<Suc (fy - ry)])"

definition off_routers_on_path :: "nat \<Rightarrow> nat \<Rightarrow> bool list \<Rightarrow> nat \<Rightarrow> nat list option" where
  "off_routers_on_path k fm st edge =
     (let xs = row_leg k fm edge; r = last (edge # xs);
          ys = column_leg k fm (edge div k) r
      in do {
        assertion (r mod k = fm mod k);
        assertion (last (r # ys) = fm);
        Some (filter (\<lambda>r. \<not> st ! r) (xs @ ys))
      })"

text \<open>One of the eight tries to find a path with few routers that are off.\<close>

definition try_path ::
  "nat \<Rightarrow> nat \<Rightarrow> int list list \<Rightarrow> bool list \<Rightarrow> nat list \<Rightarrow> nat \<Rightarrow> nat \<times> nat list \<times> rng
     \<Rightarrow> (nat \<times> nat list \<times> rng) option" where
  "try_path k fm adj st part i s = (case s of (best, path, g) \<Rightarrow> do {
     (j, g') \<leftarrow> draw_until (int (length part) - 1) (\<lambda>j. is_edge_router k adj (part ! nat j)) g;
     offs \<leftarrow> off_routers_on_path k fm st (part ! nat j);
     Some (if length offs < best then (length offs, offs, g') else (best, path, g'))
   })"

definition connect_component ::
  "nat \<Rightarrow> nat \<Rightarrow> int list list \<Rightarrow> nat list \<Rightarrow> bool list \<times> rng \<Rightarrow> (bool list \<times> rng) option" where
  "connect_component k fm adj part s = (case s of (st, g) \<Rightarrow>
     if fm \<in> set part then Some (st, g)
     else do {
       (_, path, g') \<leftarrow> foldM (try_path k fm adj st part) [0..<8] (length st, [], g);
       Some (switch_on path st, g')
     })"

definition aggressive_parking :: "nat \<Rightarrow> nat \<Rightarrow> bool list \<Rightarrow> rng \<Rightarrow> (bool list \<times> rng) option" where
  "aggressive_parking k fm core_states g =
     (let adj = adjacency k core_states; comps = components core_states adj
      in if length comps = 1 then Some (core_states, g)
         else foldM (connect_component k fm adj) comps (core_states, g))"

subsection \<open>The states of the network\<close>

record parking =
  pk_off_cores :: "int list"
  pk_fabric_manager :: int
  pk_core_states :: "bool list"
  pk_router_states :: "bool list"

text \<open>\<open>seed\<close> is the generator after \<open>RandomSeed(_powergate_seed)\<close>.  The mesh has as many routers as
  nodes.\<close>

definition parked_routers ::
  "nat \<Rightarrow> string \<Rightarrow> nat \<Rightarrow> int \<Rightarrow> int list \<Rightarrow> bool list \<Rightarrow> rng \<Rightarrow> (bool list \<times> rng) option" where
  "parked_routers k type nodes fm off_cores core_states g =
     (if type \<in> {''gflov'', ''rflov'', ''flov'', ''nord''} then Some (core_states, g)
      else if type = ''rpa'' then aggressive_parking k (nat fm) core_states g
      else if type = ''rpc'' then Some (conservative_parking k nodes off_cores, g)
      else if type = ''no_pg'' then Some (replicate nodes True, g)
      else None)"

definition auto_config ::
  "nat \<Rightarrow> nat \<Rightarrow> string \<Rightarrow> int \<Rightarrow> int \<Rightarrow> rng \<Rightarrow> parking option" where
  "auto_config k nodes type percentile fm0 seed =
     (let n = num_off_cores (int nodes) percentile; fm = fabric_manager k (int nodes) fm0 in do {
        assertion (\<not> too_many_off k (int nodes) n);
        assertion (fm < int nodes);
        (off_cores, g) \<leftarrow> draw_off_cores k (int nodes) fm (unat n) seed;
        (let cores = switch_off off_cores (replicate nodes True) in do {
           (rs, _) \<leftarrow> parked_routers k type nodes fm off_cores cores g;
           Some \<lparr>pk_off_cores = off_cores, pk_fabric_manager = fm, pk_core_states = cores,
                 pk_router_states = rs\<rparr>
         })
      })"

text \<open>Without it, the lists of the configuration are taken as they are.\<close>

definition manual_config :: "nat \<Rightarrow> int list \<Rightarrow> int list \<Rightarrow> int \<Rightarrow> parking option" where
  "manual_config nodes off_cores off_routers fm = do {
     assertion (\<forall>c \<in> set (off_cores @ off_routers). 0 \<le> c \<and> c < int nodes);
     Some \<lparr>pk_off_cores = off_cores, pk_fabric_manager = fm,
           pk_core_states = switch_off off_cores (replicate nodes True),
           pk_router_states = switch_off off_routers (replicate nodes True)\<rparr>
   }"

end
