(* ===== verification/Parking_Choice.thy ===== *)
theory Parking_Choice
  imports Core_Parking
begin

text \<open>
  Which cores are drawn and which routers are parked: the draws end exactly when enough cores can be
  parked, and conservative parking is a maximal choice without neighbours.
\<close>

subsection \<open>Drawing until a number will do\<close>

text \<open>The number that draw \<open>i\<close> from now on returns.\<close>

definition drawn :: "int \<Rightarrow> rng \<Rightarrow> nat \<Rightarrow> int" where
  "drawn m g i = int (ran_seq g (ran_used g + i)) mod (m + 1)"

lemma RandomInt_drawn: "0 \<le> m \<Longrightarrow> RandomInt m g = Some (drawn m g 0, g\<lparr>ran_used := Suc (ran_used g)\<rparr>)"
  by (simp add: RandomInt_def ran_next_def drawn_def smod_nonneg)

lemma drawn_Suc: "drawn m (g\<lparr>ran_used := Suc (ran_used g)\<rparr>) i = drawn m g (Suc i)"
  by (simp add: drawn_def)

lemma draw_until_ends:
  assumes "0 \<le> m" and "ok (drawn m g n)" and "\<forall>i<n. \<not> ok (drawn m g i)"
  shows "draw_until m ok g = Some (drawn m g n, g\<lparr>ran_used := ran_used g + Suc n\<rparr>)"
  using assms(2,3)
proof (induction n arbitrary: g)
  case 0
  then show ?case by (subst draw_until.simps) (simp add: RandomInt_drawn [OF assms(1)])
next
  case (Suc n)
  let ?g = "g\<lparr>ran_used := Suc (ran_used g)\<rparr>"
  have "\<not> ok (drawn m g 0)" using Suc.prems(2) by blast
  moreover have "draw_until m ok ?g = Some (drawn m ?g n, ?g\<lparr>ran_used := ran_used ?g + Suc n\<rparr>)"
    by (rule Suc.IH) (use Suc.prems in \<open>auto simp: drawn_Suc\<close>)
  ultimately show ?case
    by (subst draw_until.simps) (simp add: RandomInt_drawn [OF assms(1)] drawn_Suc)
qed

lemma draw_until_result:
  assumes "draw_until m ok g = Some y"
  shows "0 \<le> m \<longrightarrow> ok (fst y) \<and> 0 \<le> fst y \<and> fst y \<le> m \<and> later g (snd y)"
proof (rule draw_until.raw_induct [OF _ assms])
  fix rec :: "int \<Rightarrow> (int \<Rightarrow> bool) \<Rightarrow> rng \<Rightarrow> (int \<times> rng) option" and m ok g y
  assume IH: "\<And>m ok g y. rec m ok g = Some y \<Longrightarrow>
      0 \<le> m \<longrightarrow> ok (fst y) \<and> 0 \<le> fst y \<and> fst y \<le> m \<and> later g (snd y)"
    and run: "(RandomInt m g \<bind> (\<lambda>(x, g'). if ok x then Some (x, g') else rec m ok g')) = Some y"
  show "0 \<le> m \<longrightarrow> ok (fst y) \<and> 0 \<le> fst y \<and> fst y \<le> m \<and> later g (snd y)"
  proof
    assume m: "0 \<le> m"
    obtain x g' where d: "RandomInt m g = Some (x, g')" "if ok x then y = (x, g') else rec m ok g' = Some y"
      using run by (auto split: Option.bind_splits if_splits)
    show "ok (fst y) \<and> 0 \<le> fst y \<and> fst y \<le> m \<and> later g (snd y)"
      using d RandomInt_range(1) [OF d(1) m] RandomInt_later [OF d(1)] IH [of m ok g' y] m later_trans
      by (auto split: if_splits)
  qed
qed

lemma draw_until_Some:
  assumes "draw_until m ok g = Some (x, g')" and "0 \<le> m"
  shows "ok x" and "0 \<le> x" and "x \<le> m" and "later g g'"
  using draw_until_result [OF assms(1)] assms(2) by simp_all

text \<open>A generator that returns every remainder again and again.\<close>

definition fair :: "int \<Rightarrow> rng \<Rightarrow> bool" where
  "fair m g \<longleftrightarrow> (\<forall>x. 0 \<le> x \<longrightarrow> x \<le> m \<longrightarrow> (\<forall>n. \<exists>i\<ge>n. int (ran_seq g i) mod (m + 1) = x))"

lemma fair_later: "fair m g \<Longrightarrow> later g g' \<Longrightarrow> fair m g'"
  by (simp add: fair_def later_def)

lemma draw_until_fair:
  assumes "fair m g" and "ok x" and "0 \<le> x" and "x \<le> m"
  shows "\<exists>y g'. draw_until m ok g = Some (y, g')"
proof -
  obtain i where "i \<ge> ran_used g" "int (ran_seq g i) mod (m + 1) = x"
    using assms unfolding fair_def by blast
  then have hit: "ok (drawn m g (i - ran_used g))" using assms(2) by (simp add: drawn_def)
  let ?n = "LEAST n. ok (drawn m g n)"
  have first: "ok (drawn m g ?n)" using hit by (rule LeastI)
  have least: "\<forall>i<?n. \<not> ok (drawn m g i)" using not_less_Least by blast
  have m: "0 \<le> m" using assms(3,4) by simp
  show ?thesis using draw_until_ends [OF m first least] by blast
qed

subsection \<open>The cores that are off\<close>

definition can_park :: "int \<Rightarrow> int \<Rightarrow> int set" where
  "can_park m fm = {0..m} - {fm}"

lemma card_can_park: "-1 \<le> m \<Longrightarrow> card (can_park m fm) = nat (m + 1) - (if 0 \<le> fm \<and> fm \<le> m then 1 else 0)"
  by (simp add: can_park_def)

definition drawn_ok :: "int \<Rightarrow> int \<Rightarrow> rng \<Rightarrow> int list \<times> rng \<Rightarrow> bool" where
  "drawn_ok m fm g0 s \<longleftrightarrow> distinct (fst s) \<and> set (fst s) \<subseteq> can_park m fm \<and> later g0 (snd s)"

lemma draw_off_core_ok:
  assumes "draw_off_core m fm i s = Some s'" and "drawn_ok m fm g0 s" and "-1 \<le> m"
  shows "drawn_ok m fm g0 s'" and "length (fst s') = Suc (length (fst s))"
proof -
  obtain cid g' where d: "draw_until m (\<lambda>c. c \<notin> set (fst s) \<and> c \<noteq> fm) (snd s) = Some (cid, g')"
    and s': "s' = (fst s @ [cid], g')"
    using assms(1) by (cases s) (auto simp: draw_off_core_def split: Option.bind_splits)
  have m: "0 \<le> m"
  proof (rule ccontr)
    assume "\<not> 0 \<le> m"
    then have "m = -1" using assms(3) by simp
    then show False using d by (subst (asm) draw_until.simps) (simp add: RandomInt_def)
  qed
  note r = draw_until_Some [OF d m]
  show "drawn_ok m fm g0 s'"
    using assms(2) r later_trans [of g0 "snd s" g'] by (auto simp: drawn_ok_def s' can_park_def)
  show "length (fst s') = Suc (length (fst s))" by (simp add: s')
qed

lemma draw_off_cores_ok:
  assumes "foldM (draw_off_core m fm) xs s = Some s'" and "drawn_ok m fm g0 s" and "-1 \<le> m"
  shows "drawn_ok m fm g0 s' \<and> length (fst s') = length (fst s) + length xs"
  using assms(1,2)
proof (induction xs arbitrary: s)
  case (Cons x xs)
  then obtain s1 where 1: "draw_off_core m fm x s = Some s1" and 2: "foldM (draw_off_core m fm) xs s1 = Some s'"
    by (auto split: option.splits)
  show ?case using Cons.IH [OF 2] draw_off_core_ok [OF 1 Cons.prems(2) assms(3)] by simp
qed simp

lemma draw_off_cores_fair:
  assumes "drawn_ok m fm g0 s" and "fair m g0" and "length (fst s) + length xs \<le> card (can_park m fm)"
    and "-1 \<le> m"
  shows "\<exists>s'. foldM (draw_off_core m fm) xs s = Some s'"
  using assms(1,3)
proof (induction xs arbitrary: s)
  case (Cons x xs)
  have "set (fst s) \<subset> can_park m fm"
  proof -
    have "card (set (fst s)) < card (can_park m fm)"
      using Cons.prems card_length [of "fst s"] by simp
    then show ?thesis using Cons.prems(1) by (auto simp: drawn_ok_def)
  qed
  then obtain c where c: "c \<in> can_park m fm" "c \<notin> set (fst s)" by blast
  have "fair m (snd s)" using Cons.prems(1) assms(2) fair_later by (auto simp: drawn_ok_def)
  then obtain y g' where "draw_until m (\<lambda>c. c \<notin> set (fst s) \<and> c \<noteq> fm) (snd s) = Some (y, g')"
    using draw_until_fair [of m "snd s" "\<lambda>c. c \<notin> set (fst s) \<and> c \<noteq> fm" c] c by (auto simp: can_park_def)
  then obtain s1 where 1: "draw_off_core m fm x s = Some s1"
    by (cases s) (simp add: draw_off_core_def)
  show ?case
    using Cons.IH [of s1] draw_off_core_ok [OF 1 Cons.prems(1) assms(4)] Cons.prems(2) 1 by simp
qed simp

lemma drawn_ok_start: "drawn_ok m fm g ([], g)"
  by (simp add: drawn_ok_def)

text \<open>All the cores that can be parked have to be enough.\<close>

lemma draw_off_cores_enough:
  assumes "foldM (draw_off_core m fm) xs ([], g) = Some s'" and "-1 \<le> m"
  shows "length xs \<le> card (can_park m fm)"
proof -
  have "drawn_ok m fm g s' \<and> length (fst s') = length xs"
    using draw_off_cores_ok [OF assms(1) drawn_ok_start assms(2)] by simp
  then show ?thesis
    using distinct_card [of "fst s'"] card_mono [of "can_park m fm" "set (fst s')"]
    by (auto simp: drawn_ok_def can_park_def)
qed

lemma num_off_cores_nat:
  assumes "0 \<le> pct" and "pct \<le> 100" and "nodes < 2 ^ 31"
  shows "unat (num_off_cores (int nodes) pct) = nat (int nodes * pct div 100)"
    and "nat (int nodes * pct div 100) \<le> nodes"
proof -
  have "int nodes * pct \<le> int nodes * 100" using assms(2) by (intro mult_left_mono) auto
  then have le: "int nodes * pct div 100 \<le> int nodes" by linarith
  have ge: "0 \<le> int nodes * pct div 100" using assms(1) by (simp add: pos_imp_zdiv_nonneg_iff)
  have "int nodes * pct sdiv 100 = int nodes * pct div 100" using assms(1) by (simp add: sdiv_nonneg)
  moreover have "int nodes * pct div 100 < 2 ^ 32" using le assms(3) by simp
  ultimately show "unat (num_off_cores (int nodes) pct) = nat (int nodes * pct div 100)"
    using ge by (simp add: num_off_cores_def unat_eq_nat_uint uint_word_of_int)
  show "nat (int nodes * pct div 100) \<le> nodes" using le by linarith
qed

lemma too_many_off_nat:
  assumes "unat n \<le> nodes" and "nodes < 2 ^ 31" and "k < 2 ^ 31"
  shows "too_many_off k (int nodes) n \<longleftrightarrow> nodes < unat n + k"
proof -
  have "unat (of_nat k :: 32 word) = k" "unat (word_of_int (int nodes) :: 32 word) = nodes"
    using assms by (simp_all add: unat_of_nat)
  moreover have "unat (n + of_nat k) = unat n + unat (of_nat k :: 32 word)"
    using assms calculation by (intro unat_add_lem [THEN iffD1]) simp
  ultimately show ?thesis by (simp add: too_many_off_def word_less_nat_alt)
qed

lemma switch_off_nth:
  "i < length st \<Longrightarrow> \<forall>c \<in> set ids. 0 \<le> c \<Longrightarrow> switch_off ids st ! i \<longleftrightarrow> st ! i \<and> int i \<notin> set ids"
proof (induction ids arbitrary: st)
  case (Cons c ids)
  have "switch_off (c # ids) st = switch_off ids (st[nat c := False])" by (simp add: switch_off_def)
  then show ?case using Cons by (cases "i = nat c") auto
qed (simp add: switch_off_def)

lemma length_switch_off [simp]: "length (switch_off ids st) = length st"
  by (induction ids arbitrary: st) (auto simp: switch_off_def)

text \<open>The four kinds of gating in which a router sleeps with its core.\<close>

abbreviation (input) with_core :: "string \<Rightarrow> bool" where
  "with_core type \<equiv> type \<in> {''gflov'', ''rflov'', ''flov'', ''nord''}"

lemma auto_config_draws:
  assumes "auto_config k nodes type pct fm0 seed = Some p"
    and "0 \<le> pct" and "pct \<le> 100" and "nodes < 2 ^ 31" and "k < 2 ^ 31"
  defines "n \<equiv> nat (int nodes * pct div 100)" and "m \<equiv> int nodes - 1 - int k"
  obtains offs g where "foldM (draw_off_core m (pk_fabric_manager p)) [0..<n] ([], seed) = Some (offs, g)"
    and "length offs = n" and "pk_off_cores p = sort offs" and "n + k \<le> nodes"
    and "pk_fabric_manager p = fabric_manager k (int nodes) fm0" and "pk_fabric_manager p < int nodes"
    and "pk_core_states p = switch_off (sort offs) (replicate nodes True)"
    and "\<exists>g'. parked_routers k type nodes (pk_fabric_manager p) (sort offs) (pk_core_states p) g =
      Some (pk_router_states p, g')"
proof -
  have u: "unat (num_off_cores (int nodes) pct) = n" unfolding n_def by (rule num_off_cores_nat(1) [OF assms(2-4)])
  have "n \<le> nodes" unfolding n_def by (rule num_off_cores_nat(2) [OF assms(2-4)])
  then have t: "too_many_off k (int nodes) (num_off_cores (int nodes) pct) \<longleftrightarrow> nodes < n + k"
    using too_many_off_nat [OF _ assms(4,5)] by (simp add: u)
  show thesis
    using assms(1) that
    by (auto simp: auto_config_def draw_off_cores_def u t m_def Let_def not_less split: Option.bind_splits)
qed

lemma draws_off_cores:
  assumes "foldM (draw_off_core (int nodes - 1 - int k) fm) [0..<n] ([], g0) = Some (offs, g)" and "n + k \<le> nodes"
  shows "distinct offs" and "\<forall>c \<in> set offs. 0 \<le> c \<and> c < int nodes - int k \<and> c \<noteq> fm"
  using draw_off_cores_ok [OF assms(1) drawn_ok_start] assms(2) by (auto simp: drawn_ok_def can_park_def)

text \<open>A generator that counts, for examples.\<close>

definition counting_rng :: rng where
  "counting_rng = \<lparr>ran_seq = (\<lambda>i. i), ran_used = 0, ranf_seq = (\<lambda>_. 0), ranf_used = 0\<rparr>"

lemma counting_rng_fair: "fair m counting_rng"
  unfolding fair_def
proof (intro allI impI)
  fix x :: int and n
  assume x: "0 \<le> x" "x \<le> m"
  let ?i = "nat x + nat (m + 1) * n"
  have "1 * n \<le> nat (m + 1) * n" by (rule mult_right_mono) (use x in simp_all)
  then have "n \<le> ?i" by linarith
  moreover have "int ?i = x + (m + 1) * int n" using x by simp
  then have "int (ran_seq counting_rng ?i) mod (m + 1) = x"
    using x by (simp add: counting_rng_def del: of_nat_add of_nat_mult)
  ultimately show "\<exists>i\<ge>n. int (ran_seq counting_rng i) mod (m + 1) = x" by blast
qed

text \<open>C9: the configuration of the network parks the cores it is asked to.  When \<open>_Alloc\<close> draws them, it
  parks \<open>_nodes * _powergate_percentile / 100\<close> different cores, none of them the fabric manager and none
  in the last row, and with the FLOV schemes the routers that start asleep are exactly theirs.\<close>

theorem auto_config_off_cores:
  assumes "auto_config k nodes type pct fm seed = Some p"
    and "0 \<le> pct" and "pct \<le> 100" and "nodes < 2 ^ 31" and "k < 2 ^ 31"
  shows "sorted (pk_off_cores p) \<and> distinct (pk_off_cores p) \<and>
    int (length (pk_off_cores p)) = int nodes * pct div 100 \<and>
    (\<forall>c \<in> set (pk_off_cores p). 0 \<le> c \<and> c < int nodes - int k \<and> c \<noteq> pk_fabric_manager p) \<and>
    (\<forall>i<nodes. pk_core_states p ! i \<longleftrightarrow> int i \<notin> set (pk_off_cores p)) \<and>
    (with_core type \<longrightarrow> pk_router_states p = pk_core_states p)"
proof -
  obtain offs g where d: "foldM (draw_off_core (int nodes - 1 - int k) (pk_fabric_manager p))
      [0..<nat (int nodes * pct div 100)] ([], seed) = Some (offs, g)"
    "length offs = nat (int nodes * pct div 100)" "pk_off_cores p = sort offs"
    "nat (int nodes * pct div 100) + k \<le> nodes" "pk_core_states p = switch_off (sort offs) (replicate nodes True)"
    and r: "\<exists>g'. parked_routers k type nodes (pk_fabric_manager p) (sort offs) (pk_core_states p) g =
      Some (pk_router_states p, g')"
    using auto_config_draws [OF assms] by metis
  note o = draws_off_cores [OF d(1,4)]
  have "with_core type \<Longrightarrow> pk_router_states p = pk_core_states p" using r by (auto simp: parked_routers_def)
  moreover have "pk_core_states p ! i \<longleftrightarrow> int i \<notin> set offs" if "i < nodes" for i
    using switch_off_nth [of i "replicate nodes True" "sort offs"] o(2) that by (simp add: d(5))
  moreover have "int (length offs) = int nodes * pct div 100"
    using d(2) assms(2) by (simp add: pos_imp_zdiv_nonneg_iff)
  ultimately show ?thesis using o by (simp add: d(3))
qed

text \<open>C8: when the draws end.  With a generator that returns every remainder again and again, and a FLOV
  scheme, \<open>_Alloc\<close> comes to an end if and only if there are as many cores as it has to park outside the
  last row and besides the fabric manager.  Its own check does not count the fabric manager: when all
  other rows are to be parked and the fabric manager is in one of them, the loop that looks for the last
  core never ends.\<close>

theorem auto_config_returns:
  assumes "with_core type" and "fair (int nodes - 1 - int k) seed"
    and "0 \<le> pct" and "pct \<le> 100" and "nodes < 2 ^ 31" and "k < 2 ^ 31"
    and "fabric_manager k (int nodes) fm < int nodes"
  shows "(\<exists>p. auto_config k nodes type pct fm seed = Some p) \<longleftrightarrow>
    int nodes * pct div 100 + int k +
      (if 0 \<le> fabric_manager k (int nodes) fm \<and> fabric_manager k (int nodes) fm < int nodes - int k then 1 else 0)
    \<le> int nodes"
proof -
  let ?fm = "fabric_manager k (int nodes) fm" and ?m = "int nodes - 1 - int k"
  define n where "n = nat (int nodes * pct div 100)"
  have n: "int nodes * pct div 100 = int n" using assms(3) by (simp add: n_def pos_imp_zdiv_nonneg_iff)
  have card: "card (can_park ?m ?fm) = nodes - k - (if 0 \<le> ?fm \<and> ?fm < int nodes - int k then 1 else 0)"
    if "k \<le> nodes"
    using card_can_park [of ?m ?fm] that by (simp add: nat_diff_distrib)
  show ?thesis (is "_ \<longleftrightarrow> ?enough")
  proof
    assume "\<exists>p. auto_config k nodes type pct fm seed = Some p"
    then obtain p where p: "auto_config k nodes type pct fm seed = Some p" by blast
    obtain offs g where d: "foldM (draw_off_core ?m (pk_fabric_manager p)) [0..<n] ([], seed) = Some (offs, g)"
      "n + k \<le> nodes" "pk_fabric_manager p = ?fm"
      using auto_config_draws [OF p assms(3-6)] unfolding n_def by metis
    have "n \<le> card (can_park ?m ?fm)" using draw_off_cores_enough [OF d(1)] d(2,3) by simp
    then show ?enough using card d(2) unfolding n by (auto split: if_splits)
  next
    assume ?enough
    then have le: "n + k \<le> nodes" and c: "n \<le> card (can_park ?m ?fm)"
      using card unfolding n by (auto split: if_splits)
    obtain s where s: "foldM (draw_off_core ?m ?fm) [0..<n] ([], seed) = Some s"
      using draw_off_cores_fair [OF drawn_ok_start assms(2), where fm = ?fm and xs = "[0..<n]"] c le by auto
    have u: "unat (num_off_cores (int nodes) pct) = n"
      unfolding n_def by (rule num_off_cores_nat(1) [OF assms(3-5)])
    have "\<not> too_many_off k (int nodes) (num_off_cores (int nodes) pct)"
      using too_many_off_nat [OF _ assms(5,6), of "num_off_cores (int nodes) pct"] le by (simp add: u)
    moreover have "length (fst s) = n"
      using draw_off_cores_ok [OF s drawn_ok_start] le by simp
    ultimately show "\<exists>p. auto_config k nodes type pct fm seed = Some p"
      using assms(1,7) s
      by (cases s) (auto simp: auto_config_def draw_off_cores_def parked_routers_def u Let_def)
  qed
qed

lemma auto_config_off_cores_witness:
  "\<exists>p. auto_config 4 16 ''flov'' 60 (-1) counting_rng = Some p \<and> length (pk_off_cores p) = 9 \<and>
     pk_router_states p = pk_core_states p"
proof -
  have "auto_config 4 16 ''flov'' 60 (-1) counting_rng \<noteq> None" by code_simp
  then obtain p where p: "auto_config 4 16 ''flov'' 60 (-1) counting_rng = Some p" by auto
  show ?thesis using auto_config_off_cores [OF p] p by simp
qed

lemma auto_config_returns_witness:
  "auto_config 4 16 ''flov'' 75 (-1) counting_rng = None"
  using auto_config_returns [of "''flov''" 16 4 counting_rng 75 "-1"] counting_rng_fair
  by (simp add: fabric_manager_def)

text \<open>A negative percentage wraps round, and so does the sum that is to reveal it: with -10 on an 8x8 mesh
  the check passes, and 4294967290 cores are to be drawn.\<close>

lemma negative_percentage:
  "unat (num_off_cores 64 (-10)) = 4294967290" "\<not> too_many_off 8 64 (num_off_cores 64 (-10))"
  by (simp_all add: num_off_cores_def too_many_off_def signed_divide_int_def)

subsection \<open>Conservative parking\<close>

text \<open>Two routers touch when they are next to each other, in a row, a column or a diagonal.\<close>

definition touching :: "nat \<Rightarrow> nat \<Rightarrow> nat \<Rightarrow> bool" where
  "touching k i j \<longleftrightarrow> i \<noteq> j \<and> \<bar>int (i mod k) - int (j mod k)\<bar> \<le> 1 \<and> \<bar>int (i div k) - int (j div k)\<bar> \<le> 1"

lemma touching_sym: "touching k i j = touching k j i"
  by (auto simp: touching_def abs_minus_commute)

lemma mesh_position:
  fixes i k :: nat
  assumes "i < k * k"
  obtains x y where "i = y * k + x" and "x < k" and "y < k" and "i mod k = x" and "i div k = y"
proof -
  have k: "0 < k" using assms by (cases k) auto
  show thesis
    by (rule that [of "i div k" "i mod k"]) (use assms k in \<open>auto simp: less_mult_imp_div_less\<close>)
qed

lemma position_simps:
  "x < k \<Longrightarrow> (y * k + x) mod k = x" "x < k \<Longrightarrow> (y * k + x) div k = y" for x y k :: nat
  by simp_all

lemma position_in_mesh:
  assumes "x < k" and "y < (k::nat)"
  shows "y * k + x < k * k"
proof -
  have "y * k + x < Suc y * k" using assms(1) by simp
  also have "\<dots> \<le> k * k" by (rule mult_le_mono1) (use assms(2) in simp)
  finally show ?thesis .
qed

lemma neighbors_parked_iff:
  assumes "cid < k * k"
  shows "neighbors_parked k st cid \<longleftrightarrow> (\<exists>j<k * k. touching k cid j \<and> \<not> st ! j)" (is "_ \<longleftrightarrow> ?near")
proof -
  obtain x y where c: "cid = y * k + x" and x: "x < k" and y: "y < k"
    and d: "cid mod k = x" "cid div k = y"
    by (rule mesh_position [OF assms])
  have e: "1 \<le> x \<Longrightarrow> cid - 1 = y * k + (x - 1)" "cid + 1 = y * k + (x + 1)"
    "1 \<le> y \<Longrightarrow> cid - k = (y - 1) * k + x" "cid + k = (y + 1) * k + x"
    "1 \<le> x \<Longrightarrow> 1 \<le> y \<Longrightarrow> cid - k - 1 = (y - 1) * k + (x - 1)"
    "1 \<le> x \<Longrightarrow> cid + k - 1 = (y + 1) * k + (x - 1)"
    "1 \<le> y \<Longrightarrow> cid - k + 1 = (y - 1) * k + (x + 1)" "cid + k + 1 = (y + 1) * k + (x + 1)"
    by (auto simp: c algebra_simps diff_mult_distrib)
  have near: ?near if "jx < k" "jy < k" "(jx, jy) \<noteq> (x, y)" "\<bar>int x - int jx\<bar> \<le> 1" "\<bar>int y - int jy\<bar> \<le> 1"
    "\<not> st ! (jy * k + jx)" for jx jy
  proof (intro exI conjI)
    show "jy * k + jx < k * k" by (rule position_in_mesh [OF that(1,2)])
    note q = position_simps [OF that(1), of jy]
    have "cid \<noteq> jy * k + jx" using that(3) d q by auto
    then show "touching k cid (jy * k + jx)" using that(4,5) by (simp only: touching_def d q simp_thms)
  qed (use that in simp)
  have w1: ?near if "1 \<le> x" "\<not> st ! (cid - 1)"
    by (rule near [of "x - 1" "y"]) (use that x y e(1) in auto)
  have w2: ?near if "x + 1 < k" "\<not> st ! (cid + 1)"
    by (rule near [of "x + 1" "y"]) (use that x y e(2) in auto)
  have w3: ?near if "1 \<le> y" "\<not> st ! (cid - k)"
    by (rule near [of "x" "y - 1"]) (use that x y e(3) in auto)
  have w4: ?near if "y + 1 < k" "\<not> st ! (cid + k)"
    by (rule near [of "x" "y + 1"]) (use that x y e(4) in auto)
  have w5: ?near if "1 \<le> x \<and> 1 \<le> y" "\<not> st ! (cid - k - 1)"
    by (rule near [of "x - 1" "y - 1"]) (use that x y e(5) in auto)
  have w6: ?near if "1 \<le> x \<and> y + 1 < k" "\<not> st ! (cid + k - 1)"
    by (rule near [of "x - 1" "y + 1"]) (use that x y e(6) in auto)
  have w7: ?near if "x + 1 < k \<and> 1 \<le> y" "\<not> st ! (cid - k + 1)"
    by (rule near [of "x + 1" "y - 1"]) (use that x y e(7) in auto)
  have w8: ?near if "x + 1 < k \<and> y + 1 < k" "\<not> st ! (cid + k + 1)"
    by (rule near [of "x + 1" "y + 1"]) (use that x y e(8) in \<open>auto simp: ac_simps\<close>)
  show ?thesis
  proof
    assume "neighbors_parked k st cid"
    then show ?near
      unfolding neighbors_parked_def Let_def d using w1 w2 w3 w4 w5 w6 w7 w8 by blast
  next
    assume ?near
    then obtain j where j: "j < k * k" "touching k cid j" "\<not> st ! j" by blast
    obtain jx jy where p: "j = jy * k + jx" "jx < k" "jy < k" "j mod k = jx" "j div k = jy"
      by (rule mesh_position [OF j(1)])
    have f1: "neighbors_parked k st cid" if "1 \<le> x" "\<not> st ! (y * k + (x - 1))"
      unfolding neighbors_parked_def Let_def d using that e(1) by metis
    have f2: "neighbors_parked k st cid" if "x + 1 < k" "\<not> st ! (y * k + (x + 1))"
      unfolding neighbors_parked_def Let_def d using that e(2) by metis
    have f3: "neighbors_parked k st cid" if "1 \<le> y" "\<not> st ! ((y - 1) * k + x)"
      unfolding neighbors_parked_def Let_def d using that e(3) by metis
    have f4: "neighbors_parked k st cid" if "y + 1 < k" "\<not> st ! ((y + 1) * k + x)"
      unfolding neighbors_parked_def Let_def d using that e(4) by metis
    have f5: "neighbors_parked k st cid" if "1 \<le> x \<and> 1 \<le> y" "\<not> st ! ((y - 1) * k + (x - 1))"
      unfolding neighbors_parked_def Let_def d using that e(5) by metis
    have f6: "neighbors_parked k st cid" if "1 \<le> x \<and> y + 1 < k" "\<not> st ! ((y + 1) * k + (x - 1))"
      unfolding neighbors_parked_def Let_def d using that e(6) by metis
    have f7: "neighbors_parked k st cid" if "x + 1 < k \<and> 1 \<le> y" "\<not> st ! ((y - 1) * k + (x + 1))"
      unfolding neighbors_parked_def Let_def d using that e(7) by metis
    have f8: "neighbors_parked k st cid" if "x + 1 < k \<and> y + 1 < k" "\<not> st ! ((y + 1) * k + (x + 1))"
      unfolding neighbors_parked_def Let_def d using that e(8) by metis
    have "1 \<le> x \<and> jx = x - 1 \<or> jx = x \<or> x + 1 < k \<and> jx = x + 1"
      "1 \<le> y \<and> jy = y - 1 \<or> jy = y \<or> y + 1 < k \<and> jy = y + 1"
      using j(2) p(2,3) unfolding touching_def d p(4,5) by linarith+
    moreover have "\<not> (jx = x \<and> jy = y)" using j(2) by (auto simp: touching_def c p(1))
    moreover have "\<not> st ! (jy * k + jx)" using j(3) p(1) by simp
    ultimately show "neighbors_parked k st cid" using f1 f2 f3 f4 f5 f6 f7 f8 by blast
  qed
qed

definition parked_so_far :: "nat \<Rightarrow> int set \<Rightarrow> bool list \<Rightarrow> bool" where
  "parked_so_far k seen st \<longleftrightarrow> length st = k * k \<and>
     (\<forall>i<k * k. \<forall>j<k * k. \<not> st ! i \<longrightarrow> \<not> st ! j \<longrightarrow> \<not> touching k i j) \<and>
     (\<forall>i<k * k. \<not> st ! i \<longrightarrow> int i \<in> seen) \<and>
     (\<forall>i<k * k. int i \<in> seen \<longrightarrow> \<not> st ! i \<or> (\<exists>j<k * k. touching k i j \<and> \<not> st ! j))"

lemma park_router_so_far:
  assumes "parked_so_far k seen st" and "0 \<le> c" and "c < int (k * k)"
  shows "parked_so_far k (insert c seen) (park_router k (nat c) st)"
proof (cases "neighbors_parked k st (nat c)")
  case True
  then have "\<exists>j<k * k. touching k (nat c) j \<and> \<not> st ! j"
    using neighbors_parked_iff [of "nat c" k st] assms(2,3) by (simp add: nat_less_iff)
  then show ?thesis
    using True assms(1,2) unfolding parked_so_far_def park_router_def by (auto simp: touching_def)
next
  case False
  let ?st = "st[nat c := False]"
  have c: "nat c < k * k" "int (nat c) = c" using assms(2,3) by (simp_all add: nat_less_iff del: of_nat_mult)
  have alone: "st ! j" if "j < k * k" "touching k (nat c) j" for j
    using False neighbors_parked_iff [OF c(1)] that by blast
  have len: "length st = k * k" using assms(1) by (simp add: parked_so_far_def)
  have nth: "?st ! i \<longleftrightarrow> i \<noteq> nat c \<and> st ! i" if "i < k * k" for i
    using that c(1) by (auto simp: nth_list_update len)
  have apart: "\<not> touching k i j" if a: "i < k * k" "j < k * k" "\<not> ?st ! i" "\<not> ?st ! j" for i j
  proof -
    consider "i = nat c" "j = nat c" | "i = nat c" "\<not> st ! j" | "j = nat c" "\<not> st ! i" | "\<not> st ! i" "\<not> st ! j"
      using nth [OF a(1)] nth [OF a(2)] a(3,4) by blast
    then show ?thesis
    proof cases
      case 2
      then show ?thesis using alone a by blast
    next
      case 3
      then show ?thesis using alone a touching_sym by blast
    next
      case 4
      then show ?thesis using assms(1) a by (simp add: parked_so_far_def)
    qed (simp add: touching_def)
  qed
  have inside: "int i \<in> insert c seen" if "i < k * k" "\<not> ?st ! i" for i
    using assms(1) that c nth [OF that(1)] by (auto simp: parked_so_far_def)
  have done': "\<not> ?st ! i \<or> (\<exists>j<k * k. touching k i j \<and> \<not> ?st ! j)"
    if i: "i < k * k" and s: "int i \<in> insert c seen" for i
  proof (cases "int i = c")
    case True
    then have "i = nat c" by simp
    then show ?thesis using nth [OF i] by simp
  next
    case False
    then have "\<not> st ! i \<or> (\<exists>j<k * k. touching k i j \<and> \<not> st ! j)"
      using s i assms(1) by (simp add: parked_so_far_def)
    then show ?thesis using nth i by blast
  qed
  show ?thesis
    using apart inside done' False len unfolding parked_so_far_def park_router_def by auto
qed

lemma conservative_parking_so_far:
  assumes "\<forall>c \<in> set offs. 0 \<le> c \<and> c < int (k * k)"
  shows "parked_so_far k (set offs) (conservative_parking k (k * k) offs)"
proof -
  have "parked_so_far k (seen \<union> set offs) (fold (\<lambda>c. park_router k (nat c)) offs st)"
    if "parked_so_far k seen st" for seen st
    using assms that
  proof (induction offs arbitrary: seen st)
    case (Cons c offs)
    then show ?case using Cons.IH [OF _ park_router_so_far [OF Cons.prems(2), of c]] by simp
  qed simp
  from this [of "{}" "replicate (k * k) True"] show ?thesis
    by (simp add: conservative_parking_def parked_so_far_def)
qed

text \<open>C10: conservative router parking.  With \<open>rpc\<close>, the routers that are parked are routers of parked
  cores; no two of them touch, not even at a corner; and they are as many as that allows: every other
  router of a parked core touches one of them.\<close>

theorem conservative_parking_maximal:
  assumes "auto_config k (k * k) ''rpc'' pct fm seed = Some p"
    and "0 \<le> pct" and "pct \<le> 100" and "k * k < 2 ^ 31" and "k < 2 ^ 31"
  shows "(\<forall>i<k * k. \<not> pk_router_states p ! i \<longrightarrow> \<not> pk_core_states p ! i) \<and>
    (\<forall>i<k * k. \<forall>j<k * k. \<not> pk_router_states p ! i \<longrightarrow> \<not> pk_router_states p ! j \<longrightarrow> \<not> touching k i j) \<and>
    (\<forall>i<k * k. \<not> pk_core_states p ! i \<longrightarrow> pk_router_states p ! i \<longrightarrow>
       (\<exists>j<k * k. touching k i j \<and> \<not> pk_router_states p ! j))"
proof -
  obtain offs g where d: "foldM (draw_off_core (int (k * k) - 1 - int k) (pk_fabric_manager p))
      [0..<nat (int (k * k) * pct div 100)] ([], seed) = Some (offs, g)"
    "nat (int (k * k) * pct div 100) + k \<le> k * k"
    "pk_core_states p = switch_off (sort offs) (replicate (k * k) True)"
    and r: "\<exists>g'. parked_routers k ''rpc'' (k * k) (pk_fabric_manager p) (sort offs) (pk_core_states p) g =
      Some (pk_router_states p, g')"
    using auto_config_draws [OF assms] by metis
  have o: "\<forall>c \<in> set offs. 0 \<le> c \<and> c < int (k * k)" using draws_off_cores(2) [OF d(1,2)] by auto
  have "pk_router_states p = conservative_parking k (k * k) (sort offs)"
    using r by (auto simp: parked_routers_def)
  then have "parked_so_far k (set offs) (pk_router_states p)"
    using conservative_parking_so_far [of "sort offs" k] o by simp
  moreover have "pk_core_states p ! i \<longleftrightarrow> int i \<notin> set offs" if "i < k * k" for i
    using switch_off_nth [of i "replicate (k * k) True" "sort offs"] o that by (simp add: d(3))
  ultimately show ?thesis unfolding parked_so_far_def by blast
qed

lemma conservative_parking_maximal_witness:
  "\<exists>p. auto_config 4 16 ''rpc'' 60 (-1) counting_rng = Some p \<and>
     (\<forall>i<16. \<not> pk_router_states p ! i \<longrightarrow> \<not> pk_core_states p ! i)"
proof -
  have "auto_config 4 (4 * 4) ''rpc'' 60 (-1) counting_rng \<noteq> None" by code_simp
  then obtain p where p: "auto_config 4 (4 * 4) ''rpc'' 60 (-1) counting_rng = Some p" by auto
  show ?thesis using conservative_parking_maximal [OF p] p by simp
qed

end
