(* ===== verification/Parking_Connected.thy ===== *)
theory Parking_Connected
  imports Parking_Choice
begin

text \<open>
  Aggressive router parking leaves a connected network: the search finds the components of the routers
  that are on, and the paths that are switched on lead from each of them to the fabric manager.
\<close>

definition link_on :: "nat \<Rightarrow> bool list \<Rightarrow> nat \<Rightarrow> nat \<Rightarrow> bool" where
  "link_on k st i j \<longleftrightarrow> i < length st \<and> j < length st \<and> st ! i \<and> st ! j \<and> mesh_adjacent k i j"

text \<open>Packets can go from \<open>i\<close> to \<open>j\<close> through routers that are on.\<close>

abbreviation linked :: "nat \<Rightarrow> bool list \<Rightarrow> nat \<Rightarrow> nat \<Rightarrow> bool" where
  "linked k st \<equiv> (link_on k st)\<^sup>*\<^sup>*"

lemma mesh_adjacent_sym: "mesh_adjacent k i j = mesh_adjacent k j i"
  by (auto simp: mesh_adjacent_def Let_def abs_minus_commute)

lemma link_on_sym: "link_on k st i j \<Longrightarrow> link_on k st j i"
  by (simp add: link_on_def mesh_adjacent_sym)

lemma linked_sym: "linked k st i j \<Longrightarrow> linked k st j i"
  by (rule sympD [OF symp_rtranclp]) (auto intro: sympI link_on_sym)

lemma linked_mono:
  assumes "linked k st i j" and "length st' = length st" and "\<forall>i<length st. st ! i \<longrightarrow> st' ! i"
  shows "linked k st' i j"
  using assms(1) by (rule rtranclp_mono [THEN predicate2D, rotated]) (use assms(2,3) in \<open>auto simp: link_on_def\<close>)

subsection \<open>The search\<close>

lemma adjacency_is_link:
  "i < length st \<Longrightarrow> j < length st \<Longrightarrow> adjacency k st ! i ! j = 1 \<longleftrightarrow> link_on k st i j"
  by (auto simp: adjacency_def link_on_def mesh_adjacent_def)

text \<open>What a step of the search keeps: nothing leaves the queue or becomes unvisited, and what is new came
  in by an edge.\<close>

definition pushed :: "(nat \<Rightarrow> bool) \<Rightarrow> bool list \<times> nat list \<Rightarrow> bool list \<times> nat list \<Rightarrow> bool" where
  "pushed edge s s' \<longleftrightarrow> length (fst s') = length (fst s) \<and>
     (\<forall>i<length (fst s). fst s ! i \<longrightarrow> fst s' ! i) \<and>
     (\<forall>i<length (fst s). fst s' ! i \<longrightarrow> fst s ! i \<or> i \<in> set (snd s')) \<and>
     set (snd s) \<subseteq> set (snd s') \<and>
     (\<forall>i \<in> set (snd s'). i \<in> set (snd s) \<or> i < length (fst s) \<and> edge i)"

lemma pushed_refl: "pushed edge s s"
  by (simp add: pushed_def)

lemma pushed_trans:
  assumes "pushed edge s s'" and "pushed edge s' s''"
  shows "pushed edge s s''"
proof -
  have len: "length (fst s') = length (fst s)" "length (fst s'') = length (fst s')"
    and sub: "set (snd s) \<subseteq> set (snd s')" "set (snd s') \<subseteq> set (snd s'')"
    using assms by (simp_all add: pushed_def)
  have "fst s ! i \<longrightarrow> fst s'' ! i" "fst s'' ! i \<longrightarrow> fst s ! i \<or> i \<in> set (snd s'')" if "i < length (fst s)" for i
    using assms sub that len unfolding pushed_def by auto
  moreover have "i \<in> set (snd s) \<or> i < length (fst s) \<and> edge i" if "i \<in> set (snd s'')" for i
    using assms that len unfolding pushed_def by auto
  ultimately show ?thesis using len sub unfolding pushed_def by auto
qed

lemma push_neighbor_pushed: "pushed (\<lambda>i. row ! i = 1) s (push_neighbor row i s)"
  by (cases s) (auto simp: pushed_def push_neighbor_def nth_list_update)

lemma push_neighbors_pushed: "pushed (\<lambda>i. row ! i = 1) s (push_neighbors row s)"
proof -
  have "pushed (\<lambda>i. row ! i = 1) s (fold (push_neighbor row) xs s)" for xs
  proof (induction xs arbitrary: s)
    case (Cons x xs)
    show ?case using pushed_trans [OF push_neighbor_pushed Cons.IH] by simp
  qed (simp add: pushed_refl)
  then show ?thesis by (simp add: push_neighbors_def)
qed

lemma bfs_finds:
  assumes "bfs (adjacency k st) (v, q) part = (part', v')" and "length v = length st"
    and "\<forall>x \<in> set q \<union> set part. x < length st \<and> linked k st r x"
  shows "length v' = length st \<and> (\<forall>i<length st. v ! i \<longrightarrow> v' ! i) \<and>
    (\<forall>i<length st. v' ! i \<longrightarrow> v ! i \<or> i \<in> set part') \<and> set q \<union> set part \<subseteq> set part' \<and>
    (\<forall>x \<in> set part'. x < length st \<and> linked k st r x)"
  using assms
proof (induction "bfs_work (v, q)" arbitrary: v q part rule: less_induct)
  case less
  show ?case
  proof (cases q)
    case Nil
    then show ?thesis using less.prems by (auto simp: bfs.simps [of _ "(v, [])"])
  next
    case (Cons n ns)
    obtain v1 q1 where p: "push_neighbors (adjacency k st ! n) (v, ns) = (v1, q1)" by fastforce
    have n: "n < length st" "linked k st r n" using less.prems(3) Cons by auto
    have pushed: "pushed (\<lambda>i. adjacency k st ! n ! i = 1) (v, ns) (v1, q1)"
      using push_neighbors_pushed [of "adjacency k st ! n" "(v, ns)"] by (simp add: p)
    have q1: "x < length st \<and> linked k st r x" if "x \<in> set q1" for x
    proof (cases "x \<in> set ns")
      case False
      then have "x < length st" "link_on k st n x"
        using pushed that less.prems(2) adjacency_is_link [OF n(1)] by (auto simp: pushed_def)
      then show ?thesis using n(2) by (auto intro: rtranclp.rtrancl_into_rtrancl)
    qed (use less.prems(3) Cons in auto)
    have "bfs (adjacency k st) (v1, q1) (part @ [n]) = (part', v')"
      using less.prems(1) by (subst (asm) bfs.simps) (simp add: Cons p)
    moreover have "bfs_work (v1, q1) < bfs_work (v, q)"
      using push_neighbors_work [of "adjacency k st ! n" "(v, ns)"] by (simp add: p Cons bfs_work_def)
    moreover have len: "length v1 = length st" using pushed less.prems(2) by (simp add: pushed_def)
    moreover have "\<forall>x \<in> set q1 \<union> set (part @ [n]). x < length st \<and> linked k st r x"
      using q1 n less.prems(3) by auto
    ultimately have ih: "length v' = length st" "\<forall>i<length st. v1 ! i \<longrightarrow> v' ! i"
      "\<forall>i<length st. v' ! i \<longrightarrow> v1 ! i \<or> i \<in> set part'" "set q1 \<union> set (part @ [n]) \<subseteq> set part'"
      "\<forall>x \<in> set part'. x < length st \<and> linked k st r x"
      using less.hyps [of v1 q1 "part @ [n]"] by blast+
    have "set ns \<subseteq> set q1" "\<forall>i<length st. v ! i \<longrightarrow> v1 ! i" "\<forall>i<length st. v1 ! i \<longrightarrow> v ! i \<or> i \<in> set q1"
      using pushed less.prems(2) by (simp_all add: pushed_def)
    then show ?thesis using ih Cons by auto
  qed
qed

text \<open>The components: their members are linked, and every router that is on is in one.\<close>

definition components_ok :: "nat \<Rightarrow> bool list \<Rightarrow> nat list list \<Rightarrow> bool" where
  "components_ok k st cs \<longleftrightarrow>
     (\<forall>c \<in> set cs. c \<noteq> [] \<and> (\<forall>x \<in> set c. x < length st \<and> st ! x \<and> (\<forall>y \<in> set c. linked k st x y)))"

definition search_ok :: "nat \<Rightarrow> bool list \<Rightarrow> nat list list \<times> bool list \<Rightarrow> bool" where
  "search_ok k st s \<longleftrightarrow> components_ok k st (fst s) \<and> length (snd s) = length st \<and>
     (\<forall>i<length st. snd s ! i \<longrightarrow> (\<exists>c \<in> set (fst s). i \<in> set c))"

lemma linked_on:
  assumes "linked k st r x" and "st ! r"
  shows "st ! x"
  using assms by (induction rule: rtranclp_induct) (auto simp: link_on_def)

lemma find_component_ok:
  assumes "search_ok k st s" and "r < length st"
  shows "search_ok k st (find_component st (adjacency k st) r s)"
    and "st ! r \<Longrightarrow> snd (find_component st (adjacency k st) r s) ! r"
    and "\<forall>i<length st. snd s ! i \<longrightarrow> snd (find_component st (adjacency k st) r s) ! i"
proof -
  obtain cs v where s: "s = (cs, v)" by fastforce
  let ?s' = "find_component st (adjacency k st) r s"
  have "search_ok k st ?s' \<and> (st ! r \<longrightarrow> snd ?s' ! r) \<and> (\<forall>i<length st. snd s ! i \<longrightarrow> snd ?s' ! i)"
  proof (cases "\<not> st ! r \<or> v ! r")
    case True
    then show ?thesis using assms(1) by (auto simp: find_component_def s)
  next
    case False
    obtain part v' where b: "bfs (adjacency k st) (v[r := True], [r]) [] = (part, v')" by fastforce
    have len: "length v = length st" using assms(1) by (simp add: search_ok_def s)
    note f = bfs_finds [OF b, of r]
    have f: "length v' = length st" "\<forall>i<length st. v[r := True] ! i \<longrightarrow> v' ! i"
      "\<forall>i<length st. v' ! i \<longrightarrow> v[r := True] ! i \<or> i \<in> set part" "r \<in> set part"
      "\<forall>x \<in> set part. x < length st \<and> linked k st r x"
      using f len assms(2) by simp_all
    have s': "?s' = (cs @ [sort part], v')" using False by (simp add: find_component_def s b)
    have "linked k st x y" if "x \<in> set part" "y \<in> set part" for x y
      using f(5) that linked_sym rtranclp_trans by metis
    moreover have "sort part \<noteq> []" using f(4) by (metis empty_iff list.set(1) set_sort)
    ultimately have "components_ok k st (cs @ [sort part])"
      using assms(1) f(5) False linked_on [of k st r] by (auto simp: components_ok_def search_ok_def s)
    moreover have "\<exists>c \<in> set (cs @ [sort part]). i \<in> set c" if "i < length st" "v' ! i" for i
    proof (cases "v ! i")
      case True
      then show ?thesis using assms(1) that by (auto simp: search_ok_def s)
    next
      case False
      then have "i \<in> set part" using f(3,4) that by (cases "i = r") (auto simp: nth_list_update len)
      then show ?thesis by simp
    qed
    moreover have "v' ! r" "\<forall>i<length st. v ! i \<longrightarrow> v' ! i"
      using f(2) assms(2) by (auto simp: nth_list_update len)
    ultimately show ?thesis unfolding s' by (simp add: search_ok_def f(1) s)
  qed
  then show "search_ok k st ?s'" "st ! r \<Longrightarrow> snd ?s' ! r" "\<forall>i<length st. snd s ! i \<longrightarrow> snd ?s' ! i" by simp_all
qed

lemma find_components_ok:
  assumes "search_ok k st s" and "\<forall>r \<in> set rs. r < length st"
  defines "s' \<equiv> fold (find_component st (adjacency k st)) rs s"
  shows "search_ok k st s' \<and> (\<forall>i<length st. snd s ! i \<longrightarrow> snd s' ! i) \<and> (\<forall>r \<in> set rs. st ! r \<longrightarrow> snd s' ! r)"
  unfolding s'_def using assms(1,2)
proof (induction rs arbitrary: s)
  case (Cons r rs)
  then have r: "r < length st" by simp
  note f = find_component_ok [OF Cons.prems(1) r]
  show ?case using Cons.IH [OF f(1)] Cons.prems(2) f(2,3) by auto
qed simp

lemma components_found:
  "components_ok k st (components st (adjacency k st))"
  "i < length st \<Longrightarrow> st ! i \<Longrightarrow> \<exists>c \<in> set (components st (adjacency k st)). i \<in> set c"
proof -
  let ?s = "([], replicate (length st) False)"
  have "search_ok k st ?s" by (simp add: search_ok_def components_ok_def)
  note f = find_components_ok [OF this, of "[0..<length st]"]
  show "components_ok k st (components st (adjacency k st))"
    using f by (simp add: components_def search_ok_def)
  show "\<exists>c \<in> set (components st (adjacency k st)). i \<in> set c" if "i < length st" "st ! i"
    using f that by (simp add: components_def search_ok_def)
qed

subsection \<open>The way to the fabric manager\<close>

lemma adjacent_in_row: "x < k \<Longrightarrow> Suc x < k \<Longrightarrow> mesh_adjacent k (y * k + x) (y * k + Suc x)"
  using position_simps [of x k y] position_simps [of "Suc x" k y] by (simp add: mesh_adjacent_def)

lemma adjacent_in_column: "x < k \<Longrightarrow> mesh_adjacent k (y * k + x) (Suc y * k + x)"
  using position_simps [of x k y] position_simps [of x k "Suc y"] by (simp add: mesh_adjacent_def)

lemma successively_map_upt:
  "(\<And>d. d < n \<Longrightarrow> P (f d) (f (Suc d))) \<Longrightarrow> successively P (map f [0..<Suc n])"
proof (induction n)
  case (Suc n)
  have "successively P (map f [0..<Suc n])" using Suc by simp
  then show ?case using Suc.prems [of n] by (simp add: successively_append_iff)
qed simp

text \<open>A leg of the path goes from router to router.\<close>

lemma leg_steps:
  assumes "xs = map f [1..<Suc n]" and "f 0 = r" and "\<forall>d<n. mesh_adjacent k (f d) (f (Suc d))"
    and "\<forall>d\<le>n. f d < k * k"
  shows "successively (mesh_adjacent k) (r # xs)" and "last (r # xs) = f n"
    and "\<forall>v \<in> set xs. v < k * k" and "length xs = n"
proof -
  have path: "r # xs = map f [0..<Suc n]" using assms(1,2) upt_conv_Cons [of 0 "Suc n"] by simp
  show "successively (mesh_adjacent k) (r # xs)"
    unfolding path by (rule successively_map_upt) (use assms(3) in blast)
  show "last (r # xs) = f n" unfolding path by simp
qed (use assms(1,4) in auto)

lemma row_leg_steps:
  assumes "x < k" and "y < k" and "fm < k * k"
  defines "r \<equiv> y * k + x"
  shows "successively (mesh_adjacent k) (r # row_leg k fm r)" and "last (r # row_leg k fm r) = y * k + fm mod k"
    and "\<forall>v \<in> set (row_leg k fm r). v < k * k" and "length (row_leg k fm r) < k"
proof -
  have fx: "fm mod k < k" using assms(1) by simp
  have rx: "r mod k = x" using assms(1) by (simp add: r_def)
  have "\<exists>f n. row_leg k fm r = map f [1..<Suc n] \<and> f 0 = r \<and> f n = y * k + fm mod k \<and> n < k \<and>
      (\<forall>d<n. mesh_adjacent k (f d) (f (Suc d))) \<and> (\<forall>d\<le>n. f d < k * k)"
  proof (cases "fm mod k < x")
    case True
    let ?f = "\<lambda>d. r - d" and ?n = "x - fm mod k"
    have f: "?f d = y * k + (x - d)" if "d \<le> ?n" for d using that by (simp add: r_def)
    have "mesh_adjacent k (?f d) (?f (Suc d))" if "d < ?n" for d
    proof -
      have s: "x - d = Suc (x - Suc d)" using that by simp
      have "mesh_adjacent k (?f (Suc d)) (?f d)"
        using adjacent_in_row [of "x - Suc d" k y] f [of d] f [of "Suc d"] that assms(1) s by simp
      then show ?thesis by (simp only: mesh_adjacent_sym)
    qed
    moreover have "?f d < k * k" if "d \<le> ?n" for d
      using f [OF that] position_in_mesh [of "x - d" k y] assms(1,2) by simp
    moreover have "row_leg k fm r = map ?f [1..<Suc ?n]"
      using True by (simp add: row_leg_def rx Let_def del: upt_Suc)
    moreover have "?f 0 = r" "?f ?n = y * k + fm mod k" using f [of ?n] True by simp_all
    moreover have "?n < k" using assms(1) by (rule less_imp_diff_less)
    ultimately show ?thesis by (intro exI [of _ ?f] exI [of _ ?n]) blast
  next
    case False
    let ?f = "\<lambda>d. r + d" and ?n = "fm mod k - x"
    have f: "?f d = y * k + (x + d)" for d by (simp add: r_def)
    have "mesh_adjacent k (?f d) (?f (Suc d))" if "d < ?n" for d
      unfolding f using adjacent_in_row [of "x + d" k y] that fx by simp
    moreover have "?f d < k * k" if "d \<le> ?n" for d
      unfolding f by (rule position_in_mesh) (use that fx False assms(1,2) in linarith)+
    moreover have "row_leg k fm r = map ?f [1..<Suc ?n]"
      using False by (simp add: row_leg_def rx Let_def del: upt_Suc)
    moreover have "?f 0 = r" "?f ?n = y * k + fm mod k" using f [of ?n] False by simp_all
    moreover have "?n < k" using fx by (rule less_imp_diff_less)
    ultimately show ?thesis by (intro exI [of _ ?f] exI [of _ ?n]) blast
  qed
  then obtain f n where f: "row_leg k fm r = map f [1..<Suc n]" "f 0 = r" "f n = y * k + fm mod k" "n < k"
    "\<forall>d<n. mesh_adjacent k (f d) (f (Suc d))" "\<forall>d\<le>n. f d < k * k" by blast
  note steps = leg_steps [OF f(1,2,5,6)]
  show "successively (mesh_adjacent k) (r # row_leg k fm r)" by (rule steps(1))
  show "last (r # row_leg k fm r) = y * k + fm mod k" using steps(2) f(3) by (rule trans)
  show "\<forall>v \<in> set (row_leg k fm r). v < k * k" by (rule steps(3))
  show "length (row_leg k fm r) < k" using steps(4) f(4) by (simp only:)
qed

lemma column_leg_steps:
  assumes "x < k" and "y < k" and "fm < k * k"
  defines "r \<equiv> y * k + x"
  shows "successively (mesh_adjacent k) (r # column_leg k fm y r)" and "last (r # column_leg k fm y r) = fm div k * k + x"
    and "\<forall>v \<in> set (column_leg k fm y r). v < k * k" and "length (column_leg k fm y r) < k"
proof -
  have fy: "fm div k < k" using assms(3) by (simp add: less_mult_imp_div_less)
  have "\<exists>f n. column_leg k fm y r = map f [1..<Suc n] \<and> f 0 = r \<and> f n = fm div k * k + x \<and> n < k \<and>
      (\<forall>d<n. mesh_adjacent k (f d) (f (Suc d))) \<and> (\<forall>d\<le>n. f d < k * k)"
  proof (cases "fm div k < y")
    case True
    let ?f = "\<lambda>d. r - d * k" and ?n = "y - fm div k"
    have f: "?f d = (y - d) * k + x" if "d \<le> ?n" for d
    proof -
      have "d * k \<le> y * k" using that by (intro mult_right_mono) auto
      then show ?thesis by (simp add: r_def diff_mult_distrib)
    qed
    have "mesh_adjacent k (?f d) (?f (Suc d))" if "d < ?n" for d
    proof -
      have s: "y - d = Suc (y - Suc d)" using that by simp
      have "mesh_adjacent k (?f (Suc d)) (?f d)"
        using adjacent_in_column [of x k "y - Suc d"] f [of d] f [of "Suc d"] that assms(1) s by simp
      then show ?thesis by (simp only: mesh_adjacent_sym)
    qed
    moreover have "?f d < k * k" if "d \<le> ?n" for d
      using f [OF that] position_in_mesh [of x k "y - d"] assms(1,2) by simp
    moreover have "column_leg k fm y r = map ?f [1..<Suc ?n]"
      using True by (simp add: column_leg_def Let_def del: upt_Suc)
    moreover have "?f 0 = r" "?f ?n = fm div k * k + x" using f [of ?n] True by simp_all
    moreover have "?n < k" using assms(2) by (rule less_imp_diff_less)
    ultimately show ?thesis by (intro exI [of _ ?f] exI [of _ ?n]) blast
  next
    case False
    let ?f = "\<lambda>d. r + d * k" and ?n = "fm div k - y"
    have f: "?f d = (y + d) * k + x" for d by (simp add: r_def algebra_simps)
    have "mesh_adjacent k (?f d) (?f (Suc d))" if "d < ?n" for d
      using adjacent_in_column [of x k "y + d"] assms(1) unfolding f by simp
    moreover have "?f d < k * k" if "d \<le> ?n" for d
      unfolding f by (rule position_in_mesh) (use that fy False assms(1,2) in auto)
    moreover have "column_leg k fm y r = map ?f [1..<Suc ?n]"
      using False by (simp add: column_leg_def Let_def del: upt_Suc)
    moreover have "?f 0 = r" "?f ?n = fm div k * k + x" using f [of ?n] False by simp_all
    moreover have "?n < k" using fy by (rule less_imp_diff_less)
    ultimately show ?thesis by (intro exI [of _ ?f] exI [of _ ?n]) blast
  qed
  then obtain f n where f: "column_leg k fm y r = map f [1..<Suc n]" "f 0 = r" "f n = fm div k * k + x" "n < k"
    "\<forall>d<n. mesh_adjacent k (f d) (f (Suc d))" "\<forall>d\<le>n. f d < k * k" by blast
  note steps = leg_steps [OF f(1,2,5,6)]
  show "successively (mesh_adjacent k) (r # column_leg k fm y r)" by (rule steps(1))
  show "last (r # column_leg k fm y r) = fm div k * k + x" using steps(2) f(3) by (rule trans)
  show "\<forall>v \<in> set (column_leg k fm y r). v < k * k" by (rule steps(3))
  show "length (column_leg k fm y r) < k" using steps(4) f(4) by (simp only:)
qed

text \<open>The whole path leads to the fabric manager, over fewer routers than there are.\<close>

lemma path_to_fabric_manager:
  assumes "off_routers_on_path k fm st e = Some offs" and "e < k * k" and "fm < k * k"
  obtains zs where "successively (mesh_adjacent k) (e # zs)" and "last (e # zs) = fm"
    and "\<forall>v \<in> set zs. v < k * k" and "offs = filter (\<lambda>v. \<not> st ! v) zs" and "length zs < k * k"
proof -
  obtain x y where e: "e = y * k + x" "x < k" "y < k" "e mod k = x" "e div k = y"
    by (rule mesh_position [OF assms(2)])
  let ?xs = "row_leg k fm e" and ?r = "y * k + fm mod k"
  let ?ys = "column_leg k fm y ?r"
  have fm: "fm mod k < k" "fm div k * k + fm mod k = fm" using e(2) by simp_all
  note xs = row_leg_steps [OF e(2,3) assms(3), folded e(1)]
  note ys = column_leg_steps [OF fm(1) e(3) assms(3)]
  have offs: "offs = filter (\<lambda>v. \<not> st ! v) (?xs @ ?ys)"
    using assms(1) unfolding off_routers_on_path_def Let_def xs(2) e(5) by simp
  have "successively (mesh_adjacent k) (e # ?xs @ ?ys)"
    using xs(1,2) ys(1) successively_append_iff [of "mesh_adjacent k" "e # ?xs" ?ys]
    by (cases ?ys) simp_all
  moreover have "last (e # ?xs @ ?ys) = fm"
    using xs(2) ys(2) fm(2) by (cases ?ys) simp_all
  moreover have "length (?xs @ ?ys) < k * k"
  proof -
    have "length (?xs @ ?ys) \<le> (k - 1) + (k - 1)" using xs(4) ys(4) by simp
    also have "\<dots> < k * k" using e(2) by (cases k; cases "k - 1") auto
    finally show ?thesis .
  qed
  ultimately show thesis using that [of "?xs @ ?ys"] xs(3) ys(3) offs by auto
qed

lemma successively_linked:
  assumes "successively (mesh_adjacent k) (e # zs)" and "\<forall>v \<in> set (e # zs). v < length st \<and> st ! v"
    and "v \<in> set (e # zs)"
  shows "linked k st v (last (e # zs))"
  using assms
proof (induction zs arbitrary: e v)
  case (Cons z zs)
  have rest: "linked k st u (last (z # zs))" if "u \<in> set (z # zs)" for u
    using Cons.IH [of z u] Cons.prems(1,2) that by simp
  have "link_on k st e z" using Cons.prems(1,2) by (simp add: link_on_def)
  then have "linked k st e (last (z # zs))" using rest [of z] by (simp add: converse_rtranclp_into_rtranclp)
  then show ?case using rest Cons.prems(3) by auto
qed simp

lemma switch_on_nth: "i < length st \<Longrightarrow> switch_on ids st ! i \<longleftrightarrow> st ! i \<or> i \<in> set ids"
proof (induction ids arbitrary: st)
  case (Cons c ids)
  have "switch_on (c # ids) st = switch_on ids (st[c := True])" by (simp add: switch_on_def)
  then show ?case using Cons by (cases "i = c") auto
qed (simp add: switch_on_def)

lemma length_switch_on [simp]: "length (switch_on ids st) = length st"
  by (induction ids arbitrary: st) (auto simp: switch_on_def)

lemma path_switched_on:
  assumes "off_routers_on_path k fm st e = Some offs" and "e < k * k" and "fm < k * k"
    and "length st = k * k" and "st ! e"
  shows "\<forall>v \<in> insert e (set offs). linked k (switch_on offs st) v fm" and "length offs < k * k"
proof -
  obtain zs where zs: "successively (mesh_adjacent k) (e # zs)" "last (e # zs) = fm" "\<forall>v \<in> set zs. v < k * k"
    "offs = filter (\<lambda>v. \<not> st ! v) zs" "length zs < k * k"
    by (rule path_to_fabric_manager [OF assms(1-3)])
  have "\<forall>v \<in> set (e # zs). v < length (switch_on offs st) \<and> switch_on offs st ! v"
    using zs(3,4) assms(2,4,5) by (auto simp: switch_on_nth)
  then show "\<forall>v \<in> insert e (set offs). linked k (switch_on offs st) v fm"
    using successively_linked [OF zs(1)] zs(2,4) by auto
  have "length offs \<le> length zs" by (simp add: zs(4))
  then show "length offs < k * k" using zs(5) by simp
qed

subsection \<open>All components\<close>

text \<open>What the eight tries leave: a path from a router of the component.\<close>

lemma try_paths:
  assumes "foldM (try_path k fm adj st part) is (best, path, g) = Some (best', path', g')"
    and "\<forall>e \<in> set part. e < k * k \<and> st ! e" and "part \<noteq> []" and "fm < k * k" and "length st = k * k"
    and "best = k * k \<or> (\<exists>e \<in> set part. off_routers_on_path k fm st e = Some path)"
  shows "is = [] \<and> path' = path \<or> (\<exists>e \<in> set part. off_routers_on_path k fm st e = Some path')"
  using assms(1,6)
proof (induction "is" arbitrary: best path g)
  case (Cons i js)
  obtain b1 p1 g1 where 1: "try_path k fm adj st part i (best, path, g) = Some (b1, p1, g1)"
    and 2: "foldM (try_path k fm adj st part) js (b1, p1, g1) = Some (best', path', g')"
    using Cons.prems(1) by (auto split: option.splits)
  obtain j offs where d: "draw_until (int (length part) - 1) (\<lambda>j. is_edge_router k adj (part ! nat j)) g = Some (j, g1)"
    and o: "off_routers_on_path k fm st (part ! nat j) = Some offs"
    and r: "(b1, p1) = (if length offs < best then (length offs, offs) else (best, path))"
    using 1 by (auto simp: try_path_def split: Option.bind_splits if_splits)
  have "0 \<le> int (length part) - 1" using assms(3) by (cases part) auto
  note j = draw_until_Some(2,3) [OF d this]
  then have "nat j < length part" by linarith
  then have e: "part ! nat j \<in> set part" by simp
  then have "length offs < k * k" using path_switched_on(2) [OF o _ assms(4,5)] assms(2) by blast
  then have "\<exists>e \<in> set part. off_routers_on_path k fm st e = Some p1"
    using Cons.prems(2) e o r by (auto split: if_splits)
  then show ?case using Cons.IH [OF 2] by blast
qed simp

text \<open>So far: more routers are on than cores, and those, like the members of the components done, are linked
  to the fabric manager.\<close>

definition joined :: "nat \<Rightarrow> nat \<Rightarrow> bool list \<Rightarrow> nat set \<Rightarrow> bool list \<Rightarrow> bool" where
  "joined k fm cores seen st \<longleftrightarrow> length st = k * k \<and> (\<forall>i<k * k. cores ! i \<longrightarrow> st ! i) \<and>
     (\<forall>i<k * k. st ! i \<longrightarrow> cores ! i \<or> linked k st i fm) \<and> (\<forall>i \<in> seen. linked k st i fm)"

lemma joined_grows:
  assumes "joined k fm cores seen st" and "\<forall>i \<in> seen' \<union> set offs. linked k (switch_on offs st) i fm"
    and "seen' \<supseteq> set part"
  shows "joined k fm cores (seen \<union> set part) (switch_on offs st)"
proof -
  have len: "length st = k * k" using assms(1) by (simp add: joined_def)
  have up: "linked k (switch_on offs st) i fm" if "linked k st i fm" for i
    by (rule linked_mono [OF that]) (simp_all add: switch_on_nth)
  show ?thesis using assms up unfolding joined_def by (auto simp: switch_on_nth len)
qed

lemma connect_component_joined:
  assumes "connect_component k fm adj part (st, g) = Some (st', g')" and "joined k fm cores seen st"
    and "length cores = k * k" and "fm < k * k" and "part \<noteq> []"
    and "\<forall>x \<in> set part. x < length cores \<and> cores ! x \<and> (\<forall>y \<in> set part. linked k cores x y)"
  shows "joined k fm cores (seen \<union> set part) st'"
proof -
  have len: "length st = k * k" and on: "\<forall>i<k * k. cores ! i \<longrightarrow> st ! i"
    using assms(2) by (simp_all add: joined_def)
  have up: "linked k st x y" if "x \<in> set part" "y \<in> set part" for x y
    by (rule linked_mono) (use assms(3,6) that len on in auto)
  show ?thesis
  proof (cases "fm \<in> set part")
    case True
    then have "st' = st" using assms(1) by (simp add: connect_component_def)
    then show ?thesis using assms(2) up True by (auto simp: joined_def)
  next
    case False
    obtain best path where t: "foldM (try_path k fm adj st part) [0..<8] (length st, [], g) = Some (best, path, g')"
      and st': "st' = switch_on path st"
      using assms(1) False by (auto simp: connect_component_def split: Option.bind_splits)
    obtain e where e: "e \<in> set part" and o: "off_routers_on_path k fm st e = Some path"
      using try_paths [OF t _ assms(5,4) len] assms(3,6) on len by auto
    have "linked k (switch_on path st) v fm" if "v \<in> insert e (set path)" for v
      using path_switched_on(1) [OF o _ assms(4) len] e assms(3,6) on that by auto
    moreover have "linked k (switch_on path st) x e" if "x \<in> set part" for x
      by (rule linked_mono [OF up [OF that e]]) (simp_all add: switch_on_nth)
    ultimately show ?thesis
      unfolding st' by (intro joined_grows [OF assms(2), of "set part"]) (auto intro: rtranclp_trans)
  qed
qed

lemma connect_components_joined:
  assumes "foldM (connect_component k fm adj) parts (st, g) = Some (st', g')" and "joined k fm cores seen st"
    and "length cores = k * k" and "fm < k * k" and "components_ok k cores parts"
  shows "joined k fm cores (seen \<union> \<Union> (set ` set parts)) st'"
  using assms(1,2,5)
proof (induction parts arbitrary: st g seen)
  case (Cons part parts)
  obtain st1 g1 where 1: "connect_component k fm adj part (st, g) = Some (st1, g1)"
    and 2: "foldM (connect_component k fm adj) parts (st1, g1) = Some (st', g')"
    using Cons.prems(1) by (auto split: option.splits)
  have "joined k fm cores (seen \<union> set part) st1"
    using connect_component_joined [OF 1 Cons.prems(2) assms(3,4)] Cons.prems(3) by (simp add: components_ok_def)
  then show ?case
    using Cons.IH [OF 2, of "seen \<union> set part"] Cons.prems(3) by (simp add: components_ok_def Un_assoc)
qed simp

lemma aggressive_parking_joins:
  assumes "aggressive_parking k fm cores g = Some (st, g')" and "length cores = k * k"
    and "fm < k * k"
  shows "(\<forall>v<k * k. cores ! v \<longrightarrow> st ! v) \<and>
    (\<forall>i<k * k. \<forall>j<k * k. st ! i \<longrightarrow> st ! j \<longrightarrow> linked k st i j)"
proof -
  let ?parts = "components cores (adjacency k cores)"
  have ok: "components_ok k cores ?parts" by (rule components_found(1))
  have inside: "\<exists>c \<in> set ?parts. v \<in> set c" if "v < k * k" "cores ! v" for v
    using components_found(2) [of v cores k] that assms(2) by simp
  show ?thesis
  proof (cases "length ?parts = 1")
    case True
    then obtain c where c: "?parts = [c]" by (auto simp: length_Suc_conv)
    have "st = cores" using assms(1) True by (simp add: aggressive_parking_def)
    then show ?thesis using inside ok c by (simp add: components_ok_def)
  next
    case False
    then have run: "foldM (connect_component k fm (adjacency k cores)) ?parts (cores, g) = Some (st, g')"
      using assms(1) by (simp add: aggressive_parking_def Let_def)
    have start: "joined k fm cores {} cores" using assms(2) by (simp add: joined_def)
    have r: "joined k fm cores (\<Union> (set ` set ?parts)) st"
      using connect_components_joined [OF run start assms(2,3) ok] by simp
    have to_fm: "linked k st v fm" if "v < k * k" "st ! v" for v
      using r inside [OF that(1)] that unfolding joined_def by blast
    have "linked k st i j" if "i < k * k" "j < k * k" "st ! i" "st ! j" for i j
      using to_fm [OF that(1,3)] linked_sym [OF to_fm [OF that(2,4)]] by (rule rtranclp_trans)
    then show ?thesis using r by (auto simp: joined_def)
  qed
qed

text \<open>C7: aggressive router parking keeps the network connected.  With \<open>rpa\<close>, every core that is on has
  its router on, and between any two routers that are on there is a way through routers that are on:
  the search finds all components, whatever core was drawn, and the path that is switched on for each
  leads to the fabric manager.\<close>

theorem aggressive_parking_connected:
  assumes "auto_config k (k * k) ''rpa'' pct fm seed = Some p"
    and "0 \<le> pct" and "pct \<le> 100" and "k * k < 2 ^ 31" and "k < 2 ^ 31"
  shows "(\<forall>i<k * k. pk_core_states p ! i \<longrightarrow> pk_router_states p ! i) \<and>
    (\<forall>i<k * k. \<forall>j<k * k. pk_router_states p ! i \<longrightarrow> pk_router_states p ! j \<longrightarrow>
       linked k (pk_router_states p) i j)"
proof -
  obtain offs g where d: "pk_core_states p = switch_off (sort offs) (replicate (k * k) True)"
    "pk_fabric_manager p < int (k * k)"
    and r: "\<exists>g'. parked_routers k ''rpa'' (k * k) (pk_fabric_manager p) (sort offs) (pk_core_states p) g =
      Some (pk_router_states p, g')"
    using auto_config_draws [OF assms] by metis
  let ?cs = "pk_core_states p" and ?rs = "pk_router_states p" and ?fm = "nat (pk_fabric_manager p)"
  obtain g' where run: "aggressive_parking k ?fm ?cs g = Some (?rs, g')"
    using r by (auto simp: parked_routers_def)
  have len: "length ?cs = k * k" by (simp add: d(1))
  show ?thesis
  proof (cases "k = 0")
    case False
    then have "?fm < k * k" using d(2)
      by (cases "0 \<le> pk_fabric_manager p") (simp_all add: nat_less_iff del: of_nat_mult)
    then show ?thesis using aggressive_parking_joins [OF run len] by blast
  qed simp
qed

lemma aggressive_parking_connected_witness:
  "\<exists>p. auto_config 4 16 ''rpa'' 60 (-1) (counting_rng\<lparr>ran_seq := \<lambda>i. 7 * i + 3\<rparr>) = Some p \<and>
     (\<forall>i<16. \<forall>j<16. pk_router_states p ! i \<longrightarrow> pk_router_states p ! j \<longrightarrow>
       linked 4 (pk_router_states p) i j)"
proof -
  have "auto_config 4 (4 * 4) ''rpa'' 60 (-1) (counting_rng\<lparr>ran_seq := \<lambda>i. 7 * i + 3\<rparr>) \<noteq> None"
    by code_simp
  then obtain p where p: "auto_config 4 (4 * 4) ''rpa'' 60 (-1) (counting_rng\<lparr>ran_seq := \<lambda>i. 7 * i + 3\<rparr>) = Some p"
    by auto
  show ?thesis using aggressive_parking_connected [OF p] p by simp
qed

end
