(* ===== verification/Traffic.thy ===== *)
theory Traffic
  imports Random_Utils "HOL-Library.Word"
begin

unbundle bit_operations_syntax

text \<open>
  Traffic patterns (src/booksim2/src/traffic.cpp): for the node a packet starts from, the node it goes
  to.  A pattern keeps the number of nodes and the fields of its class; \<open>dest\<close> may draw random
  numbers, and a value of \<open>None\<close> is a failed check or a remainder by zero.
\<close>

datatype pattern =
  BitComp
| Transpose nat
| BitRev
| Shuffle
| Tornado int int int
| Neighbor int int int
| RandomPermutation "int list"
| UniformRandom
| UniformBackground "int list"
| Diagonal
| Asymmetric
| Taper64
| BadPermDFly int int
| BadPermYarc int int int
| HotSpot "int list" "int list" int

record traffic_pattern =
  tp_nodes :: int
  tp_rule :: pattern

subsection \<open>Constructors\<close>

definition TrafficPattern_init :: "int \<Rightarrow> pattern \<Rightarrow> traffic_pattern option" where
  "TrafficPattern_init nodes p =
     (if nodes \<le> 0 then None else Some \<lparr>tp_nodes = nodes, tp_rule = p\<rparr>)"

definition BitPermutation_init :: "int \<Rightarrow> pattern \<Rightarrow> traffic_pattern option" where
  "BitPermutation_init nodes p = do {
     t \<leftarrow> TrafficPattern_init nodes p;
     (if nodes AND - nodes \<noteq> nodes then None else Some t)
   }"

text \<open>The loop \<open>while(nodes >>= 1) ++_shift;\<close>\<close>

fun halvings :: "nat \<Rightarrow> nat" where
  "halvings nodes = (if nodes div 2 = 0 then 0 else Suc (halvings (nodes div 2)))"

declare halvings.simps [simp del]

definition Transpose_init :: "int \<Rightarrow> traffic_pattern option" where
  "Transpose_init nodes = do {
     t \<leftarrow> BitPermutation_init nodes (Transpose 0);
     (let shift = halvings (nat nodes) in
      if shift mod 2 \<noteq> 0 then None else Some (t\<lparr>tp_rule := Transpose (shift div 2)\<rparr>))
   }"

text \<open>\<open>randomize\<close>: the loop that looks for the free entry with number \<open>ind\<close>.\<close>

function find_entry :: "int list \<Rightarrow> int \<Rightarrow> int \<Rightarrow> nat \<Rightarrow> nat option" where
  "find_entry ds ind cnt j =
     (if cnt < ind \<or> ds ! j \<noteq> -1
      then (if Suc j < length ds
            then find_entry ds ind (if ds ! j = -1 then cnt + 1 else cnt) (Suc j) else None)
      else Some j)"
  by pat_completeness auto
termination by (relation "measure (\<lambda>(ds, ind, cnt, j). length ds - j)") auto

declare find_entry.simps [simp del]

definition place_source :: "int \<Rightarrow> int \<Rightarrow> int list \<times> rng \<Rightarrow> (int list \<times> rng) option" where
  "place_source nodes i s = (case s of (ds, g) \<Rightarrow> do {
     (ind, g') \<leftarrow> RandomInt (nodes - 1 - i) g;
     j \<leftarrow> find_entry ds ind 0 0;
     Some (ds[j := i], g')
   })"

text \<open>\<open>seed s\<close> is the generator after \<open>RandomSeed(s)\<close>, and \<open>restore g g'\<close> what it is when
  \<open>RestoreRandomState\<close> has copied \<open>ran_x\<close> and \<open>ran_u\<close> of \<open>g\<close> back into \<open>g'\<close>; the numbers that are
  waiting in the generator's buffer are not part of that.\<close>

definition randomize ::
  "(int \<Rightarrow> rng) \<Rightarrow> (rng \<Rightarrow> rng \<Rightarrow> rng) \<Rightarrow> int \<Rightarrow> int \<Rightarrow> rng \<Rightarrow> (int list \<times> rng) option" where
  "randomize seed restore nodes s g =
     map_option (\<lambda>(ds, g'). (ds, restore g g'))
       (foldM (place_source nodes) [0..nodes - 1] (replicate (nat nodes) (-1), seed s))"

definition RandomPermutation_init ::
  "(int \<Rightarrow> rng) \<Rightarrow> (rng \<Rightarrow> rng \<Rightarrow> rng) \<Rightarrow> int \<Rightarrow> int \<Rightarrow> rng \<Rightarrow> (traffic_pattern \<times> rng) option" where
  "RandomPermutation_init seed restore nodes s g = do {
     t \<leftarrow> TrafficPattern_init nodes (RandomPermutation []);
     (ds, g') \<leftarrow> randomize seed restore nodes s g;
     Some (t\<lparr>tp_rule := RandomPermutation ds\<rparr>, g')
   }"

text \<open>\<open>set<int>\<close> insertions: the excluded nodes, without repetition.\<close>

definition UniformBackground_init :: "int \<Rightarrow> int list \<Rightarrow> traffic_pattern option" where
  "UniformBackground_init nodes excluded_nodes = do {
     t \<leftarrow> TrafficPattern_init nodes (UniformBackground []);
     assertion (\<forall>node \<in> set excluded_nodes. 0 \<le> node \<and> node < nodes);
     Some (t\<lparr>tp_rule := UniformBackground (remdups excluded_nodes)\<rparr>)
   }"

definition Taper64_init :: "int \<Rightarrow> traffic_pattern option" where
  "Taper64_init nodes = do {
     t \<leftarrow> TrafficPattern_init nodes Taper64;
     (if nodes \<noteq> 64 then None else Some t)
   }"

definition HotSpot_init :: "int \<Rightarrow> int list \<Rightarrow> int list \<Rightarrow> traffic_pattern option" where
  "HotSpot_init nodes spots rates0 = do {
     t \<leftarrow> TrafficPattern_init nodes (HotSpot [] [] 0);
     assertion (spots \<noteq> []);
     (let rates = resize (length spots) (if rates0 = [] then 1 else last rates0) rates0 in do {
        assertion (\<forall>s \<in> set spots. 0 \<le> s \<and> s < nodes);
        assertion (\<forall>r \<in> set rates. 0 \<le> r);
        Some (t\<lparr>tp_rule := HotSpot spots rates (sum_list rates - 1)\<rparr>)
      })
   }"

subsection \<open>Destinations\<close>

definition BitComp_dest :: "int \<Rightarrow> int \<Rightarrow> int" where
  "BitComp_dest nodes source = (let mask = nodes - 1 in NOT source AND mask)"

definition Transpose_dest :: "nat \<Rightarrow> int \<Rightarrow> int" where
  "Transpose_dest shift source =
     (let mask_lo = push_bit shift 1 - 1; mask_hi = push_bit shift mask_lo
      in (drop_bit shift source AND mask_lo) OR (push_bit shift source AND mask_hi))"

function BitRev_loop :: "int \<Rightarrow> int \<Rightarrow> int \<Rightarrow> int" where
  "BitRev_loop n result source =
     (if n > 1 then BitRev_loop (drop_bit 1 n) (push_bit 1 result OR source mod 2) (drop_bit 1 source)
      else result)"
  by pat_completeness auto
termination by (relation "measure (\<lambda>(n, result, source). nat n)") (auto simp: drop_bit_eq_div)

declare BitRev_loop.simps [simp del]

definition BitRev_dest :: "int \<Rightarrow> int \<Rightarrow> int" where
  "BitRev_dest nodes source = BitRev_loop nodes 0 source"

definition Shuffle_dest :: "int \<Rightarrow> int \<Rightarrow> int" where
  "Shuffle_dest nodes source =
     (let shifted = push_bit 1 source
      in (shifted AND (nodes - 1)) OR of_bool (shifted AND nodes \<noteq> 0))"

definition Tornado_dest :: "int \<Rightarrow> int \<Rightarrow> int option" where
  "Tornado_dest k source = do {
     assertion (k \<noteq> 0);
     (let src_x = source smod k; src_y = source sdiv k;
          dest_x = (src_x + k sdiv 2 - 1) smod k
      in Some (src_y * k + dest_x))
   }"

definition Neighbor_digit :: "int \<Rightarrow> int \<Rightarrow> int \<times> int \<Rightarrow> (int \<times> int) option" where
  "Neighbor_digit d source s = (case s of (offset, result) \<Rightarrow> do {
     assertion (offset \<noteq> 0 \<and> d \<noteq> 0);
     Some (offset * d, result + offset * ((source sdiv offset smod d + 1) smod d))
   })"

definition Neighbor_dest :: "int \<Rightarrow> int \<Rightarrow> int \<Rightarrow> int \<Rightarrow> int option" where
  "Neighbor_dest k n xr source =
     map_option snd (foldM (\<lambda>_. Neighbor_digit (xr * k) source) [0..n - 1] (1, 0))"

text \<open>The loop \<open>do { ... } while(_excluded.count(result) > 0)\<close> need not end.\<close>

partial_function (option) Background_dest :: "int \<Rightarrow> int list \<Rightarrow> rng \<Rightarrow> (int \<times> rng) option" where
  "Background_dest nodes excluded g = do {
     (result, g') \<leftarrow> RandomInt (nodes - 1) g;
     (if result \<in> set excluded then Background_dest nodes excluded g' else Some (result, g'))
   }"

declare Background_dest.simps [code]

definition Diagonal_dest :: "int \<Rightarrow> int \<Rightarrow> rng \<Rightarrow> (int \<times> rng) option" where
  "Diagonal_dest nodes source g = do {
     (r, g') \<leftarrow> RandomInt 2 g;
     Some (if r = 0 then (source + 1) smod nodes else source, g')
   }"

definition Asymmetric_dest :: "int \<Rightarrow> int \<Rightarrow> rng \<Rightarrow> (int \<times> rng) option" where
  "Asymmetric_dest nodes source g = (let half = nodes sdiv 2 in do {
     assertion (half \<noteq> 0);
     (r, g') \<leftarrow> RandomInt 1 g;
     Some (source smod half + (if r \<noteq> 0 then half else 0), g')
   })"

text \<open>The two draws of one expression, which C++ does not order, are taken from left to right.\<close>

definition Taper64_dest :: "int \<Rightarrow> int \<Rightarrow> rng \<Rightarrow> (int \<times> rng) option" where
  "Taper64_dest nodes source g = do {
     (r, g1) \<leftarrow> RandomInt 1 g;
     (if r \<noteq> 0 then do {
        (a, g2) \<leftarrow> RandomInt 2 g1;
        (b, g3) \<leftarrow> RandomInt 2 g2;
        Some ((64 + source + 8 * (a - 1) + (b - 1)) smod 64, g3)
      } else RandomInt (nodes - 1) g1)
   }"

definition BadPermDFly_dest :: "int \<Rightarrow> int \<Rightarrow> int \<Rightarrow> rng \<Rightarrow> (int \<times> rng) option" where
  "BadPermDFly_dest nodes k source g =
     (let grp_size_routers = 2 * k; grp_size_nodes = grp_size_routers * k in do {
        (r, g') \<leftarrow> RandomInt (grp_size_nodes - 1) g;
        assertion (grp_size_nodes \<noteq> 0);
        Some ((r + (source sdiv grp_size_nodes + 1) * grp_size_nodes) smod nodes, g')
      })"

definition BadPermYarc_dest :: "int \<Rightarrow> int \<Rightarrow> int \<Rightarrow> rng \<Rightarrow> (int \<times> rng) option" where
  "BadPermYarc_dest k xr source g = do {
     assertion (xr * k \<noteq> 0);
     (r, g') \<leftarrow> RandomInt (xr * k - 1) g;
     Some (r * (xr * k) + source sdiv (xr * k), g')
   }"

text \<open>The loop over the hot spots but the last, with what is left of \<open>pct\<close>.\<close>

fun HotSpot_scan :: "int list \<Rightarrow> int list \<Rightarrow> int \<Rightarrow> int option" where
  "HotSpot_scan (s # t # spots) (limit # rates) pct =
     (if limit > pct then Some s else HotSpot_scan (t # spots) rates (pct - limit))"
| "HotSpot_scan [s] rates pct = (if rates \<noteq> [] \<and> last rates > pct then Some s else None)"
| "HotSpot_scan spots rates pct = None"

definition HotSpot_dest :: "int list \<Rightarrow> int list \<Rightarrow> int \<Rightarrow> rng \<Rightarrow> (int \<times> rng) option" where
  "HotSpot_dest spots rates max_val g =
     (if length spots = 1 then Some (spots ! 0, g)
      else do {
        (pct, g') \<leftarrow> RandomInt max_val g;
        d \<leftarrow> HotSpot_scan spots rates pct;
        Some (d, g')
      })"

definition dest :: "traffic_pattern \<Rightarrow> int \<Rightarrow> rng \<Rightarrow> (int \<times> rng) option" where
  "dest t source g = (let nodes = tp_nodes t in do {
     assertion (0 \<le> source \<and> source < nodes);
     (case tp_rule t of
        BitComp \<Rightarrow> Some (BitComp_dest nodes source, g)
      | Transpose shift \<Rightarrow> Some (Transpose_dest shift source, g)
      | BitRev \<Rightarrow> Some (BitRev_dest nodes source, g)
      | Shuffle \<Rightarrow> Some (Shuffle_dest nodes source, g)
      | Tornado k n xr \<Rightarrow> map_option (\<lambda>d. (d, g)) (Tornado_dest k source)
      | Neighbor k n xr \<Rightarrow> map_option (\<lambda>d. (d, g)) (Neighbor_dest k n xr source)
      | RandomPermutation ds \<Rightarrow>
          (let d = ds ! nat source in if 0 \<le> d \<and> d < nodes then Some (d, g) else None)
      | UniformRandom \<Rightarrow> RandomInt (nodes - 1) g
      | UniformBackground excluded \<Rightarrow> Background_dest nodes excluded g
      | Diagonal \<Rightarrow> Diagonal_dest nodes source g
      | Asymmetric \<Rightarrow> Asymmetric_dest nodes source g
      | Taper64 \<Rightarrow> Taper64_dest nodes source g
      | BadPermDFly k n \<Rightarrow> BadPermDFly_dest nodes k source g
      | BadPermYarc k n xr \<Rightarrow> BadPermYarc_dest k xr source g
      | HotSpot spots rates max_val \<Rightarrow> HotSpot_dest spots rates max_val g)
   })"

subsection \<open>The pattern a configuration names\<close>

record pattern_config =
  cfg_perm_seed :: int
  cfg_k :: int
  cfg_n :: int
  cfg_xr :: int

text \<open>The name before the first \<open>(\<close>, and what is between it and the last \<open>)\<close>; a length that would be
  negative is a \<open>size_t\<close> beyond the end.\<close>

definition last_close :: "string \<Rightarrow> nat option" where
  "last_close cs =
     (case filter (\<lambda>i. cs ! i = CHR '')'') [0..<length cs] of [] \<Rightarrow> None | i # is \<Rightarrow> Some (last (i # is)))"

definition pattern_parts :: "string \<Rightarrow> string \<times> string" where
  "pattern_parts pattern =
     (let name = takeWhile (\<lambda>c. c \<noteq> CHR ''('') pattern; left = length name
      in if left = length pattern then (pattern, [])
         else let after = drop (Suc left) pattern
              in case last_close pattern of
                   None \<Rightarrow> (name, after)
                 | Some right \<Rightarrow> (name, if left < right then take (right - left - 1) after else after))"

definition int_param ::
  "(pattern_config \<Rightarrow> int) \<Rightarrow> nat \<Rightarrow> string list \<Rightarrow> pattern_config option \<Rightarrow> int option" where
  "int_param from_cfg i params cfg =
     (if length params \<le> i then map_option from_cfg cfg else Some (atoi (params ! i)))"

text \<open>A negative hot spot stands for a random one.\<close>

definition random_spot :: "int \<Rightarrow> int \<Rightarrow> int list \<times> rng \<Rightarrow> (int list \<times> rng) option" where
  "random_spot nodes s acc = (case acc of (spots, g) \<Rightarrow>
     if s < 0 then map_option (\<lambda>(r, g'). (spots @ [r], g')) (RandomInt (nodes - 1) g)
     else Some (spots @ [s], g))"

definition HotSpot_New ::
  "int \<Rightarrow> string list \<Rightarrow> rng \<Rightarrow> (traffic_pattern \<times> rng) option" where
  "HotSpot_New nodes params0 g =
     (let params = (if params0 = [] then [''-1''] else params0) in do {
        spots0 \<leftarrow> tokenize_int (params ! 0);
        (spots, g') \<leftarrow> foldM (random_spot nodes) spots0 ([], g);
        rates \<leftarrow> (if length params \<ge> 2
                  then do { rs \<leftarrow> tokenize_int (params ! 1);
                            assertion (rs \<noteq> []);
                            Some (resize (length spots) (last rs) rs) }
                  else Some (replicate (length spots) 1));
        t \<leftarrow> HotSpot_init nodes spots rates;
        Some (t, g')
      })"

definition digit_pattern ::
  "(int \<Rightarrow> int \<Rightarrow> int \<Rightarrow> pattern) \<Rightarrow> int \<Rightarrow> string list \<Rightarrow> pattern_config option \<Rightarrow> traffic_pattern option" where
  "digit_pattern kind nodes params cfg = do {
     k \<leftarrow> int_param cfg_k 0 params cfg;
     n \<leftarrow> int_param cfg_n 1 params cfg;
     xr \<leftarrow> int_param cfg_xr 2 params cfg;
     TrafficPattern_init nodes (kind k n xr)
   }"

definition TrafficPattern_New ::
  "(int \<Rightarrow> rng) \<Rightarrow> (rng \<Rightarrow> rng \<Rightarrow> rng) \<Rightarrow> string \<Rightarrow> int \<Rightarrow> pattern_config option \<Rightarrow> rng \<Rightarrow>
     (traffic_pattern \<times> rng) option" where
  "TrafficPattern_New seed restore pattern nodes cfg g =
     (case pattern_parts pattern of (name, param_str) \<Rightarrow> do {
        params \<leftarrow> tokenize_str param_str;
        (if name = ''bitcomp'' then map_option (\<lambda>t. (t, g)) (BitPermutation_init nodes BitComp)
         else if name = ''transpose'' then map_option (\<lambda>t. (t, g)) (Transpose_init nodes)
         else if name = ''bitrev'' then map_option (\<lambda>t. (t, g)) (BitPermutation_init nodes BitRev)
         else if name = ''shuffle'' then map_option (\<lambda>t. (t, g)) (BitPermutation_init nodes Shuffle)
         else if name = ''randperm'' then do {
           perm_seed \<leftarrow> int_param cfg_perm_seed 0 params cfg;
           RandomPermutation_init seed restore nodes perm_seed g }
         else if name = ''uniform'' then map_option (\<lambda>t. (t, g)) (TrafficPattern_init nodes UniformRandom)
         else if name = ''background'' then do {
           assertion (params \<noteq> []);
           excludes \<leftarrow> tokenize_int (params ! 0);
           map_option (\<lambda>t. (t, g)) (UniformBackground_init nodes excludes) }
         else if name = ''diagonal'' then map_option (\<lambda>t. (t, g)) (TrafficPattern_init nodes Diagonal)
         else if name = ''asymmetric'' then map_option (\<lambda>t. (t, g)) (TrafficPattern_init nodes Asymmetric)
         else if name = ''taper64'' then map_option (\<lambda>t. (t, g)) (Taper64_init nodes)
         else if name = ''bad_dragon'' then do {
           k \<leftarrow> int_param cfg_k 0 params cfg;
           n \<leftarrow> int_param cfg_n 1 params cfg;
           map_option (\<lambda>t. (t, g)) (TrafficPattern_init nodes (BadPermDFly k n)) }
         else if name = ''tornado'' then map_option (\<lambda>t. (t, g)) (digit_pattern Tornado nodes params cfg)
         else if name = ''neighbor'' then map_option (\<lambda>t. (t, g)) (digit_pattern Neighbor nodes params cfg)
         else if name = ''badperm_yarc'' then map_option (\<lambda>t. (t, g)) (digit_pattern BadPermYarc nodes params cfg)
         else if name = ''hotspot'' then HotSpot_New nodes params g
         else None)
      })"

end
