(* ===== verification/Traffic_Properties.thy ===== *)
theory Traffic_Properties
  imports Traffic "HOL-Library.Multiset"
begin

text \<open>
  Traffic patterns: destinations are nodes, the bit patterns and the random permutation are
  permutations, and \<open>randomize\<close> finds a place for every node whatever the generator returns.
\<close>

subsection \<open>Powers of two\<close>

lemma power_of_two_AND:
  fixes n :: int
  assumes "0 < n" and "n AND - n = n"
  shows "\<exists>m. n = 2 ^ m"
  using assms
proof (induction "nat n" arbitrary: n rule: less_induct)
  case less
  show ?case
  proof (cases "even n")
    case True
    then obtain q where n: "n = 2 * q" by auto
    have "- n div 2 = - q" using n by simp
    then have "n AND - n = 2 * (q AND - q)"
      using and_int_rec [of n "- n"] n by simp
    then have "q AND - q = q" using less.prems(2) n by simp
    moreover have "0 < q" "nat q < nat n" using less.prems(1) n by auto
    ultimately obtain m where "q = 2 ^ m" using less.hyps by blast
    then have "n = 2 ^ Suc m" by (simp add: n)
    then show ?thesis by blast
  next
    case False
    then obtain q where n: "n = 2 * q + 1" by (auto elim: oddE)
    have "- n div 2 = NOT q" by (simp add: n not_int_def)
    then have "n AND - n = 1" using and_int_rec [of n "- n"] n by simp
    then have "n = 2 ^ 0" using less.prems(2) by simp
    then show ?thesis by blast
  qed
qed

lemma halvings_power [simp]: "halvings (2 ^ m) = m"
proof (induction m)
  case 0
  show ?case by (subst halvings.simps) simp
next
  case (Suc m)
  then show ?case by (subst halvings.simps) simp
qed

lemma BitPermutation_init_nodes:
  assumes "BitPermutation_init nodes p = Some t"
  shows "\<exists>m. nodes = 2 ^ m" and "t = \<lparr>tp_nodes = nodes, tp_rule = p\<rparr>"
  using assms power_of_two_AND [of nodes]
  by (auto simp: BitPermutation_init_def TrafficPattern_init_def split: if_splits Option.bind_splits)

lemma Transpose_init_nodes:
  assumes "Transpose_init nodes = Some t"
  shows "\<exists>h. nodes = 2 ^ (h + h) \<and> t = \<lparr>tp_nodes = nodes, tp_rule = Transpose h\<rparr>"
proof -
  obtain u where u: "BitPermutation_init nodes (Transpose 0) = Some u"
    and sh: "halvings (nat nodes) mod 2 = 0"
    and t: "t = u\<lparr>tp_rule := Transpose (halvings (nat nodes) div 2)\<rparr>"
    using assms by (auto simp: Transpose_init_def Let_def split: Option.bind_splits if_splits)
  obtain m where m: "nodes = 2 ^ m" using BitPermutation_init_nodes(1) [OF u] by blast
  have "halvings (nat nodes) = m" by (simp add: m nat_power_eq)
  then show ?thesis using sh m t BitPermutation_init_nodes(2) [OF u]
    by (intro exI [of _ "m div 2"]) (auto simp: mult_2 [symmetric])
qed

subsection \<open>The bit patterns, bit by bit\<close>

lemma below_power: "0 \<le> (a::int) \<Longrightarrow> a < 2 ^ m \<longleftrightarrow> take_bit m a = a"
  by (simp add: take_bit_int_eq_self_iff)

lemma range_power: "0 \<le> (a::int) \<and> a < 2 ^ m \<longleftrightarrow> take_bit m a = a"
  by (metis take_bit_int_eq_self_iff)

lemma bit_in_range: "bit (a::int) i \<Longrightarrow> 0 \<le> a \<Longrightarrow> a < 2 ^ m \<Longrightarrow> i < m"
  by (metis bit_take_bit_iff range_power)

lemma mask_minus: "(2::int) ^ m - 1 = mask m"
  by (simp add: mask_eq_exp_minus_1)

lemma BitComp_bit: "bit (BitComp_dest (2 ^ m) s) i \<longleftrightarrow> i < m \<and> \<not> bit s i"
  by (auto simp: BitComp_dest_def mask_minus bit_simps)

lemma Transpose_bit:
  "bit (Transpose_dest h s) i \<longleftrightarrow> (if i < h then bit s (i + h) else i < h + h \<and> bit s (i - h))"
  by (auto simp: Transpose_dest_def Let_def push_bit_eq_mult mask_minus bit_simps
      add.commute simp flip: push_bit_eq_mult)

lemma shifted_in_bit: "bit (push_bit 1 r OR s mod (2::int)) j \<longleftrightarrow> (if j = 0 then bit s 0 else bit r (j - 1))"
  unfolding bit_or_iff bit_push_bit_iff mod_2_eq_odd bit_of_bool_iff by (auto simp: bit_0)

lemma BitRev_loop_bit:
  "bit (BitRev_loop (2 ^ m) r s) i \<longleftrightarrow> (if i < m then bit s (m - 1 - i) else bit r (i - m))"
proof (induction m arbitrary: r s)
  case 0
  show ?case by (subst BitRev_loop.simps) simp
next
  case (Suc m)
  have step: "BitRev_loop (2 ^ Suc m) r s =
      BitRev_loop (2 ^ m) (push_bit 1 r OR s mod 2) (drop_bit 1 s)"
  proof -
    have "(1::int) < 2 ^ Suc m" by (rule one_less_power) simp_all
    then show ?thesis by (subst BitRev_loop.simps) (simp add: drop_bit_eq_div)
  qed
  have "bit (BitRev_loop (2 ^ Suc m) r s) i \<longleftrightarrow>
      (if i < m then bit s (Suc (m - 1 - i)) else if i = m then bit s 0 else bit r (i - m - 1))"
    unfolding step Suc.IH shifted_in_bit bit_drop_bit_eq by auto
  also have "\<dots> \<longleftrightarrow> (if i < Suc m then bit s (Suc m - 1 - i) else bit r (i - Suc m))"
    by (auto simp: not_less less_Suc_eq Suc_diff_Suc)
  finally show ?case .
qed

lemma BitRev_bit: "bit (BitRev_dest (2 ^ m) s) i \<longleftrightarrow> i < m \<and> bit s (m - 1 - i)"
  by (simp add: BitRev_dest_def BitRev_loop_bit)

lemma Shuffle_bit:
  assumes "0 \<le> s \<and> s < 2 ^ m"
  shows "bit (Shuffle_dest (2 ^ m) s) i \<longleftrightarrow>
    (if i = 0 then 0 < m \<and> bit s (m - 1) else i < m \<and> bit s (i - 1))"
proof -
  have top: "push_bit 1 s AND 2 ^ m \<noteq> 0 \<longleftrightarrow> 0 < m \<and> bit s (m - 1)"
    unfolding and_exp_eq_0_iff_not_bit not_not bit_push_bit_iff by auto
  show ?thesis
    unfolding Shuffle_dest_def Let_def mask_minus top bit_or_iff bit_and_iff bit_push_bit_iff
      bit_mask_iff bit_of_bool_iff
    by auto
qed

subsection \<open>Permutations\<close>

lemma Transpose_range: "0 \<le> Transpose_dest h s \<and> Transpose_dest h s < 2 ^ (h + h)"
  unfolding range_power by (rule bit_eqI) (auto simp: bit_take_bit_iff Transpose_bit)

lemma BitComp_range: "0 \<le> BitComp_dest (2 ^ m) s \<and> BitComp_dest (2 ^ m) s < 2 ^ m"
  unfolding range_power by (rule bit_eqI) (auto simp: bit_take_bit_iff BitComp_bit)

lemma BitRev_range: "0 \<le> BitRev_dest (2 ^ m) s \<and> BitRev_dest (2 ^ m) s < 2 ^ m"
  unfolding range_power by (rule bit_eqI) (auto simp: bit_take_bit_iff BitRev_bit)

lemma Shuffle_range:
  assumes "0 \<le> s \<and> s < 2 ^ m"
  shows "0 \<le> Shuffle_dest (2 ^ m) s \<and> Shuffle_dest (2 ^ m) s < 2 ^ m"
  unfolding range_power by (rule bit_eqI) (auto simp: bit_take_bit_iff Shuffle_bit [OF assms])

lemma BitComp_involution:
  "0 \<le> s \<and> s < 2 ^ m \<Longrightarrow> BitComp_dest (2 ^ m) (BitComp_dest (2 ^ m) s) = s"
  by (rule bit_eqI) (use bit_in_range [of s _ m] in \<open>auto simp: BitComp_bit\<close>)

lemma Transpose_involution:
  "0 \<le> s \<and> s < 2 ^ (h + h) \<Longrightarrow> Transpose_dest h (Transpose_dest h s) = s"
proof (rule bit_eqI)
  fix i
  assume s: "0 \<le> s \<and> s < 2 ^ (h + h)"
  show "bit (Transpose_dest h (Transpose_dest h s)) i = bit s i"
  proof (cases "i < h + h")
    case True
    then show ?thesis by (auto simp: Transpose_bit not_less)
  next
    case False
    then show ?thesis using s bit_in_range [of s i "h + h"] by (auto simp: Transpose_bit)
  qed
qed

lemma BitRev_involution:
  "0 \<le> s \<and> s < 2 ^ m \<Longrightarrow> BitRev_dest (2 ^ m) (BitRev_dest (2 ^ m) s) = s"
proof (rule bit_eqI)
  fix i
  assume s: "0 \<le> s \<and> s < 2 ^ m"
  show "bit (BitRev_dest (2 ^ m) (BitRev_dest (2 ^ m) s)) i = bit s i"
  proof (cases "i < m")
    case True
    then show ?thesis by (simp add: BitRev_bit)
  next
    case False
    then show ?thesis using s bit_in_range [of s i m] by (auto simp: BitRev_bit)
  qed
qed

lemma Shuffle_inj: "inj_on (Shuffle_dest (2 ^ m)) {s. 0 \<le> s \<and> s < 2 ^ m}"
proof (rule inj_onI)
  fix a b :: int
  assume ab: "a \<in> {s. 0 \<le> s \<and> s < 2 ^ m}" "b \<in> {s. 0 \<le> s \<and> s < 2 ^ m}"
    and eq: "Shuffle_dest (2 ^ m) a = Shuffle_dest (2 ^ m) b"
  have out: "0 \<le> a \<and> a < 2 ^ m" "0 \<le> b \<and> b < 2 ^ m" using ab by auto
  show "a = b"
  proof (rule bit_eqI)
    fix i
    show "bit a i = bit b i"
    proof (cases "Suc i < m")
      case True
      then show ?thesis using arg_cong [OF eq, of "\<lambda>x. bit x (Suc i)"] out by (simp add: Shuffle_bit)
    next
      case False
      then consider "m = Suc i" | "m \<le> i" by linarith
      then show ?thesis
      proof cases
        case 1
        then show ?thesis using arg_cong [OF eq, of "\<lambda>x. bit x 0"] out
          by (simp add: Shuffle_bit del: power_Suc)
      next
        case 2
        then show ?thesis using out bit_in_range [of a i m] bit_in_range [of b i m] by auto
      qed
    qed
  qed
qed

lemma involution_permutes:
  assumes "\<And>s. s \<in> A \<Longrightarrow> f s \<in> A" and "\<And>s. s \<in> A \<Longrightarrow> f (f s) = s"
  shows "bij_betw f A A"
  by (rule bij_betw_byWitness [of A f f]) (use assms in auto)

lemma injection_permutes:
  assumes "inj_on f A" and "\<And>s. s \<in> A \<Longrightarrow> f s \<in> A" and "finite A"
  shows "bij_betw f A A"
  unfolding bij_betw_def using endo_inj_surj [OF assms(3) _ assms(1)] assms(1,2) by blast

text \<open>What a pattern sends from where, when it draws nothing.\<close>

definition fixed_dest :: "traffic_pattern \<Rightarrow> int \<Rightarrow> int" where
  "fixed_dest t s = (case tp_rule t of
      BitComp \<Rightarrow> BitComp_dest (tp_nodes t) s
    | Transpose h \<Rightarrow> Transpose_dest h s
    | BitRev \<Rightarrow> BitRev_dest (tp_nodes t) s
    | Shuffle \<Rightarrow> Shuffle_dest (tp_nodes t) s
    | RandomPermutation ds \<Rightarrow> ds ! nat s
    | _ \<Rightarrow> s)"

lemma dest_fixed:
  "0 \<le> s \<Longrightarrow> s < tp_nodes t \<Longrightarrow> tp_rule t \<in> {BitComp, BitRev, Shuffle} \<union> range Transpose \<Longrightarrow>
   dest t s g = Some (fixed_dest t s, g)"
  by (auto simp: dest_def fixed_dest_def)

lemma bit_pattern_permutes:
  assumes "BitPermutation_init nodes p = Some t" and "p \<in> {BitComp, BitRev, Shuffle}"
  shows "bij_betw (fixed_dest t) {0..<nodes} {0..<nodes}"
proof -
  obtain m where m: "nodes = 2 ^ m" using BitPermutation_init_nodes(1) [OF assms(1)] by blast
  have t: "t = \<lparr>tp_nodes = 2 ^ m, tp_rule = p\<rparr>" using BitPermutation_init_nodes(2) [OF assms(1)] m by simp
  consider "p = BitComp" | "p = BitRev" | "p = Shuffle" using assms(2) by auto
  then show ?thesis
  proof cases
    case 1
    then show ?thesis using BitComp_range BitComp_involution
      by (intro involution_permutes) (auto simp: m t fixed_dest_def)
  next
    case 2
    then show ?thesis using BitRev_range BitRev_involution
      by (intro involution_permutes) (auto simp: m t fixed_dest_def)
  next
    case 3
    have "{s::int. 0 \<le> s \<and> s < 2 ^ m} = {0..<2 ^ m}" by auto
    then have "inj_on (Shuffle_dest (2 ^ m)) {0..<2 ^ m}" using Shuffle_inj [of m] by simp
    then have "bij_betw (Shuffle_dest (2 ^ m)) {0..<2 ^ m} {0..<2 ^ m}"
      using Shuffle_range by (intro injection_permutes) auto
    moreover have "fixed_dest t = Shuffle_dest (2 ^ m)" by (rule ext) (simp add: fixed_dest_def t 3)
    ultimately show ?thesis by (simp add: m)
  qed
qed

text \<open>C16: the bit patterns are permutations of the nodes.  Whenever the constructor of bit complement,
  transpose, bit reversal or shuffle accepts the number of nodes, what the pattern returns for each
  source draws nothing from the generator, and every node is the destination of exactly one source.\<close>

theorem bit_patterns_permute:
  assumes "BitPermutation_init nodes p = Some t \<and> p \<in> {BitComp, BitRev, Shuffle} \<or>
    Transpose_init nodes = Some t"
  shows "bij_betw (fixed_dest t) {0..<nodes} {0..<nodes} \<and>
    (\<forall>s \<in> {0..<nodes}. \<forall>g. dest t s g = Some (fixed_dest t s, g))"
  using assms
proof (elim disjE conjE)
  assume b: "BitPermutation_init nodes p = Some t" and p: "p \<in> {BitComp, BitRev, Shuffle}"
  have t: "t = \<lparr>tp_nodes = nodes, tp_rule = p\<rparr>" by (rule BitPermutation_init_nodes(2) [OF b])
  show ?thesis using bit_pattern_permutes [OF b p] p by (auto simp: t intro!: dest_fixed)
next
  assume "Transpose_init nodes = Some t"
  then obtain h where h: "nodes = 2 ^ (h + h)" and t: "t = \<lparr>tp_nodes = nodes, tp_rule = Transpose h\<rparr>"
    using Transpose_init_nodes by blast
  have "bij_betw (fixed_dest t) {0..<nodes} {0..<nodes}"
    using Transpose_range [of h] Transpose_involution [of _ h]
    by (intro involution_permutes) (auto simp: h t fixed_dest_def)
  then show ?thesis by (simp add: t dest_fixed)
qed

lemma bit_patterns_permute_witness:
  "\<exists>t. Transpose_init 16 = Some t \<and> bij_betw (fixed_dest t) {0..<16} {0..<16} \<and> fixed_dest t 1 = 4"
proof -
  have "Transpose_init 16 \<noteq> None" "map_option (\<lambda>t. fixed_dest t 1) (Transpose_init 16) = Some 4"
    by code_simp+
  then obtain t where "Transpose_init 16 = Some t" "fixed_dest t 1 = 4" by auto
  with bit_patterns_permute [of 16 BitComp t] show ?thesis by auto
qed

subsection \<open>The random permutation\<close>

lemma find_entry_free:
  assumes "cnt \<le> ind" and "j < length ds" and "nat (ind - cnt) < count (mset (drop j ds)) (-1)"
  shows "\<exists>i. find_entry ds ind cnt j = Some i \<and> i < length ds \<and> ds ! i = -1"
  using assms
proof (induction ds ind cnt j rule: find_entry.induct)
  case (1 ds ind cnt j)
  have drop: "drop j ds = ds ! j # drop (Suc j) ds" using 1(3) by (simp add: Cons_nth_drop_Suc)
  show ?case
  proof (cases "cnt < ind \<or> ds ! j \<noteq> -1")
    case False
    then show ?thesis using 1(3) by (subst find_entry.simps) auto
  next
    case True
    let ?c = "if ds ! j = -1 then cnt + 1 else cnt"
    have more: "nat (ind - ?c) < count (mset (drop (Suc j) ds)) (-1)" and le: "?c \<le> ind"
      using True 1(2,4) by (auto simp: drop split: if_splits)
    have "Suc j < length ds"
    proof (rule ccontr)
      assume "\<not> Suc j < length ds"
      then show False using more by simp
    qed
    then show ?thesis using 1(1) [OF True _ le _ more] True by (subst find_entry.simps) auto
  qed
qed

definition placed :: "int \<Rightarrow> int \<Rightarrow> int list \<Rightarrow> bool" where
  "placed nodes i ds \<longleftrightarrow> length ds = nat nodes \<and>
     mset ds = replicate_mset (nat (nodes - i)) (-1) + mset [0..i - 1]"

lemma place_source_placed:
  assumes "placed nodes i ds" and "0 \<le> i" and "i < nodes"
  shows "\<exists>ds' g'. place_source nodes i (ds, g) = Some (ds', g') \<and> placed nodes (i + 1) ds'"
proof -
  obtain ind g' where ind: "RandomInt (nodes - 1 - i) g = Some (ind, g')"
    using RandomInt_succeeds [of "nodes - 1 - i" g] assms(3) by auto
  have r: "0 \<le> ind" "ind \<le> nodes - 1 - i" using RandomInt_range(1) [OF ind] assms(3) by auto
  have free: "count (mset ds) (-1) = nat (nodes - i)"
    using assms(1) by (simp add: placed_def count_eq_zero_iff)
  obtain j where j: "find_entry ds ind 0 0 = Some j" "j < length ds" "ds ! j = -1"
  proof -
    have "ds \<noteq> []" using free assms(3) by auto
    moreover have "nat (ind - 0) < count (mset (drop 0 ds)) (-1)" using r free by simp
    ultimately show thesis using find_entry_free [of 0 ind 0 ds] r(1) that by auto
  qed
  have n: "nat (nodes - i) = Suc (nat (nodes - (i + 1)))" using assms(3) by simp
  have "mset (ds[j := i]) = add_mset i (mset ds - {#-1#})"
    using mset_update [OF j(2), of i] j(3) by simp
  also have "\<dots> = replicate_mset (nat (nodes - (i + 1))) (-1) + mset [0..i + 1 - 1]"
    using assms(1,2) by (simp add: placed_def n upto_rec2)
  finally have "placed nodes (i + 1) (ds[j := i])" using assms(1) by (simp add: placed_def)
  then show ?thesis using ind j(1) by (simp add: place_source_def)
qed

lemma place_sources:
  assumes "placed nodes i ds" and "0 \<le> i" and "i \<le> nodes"
  shows "\<exists>ds' g'. foldM (place_source nodes) [i..nodes - 1] (ds, g) = Some (ds', g') \<and> placed nodes nodes ds'"
  using assms
proof (induction "nat (nodes - i)" arbitrary: i ds g)
  case 0
  then show ?case by simp
next
  case (Suc n)
  then have i: "i < nodes" by simp
  obtain ds1 g1 where 1: "place_source nodes i (ds, g) = Some (ds1, g1)" "placed nodes (i + 1) ds1"
    using place_source_placed [OF Suc.prems(1,2) i] by blast
  have "[i..nodes - 1] = i # [i + 1..nodes - 1]" using i by (simp add: upto_rec1)
  then show ?case using Suc.hyps(1) [of "i + 1" ds1 g1] Suc.hyps(2) 1 i Suc.prems(2) by simp
qed

text \<open>C15: the random permutation pattern always comes about, and is one.  Whatever numbers the generator
  returns, the search of \<open>randomize\<close> for a free entry ends before the end of the table, so its \<open>assert\<close>
  cannot fail, and the table holds every node exactly once.\<close>

theorem randomize_permutes:
  "\<exists>ds g'. randomize seed restore nodes s g = Some (ds, g') \<and>
     length ds = nat nodes \<and> mset ds = mset [0..nodes - 1]"
proof (cases "0 \<le> nodes")
  case True
  then show ?thesis
    using place_sources [of nodes 0 "replicate (nat nodes) (-1)" "seed s"]
    by (auto simp: randomize_def placed_def simp flip: mset_replicate)
qed (simp add: randomize_def)

subsection \<open>Every destination is a node\<close>

text \<open>What the constructors establish; that a pattern made of digits has as many nodes as its digits
  count is left to the configuration.\<close>

definition pattern_ok :: "traffic_pattern \<Rightarrow> bool" where
  "pattern_ok t \<longleftrightarrow> 0 < tp_nodes t \<and> (case tp_rule t of
      Transpose h \<Rightarrow> tp_nodes t = 2 ^ (h + h)
    | Tornado k n xr \<Rightarrow> 0 < k \<and> k dvd tp_nodes t
    | Neighbor k n xr \<Rightarrow> 0 < xr * k \<and> 0 \<le> n \<and> tp_nodes t = (xr * k) ^ nat n
    | BadPermDFly k n \<Rightarrow> k \<noteq> 0
    | BadPermYarc k n xr \<Rightarrow> 0 < xr * k \<and> tp_nodes t = (xr * k) * (xr * k)
    | Taper64 \<Rightarrow> tp_nodes t = 64
    | HotSpot spots rates max_val \<Rightarrow> \<forall>s \<in> set spots. 0 \<le> s \<and> s < tp_nodes t
    | p \<Rightarrow> p \<in> {BitComp, BitRev, Shuffle} \<longrightarrow> (\<exists>m. tp_nodes t = 2 ^ m))"

lemma Neighbor_digits:
  assumes "0 < d" and "0 \<le> s" and "0 < off" and "0 \<le> r" and "r < off"
  shows "\<exists>r'. foldM (\<lambda>_. Neighbor_digit d s) xs (off, r) = Some (off * d ^ length xs, r') \<and>
    0 \<le> r' \<and> r' < off * d ^ length xs"
  using assms(3-5)
proof (induction xs arbitrary: off r)
  case (Cons x xs)
  let ?g = "(s div off mod d + 1) mod d"
  have q: "0 \<le> s div off" using assms(2) Cons.prems(1) by (simp add: pos_imp_zdiv_nonneg_iff)
  have dig: "s sdiv off smod d = s div off mod d" "(s div off mod d + 1) smod d = ?g"
    using assms(1,2) Cons.prems(1) q by (simp_all add: sdiv_nonneg smod_nonneg)
  have g: "0 \<le> ?g" "?g \<le> d - 1" using assms(1) pos_mod_bound [of d "s div off mod d + 1"] by auto
  have "off * ?g \<le> off * (d - 1)" using g Cons.prems(1) by (intro mult_left_mono) auto
  then have "r + off * ?g < off * d" using Cons.prems(3) by (simp add: algebra_simps)
  moreover have "0 \<le> r + off * ?g" using g Cons.prems by simp
  moreover have "0 < off * d" using assms(1) Cons.prems(1) by simp
  ultimately have "\<exists>r'. foldM (\<lambda>_. Neighbor_digit d s) xs (off * d, r + off * ?g) =
      Some (off * d * d ^ length xs, r') \<and> 0 \<le> r' \<and> r' < off * d * d ^ length xs"
    by (intro Cons.IH)
  moreover have "Neighbor_digit d s (off, r) = Some (off * d, r + off * ?g)"
    using assms(1) Cons.prems(1) by (simp add: Neighbor_digit_def dig)
  ultimately show ?case by (simp add: ac_simps)
qed simp

lemma zdiv_less: "(a::int) < b * c \<Longrightarrow> 0 < c \<Longrightarrow> a div c < b"
  by (smt (verit) div_mult_mod_eq mult_right_mono pos_mod_sign)

lemma HotSpot_scan_in: "HotSpot_scan spots rates pct = Some d \<Longrightarrow> d \<in> set spots"
  by (induction spots rates pct rule: HotSpot_scan.induct) (auto split: if_splits)

lemma Background_dest_range:
  assumes "Background_dest nodes excluded g = Some (d, g')" and "0 < nodes"
  shows "0 \<le> d \<and> d < nodes \<and> d \<notin> set excluded"
proof -
  have "0 < nodes \<longrightarrow> 0 \<le> fst (d, g') \<and> fst (d, g') < nodes \<and> fst (d, g') \<notin> set excluded"
  proof (rule Background_dest.raw_induct [OF _ assms(1)])
    fix rec nodes excluded g r
    assume IH: "\<And>nodes excluded g r. rec nodes excluded g = Some r \<Longrightarrow>
        0 < nodes \<longrightarrow> 0 \<le> fst r \<and> fst r < nodes \<and> fst r \<notin> set excluded"
      and run: "RandomInt (nodes - 1) g \<bind>
        (\<lambda>(result, g'). if result \<in> set excluded then rec nodes excluded g' else Some (result, g')) = Some r"
    then obtain x g1 where x: "RandomInt (nodes - 1) g = Some (x, g1)"
      and "(if x \<in> set excluded then rec nodes excluded g1 else Some (x, g1)) = Some r"
      by (auto split: Option.bind_splits)
    then show "0 < nodes \<longrightarrow> 0 \<le> fst r \<and> fst r < nodes \<and> fst r \<notin> set excluded"
      using RandomInt_range(1) [OF x] IH [of nodes excluded g1 r] by (auto split: if_splits)
  qed
  then show ?thesis using assms(2) by simp
qed

text \<open>C14: every destination is a node.  Whatever a well-formed pattern draws, if \<open>dest\<close> returns for a node,
  it returns a node.\<close>

theorem dest_in_range:
  assumes "pattern_ok t" and "dest t s g = Some (d, g')"
  shows "0 \<le> d \<and> d < tp_nodes t"
proof -
  define N where "N = tp_nodes t"
  have N: "0 < N" and s: "0 \<le> s" "s < N" using assms by (auto simp: pattern_ok_def dest_def N_def Let_def)
  note defs = assms [unfolded dest_def pattern_ok_def Let_def, folded N_def]
  show ?thesis
    unfolding N_def [symmetric]
  proof (cases "tp_rule t")
    case BitComp
    then obtain m where "N = 2 ^ m" using defs by auto
    then show "0 \<le> d \<and> d < N" using defs BitComp BitComp_range [of m s] by auto
  next
    case (Transpose h)
    then show "0 \<le> d \<and> d < N" using defs Transpose_range [of h s] by auto
  next
    case BitRev
    then obtain m where "N = 2 ^ m" using defs by auto
    then show "0 \<le> d \<and> d < N" using defs BitRev BitRev_range [of m s] by auto
  next
    case Shuffle
    then obtain m where "N = 2 ^ m" using defs by auto
    then show "0 \<le> d \<and> d < N" using defs Shuffle Shuffle_range [of s m] s by auto
  next
    case (Tornado k n xr)
    then have k: "0 < k" "k dvd N" and d: "d = s div k * k + (s mod k + k div 2 - 1) smod k"
      using defs s by (auto simp: Tornado_dest_def sdiv_nonneg smod_nonneg Let_def)
    have x: "0 \<le> (s mod k + k div 2 - 1) smod k \<and> (s mod k + k div 2 - 1) smod k < k"
    proof (cases "k = 1")
      case True
      then show ?thesis by (simp add: signed_modulo_int_def signed_divide_int_def)
    next
      case False
      then have "0 \<le> s mod k + k div 2 - 1" using k s by (smt (verit) div_pos_pos_trivial pos_imp_zdiv_pos_iff pos_mod_sign)
      then show ?thesis using k(1) by (simp add: smod_nonneg)
    qed
    obtain c where c: "N = k * c" using k(2) by (auto elim: dvdE)
    have "s div k < c" using s(2) k(1) unfolding c by (intro zdiv_less) (simp_all add: mult.commute)
    then have "(s div k + 1) * k \<le> c * k" using k(1) by (intro mult_right_mono) auto
    moreover have "0 \<le> s div k" using k(1) s(1) by (simp add: pos_imp_zdiv_nonneg_iff)
    ultimately show "0 \<le> d \<and> d < N" using x k(1) by (auto simp: d c algebra_simps)
  next
    case (Neighbor k n xr)
    then have k: "0 < xr * k" "0 \<le> n" "N = (xr * k) ^ nat n"
      and d: "Neighbor_dest k n xr s = Some d" using defs by auto
    from d Neighbor_digits [OF k(1) s(1), of 1 0 "[0..n - 1]"] k show "0 \<le> d \<and> d < N"
      by (auto simp: Neighbor_dest_def)
  next
    case (RandomPermutation ds)
    then show "0 \<le> d \<and> d < N" using defs by (auto simp: Let_def split: if_splits)
  next
    case UniformRandom
    then show "0 \<le> d \<and> d < N" using defs N RandomInt_range(1) [of "N - 1" g d g'] by auto
  next
    case (UniformBackground excluded)
    then show "0 \<le> d \<and> d < N" using defs N Background_dest_range [of N excluded g d g'] by auto
  next
    case Diagonal
    then show "0 \<le> d \<and> d < N" using defs N s
      by (auto simp: Diagonal_dest_def smod_nonneg split: Option.bind_splits if_splits)
  next
    case Asymmetric
    then obtain r where r: "N sdiv 2 \<noteq> 0" "d = s smod (N sdiv 2) + (if r \<noteq> (0::int) then N sdiv 2 else 0)"
      using defs by (auto simp: Asymmetric_dest_def Let_def split: Option.bind_splits)
    have h: "N sdiv 2 = N div 2" "0 < N div 2" using r N by (auto simp: sdiv_nonneg)
    have m: "0 \<le> s mod (N div 2)" "s mod (N div 2) < N div 2" "2 * (N div 2) \<le> N" using h N by auto
    show "0 \<le> d \<and> d < N"
    proof (cases "r = 0")
      case True
      then show ?thesis using r(2) h s(1) m by (simp add: smod_nonneg)
    next
      case False
      then have "d = s mod (N div 2) + N div 2" using r(2) h s(1) by (simp add: smod_nonneg)
      then show ?thesis using h(2) m by linarith
    qed
  next
    case Taper64
    then have n: "N = 64" and d: "Taper64_dest 64 s g = Some (d, g')" using defs by auto
    then show "0 \<le> d \<and> d < N" using s
      by (auto simp: Taper64_dest_def smod_nonneg split: Option.bind_splits if_splits
          dest!: RandomInt_range(1))
  next
    case (BadPermDFly k n)
    then obtain r g1 where r: "RandomInt (2 * k * k - 1) g = Some (r, g1)" "k \<noteq> 0"
      "d = (r + (s sdiv (2 * k * k) + 1) * (2 * k * k)) smod N"
      using defs by (auto simp: BadPermDFly_dest_def Let_def split: Option.bind_splits)
    have p: "0 < 2 * k * k" using r(2) by (simp add: mult.assoc zero_less_mult_iff) linarith
    then have "0 \<le> s sdiv (2 * k * k)" using s by (simp add: sdiv_nonneg pos_imp_zdiv_nonneg_iff)
    then have "0 \<le> r + (s sdiv (2 * k * k) + 1) * (2 * k * k)"
      using RandomInt_range(1) [OF r(1)] p by simp
    then show "0 \<le> d \<and> d < N" using N by (simp add: r(3) smod_nonneg)
  next
    case (BadPermYarc k n xr)
    then obtain r g1 where r: "RandomInt (xr * k - 1) g = Some (r, g1)" "0 < xr * k"
      "d = r * (xr * k) + s sdiv (xr * k)" and n: "N = (xr * k) * (xr * k)"
      using defs by (auto simp: BadPermYarc_dest_def split: Option.bind_splits)
    have rr: "0 \<le> r" "r \<le> xr * k - 1" using RandomInt_range(1) [OF r(1)] r(2) by auto
    have "s div (xr * k) < xr * k" using s(2) r(2) unfolding n by (rule zdiv_less)
    moreover have "0 \<le> s div (xr * k)" using s(1) r(2) by (simp add: pos_imp_zdiv_nonneg_iff)
    moreover have "r * (xr * k) \<le> (xr * k - 1) * (xr * k)" using rr r(2) by (intro mult_right_mono) auto
    moreover have "0 \<le> r * (xr * k)" using rr(1) r(2) by simp
    ultimately show "0 \<le> d \<and> d < N" using r(2,3) s n by (auto simp: sdiv_nonneg algebra_simps)
  next
    case (HotSpot spots rates max_val)
    then have all: "\<forall>x \<in> set spots. 0 \<le> x \<and> x < N" and d: "HotSpot_dest spots rates max_val g = Some (d, g')"
      using defs by auto
    from d have "d \<in> set spots"
      by (auto simp: HotSpot_dest_def HotSpot_scan_in split: if_splits Option.bind_splits)
    then show "0 \<le> d \<and> d < N" using all by blast
  qed
qed

lemma dest_in_range_witness:
  "\<exists>d g'. dest \<lparr>tp_nodes = 16, tp_rule = Neighbor 4 2 1\<rparr> 15
     \<lparr>ran_seq = \<lambda>_. 0, ran_used = 0, ranf_seq = \<lambda>_. 0, ranf_used = 0\<rparr> = Some (d, g') \<and> 0 \<le> d \<and> d < 16"
proof -
  have "dest \<lparr>tp_nodes = 16, tp_rule = Neighbor 4 2 1\<rparr> 15
     \<lparr>ran_seq = \<lambda>_. 0, ran_used = 0, ranf_seq = \<lambda>_. 0, ranf_used = 0\<rparr> \<noteq> None" by code_simp
  moreover have "pattern_ok \<lparr>tp_nodes = 16, tp_rule = Neighbor 4 2 1\<rparr>" by (simp add: pattern_ok_def)
  ultimately show ?thesis using dest_in_range [of "\<lparr>tp_nodes = 16, tp_rule = Neighbor 4 2 1\<rparr>"] by auto
qed

end
