(* ===== verification/Injection.thy ===== *)
theory Injection
  imports Random_Utils
begin

text \<open>
  When a node starts a packet (src/booksim2/src/injection.cpp), and the running statistics of a
  quantity (src/booksim2/src/stats.cpp).  \<open>double\<close> values are rationals, so what rounding,
  infinities and division by zero do is outside the model; the two \<open>NaN\<close> a \<open>Stats\<close> starts
  with are \<open>None\<close>.
\<close>

subsection \<open>Injection processes\<close>

datatype process =
  Bernoulli
| OnOff rat rat rat "int list" "int list"

record injection_process =
  ip_nodes :: int
  ip_rate :: rat
  ip_kind :: process

definition InjectionProcess_init :: "int \<Rightarrow> rat \<Rightarrow> process \<Rightarrow> injection_process option" where
  "InjectionProcess_init nodes rate p =
     (if nodes \<le> 0 then None
      else if rate < 0 \<or> rate > 1 then None
      else Some \<lparr>ip_nodes = nodes, ip_rate = rate, ip_kind = p\<rparr>)"

text \<open>The fields \<open>_alpha\<close>, \<open>_beta\<close>, \<open>_r1\<close>, then \<open>_initial\<close> and \<open>_state\<close>: one of the first three is
  negative, and computed from the rate and the other two.\<close>

definition OnOff_init ::
  "int \<Rightarrow> rat \<Rightarrow> rat \<Rightarrow> rat \<Rightarrow> rat \<Rightarrow> int list \<Rightarrow> injection_process option" where
  "OnOff_init nodes rate alpha beta r1 start = do {
     p \<leftarrow> InjectionProcess_init nodes rate Bernoulli;
     assertion (alpha \<le> 1);
     assertion (beta \<le> 1);
     assertion (r1 \<le> 1);
     (a, b, r) \<leftarrow>
       (if alpha < 0 then do {
          assertion (beta \<ge> 0);
          assertion (r1 \<ge> 0);
          Some (beta * rate / (r1 - rate), beta, r1) }
        else if beta < 0 then do {
          assertion (alpha \<ge> 0);
          assertion (r1 \<ge> 0);
          Some (alpha, alpha * (r1 - rate) / rate, r1) }
        else do {
          assertion (r1 < 0);
          Some (alpha, beta, rate * (alpha + beta) / alpha) });
     Some (p\<lparr>ip_kind := OnOff a b r start start\<rparr>)
   }"

text \<open>\<open>reset\<close>.\<close>

definition process_reset :: "injection_process \<Rightarrow> injection_process" where
  "process_reset p = (case ip_kind p of
      Bernoulli \<Rightarrow> p
    | OnOff a b r start state \<Rightarrow> p\<lparr>ip_kind := OnOff a b r start start\<rparr>)"

definition OnOff_test ::
  "rat \<Rightarrow> rat \<Rightarrow> rat \<Rightarrow> int list \<Rightarrow> nat \<Rightarrow> rng \<Rightarrow> bool \<times> int list \<times> rng" where
  "OnOff_test a b r state source g =
     (let (x, g1) = RandomFloat g;
          on = (if state ! source \<noteq> 0 then x \<ge> b else x < a);
          state1 = state[source := of_bool on]
      in if on then (let (y, g2) = RandomFloat g1 in (y < r, state1, g2))
         else (False, state1, g1))"

definition process_test :: "int \<Rightarrow> injection_process \<Rightarrow> rng \<Rightarrow> (bool \<times> injection_process \<times> rng) option" where
  "process_test source p g = do {
     assertion (0 \<le> source \<and> source < ip_nodes p);
     Some (case ip_kind p of
        Bernoulli \<Rightarrow> (case RandomFloat g of (x, g') \<Rightarrow> (x < ip_rate p, p, g'))
      | OnOff a b r start state \<Rightarrow>
          (case OnOff_test a b r state (nat source) g of
             (yes, state1, g') \<Rightarrow> (yes, p\<lparr>ip_kind := OnOff a b r start state1\<rparr>, g')))
   }"

subsection \<open>Statistics\<close>

record stats =
  num_bins :: nat
  bin_size :: rat
  num_samples :: nat
  sample_sum :: rat
  sample_squared_sum :: rat
  st_min :: "rat option"
  st_max :: "rat option"
  hist :: "nat list"

definition Stats_Clear :: "stats \<Rightarrow> stats" where
  "Stats_Clear s = s\<lparr>num_samples := 0, sample_sum := 0, sample_squared_sum := 0,
     hist := replicate (num_bins s) 0, st_min := None, st_max := None\<rparr>"

definition Stats_init :: "rat \<Rightarrow> nat \<Rightarrow> stats" where
  "Stats_init width bins = Stats_Clear \<lparr>num_bins = bins, bin_size = width, num_samples = 0,
     sample_sum = 0, sample_squared_sum = 0, st_min = None, st_max = None, hist = []\<rparr>"

definition Average :: "stats \<Rightarrow> rat" where
  "Average s = sample_sum s / rat_of_nat (num_samples s)"

definition Variance :: "stats \<Rightarrow> rat" where
  "Variance s = (sample_squared_sum s * rat_of_nat (num_samples s) - sample_sum s * sample_sum s) /
     (rat_of_nat (num_samples s) * rat_of_nat (num_samples s))"

text \<open>The bin of a value; a \<open>Stats\<close> has at least one.\<close>

definition bin_of :: "stats \<Rightarrow> rat \<Rightarrow> nat" where
  "bin_of s val =
     (let b = nat (max \<lfloor>val / bin_size s\<rfloor> 0) in if b \<ge> num_bins s then num_bins s - 1 else b)"

text \<open>\<open>AddSample\<close> does not add to \<open>_sample_squared_sum\<close>.\<close>

definition AddSample :: "rat \<Rightarrow> stats \<Rightarrow> stats" where
  "AddSample val s = (let b = bin_of s val in
     s\<lparr>num_samples := num_samples s + 1, sample_sum := sample_sum s + val,
       st_max := (case st_max s of None \<Rightarrow> Some val
                  | Some m \<Rightarrow> Some (if \<not> val \<le> m then val else m)),
       st_min := (case st_min s of None \<Rightarrow> Some val
                  | Some m \<Rightarrow> Some (if \<not> val \<ge> m then val else m)),
       hist := (hist s)[b := hist s ! b + 1]\<rparr>)"

subsection \<open>What a \<open>Stats\<close> says of its samples\<close>

lemma AddSample_fields [simp]:
  "num_bins (AddSample v s) = num_bins s" "bin_size (AddSample v s) = bin_size s"
  "num_samples (AddSample v s) = num_samples s + 1" "sample_sum (AddSample v s) = sample_sum s + v"
  "sample_squared_sum (AddSample v s) = sample_squared_sum s"
  "length (hist (AddSample v s)) = length (hist s)"
  by (simp_all add: AddSample_def Let_def)

lemma AddSample_hist:
  assumes "length (hist s) = num_bins s" and "0 < num_bins s"
  shows "sum_list (hist (AddSample v s)) = sum_list (hist s) + 1"
proof -
  have "bin_of s v < length (hist s)" using assms by (simp add: bin_of_def Let_def)
  then show ?thesis
    by (simp add: AddSample_def Let_def sum_list_update)
qed

lemma AddSamples:
  assumes "length (hist s) = num_bins s" and "0 < num_bins s"
  shows "num_samples (fold AddSample vs s) = num_samples s + length vs \<and>
    sample_sum (fold AddSample vs s) = sample_sum s + sum_list vs \<and>
    sample_squared_sum (fold AddSample vs s) = sample_squared_sum s \<and>
    length (hist (fold AddSample vs s)) = num_bins (fold AddSample vs s) \<and>
    sum_list (hist (fold AddSample vs s)) = sum_list (hist s) + length vs"
  using assms by (induction vs arbitrary: s) (simp_all add: AddSample_hist)

lemma AddSamples_max:
  "st_max s = Some m \<Longrightarrow> \<exists>m'. st_max (fold AddSample vs s) = Some m' \<and> m' \<in> insert m (set vs) \<and>
     (\<forall>v \<in> insert m (set vs). v \<le> m')"
proof (induction vs arbitrary: s m)
  case (Cons v vs)
  have "st_max (AddSample v s) = Some (if \<not> v \<le> m then v else m)"
    using Cons.prems by (simp add: AddSample_def Let_def)
  from Cons.IH [OF this] show ?case by (auto split: if_splits)
qed simp

text \<open>What the statistics of a quantity report.  After the samples \<open>v # vs\<close>, the average is their
  average, the maximum their greatest, and the bins of the histogram add up to their number; but
  \<open>AddSample\<close> leaves \<open>_sample_squared_sum\<close> alone, so that \<open>Variance\<close> is minus the square of the
  average, never positive.\<close>

theorem stats_of_samples:
  assumes "0 < bins"
  shows "let s = fold AddSample (v # vs) (Stats_init width bins) in
    Average s = sum_list (v # vs) / rat_of_nat (length (v # vs)) \<and>
    st_max s = Some (Max (set (v # vs))) \<and>
    sum_list (hist s) = length (v # vs) \<and>
    Variance s = - (Average s * Average s)"
proof -
  let ?s = "fold AddSample (v # vs) (Stats_init width bins)"
  have f: "num_samples ?s = length (v # vs)" "sample_sum ?s = sum_list (v # vs)"
    "sample_squared_sum ?s = 0" "sum_list (hist ?s) = length (v # vs)"
    using AddSamples [of "Stats_init width bins" "v # vs"] assms
    by (simp_all add: Stats_init_def Stats_Clear_def sum_list_replicate)
  have "st_max (AddSample v (Stats_init width bins)) = Some v"
    by (simp add: AddSample_def Let_def Stats_init_def Stats_Clear_def)
  from AddSamples_max [OF this, of vs]
  obtain m where m: "st_max ?s = Some m" "m \<in> set (v # vs)" "\<forall>w \<in> set (v # vs). w \<le> m" by auto
  then have "m = Max (set (v # vs))" by (intro Max_eqI [symmetric]) auto
  then show ?thesis using f m(1) by (simp add: Average_def Variance_def Let_def)
qed

lemma stats_of_samples_witness:
  "Variance (fold AddSample [2, 4] (Stats_init 1 10)) = - 9 \<and>
   st_max (fold AddSample [2, 4] (Stats_init 1 10)) = Some 4"
  using stats_of_samples [of 10 2 "[4]" 1] by (simp add: Let_def del: fold_simps)

end
