(* ===== verification/Traffic_Manager.thy ===== *)
theory Traffic_Manager
  imports Network Traffic Injection
begin

text \<open>
  The traffic manager of FlyOver (src/booksim2/src/flovtrafficmanager.cpp, and what it inherits from
  trafficmanager.cpp): it makes packets at the nodes whose core is on, injects their flits, retires the
  flits that come out, lets the nodes vote on how eagerly routers may sleep, and runs the networks,
  one per subnet.  The state is a record; \<open>_total_in_flight_flits\<close> and
  \<open>_measured_in_flight_flits\<close> keep their keys.  A flit that is \<open>watched\<close> is only printed,
  \<open>_pair_stats\<close> is off and \<open>TRACK_FLOWS\<close> not defined, as by default.
\<close>

datatype sim_state = warming_up | running | sim_draining

datatype priority =
  class_based | age_based | network_age_based | local_age_based | queue_length_based
| hop_count_based | sequence_based | no_priority

record reply =
  r_source :: int
  r_time :: int
  r_record :: bool
  r_type :: flit_type

text \<open>What the constructor reads from the configuration and never changes.  \<open>o_route\<close> is \<open>_rf\<close> for a
  router, \<open>o_inject_route\<close> for the node itself; \<open>o_blank\<close> is the object \<open>Flit::New\<close> finds in its
  pool.\<close>

record tm_options =
  o_nodes :: nat
  o_classes :: nat
  o_subnets :: nat
  o_k :: nat
  o_subnet :: "flit_type \<Rightarrow> nat"
  o_pri_type :: priority
  o_class_priority :: "int list"
  o_lookahead :: bool
  o_noq :: bool
  o_use_read_write :: "bool list"
  o_write_fraction :: "rat list"
  o_read_request_size :: "int list"
  o_read_reply_size :: "int list"
  o_write_request_size :: "int list"
  o_write_reply_size :: "int list"
  o_packet_size :: "int list list"
  o_packet_size_rate :: "int list list"
  o_packet_size_max_val :: "int list"
  o_traffic :: "string list"
  o_pattern :: "traffic_pattern list"
  o_hold_switch :: bool
  o_include_queuing :: int
  o_measure :: "bool list"
  o_deadlock_warn :: int
  o_powergate_type :: string
  o_monitor_epoch :: int
  o_plat_high :: rat
  o_plat_low :: rat
  o_watch_all :: bool
  o_blank :: flit
  o_inject_route :: "flit \<Rightarrow> output_set option"
  o_route :: "flov_router \<Rightarrow> flit \<Rightarrow> nat \<Rightarrow> output_set \<Rightarrow> output_set option"

text \<open>The statistics of a class, and the counts per class and node.\<close>

record tm_stats =
  s_plat :: "stats list"
  s_nlat :: "stats list"
  s_flat :: "stats list"
  s_frag :: "stats list"
  s_hop :: "stats list"
  s_flov_hop :: "stats list"
  s_slowest_flit :: "int list"
  s_slowest_packet :: "int list"
  s_sent_flits :: "nat list list"
  s_sent_packets :: "nat list list"
  s_accepted_flits :: "nat list list"
  s_accepted_packets :: "nat list list"
  s_idle_cycles :: "nat list list"
  s_overall_idle_cycles :: "nat list list"

record ('v, 'w, 'x) traffic_manager =
  t_net :: "('v, 'w, 'x) network list"
  t_cores :: "bool list"
  t_rand :: rng
  t_process :: "injection_process list"
  t_time :: nat
  t_sim_state :: sim_state
  t_reset_time :: nat
  t_drain_time :: int
  t_empty_network :: bool
  t_deadlock_timer :: int
  t_cur_id :: nat
  t_cur_pid :: nat
  t_buf_states :: "buffer_state list list"
  t_last_vc :: "int list list list"
  t_last_class :: "nat list list"
  t_partial :: "flit list list list"
  t_qtime :: "int list list"
  t_qdrained :: "bool list list"
  t_in_flight :: "nat list list"
  t_measured :: "nat list list"
  t_retired :: "flit omap list"
  t_packet_seq_no :: "int list"
  t_replies :: "reply list list"
  t_requests :: "int list"
  t_idle_periods :: "nat list"
  t_wakeup_latency :: "bool list"
  t_monitor_counter :: int
  t_votes :: "int list"
  t_per_node_plat :: "stats list"
  t_stats :: tm_stats

text \<open>\<open>xsss[i][j][k] = x\<close>, and a change of one entry.\<close>

definition put3 :: "nat \<Rightarrow> nat \<Rightarrow> nat \<Rightarrow> 'a \<Rightarrow> 'a list list list \<Rightarrow> 'a list list list" where
  "put3 i j k x xsss = xsss[i := put2 j k x (xsss ! i)]"

definition bump :: "('a \<Rightarrow> 'a) \<Rightarrow> nat \<Rightarrow> 'a list \<Rightarrow> 'a list" where
  "bump f i xs = xs[i := f (xs ! i)]"

definition INT_MAX :: int where
  "INT_MAX = 2147483647"

subsection \<open>Making packets\<close>

definition IssuePacket ::
  "tm_options \<Rightarrow> nat \<Rightarrow> nat \<Rightarrow> ('v, 'w, 'x) traffic_manager \<Rightarrow> (int \<times> ('v, 'w, 'x) traffic_manager) option" where
  "IssuePacket C src cl t = do {
     (result, t1) \<leftarrow>
       (if o_use_read_write C ! cl
        then (case t_replies t ! src of
           r # _ \<Rightarrow> Some (if r_time r \<le> int (t_time t) then -1 else 0, t)
         | [] \<Rightarrow> do {
             (yes, p, g) \<leftarrow> process_test (int src) (t_process t ! cl) (t_rand t);
             (let u = t\<lparr>t_process := (t_process t)[cl := p], t_rand := g\<rparr>
              in if yes
                 then (case RandomFloat g of (x, g') \<Rightarrow>
                   Some (if x < o_write_fraction C ! cl then 2 else 1,
                         u\<lparr>t_rand := g', t_requests := bump (\<lambda>n. n + 1) src (t_requests t)\<rparr>))
                 else Some (0, u)) })
        else do {
          (yes, p, g) \<leftarrow> process_test (int src) (t_process t ! cl) (t_rand t);
          Some (of_bool yes, t\<lparr>t_process := (t_process t)[cl := p], t_rand := g,
                               t_requests := bump (\<lambda>n. n + 1) src (t_requests t)\<rparr>) });
     Some (result, if result \<noteq> 0 then t1\<lparr>t_packet_seq_no := bump (\<lambda>n. n + 1) src (t_packet_seq_no t1)\<rparr>
                   else t1)
   }"

text \<open>\<open>_GetNextPacketSize\<close>: the loop over the sizes but the last.\<close>

fun size_scan :: "int list \<Rightarrow> int list \<Rightarrow> int \<Rightarrow> int option" where
  "size_scan (s # t # sizes) (limit # rates) pct =
     (if limit > pct then Some s else size_scan (t # sizes) rates (pct - limit))"
| "size_scan [s] rates pct = (if rates \<noteq> [] \<and> last rates > pct then Some s else None)"
| "size_scan sizes rates pct = None"

definition GetNextPacketSize :: "tm_options \<Rightarrow> nat \<Rightarrow> rng \<Rightarrow> (int \<times> rng) option" where
  "GetNextPacketSize C cl g = do {
     assertion (cl < o_classes C);
     (if length (o_packet_size C ! cl) = 1 then Some (o_packet_size C ! cl ! 0, g)
      else do {
        (pct, g') \<leftarrow> RandomInt (o_packet_size_max_val C ! cl) g;
        n \<leftarrow> size_scan (o_packet_size C ! cl) (o_packet_size_rate C ! cl) pct;
        Some (n, g')
      })
   }"

text \<open>The loop \<open>while (core_states[packet_destination] != true)\<close>, which need not end.\<close>

partial_function (option) redraw ::
  "bool list \<Rightarrow> traffic_pattern \<Rightarrow> int \<Rightarrow> int \<Rightarrow> rng \<Rightarrow> (int \<times> rng) option" where
  "redraw cores p src d g =
     (if cores ! nat d then Some (d, g)
      else do {
        (d', g') \<leftarrow> dest p src g;
        redraw cores p src d' g'
      })"

declare redraw.simps [code]

definition packet_destination ::
  "tm_options \<Rightarrow> bool list \<Rightarrow> nat \<Rightarrow> nat \<Rightarrow> rng \<Rightarrow> (int \<times> rng) option" where
  "packet_destination C cores src cl g = do {
     (d, g1) \<leftarrow> dest (o_pattern C ! cl) (int src) g;
     (d', g2) \<leftarrow> (if o_traffic C ! cl = ''tornado'' \<and> \<not> cores ! nat d then Some (int src, g1)
                else redraw cores (o_pattern C ! cl) (int src) d g1);
     assertion (cores ! nat d');
     Some (d', g2)
   }"

text \<open>Type, size, destination, time and \<open>record\<close> of a packet in a class of reads and writes.\<close>

definition read_write_packet ::
  "tm_options \<Rightarrow> nat \<Rightarrow> nat \<Rightarrow> int \<Rightarrow> int \<Rightarrow> int \<Rightarrow> ('v, 'w, 'x) traffic_manager \<Rightarrow>
     (flit_type \<times> int \<times> int \<times> int \<times> bool \<times> ('v, 'w, 'x) traffic_manager) option" where
  "read_write_packet C src cl stype dst time t =
     (if stype > 0 then
        (if stype = 1 then Some (READ_REQUEST, o_read_request_size C ! cl, dst, time, False, t)
         else if stype = 2 then Some (WRITE_REQUEST, o_write_request_size C ! cl, dst, time, False, t)
         else None)
      else case t_replies t ! src of
        [] \<Rightarrow> None
      | r # rs \<Rightarrow>
          (let t1 = t\<lparr>t_replies := (t_replies t)[src := rs]\<rparr>
           in if r_type r = READ_REQUEST
              then Some (READ_REPLY, o_read_reply_size C ! cl, r_source r, r_time r, r_record r, t1)
              else if r_type r = WRITE_REQUEST
              then Some (WRITE_REPLY, o_write_reply_size C ! cl, r_source r, r_time r, r_record r, t1)
              else None))"

text \<open>The priority of a new flit, which must not be negative.\<close>

definition new_priority ::
  "tm_options \<Rightarrow> nat \<Rightarrow> nat \<Rightarrow> int \<Rightarrow> ('v, 'w, 'x) traffic_manager \<Rightarrow> int option" where
  "new_priority C src cl time t =
     (let p = (case o_pri_type C of
                 class_based \<Rightarrow> o_class_priority C ! cl
               | age_based \<Rightarrow> INT_MAX - time
               | sequence_based \<Rightarrow> INT_MAX - t_packet_seq_no t ! src
               | _ \<Rightarrow> 0)
      in if p \<ge> 0 then Some p else None)"

text \<open>One turn of the loop over the flits of a packet.\<close>

definition add_flit ::
  "tm_options \<Rightarrow> nat \<Rightarrow> nat \<Rightarrow> flit_type \<Rightarrow> int \<Rightarrow> int \<Rightarrow> int \<Rightarrow> bool \<Rightarrow> nat \<Rightarrow> int \<Rightarrow> int
     \<Rightarrow> ('v, 'w, 'x) traffic_manager \<Rightarrow> ('v, 'w, 'x) traffic_manager option" where
  "add_flit C src cl type n dst time rec pid subnet i t = do {
     p \<leftarrow> new_priority C src cl time t;
     (let x = t_cur_id t;
          f = (Flit_Reset (o_blank C))\<lparr>
                f_id := int x, f_pid := int pid, f_watch := o_watch_all C, f_subnetwork := subnet,
                f_src := int src, f_ctime := time, f_record := rec, f_cl := int cl, f_type := type,
                f_head := (i = 0), f_dest := (if i = 0 then dst else -1), f_pri := p,
                f_tail := (i = n - 1), f_vc := -1\<rparr>
      in Some (t\<lparr>t_cur_id := Suc x,
           t_in_flight := bump (os_insert x) cl (t_in_flight t),
           t_measured := (if rec then bump (os_insert x) cl (t_measured t) else t_measured t),
           t_partial := put2 src cl (t_partial t ! src ! cl @ [f]) (t_partial t)\<rparr>))
   }"

definition GeneratePacket ::
  "tm_options \<Rightarrow> nat \<Rightarrow> int \<Rightarrow> nat \<Rightarrow> int \<Rightarrow> ('v, 'w, 'x) traffic_manager
     \<Rightarrow> ('v, 'w, 'x) traffic_manager option" where
  "GeneratePacket C src stype cl time0 t = do {
     assertion (stype \<noteq> 0);
     assertion (t_cores t ! src);
     (size0, g1) \<leftarrow> GetNextPacketSize C cl (t_rand t);
     (let pid = t_cur_pid t in do {
        (dst0, g2) \<leftarrow> packet_destination C (t_cores t) src cl g1;
        (let t1 = t\<lparr>t_cur_pid := Suc pid, t_rand := g2\<rparr> in do {
           (type, n, dst, time, rec0, t2) \<leftarrow>
             (if o_use_read_write C ! cl then read_write_packet C src cl stype dst0 time0 t1
              else Some (ANY_TYPE, size0, dst0, time0, False, t1));
           assertion (0 \<le> dst \<and> dst < int (o_nodes C));
           (let rec = (if t_sim_state t2 = running \<or> (t_sim_state t2 = sim_draining \<and> time < t_drain_time t2)
                       then o_measure C ! cl else rec0) in do {
              (subnet, g3) \<leftarrow> (if type = ANY_TYPE then RandomInt (int (o_subnets C) - 1) (t_rand t2)
                              else Some (int (o_subnet C type), t_rand t2));
              foldM (add_flit C src cl type n dst time rec pid subnet) [0..n - 1] (t2\<lparr>t_rand := g3\<rparr>)
            })
         })
      })
   }"

text \<open>The loop \<open>while(!generated && (_qtime[input][c] <= _time))\<close>.\<close>

definition advance_qtime ::
  "tm_options \<Rightarrow> nat \<Rightarrow> nat \<Rightarrow> int \<Rightarrow> ('v, 'w, 'x) traffic_manager \<Rightarrow> ('v, 'w, 'x) traffic_manager" where
  "advance_qtime C n c stype t =
     (if \<not> o_use_read_write C ! c \<or> stype \<ge> 0
      then t\<lparr>t_qtime := put2 n c (t_qtime t ! n ! c + 1) (t_qtime t)\<rparr> else t)"

partial_function (option) generate_loop ::
  "tm_options \<Rightarrow> nat \<Rightarrow> nat \<Rightarrow> ('v, 'w, 'x) traffic_manager \<Rightarrow> ('v, 'w, 'x) traffic_manager option" where
  "generate_loop C n c t =
     (if t_qtime t ! n ! c \<le> int (t_time t)
      then do {
        (stype, t1) \<leftarrow> IssuePacket C n c t;
        (if stype \<noteq> 0
         then do {
           t2 \<leftarrow> GeneratePacket C n stype c
             (if o_include_queuing C = 1 then t_qtime t1 ! n ! c else int (t_time t1)) t1;
           Some (advance_qtime C n c stype t2) }
         else generate_loop C n c (advance_qtime C n c stype t1))
      }
      else Some t)"

declare generate_loop.simps [code]

definition inject_class ::
  "tm_options \<Rightarrow> nat \<Rightarrow> nat \<Rightarrow> ('v, 'w, 'x) traffic_manager \<Rightarrow> ('v, 'w, 'x) traffic_manager option" where
  "inject_class C n c t =
     (if t_partial t ! n ! c = [] then do {
        t1 \<leftarrow> generate_loop C n c t;
        Some (if t_sim_state t1 = sim_draining \<and> t_qtime t1 ! n ! c > t_drain_time t1
              then t1\<lparr>t_qdrained := put2 n c True (t_qdrained t1)\<rparr> else t1) }
      else Some t)"

definition Inject_packets ::
  "tm_options \<Rightarrow> ('v, 'w, 'x) traffic_manager \<Rightarrow> ('v, 'w, 'x) traffic_manager option" where
  "Inject_packets C t =
     foldM (\<lambda>n t. if \<not> t_cores t ! n then Some t
                  else foldM (inject_class C n) [0..<o_classes C] t)
       [0..<o_nodes C] t"

end
