(* ===== verification/Packet_Properties.thy ===== *)
theory Packet_Properties
  imports Traffic_Manager Parking_Choice
begin

text \<open>
  New packets: their flits, and the loop that looks for a destination whose core is on - for uniform
  traffic it ends with the first such node drawn, for a pattern that always names the same node it does
  not end when that core is parked.
\<close>

subsection \<open>The destination\<close>

lemma redraw_ends:
  assumes "0 \<le> src" and "src < nodes" and "cores ! nat (drawn (nodes - 1) g n)"
    and "\<forall>i<n. \<not> cores ! nat (drawn (nodes - 1) g i)" and "\<not> cores ! nat d"
  shows "redraw cores \<lparr>tp_nodes = nodes, tp_rule = UniformRandom\<rparr> src d g =
    Some (drawn (nodes - 1) g n, g\<lparr>ran_used := ran_used g + Suc n\<rparr>)"
  using assms(3,4,5)
proof (induction n arbitrary: g d)
  case 0
  then show ?case
    using assms(1,2) RandomInt_drawn [of "nodes - 1" g]
    by (subst redraw.simps) (simp add: dest_def redraw.simps)
next
  case (Suc n)
  let ?g = "g\<lparr>ran_used := Suc (ran_used g)\<rparr>"
  have "redraw cores \<lparr>tp_nodes = nodes, tp_rule = UniformRandom\<rparr> src (drawn (nodes - 1) g 0) ?g =
      Some (drawn (nodes - 1) ?g n, ?g\<lparr>ran_used := ran_used ?g + Suc n\<rparr>)"
    by (rule Suc.IH) (use Suc.prems in \<open>auto simp: drawn_Suc\<close>)
  then show ?case
    using Suc.prems(3) assms(1,2) RandomInt_drawn [of "nodes - 1" g]
    by (subst redraw.simps) (simp add: dest_def drawn_Suc)
qed

text \<open>No destination that may come up has its core on.\<close>

lemma redraw_never:
  assumes "redraw cores p src d g = Some y"
  shows "\<not> (\<not> cores ! nat d \<and> S g \<and> (\<forall>g d' g'. S g \<longrightarrow> dest p src g = Some (d', g') \<longrightarrow> \<not> cores ! nat d' \<and> S g'))"
proof (rule redraw.raw_induct [OF _ assms])
  fix rec :: "bool list \<Rightarrow> traffic_pattern \<Rightarrow> int \<Rightarrow> int \<Rightarrow> rng \<Rightarrow> (int \<times> rng) option" and cores p src d g y
  assume IH: "\<And>cores p src d g y. rec cores p src d g = Some y \<Longrightarrow>
      \<not> (\<not> cores ! nat d \<and> S g \<and> (\<forall>g d' g'. S g \<longrightarrow> dest p src g = Some (d', g') \<longrightarrow> \<not> cores ! nat d' \<and> S g'))"
    and run: "(if cores ! nat d then Some (d, g)
       else dest p src g \<bind> (\<lambda>(d', g'). rec cores p src d' g')) = Some y"
  show "\<not> (\<not> cores ! nat d \<and> S g \<and> (\<forall>g d' g'. S g \<longrightarrow> dest p src g = Some (d', g') \<longrightarrow> \<not> cores ! nat d' \<and> S g'))"
  proof
    assume a: "\<not> cores ! nat d \<and> S g \<and> (\<forall>g d' g'. S g \<longrightarrow> dest p src g = Some (d', g') \<longrightarrow> \<not> cores ! nat d' \<and> S g')"
    then obtain d' g' where "dest p src g = Some (d', g')" "rec cores p src d' g' = Some y"
      using run by (auto split: Option.bind_splits)
    then show False using IH [of cores p src d' g' y] a by blast
  qed
qed

text \<open>C12: the loop that looks for a destination, for uniform traffic.  It ends if and only if the generator
  ever draws a node whose core is on, and its result is the first such node.\<close>

theorem uniform_destination:
  fixes cores :: "bool list" and g :: rng
  assumes "o_pattern C ! cl = \<lparr>tp_nodes = int nodes, tp_rule = UniformRandom\<rparr>" and "src < nodes"
    and "o_traffic C ! cl \<noteq> ''tornado''"
  defines "on \<equiv> \<lambda>i. cores ! nat (drawn (int nodes - 1) g i)"
  shows "packet_destination C cores src cl g =
    (if \<exists>i. on i then Some (drawn (int nodes - 1) g (LEAST i. on i), g\<lparr>ran_used := ran_used g + Suc (LEAST i. on i)\<rparr>)
     else None)"
proof -
  let ?p = "\<lparr>tp_nodes = int nodes, tp_rule = UniformRandom\<rparr>" and ?m = "int nodes - 1"
    and ?g = "g\<lparr>ran_used := Suc (ran_used g)\<rparr>"
  have m: "0 \<le> ?m" using assms(2) by simp
  have first: "dest ?p (int src) g = Some (drawn ?m g 0, g\<lparr>ran_used := Suc (ran_used g)\<rparr>)" for g
    using RandomInt_drawn [OF m] assms(2) by (simp add: dest_def)
  have run: "packet_destination C cores src cl g =
      do { (d, g') \<leftarrow> redraw cores ?p (int src) (drawn ?m g 0) ?g; assertion (cores ! nat d); Some (d, g') }"
    using assms(3) by (simp add: packet_destination_def assms(1) first)
  show ?thesis
  proof (cases "\<exists>i. on i")
    case True
    let ?n = "LEAST i. on i"
    have hit: "on ?n" and least: "\<And>i. i < ?n \<Longrightarrow> \<not> on i" using True by (auto intro: LeastI dest: not_less_Least)
    have "redraw cores ?p (int src) (drawn ?m g 0) ?g = Some (drawn ?m g ?n, g\<lparr>ran_used := ran_used g + Suc ?n\<rparr>)"
    proof (cases ?n)
      case 0
      then show ?thesis using hit by (subst redraw.simps) (simp add: on_def)
    next
      case (Suc n)
      have "\<not> cores ! nat (drawn ?m g 0)" using least [of 0] Suc by (simp add: on_def)
      then show ?thesis
        using redraw_ends [of "int src" "int nodes" cores ?g n "drawn ?m g 0"] hit least assms(2)
        unfolding Suc by (simp add: drawn_Suc on_def)
    qed
    then show ?thesis using True hit by (simp add: run on_def)
  next
    case False
    have "redraw cores ?p (int src) (drawn ?m g 0) ?g \<noteq> Some y" for y
    proof
      let ?S = "\<lambda>g'. ran_seq g' = ran_seq g \<and> ran_used g \<le> ran_used g'"
      have off: "\<not> cores ! nat (drawn ?m g' 0)" if "?S g'" for g'
      proof -
        have "drawn ?m g' 0 = drawn ?m g (ran_used g' - ran_used g)" using that by (simp add: drawn_def)
        then show ?thesis using False by (simp add: on_def)
      qed
      assume "redraw cores ?p (int src) (drawn ?m g 0) ?g = Some y"
      from redraw_never [OF this, of ?S]
      have "\<exists>h d' h'. ?S h \<and> dest ?p (int src) h = Some (d', h') \<and> (cores ! nat d' \<or> \<not> ?S h')"
        using off [of g] by auto
      then show False using off first by auto
    qed
    then have "redraw cores ?p (int src) (drawn ?m g 0) ?g = None" by (meson not_Some_eq)
    then show ?thesis using False by (simp add: run)
  qed
qed

text \<open>C13: a packet for a parked core.  When the traffic pattern has one destination for a node, and the core
  there is off, the loop asks for the same destination for ever: no packet is made (tornado traffic, for
  which there is a special case, apart).\<close>

theorem parked_destination_hangs:
  assumes "\<forall>g. dest (o_pattern C ! cl) (int src) g = Some (d, g)" and "\<not> t_cores t ! nat d"
    and "o_traffic C ! cl \<noteq> ''tornado''"
  shows "GeneratePacket C src stype cl time t = None"
proof -
  have "redraw (t_cores t) (o_pattern C ! cl) (int src) d g \<noteq> Some y" for g y
  proof
    assume "redraw (t_cores t) (o_pattern C ! cl) (int src) d g = Some y"
    from redraw_never [OF this, of "\<lambda>_. True"] show False using assms(1,2) by simp
  qed
  then have "redraw (t_cores t) (o_pattern C ! cl) (int src) d g = None" for g by (meson not_Some_eq)
  then have "packet_destination C (t_cores t) src cl g = None" for g
    using assms(1,3) by (simp add: packet_destination_def)
  then show ?thesis by (auto simp: GeneratePacket_def Let_def split: Option.bind_splits)
qed

subsection \<open>The flits of a packet\<close>

definition packet_flit ::
  "nat \<Rightarrow> nat \<Rightarrow> flit_type \<Rightarrow> int \<Rightarrow> int \<Rightarrow> nat \<Rightarrow> int \<Rightarrow> nat \<Rightarrow> int \<Rightarrow> flit \<Rightarrow> bool" where
  "packet_flit src cl type n dst pid subnet x i f \<longleftrightarrow>
     f_type f = type \<and> f_id f = int x \<and> f_pid f = int pid \<and> f_src f = int src \<and> f_cl f = int cl \<and> f_subnetwork f = subnet \<and>
     f_vc f = -1 \<and> (f_head f \<longleftrightarrow> i = 0) \<and> (f_tail f \<longleftrightarrow> i = n - 1) \<and> f_dest f = (if i = 0 then dst else -1)"

lemma add_flit_new:
  assumes "add_flit C src cl type n dst time rec pid subnet i t = Some t'"
  obtains f where "packet_flit src cl type n dst pid subnet (t_cur_id t) i f"
    and "t_partial t' = put2 src cl (t_partial t ! src ! cl @ [f]) (t_partial t)"
    and "t_cur_id t' = Suc (t_cur_id t)" and "t_cur_pid t' = t_cur_pid t" and "t_replies t' = t_replies t"
proof -
  obtain p where p: "new_priority C src cl time t = Some p"
    using assms by (auto simp: add_flit_def split: Option.bind_splits)
  let ?f = "(Flit_Reset (o_blank C))\<lparr>f_id := int (t_cur_id t), f_pid := int pid, f_watch := o_watch_all C,
    f_subnetwork := subnet, f_src := int src, f_ctime := time, f_record := rec, f_cl := int cl, f_type := type,
    f_head := (i = 0), f_dest := (if i = 0 then dst else -1), f_pri := p, f_tail := (i = n - 1), f_vc := -1\<rparr>"
  show thesis
    by (rule that [of ?f]) (use assms in \<open>auto simp: add_flit_def packet_flit_def p Let_def\<close>)
qed

lemma add_flits:
  assumes "foldM (add_flit C src cl type n dst time rec pid subnet) [a..n - 1] t = Some t'"
    and "src < length (t_partial t)" and "cl < length (t_partial t ! src)" and "0 \<le> a"
  shows "\<exists>fs. t_partial t' = put2 src cl (t_partial t ! src ! cl @ fs) (t_partial t) \<and> length fs = nat (n - a) \<and>
    (\<forall>i<length fs. packet_flit src cl type n dst pid subnet (t_cur_id t + i) (a + int i) (fs ! i)) \<and>
    t_cur_id t' = t_cur_id t + length fs \<and> t_cur_pid t' = t_cur_pid t \<and> t_replies t' = t_replies t"
  using assms
proof (induction "nat (n - a)" arbitrary: a t)
  case 0
  then show ?case by (simp add: put2_def)
next
  case (Suc m)
  have "[a..n - 1] = a # [a + 1..n - 1]" using Suc.hyps(2) by (simp add: upto_rec1)
  then obtain t1 where 1: "add_flit C src cl type n dst time rec pid subnet a t = Some t1"
    and 2: "foldM (add_flit C src cl type n dst time rec pid subnet) [a + 1..n - 1] t1 = Some t'"
    using Suc.prems(1) by (auto split: option.splits)
  obtain f where f: "packet_flit src cl type n dst pid subnet (t_cur_id t) a f"
    "t_partial t1 = put2 src cl (t_partial t ! src ! cl @ [f]) (t_partial t)"
    "t_cur_id t1 = Suc (t_cur_id t)" "t_cur_pid t1 = t_cur_pid t" "t_replies t1 = t_replies t"
    by (rule add_flit_new [OF 1])
  have "m = nat (n - (a + 1))" using Suc.hyps(2) by simp
  then obtain fs where fs: "t_partial t' = put2 src cl (t_partial t1 ! src ! cl @ fs) (t_partial t1)"
    "length fs = nat (n - (a + 1))"
    "\<forall>i<length fs. packet_flit src cl type n dst pid subnet (t_cur_id t1 + i) (a + 1 + int i) (fs ! i)"
    "t_cur_id t' = t_cur_id t1 + length fs" "t_cur_pid t' = t_cur_pid t1" "t_replies t' = t_replies t1"
    using Suc.hyps(1) [OF _ 2] Suc.prems(2-4) f(2) by (auto simp: put2_def)
  have "packet_flit src cl type n dst pid subnet (t_cur_id t + i) (a + int i) ((f # fs) ! i)" if "i < length (f # fs)" for i
    using f(1,3) fs(3) that by (cases i) (auto simp: ac_simps)
  then show ?case
    using fs f Suc.prems(2,3) Suc.hyps(2) by (intro exI [of _ "f # fs"]) (auto simp: put2_def)
qed

text \<open>The type and the number of flits of the packet that is made: in a class of reads and writes those of a
  read request (\<open>stype\<close> 1), a write request (2) or of the reply to the first request that waits, else
  those that \<open>_GetNextPacketSize\<close> draws.\<close>

definition packet_kind ::
  "tm_options \<Rightarrow> nat \<Rightarrow> int \<Rightarrow> nat \<Rightarrow> ('v, 'w, 'x) traffic_manager \<Rightarrow> flit_type \<times> int" where
  "packet_kind C src stype cl t =
     (if \<not> o_use_read_write C ! cl then (ANY_TYPE, fst (the (GetNextPacketSize C cl (t_rand t))))
      else if stype = 1 then (READ_REQUEST, o_read_request_size C ! cl)
      else if stype = 2 then (WRITE_REQUEST, o_write_request_size C ! cl)
      else if r_type (hd (t_replies t ! src)) = READ_REQUEST then (READ_REPLY, o_read_reply_size C ! cl)
      else (WRITE_REPLY, o_write_reply_size C ! cl))"

text \<open>C11: the flits of a packet.  \<open>_GeneratePacket\<close> appends to the queue of the node and class exactly as many
  flits as the packet has by its kind - the size drawn for the class, or the configured size of a read
  request, write request, read reply or write reply - with that type, the next numbers in order, the number
  of the packet, one subnet and no VC yet; the first one and only it is a head and has the destination, the
  last one and only it is a tail.  A reply goes to the node whose request was first in the queue of
  pending replies, which it leaves; every other packet, requests included, goes to a node whose core is on,
  and the queue stays as it was.\<close>

theorem packet_is_well_formed:
  assumes "GeneratePacket C src stype cl time t = Some t'"
    and "src < length (t_partial t)" and "cl < length (t_partial t ! src)"
  shows "\<exists>fs dst subnet. t_partial t' = put2 src cl (t_partial t ! src ! cl @ fs) (t_partial t) \<and>
    length fs = nat (snd (packet_kind C src stype cl t)) \<and>
    (\<forall>i<length fs. packet_flit src cl (fst (packet_kind C src stype cl t)) (int (length fs)) dst (t_cur_pid t) subnet
       (t_cur_id t + i) (int i) (fs ! i)) \<and>
    t_cur_id t' = t_cur_id t + length fs \<and> t_cur_pid t' = Suc (t_cur_pid t) \<and>
    0 \<le> dst \<and> dst < int (o_nodes C) \<and>
    (if o_use_read_write C ! cl \<and> stype \<le> 0
     then \<exists>r rs. t_replies t ! src = r # rs \<and> dst = r_source r \<and> t_replies t' = (t_replies t)[src := rs]
     else t_cores t ! nat dst \<and> t_replies t' = t_replies t)"
proof -
  obtain size0 g1 dst0 g2 type n dst time' rec t2 subnet g3 rec0
    where sz: "GetNextPacketSize C cl (t_rand t) = Some (size0, g1)"
    and d: "packet_destination C (t_cores t) src cl g1 = Some (dst0, g2)"
    and rw: "(if o_use_read_write C ! cl
        then read_write_packet C src cl stype dst0 time (t\<lparr>t_cur_pid := Suc (t_cur_pid t), t_rand := g2\<rparr>)
        else Some (ANY_TYPE, size0, dst0, time, False, t\<lparr>t_cur_pid := Suc (t_cur_pid t), t_rand := g2\<rparr>)) =
      Some (type, n, dst, time', rec0, t2)"
    and dst: "0 \<le> dst" "dst < int (o_nodes C)"
    and run: "foldM (add_flit C src cl type n dst time' rec (t_cur_pid t) subnet) [0..n - 1] (t2\<lparr>t_rand := g3\<rparr>) = Some t'"
    using assms(1) by (auto simp: GeneratePacket_def Let_def split: Option.bind_splits)
  have t2: "t_partial t2 = t_partial t" "t_cur_id t2 = t_cur_id t" "t_cur_pid t2 = Suc (t_cur_pid t)"
    using rw by (auto simp: read_write_packet_def Let_def split: if_splits list.splits)
  have kind: "packet_kind C src stype cl t = (type, n)"
    using rw sz by (auto simp: packet_kind_def read_write_packet_def Let_def split: if_splits list.splits)
  obtain fs where fs: "t_partial t' = put2 src cl (t_partial t ! src ! cl @ fs) (t_partial t)"
    "length fs = nat n" "t_cur_id t' = t_cur_id t + length fs" "t_cur_pid t' = Suc (t_cur_pid t)"
    "\<forall>i<length fs. packet_flit src cl type n dst (t_cur_pid t) subnet (t_cur_id t + i) (int i) (fs ! i)"
    "t_replies t' = t_replies t2"
    using add_flits [OF run] assms(2,3) by (auto simp: t2)
  have flits: "packet_flit src cl type (int (length fs)) dst (t_cur_pid t) subnet (t_cur_id t + i) (int i) (fs ! i)"
    if "i < length fs" for i
    using fs(2,5) that by auto
  have on: "t_cores t ! nat dst0" using d by (auto simp: packet_destination_def split: Option.bind_splits)
  have "if o_use_read_write C ! cl \<and> stype \<le> 0
     then \<exists>r rs. t_replies t ! src = r # rs \<and> dst = r_source r \<and> t_replies t' = (t_replies t)[src := rs]
     else t_cores t ! nat dst \<and> t_replies t' = t_replies t"
    using rw on by (auto simp: fs(6) read_write_packet_def Let_def split: if_splits list.splits)
  then show ?thesis using fs flits dst unfolding kind fst_conv snd_conv by blast
qed

subsection \<open>An example\<close>

text \<open>A 2x2 mesh; the core of node 3 is off.\<close>

definition example_rng :: rng where
  "example_rng = \<lparr>ran_seq = (\<lambda>i. 5 * i + 1), ran_used = 0, ranf_seq = (\<lambda>_. 0), ranf_used = 0\<rparr>"

definition example_options :: tm_options where
  "example_options = \<lparr>o_nodes = 4, o_classes = 1, o_subnets = 1, o_k = 2, o_subnet = (\<lambda>_. 0),
     o_pri_type = no_priority, o_class_priority = [0], o_lookahead = False, o_noq = False,
     o_use_read_write = [False], o_write_fraction = [0], o_read_request_size = [1],
     o_read_reply_size = [1], o_write_request_size = [1], o_write_reply_size = [1],
     o_packet_size = [[1]], o_packet_size_rate = [[1]], o_packet_size_max_val = [0],
     o_traffic = [''uniform''], o_pattern = [\<lparr>tp_nodes = 4, tp_rule = UniformRandom\<rparr>],
     o_hold_switch = False, o_include_queuing = 1, o_measure = [True], o_deadlock_warn = 256,
     o_powergate_type = ''flov'', o_monitor_epoch = 100, o_plat_high = 30, o_plat_low = 10,
     o_watch_all = False, o_blank = example_flit 0 0 False False,
     o_inject_route = (\<lambda>_. Some [\<lparr>vc_start = 0, vc_end = 0, se_pri = 0, output_port = -1\<rparr>]),
     o_route = (\<lambda>_ _ _ os. Some os)\<rparr>"

definition example_stats :: tm_stats where
  "example_stats = (let s = [Stats_init 1 10]; z = [[0, 0, 0, 0]] in
     \<lparr>s_plat = s, s_nlat = s, s_flat = s, s_frag = s, s_hop = s, s_flov_hop = s,
      s_slowest_flit = [-1], s_slowest_packet = [-1], s_sent_flits = z, s_sent_packets = z,
      s_accepted_flits = z, s_accepted_packets = z, s_idle_cycles = replicate 4 [0],
      s_overall_idle_cycles = replicate 4 [0]\<rparr>)"

definition idle_manager :: "('v, 'w, 'x) traffic_manager" where
  "idle_manager = \<lparr>t_net = [], t_cores = [True, True, True, False], t_rand = example_rng,
     t_process = [\<lparr>ip_nodes = 4, ip_rate = 1, ip_kind = Bernoulli\<rparr>], t_time = 0, t_sim_state = warming_up,
     t_reset_time = 0, t_drain_time = -1, t_empty_network = False, t_deadlock_timer = 0, t_cur_id = 0,
     t_cur_pid = 0,
     t_buf_states = replicate 4 [BufferState_init 1 4 4 0 (Private \<lparr>vc_buf_size = 4, full_vc_buf_size = 4\<rparr>)],
     t_last_vc = replicate 4 [[-1]], t_last_class = replicate 4 [0], t_partial = replicate 4 [[]],
     t_qtime = replicate 4 [0], t_qdrained = replicate 4 [False], t_in_flight = [[]], t_measured = [[]],
     t_retired = [[]], t_packet_seq_no = replicate 4 0, t_replies = replicate 4 [], t_requests = replicate 4 0,
     t_idle_periods = replicate 4 0, t_wakeup_latency = replicate 4 False, t_monitor_counter = 0,
     t_votes = replicate 4 0, t_per_node_plat = replicate 4 (Stats_init 1 10), t_stats = example_stats\<rparr>"

lemma uniform_destination_witness:
  "packet_destination example_options [False, False, False, True] 0 0 example_rng = Some (3, example_rng\<lparr>ran_used := 3\<rparr>)"
proof -
  let ?on = "\<lambda>i. [False, False, False, True] ! nat (drawn (int 4 - 1) example_rng i)"
  have draw: "drawn 3 example_rng i = (5 * int i + 1) mod 4" for i
    by (simp add: drawn_def example_rng_def add.commute)
  have least: "(LEAST i. ?on i) = 2"
  proof (rule Least_equality)
    fix i assume "?on i"
    then show "2 \<le> i" by (cases "i = 0"; cases "i = 1") (auto simp: draw)
  qed (simp add: draw)
  have "?on 2" by (simp add: draw)
  then have "\<exists>i. ?on i" by blast
  moreover have "example_rng\<lparr>ran_used := ran_used example_rng + Suc 2\<rparr> = example_rng\<lparr>ran_used := 3\<rparr>"
    "drawn (int 4 - 1) example_rng 2 = 3"
    by (simp_all add: draw) (simp add: example_rng_def)
  moreover have "o_pattern example_options ! 0 = \<lparr>tp_nodes = int 4, tp_rule = UniformRandom\<rparr>"
    "o_traffic example_options ! 0 \<noteq> ''tornado''"
    by (simp_all add: example_options_def)
  ultimately show ?thesis
    using uniform_destination [of example_options 0 4 0 "[False, False, False, True]" example_rng]
    by (simp only: least if_True simp_thms zero_less_numeral)
qed

lemma parked_destination_hangs_witness:
  "GeneratePacket (example_options\<lparr>o_traffic := [''bitcomp''], o_pattern := [\<lparr>tp_nodes = 4, tp_rule = BitComp\<rparr>]\<rparr>)
     0 1 0 0 (idle_manager :: (unit, unit, unit) traffic_manager) = None"
proof (rule parked_destination_hangs [where d = 3])
  let ?C = "example_options\<lparr>o_traffic := [''bitcomp''], o_pattern := [\<lparr>tp_nodes = 4, tp_rule = BitComp\<rparr>]\<rparr>"
  show "\<forall>g. dest (o_pattern ?C ! 0) (int 0) g = Some (3, g)" by (simp add: dest_def BitComp_dest_def)
  show "\<not> t_cores (idle_manager :: (unit, unit, unit) traffic_manager) ! nat 3"
    by (simp add: idle_manager_def numeral_eq_Suc)
qed simp

lemma packet_is_well_formed_witness:
  "\<exists>t'. GeneratePacket (example_options\<lparr>o_packet_size := [[3]]\<rparr>) 0 1 0 0 (idle_manager :: (unit, unit, unit) traffic_manager) =
      Some t' \<and> t_cur_pid t' = 1 \<and> length (t_partial t' ! 0 ! 0) = 3"
proof -
  let ?C = "example_options\<lparr>o_packet_size := [[3]]\<rparr>" and ?t = "idle_manager :: (unit, unit, unit) traffic_manager"
  have "GeneratePacket ?C 0 1 0 0 ?t \<noteq> None" by code_simp
  then obtain t' where t': "GeneratePacket ?C 0 1 0 0 ?t = Some t'" by auto
  have "snd (packet_kind ?C 0 1 0 ?t) = 3" by code_simp
  then have "t_cur_pid t' = 1 \<and> length (t_partial t' ! 0 ! 0) = 3"
    using packet_is_well_formed [OF t'] by (auto simp: idle_manager_def put2_def)
  then show ?thesis using t' by blast
qed

end
