(* ===== verification/Traffic_Step.thy ===== *)
theory Traffic_Step
  imports Traffic_Manager Power_FSM
begin

text \<open>
  One cycle of the simulation: \<open>_RetireFlit\<close> and \<open>_Step\<close> of
  src/booksim2/src/flovtrafficmanager.cpp in its phases, in order: the nodes' votes on the policy of
  the routers, idle routers and wake-up calls, ejection, injection, retirement, and the networks' own
  cycle; then \<open>_ClearStats\<close> and the loops of \<open>Run\<close> that empty the network (trafficmanager.cpp).
\<close>

definition on_router ::
  "(flov_router \<Rightarrow> flov_router) \<Rightarrow> nat \<Rightarrow> ('v, 'w, 'x) network \<Rightarrow> ('v, 'w, 'x) network" where
  "on_router f n net = net\<lparr>routers := bump f n (routers net)\<rparr>"

definition on_net ::
  "nat \<Rightarrow> (('v, 'w, 'x) network \<Rightarrow> ('v, 'w, 'x) network option) \<Rightarrow> ('v, 'w, 'x) traffic_manager
     \<Rightarrow> ('v, 'w, 'x) traffic_manager option" where
  "on_net s f t = map_option (\<lambda>net. t\<lparr>t_net := (t_net t)[s := net]\<rparr>) (f (t_net t ! s))"

text \<open>For evaluation: a network's operation is run on the network itself, not symbolically.\<close>

lemma on_net_code [code]:
  "on_net s f t =
     (if s < length (t_net t) then map_option (\<lambda>net. t\<lparr>t_net := (t_net t)[s := net]\<rparr>) (f (t_net t ! s))
      else map_option (\<lambda>net. t\<lparr>t_net := (t_net t)[s := net]\<rparr>) (f (t_net t ! s)))"
  by (simp add: on_net_def)

subsection \<open>Votes\<close>

definition vote_of :: "tm_options \<Rightarrow> stats \<Rightarrow> int" where
  "vote_of C s = (if Average s < o_plat_low C then 1 else if Average s > o_plat_high C then -1 else 0)"

text \<open>Node (\<open>row\<close>, \<open>col\<close>), in the row or the column whose turn it is, votes for the other nodes of that row
  or column and for itself.\<close>

definition cast_votes ::
  "tm_options \<Rightarrow> int \<Rightarrow> nat \<Rightarrow> nat \<Rightarrow> ('v, 'w, 'x) traffic_manager \<Rightarrow> ('v, 'w, 'x) traffic_manager" where
  "cast_votes C whose row col t =
     (let k = o_k C; n = row * k + col; s = t_per_node_plat t ! n; vote = vote_of C s;
          add = bump (\<lambda>v. v + vote);
          vs1 = (if int row = whose
                 then fold (\<lambda>c vs. if c = col then vs else add (row * k + c) vs) [0..<k] (t_votes t)
                 else t_votes t);
          vs2 = (if int col = whose
                 then fold (\<lambda>r vs. if r = row then vs else add (r * k + col) vs) [0..<k] vs1
                 else vs1)
      in if \<not> (int row = whose \<or> int col = whose) \<or> num_samples s = 0 then t
         else t\<lparr>t_votes := add n vs2, t_per_node_plat := bump Stats_Clear n (t_per_node_plat t)\<rparr>)"

definition apply_vote ::
  "tm_options \<Rightarrow> nat \<Rightarrow> ('v, 'w, 'x) traffic_manager \<Rightarrow> ('v, 'w, 'x) traffic_manager" where
  "apply_vote C n t =
     (let cleared = t\<lparr>t_votes := (t_votes t)[n := 0]\<rparr>
      in if o_nodes C - o_k C \<le> n then cleared
         else if t_votes t ! n > 0
         then cleared\<lparr>t_net := bump (on_router AggressFLOVPolicy n) 0 (t_net t)\<rparr>
         else if t_votes t ! n < 0
         then cleared\<lparr>t_net := bump (on_router (RegressFLOVPolicy (o_k C)) n) 0 (t_net t)\<rparr>
         else cleared)"

definition adapt_policies ::
  "tm_options \<Rightarrow> ('v, 'w, 'x) traffic_manager \<Rightarrow> ('v, 'w, 'x) traffic_manager option" where
  "adapt_policies C t =
     (if o_powergate_type C \<noteq> ''flov'' then Some t
      else if o_monitor_epoch C = 0 then None
      else if t_monitor_counter t sdiv o_monitor_epoch C \<le> 0 then Some t
      else
        let k = o_k C; whose = t_monitor_counter t smod o_monitor_epoch C;
            t1 = fold (\<lambda>row. fold (cast_votes C whose row) [0..<k]) [0..<k] t
        in Some (if whose = int k
                 then (fold (apply_vote C) [0..<o_nodes C] t1)\<lparr>t_monitor_counter := 0\<rparr> else t1))"

subsection \<open>Idle routers and wake-up calls\<close>

definition inject_busy :: "tm_options \<Rightarrow> nat \<Rightarrow> ('v, 'w, 'x) traffic_manager \<Rightarrow> bool" where
  "inject_busy C n t = (\<exists>c \<in> set [0..<o_classes C]. t_partial t ! n ! c \<noteq> [])"

definition node_idle :: "tm_options \<Rightarrow> nat \<Rightarrow> ('v, 'w, 'x) traffic_manager \<Rightarrow> bool" where
  "node_idle C n t =
     (\<forall>s \<in> set [0..<o_subnets C]. \<not> inject_busy C n t \<and> ReadFlit n (t_net t ! s) = None)"

text \<open>The histograms are as long as the longest idle period seen, and 10 more.\<close>

definition count_idle_period ::
  "nat \<Rightarrow> nat \<Rightarrow> tm_stats \<Rightarrow> tm_stats" where
  "count_idle_period n cur s =
     (let s1 = (if cur \<ge> length (s_overall_idle_cycles s ! n)
                then s\<lparr>s_idle_cycles := map (resize (cur + 10) 0) (s_idle_cycles s),
                       s_overall_idle_cycles := map (resize (cur + 10) 0) (s_overall_idle_cycles s)\<rparr>
                else s);
          add = (\<lambda>i xss. put2 n i (xss ! n ! i + 1) xss);
          s2 = (if cur \<noteq> 0
                then s1\<lparr>s_idle_cycles := add 0 (s_idle_cycles s1),
                        s_overall_idle_cycles := add 0 (s_overall_idle_cycles s1)\<rparr>
                else s1)
      in s2\<lparr>s_idle_cycles := add cur (s_idle_cycles s2),
            s_overall_idle_cycles := add cur (s_overall_idle_cycles s2)\<rparr>)"

definition check_idle ::
  "tm_options \<Rightarrow> nat \<Rightarrow> ('v, 'w, 'x) traffic_manager \<Rightarrow> ('v, 'w, 'x) traffic_manager" where
  "check_idle C n t =
     (if node_idle C n t
      then t\<lparr>t_net := map (on_router IdleDetected n) (t_net t),
             t_idle_periods := bump Suc n (t_idle_periods t)\<rparr>
      else t\<lparr>t_net := map (on_router WakeUp n) (t_net t),
             t_stats := count_idle_period n (t_idle_periods t ! n) (t_stats t),
             t_idle_periods := (t_idle_periods t)[n := 0]\<rparr>)"

subsection \<open>Ejection\<close>

text \<open>What node \<open>n\<close> takes from subnet \<open>s\<close>: a flit, kept in \<open>flits\<close> until it is retired, and a credit.\<close>

definition measuring :: "('v, 'w, 'x) traffic_manager \<Rightarrow> bool" where
  "measuring t \<longleftrightarrow> t_sim_state t = warming_up \<or> t_sim_state t = running"

definition count_accepted :: "nat \<Rightarrow> flit \<Rightarrow> tm_stats \<Rightarrow> tm_stats" where
  "count_accepted n f s =
     (let c = nat (f_cl f); add = (\<lambda>xss. put2 c n (xss ! c ! n + 1) xss)
      in s\<lparr>s_accepted_flits := add (s_accepted_flits s),
           s_accepted_packets := (if f_tail f then add (s_accepted_packets s) else s_accepted_packets s)\<rparr>)"

definition eject_node ::
  "nat \<Rightarrow> nat \<Rightarrow> (nat \<times> flit) list \<times> ('v, 'w, 'x) traffic_manager
     \<Rightarrow> ((nat \<times> flit) list \<times> ('v, 'w, 'x) traffic_manager) option" where
  "eject_node s n st = (case st of (flits, t) \<Rightarrow>
     let (flits1, t1) =
           (case ReadFlit n (t_net t ! s) of
              None \<Rightarrow> (flits, t)
            | Some f \<Rightarrow> (flits @ [(n, f)],
                if measuring t then t\<lparr>t_stats := count_accepted n f (t_stats t)\<rparr> else t))
     in case ReadCredit n (t_net t ! s) of
          None \<Rightarrow> Some (flits1, t1)
        | Some c \<Rightarrow> map_option (\<lambda>bs. (flits1, t1\<lparr>t_buf_states := put2 n s bs (t_buf_states t1)\<rparr>))
            (ProcessCredit (int (t_time t)) c (t_buf_states t1 ! n ! s)))"

definition eject_subnet ::
  "tm_options \<Rightarrow> nat \<Rightarrow> (nat \<times> flit) list list \<times> ('v, 'w, 'x) traffic_manager
     \<Rightarrow> ((nat \<times> flit) list list \<times> ('v, 'w, 'x) traffic_manager) option" where
  "eject_subnet C s st = (case st of (fss, t) \<Rightarrow> do {
     (flits, t1) \<leftarrow> foldM (eject_node s) [0..<o_nodes C] ([], t);
     t2 \<leftarrow> on_net s (Network_ReadInputs (t_time t1)) t1;
     Some (fss @ [flits], t2)
   })"

subsection \<open>Injection\<close>

definition first_flit :: "nat \<Rightarrow> nat \<Rightarrow> ('v, 'w, 'x) traffic_manager \<Rightarrow> flit" where
  "first_flit n c t = hd (t_partial t ! n ! c)"

definition set_first :: "nat \<Rightarrow> nat \<Rightarrow> flit \<Rightarrow> ('v, 'w, 'x) traffic_manager \<Rightarrow> ('v, 'w, 'x) traffic_manager" where
  "set_first n c f t = t\<lparr>t_partial := put2 n c (f # tl (t_partial t ! n ! c)) (t_partial t)\<rparr>"

text \<open>The router the injection channel of node \<open>n\<close> leads to, and the port it arrives at.\<close>

definition attached :: "nat \<Rightarrow> nat \<Rightarrow> ('v, 'w, 'x) traffic_manager \<Rightarrow> (nat \<times> nat) option" where
  "attached s n t = sink (inject (t_net t ! s) ! n)"

definition attached_router :: "nat \<Rightarrow> nat \<Rightarrow> ('v, 'w, 'x) traffic_manager \<Rightarrow> flov_router" where
  "attached_router s v t = routers (t_net t ! s) ! v"

text \<open>A node with a flit for a router that is not on waits one cycle, then calls \<open>WakeUp\<close>.\<close>

definition call_wakeup ::
  "nat \<Rightarrow> nat \<Rightarrow> nat \<Rightarrow> ('v, 'w, 'x) traffic_manager \<Rightarrow> ('v, 'w, 'x) traffic_manager" where
  "call_wakeup s n v t =
     (if t_wakeup_latency t ! n
      then t\<lparr>t_net := bump (on_router WakeUp v) s (t_net t),
             t_wakeup_latency := (t_wakeup_latency t)[n := False]\<rparr>
      else t\<lparr>t_wakeup_latency := (t_wakeup_latency t)[n := True]\<rparr>)"

text \<open>The loop over the VCs: the first that is free and not full, looking from \<open>last_vc\<close> on.  When
  \<open>last_vc\<close> is outside the range, every turn looks at \<open>vc_start\<close>.\<close>

definition vc_candidate :: "int \<Rightarrow> int \<Rightarrow> int \<Rightarrow> int \<Rightarrow> int \<Rightarrow> int" where
  "vc_candidate lvc vs ve share i =
     (if lvc < vs \<or> lvc > ve then vs else vs + (lvc - vs + i) smod share)"

fun choose_vc :: "int \<Rightarrow> buffer_state \<Rightarrow> int \<Rightarrow> int \<Rightarrow> int \<Rightarrow> int \<Rightarrow> int list \<Rightarrow> int option option" where
  "choose_vc now bs lvc vs ve share [] = Some None"
| "choose_vc now bs lvc vs ve share (i # rest) =
     (let vc = vc_candidate lvc vs ve share i in
      if \<not> (vs \<le> vc \<and> vc \<le> ve) then None
      else if \<not> IsAvailableFor (nat vc) bs then choose_vc now bs lvc vs ve share rest
      else do {
        full \<leftarrow> IsFullFor now (nat vc) bs;
        (if full then choose_vc now bs lvc vs ve share rest else Some (Some vc))
      })"

text \<open>With \<open>noq\<close>, the flit's next output port picks a share of the VCs.\<close>

definition noq_share ::
  "tm_options \<Rightarrow> flov_router \<Rightarrow> nat \<Rightarrow> set_element \<Rightarrow> flit \<Rightarrow> (flit \<times> int \<times> int \<times> int) option" where
  "noq_share C r p se f = do {
     assertion (o_lookahead C);
     la \<leftarrow> o_route C r (f\<lparr>f_vc := vc_start se\<rparr>) p (f_la_route_set f);
     assertion (length la = 1);
     (let next_output = output_port (hd la);
          share = (vc_end se - vc_start se + 1) sdiv int (outputs r);
          vs = vc_start se + next_output * share; ve = vs + share - 1 in do {
        assertion (vc_start se \<le> vs \<and> vs \<le> vc_end se);
        assertion (vc_start se \<le> ve \<and> ve \<le> vc_end se);
        assertion (vs \<le> ve);
        Some (f\<lparr>f_la_route_set := la\<rparr>, vs, ve, share)
      })
   }"

definition find_vc ::
  "tm_options \<Rightarrow> nat \<Rightarrow> nat \<Rightarrow> nat \<Rightarrow> flov_router \<Rightarrow> nat \<Rightarrow> ('v, 'w, 'x) traffic_manager
     \<Rightarrow> ('v, 'w, 'x) traffic_manager option" where
  "find_vc C s n c r p t =
     (let f = first_flit n c t in do {
        os \<leftarrow> o_inject_route C f;
        assertion (length os = 1);
        (let se = hd os in do {
           assertion (output_port se = -1);
           (f1, vs, ve, share) \<leftarrow>
             (if o_noq C then noq_share C r p se f
              else Some (f, vc_start se, vc_end se, vc_end se - vc_start se + 1));
           chosen \<leftarrow> choose_vc (int (t_time t)) (t_buf_states t ! n ! s) (t_last_vc t ! n ! s ! c)
             vs ve share [1..share];
           Some (set_first n c (case chosen of None \<Rightarrow> f1 | Some vc \<Rightarrow> f1\<lparr>f_vc := vc\<rparr>) t)
         })
      })"

text \<open>The end of the loop body over the classes: a flit with a VC that is not full is the candidate.\<close>

definition consider_flit ::
  "nat \<Rightarrow> nat \<Rightarrow> nat \<Rightarrow> nat option \<Rightarrow> ('v, 'w, 'x) traffic_manager
     \<Rightarrow> (nat option \<times> bool \<times> ('v, 'w, 'x) traffic_manager) option" where
  "consider_flit s n c best t =
     (let cf = first_flit n c t in
      if f_vc cf = -1 then Some (best, False, t)
      else do {
        full \<leftarrow> IsFullFor (int (t_time t)) (nat (f_vc cf)) (t_buf_states t ! n ! s);
        Some (if full then best else Some c, False, t)
      })"

text \<open>One turn of the loop over the classes; the boolean says that it has been left by \<open>break\<close>.\<close>

definition try_class ::
  "tm_options \<Rightarrow> nat \<Rightarrow> nat \<Rightarrow> nat \<Rightarrow> nat \<Rightarrow> nat option \<times> bool \<times> ('v, 'w, 'x) traffic_manager
     \<Rightarrow> (nat option \<times> bool \<times> ('v, 'w, 'x) traffic_manager) option" where
  "try_class C s n lc i st = (case st of (best, left, t) \<Rightarrow>
     if left then Some st
     else
       let c = (lc + i) mod o_classes C in
       case t_partial t ! n ! c of
         [] \<Rightarrow> Some st
       | cf # _ \<Rightarrow> do {
           assertion (f_cl cf = int c);
           (if f_subnetwork cf \<noteq> int s then Some st
            else if (case best of None \<Rightarrow> False | Some b \<Rightarrow> f_pri (first_flit n b t) \<ge> f_pri cf) then Some st
            else if f_head cf \<and> f_vc cf = -1 then do {
              (v, p) \<leftarrow> attached s n t;
              (if power_state (attached_router s v t) \<noteq> power_on
               then Some (best, True, call_wakeup s n v t)
               else do {
                 t1 \<leftarrow> find_vc C s n c (attached_router s v t) p
                         (t\<lparr>t_wakeup_latency := (t_wakeup_latency t)[n := False]\<rparr>);
                 consider_flit s n c best t1 })
            }
            else consider_flit s n c best t)
         })"

text \<open>With \<open>hold_switch_for_packet\<close>, the packet that is being sent goes on first.\<close>

definition held_class ::
  "tm_options \<Rightarrow> nat \<Rightarrow> nat \<Rightarrow> ('v, 'w, 'x) traffic_manager \<Rightarrow> nat option option" where
  "held_class C s n t =
     (let lc = t_last_class t ! n ! s in
      if \<not> o_hold_switch C then Some None
      else case t_partial t ! n ! lc of
             [] \<Rightarrow> Some None
           | f # _ \<Rightarrow>
               if f_head f then Some None
               else do {
                 full \<leftarrow> IsFullFor (int (t_time t)) (nat (f_vc f)) (t_buf_states t ! n ! s);
                 (if full then Some None
                  else do { assertion (f_vc f = t_last_vc t ! n ! s ! lc); Some (Some lc) })
               })"

text \<open>A head flit that is about to go: the router must be on; the VC is taken.\<close>

definition open_packet ::
  "tm_options \<Rightarrow> nat \<Rightarrow> nat \<Rightarrow> nat \<Rightarrow> nat \<Rightarrow> nat \<Rightarrow> ('v, 'w, 'x) traffic_manager
     \<Rightarrow> ('v, 'w, 'x) traffic_manager option" where
  "open_packet C s n c v p t =
     (let f = first_flit n c t in do {
        f1 \<leftarrow> (if o_lookahead C
              then (if \<not> o_noq C
                    then map_option (\<lambda>la. f\<lparr>f_la_route_set := la\<rparr>)
                           (o_route C (attached_router s v t) f p (f_la_route_set f))
                    else Some f)
              else Some (f\<lparr>f_la_route_set := Clear (f_la_route_set f)\<rparr>));
        bs \<leftarrow> TakeBuffer (nat (f_vc f1)) 0 (t_buf_states t ! n ! s);
        Some ((set_first n c f1 t)\<lparr>t_buf_states := put2 n s bs (t_buf_states t),
                t_last_vc := put3 n s c (f_vc f1) (t_last_vc t)\<rparr>)
      })"

definition count_sent :: "nat \<Rightarrow> nat \<Rightarrow> flit \<Rightarrow> tm_stats \<Rightarrow> tm_stats" where
  "count_sent c n f s =
     (let add = (\<lambda>xss. put2 c n (xss ! c ! n + 1) xss)
      in s\<lparr>s_sent_flits := add (s_sent_flits s),
           s_sent_packets := (if f_head f then add (s_sent_packets s) else s_sent_packets s)\<rparr>)"

definition send_flit ::
  "tm_options \<Rightarrow> nat \<Rightarrow> nat \<Rightarrow> nat \<Rightarrow> ('v, 'w, 'x) traffic_manager
     \<Rightarrow> ('v, 'w, 'x) traffic_manager option" where
  "send_flit C s n c t =
     (let f = first_flit n c t; rest = tl (t_partial t ! n ! c) in do {
        bs \<leftarrow> SendingFlit (int (t_time t)) f (t_buf_states t ! n ! s);
        pri \<leftarrow> (if o_pri_type C = network_age_based
               then (if INT_MAX - int (t_time t) \<ge> 0 then Some (INT_MAX - int (t_time t)) else None)
               else Some (f_pri f));
        (let f1 = f\<lparr>f_pri := pri, f_itime := int (t_time t)\<rparr>;
             rest1 = (case rest of [] \<Rightarrow> [] | nf # fs \<Rightarrow>
                        (if f_tail f then nf else nf\<lparr>f_vc := f_vc f\<rparr>) # fs);
             t1 = t\<lparr>t_last_class := put2 n s c (t_last_class t),
                    t_buf_states := put2 n s bs (t_buf_states t),
                    t_partial := put2 n c rest1 (t_partial t),
                    t_stats := (if measuring t then count_sent c n f (t_stats t) else t_stats t)\<rparr>
         in on_net s (WriteFlit (Some f1) n) t1)
      })"

text \<open>The part of the loop body over the nodes that runs when there is a candidate; the boolean says that
  \<open>break\<close> has left the loop over the nodes.\<close>

definition send_best ::
  "tm_options \<Rightarrow> nat \<Rightarrow> nat \<Rightarrow> nat \<Rightarrow> ('v, 'w, 'x) traffic_manager
     \<Rightarrow> (bool \<times> ('v, 'w, 'x) traffic_manager) option" where
  "send_best C s n b t =
     (let f = first_flit n b t; c = nat (f_cl f) in do {
        assertion (f_subnetwork f = int s);
        (if f_head f then do {
           (v, p) \<leftarrow> attached s n t;
           (if power_state (attached_router s v t) \<noteq> power_on
            then Some (True, call_wakeup s n v t)
            else do {
              t1 \<leftarrow> open_packet C s n c v p (t\<lparr>t_wakeup_latency := (t_wakeup_latency t)[n := False]\<rparr>);
              t2 \<leftarrow> send_flit C s n c t1;
              Some (False, t2) })
         }
         else map_option (Pair False) (send_flit C s n c t))
      })"

definition inject_node ::
  "tm_options \<Rightarrow> nat \<Rightarrow> nat \<Rightarrow> bool \<times> ('v, 'w, 'x) traffic_manager
     \<Rightarrow> (bool \<times> ('v, 'w, 'x) traffic_manager) option" where
  "inject_node C s n st = (case st of (left, t) \<Rightarrow>
     if left then Some st
     else do {
       held \<leftarrow> held_class C s n t;
       (best, _, t1) \<leftarrow> foldM (try_class C s n (t_last_class t ! n ! s))
          [1..<Suc (if held = None then o_classes C else o_classes C - 1)] (held, False, t);
       (case best of None \<Rightarrow> Some (False, t1) | Some b \<Rightarrow> send_best C s n b t1)
     })"

definition inject_subnet ::
  "tm_options \<Rightarrow> nat \<Rightarrow> ('v, 'w, 'x) traffic_manager \<Rightarrow> ('v, 'w, 'x) traffic_manager option" where
  "inject_subnet C s t = map_option snd (foldM (inject_node C s) [0..<o_nodes C] (False, t))"

subsection \<open>Retirement\<close>

text \<open>The head of the packet whose tail \<open>f\<close> is.\<close>

definition take_head :: "flit \<Rightarrow> ('v, 'w, 'x) traffic_manager \<Rightarrow> (flit \<times> ('v, 'w, 'x) traffic_manager) option" where
  "take_head f t =
     (if f_head f then Some (f, t)
      else
        let c = nat (f_cl f); pid = nat (f_pid f) in do {
          h \<leftarrow> map_of (t_retired t ! c) pid;
          assertion (f_head h);
          assertion (f_pid f = f_pid h);
          Some (h, t\<lparr>t_retired := bump (om_erase pid) c (t_retired t)\<rparr>)
        })"

text \<open>A request is answered by a reply, later; other packets end their request.\<close>

definition answer :: "flit \<Rightarrow> nat \<Rightarrow> ('v, 'w, 'x) traffic_manager \<Rightarrow> ('v, 'w, 'x) traffic_manager" where
  "answer f dst t =
     (case f_type f of
        READ_REQUEST \<Rightarrow> t\<lparr>t_replies := bump (\<lambda>rs. rs @
          [\<lparr>r_source = f_src f, r_time = f_atime f, r_record = f_record f, r_type = f_type f\<rparr>]) dst (t_replies t)\<rparr>
      | WRITE_REQUEST \<Rightarrow> t\<lparr>t_replies := bump (\<lambda>rs. rs @
          [\<lparr>r_source = f_src f, r_time = f_atime f, r_record = f_record f, r_type = f_type f\<rparr>]) dst (t_replies t)\<rparr>
      | READ_REPLY \<Rightarrow> t\<lparr>t_requests := bump (\<lambda>n. n - 1) dst (t_requests t)\<rparr>
      | WRITE_REPLY \<Rightarrow> t\<lparr>t_requests := bump (\<lambda>n. n - 1) dst (t_requests t)\<rparr>
      | ANY_TYPE \<Rightarrow> t\<lparr>t_requests := bump (\<lambda>n. n - 1) (nat (f_src f)) (t_requests t)\<rparr>)"

definition is_slowest :: "int \<Rightarrow> stats \<Rightarrow> int \<Rightarrow> bool" where
  "is_slowest cur s lat \<longleftrightarrow> cur < 0 \<or> (case st_max s of None \<Rightarrow> False | Some m \<Rightarrow> m < of_int lat)"

definition sample :: "int \<Rightarrow> nat \<Rightarrow> stats list \<Rightarrow> stats list" where
  "sample x c ss = bump (AddSample (of_int x)) c ss"

definition flit_sample :: "flit \<Rightarrow> tm_stats \<Rightarrow> tm_stats" where
  "flit_sample f s =
     (let c = nat (f_cl f); lat = f_atime f - f_itime f
      in s\<lparr>s_slowest_flit := (if is_slowest (s_slowest_flit s ! c) (s_flat s ! c) lat
                              then (s_slowest_flit s)[c := f_id f] else s_slowest_flit s),
           s_flat := sample lat c (s_flat s)\<rparr>)"

definition packet_sample :: "flit \<Rightarrow> flit \<Rightarrow> tm_stats \<Rightarrow> tm_stats" where
  "packet_sample f h s =
     (let c = nat (f_cl f)
      in s\<lparr>s_hop := sample (f_hops f) c (s_hop s),
           s_flov_hop := sample (f_flov_hops f) c (s_flov_hop s),
           s_slowest_packet := (if is_slowest (s_slowest_packet s ! c) (s_plat s ! c) (f_atime f - f_itime h)
                                then (s_slowest_packet s)[c := f_pid f] else s_slowest_packet s),
           s_plat := sample (f_atime f - f_ctime h) c (s_plat s),
           s_nlat := sample (f_atime f - f_itime h) c (s_nlat s),
           s_frag := sample ((f_atime f - f_atime h) - (f_id f - f_id h)) c (s_frag s)\<rparr>)"

definition retire_tail ::
  "flit \<Rightarrow> nat \<Rightarrow> ('v, 'w, 'x) traffic_manager \<Rightarrow> ('v, 'w, 'x) traffic_manager option" where
  "retire_tail f dst t = do {
     (h, t1) \<leftarrow> take_head f t;
     (let t2 = answer f dst t1
      in Some (if t_sim_state t2 = warming_up \<or> f_record f
               then t2\<lparr>t_per_node_plat := sample (f_atime f - f_ctime h) dst (t_per_node_plat t2),
                       t_stats := packet_sample f h (t_stats t2)\<rparr>
               else t2))
   }"

definition RetireFlit ::
  "flit \<Rightarrow> nat \<Rightarrow> ('v, 'w, 'x) traffic_manager \<Rightarrow> ('v, 'w, 'x) traffic_manager option" where
  "RetireFlit f dst t =
     (let c = nat (f_cl f); x = nat (f_id f) in do {
        assertion (x \<in> set (t_in_flight t ! c));
        assertion (f_record f \<longrightarrow> x \<in> set (t_measured t ! c));
        assertion (\<not> (f_head f \<and> f_dest f \<noteq> int dst));
        (let t1 = t\<lparr>t_deadlock_timer := 0, t_in_flight := bump (removeAll x) c (t_in_flight t),
                    t_measured := (if f_record f then bump (removeAll x) c (t_measured t) else t_measured t),
                    t_stats := flit_sample f (t_stats t)\<rparr> in do {
           t2 \<leftarrow> (if f_tail f then retire_tail f dst t1 else Some t1);
           Some (if f_head f \<and> \<not> f_tail f
                 then t2\<lparr>t_retired := bump (om_insert (nat (f_pid f)) f) c (t_retired t2)\<rparr> else t2)
         })
      })"

definition retire_node ::
  "nat \<Rightarrow> nat \<times> flit \<Rightarrow> ('v, 'w, 'x) traffic_manager \<Rightarrow> ('v, 'w, 'x) traffic_manager option" where
  "retire_node s nf t = (case nf of (n, f0) \<Rightarrow>
     let f = f0\<lparr>f_atime := int (t_time t)\<rparr> in do {
       t1 \<leftarrow> on_net s (WriteCredit (Some (Credit_New\<lparr>c_vc := [nat (f_vc f)]\<rparr>)) n) t;
       RetireFlit f n t1
     })"

subsection \<open>The cycle\<close>

text \<open>\<open>env s\<close> and \<open>M\<close> are what the routers of subnet \<open>s\<close> see of their neighbours and the allocators they
  use.\<close>

definition finish_subnet ::
  "(nat \<Rightarrow> nat \<Rightarrow> flov_router router_env) \<Rightarrow> ('v, 'w, 'x) alloc_methods \<Rightarrow> (nat \<times> flit) list list \<Rightarrow> nat
     \<Rightarrow> ('v, 'w, 'x) traffic_manager \<Rightarrow> ('v, 'w, 'x) traffic_manager option" where
  "finish_subnet env M flits s t = do {
     t1 \<leftarrow> foldM (retire_node s) (flits ! s) t;
     t2 \<leftarrow> on_net s (Network_PowerStateEvaluate (t_time t1)) t1;
     t3 \<leftarrow> on_net s (Network_Evaluate (env s) M (t_time t2)) t2;
     on_net s (Network_WriteOutputs (t_time t3)) t3
   }"

definition flits_left :: "('v, 'w, 'x) traffic_manager \<Rightarrow> bool" where
  "flits_left t \<longleftrightarrow> (\<exists>ids \<in> set (t_in_flight t). ids \<noteq> [])"

definition watch_deadlock ::
  "tm_options \<Rightarrow> ('v, 'w, 'x) traffic_manager \<Rightarrow> ('v, 'w, 'x) traffic_manager" where
  "watch_deadlock C t =
     (if flits_left t
      then (if t_deadlock_timer t \<ge> o_deadlock_warn C then t\<lparr>t_deadlock_timer := 0\<rparr>
            else t\<lparr>t_deadlock_timer := t_deadlock_timer t + 1\<rparr>)
      else t)"

definition Step ::
  "tm_options \<Rightarrow> (nat \<Rightarrow> nat \<Rightarrow> flov_router router_env) \<Rightarrow> ('v, 'w, 'x) alloc_methods
     \<Rightarrow> ('v, 'w, 'x) traffic_manager \<Rightarrow> ('v, 'w, 'x) traffic_manager option" where
  "Step C env M t0 = do {
     t1 \<leftarrow> adapt_policies C (watch_deadlock C t0);
     (let t2 = fold (check_idle C) [0..<o_nodes C] t1 in do {
        (flits, t3) \<leftarrow> foldM (eject_subnet C) [0..<o_subnets C] ([], t2);
        t4 \<leftarrow> (if t_empty_network t3 then Some t3 else Inject_packets C t3);
        t5 \<leftarrow> foldM (inject_subnet C) [0..<o_subnets C] t4;
        t6 \<leftarrow> foldM (finish_subnet env M flits) [0..<o_subnets C] t5;
        Some (t6\<lparr>t_monitor_counter := t_monitor_counter t6 + 1, t_time := Suc (t_time t6)\<rparr>)
      })
   }"

subsection \<open>Running\<close>

definition ClearStats ::
  "tm_options \<Rightarrow> ('v, 'w, 'x) traffic_manager \<Rightarrow> ('v, 'w, 'x) traffic_manager" where
  "ClearStats C t =
     (let zeros = replicate (o_classes C) (replicate (o_nodes C) 0); s = t_stats t
      in t\<lparr>t_stats := s\<lparr>
             s_slowest_flit := replicate (o_classes C) (-1),
             s_slowest_packet := replicate (o_classes C) (-1),
             s_plat := map Stats_Clear (s_plat s), s_nlat := map Stats_Clear (s_nlat s),
             s_flat := map Stats_Clear (s_flat s), s_frag := map Stats_Clear (s_frag s),
             s_sent_packets := zeros, s_accepted_packets := zeros, s_sent_flits := zeros,
             s_accepted_flits := zeros, s_hop := map Stats_Clear (s_hop s),
             s_flov_hop := map Stats_Clear (s_flov_hop s)\<rparr>,
           t_reset_time := t_time t\<rparr>)"

text \<open>\<open>_PacketsOutstanding\<close>.\<close>

definition PacketsOutstanding :: "tm_options \<Rightarrow> ('v, 'w, 'x) traffic_manager \<Rightarrow> bool" where
  "PacketsOutstanding C t =
     (\<exists>c \<in> set [0..<o_classes C]. o_measure C ! c \<and>
        (t_measured t ! c \<noteq> [] \<or> (\<exists>s \<in> set [0..<o_nodes C]. \<not> t_qdrained t ! s ! c)))"

text \<open>The loop of \<open>Run\<close> that empties the network; it need not end.\<close>

partial_function (option) drain_network ::
  "tm_options \<Rightarrow> (nat \<Rightarrow> nat \<Rightarrow> flov_router router_env) \<Rightarrow> ('v, 'w, 'x) alloc_methods
     \<Rightarrow> ('v, 'w, 'x) traffic_manager \<Rightarrow> ('v, 'w, 'x) traffic_manager option" where
  "drain_network C env M t =
     (if flits_left t then do { t1 \<leftarrow> Step C env M t; drain_network C env M t1 } else Some t)"

declare drain_network.simps [code]

end
