(* ===== verification/Traffic_Packets.thy ===== *)
theory Traffic_Packets
  imports Traffic_Step Network_Conservation
begin

text \<open>
  The books of the traffic manager: \<open>_total_in_flight_flits\<close> holds exactly the flits that wait at the
  nodes or are in the networks, by class and number.  This theory follows them through the making of
  packets and the injection of flits.
\<close>

subsection \<open>What is counted\<close>

definition tag :: "flit \<Rightarrow> nat \<times> nat" where
  "tag f = (nat (f_cl f), nat (f_id f))"

lemma tag_who [simp]: "tag (who f) = tag f"
  by (simp add: tag_def who_def)

lemma tag_updates [simp]:
  "tag (f\<lparr>f_vc := i\<rparr>) = tag f" "tag (f\<lparr>f_itime := i\<rparr>) = tag f" "tag (f\<lparr>f_atime := i\<rparr>) = tag f"
  "tag (f\<lparr>f_pri := i\<rparr>) = tag f" "tag (f\<lparr>f_la_route_set := os\<rparr>) = tag f"
  by (simp_all add: tag_def)

type_synonym tags = "(nat \<times> nat) multiset"

definition queue_tags :: "flit list \<Rightarrow> tags" where
  "queue_tags q = image_mset tag (mset q)"

lemma queue_tags_simps [simp]:
  "queue_tags [] = {#}" "queue_tags (f # q) = add_mset (tag f) (queue_tags q)"
  "queue_tags (q @ r) = queue_tags q + queue_tags r"
  by (simp_all add: queue_tags_def)

definition waiting :: "flit list list list \<Rightarrow> tags" where
  "waiting pp = (\<Sum>row\<leftarrow>pp. \<Sum>q\<leftarrow>row. queue_tags q)"

definition known :: "nat list list \<Rightarrow> tags" where
  "known xss = (\<Sum>c<length xss. image_mset (Pair c) (mset (xss ! c)))"

lemma swap_cancel:
  fixes a b q r x y :: "'b :: cancel_comm_monoid_add"
  assumes "a + x = b + y" and "y + q = x + r"
  shows "a + q = b + r"
proof -
  have "(a + q) + x = (a + x) + q" by (simp add: ac_simps)
  also have "\<dots> = b + (y + q)" by (simp only: assms(1) add.assoc)
  also have "\<dots> = b + (x + r)" by (simp only: assms(2))
  also have "\<dots> = (b + r) + x" by (simp only: ac_simps)
  finally show ?thesis by simp
qed

lemma waiting_put:
  assumes "n < length pp" and "c < length (pp ! n)"
  shows "waiting (put2 n c q pp) + queue_tags (pp ! n ! c) = waiting pp + queue_tags q"
proof -
  have "waiting (put2 n c q pp) + (\<Sum>q\<leftarrow>pp ! n. queue_tags q) =
      waiting pp + (\<Sum>q\<leftarrow>(pp ! n)[c := q]. queue_tags q)"
    unfolding waiting_def put2_def by (rule sum_list_update_add [OF assms(1)])
  moreover have "(\<Sum>q\<leftarrow>(pp ! n)[c := q]. queue_tags q) + queue_tags (pp ! n ! c) =
      (\<Sum>q\<leftarrow>pp ! n. queue_tags q) + queue_tags q"
    by (rule sum_list_update_add [OF assms(2)])
  ultimately show ?thesis by (rule swap_cancel)
qed

lemma sum_at:
  fixes G H :: "nat \<Rightarrow> 'b :: cancel_comm_monoid_add"
  assumes "s < (n::nat)" and "\<And>i. i < n \<Longrightarrow> i \<noteq> s \<Longrightarrow> H i = G i"
  shows "(\<Sum>i<n. H i) + G s = (\<Sum>i<n. G i) + H s"
proof -
  have "(\<Sum>i<n. H i) = H s + (\<Sum>i\<in>{..<n} - {s}. H i)"
    by (rule sum.remove) (use assms(1) in simp_all)
  moreover have "(\<Sum>i<n. G i) = G s + (\<Sum>i\<in>{..<n} - {s}. G i)"
    by (rule sum.remove) (use assms(1) in simp_all)
  moreover have "(\<Sum>i\<in>{..<n} - {s}. H i) = (\<Sum>i\<in>{..<n} - {s}. G i)"
    by (rule sum.cong) (use assms(2) in simp_all)
  ultimately show ?thesis by (simp add: ac_simps)
qed

lemma known_update:
  assumes "c < length xss"
  shows "known (xss[c := ys]) + image_mset (Pair c) (mset (xss ! c)) =
    known xss + image_mset (Pair c) (mset ys)"
  using sum_at [of c "length xss" "\<lambda>i. image_mset (Pair i) (mset (xss[c := ys] ! i))"
      "\<lambda>i. image_mset (Pair i) (mset (xss ! i))"] assms
  by (simp add: known_def)

lemma os_insert_mset: "x \<notin> set s \<Longrightarrow> mset (os_insert x s) = add_mset x (mset s)"
  by (induction s) auto

lemma removeAll_mset: "distinct s \<Longrightarrow> x \<in> set s \<Longrightarrow> add_mset x (mset (removeAll x s)) = mset s"
  by (induction s) (auto simp: add_mset_commute)

lemma known_member: "(c, x) \<in># known xss \<longleftrightarrow> c < length xss \<and> x \<in> set (xss ! c)"
proof -
  have "(c, x) \<in># known xss \<longleftrightarrow> (\<exists>i<length xss. (c, x) \<in># image_mset (Pair i) (mset (xss ! i)))"
    unfolding known_def by (simp add: Bex_def set_mset_sum)
  then show ?thesis by auto
qed

text \<open>The lists of numbers in flight are sets of numbers that have been given out.\<close>

definition given_out :: "nat \<Rightarrow> nat list list \<Rightarrow> bool" where
  "given_out next xss \<longleftrightarrow> (\<forall>xs \<in> set xss. distinct xs \<and> (\<forall>x \<in> set xs. x < next))"

lemma known_insert:
  assumes "given_out x xss" and "c < length xss"
  shows "known (bump (os_insert x) c xss) = add_mset (c, x) (known xss)"
    and "given_out (Suc x) (bump (os_insert x) c xss)"
proof -
  have new: "x \<notin> set (xss ! c)" using assms by (auto simp: given_out_def dest: nth_mem)
  then show "known (bump (os_insert x) c xss) = add_mset (c, x) (known xss)"
    using known_update [OF assms(2), of "os_insert x (xss ! c)"] by (simp add: bump_def os_insert_mset)
  have "distinct (os_insert x (xss ! c))"
    using new assms os_insert_mset [OF new] unfolding given_out_def
    by (metis distinct.simps(2) mset.simps(2) mset_eq_imp_distinct_iff nth_mem)
  then show "given_out (Suc x) (bump (os_insert x) c xss)"
    using assms set_update_subset_insert [of xss c "os_insert x (xss ! c)"]
    unfolding given_out_def bump_def
    by (auto simp: less_Suc_eq dest!: subsetD [OF set_update_subset_insert]) (meson nth_mem)+
qed

lemma known_remove:
  assumes "given_out n xss" and "c < length xss" and "x \<in> set (xss ! c)"
  shows "add_mset (c, x) (known (bump (removeAll x) c xss)) = known xss"
    and "given_out n (bump (removeAll x) c xss)"
proof -
  have d: "distinct (xss ! c)" using assms by (simp add: given_out_def)
  have "known (bump (removeAll x) c xss) + image_mset (Pair c) (mset (xss ! c)) =
      known xss + image_mset (Pair c) (mset (removeAll x (xss ! c)))"
    using known_update [OF assms(2)] by (simp add: bump_def)
  then show "add_mset (c, x) (known (bump (removeAll x) c xss)) = known xss"
    unfolding removeAll_mset [OF d assms(3), symmetric] by simp
  show "given_out n (bump (removeAll x) c xss)"
    using assms unfolding given_out_def bump_def
    by (auto dest!: subsetD [OF set_update_subset_insert] intro: distinct_removeAll) (meson nth_mem)+
qed

subsection \<open>The invariant\<close>

text \<open>Every flit waits in the queue of its class.\<close>

definition filed :: "flit list list list \<Rightarrow> bool" where
  "filed pp \<longleftrightarrow> (\<forall>row \<in> set pp. \<forall>c < length row. \<forall>f \<in> set (row ! c). f_cl f = int c)"

lemma filed_put2:
  assumes "filed pp" and "\<forall>f \<in> set q. f_cl f = int c"
  shows "filed (put2 n c q pp)"
proof (cases "n < length pp")
  case True
  have "\<forall>d < length ((pp ! n)[c := q]). \<forall>f \<in> set ((pp ! n)[c := q] ! d). f_cl f = int d"
  proof (intro allI impI ballI)
    fix d f
    assume d: "d < length ((pp ! n)[c := q])" and f: "f \<in> set ((pp ! n)[c := q] ! d)"
    show "f_cl f = int d"
    proof (cases "d = c")
      case True
      then show ?thesis using d f assms(2) by simp
    next
      case False
      then have "f \<in> set (pp ! n ! d)" using f by simp
      then show ?thesis using d assms(1) nth_mem [OF True] unfolding filed_def by auto
    qed
  qed
  then show ?thesis using assms(1) unfolding filed_def put2_def
    by (auto dest!: subsetD [OF set_update_subset_insert])
qed (use assms(1) in \<open>simp add: put2_def list_update_beyond\<close>)

lemma filedD: "filed pp \<Longrightarrow> n < length pp \<Longrightarrow> c < length (pp ! n) \<Longrightarrow> f \<in> set (pp ! n ! c) \<Longrightarrow> f_cl f = int c"
  unfolding filed_def using nth_mem by blast

definition tm_ok :: "tm_options \<Rightarrow> ('v, 'w, 'x) traffic_manager \<Rightarrow> bool" where
  "tm_ok C t \<longleftrightarrow> length (t_partial t) = o_nodes C \<and>
     (\<forall>row \<in> set (t_partial t). length row = o_classes C) \<and>
     filed (t_partial t) \<and> length (t_last_class t) = o_nodes C \<and>
     (\<forall>row \<in> set (t_last_class t). length row = o_subnets C \<and> (\<forall>c \<in> set row. c < o_classes C)) \<and>
     length (t_in_flight t) = o_classes C \<and> given_out (t_cur_id t) (t_in_flight t) \<and>
     length (t_net t) = o_subnets C \<and> (\<forall>net \<in> set (t_net t). node_count net = o_nodes C)"

text \<open>With \<open>Z\<close> in the networks, the books are right.\<close>

definition books ::
  "tm_options \<Rightarrow> ('v, 'w, 'x) network list \<Rightarrow> tags \<Rightarrow> ('v, 'w, 'x) traffic_manager \<Rightarrow> bool" where
  "books C N Z t \<longleftrightarrow> tm_ok C t \<and> t_net t = N \<and> known (t_in_flight t) = waiting (t_partial t) + Z"

text \<open>The part of the state the books are about.\<close>

definition book :: "('v, 'w, 'x) traffic_manager \<Rightarrow>
    flit list list list \<times> nat list list \<times> nat list list \<times> nat \<times> ('v, 'w, 'x) network list" where
  "book t = (t_partial t, t_last_class t, t_in_flight t, t_cur_id t, t_net t)"

lemma books_cong: "book t' = book t \<Longrightarrow> books C N Z t' = books C N Z t"
  by (simp add: books_def tm_ok_def book_def)

lemma tm_ok_row: "tm_ok C t \<Longrightarrow> n < o_nodes C \<Longrightarrow> length (t_partial t ! n) = o_classes C"
  by (simp add: tm_ok_def)

lemma rows_put2:
  assumes "\<forall>row \<in> set pp. length row = m"
  shows "\<forall>row \<in> set (put2 n c q pp). length row = m"
proof (cases "n < length pp")
  case True
  then show ?thesis using assms
    by (auto simp: put2_def dest!: subsetD [OF set_update_subset_insert])
qed (simp add: put2_def assms list_update_beyond)

subsection \<open>Making packets\<close>

lemma IssuePacket_book:
  assumes "IssuePacket C src cl t = Some (stype, t')"
  shows "book t' = book t"
  using assms unfolding IssuePacket_def book_def
  by (auto simp: Let_def split: if_splits list.splits prod.splits Option.bind_splits)

lemma read_write_packet_book:
  assumes "read_write_packet C src cl stype dst time t = Some (ty, n, d, tm, r, t')"
  shows "book t' = book t"
  using assms by (auto simp: read_write_packet_def book_def Let_def split: if_splits list.splits)

lemma add_flit_books:
  assumes "add_flit C src cl type n dst time rec pid subnet i t = Some t'"
    and "books C N Z t" and "src < o_nodes C" and "cl < o_classes C"
  shows "books C N Z t'"
proof -
  let ?x = "t_cur_id t"
  from assms(1) obtain f where t': "t_in_flight t' = bump (os_insert ?x) cl (t_in_flight t)"
      "t_partial t' = put2 src cl (t_partial t ! src ! cl @ [f]) (t_partial t)" "t_cur_id t' = Suc ?x"
      "t_net t' = t_net t" "t_last_class t' = t_last_class t" and f: "tag f = (cl, ?x)" "f_cl f = int cl"
    by (auto simp: add_flit_def Let_def tag_def split: Option.bind_splits)
  have ok: "tm_ok C t" and acc: "known (t_in_flight t) = waiting (t_partial t) + Z" and N: "t_net t = N"
    using assms(2) by (simp_all add: books_def)
  have len: "cl < length (t_in_flight t)" "src < length (t_partial t)" "cl < length (t_partial t ! src)"
    using ok assms(3,4) tm_ok_row [OF ok assms(3)] by (simp_all add: tm_ok_def)
  note ins = known_insert [of ?x "t_in_flight t" cl, OF _ len(1)]
  have g: "given_out ?x (t_in_flight t)" using ok by (simp add: tm_ok_def)
  have "waiting (t_partial t') = add_mset (cl, ?x) (waiting (t_partial t))"
    using waiting_put [OF len(2,3), of "t_partial t ! src ! cl @ [f]"]
    by (simp add: t' f ac_simps)
  then have "known (t_in_flight t') = waiting (t_partial t') + Z"
    using ins(1) [OF g] acc by (simp add: t')
  moreover have "tm_ok C t'"
    using ok ins(2) [OF g] rows_put2 [of "t_partial t" "o_classes C" src cl]
      filed_put2 [of "t_partial t" "t_partial t ! src ! cl @ [f]" cl src]
      filedD [of "t_partial t", OF _ len(2,3)] f(2)
    by (auto simp: tm_ok_def t' bump_def put2_def [of src cl])
  ultimately show ?thesis using N by (simp add: books_def t')
qed

lemma GeneratePacket_books:
  assumes "GeneratePacket C src stype cl time t = Some t'"
    and "books C N Z t" and "src < o_nodes C" and "cl < o_classes C"
  shows "books C N Z t'"
proof -
  from assms(1) obtain type n dst time' rec pid subnet u where
    run: "foldM (add_flit C src cl type n dst time' rec pid subnet) [0..n - 1] u = Some t'"
    and u: "book u = book t"
    unfolding GeneratePacket_def Let_def
    by (auto simp: book_def split: Option.bind_splits if_splits prod.splits
        dest!: read_write_packet_book simp: book_def)
  have "books C N Z u" using assms(2) books_cong [OF u] by simp
  then show ?thesis
    by (rule foldM_invariant [OF run]) (use add_flit_books assms(3,4) in blast)
qed

lemma advance_qtime_book [simp]: "book (advance_qtime C n c stype t) = book t"
  by (simp add: advance_qtime_def book_def)

lemma generate_loop_books:
  assumes "generate_loop C n c t = Some t'"
    and "books C N Z t" and "n < o_nodes C" and "c < o_classes C"
  shows "books C N Z t'"
proof -
  have "n < o_nodes C \<longrightarrow> c < o_classes C \<longrightarrow> books C N Z t \<longrightarrow> books C N Z t'"
  proof (rule generate_loop.raw_induct [OF _ assms(1)])
    fix rec :: "tm_options \<Rightarrow> nat \<Rightarrow> nat \<Rightarrow> ('a, 'b, 'c) traffic_manager \<Rightarrow> ('a, 'b, 'c) traffic_manager option"
    fix C n c and t t' :: "('a, 'b, 'c) traffic_manager"
    assume IH: "\<And>C n c t t'. rec C n c t = Some t' \<Longrightarrow>
        n < o_nodes C \<longrightarrow> c < o_classes C \<longrightarrow> books C N Z t \<longrightarrow> books C N Z t'"
      and run: "(if t_qtime t ! n ! c \<le> int (t_time t)
        then IssuePacket C n c t \<bind> (\<lambda>(stype, t1).
          if stype \<noteq> 0
          then GeneratePacket C n stype c
             (if o_include_queuing C = 1 then t_qtime t1 ! n ! c else int (t_time t1)) t1 \<bind>
             (\<lambda>t2. Some (advance_qtime C n c stype t2))
          else rec C n c (advance_qtime C n c stype t1))
        else Some t) = Some t'"
    show "n < o_nodes C \<longrightarrow> c < o_classes C \<longrightarrow> books C N Z t \<longrightarrow> books C N Z t'"
    proof (intro impI)
      assume nc: "n < o_nodes C" "c < o_classes C" and b: "books C N Z t"
      show "books C N Z t'"
      proof (cases "t_qtime t ! n ! c \<le> int (t_time t)")
        case False
        then show ?thesis using run b by simp
      next
        case True
        then obtain stype t1 where i: "IssuePacket C n c t = Some (stype, t1)"
          and run': "(if stype \<noteq> 0
            then GeneratePacket C n stype c
               (if o_include_queuing C = 1 then t_qtime t1 ! n ! c else int (t_time t1)) t1 \<bind>
               (\<lambda>t2. Some (advance_qtime C n c stype t2))
            else rec C n c (advance_qtime C n c stype t1)) = Some t'"
          using run by (auto split: Option.bind_splits)
        have b1: "books C N Z t1" using books_cong [OF IssuePacket_book [OF i]] b by simp
        show ?thesis
        proof (cases "stype = 0")
          case True
          have "books C N Z (advance_qtime C n c stype t1)"
            using b1 books_cong [OF advance_qtime_book] by blast
          then show ?thesis using IH [of C n c "advance_qtime C n c stype t1" t'] run' True nc by simp
        next
          case False
          then obtain t2 where "GeneratePacket C n stype c
              (if o_include_queuing C = 1 then t_qtime t1 ! n ! c else int (t_time t1)) t1 = Some t2"
            and t': "t' = advance_qtime C n c stype t2"
            using run' by (auto split: Option.bind_splits)
          then have "books C N Z t2" using GeneratePacket_books b1 nc by blast
          then show ?thesis unfolding t' using books_cong [OF advance_qtime_book] by blast
        qed
      qed
    qed
  qed
  then show ?thesis using assms(2-4) by blast
qed

lemma Inject_packets_books:
  assumes "Inject_packets C t = Some t'" and "books C N Z t"
  shows "books C N Z t'"
proof (rule foldM_invariant [OF assms(1) [unfolded Inject_packets_def], where P = "books C N Z", OF assms(2)])
  fix n t t'
  assume n: "n \<in> set [0..<o_nodes C]" and b: "books C N Z t"
    and run: "(if \<not> t_cores t ! n then Some t else foldM (inject_class C n) [0..<o_classes C] t) = Some t'"
  show "books C N Z t'"
  proof (cases "t_cores t ! n")
    case True
    then have run': "foldM (inject_class C n) [0..<o_classes C] t = Some t'" using run by simp
    show ?thesis
    proof (rule foldM_invariant [OF run', where P = "books C N Z", OF b])
      fix c t t'
      assume c: "c \<in> set [0..<o_classes C]" and b: "books C N Z t" and run: "inject_class C n c t = Some t'"
      show "books C N Z t'"
      proof (cases "t_partial t ! n ! c = []")
        case True
        then obtain t1 where g: "generate_loop C n c t = Some t1" and e: "book t' = book t1"
          using run by (auto simp: inject_class_def book_def split: Option.bind_splits)
        have "books C N Z t1" by (rule generate_loop_books [OF g b]) (use n c in auto)
        then show ?thesis by (simp add: books_cong [OF e])
      qed (use run b in \<open>simp add: inject_class_def\<close>)
    qed
  qed (use run b in simp)
qed

subsection \<open>Injection\<close>

text \<open>The flits in a network between \<open>ReadInputs\<close> and \<open>WriteOutputs\<close>.\<close>

definition mid_flits :: "('v, 'w, 'x) network \<Rightarrow> flit multiset" where
  "mid_flits net = router_flits net + link_flits net"

lemma on_router_flits:
  assumes "\<And>r. flits_of (f r) = flits_of r \<and> dims (f r) = dims r \<and> in_queue_flits (f r) = in_queue_flits r \<and>
    r_active (f r) = r_active r"
  shows "router_flits (on_router f n net) = router_flits net"
    "net_ok (on_router f n net) = net_ok net"
    "latches_empty (on_router f n net) = latches_empty net"
    "latches_seen (on_router f n net) = latches_seen net"
    "chan (on_router f n net) = chan net" "inject (on_router f n net) = inject net"
    "eject (on_router f n net) = eject net" "node_count (on_router f n net) = node_count net"
proof -
  let ?rs = "routers net"
  have same: "map h (bump f n ?rs) = map h ?rs" if "\<And>r. h (f r) = h r" for h :: "flov_router \<Rightarrow> 'd"
    unfolding bump_def by (cases "n < length ?rs") (simp_all add: map_update that list_update_beyond
        list_update_same_conv)
  have m: "map flits_of (bump f n ?rs) = map flits_of ?rs" by (rule same) (use assms in simp)
  have d: "map (router_ok k) (bump f n ?rs) = map (router_ok k) ?rs" for k
  proof (rule same)
    fix r
    show "router_ok k (f r) = router_ok k r" using assms [of r] router_ok_dims by metis
  qed
  have q: "map in_queue_flits (bump f n ?rs) = map in_queue_flits ?rs"
    "map r_active (bump f n ?rs) = map r_active ?rs"
    "map (\<lambda>r. (in_queue_flits r, r_active r)) (bump f n ?rs) = map (\<lambda>r. (in_queue_flits r, r_active r)) ?rs"
    by (rule same, use assms in simp)+
  have all: "(\<forall>r \<in> set (bump f n ?rs). P (h r)) = (\<forall>r \<in> set ?rs. P (h r))"
    if "map h (bump f n ?rs) = map h ?rs" for h :: "flov_router \<Rightarrow> 'd" and P
    using arg_cong [OF that, of set] by (metis (no_types, lifting) image_iff list.set_map)
  show "router_flits (on_router f n net) = router_flits net"
    unfolding router_flits_def on_router_def by (simp add: m)
  show "net_ok (on_router f n net) = net_ok net"
    using all [OF d [of "dimensions net"], of "\<lambda>x. x"]
    by (simp add: net_ok_def on_router_def node_count_def bump_def [of f])
  show "latches_empty (on_router f n net) = latches_empty net"
    using all [OF q(1), of "\<lambda>x. x = []"] by (simp add: latches_empty_def on_router_def)
  show "latches_seen (on_router f n net) = latches_seen net"
    using all [OF q(3), of "\<lambda>x. fst x \<noteq> [] \<longrightarrow> snd x"] by (simp add: latches_seen_def on_router_def)
qed (simp_all add: on_router_def node_count_def)

lemma quiet_updates:
  "flits_of (WakeUp r) = flits_of r \<and> dims (WakeUp r) = dims r \<and> in_queue_flits (WakeUp r) = in_queue_flits r \<and>
     r_active (WakeUp r) = r_active r"
  "flits_of (IdleDetected r) = flits_of r \<and> dims (IdleDetected r) = dims r \<and>
     in_queue_flits (IdleDetected r) = in_queue_flits r \<and> r_active (IdleDetected r) = r_active r"
  "flits_of (AggressFLOVPolicy r') = flits_of r' \<and> dims (AggressFLOVPolicy r') = dims r' \<and>
     in_queue_flits (AggressFLOVPolicy r') = in_queue_flits r' \<and> r_active (AggressFLOVPolicy r') = r_active r'"
  "flits_of (RegressFLOVPolicy k r') = flits_of r' \<and> dims (RegressFLOVPolicy k r') = dims r' \<and>
     in_queue_flits (RegressFLOVPolicy k r') = in_queue_flits r' \<and> r_active (RegressFLOVPolicy k r') = r_active r'"
  for r :: flov_router
  by (simp_all add: WakeUp_def IdleDetected_def AggressFLOVPolicy_def RegressFLOVPolicy_def flits_of_def
      dims_def Let_def split: power_state.splits)

text \<open>In the middle of the injection into subnet \<open>s\<close>: the nodes \<open>vs\<close> have not put a flit on their
  channels, and the other networks are those of \<open>N\<close>.\<close>

definition injecting ::
  "tm_options \<Rightarrow> nat \<Rightarrow> nat set \<Rightarrow> tags \<Rightarrow> ('v, 'w, 'x) network list \<Rightarrow> ('v, 'w, 'x) traffic_manager \<Rightarrow> bool" where
  "injecting C s vs Z N t \<longleftrightarrow> tm_ok C t \<and> s < o_subnets C \<and> mid_cycle (t_net t ! s) \<and>
     (\<forall>v \<in> vs. ch_input (inject (t_net t ! s) ! v) = None) \<and> (\<forall>i. i \<noteq> s \<longrightarrow> t_net t ! i = N ! i) \<and>
     known (t_in_flight t) = waiting (t_partial t) + image_mset tag (mid_flits (t_net t ! s)) + Z"

lemma injecting_cong: "book t' = book t \<Longrightarrow> injecting C s vs Z N t' = injecting C s vs Z N t"
  by (simp add: injecting_def tm_ok_def book_def)

lemma injecting_okD:
  assumes "injecting C s vs Z N t"
  shows "tm_ok C t" "s < length (t_net t)" "s < o_subnets C"
    and "n < o_nodes C \<Longrightarrow> c < o_classes C \<Longrightarrow> n < length (t_partial t) \<and> c < length (t_partial t ! n)"
  using assms by (auto simp: injecting_def tm_ok_def)

lemma tm_ok_net:
  "tm_ok C t \<Longrightarrow> node_count net = o_nodes C \<Longrightarrow> tm_ok C (t\<lparr>t_net := (t_net t)[s := net]\<rparr>)"
  unfolding tm_ok_def by (auto dest!: subsetD [OF set_update_subset_insert])

lemma call_wakeup_injecting:
  assumes "injecting C s vs Z N t"
  shows "injecting C s vs Z N (call_wakeup s n v t)" and "t_partial (call_wakeup s n v t) = t_partial t"
proof -
  let ?net = "on_router WakeUp v (t_net t ! s)"
  note w = on_router_flits [OF quiet_updates(1), of v "t_net t ! s"]
  have net: "mid_cycle ?net = mid_cycle (t_net t ! s)" "mid_flits ?net = mid_flits (t_net t ! s)"
    by (simp_all add: mid_cycle_def mid_flits_def link_flits_def w)
  have ok: "tm_ok C (t\<lparr>t_net := (t_net t)[s := ?net]\<rparr>)"
    using assms by (intro tm_ok_net) (auto simp: injecting_def tm_ok_def w)
  have "injecting C s vs Z N (t\<lparr>t_net := (t_net t)[s := ?net]\<rparr>)"
    using assms ok injecting_okD(2) [OF assms] by (simp add: injecting_def net w)
  then show "injecting C s vs Z N (call_wakeup s n v t)"
    using injecting_cong [of "(t\<lparr>t_net := (t_net t)[s := ?net]\<rparr>)\<lparr>t_wakeup_latency := l\<rparr>"
        "t\<lparr>t_net := (t_net t)[s := ?net]\<rparr>" C s vs Z N for l]
      injecting_cong [of "t\<lparr>t_wakeup_latency := l\<rparr>" t C s vs Z N for l] assms
    by (simp add: call_wakeup_def bump_def book_def)
qed (simp add: call_wakeup_def)

lemma set_first_injecting:
  assumes "injecting C s vs Z N t" and "n < o_nodes C" and "c < o_classes C"
    and "t_partial t ! n ! c \<noteq> []" and "tag f = tag (first_flit n c t)" and "f_cl f = f_cl (first_flit n c t)"
  shows "injecting C s vs Z N (set_first n c f t)"
    and "t_partial (set_first n c f t) ! n ! d = [] \<longleftrightarrow> t_partial t ! n ! d = []"
proof -
  let ?q = "t_partial t ! n ! c"
  note len = injecting_okD(4) [OF assms(1-3)]
  have q: "?q = first_flit n c t # tl ?q" using assms(4) by (simp add: first_flit_def)
  have cl: "\<forall>g \<in> set (f # tl ?q). f_cl g = int c"
  proof -
    have "\<forall>g \<in> set ?q. f_cl g = int c"
      using filedD len injecting_okD(1) [OF assms(1)] by (auto simp: tm_ok_def)
    then show ?thesis using q assms(6) by (metis list.set_intros set_ConsD)
  qed
  have tags: "queue_tags (f # tl ?q) = queue_tags ?q"
    by (subst (2) q) (simp only: queue_tags_simps assms(5))
  have "waiting (put2 n c (f # tl ?q) (t_partial t)) = waiting (t_partial t)"
    using waiting_put [of n "t_partial t" c "f # tl ?q"] len unfolding tags by simp
  moreover have "tm_ok C (set_first n c f t)"
    using injecting_okD(1) [OF assms(1)] rows_put2 [of "t_partial t" "o_classes C" n c]
      filed_put2 [OF _ cl, of "t_partial t" n]
    by (simp add: tm_ok_def set_first_def)
  ultimately show "injecting C s vs Z N (set_first n c f t)"
    using assms(1) by (simp add: injecting_def set_first_def)
  show "t_partial (set_first n c f t) ! n ! d = [] \<longleftrightarrow> t_partial t ! n ! d = []"
    using len assms(4) by (cases "d = c") (auto simp: set_first_def put2_def)
qed

lemma find_vc_first:
  assumes "find_vc C s n c r p t = Some t'"
  shows "\<exists>f. t' = set_first n c f t \<and> tag f = tag (first_flit n c t) \<and> f_cl f = f_cl (first_flit n c t)"
  using assms unfolding find_vc_def noq_share_def Let_def
  by (auto split: Option.bind_splits if_splits option.splits prod.splits)

definition candidate :: "tm_options \<Rightarrow> nat \<Rightarrow> nat option \<Rightarrow> ('v, 'w, 'x) traffic_manager \<Rightarrow> bool" where
  "candidate C n best t \<longleftrightarrow> (\<forall>b. best = Some b \<longrightarrow> b < o_classes C \<and> t_partial t ! n ! b \<noteq> [])"

lemma try_class_injecting:
  assumes "try_class C s n lc i (best, left, t) = Some (best', left', t')"
    and "injecting C s vs Z N t" and "candidate C n best t" and "n < o_nodes C" and "0 < o_classes C"
  shows "injecting C s vs Z N t' \<and> candidate C n best' t'"
proof -
  let ?c = "(lc + i) mod o_classes C"
  have c: "?c < o_classes C" using assms(5) by simp
  have latency: "injecting C s vs Z N (t\<lparr>t_wakeup_latency := l\<rparr>)" for l
    using injecting_cong [of "t\<lparr>t_wakeup_latency := l\<rparr>" t C s vs Z N] assms(2) by (simp add: book_def)
  have con: "injecting C s vs Z N t' \<and> candidate C n best' t'"
    if "consider_flit s n ?c best u = Some (best', left', t')" "injecting C s vs Z N u"
      "candidate C n best u" "t_partial u ! n ! ?c \<noteq> []" for u
    using that c by (auto simp: consider_flit_def candidate_def Let_def split: if_splits Option.bind_splits)
  show ?thesis
  proof (cases "left \<or> t_partial t ! n ! ?c = []")
    case True
    then show ?thesis using assms(1-3) by (auto simp: try_class_def Let_def split: if_splits)
  next
    case False
    then obtain cf q where q: "t_partial t ! n ! ?c = cf # q" by (cases "t_partial t ! n ! ?c") auto
    have ne: "t_partial t ! n ! ?c \<noteq> []" using False by simp
    show ?thesis
    proof (cases "f_subnetwork cf \<noteq> int s \<or>
        (case best of None \<Rightarrow> False | Some b \<Rightarrow> f_pri (first_flit n b t) \<ge> f_pri cf)")
      case True
      then have "best' = best" "t' = t" using assms(1) False q
        by (auto simp: try_class_def Let_def split: if_splits)
      then show ?thesis using assms(2,3) by simp
    next
      case old: False
      show ?thesis
      proof (cases "f_head cf \<and> f_vc cf = -1")
        case False
        then have "consider_flit s n ?c best t = Some (best', left', t')"
          using assms(1) old q \<open>\<not> (left \<or> t_partial t ! n ! ?c = [])\<close>
          by (auto simp: try_class_def Let_def split: if_splits)
        then show ?thesis using con assms(2,3) ne by blast
      next
        case True
        then obtain v p where step: "(if power_state (attached_router s v t) \<noteq> power_on
             then Some (best, True, call_wakeup s n v t)
             else do {
               t1 \<leftarrow> find_vc C s n ?c (attached_router s v t) p
                       (t\<lparr>t_wakeup_latency := (t_wakeup_latency t)[n := False]\<rparr>);
               consider_flit s n ?c best t1 }) = Some (best', left', t')"
          using assms(1) old q \<open>\<not> (left \<or> t_partial t ! n ! ?c = [])\<close>
          by (auto simp: try_class_def Let_def split: if_splits Option.bind_splits)
        show ?thesis
        proof (cases "power_state (attached_router s v t) = power_on")
          case False
          then have "t' = call_wakeup s n v t" "best' = best" using step by auto
          then show ?thesis using call_wakeup_injecting [OF assms(2)] assms(3) by (simp add: candidate_def)
        next
          case True
          let ?u = "t\<lparr>t_wakeup_latency := (t_wakeup_latency t)[n := False]\<rparr>"
          obtain t1 where t1: "find_vc C s n ?c (attached_router s v t) p ?u = Some t1"
            and k: "consider_flit s n ?c best t1 = Some (best', left', t')"
            using step True by (auto split: Option.bind_splits)
          obtain f where f: "t1 = set_first n ?c f ?u" "tag f = tag (first_flit n ?c ?u)"
            "f_cl f = f_cl (first_flit n ?c ?u)"
            using find_vc_first [OF t1] by blast
          have ne': "t_partial ?u ! n ! ?c \<noteq> []" using ne by simp
          note sf = set_first_injecting [OF latency assms(4) c ne' f(2,3), folded f(1)]
          have "candidate C n best t1" using assms(3) sf(2) by (simp add: candidate_def)
          then show ?thesis using con [OF k] sf ne by simp
        qed
      qed
    qed
  qed
qed

lemma open_packet_injecting:
  assumes "open_packet C s n c v p t = Some t'"
    and "injecting C s vs Z N t" and "n < o_nodes C" and "c < o_classes C" and "t_partial t ! n ! c \<noteq> []"
  shows "injecting C s vs Z N t' \<and> t_partial t' ! n ! c \<noteq> []"
proof -
  from assms(1) obtain f where f: "book t' = book (set_first n c f t)"
    "tag f = tag (first_flit n c t)" "f_cl f = f_cl (first_flit n c t)"
    unfolding open_packet_def Let_def
    by (auto simp: book_def split: Option.bind_splits if_splits)
  note sf = set_first_injecting [OF assms(2-5) f(2,3)]
  have "t_partial t' = t_partial (set_first n c f t)" using f(1) by (simp add: book_def)
  then show ?thesis using sf(1) sf(2) [of c] injecting_cong [OF f(1)] assms(5) by simp
qed

lemma send_flit_injecting:
  assumes "send_flit C s n c t = Some t'"
    and "injecting C s vs Z N t" and "n < o_nodes C" and "c < o_classes C" and "t_partial t ! n ! c \<noteq> []"
    and "n \<in> vs"
  shows "injecting C s (vs - {n}) Z N t'"
proof -
  let ?q = "t_partial t ! n ! c"
  obtain f rest where q: "?q = f # rest" using assms(5) by (cases ?q) auto
  have ff: "first_flit n c t = f" by (simp add: first_flit_def q)
  define rest1 where "rest1 = (case rest of [] \<Rightarrow> [] | nf # fs \<Rightarrow>
    (if f_tail f then nf else nf\<lparr>f_vc := f_vc f\<rparr>) # fs)"
  obtain pri bs where 1: "on_net s (WriteFlit (Some (f\<lparr>f_pri := pri, f_itime := int (t_time t)\<rparr>)) n)
      (t\<lparr>t_last_class := put2 n s c (t_last_class t), t_buf_states := put2 n s bs (t_buf_states t),
         t_partial := put2 n c rest1 (t_partial t),
         t_stats := (if measuring t then count_sent c n f (t_stats t) else t_stats t)\<rparr>) = Some t'"
    using assms(1) unfolding send_flit_def Let_def ff q list.sel rest1_def [symmetric]
    by (auto split: Option.bind_splits)
  define f1 where "f1 = f\<lparr>f_pri := pri, f_itime := int (t_time t)\<rparr>"
  have f1: "who f1 = who f" by (simp add: f1_def)
  obtain net where net: "WriteFlit (Some f1) n (t_net t ! s) = Some net"
    and t': "t_partial t' = put2 n c rest1 (t_partial t)" "t_in_flight t' = t_in_flight t"
      "t_cur_id t' = t_cur_id t" "t_last_class t' = put2 n s c (t_last_class t)"
      "t_net t' = (t_net t)[s := net]"
    using 1 unfolding on_net_def f1_def [symmetric] by auto
  have rest1: "queue_tags rest1 = queue_tags rest" "\<forall>g \<in> set rest1. \<exists>h \<in> set rest. f_cl g = f_cl h"
    by (auto simp: rest1_def split: list.splits)
  note len = injecting_okD(4) [OF assms(2-4)]
  have mid: "mid_cycle (t_net t ! s)" and free: "ch_input (inject (t_net t ! s) ! n) = None"
    and ok: "tm_ok C t" using assms(2,6) by (simp_all add: injecting_def)
  note w = WriteFlit_flits [OF net mid free]
  have tg: "tag f1 = tag f" using f1 by (metis tag_who)
  have "\<forall>g \<in> set ?q. f_cl g = int c" using filedD len ok by (auto simp: tm_ok_def)
  then have cl: "\<forall>g \<in> set rest1. f_cl g = int c" using rest1(2) q by auto
  have lc: "\<forall>row \<in> set (put2 n s c (t_last_class t)). length row = o_subnets C \<and> (\<forall>c \<in> set row. c < o_classes C)"
  proof (cases "n < length (t_last_class t)")
    case True
    have sub: "set ((t_last_class t ! n)[s := c]) \<subseteq> insert c (set (t_last_class t ! n))"
      by (rule set_update_subset_insert)
    have old: "\<forall>row \<in> set (t_last_class t). length row = o_subnets C \<and> (\<forall>c \<in> set row. c < o_classes C)"
      using ok by (simp add: tm_ok_def)
    have new: "length ((t_last_class t ! n)[s := c]) = o_subnets C"
      "\<forall>d \<in> set ((t_last_class t ! n)[s := c]). d < o_classes C"
      using old nth_mem [OF True] assms(4) sub by auto
    show ?thesis
    proof
      fix row
      assume "row \<in> set (put2 n s c (t_last_class t))"
      then consider "row = (t_last_class t ! n)[s := c]" | "row \<in> set (t_last_class t)"
        using set_update_subset_insert [of "t_last_class t" n "(t_last_class t ! n)[s := c]"]
        unfolding put2_def by blast
      then show "length row = o_subnets C \<and> (\<forall>c \<in> set row. c < o_classes C)"
        using new old by cases auto
    qed
  qed (use ok in \<open>simp add: tm_ok_def put2_def list_update_beyond\<close>)
  have nodes: "\<forall>net' \<in> set ((t_net t)[s := net]). node_count net' = o_nodes C"
    using ok w assms(2) injecting_okD(2) [OF assms(2)] unfolding tm_ok_def
    by (auto dest!: subsetD [OF set_update_subset_insert])
  have "tm_ok C t'"
    using ok rows_put2 [of "t_partial t" "o_classes C" n c rest1] filed_put2 [OF _ cl, of "t_partial t" n]
      lc nodes by (simp add: tm_ok_def t')
  moreover have "waiting (t_partial t') + {#tag f#} = waiting (t_partial t)"
    using waiting_put [of n "t_partial t" c rest1] len
    by (simp add: t' q rest1(1))
  moreover have "mid_flits net = add_mset (who f1) (mid_flits (t_net t ! s))"
    using w by (simp add: mid_flits_def)
  moreover have "t_net t' ! s = net" using injecting_okD(2) [OF assms(2)] by (simp add: t')
  ultimately show ?thesis using assms(2) w tg
    by (auto simp: injecting_def t' ac_simps)
qed

lemma send_best_injecting:
  assumes "send_best C s n b t = Some (left, t')"
    and "injecting C s vs Z N t" and "n < o_nodes C" and "b < o_classes C" and "t_partial t ! n ! b \<noteq> []"
    and "n \<in> vs"
  shows "injecting C s (vs - {n}) Z N t'"
proof -
  note len = injecting_okD(4) [OF assms(2-4)]
  have "f_cl (first_flit n b t) = int b"
    using filedD [of "t_partial t" n b "first_flit n b t"] len injecting_okD(1) [OF assms(2)] assms(5)
    by (simp add: tm_ok_def first_flit_def)
  then have c: "nat (f_cl (first_flit n b t)) = b" by simp
  have sub: "injecting C s (vs - {n}) Z N u" if "injecting C s vs Z N u" for u :: "('a, 'b, 'c) traffic_manager"
    using that by (auto simp: injecting_def)
  show ?thesis
  proof (cases "f_head (first_flit n b t)")
    case False
    then have "send_flit C s n b t = Some t'"
      using assms(1) by (auto simp: send_best_def Let_def c split: Option.bind_splits)
    then show ?thesis by (rule send_flit_injecting) (use assms in auto)
  next
    case True
    obtain v p where at: "attached s n t = Some (v, p)"
      using assms(1) True by (cases "attached s n t") (auto simp: send_best_def Let_def)
    have step: "(if power_state (attached_router s v t) \<noteq> power_on
        then Some (True, call_wakeup s n v t)
        else do {
          t1 \<leftarrow> open_packet C s n b v p (t\<lparr>t_wakeup_latency := (t_wakeup_latency t)[n := False]\<rparr>);
          t2 \<leftarrow> send_flit C s n b t1;
          Some (False, t2) }) = Some (left, t')"
      using assms(1) True unfolding send_best_def Let_def c at by simp
    show ?thesis
    proof (cases "power_state (attached_router s v t) = power_on")
      case False
      then have "t' = call_wakeup s n v t" using step by simp
      then show ?thesis using sub [OF call_wakeup_injecting(1) [OF assms(2)]] by simp
    next
      case True
      let ?u = "t\<lparr>t_wakeup_latency := (t_wakeup_latency t)[n := False]\<rparr>"
      obtain t1 where 1: "open_packet C s n b v p ?u = Some t1" and 2: "send_flit C s n b t1 = Some t'"
        using step True by (auto split: Option.bind_splits)
      have "injecting C s vs Z N ?u" using assms(2) injecting_cong [of ?u t] by (simp add: book_def)
      from open_packet_injecting [OF 1 this assms(3,4)] assms(5)
      have "injecting C s vs Z N t1" "t_partial t1 ! n ! b \<noteq> []" by simp_all
      with 2 show ?thesis by (intro send_flit_injecting) (use assms in auto)
    qed
  qed
qed

lemma held_class_candidate:
  assumes "held_class C s n t = Some held" and "tm_ok C t" and "n < o_nodes C" and "s < o_subnets C"
  shows "candidate C n held t"
proof -
  have row: "t_last_class t ! n \<in> set (t_last_class t)" using assms(2,3) by (simp add: tm_ok_def)
  then have "t_last_class t ! n ! s \<in> set (t_last_class t ! n)" using assms(2,4) by (simp add: tm_ok_def)
  then have "t_last_class t ! n ! s < o_classes C" using assms(2) row by (simp add: tm_ok_def)
  then show ?thesis using assms(1)
    by (auto simp: held_class_def candidate_def Let_def split: if_splits list.splits Option.bind_splits)
qed

lemma inject_node_injecting:
  assumes "inject_node C s n (left, t) = Some (left', t')"
    and "injecting C s vs Z N t" and "n < o_nodes C" and "n \<in> vs" and "0 < o_classes C"
  shows "injecting C s (vs - {n}) Z N t'"
proof (cases left)
  case True
  then have "t' = t" using assms(1) by (simp add: inject_node_def)
  then show ?thesis using assms(2) by (auto simp: injecting_def)
next
  case False
  then obtain held best stop t1 where h: "held_class C s n t = Some held"
    and loop: "foldM (try_class C s n (t_last_class t ! n ! s))
      [1..<Suc (if held = None then o_classes C else o_classes C - 1)] (held, False, t) = Some (best, stop, t1)"
    and fin: "(case best of None \<Rightarrow> Some (False, t1) | Some b \<Rightarrow> send_best C s n b t1) = Some (left', t')"
    using assms(1) by (auto simp: inject_node_def split: Option.bind_splits)
  define ok where "ok st = (injecting C s vs Z N (snd (snd st)) \<and> candidate C n (fst st) (snd (snd st)))"
    for st :: "nat option \<times> bool \<times> ('a, 'b, 'c) traffic_manager"
  have "ok (best, stop, t1)"
  proof (rule foldM_invariant [OF loop])
    show "ok (held, False, t)" unfolding ok_def
      using assms(2,3) held_class_candidate [OF h] injecting_okD [OF assms(2)] by simp
  next
    fix i and st st' :: "nat option \<times> bool \<times> ('a, 'b, 'c) traffic_manager"
    assume "ok st" and "try_class C s n (t_last_class t ! n ! s) i st = Some st'"
    then show "ok st'" unfolding ok_def using try_class_injecting assms(3,5) by (metis prod.collapse)
  qed
  then have i1: "injecting C s vs Z N t1" and c1: "candidate C n best t1" by (simp_all add: ok_def)
  show ?thesis
  proof (cases best)
    case None
    then show ?thesis using fin i1 by (auto simp: injecting_def)
  next
    case (Some b)
    then show ?thesis using fin c1 assms(3,4)
      by (intro send_best_injecting [OF _ i1]) (auto simp: candidate_def)
  qed
qed

text \<open>Injection into a subnet: every flit that leaves a queue is in the network.\<close>

lemma inject_subnet_injecting:
  assumes "inject_subnet C s t = Some t'" and "injecting C s {..<o_nodes C} Z N t" and "0 < o_classes C"
  shows "injecting C s {} Z N t'"
proof -
  have gen: "foldM (inject_node C s) ns st = Some st' \<Longrightarrow> injecting C s (set ns) Z N (snd st) \<Longrightarrow>
      distinct ns \<Longrightarrow> set ns \<subseteq> {..<o_nodes C} \<Longrightarrow> injecting C s {} Z N (snd st')" for ns st st'
  proof (induction ns arbitrary: st)
    case (Cons n ns)
    obtain left u where st: "st = (left, u)" by (cases st)
    from Cons.prems(1) obtain st1 where 1: "inject_node C s n (left, u) = Some st1"
      and 2: "foldM (inject_node C s) ns st1 = Some st'"
      by (auto simp: st split: option.splits)
    obtain l1 u1 where st1: "st1 = (l1, u1)" by (cases st1)
    have "injecting C s (set (n # ns) - {n}) Z N u1"
      by (rule inject_node_injecting [OF 1 [unfolded st1]]) (use Cons.prems st assms(3) in auto)
    moreover have "set (n # ns) - {n} = set ns" using Cons.prems(3) by auto
    ultimately show ?case using Cons.IH [OF 2] Cons.prems st1 by simp
  qed simp
  obtain l where f: "foldM (inject_node C s) [0..<o_nodes C] (False, t) = Some (l, t')"
    using assms(1) by (auto simp: inject_subnet_def)
  have s: "set [0..<o_nodes C] = {..<o_nodes C}" by auto
  have "injecting C s (set [0..<o_nodes C]) Z N (snd (False, t))" using assms(2) unfolding s by simp
  from gen [OF f this] show ?thesis by (simp add: lessThan_atLeast0)
qed

end
