(* ===== verification/Traffic_Conservation.thy ===== *)
theory Traffic_Conservation
  imports Traffic_Packets
begin

text \<open>
  The books over a whole cycle, through ejection, injection, retirement and the networks' own cycle:
  the numbers in \<open>_total_in_flight_flits\<close> are those of the flits at the nodes and in the networks, so
  that when the loops of \<open>Run\<close> find it empty the networks are.
\<close>

definition at_rest :: "tm_options \<Rightarrow> ('v, 'w, 'x) traffic_manager \<Rightarrow> bool" where
  "at_rest C t \<longleftrightarrow> tm_ok C t \<and> 0 < o_classes C \<and> (\<forall>net \<in> set (t_net t). net_ok net \<and> latches_empty net)"

definition in_books :: "('v, 'w, 'x) traffic_manager \<Rightarrow> bool" where
  "in_books t \<longleftrightarrow> known (t_in_flight t) =
     waiting (t_partial t) + (\<Sum>net\<leftarrow>t_net t. image_mset tag (net_flits net))"

lemma at_rest_cong: "book t' = book t \<Longrightarrow> at_rest C t' = at_rest C t"
  by (simp add: at_rest_def tm_ok_def book_def)

lemma in_books_cong: "book t' = book t \<Longrightarrow> in_books t' = in_books t"
  by (simp add: in_books_def book_def)

subsection \<open>Votes and idle routers\<close>

lemma net_flits_on_router:
  assumes "\<And>r. flits_of (f r) = flits_of r \<and> dims (f r) = dims r \<and> in_queue_flits (f r) = in_queue_flits r \<and>
    r_active (f r) = r_active r"
  shows "net_flits (on_router f n net) = net_flits net"
  using on_router_flits [OF assms, of n net] by (simp add: net_flits_def link_flits_def)

lemma same_nets:
  assumes "at_rest C t" and "in_books t" and "t' = t\<lparr>t_net := ns\<rparr>" and "length ns = length (t_net t)"
    and "\<And>i. i < length (t_net t) \<Longrightarrow> node_count (ns ! i) = node_count (t_net t ! i) \<and>
      net_ok (ns ! i) = net_ok (t_net t ! i) \<and> latches_empty (ns ! i) = latches_empty (t_net t ! i) \<and>
      net_flits (ns ! i) = net_flits (t_net t ! i)"
  shows "at_rest C t' \<and> in_books t'"
proof -
  have m: "map h ns = map h (t_net t)" if "\<And>i. i < length (t_net t) \<Longrightarrow> h (ns ! i) = h (t_net t ! i)"
    for h :: "('a, 'b, 'c) network \<Rightarrow> 'd"
    by (rule nth_equalityI) (use assms(4) that in simp_all)
  have fl: "map (\<lambda>net. image_mset tag (net_flits net)) ns = map (\<lambda>net. image_mset tag (net_flits net)) (t_net t)"
    by (rule m) (use assms(5) in simp)
  have "\<forall>net \<in> set ns. node_count net = o_nodes C \<and> net_ok net \<and> latches_empty net"
    using assms(1,4,5) unfolding at_rest_def tm_ok_def all_set_conv_all_nth by simp
  then show ?thesis using assms(1,2,4) fl by (simp add: at_rest_def tm_ok_def in_books_def assms(3))
qed

lemma bump_router_rest:
  assumes "at_rest C t" and "in_books t"
    and "\<And>r. flits_of (f r) = flits_of r \<and> dims (f r) = dims r \<and> in_queue_flits (f r) = in_queue_flits r \<and>
      r_active (f r) = r_active r"
  shows "at_rest C (t\<lparr>t_net := bump (on_router f n) s (t_net t)\<rparr>) \<and>
    in_books (t\<lparr>t_net := bump (on_router f n) s (t_net t)\<rparr>)"
proof (rule same_nets [OF assms(1,2) refl])
  fix i
  assume "i < length (t_net t)"
  then show "node_count (bump (on_router f n) s (t_net t) ! i) = node_count (t_net t ! i) \<and>
      net_ok (bump (on_router f n) s (t_net t) ! i) = net_ok (t_net t ! i) \<and>
      latches_empty (bump (on_router f n) s (t_net t) ! i) = latches_empty (t_net t ! i) \<and>
      net_flits (bump (on_router f n) s (t_net t) ! i) = net_flits (t_net t ! i)"
    by (cases "i = s") (simp_all add: bump_def on_router_flits [OF assms(3)] net_flits_on_router [OF assms(3)])
qed (simp add: bump_def)

lemma map_router_rest:
  assumes "at_rest C t" and "in_books t"
    and "\<And>r. flits_of (f r) = flits_of r \<and> dims (f r) = dims r \<and> in_queue_flits (f r) = in_queue_flits r \<and>
      r_active (f r) = r_active r"
  shows "at_rest C (t\<lparr>t_net := map (on_router f n) (t_net t)\<rparr>) \<and>
    in_books (t\<lparr>t_net := map (on_router f n) (t_net t)\<rparr>)"
  by (rule same_nets [OF assms(1,2) refl])
    (auto simp: on_router_flits [OF assms(3)] net_flits_on_router [OF assms(3)])

definition resting :: "tm_options \<Rightarrow> ('v, 'w, 'x) traffic_manager \<Rightarrow> bool" where
  "resting C t \<longleftrightarrow> at_rest C t \<and> in_books t"

lemma resting_cong: "book t' = book t \<Longrightarrow> resting C t' = resting C t"
  using at_rest_cong in_books_cong by (metis resting_def)

lemma cast_votes_book [simp]: "book (cast_votes C w row col t) = book t"
  by (simp add: cast_votes_def Let_def book_def)

lemma apply_vote_resting:
  assumes "resting C t"
  shows "resting C (apply_vote D n t)"
proof -
  have v: "resting C (u\<lparr>t_votes := x\<rparr>)" if "resting C u" for u :: "('a, 'b, 'c) traffic_manager" and x
    using that resting_cong [of "u\<lparr>t_votes := x\<rparr>" u] by (simp add: book_def)
  have r: "at_rest C t" "in_books t" using assms by (simp_all add: resting_def)
  have a: "resting C (t\<lparr>t_net := bump (on_router AggressFLOVPolicy n) 0 (t_net t)\<rparr>)"
    "resting C (t\<lparr>t_net := bump (on_router (RegressFLOVPolicy (o_k D)) n) 0 (t_net t)\<rparr>)"
    unfolding resting_def by (rule bump_router_rest [OF r quiet_updates(3)])
      (rule bump_router_rest [OF r quiet_updates(4)])
  have "apply_vote D n t = t\<lparr>t_votes := (t_votes t)[n := 0]\<rparr> \<or>
      apply_vote D n t = (t\<lparr>t_net := bump (on_router AggressFLOVPolicy n) 0 (t_net t)\<rparr>)\<lparr>t_votes := (t_votes t)[n := 0]\<rparr> \<or>
      apply_vote D n t = (t\<lparr>t_net := bump (on_router (RegressFLOVPolicy (o_k D)) n) 0 (t_net t)\<rparr>)\<lparr>t_votes := (t_votes t)[n := 0]\<rparr>"
    by (simp add: apply_vote_def Let_def)
  then show ?thesis
  proof (elim disjE)
  qed (simp_all only: v [OF assms] v [OF a(1)] v [OF a(2)])
qed

lemma adapt_policies_resting:
  assumes "adapt_policies D t = Some t'" and "resting C t"
  shows "resting C t'"
proof -
  have cast: "resting C (fold (\<lambda>row. fold (cast_votes D w row) cols) rows t)" for w rows cols
  proof (intro fold_invariant' [where P = "resting C"] assms(2))
    fix row col and u :: "('a, 'b, 'c) traffic_manager"
    assume "resting C u"
    then show "resting C (cast_votes D w row col u)"
      using resting_cong [of "cast_votes D w row col u" u C] by simp
  qed
  have app: "resting C (fold (apply_vote D) ns u)" if "resting C u" for ns and u :: "('a, 'b, 'c) traffic_manager"
    by (intro fold_invariant' [where P = "resting C"] that apply_vote_resting)
  have m: "resting C (u\<lparr>t_monitor_counter := 0\<rparr>)" if "resting C u" for u :: "('a, 'b, 'c) traffic_manager"
    using that resting_cong [of "u\<lparr>t_monitor_counter := 0\<rparr>" u] by (simp add: book_def)
  show ?thesis
    using assms cast app [OF cast] m [OF app [OF cast]]
    by (auto simp: adapt_policies_def Let_def split: if_splits)
qed

lemma check_idle_resting:
  assumes "resting C t"
  shows "resting C (check_idle D n t)"
proof -
  have r: "at_rest C t" "in_books t" using assms by (simp_all add: resting_def)
  have i: "resting C (t\<lparr>t_net := map (on_router IdleDetected n) (t_net t)\<rparr>)"
    "resting C (t\<lparr>t_net := map (on_router WakeUp n) (t_net t)\<rparr>)"
    unfolding resting_def by (rule map_router_rest [OF r quiet_updates(2)])
      (rule map_router_rest [OF r quiet_updates(1)])
  have "book (check_idle D n t) = book (t\<lparr>t_net := map (on_router IdleDetected n) (t_net t)\<rparr>) \<or>
      book (check_idle D n t) = book (t\<lparr>t_net := map (on_router WakeUp n) (t_net t)\<rparr>)"
    by (simp add: check_idle_def book_def)
  then show ?thesis using i resting_cong by blast
qed

subsection \<open>Ejection\<close>

lemma cancel_middle:
  fixes a b m q :: "'b :: cancel_comm_monoid_add"
  assumes "a + (m + q) = b + m"
  shows "b = a + q"
proof -
  have "(a + q) + m = b + m" unfolding assms [symmetric] by (simp only: ac_simps)
  then show ?thesis by simp
qed

text \<open>In the middle of the loop over the subnets: those below \<open>k\<close> have run.\<close>

definition by_turn :: "nat \<Rightarrow> (('v, 'w, 'x) network \<Rightarrow> flit multiset) \<Rightarrow> (('v, 'w, 'x) network \<Rightarrow> flit multiset)
    \<Rightarrow> ('v, 'w, 'x) traffic_manager \<Rightarrow> tags" where
  "by_turn k g h t = (\<Sum>i<length (t_net t). image_mset tag ((if i < k then g else h) (t_net t ! i)))"

lemma by_turn_step:
  assumes "k < length (t_net t)" and "t_net t' = (t_net t)[k := net]"
  shows "by_turn (Suc k) g h t' + image_mset tag (h (t_net t ! k)) =
    by_turn k g h t + image_mset tag (g net)"
  using sum_at [of k "length (t_net t)"
      "\<lambda>i. image_mset tag ((if i < Suc k then g else h) ((t_net t)[k := net] ! i))"
      "\<lambda>i. image_mset tag ((if i < k then g else h) (t_net t ! i))"] assms
  by (simp add: by_turn_def less_Suc_eq)

lemma by_turn_ends:
  "by_turn 0 g h t = (\<Sum>net\<leftarrow>t_net t. image_mset tag (h net))"
  "by_turn (length (t_net t)) g h t = (\<Sum>net\<leftarrow>t_net t. image_mset tag (g net))"
  by (simp_all add: by_turn_def sum_list_sum_nth atLeast0LessThan)

lemma eject_node_book:
  assumes "eject_node s n (flits, t) = Some (flits', t')"
  shows "book t' = book t"
    and "flits' = flits @ (case ReadFlit n (t_net t ! s) of None \<Rightarrow> [] | Some f \<Rightarrow> [(n, f)])"
  using assms by (auto simp: eject_node_def book_def Let_def split: option.splits)

lemma eject_nodes_book:
  assumes "foldM (eject_node s) ns (flits, t) = Some (flits', t')"
  shows "book t' = book t \<and> queue_tags (map snd flits') =
    queue_tags (map snd flits) + image_mset tag (carried (map (\<lambda>n. ReadFlit n (t_net t ! s)) ns))"
  using assms
proof (induction ns arbitrary: flits t)
  case Nil
  then show ?case by (simp add: carried_def)
next
  case (Cons n ns)
  then obtain fl1 t1 where 1: "eject_node s n (flits, t) = Some (fl1, t1)"
    and 2: "foldM (eject_node s) ns (fl1, t1) = Some (flits', t')"
    by (auto split: option.splits)
  note e = eject_node_book [OF 1]
  have net: "t_net t1 = t_net t" using e(1) by (simp add: book_def)
  have "queue_tags (map snd fl1) = queue_tags (map snd flits) + image_mset tag (carried [ReadFlit n (t_net t ! s)])"
    by (simp add: e(2) carried_def split: option.splits)
  moreover have "carried (map (\<lambda>n. ReadFlit n (t_net t ! s)) (n # ns)) =
      carried [ReadFlit n (t_net t ! s)] + carried (map (\<lambda>n. ReadFlit n (t_net t ! s)) ns)"
    unfolding list.map by (rule carried_Cons)
  ultimately show ?case using Cons.IH [OF 2] e(1) unfolding net by (simp only: image_mset_union ac_simps simp_thms)
qed

definition ejecting ::
  "tm_options \<Rightarrow> nat \<Rightarrow> (nat \<times> flit) list list \<Rightarrow> ('v, 'w, 'x) traffic_manager \<Rightarrow> bool" where
  "ejecting C k fss t \<longleftrightarrow> tm_ok C t \<and> 0 < o_classes C \<and> length fss = k \<and>
     (\<forall>i < o_subnets C. if i < k
        then mid_cycle (t_net t ! i) \<and> (\<forall>v < o_nodes C. ch_input (inject (t_net t ! i) ! v) = None)
        else net_ok (t_net t ! i) \<and> latches_empty (t_net t ! i)) \<and>
     known (t_in_flight t) = waiting (t_partial t) + by_turn k mid_flits net_flits t +
       queue_tags (map snd (concat fss))"

lemma eject_subnet_ejecting:
  assumes "eject_subnet C k (fss, t) = Some (fss', t')" and "ejecting C k fss t" and k: "k < o_subnets C"
  shows "ejecting C (Suc k) fss' t'"
proof -
  from assms(1) obtain flits t1 where e: "foldM (eject_node k) [0..<o_nodes C] ([], t) = Some (flits, t1)"
    and r: "on_net k (Network_ReadInputs (t_time t1)) t1 = Some t'" and fss': "fss' = fss @ [flits]"
    by (auto simp: eject_subnet_def split: Option.bind_splits)
  note ej = eject_nodes_book [OF e]
  then have same: "t_net t1 = t_net t" "t_partial t1 = t_partial t" "t_in_flight t1 = t_in_flight t"
    and bk: "book t1 = book t" by (simp_all add: book_def)
  obtain net where net: "Network_ReadInputs (t_time t1) (t_net t ! k) = Some net"
    and t': "t' = t1\<lparr>t_net := (t_net t)[k := net]\<rparr>"
    using r by (auto simp: on_net_def same)
  have ok: "tm_ok C t" and old: "net_ok (t_net t ! k)" "latches_empty (t_net t ! k)"
    using assms(2) k by (auto simp: ejecting_def)
  have len: "k < length (t_net t)" using ok k by (simp add: tm_ok_def)
  note ph = ReadInputs_phase [OF net old]
  have nodes: "node_count (t_net t ! k) = o_nodes C" using ok len by (simp add: tm_ok_def)
  have nk: "node_count net = o_nodes C"
    using net nodes by (auto simp: Network_ReadInputs_def Let_def each_router_def clock_in_def node_count_def)
  have mid: "mid_cycle net" using ph by (auto simp: mid_cycle_def)
  have out: "carried (map (\<lambda>n. ReadFlit n (t_net t ! k)) [0..<o_nodes C]) = arriving (eject (t_net t ! k))"
    using sum_indexed [of "\<lambda>ch. carried [ch_output ch]" "eject (t_net t ! k)"] net_okD(7) [OF old(1)] nodes
    by (simp add: arriving_def ReadFlit_def Receive_def carried_def comp_def)
  have fl: "image_mset tag (net_flits (t_net t ! k)) =
      image_mset tag (mid_flits net) + queue_tags (map snd flits)"
    using ph ej by (simp add: net_flits_def mid_flits_def out ac_simps)
  have "by_turn (Suc k) mid_flits net_flits t' + image_mset tag (net_flits (t_net t ! k)) =
      by_turn k mid_flits net_flits t + image_mset tag (mid_flits net)"
    by (rule by_turn_step [OF len]) (simp add: t')
  then have "by_turn k mid_flits net_flits t =
      by_turn (Suc k) mid_flits net_flits t' + queue_tags (map snd flits)"
    unfolding fl by (rule cancel_middle)
  then have "known (t_in_flight t') = waiting (t_partial t') + by_turn (Suc k) mid_flits net_flits t' +
      queue_tags (map snd (concat fss'))"
    using assms(2) by (simp add: ejecting_def t' same fss' ac_simps)
  moreover have "tm_ok C t'"
  proof -
    have "tm_ok C (t1\<lparr>t_net := (t_net t1)[k := net]\<rparr>)"
      by (rule tm_ok_net) (use ok bk nk in \<open>simp_all add: tm_ok_def book_def\<close>)
    then show ?thesis by (simp add: t' same)
  qed
  moreover have "(if i < Suc k
        then mid_cycle (t_net t' ! i) \<and> (\<forall>v < o_nodes C. ch_input (inject (t_net t' ! i) ! v) = None)
        else net_ok (t_net t' ! i) \<and> latches_empty (t_net t' ! i))" if i: "i < o_subnets C" for i
  proof (cases "i = k")
    case True
    then show ?thesis using mid ph nk len by (simp add: t')
  next
    case False
    then show ?thesis using assms(2) i by (auto simp: ejecting_def t' less_Suc_eq)
  qed
  ultimately show ?thesis using assms(2) by (simp add: ejecting_def fss')
qed

lemma eject_subnets:
  assumes "foldM (eject_subnet C) [k..<o_subnets C] (fss, t) = Some (fss', t')" and "ejecting C k fss t"
    and "k \<le> o_subnets C"
  shows "ejecting C (o_subnets C) fss' t'"
  using assms
proof (induction "o_subnets C - k" arbitrary: k fss t)
  case 0
  then show ?case by simp
next
  case (Suc d)
  then have k: "k < o_subnets C" by simp
  then have u: "[k..<o_subnets C] = k # [Suc k..<o_subnets C]" by (simp add: upt_conv_Cons)
  obtain fss1 t1 where 1: "eject_subnet C k (fss, t) = Some (fss1, t1)"
    and 2: "foldM (eject_subnet C) [Suc k..<o_subnets C] (fss1, t1) = Some (fss', t')"
    using Suc.prems(1) by (auto simp: u split: option.splits)
  show ?case
    by (rule Suc.hyps(1) [OF _ 2 eject_subnet_ejecting [OF 1 Suc.prems(2) k]]) (use Suc.hyps(2) k in auto)
qed

subsection \<open>Injection\<close>

definition mids :: "('v, 'w, 'x) traffic_manager \<Rightarrow> tags" where
  "mids t = (\<Sum>i<length (t_net t). image_mset tag (mid_flits (t_net t ! i)))"

definition sending :: "tm_options \<Rightarrow> nat \<Rightarrow> tags \<Rightarrow> ('v, 'w, 'x) traffic_manager \<Rightarrow> bool" where
  "sending C k Z t \<longleftrightarrow> tm_ok C t \<and> 0 < o_classes C \<and>
     (\<forall>i < o_subnets C. mid_cycle (t_net t ! i) \<and>
        (k \<le> i \<longrightarrow> (\<forall>v < o_nodes C. ch_input (inject (t_net t ! i) ! v) = None))) \<and>
     known (t_in_flight t) = waiting (t_partial t) + mids t + Z"

lemma ejecting_sending:
  "ejecting C (o_subnets C) fss t \<Longrightarrow> sending C 0 (queue_tags (map snd (concat fss))) t"
proof -
  assume e: "ejecting C (o_subnets C) fss t"
  then have "length (t_net t) = o_subnets C" by (simp add: ejecting_def tm_ok_def)
  then have "by_turn (o_subnets C) mid_flits net_flits t = mids t"
    by (simp add: by_turn_def mids_def)
  then show ?thesis using e by (simp add: ejecting_def sending_def)
qed

lemma Inject_packets_sending:
  assumes "Inject_packets C t = Some t'" and "sending C k Z t"
  shows "sending C k Z t'"
proof -
  have "books C (t_net t) (mids t + Z) t" using assms(2) by (simp add: books_def sending_def ac_simps)
  then have b: "books C (t_net t) (mids t + Z) t'" by (rule Inject_packets_books [OF assms(1)])
  then have "mids t' = mids t" by (simp add: mids_def books_def)
  then show ?thesis using b assms(2) by (simp add: books_def sending_def ac_simps)
qed

lemma inject_subnet_sending:
  assumes "inject_subnet C k t = Some t'" and "sending C k Z t" and k: "k < o_subnets C"
  shows "sending C (Suc k) Z t'"
proof -
  define rest where "rest u = (\<Sum>i\<in>{..<o_subnets C} - {k}. image_mset tag (mid_flits (t_net u ! i)))"
    for u :: "('a, 'b, 'c) traffic_manager"
  have split: "mids u = image_mset tag (mid_flits (t_net u ! k)) + rest u" if "tm_ok C u"
    for u :: "('a, 'b, 'c) traffic_manager"
  proof -
    have "length (t_net u) = o_subnets C" using that by (simp add: tm_ok_def)
    then show ?thesis unfolding mids_def rest_def using k by (simp add: sum.remove)
  qed
  have s: "tm_ok C t" "0 < o_classes C" using assms(2) by (simp_all add: sending_def)
  have "injecting C k {..<o_nodes C} (rest t + Z) (t_net t) t"
    using assms(2) k split [OF s(1)] by (simp add: injecting_def sending_def ac_simps)
  from inject_subnet_injecting [OF assms(1) this s(2)]
  have i: "injecting C k {} (rest t + Z) (t_net t) t'" .
  then have ok: "tm_ok C t'" and others: "\<And>i. i \<noteq> k \<Longrightarrow> t_net t' ! i = t_net t ! i"
    and mid: "mid_cycle (t_net t' ! k)" by (simp_all add: injecting_def)
  have "rest t' = rest t" unfolding rest_def by (rule sum.cong) (use others in auto)
  then have "known (t_in_flight t') = waiting (t_partial t') + mids t' + Z"
    using i split [OF ok] by (simp add: injecting_def ac_simps)
  moreover have "mid_cycle (t_net t' ! i) \<and>
      (Suc k \<le> i \<longrightarrow> (\<forall>v < o_nodes C. ch_input (inject (t_net t' ! i) ! v) = None))" if "i < o_subnets C" for i
    using that assms(2) others mid by (cases "i = k") (auto simp: sending_def)
  ultimately show ?thesis using ok s(2) by (simp add: sending_def)
qed

lemma inject_subnets:
  assumes "foldM (inject_subnet C) [k..<o_subnets C] t = Some t'" and "sending C k Z t" and "k \<le> o_subnets C"
  shows "sending C (o_subnets C) Z t'"
  using assms
proof (induction "o_subnets C - k" arbitrary: k t)
  case (Suc d)
  then have k: "k < o_subnets C" by simp
  then have u: "[k..<o_subnets C] = k # [Suc k..<o_subnets C]" by (simp add: upt_conv_Cons)
  obtain t1 where 1: "inject_subnet C k t = Some t1"
    and 2: "foldM (inject_subnet C) [Suc k..<o_subnets C] t1 = Some t'"
    using Suc.prems(1) by (auto simp: u split: option.splits)
  show ?case
    by (rule Suc.hyps(1) [OF _ 2 inject_subnet_sending [OF 1 Suc.prems(2) k]]) (use Suc.hyps(2) k in auto)
qed simp

subsection \<open>Retirement\<close>

lemma answer_book [simp]: "book (answer f dst t) = book t"
  by (simp add: answer_def book_def split: flit_type.splits)

lemma take_head_book: "take_head f t = Some (h, t') \<Longrightarrow> book t' = book t"
  by (auto simp: take_head_def book_def Let_def split: if_splits Option.bind_splits)

lemma retire_tail_book:
  assumes "retire_tail f dst t = Some t'"
  shows "book t' = book t"
proof -
  obtain h t1 where h: "take_head f t = Some (h, t1)"
    and t': "book t' = book (answer f dst t1)"
    using assms by (auto simp: retire_tail_def Let_def book_def split: Option.bind_splits if_splits)
  show ?thesis using t' take_head_book [OF h] by simp
qed

lemma RetireFlit_book:
  assumes "RetireFlit f dst t = Some t'"
  shows "nat (f_id f) \<in> set (t_in_flight t ! nat (f_cl f))"
    and "t_in_flight t' = bump (removeAll (nat (f_id f))) (nat (f_cl f)) (t_in_flight t)"
    and "t_partial t' = t_partial t" "t_last_class t' = t_last_class t" "t_cur_id t' = t_cur_id t"
    "t_net t' = t_net t"
proof -
  let ?t1 = "t\<lparr>t_deadlock_timer := 0, t_in_flight := bump (removeAll (nat (f_id f))) (nat (f_cl f)) (t_in_flight t),
                t_measured := (if f_record f then bump (removeAll (nat (f_id f))) (nat (f_cl f)) (t_measured t)
                               else t_measured t),
                t_stats := flit_sample f (t_stats t)\<rparr>"
  obtain t2 where x: "nat (f_id f) \<in> set (t_in_flight t ! nat (f_cl f))"
    and 2: "(if f_tail f then retire_tail f dst ?t1 else Some ?t1) = Some t2"
    and t': "book t' = book t2"
    using assms unfolding RetireFlit_def Let_def
    by (auto simp: book_def split: Option.bind_splits)
  have "book t2 = book ?t1" using 2 retire_tail_book by (auto split: if_splits)
  then show "nat (f_id f) \<in> set (t_in_flight t ! nat (f_cl f))"
    "t_in_flight t' = bump (removeAll (nat (f_id f))) (nat (f_cl f)) (t_in_flight t)"
    "t_partial t' = t_partial t" "t_last_class t' = t_last_class t" "t_cur_id t' = t_cur_id t"
    "t_net t' = t_net t"
    using x t' by (simp_all add: book_def)
qed

definition retiring :: "tm_options \<Rightarrow> nat \<Rightarrow> tags \<Rightarrow> ('v, 'w, 'x) traffic_manager \<Rightarrow> bool" where
  "retiring C k Z t \<longleftrightarrow> tm_ok C t \<and> 0 < o_classes C \<and>
     (\<forall>i < o_subnets C. if i < k then net_ok (t_net t ! i) \<and> latches_empty (t_net t ! i)
        else mid_cycle (t_net t ! i)) \<and>
     known (t_in_flight t) = waiting (t_partial t) + by_turn k net_flits mid_flits t + Z"

lemma sending_retiring: "sending C (o_subnets C) Z t \<Longrightarrow> retiring C 0 Z t"
  by (auto simp: sending_def retiring_def by_turn_def mids_def)

lemma retiring_net:
  assumes "retiring C k Z t" and "k < o_subnets C" and "t' = t\<lparr>t_net := (t_net t)[k := net]\<rparr>"
    and "node_count net = node_count (t_net t ! k)" and "mid_cycle net"
    and "mid_flits net = mid_flits (t_net t ! k)"
  shows "retiring C k Z t'"
proof -
  have ok: "tm_ok C t" using assms(1) by (simp add: retiring_def)
  then have len: "k < length (t_net t)" using assms(2) by (simp add: tm_ok_def)
  then have "node_count (t_net t ! k) = o_nodes C" using ok by (simp add: tm_ok_def)
  then have "tm_ok C t'" unfolding assms(3) using assms(4) by (intro tm_ok_net [OF ok]) simp
  moreover have "by_turn k net_flits mid_flits t' = by_turn k net_flits mid_flits t"
    unfolding by_turn_def assms(3)
    by (rule sum.cong) (auto simp: nth_list_update assms(6))
  ultimately show ?thesis using assms(1,2,3,5) len
    by (auto simp: retiring_def nth_list_update)
qed

lemma WriteCredit_mid:
  assumes "WriteCredit c n net = Some net'"
  shows "node_count net' = node_count net" "mid_cycle net' = mid_cycle net" "mid_flits net' = mid_flits net"
proof -
  obtain x where "net' = net\<lparr>eject_cred := x\<rparr>"
    using assms by (auto simp: WriteCredit_def)
  then show "node_count net' = node_count net" "mid_cycle net' = mid_cycle net" "mid_flits net' = mid_flits net"
    by (simp_all add: node_count_def mid_cycle_def net_ok_def latches_seen_def mid_flits_def router_flits_def
        link_flits_def)
qed

lemma retire_node_retiring:
  assumes "retire_node k (n, f) t = Some t'" and "retiring C k (add_mset (tag f) Z) t" and "k < o_subnets C"
  shows "retiring C k Z t'"
proof -
  define g where "g = f\<lparr>f_atime := int (t_time t)\<rparr>"
  obtain t1 where 1: "on_net k (WriteCredit (Some (Credit_New\<lparr>c_vc := [nat (f_vc g)]\<rparr>)) n) t = Some t1"
    and 2: "RetireFlit g n t1 = Some t'"
    using assms(1) by (auto simp: retire_node_def Let_def g_def split: Option.bind_splits)
  obtain net where w: "WriteCredit (Some (Credit_New\<lparr>c_vc := [nat (f_vc g)]\<rparr>)) n (t_net t ! k) = Some net"
    and t1: "t1 = t\<lparr>t_net := (t_net t)[k := net]\<rparr>"
    using 1 by (auto simp: on_net_def)
  have "mid_cycle (t_net t ! k)" using assms(2,3) by (auto simp: retiring_def)
  then have r1: "retiring C k (add_mset (tag f) Z) t1"
    by (intro retiring_net [OF assms(2,3) t1]) (simp_all add: WriteCredit_mid [OF w])
  note b = RetireFlit_book [OF 2]
  let ?c = "nat (f_cl g)" and ?x = "nat (f_id g)"
  have tg: "tag f = (?c, ?x)" by (simp add: tag_def g_def)
  have "(?c, ?x) \<in># known (t_in_flight t1)" using r1 by (simp add: retiring_def tg)
  then have c: "?c < length (t_in_flight t1)" by (simp add: known_member)
  have g: "given_out (t_cur_id t1) (t_in_flight t1)" using r1 by (simp add: retiring_def tm_ok_def)
  note rem = known_remove [OF g c b(1)]
  have "known (t_in_flight t') = waiting (t_partial t') + by_turn k net_flits mid_flits t' + Z"
    using r1 rem(1) [symmetric] by (simp add: retiring_def b(2-6) by_turn_def tg)
  moreover have "tm_ok C t'" using r1 rem(2)
    by (simp add: retiring_def tm_ok_def b(2-6)) (simp add: bump_def)
  ultimately show ?thesis using r1 by (simp add: retiring_def b(6))
qed

lemma retire_nodes:
  "foldM (retire_node k) fl t = Some t' \<Longrightarrow> retiring C k (queue_tags (map snd fl) + Z) t \<Longrightarrow>
   k < o_subnets C \<Longrightarrow> retiring C k Z t'"
proof (induction fl arbitrary: t)
  case (Cons nf fl)
  obtain n f where nf: "nf = (n, f)" by (cases nf)
  obtain t1 where 1: "retire_node k (n, f) t = Some t1" and 2: "foldM (retire_node k) fl t1 = Some t'"
    using Cons.prems(1) by (auto simp: nf split: option.splits)
  have "retiring C k (queue_tags (map snd fl) + Z) t1"
    by (rule retire_node_retiring [OF 1]) (use Cons.prems nf in simp_all)
  then show ?case by (rule Cons.IH [OF 2 _ Cons.prems(3)])
qed simp

subsection \<open>The networks' own cycle\<close>

lemma finish_subnet_retiring:
  assumes "finish_subnet env M fss k t = Some t'"
    and "retiring C k (queue_tags (map snd (fss ! k)) + Z) t" and k: "k < o_subnets C"
  shows "retiring C (Suc k) Z t'"
proof -
  obtain t1 t2 t3 where 1: "foldM (retire_node k) (fss ! k) t = Some t1"
    and 2: "on_net k (Network_PowerStateEvaluate (t_time t1)) t1 = Some t2"
    and 3: "on_net k (Network_Evaluate (env k) M (t_time t2)) t2 = Some t3"
    and 4: "on_net k (Network_WriteOutputs (t_time t3)) t3 = Some t'"
    using assms(1) by (auto simp: finish_subnet_def split: Option.bind_splits)
  have r1: "retiring C k Z t1" by (rule retire_nodes [OF 1 assms(2) k])
  have len: "k < length (t_net u)" if "retiring C k Z u" for u :: "('a, 'b, 'c) traffic_manager"
    using that k by (simp add: retiring_def tm_ok_def)
  have mid: "mid_cycle (t_net u ! k)" if "retiring C k Z u" for u :: "('a, 'b, 'c) traffic_manager"
    using that k by (auto simp: retiring_def)
  obtain n2 where n2: "Network_PowerStateEvaluate (t_time t1) (t_net t1 ! k) = Some n2"
    and t2: "t2 = t1\<lparr>t_net := (t_net t1)[k := n2]\<rparr>" using 2 by (auto simp: on_net_def)
  note p2 = PowerState_phase [OF n2 mid [OF r1]]
  have r2: "retiring C k Z t2"
    by (rule retiring_net [OF r1 k t2]) (use p2 in \<open>auto simp: node_count_def mid_flits_def link_flits_def\<close>)
  obtain n3 where n3: "Network_Evaluate (env k) M (t_time t2) (t_net t2 ! k) = Some n3"
    and t3: "t3 = t2\<lparr>t_net := (t_net t2)[k := n3]\<rparr>" using 3 by (auto simp: on_net_def)
  note p3 = Evaluate_phase [OF n3 mid [OF r2]]
  have r3: "retiring C k Z t3"
    by (rule retiring_net [OF r2 k t3]) (use p3 in \<open>auto simp: node_count_def mid_flits_def link_flits_def\<close>)
  have e3: "latches_empty (t_net t3 ! k)" using p3 len [OF r2] by (simp add: t3)
  obtain n4 where n4: "Network_WriteOutputs (t_time t3) (t_net t3 ! k) = Some n4"
    and t': "t' = t3\<lparr>t_net := (t_net t3)[k := n4]\<rparr>" using 4 by (auto simp: on_net_def)
  note p4 = WriteOutputs_phase [OF n4 mid [OF r3] e3]
  have ok: "tm_ok C t3" using r3 by (simp add: retiring_def)
  have "node_count (t_net t3 ! k) = o_nodes C" using ok len [OF r3] by (simp add: tm_ok_def)
  then have "tm_ok C t'" unfolding t' using p4 by (intro tm_ok_net [OF ok]) simp
  moreover have "by_turn (Suc k) net_flits mid_flits t' = by_turn k net_flits mid_flits t3"
    using by_turn_step [OF len [OF r3], of t' n4 net_flits mid_flits] p4 by (simp add: t' mid_flits_def)
  ultimately show ?thesis using r3 p4 len [OF r3]
    by (auto simp: retiring_def t' nth_list_update less_Suc_eq)
qed

lemma finish_subnets:
  assumes "foldM (finish_subnet env M fss) [k..<o_subnets C] t = Some t'"
    and "retiring C k (queue_tags (map snd (concat (drop k fss)))) t" and "k \<le> o_subnets C"
    and "length fss = o_subnets C"
  shows "retiring C (o_subnets C) {#} t'"
  using assms
proof (induction "o_subnets C - k" arbitrary: k t)
  case (Suc d)
  then have k: "k < o_subnets C" by simp
  then have u: "[k..<o_subnets C] = k # [Suc k..<o_subnets C]" by (simp add: upt_conv_Cons)
  obtain t1 where 1: "finish_subnet env M fss k t = Some t1"
    and 2: "foldM (finish_subnet env M fss) [Suc k..<o_subnets C] t1 = Some t'"
    using Suc.prems(1) by (auto simp: u split: option.splits)
  have "drop k fss = fss ! k # drop (Suc k) fss" using k Suc.prems(4) by (simp add: Cons_nth_drop_Suc)
  then have "retiring C (Suc k) (queue_tags (map snd (concat (drop (Suc k) fss)))) t1"
    by (intro finish_subnet_retiring [OF 1 _ k]) (use Suc.prems(2) in simp)
  then show ?case by (intro Suc.hyps(1) [OF _ 2]) (use Suc.hyps(2) Suc.prems(4) k in auto)
qed simp

lemma finish_first_subnets:
  assumes "foldM (finish_subnet env M fss) [0..<s] t = Some t'"
    and "retiring C 0 (queue_tags (map snd (concat fss))) t" and "s \<le> o_subnets C" and "length fss = o_subnets C"
  shows "retiring C s (queue_tags (map snd (concat (drop s fss)))) t'"
  using assms
proof (induction s arbitrary: t')
  case (Suc s)
  obtain u where u: "foldM (finish_subnet env M fss) [0..<s] t = Some u" and f: "finish_subnet env M fss s u = Some t'"
    using Suc.prems(1) by (auto simp: foldM_append split: Option.bind_splits option.splits)
  have s: "s < o_subnets C" using Suc.prems(3) by simp
  have "drop s fss = fss ! s # drop (Suc s) fss" using s Suc.prems(4) by (simp add: Cons_nth_drop_Suc)
  moreover have "retiring C s (queue_tags (map snd (concat (drop s fss)))) u"
    by (rule Suc.IH [OF u Suc.prems(2) _ Suc.prems(4)]) (use s in simp)
  ultimately show ?case by (intro finish_subnet_retiring [OF f _ s]) simp
qed simp

lemma resting_ejecting: "resting C t \<Longrightarrow> ejecting C 0 [] t"
  using by_turn_ends(1) [of mid_flits net_flits t]
  by (auto simp: resting_def at_rest_def in_books_def ejecting_def tm_ok_def)

lemma retiring_resting:
  assumes "retiring C (o_subnets C) {#} t"
  shows "resting C t"
proof -
  have len: "length (t_net t) = o_subnets C" using assms by (simp add: retiring_def tm_ok_def)
  then show ?thesis using assms by_turn_ends(2) [of t net_flits mid_flits]
    by (simp add: resting_def at_rest_def in_books_def retiring_def all_set_conv_all_nth)
qed

text \<open>From the start of a cycle up to the point where the ejected flits are retired.\<close>

lemma cycle_retiring:
  assumes 1: "adapt_policies C (watch_deadlock C t) = Some t1"
    and 3: "foldM (eject_subnet C) [0..<o_subnets C] ([], fold (check_idle C) [0..<o_nodes C] t1) = Some (flits, t3)"
    and 4: "(if t_empty_network t3 then Some t3 else Inject_packets C t3) = Some t4"
    and 5: "foldM (inject_subnet C) [0..<o_subnets C] t4 = Some t5"
    and r: "resting C t"
  shows "retiring C 0 (queue_tags (map snd (concat flits))) t5 \<and> length flits = o_subnets C"
proof -
  have "book (watch_deadlock C t) = book t" by (simp add: watch_deadlock_def book_def)
  then have "resting C (watch_deadlock C t)" using r resting_cong by blast
  then have "resting C t1" by (rule adapt_policies_resting [OF 1])
  then have "resting C (fold (check_idle C) [0..<o_nodes C] t1)"
    by (intro fold_invariant' [where P = "resting C"] check_idle_resting)
  from eject_subnets [OF 3 resting_ejecting [OF this]] have e: "ejecting C (o_subnets C) flits t3" by simp
  then have len: "length flits = o_subnets C" by (simp add: ejecting_def)
  let ?Z = "queue_tags (map snd (concat flits))"
  have "sending C 0 ?Z t4"
    using ejecting_sending [OF e] 4 Inject_packets_sending by (auto split: if_splits)
  then have "sending C (o_subnets C) ?Z t5" by (rule inject_subnets [OF 5]) simp
  then show ?thesis using len sending_retiring by blast
qed

lemma Step_resting:
  assumes "Step C env M t = Some t'" and "resting C t"
  shows "resting C t'"
proof -
  obtain t1 flits t3 t4 t5 t6 where 1: "adapt_policies C (watch_deadlock C t) = Some t1"
    and 3: "foldM (eject_subnet C) [0..<o_subnets C] ([], fold (check_idle C) [0..<o_nodes C] t1) = Some (flits, t3)"
    and 4: "(if t_empty_network t3 then Some t3 else Inject_packets C t3) = Some t4"
    and 5: "foldM (inject_subnet C) [0..<o_subnets C] t4 = Some t5"
    and 6: "foldM (finish_subnet env M flits) [0..<o_subnets C] t5 = Some t6"
    and t': "book t' = book t6"
    using assms(1) unfolding Step_def Let_def by (auto simp: book_def split: Option.bind_splits)
  note r = cycle_retiring [OF 1 3 4 5 assms(2)]
  have "retiring C (o_subnets C) {#} t6" by (rule finish_subnets [OF 6]) (simp_all add: r)
  then have "resting C t6" by (rule retiring_resting)
  then show ?thesis by (simp add: resting_cong [OF t'])
qed

end
