(* ===== verification/Drained.thy ===== *)
theory Drained
  imports Traffic_Conservation Packet_Properties
begin

text \<open>
  What the books of the traffic manager are good for: the assertion with which \<open>_RetireFlit\<close> begins
  holds, and the loop that drains the network ends with nothing in it.  With an example of a cycle on a
  2x2 mesh.
\<close>

lemma sum_list_member: "x \<in># f y \<Longrightarrow> y \<in> set ys \<Longrightarrow> x \<in># (\<Sum>y\<leftarrow>ys. f y)"
  by (induction ys) auto

lemma sum_list_none: "(\<Sum>y\<leftarrow>ys. f y) = {#} \<Longrightarrow> y \<in> set ys \<Longrightarrow> f y = {#}"
  by (induction ys) auto

text \<open>C1: the traffic manager knows every flit.  After any cycle of the simulation - packets made, flits
  injected, routers put to sleep or woken, flits ejected and retired - the numbers in
  \<open>_total_in_flight_flits\<close> are exactly those of the flits that wait at the nodes or are in the networks,
  class by class and each once.\<close>

theorem Step_keeps_books:
  assumes "Step C env M t = Some t'" and "at_rest C t" and "in_books t"
  shows "at_rest C t' \<and> in_books t'"
  using Step_resting [OF assms(1)] assms(2,3) by (simp add: resting_def)

text \<open>C6: a flit that arrives is expected.  Take any cycle from its start: votes, idle routers, ejection, new
  packets, injection, and the subnets before \<open>s\<close> finished.  When it is the turn of a flit that node
  \<open>n\<close> has taken from subnet \<open>s\<close>, after the flits of the nodes before it have been retired and its
  credit sent, its number is among those in flight in its class: the first \<open>assert\<close> of
  \<open>_RetireFlit\<close> holds in the state in which it is evaluated.\<close>

theorem ejected_flit_is_known:
  assumes "at_rest C t" and "in_books t"
    and "adapt_policies C (watch_deadlock C t) = Some t1"
    and "foldM (eject_subnet C) [0..<o_subnets C] ([], fold (check_idle C) [0..<o_nodes C] t1) = Some (flits, t2)"
    and "(if t_empty_network t2 then Some t2 else Inject_packets C t2) = Some t3"
    and "foldM (inject_subnet C) [0..<o_subnets C] t3 = Some t4"
    and "foldM (finish_subnet env M flits) [0..<s] t4 = Some t5" and "s < o_subnets C"
    and "flits ! s = ahead @ (n, f) # behind" and "foldM (retire_node s) ahead t5 = Some t6"
    and "on_net s (WriteCredit (Some (Credit_New\<lparr>c_vc := [nat (f_vc f)]\<rparr>)) n) t6 = Some t7"
  shows "nat (f_id f) \<in> set (t_in_flight t7 ! nat (f_cl f))"
proof -
  have "resting C t" using assms(1,2) by (simp add: resting_def)
  note r = cycle_retiring [OF assms(3-6) this]
  have "retiring C s (queue_tags (map snd (concat (drop s flits)))) t5"
    by (rule finish_first_subnets [OF assms(7)]) (use r assms(8) in simp_all)
  moreover have "drop s flits = flits ! s # drop (Suc s) flits" using assms(8) r by (simp add: Cons_nth_drop_Suc)
  ultimately have "retiring C s (queue_tags (map snd ahead) + (add_mset (tag f)
      (queue_tags (map snd behind) + queue_tags (map snd (concat (drop (Suc s) flits)))))) t5"
    by (simp add: assms(9) queue_tags_def)
  from retire_nodes [OF assms(10) this assms(8)] have "tag f \<in># known (t_in_flight t6)"
    by (simp add: retiring_def)
  moreover have "t_in_flight t7 = t_in_flight t6" using assms(11) by (auto simp: on_net_def)
  ultimately show ?thesis by (simp add: tag_def known_member)
qed

lemma drain_network_ends:
  assumes "drain_network C env M t = Some t'" and "resting C t"
  shows "resting C t' \<and> \<not> flits_left t'"
proof -
  have "resting C t \<longrightarrow> resting C t' \<and> \<not> flits_left t'"
  proof (rule drain_network.raw_induct [OF _ assms(1)])
    fix rec :: "tm_options \<Rightarrow> (nat \<Rightarrow> nat \<Rightarrow> flov_router router_env) \<Rightarrow> ('a, 'b, 'c) alloc_methods \<Rightarrow>
      ('a, 'b, 'c) traffic_manager \<Rightarrow> ('a, 'b, 'c) traffic_manager option"
    fix C env M and t t' :: "('a, 'b, 'c) traffic_manager"
    assume IH: "\<And>C env M t t'. rec C env M t = Some t' \<Longrightarrow> resting C t \<longrightarrow> resting C t' \<and> \<not> flits_left t'"
      and run: "(if flits_left t then Step C env M t \<bind> rec C env M else Some t) = Some t'"
    show "resting C t \<longrightarrow> resting C t' \<and> \<not> flits_left t'"
    proof
      assume r: "resting C t"
      show "resting C t' \<and> \<not> flits_left t'"
      proof (cases "flits_left t")
        case True
        then obtain t1 where 1: "Step C env M t = Some t1" and 2: "rec C env M t1 = Some t'"
          using run by (auto split: Option.bind_splits)
        show ?thesis using IH [OF 2] Step_resting [OF 1 r] by blast
      qed (use run r in simp)
    qed
  qed
  then show ?thesis using assms(2) by blast
qed

lemma nothing_left:
  assumes "in_books t" and "\<not> flits_left t"
  shows "(\<forall>net \<in> set (t_net t). net_flits net = {#}) \<and> (\<forall>row \<in> set (t_partial t). \<forall>q \<in> set row. q = [])"
proof -
  have "t_in_flight t ! c = []" if "c < length (t_in_flight t)" for c
    using assms(2) that by (auto simp: flits_left_def)
  then have "known (t_in_flight t) = {#}" by (simp add: known_def)
  then have z: "waiting (t_partial t) = {#}" "(\<Sum>net\<leftarrow>t_net t. image_mset tag (net_flits net)) = {#}"
    using assms(1) by (simp_all add: in_books_def)
  have "net_flits net = {#}" if "net \<in> set (t_net t)" for net
    using sum_list_none [OF z(2) that] by simp
  moreover have "q = []" if "row \<in> set (t_partial t)" "q \<in> set row" for row q
    using sum_list_none [OF sum_list_none [OF z(1) [unfolded waiting_def] that(1)] that(2)]
    by (simp add: queue_tags_def)
  ultimately show ?thesis by blast
qed

text \<open>C2: drained means empty.  When the loop of \<open>Run\<close> that steps until \<open>_total_in_flight_flits\<close> is empty
  ends, no flit is left anywhere: none waits at a node, and none is in a router, asleep or awake, or on a
  channel.\<close>

theorem drained_network_is_empty:
  assumes "drain_network C env M t = Some t'" and "at_rest C t" and "in_books t"
  shows "(\<forall>net \<in> set (t_net t'). net_flits net = {#}) \<and> (\<forall>row \<in> set (t_partial t'). \<forall>q \<in> set row. q = [])"
  using drain_network_ends [OF assms(1)] assms(2,3) nothing_left [of t'] by (simp add: resting_def)

subsection \<open>An example\<close>

definition example_manager :: "(selalloc, selalloc, selalloc) traffic_manager" where
  "example_manager = idle_manager\<lparr>t_net := [example_mesh]\<rparr>"

lemma example_manager_resting: "at_rest example_options example_manager" "in_books example_manager"
proof -
  have "net_ok example_mesh" "latches_empty example_mesh" "node_count example_mesh = 4"
    "net_flits example_mesh = {#}"
    by code_simp+
  then show "at_rest example_options example_manager" "in_books example_manager"
    by (simp_all add: at_rest_def in_books_def tm_ok_def example_manager_def idle_manager_def example_options_def
        filed_def given_out_def known_def waiting_def numeral_eq_Suc)
qed

text \<open>The same mesh while it is emptied, with the last flit about to leave.\<close>

definition last_flit :: flit where
  "last_flit = (example_flit 0 0 True True)\<lparr>f_dest := 1, f_itime := 0\<rparr>"

definition example_last :: "(selalloc, selalloc, selalloc) traffic_manager" where
  "example_last = example_manager\<lparr>
     t_net := [example_mesh\<lparr>eject := bump (\<lambda>ch. ch\<lparr>ch_output := Some last_flit\<rparr>) 1 (eject example_mesh)\<rparr>],
     t_empty_network := True, t_cur_id := 1, t_in_flight := [[0]]\<rparr>"

lemma example_last_resting: "at_rest example_options example_last" "in_books example_last"
proof -
  let ?net = "example_mesh\<lparr>eject := bump (\<lambda>ch. ch\<lparr>ch_output := Some last_flit\<rparr>) 1 (eject example_mesh)\<rparr>"
  have "net_ok ?net" "latches_empty ?net" "node_count ?net = 4" "image_mset tag (net_flits ?net) = {#(0, 0)#}"
    by code_simp+
  then show "at_rest example_options example_last" "in_books example_last"
    by (simp_all add: at_rest_def in_books_def tm_ok_def example_last_def example_manager_def idle_manager_def
        example_options_def filed_def given_out_def known_def waiting_def numeral_eq_Suc)
qed

lemma ejected_flit_is_known_witness:
  "\<exists>t1 flits t2 t4 t7. adapt_policies example_options (watch_deadlock example_options example_last) = Some t1 \<and>
     foldM (eject_subnet example_options) [0..<o_subnets example_options]
       ([], fold (check_idle example_options) [0..<o_nodes example_options] t1) = Some (flits, t2) \<and>
     foldM (inject_subnet example_options) [0..<o_subnets example_options] t2 = Some t4 \<and> flits ! 0 = [(1, last_flit)] \<and>
     on_net 0 (WriteCredit (Some (Credit_New\<lparr>c_vc := [nat (f_vc last_flit)]\<rparr>)) 1) t4 = Some t7 \<and>
     0 \<in> set (t_in_flight t7 ! 0)"
proof -
  let ?C = example_options
  have "do {
      t1 \<leftarrow> adapt_policies ?C (watch_deadlock ?C example_last);
      (flits, t2) \<leftarrow> foldM (eject_subnet ?C) [0..<o_subnets ?C] ([], fold (check_idle ?C) [0..<o_nodes ?C] t1);
      assertion (t_empty_network t2 \<and> flits ! 0 = [(1, last_flit)]);
      t4 \<leftarrow> foldM (inject_subnet ?C) [0..<o_subnets ?C] t2;
      on_net 0 (WriteCredit (Some (Credit_New\<lparr>c_vc := [nat (f_vc last_flit)]\<rparr>)) 1) t4 } \<noteq> None"
    by code_simp
  then obtain t1 flits t2 t4 t7 where run: "adapt_policies ?C (watch_deadlock ?C example_last) = Some t1"
    "foldM (eject_subnet ?C) [0..<o_subnets ?C] ([], fold (check_idle ?C) [0..<o_nodes ?C] t1) = Some (flits, t2)"
    "(if t_empty_network t2 then Some t2 else Inject_packets ?C t2) = Some t2"
    "foldM (inject_subnet ?C) [0..<o_subnets ?C] t2 = Some t4"
    and f: "flits ! 0 = [(1, last_flit)]"
    and t7: "on_net 0 (WriteCredit (Some (Credit_New\<lparr>c_vc := [nat (f_vc last_flit)]\<rparr>)) 1) t4 = Some t7"
    by (auto simp: assertion_def simp del: foldM.simps split: Option.bind_splits if_splits)
  have "0 < o_subnets ?C" "nat (f_id last_flit) = 0" "nat (f_cl last_flit) = 0" by code_simp+
  then have "0 \<in> set (t_in_flight t7 ! 0)"
    using ejected_flit_is_known [OF example_last_resting run, of "\<lambda>_. example_mesh_env" example_methods 0 t4 "[]" 1 last_flit "[]" t4 t7]
      f t7 by simp
  then show ?thesis using run(1,2,4) f t7 by blast
qed

lemma drained_network_is_empty_witness:
  "\<exists>t'. drain_network example_options (\<lambda>_. example_mesh_env) example_methods example_last = Some t' \<and>
     (\<forall>net \<in> set (t_net t'). net_flits net = {#})"
proof -
  have "drain_network example_options (\<lambda>_. example_mesh_env) example_methods example_last \<noteq> None"
    by code_simp
  then obtain t' where
    "drain_network example_options (\<lambda>_. example_mesh_env) example_methods example_last = Some t'" by auto
  with drained_network_is_empty [OF this example_last_resting] show ?thesis by blast
qed

lemma Step_keeps_books_witness:
  "\<exists>t'. Step example_options (\<lambda>_. example_mesh_env) example_methods example_manager = Some t' \<and>
     t_in_flight t' = [[0, 1, 2]] \<and> in_books t'"
proof -
  have "map_option t_in_flight (Step example_options (\<lambda>_. example_mesh_env) example_methods example_manager) =
      Some [[0, 1, 2]]"
    by code_simp
  then obtain t' where "Step example_options (\<lambda>_. example_mesh_env) example_methods example_manager = Some t'"
    "t_in_flight t' = [[0, 1, 2]]" by auto
  with Step_keeps_books [OF this(1) example_manager_resting] show ?thesis by blast
qed

end
