(* ===== verification/Simulation_Run.thy ===== *)
theory Simulation_Run
  imports Traffic_Step
begin

text \<open>
  A whole run: \<open>_SingleSim\<close> and \<open>Run\<close> of src/booksim2/src/trafficmanager.cpp, as the FLOV traffic manager
  inherits them.  It is made for \<open>sim_type = flov\<close>, so \<open>_measure_latency\<close>, which is
  \<open>sim_type == "latency"\<close>, is false: latencies are printed but decide nothing, and the recorded packets
  are not waited for.  Rates are rationals; where the code divides by zero, the comparison it makes with
  the infinity or NaN is written out.
\<close>

record sim_config =
  sc_sample_period :: nat
  sc_max_samples :: nat
  sc_warmup_periods :: int
  sc_converged_threshold :: int
  sc_acc_warmup_threshold :: "rat list"
  sc_acc_stopping_threshold :: "rat list"
  sc_total_sims :: nat

text \<open>\<open>_ComputeStats\<close>: the sum, and the least and the greatest value with the first place of each.\<close>

definition stats_turn :: "nat list \<Rightarrow> nat \<Rightarrow> nat \<times> nat \<times> nat \<Rightarrow> nat \<times> nat \<times> nat" where
  "stats_turn counts i s = (case s of (acc, min_pos, max_pos) \<Rightarrow>
     let curr = counts ! i
     in (acc + curr, if curr < counts ! min_pos then i else min_pos, if curr > counts ! max_pos then i else max_pos))"

definition ComputeStats :: "nat list \<Rightarrow> (nat \<times> nat \<times> nat) option" where
  "ComputeStats counts = do {
     assertion (counts \<noteq> []);
     Some (fold (stats_turn counts) [1..<length counts] (counts ! 0, 0, 0))
   }"

text \<open>\<open>fabs((cur - prev) / cur) > threshold\<close>.\<close>

definition change_exceeds :: "rat \<Rightarrow> rat \<Rightarrow> rat \<Rightarrow> bool" where
  "change_exceeds cur prev threshold \<longleftrightarrow>
     (if cur = 0 then prev \<noteq> 0 else \<bar>(cur - prev) / cur\<bar> > threshold)"

text \<open>One turn of the loop over the classes: the accepted throughput and whether it has changed too much.\<close>

definition accepted_rate :: "tm_options \<Rightarrow> ('v, 'w, 'x) traffic_manager \<Rightarrow> nat \<Rightarrow> rat" where
  "accepted_rate C t cnt =
     of_nat cnt / of_nat (t_time t - t_reset_time t) / of_nat (o_nodes C)"

definition check_class ::
  "tm_options \<Rightarrow> sim_config \<Rightarrow> ('v, 'w, 'x) traffic_manager \<Rightarrow> nat \<Rightarrow> bool \<times> rat list \<Rightarrow> (bool \<times> rat list) option" where
  "check_class C S t c s = (case s of (exceeded, prev) \<Rightarrow>
     if \<not> o_measure C ! c then Some s
     else do {
       (cnt, _, _) \<leftarrow> ComputeStats (s_accepted_flits (t_stats t) ! c);
       (let cur = accepted_rate C t cnt;
            too_much = (\<lambda>thr. thr \<ge> 0 \<and> change_exceeds cur (prev ! c) thr)
        in Some (exceeded \<or>
                 (t_sim_state t = warming_up \<and> too_much (sc_acc_warmup_threshold S ! c)) \<or>
                 (t_sim_state t = running \<and> too_much (sc_acc_stopping_threshold S ! c)),
                 prev[c := cur]))
     })"

text \<open>What \<open>_SingleSim\<close> keeps in local variables.\<close>

record phases =
  ph_converged :: nat
  ph_prev_accepted :: "rat list"
  ph_clear_last :: bool
  ph_total :: nat

definition more_phases :: "sim_config \<Rightarrow> phases \<Rightarrow> ('v, 'w, 'x) traffic_manager \<Rightarrow> bool" where
  "more_phases S p t \<longleftrightarrow>
     ph_total p < sc_max_samples S \<and>
     (t_sim_state t \<noteq> running \<or> sc_converged_threshold S = -1 \<or> int (ph_converged p) < sc_converged_threshold S)"

definition start_phase ::
  "tm_options \<Rightarrow> phases \<Rightarrow> ('v, 'w, 'x) traffic_manager \<Rightarrow> phases \<times> ('v, 'w, 'x) traffic_manager" where
  "start_phase C p t =
     (if ph_clear_last p \<or> (t_sim_state t = warming_up \<and> ph_total p mod 2 = 0)
      then (p\<lparr>ph_clear_last := False\<rparr>, ClearStats C t) else (p, t))"

definition end_phase ::
  "sim_config \<Rightarrow> bool \<Rightarrow> phases \<Rightarrow> ('v, 'w, 'x) traffic_manager \<Rightarrow> phases \<times> ('v, 'w, 'x) traffic_manager" where
  "end_phase S exceeded p t =
     (if t_sim_state t = warming_up
      then (if (if sc_warmup_periods S > 0 then int (ph_total p) + 1 \<ge> sc_warmup_periods S else \<not> exceeded)
            then (p\<lparr>ph_clear_last := True\<rparr>, t\<lparr>t_sim_state := running\<rparr>) else (p, t))
      else if t_sim_state t = running
      then (p\<lparr>ph_converged := if exceeded then 0 else Suc (ph_converged p)\<rparr>, t)
      else (p, t))"

definition sim_phase ::
  "tm_options \<Rightarrow> sim_config \<Rightarrow> (nat \<Rightarrow> nat \<Rightarrow> flov_router router_env) \<Rightarrow> ('v, 'w, 'x) alloc_methods
     \<Rightarrow> phases \<times> ('v, 'w, 'x) traffic_manager \<Rightarrow> (phases \<times> ('v, 'w, 'x) traffic_manager) option" where
  "sim_phase C S env M s = (case s of (p0, t0) \<Rightarrow>
     case start_phase C p0 t0 of (p, t) \<Rightarrow> do {
       t1 \<leftarrow> foldM (\<lambda>_. Step C env M) [0..<sc_sample_period S] t;
       (exceeded, prev) \<leftarrow> foldM (check_class C S t1) [0..<o_classes C] (False, ph_prev_accepted p);
       (case end_phase S exceeded (p\<lparr>ph_prev_accepted := prev\<rparr>) t1 of (p2, t2) \<Rightarrow>
          Some (p2\<lparr>ph_total := Suc (ph_total p2)\<rparr>, t2))
     })"

lemma sim_phase_counts: "sim_phase C S env M s = Some s' \<Longrightarrow> ph_total (fst s') = Suc (ph_total (fst s))"
  by (auto simp: sim_phase_def start_phase_def end_phase_def split: prod.splits if_splits Option.bind_splits)

function sim_phases ::
  "tm_options \<Rightarrow> sim_config \<Rightarrow> (nat \<Rightarrow> nat \<Rightarrow> flov_router router_env) \<Rightarrow> ('v, 'w, 'x) alloc_methods
     \<Rightarrow> phases \<times> ('v, 'w, 'x) traffic_manager \<Rightarrow> (phases \<times> ('v, 'w, 'x) traffic_manager) option" where
  "sim_phases C S env M s =
     (if more_phases S (fst s) (snd s)
      then (case sim_phase C S env M s of None \<Rightarrow> None | Some s' \<Rightarrow> sim_phases C S env M s') else Some s)"
  by pat_completeness auto

termination
  by (relation "measure (\<lambda>(C, S, env, M, s). sc_max_samples S - ph_total (fst s))")
    (auto simp: more_phases_def dest: sim_phase_counts)

declare sim_phases.simps [simp del]

definition SingleSim ::
  "tm_options \<Rightarrow> sim_config \<Rightarrow> (nat \<Rightarrow> nat \<Rightarrow> flov_router router_env) \<Rightarrow> ('v, 'w, 'x) alloc_methods
     \<Rightarrow> ('v, 'w, 'x) traffic_manager \<Rightarrow> (bool \<times> ('v, 'w, 'x) traffic_manager) option" where
  "SingleSim C S env M t = do {
     (p, t1) \<leftarrow> sim_phases C S env M
       (\<lparr>ph_converged = 0, ph_prev_accepted = replicate (o_classes C) 0, ph_clear_last = False, ph_total = 0\<rparr>, t);
     Some (if t_sim_state t1 = running
           then (Suc (ph_converged p) > 0, t1\<lparr>t_sim_state := sim_draining, t_drain_time := int (t_time t1)\<rparr>)
           else (ph_converged p > 0, t1))
   }"

subsection \<open>All simulations\<close>

definition start_sim :: "tm_options \<Rightarrow> ('v, 'w, 'x) traffic_manager \<Rightarrow> ('v, 'w, 'x) traffic_manager" where
  "start_sim C t =
     (let t1 = t\<lparr>t_time := 0, t_requests := replicate (o_nodes C) 0,
                 t_replies := map (\<lambda>i. if i < o_nodes C then [] else t_replies t ! i) [0..<length (t_replies t)],
                 t_qtime := map (\<lambda>s. if s < o_nodes C then replicate (o_classes C) 0 else t_qtime t ! s) [0..<length (t_qtime t)],
                 t_qdrained := map (\<lambda>s. if s < o_nodes C then replicate (o_classes C) False else t_qdrained t ! s)
                                 [0..<length (t_qdrained t)],
                 t_sim_state := warming_up\<rparr>
      in (ClearStats C t1)\<lparr>t_process := map process_reset (t_process t1)\<rparr>)"

text \<open>The loops that wait for the last credits and handshakes; \<open>pending\<close> is the number of objects of the
  pool that are in use.\<close>

partial_function (option) step_while ::
  "(('v, 'w, 'x) traffic_manager \<Rightarrow> nat) \<Rightarrow> tm_options \<Rightarrow> (nat \<Rightarrow> nat \<Rightarrow> flov_router router_env)
     \<Rightarrow> ('v, 'w, 'x) alloc_methods \<Rightarrow> ('v, 'w, 'x) traffic_manager \<Rightarrow> ('v, 'w, 'x) traffic_manager option" where
  "step_while pending C env M t =
     (if pending t \<noteq> 0 then do { t1 \<leftarrow> Step C env M t; step_while pending C env M t1 } else Some t)"

declare step_while.simps [code]

definition empty_network ::
  "(('v, 'w, 'x) traffic_manager \<Rightarrow> nat) \<Rightarrow> (('v, 'w, 'x) traffic_manager \<Rightarrow> nat) \<Rightarrow> tm_options
     \<Rightarrow> (nat \<Rightarrow> nat \<Rightarrow> flov_router router_env) \<Rightarrow> ('v, 'w, 'x) alloc_methods
     \<Rightarrow> ('v, 'w, 'x) traffic_manager \<Rightarrow> ('v, 'w, 'x) traffic_manager option" where
  "empty_network credits handshakes C env M t = do {
     t1 \<leftarrow> drain_network C env M (t\<lparr>t_empty_network := True\<rparr>);
     t2 \<leftarrow> step_while credits C env M t1;
     t3 \<leftarrow> step_while handshakes C env M t2;
     Some (t3\<lparr>t_empty_network := False\<rparr>)
   }"

text \<open>One turn of the loop over the simulations; the boolean says that all have been stable so far.\<close>

definition run_sim ::
  "(('v, 'w, 'x) traffic_manager \<Rightarrow> nat) \<Rightarrow> (('v, 'w, 'x) traffic_manager \<Rightarrow> nat) \<Rightarrow> tm_options \<Rightarrow> sim_config
     \<Rightarrow> (nat \<Rightarrow> nat \<Rightarrow> flov_router router_env) \<Rightarrow> ('v, 'w, 'x) alloc_methods \<Rightarrow> nat
     \<Rightarrow> bool \<times> ('v, 'w, 'x) traffic_manager \<Rightarrow> (bool \<times> ('v, 'w, 'x) traffic_manager) option" where
  "run_sim credits handshakes C S env M sim s = (case s of (ok_so_far, t) \<Rightarrow>
     if \<not> ok_so_far then Some s
     else do {
       (ok, t1) \<leftarrow> SingleSim C S env M (start_sim C t);
       (if \<not> ok then Some (False, t1)
        else map_option (Pair True) (empty_network credits handshakes C env M t1))
     })"

definition Run ::
  "(('v, 'w, 'x) traffic_manager \<Rightarrow> nat) \<Rightarrow> (('v, 'w, 'x) traffic_manager \<Rightarrow> nat) \<Rightarrow> tm_options \<Rightarrow> sim_config
     \<Rightarrow> (nat \<Rightarrow> nat \<Rightarrow> flov_router router_env) \<Rightarrow> ('v, 'w, 'x) alloc_methods
     \<Rightarrow> ('v, 'w, 'x) traffic_manager \<Rightarrow> (bool \<times> ('v, 'w, 'x) traffic_manager) option" where
  "Run credits handshakes C S env M t =
     foldM (run_sim credits handshakes C S env M) [0..<sc_total_sims S] (True, t)"

end
