(* ===== verification/Simulation_Properties.thy ===== *)
theory Simulation_Properties
  imports Simulation_Run Drained
begin

text \<open>
  What a run of the simulator does: how long the phases of a simulation last and how they end, and that
  every stable simulation leaves an empty network to the next.
\<close>

subsection \<open>The clock\<close>

text \<open>What only \<open>_Step\<close> itself and \<open>Run\<close> change, and the flits in flight, which only \<open>_Inject\<close> adds to.\<close>

definition clock :: "('v, 'w, 'x) traffic_manager \<Rightarrow> nat \<times> sim_state \<times> bool \<times> int" where
  "clock t = (t_time t, t_sim_state t, t_empty_network t, t_drain_time t)"

definition shrinks :: "('v, 'w, 'x) traffic_manager \<Rightarrow> ('v, 'w, 'x) traffic_manager \<Rightarrow> bool" where
  "shrinks t t' \<longleftrightarrow> clock t' = clock t \<and> length (t_in_flight t') = length (t_in_flight t) \<and>
     (\<forall>c<length (t_in_flight t). set (t_in_flight t' ! c) \<subseteq> set (t_in_flight t ! c))"

lemma shrinks_refl [simp]: "shrinks t t"
  by (simp add: shrinks_def)

lemma shrinks_trans: "shrinks t t' \<Longrightarrow> shrinks t' t'' \<Longrightarrow> shrinks t t''"
  unfolding shrinks_def by (metis order_trans)

lemma shrinks_same: "clock t' = clock t \<Longrightarrow> t_in_flight t' = t_in_flight t \<Longrightarrow> shrinks t t'"
  by (simp add: shrinks_def)

lemma foldM_shrinks:
  assumes "foldM f xs t = Some t'" and "\<And>x t t'. f x t = Some t' \<Longrightarrow> shrinks t t'"
  shows "shrinks t t'"
  using assms(1)
proof (induction xs arbitrary: t)
  case (Cons x xs)
  then obtain u where "f x t = Some u" "foldM f xs u = Some t'" by (auto split: option.splits)
  then show ?case using Cons.IH assms(2) shrinks_trans by blast
qed simp

lemma on_net_shrinks: "on_net s f t = Some t' \<Longrightarrow> shrinks t t'"
  by (auto simp: on_net_def clock_def intro!: shrinks_same)

lemma adapt_policies_shrinks:
  assumes "adapt_policies C t = Some t'"
  shows "shrinks t t'"
proof -
  have cast: "clock (cast_votes C w row col u) = clock u \<and> t_in_flight (cast_votes C w row col u) = t_in_flight u"
    for w row col and u :: "('a, 'b, 'c) traffic_manager"
    by (simp add: cast_votes_def Let_def clock_def)
  have vote: "clock (apply_vote C n u) = clock u \<and> t_in_flight (apply_vote C n u) = t_in_flight u"
    for n and u :: "('a, 'b, 'c) traffic_manager"
    by (simp add: apply_vote_def Let_def clock_def)
  have row: "clock (fold (cast_votes C w row) cols u) = clock u \<and>
      t_in_flight (fold (cast_votes C w row) cols u) = t_in_flight u"
    for w row cols and u :: "('a, 'b, 'c) traffic_manager"
    by (induction cols arbitrary: u) (simp_all add: cast)
  have rows: "clock (fold (\<lambda>row. fold (cast_votes C w row) cols) rs u) = clock u \<and>
      t_in_flight (fold (\<lambda>row. fold (cast_votes C w row) cols) rs u) = t_in_flight u"
    for w cols rs and u :: "('a, 'b, 'c) traffic_manager"
    by (induction rs arbitrary: u) (simp_all add: row)
  have applies: "clock (fold (apply_vote C) ns u) = clock u \<and> t_in_flight (fold (apply_vote C) ns u) = t_in_flight u"
    for ns and u :: "('a, 'b, 'c) traffic_manager"
    by (induction ns arbitrary: u) (simp_all add: vote)
  have "clock (u\<lparr>t_monitor_counter := 0\<rparr>) = clock u" for u :: "('a, 'b, 'c) traffic_manager"
    by (simp add: clock_def)
  then show ?thesis
    using assms rows applies by (intro shrinks_same) (auto simp: adapt_policies_def Let_def split: if_splits)
qed

lemma check_idle_shrinks: "shrinks t (check_idle C n t)"
  by (auto simp: check_idle_def clock_def intro!: shrinks_same)

lemma eject_subnet_shrinks:
  assumes "eject_subnet C s w = Some w'"
  shows "shrinks (snd w) (snd w')"
proof -
  obtain fss t fss' t' where w: "w = (fss, t)" "w' = (fss', t')" by (cases w; cases w')
  have node: "shrinks (snd u) (snd u')" if "eject_node s n u = Some u'" for n u and u' :: "(nat \<times> flit) list \<times> ('a, 'b, 'c) traffic_manager"
    using that by (cases u) (auto simp: eject_node_def Let_def clock_def split: option.splits if_splits intro!: shrinks_same)
  have nodes: "shrinks (snd u) (snd u')" if "foldM (eject_node s) ns u = Some u'" for ns u and u' :: "(nat \<times> flit) list \<times> ('a, 'b, 'c) traffic_manager"
    using that
  proof (induction ns arbitrary: u)
    case (Cons n ns)
    then obtain v where "eject_node s n u = Some v" "foldM (eject_node s) ns v = Some u'" by (auto split: option.splits)
    then show ?case using Cons.IH node shrinks_trans by blast
  qed simp
  obtain flits t1 where 1: "foldM (eject_node s) [0..<o_nodes C] ([], t) = Some (flits, t1)"
    and 2: "on_net s (Network_ReadInputs (t_time t1)) t1 = Some t'"
    using assms by (auto simp: eject_subnet_def w split: Option.bind_splits)
  show ?thesis using nodes [OF 1] on_net_shrinks [OF 2] shrinks_trans by (fastforce simp: w)
qed

lemma set_first_shrinks: "shrinks t (set_first n c f t)"
  by (auto simp: set_first_def clock_def intro!: shrinks_same)

lemma call_wakeup_shrinks: "shrinks t (call_wakeup s n v t)"
  by (auto simp: call_wakeup_def clock_def intro!: shrinks_same)

lemma wakeup_latency_shrinks: "shrinks t (t\<lparr>t_wakeup_latency := x\<rparr>)"
  by (auto simp: clock_def intro!: shrinks_same)

lemma find_vc_shrinks: "find_vc C s n c r p t = Some t' \<Longrightarrow> shrinks t t'"
  by (auto simp: find_vc_def Let_def set_first_shrinks split: Option.bind_splits if_splits)

lemma consider_flit_shrinks: "consider_flit s n c best t = Some st' \<Longrightarrow> shrinks t (snd (snd st'))"
  by (auto simp: consider_flit_def Let_def split: Option.bind_splits if_splits)

lemma try_class_shrinks:
  assumes "try_class C s n lc i st = Some st'"
  shows "shrinks (snd (snd st)) (snd (snd st'))"
proof -
  obtain best left t where st: "st = (best, left, t)" by (cases st)
  have two: "shrinks t (snd (snd st'))" if "find_vc C s n c r p (t\<lparr>t_wakeup_latency := x\<rparr>) = Some t'"
    "consider_flit s n c best t' = Some st'" for t' c r p x
    using find_vc_shrinks [OF that(1)] consider_flit_shrinks [OF that(2)] wakeup_latency_shrinks shrinks_trans by blast
  show ?thesis
    using assms
    by (auto simp: try_class_def st Let_def call_wakeup_shrinks split: if_splits list.splits Option.bind_splits
        dest: consider_flit_shrinks two)
qed

lemma try_classes_shrink:
  "foldM (try_class C s n lc) is st = Some st' \<Longrightarrow> shrinks (snd (snd st)) (snd (snd st'))"
proof (induction "is" arbitrary: st)
  case (Cons i js)
  then obtain u where "try_class C s n lc i st = Some u" "foldM (try_class C s n lc) js u = Some st'"
    by (auto split: option.splits)
  then show ?case using Cons.IH try_class_shrinks shrinks_trans by blast
qed simp

lemma open_packet_shrinks: "open_packet C s n c v p t = Some t' \<Longrightarrow> shrinks t t'"
  by (auto simp: open_packet_def set_first_def clock_def Let_def split: Option.bind_splits if_splits
      intro!: shrinks_same)

lemma send_flit_shrinks:
  assumes "send_flit C s n c t = Some t'"
  shows "shrinks t t'"
proof -
  obtain u f where "on_net s f u = Some t'" "clock u = clock t" "t_in_flight u = t_in_flight t"
    using assms by (auto simp: send_flit_def Let_def clock_def split: Option.bind_splits if_splits)
  then show ?thesis using on_net_shrinks shrinks_same shrinks_trans by blast
qed

lemma send_best_shrinks:
  assumes "send_best C s n b t = Some (left, t')"
  shows "shrinks t t'"
proof -
  have two: "shrinks t t''" if "open_packet C s n c v p (t\<lparr>t_wakeup_latency := x\<rparr>) = Some t1"
    "send_flit C s n c t1 = Some t''" for c v p x t1 t''
    using open_packet_shrinks [OF that(1)] send_flit_shrinks [OF that(2)] wakeup_latency_shrinks shrinks_trans by blast
  show ?thesis
    using assms
    by (auto simp: send_best_def Let_def call_wakeup_shrinks split: if_splits Option.bind_splits
        dest: send_flit_shrinks two)
qed

lemma inject_node_shrinks:
  assumes "inject_node C s n st = Some st'"
  shows "shrinks (snd st) (snd st')"
proof -
  obtain left t where st: "st = (left, t)" by (cases st)
  show ?thesis
  proof (cases left)
    case True
    then show ?thesis using assms by (simp add: inject_node_def st)
  next
    case False
    obtain held best l t1 where 1: "foldM (try_class C s n (t_last_class t ! n ! s))
        [1..<Suc (if held = None then o_classes C else o_classes C - 1)] (held, False, t) = Some (best, l, t1)"
      and 2: "(case best of None \<Rightarrow> Some (False, t1) | Some b \<Rightarrow> send_best C s n b t1) = Some st'"
      using assms False by (auto simp: inject_node_def st simp del: upt_Suc split: Option.bind_splits)
    have "shrinks t1 (snd st')" using 2 by (cases st') (auto split: option.splits dest: send_best_shrinks)
    then show ?thesis using try_classes_shrink [OF 1] shrinks_trans by (fastforce simp: st)
  qed
qed

lemma inject_subnet_shrinks:
  assumes "inject_subnet C s t = Some t'"
  shows "shrinks t t'"
proof -
  have nodes: "shrinks (snd u) (snd u')" if "foldM (inject_node C s) ns u = Some u'"
    for ns and u u' :: "bool \<times> ('a, 'b, 'c) traffic_manager"
    using that
  proof (induction ns arbitrary: u)
    case (Cons n ns)
    then obtain v where "inject_node C s n u = Some v" "foldM (inject_node C s) ns v = Some u'"
      by (auto split: option.splits)
    then show ?case using Cons.IH inject_node_shrinks shrinks_trans by blast
  qed simp
  show ?thesis using assms nodes by (fastforce simp: inject_subnet_def)
qed

lemma RetireFlit_shrinks:
  assumes "RetireFlit f dst t = Some t'"
  shows "shrinks t t'"
proof -
  let ?c = "nat (f_cl f)"
  have tail: "clock u' = clock u \<and> t_in_flight u' = t_in_flight u" if "retire_tail f dst u = Some u'"
    for u u' :: "('a, 'b, 'c) traffic_manager"
    using that by (auto simp: retire_tail_def take_head_def answer_def clock_def Let_def
        split: if_splits Option.bind_splits flit_type.splits)
  have "clock t' = clock t" "t_in_flight t' = bump (removeAll (nat (f_id f))) ?c (t_in_flight t)"
    using assms tail
    by (auto simp: RetireFlit_def Let_def clock_def split: if_splits Option.bind_splits)
  moreover have "set (bump (removeAll x) c xss ! i) \<subseteq> set (xss ! i)" for x c i and xss :: "nat list list"
    by (cases "i = c"; cases "c < length xss") (auto simp: bump_def not_less list_update_beyond)
  ultimately show ?thesis by (simp add: shrinks_def bump_def)
qed

lemma finish_subnet_shrinks:
  assumes "finish_subnet env M flits s t = Some t'"
  shows "shrinks t t'"
proof -
  have node: "shrinks u u'" if "retire_node s nf u = Some u'" for nf and u u' :: "('a, 'b, 'c) traffic_manager"
    using that on_net_shrinks RetireFlit_shrinks shrinks_trans
    by (fastforce simp: retire_node_def Let_def split: prod.splits Option.bind_splits)
  obtain t1 t2 t3 where "foldM (retire_node s) (flits ! s) t = Some t1"
    "on_net s (Network_PowerStateEvaluate (t_time t1)) t1 = Some t2"
    "on_net s (Network_Evaluate (env s) M (t_time t2)) t2 = Some t3"
    "on_net s (Network_WriteOutputs (t_time t3)) t3 = Some t'"
    using assms by (auto simp: finish_subnet_def split: Option.bind_splits)
  then show ?thesis
    using foldM_shrinks [of "retire_node s", OF _ node] on_net_shrinks shrinks_trans by meson
qed

subsection \<open>Making packets\<close>

lemma read_write_packet_clock: "read_write_packet C src cl stype dst time t = Some (ty, n, d, tm, r, t') \<Longrightarrow> clock t' = clock t"
  by (auto simp: read_write_packet_def clock_def Let_def split: if_splits list.splits)

lemma add_flits_clock:
  "foldM (add_flit C src cl type n dst time rec pid subnet) is t = Some t' \<Longrightarrow> clock t' = clock t"
  by (induction "is" arbitrary: t) (auto simp: add_flit_def clock_def Let_def split: option.splits Option.bind_splits)

lemma GeneratePacket_clock:
  assumes "GeneratePacket C src stype cl time t = Some t'"
  shows "clock t' = clock t"
proof -
  have up: "clock (u\<lparr>t_cur_pid := x\<rparr>) = clock u" "clock (u\<lparr>t_rand := g\<rparr>) = clock u"
    for x g and u :: "('a, 'b, 'c) traffic_manager"
    by (simp_all add: clock_def)
  show ?thesis
    using assms unfolding GeneratePacket_def Let_def
    by (auto simp: up split: Option.bind_splits if_splits dest!: add_flits_clock read_write_packet_clock)
qed

lemma IssuePacket_clock: "IssuePacket C src cl t = Some (x, t') \<Longrightarrow> clock t' = clock t"
  by (auto simp: IssuePacket_def clock_def Let_def split: if_splits list.splits prod.splits Option.bind_splits)

lemma advance_qtime_clock [simp]: "clock (advance_qtime C n c stype t) = clock t"
  by (simp add: advance_qtime_def clock_def)

lemma generate_loop_clock:
  assumes "generate_loop C n c t = Some t'"
  shows "clock t' = clock t"
proof (rule generate_loop.raw_induct [OF _ assms])
  fix rec :: "tm_options \<Rightarrow> nat \<Rightarrow> nat \<Rightarrow> ('a, 'b, 'c) traffic_manager \<Rightarrow> ('a, 'b, 'c) traffic_manager option"
    and C n c and t t' :: "('a, 'b, 'c) traffic_manager"
  assume IH: "\<And>C n c t t'. rec C n c t = Some t' \<Longrightarrow> clock t' = clock t"
    and run: "(if t_qtime t ! n ! c \<le> int (t_time t)
      then IssuePacket C n c t \<bind>
           (\<lambda>(stype, t1).
               if stype \<noteq> 0
               then GeneratePacket C n stype c
                     (if o_include_queuing C = 1 then t_qtime t1 ! n ! c else int (t_time t1)) t1 \<bind>
                    (\<lambda>t2. Some (advance_qtime C n c stype t2))
               else rec C n c (advance_qtime C n c stype t1))
      else Some t) = Some t'"
  show "clock t' = clock t"
    using run by (auto split: if_splits Option.bind_splits dest!: IH IssuePacket_clock GeneratePacket_clock)
qed

lemma Inject_packets_clock:
  assumes "Inject_packets C t = Some t'"
  shows "clock t' = clock t"
proof -
  have cls: "clock u' = clock u" if "inject_class C n c u = Some u'" for n c and u u' :: "('a, 'b, 'c) traffic_manager"
    using that by (auto simp: inject_class_def clock_def split: if_splits Option.bind_splits
        dest!: generate_loop_clock)
  have classes: "clock u' = clock u" if "foldM (inject_class C n) cs u = Some u'"
    for n cs and u u' :: "('a, 'b, 'c) traffic_manager"
    using foldM_invariant [OF that, of "\<lambda>v. clock v = clock u"] cls by metis
  show ?thesis
  proof (rule foldM_invariant [OF assms [unfolded Inject_packets_def], of "\<lambda>v. clock v = clock t"])
    fix n and u u' :: "('a, 'b, 'c) traffic_manager"
    assume "clock u = clock t" "(if \<not> t_cores u ! n then Some u else foldM (inject_class C n) [0..<o_classes C] u) = Some u'"
    then show "clock u' = clock t" using classes by (auto split: if_splits)
  qed simp
qed

subsection \<open>A cycle\<close>

lemma Step_clock:
  assumes "Step C env M t = Some t'"
  shows "clock t' = (Suc (t_time t), t_sim_state t, t_empty_network t, t_drain_time t)"
    and "t_empty_network t \<Longrightarrow> \<not> flits_left t \<Longrightarrow> \<not> flits_left t'"
proof -
  obtain t1 flits t3 t4 t5 t6 where 1: "adapt_policies C (watch_deadlock C t) = Some t1"
    and 3: "foldM (eject_subnet C) [0..<o_subnets C] ([], fold (check_idle C) [0..<o_nodes C] t1) = Some (flits, t3)"
    and 4: "(if t_empty_network t3 then Some t3 else Inject_packets C t3) = Some t4"
    and 5: "foldM (inject_subnet C) [0..<o_subnets C] t4 = Some t5"
    and 6: "foldM (finish_subnet env M flits) [0..<o_subnets C] t5 = Some t6"
    and t': "t' = t6\<lparr>t_monitor_counter := t_monitor_counter t6 + 1, t_time := Suc (t_time t6)\<rparr>"
    using assms by (auto simp: Step_def Let_def split: Option.bind_splits)
  have w: "shrinks t (watch_deadlock C t)"
    by (auto simp: watch_deadlock_def clock_def intro!: shrinks_same)
  have idle: "shrinks u (fold (check_idle C) ns u)" for ns and u :: "('a, 'b, 'c) traffic_manager"
    by (induction ns arbitrary: u) (auto intro: shrinks_trans check_idle_shrinks)
  have eject: "shrinks (snd u) (snd u')" if "foldM (eject_subnet C) ss u = Some u'"
    for ss and u u' :: "(nat \<times> flit) list list \<times> ('a, 'b, 'c) traffic_manager"
    using that
  proof (induction ss arbitrary: u)
    case (Cons s ss)
    then obtain v where "eject_subnet C s u = Some v" "foldM (eject_subnet C) ss v = Some u'"
      by (auto split: option.splits)
    then show ?case using Cons.IH eject_subnet_shrinks shrinks_trans by blast
  qed simp
  have a: "shrinks t t3"
    using shrinks_trans [OF shrinks_trans [OF w adapt_policies_shrinks [OF 1]]
        shrinks_trans [OF idle eject [OF 3, unfolded snd_conv]]] .
  have b: "shrinks t4 t6"
    by (rule shrinks_trans [OF foldM_shrinks [OF 5 inject_subnet_shrinks] foldM_shrinks [OF 6 finish_subnet_shrinks]])
  have "clock t4 = clock t3" using 4 Inject_packets_clock by (auto split: if_splits)
  then have c: "clock t6 = clock t" using a b by (simp add: shrinks_def)
  then show "clock t' = (Suc (t_time t), t_sim_state t, t_empty_network t, t_drain_time t)"
    by (simp add: t' clock_def)
  show "\<not> flits_left t'" if "t_empty_network t" "\<not> flits_left t"
  proof -
    have "t4 = t3" using 4 a that(1) by (simp add: shrinks_def clock_def)
    then have "shrinks t t6" using a b shrinks_trans by blast
    then have len: "length (t_in_flight t6) = length (t_in_flight t)"
      and sub: "\<And>c. c < length (t_in_flight t) \<Longrightarrow> set (t_in_flight t6 ! c) \<subseteq> set (t_in_flight t ! c)"
      by (simp_all add: shrinks_def)
    have "t_in_flight t6 ! c = []" if "c < length (t_in_flight t)" for c
      using sub [OF that] nth_mem [OF that] \<open>\<not> flits_left t\<close> by (auto simp: flits_left_def)
    then show ?thesis by (auto simp: flits_left_def t' in_set_conv_nth len)
  qed
qed

lemma Steps_clock:
  "foldM (\<lambda>_. Step C env M) xs t = Some t' \<Longrightarrow>
    clock t' = (t_time t + length xs, t_sim_state t, t_empty_network t, t_drain_time t)"
proof (induction xs arbitrary: t)
  case (Cons x xs)
  then obtain u where "Step C env M t = Some u" "foldM (\<lambda>_. Step C env M) xs u = Some t'"
    by (auto split: option.splits)
  then show ?case using Cons.IH [of u] Step_clock(1) [of C env M t u] by (simp add: clock_def)
qed (simp add: clock_def)

subsection \<open>A simulation\<close>

text \<open>What holds between two sample periods: the time that has passed is that of the periods, and the
  simulation is still warming up or running.\<close>

definition under_way :: "sim_config \<Rightarrow> nat \<Rightarrow> phases \<times> ('v, 'w, 'x) traffic_manager \<Rightarrow> bool" where
  "under_way S start s \<longleftrightarrow> (case s of (p, t) \<Rightarrow>
     t_time t = start + ph_total p * sc_sample_period S \<and> ph_total p \<le> sc_max_samples S \<and>
     t_sim_state t \<noteq> sim_draining \<and> (t_sim_state t = warming_up \<longrightarrow> ph_converged p = 0))"

lemma sim_phase_under_way:
  assumes "sim_phase C S env M s = Some s'" and "under_way S start s" and "more_phases S (fst s) (snd s)"
  shows "under_way S start s'"
proof -
  obtain p0 t0 p t where s: "s = (p0, t0)" and st: "start_phase C p0 t0 = (p, t)"
    by (cases s; cases "start_phase C (fst s) (snd s)") simp
  obtain t1 exceeded prev p2 t2 where 1: "foldM (\<lambda>_. Step C env M) [0..<sc_sample_period S] t = Some t1"
    and 2: "end_phase S exceeded (p\<lparr>ph_prev_accepted := prev\<rparr>) t1 = (p2, t2)"
    and s': "s' = (p2\<lparr>ph_total := Suc (ph_total p2)\<rparr>, t2)"
    using assms(1) by (auto simp: sim_phase_def s st split: Option.bind_splits prod.splits)
  have a: "t_time t = t_time t0" "t_sim_state t = t_sim_state t0" "ph_total p = ph_total p0"
    "ph_converged p = ph_converged p0"
    using st by (auto simp: start_phase_def ClearStats_def Let_def split: if_splits)
  have b: "t_time t1 = t_time t + sc_sample_period S" "t_sim_state t1 = t_sim_state t"
    using Steps_clock [OF 1] by (simp_all add: clock_def)
  have c: "t_time t2 = t_time t1" "ph_total p2 = ph_total p" "t_sim_state t1 \<noteq> sim_draining \<Longrightarrow> t_sim_state t2 \<noteq> sim_draining"
    "t_sim_state t2 = warming_up \<Longrightarrow> t_sim_state t1 = warming_up \<and> ph_converged p2 = ph_converged p"
    using 2 by (auto simp: end_phase_def split: if_splits)
  show ?thesis using assms(2,3) a b c by (auto simp: under_way_def s s' more_phases_def algebra_simps)
qed

lemma sim_phases_under_way:
  "sim_phases C S env M s = Some s' \<Longrightarrow> under_way S start s \<Longrightarrow>
    under_way S start s' \<and> \<not> more_phases S (fst s') (snd s')"
proof (induction C S env M s rule: sim_phases.induct)
  case (1 C S env M s)
  show ?case
  proof (cases "more_phases S (fst s) (snd s)")
    case True
    then obtain u where "sim_phase C S env M s = Some u" "sim_phases C S env M u = Some s'"
      using "1.prems"(1) by (subst (asm) sim_phases.simps) (auto split: option.splits)
    then show ?thesis using "1.IH" [OF True, of u] sim_phase_under_way "1.prems"(2) True by blast
  next
    case False
    then show ?thesis using "1.prems" by (subst (asm) sim_phases.simps) auto
  qed
qed

text \<open>C17: how a simulation ends.  A simulation that starts warming up takes at most \<open>_max_samples\<close> sample
  periods.  It ends in the state \<open>draining\<close> and reports success if and only if it got past the warm-up; it
  reports failure exactly when it was still warming up after the last of those periods.  So a throughput
  that never settles after the warm-up is reported as a stable simulation, whatever
  \<open>_converged_threshold\<close> is.\<close>

theorem SingleSim_outcome:
  assumes "SingleSim C S env M t = Some (ok, t')" and "t_sim_state t = warming_up"
  shows "t_time t' \<le> t_time t + sc_max_samples S * sc_sample_period S \<and> (ok \<longleftrightarrow> t_sim_state t' = sim_draining) \<and>
    (ok \<or> (t_sim_state t' = warming_up \<and> t_time t' = t_time t + sc_max_samples S * sc_sample_period S))"
proof -
  let ?p = "\<lparr>ph_converged = 0, ph_prev_accepted = replicate (o_classes C) 0, ph_clear_last = False, ph_total = 0\<rparr>"
  obtain p t1 where 1: "sim_phases C S env M (?p, t) = Some (p, t1)"
    and r: "(ok, t') = (if t_sim_state t1 = running
           then (Suc (ph_converged p) > 0, t1\<lparr>t_sim_state := sim_draining, t_drain_time := int (t_time t1)\<rparr>)
           else (ph_converged p > 0, t1))"
    using assms(1) by (auto simp: SingleSim_def split: Option.bind_splits)
  have "under_way S (t_time t) (?p, t)" using assms(2) by (simp add: under_way_def)
  from sim_phases_under_way [OF 1 this]
  have u: "under_way S (t_time t) (p, t1)" "\<not> more_phases S p t1" by simp_all
  show ?thesis using r u by (cases "t_sim_state t1") (auto simp: under_way_def more_phases_def split: if_splits)
qed

subsection \<open>A run\<close>

lemma step_while_keeps:
  assumes "step_while pending C env M t = Some t'" and "resting C t" and "t_empty_network t" and "\<not> flits_left t"
  shows "resting C t' \<and> t_empty_network t' \<and> \<not> flits_left t'"
proof -
  have "resting C t \<and> t_empty_network t \<and> \<not> flits_left t \<longrightarrow> resting C t' \<and> t_empty_network t' \<and> \<not> flits_left t'"
  proof (rule step_while.raw_induct [OF _ assms(1)])
    fix rec :: "(('a, 'b, 'c) traffic_manager \<Rightarrow> nat) \<Rightarrow> tm_options \<Rightarrow> (nat \<Rightarrow> nat \<Rightarrow> flov_router router_env) \<Rightarrow>
      ('a, 'b, 'c) alloc_methods \<Rightarrow> ('a, 'b, 'c) traffic_manager \<Rightarrow> ('a, 'b, 'c) traffic_manager option"
    fix pending C env M and t t' :: "('a, 'b, 'c) traffic_manager"
    assume IH: "\<And>pending C env M t t'. rec pending C env M t = Some t' \<Longrightarrow>
        resting C t \<and> t_empty_network t \<and> \<not> flits_left t \<longrightarrow> resting C t' \<and> t_empty_network t' \<and> \<not> flits_left t'"
      and run: "(if pending t \<noteq> 0 then Step C env M t \<bind> rec pending C env M else Some t) = Some t'"
    show "resting C t \<and> t_empty_network t \<and> \<not> flits_left t \<longrightarrow> resting C t' \<and> t_empty_network t' \<and> \<not> flits_left t'"
    proof (cases "pending t = 0")
      case False
      then obtain t1 where 1: "Step C env M t = Some t1" and 2: "rec pending C env M t1 = Some t'"
        using run by (auto split: Option.bind_splits)
      show ?thesis using IH [OF 2] Step_resting [OF 1] Step_clock [OF 1] by (auto simp: clock_def)
    qed (use run in simp)
  qed
  then show ?thesis using assms(2-4) by blast
qed

lemma drain_network_flag:
  assumes "drain_network C env M t = Some t'"
  shows "t_empty_network t' = t_empty_network t"
proof (rule drain_network.raw_induct [OF _ assms])
  fix rec :: "tm_options \<Rightarrow> (nat \<Rightarrow> nat \<Rightarrow> flov_router router_env) \<Rightarrow> ('a, 'b, 'c) alloc_methods \<Rightarrow>
    ('a, 'b, 'c) traffic_manager \<Rightarrow> ('a, 'b, 'c) traffic_manager option"
  fix C env M and t t' :: "('a, 'b, 'c) traffic_manager"
  assume IH: "\<And>C env M t t'. rec C env M t = Some t' \<Longrightarrow> t_empty_network t' = t_empty_network t"
    and run: "(if flits_left t then Step C env M t \<bind> rec C env M else Some t) = Some t'"
  show "t_empty_network t' = t_empty_network t"
  proof (cases "flits_left t")
    case True
    then obtain t1 where 1: "Step C env M t = Some t1" and 2: "rec C env M t1 = Some t'"
      using run by (auto split: Option.bind_splits)
    show ?thesis using IH [OF 2] Step_clock(1) [OF 1] by (simp add: clock_def)
  qed (use run in simp)
qed

lemma resting_sim_updates:
  "resting C (t\<lparr>t_empty_network := b\<rparr>) = resting C t" "resting C (t\<lparr>t_sim_state := st\<rparr>) = resting C t"
  "resting C (t\<lparr>t_drain_time := d\<rparr>) = resting C t"
  "resting C (ClearStats C t) = resting C t" "resting C (start_sim C t) = resting C t"
  by (rule resting_cong, simp add: book_def ClearStats_def start_sim_def Let_def)+

lemma Steps_resting: "foldM (\<lambda>_. Step C env M) xs t = Some t' \<Longrightarrow> resting C t \<Longrightarrow> resting C t'"
  by (rule foldM_invariant [where P = "resting C"]) (auto dest: Step_resting)

lemma sim_phase_resting:
  assumes "sim_phase C S env M s = Some s'" and "resting C (snd s)"
  shows "resting C (snd s')"
proof -
  obtain p0 t0 p t where s: "s = (p0, t0)" and st: "start_phase C p0 t0 = (p, t)"
    by (cases s; cases "start_phase C (fst s) (snd s)") simp
  obtain t1 exceeded prev p2 t2 where 1: "foldM (\<lambda>_. Step C env M) [0..<sc_sample_period S] t = Some t1"
    and 2: "end_phase S exceeded (p\<lparr>ph_prev_accepted := prev\<rparr>) t1 = (p2, t2)"
    and s': "s' = (p2\<lparr>ph_total := Suc (ph_total p2)\<rparr>, t2)"
    using assms(1) by (auto simp: sim_phase_def s st split: Option.bind_splits prod.splits)
  have "resting C t" using st assms(2) by (auto simp: s start_phase_def resting_sim_updates split: if_splits)
  then have "resting C t1" by (rule Steps_resting [OF 1])
  then show ?thesis using 2 by (auto simp: s' end_phase_def resting_sim_updates split: if_splits)
qed

lemma sim_phases_resting: "sim_phases C S env M s = Some s' \<Longrightarrow> resting C (snd s) \<Longrightarrow> resting C (snd s')"
proof (induction C S env M s rule: sim_phases.induct)
  case (1 C S env M s)
  show ?case
  proof (cases "more_phases S (fst s) (snd s)")
    case True
    then obtain u where "sim_phase C S env M s = Some u" "sim_phases C S env M u = Some s'"
      using "1.prems"(1) by (subst (asm) sim_phases.simps) (auto split: option.splits)
    then show ?thesis using "1.IH" [OF True, of u] sim_phase_resting "1.prems"(2) by blast
  next
    case False
    then show ?thesis using "1.prems" by (subst (asm) sim_phases.simps) auto
  qed
qed

lemma SingleSim_resting:
  assumes "SingleSim C S env M t = Some (ok, t')" and "resting C t"
  shows "resting C t'"
proof -
  obtain p0 p t1 where "sim_phases C S env M (p0, t) = Some (p, t1)"
    and t': "t' = t1 \<or> t' = t1\<lparr>t_sim_state := sim_draining, t_drain_time := int (t_time t1)\<rparr>"
    using assms(1) by (auto simp: SingleSim_def split: Option.bind_splits if_splits)
  then have "resting C t1" using sim_phases_resting assms(2) by fastforce
  then show ?thesis using t' by (auto simp: resting_sim_updates)
qed

lemma empty_network_ends:
  assumes "empty_network credits handshakes C env M t = Some t'" and "resting C t"
  shows "resting C t' \<and> \<not> flits_left t' \<and> \<not> t_empty_network t'"
proof -
  obtain t1 t2 t3 where 1: "drain_network C env M (t\<lparr>t_empty_network := True\<rparr>) = Some t1"
    and 2: "step_while credits C env M t1 = Some t2" and 3: "step_while handshakes C env M t2 = Some t3"
    and t': "t' = t3\<lparr>t_empty_network := False\<rparr>"
    using assms(1) by (auto simp: empty_network_def split: Option.bind_splits)
  have a: "resting C t1" "\<not> flits_left t1" using drain_network_ends [OF 1] assms(2) by (simp_all add: resting_sim_updates)
  have b: "t_empty_network t1" using drain_network_flag [OF 1] by simp
  have c: "resting C t2" "\<not> flits_left t2" "t_empty_network t2" using step_while_keeps [OF 2 a(1) b a(2)] by simp_all
  have "resting C t3" "\<not> flits_left t3" using step_while_keeps [OF 3 c(1,3,2)] by simp_all
  then show ?thesis by (simp add: t' resting_sim_updates flits_left_def)
qed

text \<open>C3: every simulation leaves an empty network.  When \<open>Run\<close> reports success, the flags are back as
  they were, the books balance and no flit is left: none waits at a node, and none is in a router, asleep
  or awake, or on a channel, whatever traffic the simulations had and however many there were.\<close>

theorem Run_ends_empty:
  assumes "Run credits handshakes C S env M t = Some (True, t')" and "at_rest C t" and "in_books t"
    and "0 < sc_total_sims S"
  shows "in_books t' \<and> \<not> t_empty_network t' \<and> (\<forall>net \<in> set (t_net t'). net_flits net = {#}) \<and>
    (\<forall>row \<in> set (t_partial t'). \<forall>q \<in> set row. q = [])"
proof -
  let ?left = "\<lambda>u. resting C u \<and> \<not> flits_left u \<and> \<not> t_empty_network u"
  have turn: "fst s' \<longrightarrow> ?left (snd s')"
    if "run_sim credits handshakes C S env M sim s = Some s'" "fst s \<longrightarrow> resting C (snd s)" for sim s s'
    using that empty_network_ends SingleSim_resting [of C S env M "start_sim C (snd s)"]
    by (fastforce simp: run_sim_def resting_sim_updates split: prod.splits if_splits Option.bind_splits)
  have turns: "fst s' \<longrightarrow> ?left (snd s')"
    if "foldM (run_sim credits handshakes C S env M) sims s = Some s'" "sims \<noteq> []" "fst s \<longrightarrow> resting C (snd s)"
    for sims s s'
    using that
  proof (induction sims arbitrary: s)
    case (Cons sim sims)
    then obtain v where v: "run_sim credits handshakes C S env M sim s = Some v"
      "foldM (run_sim credits handshakes C S env M) sims v = Some s'"
      by (auto split: option.splits)
    then show ?case using Cons turn by (cases "sims = []") auto
  qed simp
  have "resting C t" using assms(2,3) by (simp add: resting_def)
  then have "?left t'" using turns [OF assms(1) [unfolded Run_def]] assms(4) by simp
  then show ?thesis using nothing_left [of t'] by (simp add: resting_def)
qed

subsection \<open>An example\<close>

text \<open>On the wires of a network there are all the credits and handshakes in use when no router holds any.\<close>

definition on_wire :: "'d channel \<Rightarrow> nat" where
  "on_wire ch = length (wait_queue ch) + (if ch_input ch = None then 0 else 1) + (if ch_output ch = None then 0 else 1)"

definition credits_on_wires :: "('v, 'w, 'x) traffic_manager \<Rightarrow> nat" where
  "credits_on_wires t =
     (\<Sum>net\<leftarrow>t_net t. \<Sum>ch\<leftarrow>chan_cred net @ inject_cred net @ eject_cred net. on_wire ch)"

definition handshakes_on_wires :: "('v, 'w, 'x) traffic_manager \<Rightarrow> nat" where
  "handshakes_on_wires t = (\<Sum>net\<leftarrow>t_net t. \<Sum>ch\<leftarrow>chan_handshake net. on_wire ch)"

text \<open>A 2x2 mesh of routers that stay on, all cores parked; router 1 has just sent the last flit to its node.\<close>

definition last_flit_mesh :: "(selalloc, selalloc, selalloc) network" where
  "last_flit_mesh = example_mesh\<lparr>
     routers := bump (\<lambda>r. r\<lparr>next_buf := bump (\<lambda>b. the (SendingFlit 0 last_flit (the (TakeBuffer 0 0 b)))) 4 (next_buf r)\<rparr>) 1
       (map (\<lambda>r. r\<lparr>router_state := True\<rparr>) (routers example_mesh)),
     eject := bump (\<lambda>ch. ch\<lparr>ch_output := Some last_flit\<rparr>) 1 (eject example_mesh)\<rparr>"

definition last_sim :: "(selalloc, selalloc, selalloc) traffic_manager" where
  "last_sim = example_manager\<lparr>t_net := [last_flit_mesh], t_cores := replicate 4 False, t_cur_id := 1, t_in_flight := [[0]]\<rparr>"

definition short_sim :: sim_config where
  "short_sim = \<lparr>sc_sample_period = 1, sc_max_samples = 1, sc_warmup_periods = 1, sc_converged_threshold = 3,
     sc_acc_warmup_threshold = [1/20], sc_acc_stopping_threshold = [1/20], sc_total_sims = 1\<rparr>"

lemma last_sim_resting: "at_rest example_options last_sim" "in_books last_sim"
proof -
  have "net_ok last_flit_mesh" "latches_empty last_flit_mesh" "node_count last_flit_mesh = 4"
    "image_mset tag (net_flits last_flit_mesh) = {#(0, 0)#}"
    by code_simp+
  then show "at_rest example_options last_sim" "in_books last_sim"
    by (simp_all add: at_rest_def in_books_def tm_ok_def last_sim_def example_manager_def idle_manager_def
        example_options_def filed_def given_out_def known_def waiting_def numeral_eq_Suc)
qed

lemma Run_ends_empty_witness:
  "\<exists>t'. Run credits_on_wires handshakes_on_wires example_options short_sim (\<lambda>_. example_mesh_env) example_methods last_sim =
      Some (True, t') \<and> (\<forall>net \<in> set (t_net t'). net_flits net = {#})"
proof -
  have "map_option fst (Run credits_on_wires handshakes_on_wires example_options short_sim (\<lambda>_. example_mesh_env)
      example_methods last_sim) = Some True"
    by code_simp
  then obtain t' where "Run credits_on_wires handshakes_on_wires example_options short_sim (\<lambda>_. example_mesh_env)
      example_methods last_sim = Some (True, t')" by auto
  with Run_ends_empty [OF this last_sim_resting] show ?thesis by (auto simp: short_sim_def)
qed

lemma SingleSim_outcome_witness:
  "\<exists>t'. SingleSim example_options (short_sim\<lparr>sc_warmup_periods := 2\<rparr>) (\<lambda>_. example_mesh_env) example_methods last_sim =
      Some (False, t') \<and> t_time t' = 1"
proof -
  have "map_option fst (SingleSim example_options (short_sim\<lparr>sc_warmup_periods := 2\<rparr>) (\<lambda>_. example_mesh_env)
      example_methods last_sim) = Some False"
    by code_simp
  then obtain t' where "SingleSim example_options (short_sim\<lparr>sc_warmup_periods := 2\<rparr>) (\<lambda>_. example_mesh_env)
      example_methods last_sim = Some (False, t')" by auto
  with SingleSim_outcome [OF this] show ?thesis
    by (auto simp: short_sim_def last_sim_def example_manager_def idle_manager_def)
qed

end
