(* ===== verification/Spec2Isabelle.thy ===== *)
theory Spec2Isabelle
  imports Output_Set Flits Channels Buffers Buffer_States Credit_Flow Policy_Invariant Mesh Routers Power_FSM
    Power_Safety Power_Properties Handshakes Handshake_Properties Bypass Topology Routing
    Dimension_Order Escape_Routing
    Arbiters Arbiter_Properties Round_Robin Matrix_Precedence Tree_Fairness
    Allocators Allocator_Properties Maximum_Matching
    Wavefront_Stability Sparse_Allocators Sparse_Contract Iterative_Matching Separable_Grants Select_Allocator
    Network_Conservation
    Parking_Connected Traffic_Properties Injection Packet_Properties Drained
    Simulation_Run Simulation_Properties
begin

text \<open>
  FLOV: a verification library for the network-on-chip simulator of src/booksim2, a BookSim 2 extended with
  power-gated routers that stay "fly-over" links while they sleep.

  THE PROGRAM.  Terminals inject packets, split in flits, into routers joined by channels (flit, credit and
  handshake channels, src/booksim2/src/channel.hpp).  A router keeps an input buffer per port with several
  virtual channels (VCs) and, for each output, a \<open>BufferState\<close>: the credits it has for the
  buffers of the next router.  A routing function offers output ports and VC ranges (an
  \<open>OutputSet\<close>); a pipeline of stages routes the head flit, allocates a VC and the switch, and
  moves flits through the crossbar.  \<open>FLOVRouter\<close> adds a power state (on, draining, off,
  wakeup).  A router that has been voted off drains: it asks each neighbour, by a handshake, to stop
  sending, collects their drain tags, empties its own datapath and goes to sleep.  Asleep, it passes flits,
  credits and handshakes straight from one port to the opposite one; its neighbours then see, as their
  "downstream state" and "logical neighbour", the router behind it.  When it wakes, the same request and
  tags run before it uses its buffers again.  \<open>Network\<close> owns routers and channels, decides
  which cores and routers are parked, and runs each phase of a cycle over all of them.
  \<open>FLOVTrafficManager\<close> makes packets by a traffic pattern and an injection process, injects and
  retires flits, votes on the power-gating policy, wakes routers, and runs simulations until they converge.

  THE LIBRARY, from the bottom up; the names of files are those under src/booksim2/src.
  \<^item> Prelude: failure as \<open>None\<close> (\<open>assertion\<close>, \<open>foldM\<close>),
    \<open>std::map<int, T>\<close> as a sorted association list (\<open>omap\<close>),
    \<open>std::set<int>\<close> as a sorted list, \<open>resize\<close>.
  \<^item> Output_Set: outputset.cpp.  Flits: flit.cpp, credit.cpp, handshake.cpp and the object pools.
    Channels: channel.hpp, flitchannel.cpp.  Buffers: vc.cpp, buffer.cpp.
  \<^item> Buffer_States: buffer_state.cpp with its seven sharing policies.  Credit_Flow: the contract
    of a policy (a locale interpreted on the policies), and credit flow control over a link as an inductive
    step relation, with the invariant that makes overflow impossible.  Policy_Invariant: the counters of
    the shared policies stay consistent over every run of operations, so the policies keep the contract.
  \<^item> Mesh, Routers: directions, edges, and the records \<open>router\<close>,
    \<open>iq_router\<close>, \<open>flov_router\<close> that extend each other as the classes of
    routers/router.hpp, iq_router.hpp and flov_router.hpp do.
  \<^item> Power_FSM: \<open>PowerStateEvaluate\<close> of routers/flov_router.cpp, one definition per arm
    of its three state machines (G-FLOV, R-FLOV, No-FLOV), and the policy changes.  Power_Safety: the
    contract of one evaluation, as a locale that each state machine interprets, and runs of evaluations
    between which the rest of the simulator acts.  Power_Properties: what follows for whole runs.
  \<^item> Handshakes: \<open>_HandshakeEvaluate\<close>, \<open>_HandshakeResponse\<close> and the
    handshake queues. Handshake_Properties: what one handshake does to the port it came through, and that a
    drain request gets its answer.
  \<^item> Bypass: \<open>_FlovStep\<close>, the datapath of a sleeping router.
  \<^item> Topology: networks/kncube.cpp.  Routing: the mesh functions of routefunc.cpp.  Dimension_Order:
    progress of dimension-order routing, as a locale with an instance for each order. Escape_Routing: the
    escape channels of the FLOV routing functions.
  \<^item> Arbiters: arbiters/*.cpp, with the virtual functions as a record of operations.
    Arbiter_Properties: the contract of an arbiter and that of a fair one, as locales.  Round_Robin,
    Matrix_Precedence and Tree_Fairness interpret them; a tree inherits them by a sublocale.
  \<^item> Allocators and Sparse_Allocators: allocators/*.cpp.  Allocator_Properties: the contract of an
    allocator, as a locale.  Maximum_Matching, Wavefront_Stability, Iterative_Matching (PIM, iSLIP, LOA),
    Separable_Grants and Select_Allocator interpret it; Sparse_Contract is the invariant of the two tables
    of requests.
  \<^item> Router_Allocators, Pipeline, VC_Allocation, Switching, Switch_Allocation, Switch_Traversal and
    Router_Step: the pipeline of \<open>IQRouter\<close> (routers/iq_router.cpp) and what
    \<open>FLOVRouter\<close> overrides, stage by stage and as the cycle \<open>ReadInputs\<close>,
    \<open>_InternalStep\<close>, \<open>WriteOutputs\<close>.  Flit_Conservation and Router_Flits: no stage
    and no cycle loses or doubles a flit.
  \<^item> Network: networks/network.cpp over a k-ary n-cube of FLOV routers.  Network_Conservation: the
    same for a cycle of all modules.  Core_Parking: the choice of parked cores and routers in
    \<open>Network::_Alloc\<close>; Parking_Choice and Parking_Connected: what is chosen.
  \<^item> Random_Utils: random_utils.hpp and the lists of config_utils.cpp.  Traffic: traffic.cpp, every
    pattern; Traffic_Properties.  Injection: injection.cpp, stats.cpp.
  \<^item> Traffic_Manager and Traffic_Step: flovtrafficmanager.cpp and what it inherits from
    trafficmanager.cpp, up to \<open>_Step\<close>; Packet_Properties: new packets.  Traffic_Packets,
    Traffic_Conservation and Drained: the books of the flits in flight.  Simulation_Run and
    Simulation_Properties: \<open>_SingleSim\<close> and \<open>Run\<close>.

  CONVENTIONS.  Each C++ operation is one definition with the name it has in the source, where HOL allows
  it.  A failed \<open>assert\<close> and a call of \<open>Error\<close> are \<open>None\<close>, so that
  "does not fail" is a statement.  Objects that a container owns are values; where two places hold the same
  pointer and one of them writes (a handshake that is relayed) the model puts the written value where it is
  read.  Integers are unbounded where the code's counters are bounded by the configuration, natural numbers
  where they index, and kept at 32 bits where the code relies on the width (the unsigned number of parked
  cores); C++ division of possibly negative numbers is \<open>sdiv\<close> and \<open>smod\<close>, and
  \<open>double\<close> is \<open>rat\<close>.  \<open>GetSimTime()\<close> is an argument, and random draws
  are taken from sequences that are part of the state (\<open>rng\<close>) or arguments.  Output for watched
  flits and routers, and code under \<open>TRACK_FLOWS\<close>, \<open>TRACK_STALLS\<close> and
  \<open>TRACK_BUFFERS\<close>, which no build enables, is left out. Most loops are folds or terminating
  recursions.  A loop that need not end is a \<open>partial_function (option)\<close>, for which not ending
  is \<open>None\<close>: drawing until a number will do (\<open>draw_until\<close>, \<open>redraw\<close>,
  \<open>Background_dest\<close>), \<open>generate_loop\<close>, the search for augmenting paths
  (\<open>ms_flip\<close>, \<open>ms_augment_all\<close>) and waiting for the network
  (\<open>drain_network\<close>, \<open>step_while\<close>).  For drawing a core to park,
  a destination and the augmenting paths it is proved when they end; for the others only what holds when
  they have ended. No fuel is used.

  WHAT IS PROVED. Power gating: every transition is one of five and is announced to exactly the neighbours
  there are; a router falls asleep only with an empty datapath and wakes only through the wakeup state;
  drains are bounded by the threshold.  The protocol: handshakes change a port as they say; sleeping routers
  are transparent for them; a drain tag is sent exactly when nothing is on its way. Datapath: over any
  cycle, whatever the power states, a router, the network and the whole simulation neither lose nor double a
  flit, so the traffic manager's numbers of the flits in flight are exact and a drained simulation leaves
  empty networks and queues; bypassed flits go straight, saved credits are neither lost nor invented,
  buffers do not overflow.  Allocation: arbiters pick a request of top priority and starve none, allocators
  grant matchings, maximal, maximum or stable ones according to their kind; SelAlloc with two iterations
  does not.  Routing: dimension order delivers, and the escape channels have no cyclic dependency
  when routers see their neighbours rightly, flits flying over whatever routers sleep.  Parking:
  which cores are drawn and when the draws end, conservative parking is maximal without neighbours,
  aggressive parking keeps the network connected.  Traffic: destinations are nodes, bit patterns are
  permutations, packets are well formed, and the search for a destination whose core is on ends for uniform
  traffic and never for a fixed destination that is parked.  Simulations take at most the configured number
  of periods and report success exactly when they got past the warm-up. Where the code falls short of what
  its comments or its other parts say, a theorem states what it does.

  NOT MODELLED.  Latency mode (\<open>sim_type = latency\<close>), \<open>_pair_stats\<close>, the overall
  statistics and all output; an \<open>internal_speedup\<close> other than 1; link faults;
  \<open>InjectionProcess::New\<close> and the configuration parser.  In the theorems on a router or network
  the routing and look-ahead functions are parameters.  The generators behind the random draws are vendored
  and enter as the sequences they return.  The routers, topologies, routing functions and traffic managers
  of other schemes (router parking's and NoRD's routers, chaos and event routers, torus and tree networks,
  batch mode), the power models, which are floating-point estimates, and the gem5 tree are left aside: power
  gating does not run on them, or they are third-party code.
\<close>

end
